(* ===== verification/Prelude.thy ===== *)
theory Prelude
  imports Main "HOL-Library.Word" "HOL-Library.Sublist"
begin

text \<open>
  The shared vocabulary of the development: the types that name the machine integers and byte
  buffers of the Rust sources, the outcome of a Rust call (a value, an error returned through
  \<open>Result\<close>, or a panic), sequencing of fallible calls (the \<open>?\<close> operator), checked slicing, and
  generic lemmas on lists, bit strings and folds that several components use.
\<close>

section \<open>Machine types\<close>

type_synonym u8 = "8 word"
type_synonym u16 = "16 word"
type_synonym u32 = "32 word"
type_synonym bytes = "u8 list"
type_synonym header = "bytes \<times> bytes"

unbundle bit_operations_syntax

text \<open>Byte-string literals: \<open>byte_str ''GET''\<close> is Rust's \<open>b"GET"\<close>.\<close>

definition byte_str :: "string \<Rightarrow> bytes" where
  "byte_str s = map of_char s"

section \<open>Outcomes of Rust calls\<close>

text \<open>
  \<open>Ok\<close> and \<open>Err\<close> are the constructors of \<open>Result\<close>; \<open>Panic\<close> is a call that does not return
  because of a \<open>panic!\<close>, an \<open>unreachable!\<close>, a failed \<open>assert!\<close>, an out-of-range slice or an
  arithmetic overflow (which panics with overflow checks on).
\<close>

datatype ('a, 'e) result = Ok 'a | Err 'e | Panic

fun and_then :: "('a, 'e) result \<Rightarrow> ('a \<Rightarrow> ('b, 'e) result) \<Rightarrow> ('b, 'e) result" where
  "and_then (Ok v) f = f v"
| "and_then (Err e) f = Err e"
| "and_then Panic f = Panic"

fun map_err :: "('e \<Rightarrow> 'd) \<Rightarrow> ('a, 'e) result \<Rightarrow> ('a, 'd) result" where
  "map_err g (Ok v) = Ok v"
| "map_err g (Err e) = Err (g e)"
| "map_err g Panic = Panic"

definition ok_or :: "'a option \<Rightarrow> 'e \<Rightarrow> ('a, 'e) result" where
  "ok_or x e = (case x of None \<Rightarrow> Err e | Some v \<Rightarrow> Ok v)"

text \<open>\<open>&buf[n..]\<close> and \<open>buf[i]\<close>: a panic when out of range.\<close>

definition slice_from :: "'a list \<Rightarrow> nat \<Rightarrow> ('a list, 'e) result" where
  "slice_from buf n = (if n \<le> length buf then Ok (drop n buf) else Panic)"

definition index_at :: "'a list \<Rightarrow> nat \<Rightarrow> ('a, 'e) result" where
  "index_at buf i = (if i < length buf then Ok (buf ! i) else Panic)"

text \<open>
  Calls that also change a state (\<open>&mut self\<close>, a writer): the outcome beside the new state,
  which keeps what was done before an error.
\<close>

fun bind_st ::
    "('a, 'e) result \<times> 's \<Rightarrow> ('a \<Rightarrow> 's \<Rightarrow> ('b, 'e) result \<times> 's) \<Rightarrow> ('b, 'e) result \<times> 's" where
  "bind_st (Ok v, s) f = f v s"
| "bind_st (Err e, s) f = (Err e, s)"
| "bind_st (Panic, s) f = (Panic, s)"

named_theorems result_simps \<open>unfolding of the sequencing operations\<close>

lemma and_then_eq_Ok [result_simps]:
  "and_then r f = Ok v \<longleftrightarrow> (\<exists>x. r = Ok x \<and> f x = Ok v)"
  by (cases r) auto

lemma and_then_eq_Err [result_simps]:
  "and_then r f = Err e \<longleftrightarrow> r = Err e \<or> (\<exists>x. r = Ok x \<and> f x = Err e)"
  by (cases r) auto

lemma and_then_eq_Panic [result_simps]:
  "and_then r f = Panic \<longleftrightarrow> r = Panic \<or> (\<exists>x. r = Ok x \<and> f x = Panic)"
  by (cases r) auto

lemma bind_st_eq_Ok [result_simps]:
  "bind_st p f = (Ok v, s) \<longleftrightarrow> (\<exists>x s'. p = (Ok x, s') \<and> f x s' = (Ok v, s))"
  by (cases p; cases "fst p") auto

lemma fst_bind_st_eq_Panic [result_simps]:
  "fst (bind_st p f) = Panic \<longleftrightarrow> fst p = Panic \<or> (\<exists>x s'. p = (Ok x, s') \<and> fst (f x s') = Panic)"
  by (cases p; cases "fst p") auto

lemma map_err_eq_Ok [result_simps]: "map_err g r = Ok v \<longleftrightarrow> r = Ok v"
  by (cases r) auto

lemma map_err_eq_Panic [result_simps]: "map_err g r = Panic \<longleftrightarrow> r = Panic"
  by (cases r) auto

lemma ok_or_simps [simp]:
  "ok_or None e = Err e"
  "ok_or (Some v) e = Ok v"
  by (simp_all add: ok_or_def)

lemma ok_or_eq [result_simps]:
  "ok_or x e = Ok v \<longleftrightarrow> x = Some v"
  "ok_or x e = Panic \<longleftrightarrow> False"
  by (cases x; simp)+

lemma slice_from_eq [result_simps]:
  "slice_from buf n = Ok r \<longleftrightarrow> n \<le> length buf \<and> r = drop n buf"
  "slice_from buf n = Err e \<longleftrightarrow> False"
  "slice_from buf n = Panic \<longleftrightarrow> length buf < n"
  by (auto simp: slice_from_def)

lemma index_at_eq [result_simps]:
  "index_at buf i = Ok r \<longleftrightarrow> i < length buf \<and> r = buf ! i"
  "index_at buf i = Err e \<longleftrightarrow> False"
  "index_at buf i = Panic \<longleftrightarrow> length buf \<le> i"
  by (auto simp: index_at_def)

lemma result_cases_not_panic:
  assumes "r \<noteq> Panic"
  obtains (Ok) v where "r = Ok v" | (Err) e where "r = Err e"
  using assms by (cases r) auto

section \<open>Words\<close>

lemma unat_u8_less: "unat (x :: u8) < 256"
proof -
  have "unat x < 2 ^ LENGTH(8)" by (rule unsigned_less)
  then show ?thesis by simp
qed

lemma unat_u32_less: "unat (x :: u32) < 4294967296"
proof -
  have "unat x < 2 ^ LENGTH(32)" by (rule unsigned_less)
  then show ?thesis by simp
qed

end
