(* ===== verification/Hpack_Tables.thy ===== *)
theory Hpack_Tables
  imports Prelude
begin

text \<open>
  The header tables of HPACK (\<open>crates/loona-hpack/src/lib.rs\<close>): the dynamic table with its
  size accounting and FIFO eviction, the static table, and the header table that merges the two
  into one 1-based index space. The abstract view of the dynamic table is the list of its
  entries, newest first; eviction is specified by \<open>fit\<close>, the longest prefix of a list of
  entries whose total size stays within a bound.
\<close>

section \<open>The dynamic table\<close>

record dynamic_table =
  dt_table :: "header list"
  dt_size :: nat
  dt_max_size :: nat

definition entry_size :: "header \<Rightarrow> nat" where
  "entry_size h = length (fst h) + length (snd h) + 32"

definition with_size :: "nat \<Rightarrow> dynamic_table" where
  "with_size max_size = \<lparr>dt_table = [], dt_size = 0, dt_max_size = max_size\<rparr>"

definition dynamic_table_new :: dynamic_table where
  "dynamic_table_new = with_size 4096"

definition get_size :: "dynamic_table \<Rightarrow> nat" where
  "get_size t = dt_size t"

definition dt_iter :: "dynamic_table \<Rightarrow> header list" where
  "dt_iter t = map (\<lambda>(n, v). (n, v)) (dt_table t)"

definition dt_len :: "dynamic_table \<Rightarrow> nat" where
  "dt_len t = length (dt_table t)"

definition dt_get :: "dynamic_table \<Rightarrow> nat \<Rightarrow> header option" where
  "dt_get t index = (if index < length (dt_table t) then Some (dt_table t ! index) else None)"

text \<open>
  The eviction loop. An empty deque panics, and so does \<open>self.size -= ...\<close> when it underflows;
  the invariant below excludes both.
\<close>

function consolidate_table :: "dynamic_table \<Rightarrow> (dynamic_table, 'e) result" where
  "consolidate_table t =
     (if dt_max_size t < dt_size t then
        (if dt_table t = [] then Panic
         else
           let last_header = last (dt_table t);
               evicted = length (fst last_header) + length (snd last_header) + 32
           in if dt_size t < evicted then Panic
              else consolidate_table
                     (t\<lparr>dt_size := dt_size t - evicted, dt_table := butlast (dt_table t)\<rparr>))
      else Ok t)"
  by pat_completeness auto
termination
  by (relation "measure (\<lambda>t. length (dt_table t))") auto

declare consolidate_table.simps [simp del]

definition dt_set_max_table_size :: "dynamic_table \<Rightarrow> nat \<Rightarrow> (dynamic_table, 'e) result" where
  "dt_set_max_table_size t new_max_size = consolidate_table (t\<lparr>dt_max_size := new_max_size\<rparr>)"

definition dt_add_header :: "dynamic_table \<Rightarrow> bytes \<Rightarrow> bytes \<Rightarrow> (dynamic_table, 'e) result" where
  "dt_add_header t name value =
     consolidate_table
       (t\<lparr>dt_size := dt_size t + (length name + length value + 32),
         dt_table := (name, value) # dt_table t\<rparr>)"

section \<open>The header table\<close>

record header_table =
  static_table :: "header list"
  ht_dynamic_table :: dynamic_table

definition with_static_table :: "header list \<Rightarrow> header_table" where
  "with_static_table st = \<lparr>static_table = st, ht_dynamic_table = dynamic_table_new\<rparr>"

definition ht_iter :: "header_table \<Rightarrow> header list" where
  "ht_iter ht = static_table ht @ dt_iter (ht_dynamic_table ht)"

definition ht_add_header :: "header_table \<Rightarrow> bytes \<Rightarrow> bytes \<Rightarrow> (header_table, 'e) result" where
  "ht_add_header ht name value =
     and_then (dt_add_header (ht_dynamic_table ht) name value)
       (\<lambda>dt. Ok (ht\<lparr>ht_dynamic_table := dt\<rparr>))"

definition get_from_table :: "header_table \<Rightarrow> nat \<Rightarrow> header option" where
  "get_from_table ht index =
     (if 0 < index then
        let real_index = index - 1 in
        if real_index < length (static_table ht) then Some (static_table ht ! real_index)
        else
          let dynamic_index = real_index - length (static_table ht) in
          if dynamic_index < dt_len (ht_dynamic_table ht)
          then map_option (\<lambda>(n, v). (n, v)) (dt_get (ht_dynamic_table ht) dynamic_index)
          else None
      else None)"

fun find_header_loop ::
    "header \<Rightarrow> nat \<Rightarrow> header list \<Rightarrow> nat option \<Rightarrow> (nat \<times> bool) option" where
  "find_header_loop hdr i [] matching_name = map_option (\<lambda>i. (i, False)) matching_name"
| "find_header_loop hdr i (h # hs) matching_name =
     (if fst hdr = fst h then
        (if snd hdr = snd h then Some (i + 1, True)
         else find_header_loop hdr (i + 1) hs (Some (i + 1)))
      else find_header_loop hdr (i + 1) hs matching_name)"

definition find_header :: "header_table \<Rightarrow> header \<Rightarrow> (nat \<times> bool) option" where
  "find_header ht hdr = find_header_loop hdr 0 (ht_iter ht) None"

definition STATIC_TABLE :: "header list" where
  "STATIC_TABLE = map (\<lambda>(n, v). (byte_str n, byte_str v))
    [('':authority'', ''''),
     ('':method'', ''GET''),
     ('':method'', ''POST''),
     ('':path'', ''/''),
     ('':path'', ''/index.html''),
     ('':scheme'', ''http''),
     ('':scheme'', ''https''),
     ('':status'', ''200''),
     ('':status'', ''204''),
     ('':status'', ''206''),
     ('':status'', ''304''),
     ('':status'', ''400''),
     ('':status'', ''404''),
     ('':status'', ''500''),
     (''accept-charset'', ''''),
     (''accept-encoding'', ''gzip, deflate''),
     (''accept-language'', ''''),
     (''accept-ranges'', ''''),
     (''accept'', ''''),
     (''access-control-allow-origin'', ''''),
     (''age'', ''''),
     (''allow'', ''''),
     (''authorization'', ''''),
     (''cache-control'', ''''),
     (''content-disposition'', ''''),
     (''content-encoding'', ''''),
     (''content-language'', ''''),
     (''content-length'', ''''),
     (''content-location'', ''''),
     (''content-range'', ''''),
     (''content-type'', ''''),
     (''cookie'', ''''),
     (''date'', ''''),
     (''etag'', ''''),
     (''expect'', ''''),
     (''expires'', ''''),
     (''from'', ''''),
     (''host'', ''''),
     (''if-match'', ''''),
     (''if-modified-since'', ''''),
     (''if-none-match'', ''''),
     (''if-range'', ''''),
     (''if-unmodified-since'', ''''),
     (''last-modified'', ''''),
     (''link'', ''''),
     (''location'', ''''),
     (''max-forwards'', ''''),
     (''proxy-authenticate'', ''''),
     (''proxy-authorization'', ''''),
     (''range'', ''''),
     (''referer'', ''''),
     (''refresh'', ''''),
     (''retry-after'', ''''),
     (''server'', ''''),
     (''set-cookie'', ''''),
     (''strict-transport-security'', ''''),
     (''transfer-encoding'', ''''),
     (''user-agent'', ''''),
     (''vary'', ''''),
     (''via'', ''''),
     (''www-authenticate'', '''')]"

section \<open>The abstract view: entries newest first, eviction from the back\<close>

definition total_size :: "header list \<Rightarrow> nat" where
  "total_size es = sum_list (map entry_size es)"

text \<open>\<open>fit m es\<close>: the longest prefix of \<open>es\<close> whose total size is at most \<open>m\<close>.\<close>

fun fit :: "nat \<Rightarrow> header list \<Rightarrow> header list" where
  "fit m [] = []"
| "fit m (e # es) = (if entry_size e \<le> m then e # fit (m - entry_size e) es else [])"

definition dt_inv :: "dynamic_table \<Rightarrow> bool" where
  "dt_inv t \<longleftrightarrow> dt_size t = total_size (dt_table t) \<and> dt_size t \<le> dt_max_size t"

lemma total_size_simps [simp]:
  "total_size [] = 0"
  "total_size (e # es) = entry_size e + total_size es"
  "total_size (es @ fs) = total_size es + total_size fs"
  by (simp_all add: total_size_def)

lemma entry_size_ge: "32 \<le> entry_size e"
  by (simp add: entry_size_def)

lemma length_le_total_size: "32 * length es \<le> total_size es"
  by (induction es) (use entry_size_ge in \<open>force simp: add_mono\<close>)+

lemma prefix_fit: "prefix (fit m es) es"
  by (induction m es rule: fit.induct) auto

lemma total_size_fit: "total_size (fit m es) \<le> m"
  by (induction m es rule: fit.induct) auto

lemma fit_id: "total_size es \<le> m \<Longrightarrow> fit m es = es"
  by (induction m es rule: fit.induct) auto

lemma fit_maximal: "prefix ps es \<Longrightarrow> total_size ps \<le> m \<Longrightarrow> prefix ps (fit m es)"
proof (induction m es arbitrary: ps rule: fit.induct)
  case (2 m e es)
  then show ?case by (cases ps) auto
qed simp

lemma fit_snoc: "m < total_size (es @ [e]) \<Longrightarrow> fit m (es @ [e]) = fit m es"
  by (induction m es rule: fit.induct) auto

text \<open>Eviction commutes with taking a prefix and with a smaller bound.\<close>

lemma prefix_fit_mono: "prefix es fs \<Longrightarrow> m \<le> n \<Longrightarrow> prefix (fit m es) (fit n fs)"
  by (rule fit_maximal) (use prefix_fit prefix_order.trans total_size_fit le_trans in blast)+

lemma fit_fit: "m \<le> n \<Longrightarrow> fit m (fit n es) = fit m es"
  by (induction n es arbitrary: m rule: fit.induct) auto

text \<open>The loop computes \<open>fit\<close> and never panics when the recorded size is the real one.\<close>

lemma consolidate_table_fit:
  assumes "dt_size t = total_size (dt_table t)"
  shows "(consolidate_table t :: (dynamic_table, 'e) result) =
    Ok (t\<lparr>dt_table := fit (dt_max_size t) (dt_table t),
          dt_size := total_size (fit (dt_max_size t) (dt_table t))\<rparr>)"
  using assms
proof (induction t rule: consolidate_table.induct)
  case (1 t)
  show ?case
  proof (cases "dt_max_size t < dt_size t")
    case True
    then obtain es e where es: "dt_table t = es @ [e]"
      using "1.prems" by (cases "dt_table t" rule: rev_cases) auto
    define t' where "t' = t\<lparr>dt_size := dt_size t - entry_size e, dt_table := es\<rparr>"
    have step: "(consolidate_table t :: (dynamic_table, 'e) result) = consolidate_table t'"
      using True es "1.prems"
      by (subst consolidate_table.simps) (simp add: Let_def t'_def entry_size_def)
    have "(consolidate_table t' :: (dynamic_table, 'e) result) =
      Ok (t'\<lparr>dt_table := fit (dt_max_size t') (dt_table t'),
            dt_size := total_size (fit (dt_max_size t') (dt_table t'))\<rparr>)"
      using "1.IH"[OF True _ refl refl] "1.prems" es True
      by (simp add: t'_def entry_size_def)
    moreover have "fit (dt_max_size t) (es @ [e]) = fit (dt_max_size t) es"
      using True "1.prems" es by (intro fit_snoc) simp
    ultimately show ?thesis using step es by (simp add: t'_def)
  next
    case False
    then show ?thesis
      using "1.prems" by (subst consolidate_table.simps) (simp add: fit_id)
  qed
qed

lemma dt_add_header_fit:
  assumes "dt_inv t"
  shows "dt_add_header t n v =
    Ok (t\<lparr>dt_table := fit (dt_max_size t) ((n, v) # dt_table t),
          dt_size := total_size (fit (dt_max_size t) ((n, v) # dt_table t))\<rparr>)"
  using assms
  by (simp add: dt_add_header_def consolidate_table_fit dt_inv_def entry_size_def del: fit.simps)

lemma dt_set_max_table_size_fit:
  assumes "dt_inv t"
  shows "dt_set_max_table_size t m =
    Ok (t\<lparr>dt_max_size := m, dt_table := fit m (dt_table t),
          dt_size := total_size (fit m (dt_table t))\<rparr>)"
  using assms by (simp add: dt_set_max_table_size_def consolidate_table_fit dt_inv_def)


text \<open>The tables the two operations compute, as total functions.\<close>

definition dt_push :: "dynamic_table \<Rightarrow> header \<Rightarrow> dynamic_table" where
  "dt_push t h =
     t\<lparr>dt_table := fit (dt_max_size t) (h # dt_table t),
       dt_size := total_size (fit (dt_max_size t) (h # dt_table t))\<rparr>"

definition dt_resize :: "dynamic_table \<Rightarrow> nat \<Rightarrow> dynamic_table" where
  "dt_resize t m =
     t\<lparr>dt_max_size := m, dt_table := fit m (dt_table t), dt_size := total_size (fit m (dt_table t))\<rparr>"

lemma dt_add_header_push: "dt_inv t \<Longrightarrow> dt_add_header t n v = Ok (dt_push t (n, v))"
  by (simp add: dt_add_header_fit dt_push_def del: fit.simps)

lemma dt_set_max_table_size_resize: "dt_inv t \<Longrightarrow> dt_set_max_table_size t m = Ok (dt_resize t m)"
  by (simp add: dt_set_max_table_size_fit dt_resize_def)

lemma dt_inv_push: "dt_inv (dt_push t h)"
  using total_size_fit by (simp add: dt_inv_def dt_push_def del: fit.simps)

lemma dt_inv_resize: "dt_inv (dt_resize t m)"
  using total_size_fit by (simp add: dt_inv_def dt_resize_def)

lemma dt_max_size_push [simp]: "dt_max_size (dt_push t h) = dt_max_size t"
  by (simp add: dt_push_def)

lemma dt_max_size_resize [simp]: "dt_max_size (dt_resize t m) = m"
  by (simp add: dt_resize_def)

lemma dt_table_push: "dt_table (dt_push t h) = fit (dt_max_size t) (h # dt_table t)"
  by (simp add: dt_push_def del: fit.simps)

lemma dt_table_resize: "dt_table (dt_resize t m) = fit m (dt_table t)"
  by (simp add: dt_resize_def)

section \<open>The contract of a size-bounded table\<close>

text \<open>
  What the coders rely on: adding a header and changing the bound never panic on a table whose
  accounting is right, keep it right, and act on the entries by \<open>fit\<close>.
\<close>

locale eviction_table =
  fixes add :: "'t \<Rightarrow> bytes \<Rightarrow> bytes \<Rightarrow> ('t, 'e) result"
    and set_max :: "'t \<Rightarrow> nat \<Rightarrow> ('t, 'e) result"
    and entries :: "'t \<Rightarrow> header list"
    and bound :: "'t \<Rightarrow> nat"
    and invar :: "'t \<Rightarrow> bool"
  assumes add_fit: "invar t \<Longrightarrow> \<exists>t'. add t n v = Ok t' \<and> invar t' \<and> bound t' = bound t \<and>
      entries t' = fit (bound t) ((n, v) # entries t)"
    and set_max_fit: "invar t \<Longrightarrow> \<exists>t'. set_max t m = Ok t' \<and> invar t' \<and> bound t' = m \<and>
      entries t' = fit m (entries t)"
    and within_bound: "invar t \<Longrightarrow> total_size (entries t) \<le> bound t"
begin

lemma entries_bound: "invar t \<Longrightarrow> 32 * length (entries t) \<le> bound t"
  using length_le_total_size within_bound le_trans by blast

lemma addE:
  assumes "invar t"
  obtains t' where "add t n v = Ok t'" "invar t'" "bound t' = bound t"
    "entries t' = fit (bound t) ((n, v) # entries t)"
  using add_fit[OF assms] by blast

lemma set_maxE:
  assumes "invar t"
  obtains t' where "set_max t m = Ok t'" "invar t'" "bound t' = m" "entries t' = fit m (entries t)"
  using set_max_fit[OF assms] by blast

text \<open>
  Two tables, one of which holds a prefix of the other's entries under a smaller bound, stay so
  related when the same header is added to both, and when the smaller bound changes within the
  larger.
\<close>

definition shadows :: "'t \<Rightarrow> 't \<Rightarrow> bool" where
  "shadows s t \<longleftrightarrow> invar s \<and> invar t \<and> bound s \<le> bound t \<and> prefix (entries s) (entries t)"

lemma shadows_add:
  assumes "shadows s t"
  obtains s' t' where "add s n v = Ok s'" "add t n v = Ok t'" "shadows s' t'"
    "bound s' = bound s" "bound t' = bound t"
proof -
  have st: "invar s" "invar t" "bound s \<le> bound t" "prefix (entries s) (entries t)"
    using assms by (auto simp: shadows_def)
  obtain s' where s': "add s n v = Ok s'" "invar s'" "bound s' = bound s"
    "entries s' = fit (bound s) ((n, v) # entries s)"
    using addE[OF st(1)] by blast
  obtain t' where t': "add t n v = Ok t'" "invar t'" "bound t' = bound t"
    "entries t' = fit (bound t) ((n, v) # entries t)"
    using addE[OF st(2)] by blast
  have "prefix (fit (bound s) ((n, v) # entries s)) (fit (bound t) ((n, v) # entries t))"
    using st by (intro prefix_fit_mono) auto
  with s' t' st show ?thesis
    by (intro that[of s' t']) (simp_all add: shadows_def del: fit.simps)
qed

lemma shadows_set_max:
  assumes "shadows s t" and "m \<le> bound t"
  obtains s' where "set_max s m = Ok s'" "shadows s' t" "bound s' = m"
proof -
  have st: "invar s" "invar t" "prefix (entries s) (entries t)"
    using assms by (auto simp: shadows_def)
  obtain s' where s': "set_max s m = Ok s'" "invar s'" "bound s' = m" "entries s' = fit m (entries s)"
    using set_maxE[OF st(1)] by blast
  then have "prefix (entries s') (entries t)"
    using prefix_fit st(3) prefix_order.trans by metis
  with s' st assms(2) show ?thesis by (intro that[of s']) (simp_all add: shadows_def)
qed

end

interpretation dt: eviction_table dt_add_header dt_set_max_table_size dt_table dt_max_size dt_inv
  by unfold_locales
    (simp_all add: dt_add_header_push dt_set_max_table_size_resize dt_inv_push dt_inv_resize,
      simp_all add: dt_push_def dt_resize_def dt_inv_def)

lemma dt_inv_with_size [simp]: "dt_inv (with_size m)"
  by (simp add: dt_inv_def with_size_def)

lemma dt_inv_new [simp]: "dt_inv dynamic_table_new"
  by (simp add: dynamic_table_new_def)

section \<open>Lookup in the merged index space\<close>

lemma dt_iter_eq [simp]: "dt_iter t = dt_table t"
  by (simp add: dt_iter_def)

lemma get_from_table_eq:
  "get_from_table ht i =
     (if 0 < i \<and> i \<le> length (ht_iter ht) then Some (ht_iter ht ! (i - 1)) else None)"
  by (auto simp: get_from_table_def Let_def ht_iter_def dt_len_def dt_get_def nth_append)

lemma get_from_table_SomeI:
  "k < length (ht_iter ht) \<Longrightarrow> get_from_table ht (Suc k) = Some (ht_iter ht ! k)"
  by (simp add: get_from_table_eq)

lemma find_header_loop_None:
  "find_header_loop hdr i hs m = None \<longleftrightarrow> m = None \<and> fst hdr \<notin> fst ` set hs"
  by (induction hdr i hs m rule: find_header_loop.induct) auto

lemma find_header_loop_True:
  "find_header_loop hdr i hs m = Some (j, True) \<Longrightarrow>
     \<exists>k<length hs. j = i + k + 1 \<and> hs ! k = hdr \<and> (\<forall>l<k. hs ! l \<noteq> hdr)"
proof (induction hdr i hs m rule: find_header_loop.induct)
  case (2 hdr i h hs m)
  show ?case
  proof (cases "hdr = h")
    case True
    with "2.prems" show ?thesis by (intro exI[of _ 0]) (auto simp: prod_eq_iff)
  next
    case False
    then obtain k where k: "k < length hs" "j = i + 1 + k + 1" "hs ! k = hdr" "\<forall>l<k. hs ! l \<noteq> hdr"
      using 2 by (auto simp: prod_eq_iff split: if_splits)
    then have "\<forall>l<Suc k. (h # hs) ! l \<noteq> hdr"
      using False less_Suc_eq_0_disj by auto
    with k show ?thesis by (intro exI[of _ "Suc k"]) auto
  qed
qed auto

lemma find_header_loop_False:
  "find_header_loop hdr i hs m = Some (j, False) \<Longrightarrow>
     hdr \<notin> set hs \<and>
     (m = Some j \<and> fst hdr \<notin> fst ` set hs \<or>
      (\<exists>k<length hs. j = i + k + 1 \<and> fst (hs ! k) = fst hdr \<and>
         (\<forall>l<length hs. k < l \<longrightarrow> fst (hs ! l) \<noteq> fst hdr)))"
proof (induction hdr i hs m rule: find_header_loop.induct)
  case (2 hdr i h hs m)
  have neq: "hdr \<noteq> h" using "2.prems" by auto
  consider (name) "fst hdr = fst h" "snd hdr \<noteq> snd h" | (other) "fst hdr \<noteq> fst h"
    using neq by (auto simp: prod_eq_iff)
  then show ?case
  proof cases
    case name
    then have "hdr \<notin> set hs \<and>
      (j = i + 1 \<and> fst hdr \<notin> fst ` set hs \<or>
       (\<exists>k<length hs. j = i + 1 + k + 1 \<and> fst (hs ! k) = fst hdr \<and>
         (\<forall>l<length hs. k < l \<longrightarrow> fst (hs ! l) \<noteq> fst hdr)))"
      using "2.IH"(1)[OF name] "2.prems" by auto
    then show ?thesis
    proof (elim conjE disjE exE)
      assume "hdr \<notin> set hs" "j = i + 1" "fst hdr \<notin> fst ` set hs"
      then show ?thesis
        using neq name by (auto simp: nth_Cons' intro!: exI[of _ 0])
          (metis Suc_less_eq Suc_pred imageI nth_mem)
    next
      fix k
      assume "hdr \<notin> set hs" "k < length hs" "j = i + 1 + k + 1" "fst (hs ! k) = fst hdr"
        "\<forall>l<length hs. k < l \<longrightarrow> fst (hs ! l) \<noteq> fst hdr"
      then show ?thesis
        using neq by (auto simp: nth_Cons' intro!: exI[of _ "Suc k"])
    qed
  next
    case other
    then have "hdr \<notin> set hs \<and>
      (m = Some j \<and> fst hdr \<notin> fst ` set hs \<or>
       (\<exists>k<length hs. j = i + 1 + k + 1 \<and> fst (hs ! k) = fst hdr \<and>
         (\<forall>l<length hs. k < l \<longrightarrow> fst (hs ! l) \<noteq> fst hdr)))"
      using "2.IH"(2)[OF other] "2.prems" by auto
    then show ?thesis
    proof (elim conjE disjE exE)
      assume "hdr \<notin> set hs" "m = Some j" "fst hdr \<notin> fst ` set hs"
      then show ?thesis using neq other by auto
    next
      fix k
      assume "hdr \<notin> set hs" "k < length hs" "j = i + 1 + k + 1" "fst (hs ! k) = fst hdr"
        "\<forall>l<length hs. k < l \<longrightarrow> fst (hs ! l) \<noteq> fst hdr"
      then show ?thesis
        using neq by (auto simp: nth_Cons' intro!: exI[of _ "Suc k"])
    qed
  qed
qed auto

lemma find_header_None: "find_header ht hdr = None \<longleftrightarrow> fst hdr \<notin> fst ` set (ht_iter ht)"
  by (simp add: find_header_def find_header_loop_None)

lemma find_header_TrueD:
  assumes "find_header ht hdr = Some (i, True)"
  shows "get_from_table ht i = Some hdr" and "j < i \<Longrightarrow> get_from_table ht j \<noteq> Some hdr"
    and "0 < i" and "i \<le> length (ht_iter ht)"
proof -
  obtain k where k: "k < length (ht_iter ht)" "i = Suc k" "ht_iter ht ! k = hdr"
    "\<forall>l<k. ht_iter ht ! l \<noteq> hdr"
    using find_header_loop_True[OF assms[unfolded find_header_def]] by auto
  then show "get_from_table ht i = Some hdr" "j < i \<Longrightarrow> get_from_table ht j \<noteq> Some hdr"
    "0 < i" "i \<le> length (ht_iter ht)"
    by (auto simp: get_from_table_eq)
qed

lemma find_header_FalseD:
  assumes "find_header ht hdr = Some (i, False)"
  shows "\<exists>v. get_from_table ht i = Some (fst hdr, v)" and "get_from_table ht j \<noteq> Some hdr"
    and "0 < i" and "i \<le> length (ht_iter ht)"
proof -
  obtain k where k: "k < length (ht_iter ht)" "i = Suc k" "fst (ht_iter ht ! k) = fst hdr"
    and nin: "hdr \<notin> set (ht_iter ht)"
    using find_header_loop_False[OF assms[unfolded find_header_def]] by auto
  have "ht_iter ht ! k = (fst hdr, snd (ht_iter ht ! k))" using k by (simp add: prod_eq_iff)
  with k show "\<exists>v. get_from_table ht i = Some (fst hdr, v)" "0 < i" "i \<le> length (ht_iter ht)"
    by (auto simp: get_from_table_eq)
  show "get_from_table ht j \<noteq> Some hdr"
    using nin by (auto simp: get_from_table_eq)
qed

section \<open>Sequences of table operations\<close>

datatype dt_op = AddHeader bytes bytes | SetMaxTableSize nat

fun run_dt_ops :: "dt_op list \<Rightarrow> dynamic_table \<Rightarrow> (dynamic_table, 'e) result" where
  "run_dt_ops [] t = Ok t"
| "run_dt_ops (AddHeader n v # ops) t = and_then (dt_add_header t n v) (run_dt_ops ops)"
| "run_dt_ops (SetMaxTableSize m # ops) t = and_then (dt_set_max_table_size t m) (run_dt_ops ops)"

text \<open>The specification: a bound and a list of entries, cut back to the bound after each operation.\<close>

fun spec_dt_ops :: "dt_op list \<Rightarrow> nat \<times> header list \<Rightarrow> nat \<times> header list" where
  "spec_dt_ops [] s = s"
| "spec_dt_ops (AddHeader n v # ops) (m, es) = spec_dt_ops ops (m, fit m ((n, v) # es))"
| "spec_dt_ops (SetMaxTableSize m # ops) (_, es) = spec_dt_ops ops (m, fit m es)"

lemma run_dt_ops_spec:
  assumes "dt_inv t"
  shows "\<exists>t'. (run_dt_ops ops t :: (dynamic_table, 'e) result) = Ok t' \<and> dt_inv t' \<and>
    (dt_max_size t', dt_table t') = spec_dt_ops ops (dt_max_size t, dt_table t)"
  using assms
proof (induction ops arbitrary: t)
  case (Cons op ops)
  show ?case
  proof (cases op)
    case (AddHeader n v)
    then show ?thesis
      using Cons.IH[of "dt_push t (n, v)"] Cons.prems
      by (simp add: dt_add_header_push dt_inv_push dt_table_push del: fit.simps)
  next
    case (SetMaxTableSize m)
    then show ?thesis
      using Cons.IH[of "dt_resize t m"] Cons.prems
      by (simp add: dt_set_max_table_size_resize dt_inv_resize dt_table_resize)
  qed
qed simp

text \<open>C17: a dynamic table used in any way, from \<open>with_size\<close> on, never panics, records exactly the
  size of its entries, stays within its bound, and holds the entries of the specification: each
  operation leaves the longest run of newest entries that fits.\<close>

theorem dynamic_table_refines:
  "\<exists>t. (run_dt_ops ops (with_size m) :: (dynamic_table, 'e) result) = Ok t \<and>
     get_size t = total_size (dt_table t) \<and> get_size t \<le> dt_max_size t \<and>
     (dt_max_size t, dt_iter t) = spec_dt_ops ops (m, [])"
  using run_dt_ops_spec[of "with_size m" ops, where 'e = 'e]
  by (auto simp: dt_inv_def get_size_def with_size_def)

text \<open>\<open>find_header\<close> against \<open>get_from_table\<close>: no result when the name is in neither table; a full
  match is the smallest index of the header; a name match is the index of an entry of that name,
  and then no index has the header itself.\<close>

lemma find_header_correct:
  "case find_header ht hdr of
     None \<Rightarrow> \<forall>i v. get_from_table ht i \<noteq> Some (fst hdr, v)
   | Some (i, full) \<Rightarrow>
       if full then get_from_table ht i = Some hdr \<and> (\<forall>j. \<not> (j < i \<and> get_from_table ht j = Some hdr))
       else (\<exists>v. get_from_table ht i = Some (fst hdr, v)) \<and> (\<forall>j. get_from_table ht j \<noteq> Some hdr)"
proof (cases "find_header ht hdr")
  case None
  then have "fst hdr \<notin> fst ` set (ht_iter ht)" by (simp add: find_header_None)
  moreover have "fst h \<in> fst ` set (ht_iter ht)" if "get_from_table ht i = Some h" for i h
    using that by (auto simp: get_from_table_eq split: if_splits)
  ultimately show ?thesis using None by fastforce
next
  case (Some p)
  then show ?thesis
    using find_header_TrueD[of ht hdr "fst p"] find_header_FalseD[of ht hdr "fst p"]
    by (cases p; cases "snd p") auto
qed

text \<open>The index space is one-based: the static entries first, then the dynamic ones from the
  newest to the oldest; every other index is out of range.\<close>

lemma get_from_table_index_space:
  "get_from_table ht i =
     (if 1 \<le> i \<and> i \<le> length (static_table ht) + length (dt_table (ht_dynamic_table ht))
      then Some ((static_table ht @ dt_table (ht_dynamic_table ht)) ! (i - 1)) else None)"
  by (auto simp: get_from_table_eq ht_iter_def)

end
