(* ===== verification/Hpack_Huffman.thy ===== *)
theory Hpack_Huffman
  imports Prelude
begin

text \<open>
  The Huffman decoder of HPACK (\<open>crates/loona-hpack/src/huffman.rs\<close>): the bit iterator, the
  construction of the length-indexed decoding table, the decoding loop on 32-bit accumulators
  and the padding check. The specification is the prefix code given by the code table; the
  table of the source is checked to be prefix-free and complete, which is why the loop always
  finds a symbol within 30 bits and neither its 8-bit length counter nor its shifts overflow.
\<close>

section \<open>Symbols, errors and the decoding table\<close>

datatype huffman_code_symbol = Symbol u8 | EndOfString

definition huffman_code_symbol_new :: "nat \<Rightarrow> huffman_code_symbol" where
  "huffman_code_symbol_new symbol = (if symbol = 256 then EndOfString else Symbol (of_nat symbol))"

datatype huffman_decoder_error = PaddingTooLarge | InvalidPadding | EOSInString

record huffman_decoder =
  hd_table :: "nat \<rightharpoonup> (u32 \<rightharpoonup> huffman_code_symbol)"
  eos_codepoint :: "u32 \<times> nat"

fun from_table_step ::
    "(nat \<rightharpoonup> (u32 \<rightharpoonup> huffman_code_symbol)) \<times> (u32 \<times> nat) option \<Rightarrow> nat \<times> u32 \<times> nat \<Rightarrow>
     (nat \<rightharpoonup> (u32 \<rightharpoonup> huffman_code_symbol)) \<times> (u32 \<times> nat) option" where
  "from_table_step (decoder_table, eos) (symbol, code, code_len) =
     (let subtable = (case decoder_table code_len of None \<Rightarrow> Map.empty | Some t \<Rightarrow> t);
          huff_symbol = huffman_code_symbol_new symbol;
          eos' = (case huff_symbol of EndOfString \<Rightarrow> Some (code, code_len) | Symbol _ \<Rightarrow> eos)
      in (decoder_table(code_len \<mapsto> subtable(code \<mapsto> huff_symbol)), eos'))"

definition from_table :: "(u32 \<times> nat) list \<Rightarrow> (huffman_decoder, 'e) result" where
  "from_table table =
     (if length table \<noteq> 257 then Panic
      else case foldl from_table_step (Map.empty, None) (enumerate 0 table) of
        (decoder_table, None) \<Rightarrow> Panic
      | (decoder_table, Some eos) \<Rightarrow> Ok \<lparr>hd_table = decoder_table, eos_codepoint = eos\<rparr>)"

section \<open>The bit iterator\<close>

record bit_iterator =
  buffer_iterator :: bytes
  current_byte :: "u8 option"
  pos :: nat

definition bit_iterator_new :: "bytes \<Rightarrow> bit_iterator" where
  "bit_iterator_new it = \<lparr>buffer_iterator = it, current_byte = None, pos = 7\<rparr>"

definition bit_iterator_next :: "bit_iterator \<Rightarrow> bool option \<times> bit_iterator" where
  "bit_iterator_next it =
     (let it = (case current_byte it of
                  None \<Rightarrow>
                    (case buffer_iterator it of
                       [] \<Rightarrow> it\<lparr>current_byte := None, pos := 7\<rparr>
                     | x # xs \<Rightarrow> it\<lparr>current_byte := Some x, buffer_iterator := xs, pos := 7\<rparr>)
                | Some _ \<Rightarrow> it)
      in case current_byte it of
           None \<Rightarrow> (None, it)
         | Some x \<Rightarrow>
             let is_set = (x AND push_bit (pos it) 1 = push_bit (pos it) 1)
             in (Some is_set,
                 if pos it = 0 then it\<lparr>current_byte := None\<rparr> else it\<lparr>pos := pos it - 1\<rparr>))"

text \<open>Draining the iterator, as the \<open>for\<close> loop of \<open>decode\<close> does.\<close>

definition bits_left :: "bit_iterator \<Rightarrow> nat" where
  "bits_left it = 8 * length (buffer_iterator it) +
     (case current_byte it of None \<Rightarrow> 0 | Some _ \<Rightarrow> Suc (pos it))"

lemma bit_iterator_next_less:
  "bit_iterator_next it = (Some x, it') \<Longrightarrow> bits_left it' < bits_left it"
  by (auto simp: bit_iterator_next_def bits_left_def Let_def
      split: option.splits list.splits if_splits)

function bit_iterator_collect :: "bit_iterator \<Rightarrow> bool list" where
  "bit_iterator_collect it =
     (case bit_iterator_next it of
        (None, it') \<Rightarrow> []
      | (Some x, it') \<Rightarrow> x # bit_iterator_collect it')"
  by pat_completeness auto
termination
  by (relation "measure bits_left") (auto intro: bit_iterator_next_less sym)

declare bit_iterator_collect.simps [simp del]

section \<open>Decoding\<close>

text \<open>\<open>current_len\<close> is a \<open>u8\<close>: incrementing 255 panics. \<open>current <<= 1\<close> drops the top bit.\<close>

fun decode_bits ::
    "huffman_decoder \<Rightarrow> bool list \<Rightarrow> u32 \<Rightarrow> nat \<Rightarrow> bytes \<Rightarrow>
     (u32 \<times> nat \<times> bytes, huffman_decoder_error) result" where
  "decode_bits d [] current current_len res = Ok (current, current_len, res)"
| "decode_bits d (x # xs) current current_len res =
     (if current_len = 255 then Panic
      else
        let current_len = current_len + 1;
            current = push_bit 1 current;
            current = (if x then current OR 1 else current)
        in case hd_table d current_len of
             None \<Rightarrow> decode_bits d xs current current_len res
           | Some length_table \<Rightarrow>
               (case length_table current of
                  None \<Rightarrow> decode_bits d xs current current_len res
                | Some (Symbol s) \<Rightarrow> decode_bits d xs 0 0 (res @ [s])
                | Some EndOfString \<Rightarrow> Err EOSInString))"

text \<open>\<open>x << n\<close> on a \<open>u32\<close>: a panic when \<open>n\<close> is 32 or more.\<close>

definition shl_u32 :: "u32 \<Rightarrow> nat \<Rightarrow> (u32, 'e) result" where
  "shl_u32 x n = (if n < 32 then Ok (push_bit n x) else Panic)"

definition check_padding ::
    "huffman_decoder \<Rightarrow> u32 \<Rightarrow> nat \<Rightarrow> bytes \<Rightarrow> (bytes, huffman_decoder_error) result" where
  "check_padding d current current_len res =
     (if current_len > 7 then Err PaddingTooLarge
      else
        and_then (if current_len = 0 then Ok 0 else shl_u32 current (32 - current_len))
          (\<lambda>right_align_current.
        and_then (if 32 < snd (eos_codepoint d) then Panic
                  else shl_u32 (fst (eos_codepoint d)) (32 - snd (eos_codepoint d)))
          (\<lambda>right_align_eos.
        and_then (if current_len = 0 then Ok 0
                  else shl_u32 (push_bit current_len 1 - 1) (32 - current_len))
          (\<lambda>msk. if right_align_eos AND msk \<noteq> right_align_current
                 then Err InvalidPadding else Ok res))))"

definition huffman_decode ::
    "huffman_decoder \<Rightarrow> bytes \<Rightarrow> (bytes, huffman_decoder_error) result" where
  "huffman_decode d buf =
     and_then (decode_bits d (bit_iterator_collect (bit_iterator_new buf)) 0 0 [])
       (\<lambda>(current, current_len, res). check_padding d current current_len res)"

definition HUFFMAN_CODE_TABLE :: "(u32 \<times> nat) list" where
  "HUFFMAN_CODE_TABLE =
    [(0x1ff8, 13), (0x7fffd8, 23), (0xfffffe2, 28), (0xfffffe3, 28), (0xfffffe4, 28),
     (0xfffffe5, 28), (0xfffffe6, 28), (0xfffffe7, 28), (0xfffffe8, 28), (0xffffea, 24),
     (0x3ffffffc, 30), (0xfffffe9, 28), (0xfffffea, 28), (0x3ffffffd, 30), (0xfffffeb, 28),
     (0xfffffec, 28), (0xfffffed, 28), (0xfffffee, 28), (0xfffffef, 28), (0xffffff0, 28),
     (0xffffff1, 28), (0xffffff2, 28), (0x3ffffffe, 30), (0xffffff3, 28), (0xffffff4, 28),
     (0xffffff5, 28), (0xffffff6, 28), (0xffffff7, 28), (0xffffff8, 28), (0xffffff9, 28),
     (0xffffffa, 28), (0xffffffb, 28), (0x14, 6), (0x3f8, 10), (0x3f9, 10), (0xffa, 12),
     (0x1ff9, 13), (0x15, 6), (0xf8, 8), (0x7fa, 11), (0x3fa, 10), (0x3fb, 10), (0xf9, 8),
     (0x7fb, 11), (0xfa, 8), (0x16, 6), (0x17, 6), (0x18, 6), (0x0, 5), (0x1, 5), (0x2, 5),
     (0x19, 6), (0x1a, 6), (0x1b, 6), (0x1c, 6), (0x1d, 6), (0x1e, 6), (0x1f, 6), (0x5c, 7),
     (0xfb, 8), (0x7ffc, 15), (0x20, 6), (0xffb, 12), (0x3fc, 10), (0x1ffa, 13), (0x21, 6),
     (0x5d, 7), (0x5e, 7), (0x5f, 7), (0x60, 7), (0x61, 7), (0x62, 7), (0x63, 7), (0x64, 7),
     (0x65, 7), (0x66, 7), (0x67, 7), (0x68, 7), (0x69, 7), (0x6a, 7), (0x6b, 7), (0x6c, 7),
     (0x6d, 7), (0x6e, 7), (0x6f, 7), (0x70, 7), (0x71, 7), (0x72, 7), (0xfc, 8), (0x73, 7),
     (0xfd, 8), (0x1ffb, 13), (0x7fff0, 19), (0x1ffc, 13), (0x3ffc, 14), (0x22, 6), (0x7ffd, 15),
     (0x3, 5), (0x23, 6), (0x4, 5), (0x24, 6), (0x5, 5), (0x25, 6), (0x26, 6), (0x27, 6),
     (0x6, 5), (0x74, 7), (0x75, 7), (0x28, 6), (0x29, 6), (0x2a, 6), (0x7, 5), (0x2b, 6),
     (0x76, 7), (0x2c, 6), (0x8, 5), (0x9, 5), (0x2d, 6), (0x77, 7), (0x78, 7), (0x79, 7),
     (0x7a, 7), (0x7b, 7), (0x7ffe, 15), (0x7fc, 11), (0x3ffd, 14), (0x1ffd, 13),
     (0xffffffc, 28), (0xfffe6, 20), (0x3fffd2, 22), (0xfffe7, 20), (0xfffe8, 20),
     (0x3fffd3, 22), (0x3fffd4, 22), (0x3fffd5, 22), (0x7fffd9, 23), (0x3fffd6, 22),
     (0x7fffda, 23), (0x7fffdb, 23), (0x7fffdc, 23), (0x7fffdd, 23), (0x7fffde, 23),
     (0xffffeb, 24), (0x7fffdf, 23), (0xffffec, 24), (0xffffed, 24), (0x3fffd7, 22),
     (0x7fffe0, 23), (0xffffee, 24), (0x7fffe1, 23), (0x7fffe2, 23), (0x7fffe3, 23),
     (0x7fffe4, 23), (0x1fffdc, 21), (0x3fffd8, 22), (0x7fffe5, 23), (0x3fffd9, 22),
     (0x7fffe6, 23), (0x7fffe7, 23), (0xffffef, 24), (0x3fffda, 22), (0x1fffdd, 21),
     (0xfffe9, 20), (0x3fffdb, 22), (0x3fffdc, 22), (0x7fffe8, 23), (0x7fffe9, 23),
     (0x1fffde, 21), (0x7fffea, 23), (0x3fffdd, 22), (0x3fffde, 22), (0xfffff0, 24),
     (0x1fffdf, 21), (0x3fffdf, 22), (0x7fffeb, 23), (0x7fffec, 23), (0x1fffe0, 21),
     (0x1fffe1, 21), (0x3fffe0, 22), (0x1fffe2, 21), (0x7fffed, 23), (0x3fffe1, 22),
     (0x7fffee, 23), (0x7fffef, 23), (0xfffea, 20), (0x3fffe2, 22), (0x3fffe3, 22),
     (0x3fffe4, 22), (0x7ffff0, 23), (0x3fffe5, 22), (0x3fffe6, 22), (0x7ffff1, 23),
     (0x3ffffe0, 26), (0x3ffffe1, 26), (0xfffeb, 20), (0x7fff1, 19), (0x3fffe7, 22),
     (0x7ffff2, 23), (0x3fffe8, 22), (0x1ffffec, 25), (0x3ffffe2, 26), (0x3ffffe3, 26),
     (0x3ffffe4, 26), (0x7ffffde, 27), (0x7ffffdf, 27), (0x3ffffe5, 26), (0xfffff1, 24),
     (0x1ffffed, 25), (0x7fff2, 19), (0x1fffe3, 21), (0x3ffffe6, 26), (0x7ffffe0, 27),
     (0x7ffffe1, 27), (0x3ffffe7, 26), (0x7ffffe2, 27), (0xfffff2, 24), (0x1fffe4, 21),
     (0x1fffe5, 21), (0x3ffffe8, 26), (0x3ffffe9, 26), (0xffffffd, 28), (0x7ffffe3, 27),
     (0x7ffffe4, 27), (0x7ffffe5, 27), (0xfffec, 20), (0xfffff3, 24), (0xfffed, 20),
     (0x1fffe6, 21), (0x3fffe9, 22), (0x1fffe7, 21), (0x1fffe8, 21), (0x7ffff3, 23),
     (0x3fffea, 22), (0x3fffeb, 22), (0x1ffffee, 25), (0x1ffffef, 25), (0xfffff4, 24),
     (0xfffff5, 24), (0x3ffffea, 26), (0x7ffff4, 23), (0x3ffffeb, 26), (0x7ffffe6, 27),
     (0x3ffffec, 26), (0x3ffffed, 26), (0x7ffffe7, 27), (0x7ffffe8, 27), (0x7ffffe9, 27),
     (0x7ffffea, 27), (0x7ffffeb, 27), (0xffffffe, 28), (0x7ffffec, 27), (0x7ffffed, 27),
     (0x7ffffee, 27), (0x7ffffef, 27), (0x7fffff0, 27), (0x3ffffee, 26), (0x3fffffff, 30)]"

definition huffman_decoder_new :: "(huffman_decoder, 'e) result" where
  "huffman_decoder_new = from_table HUFFMAN_CODE_TABLE"

section \<open>Bit strings\<close>

definition code_bits :: "u32 \<Rightarrow> nat \<Rightarrow> bool list" where
  "code_bits c n = map (bit c) (rev [0..<n])"

definition byte_bits :: "u8 \<Rightarrow> bool list" where
  "byte_bits x = map (bit x) (rev [0..<8])"

definition bits_word :: "bool list \<Rightarrow> u32" where
  "bits_word xs = horner_sum of_bool 2 (rev xs)"

lemma is_set_bit: "n < 8 \<Longrightarrow> ((x :: u8) AND push_bit n 1 = push_bit n 1) = bit x n"
proof (cases "bit x n")
  case True
  then show ?thesis by (auto intro!: bit_word_eqI simp: bit_simps)
next
  case False
  assume "n < 8"
  with False show ?thesis by (auto simp: bit_simps dest!: arg_cong[where f = "\<lambda>w. bit w n"])
qed

lemma bits_word_snoc:
  "bits_word (xs @ [x]) = (if x then push_bit 1 (bits_word xs) OR 1 else push_bit 1 (bits_word xs))"
  by (simp add: bits_word_def push_bit_eq_mult or_one_eq mult.commute)

lemma bits_word_Nil [simp]: "bits_word [] = 0"
  by (simp add: bits_word_def)

lemma bits_word_code_bits: "bits_word (code_bits c n) = take_bit n c"
  by (simp add: bits_word_def code_bits_def rev_map horner_sum_bit_eq_take_bit)

lemma length_code_bits [simp]: "length (code_bits c n) = n"
  by (simp add: code_bits_def)

lemma code_bits_bits_word: "length xs \<le> 32 \<Longrightarrow> code_bits (bits_word xs) (length xs) = xs"
  by (rule nth_equalityI)
    (auto simp: code_bits_def bits_word_def rev_nth bit_horner_sum_bit_word_iff)

text \<open>The iterator yields the bits of each byte, most significant first.\<close>

lemma bit_iterator_next_Some:
  "current_byte it = Some x \<Longrightarrow> pos it < 8 \<Longrightarrow>
     bit_iterator_next it =
       (Some (bit x (pos it)),
        if pos it = 0 then it\<lparr>current_byte := None\<rparr> else it\<lparr>pos := pos it - 1\<rparr>)"
  using is_set_bit[of "pos it" x] by (simp add: bit_iterator_next_def)

lemma bit_iterator_collect_byte:
  "n < 8 \<Longrightarrow> current_byte it = Some x \<Longrightarrow> pos it = n \<Longrightarrow>
     bit_iterator_collect it = map (bit x) (rev [0..<Suc n]) @
       bit_iterator_collect \<lparr>buffer_iterator = buffer_iterator it, current_byte = None, pos = 0\<rparr>"
proof (induction n arbitrary: it)
  case 0
  then show ?case
    by (subst bit_iterator_collect.simps) (cases it, simp add: bit_iterator_next_Some)
next
  case (Suc n)
  then have "bit_iterator_collect it = bit x (Suc n) # bit_iterator_collect (it\<lparr>pos := n\<rparr>)"
    by (subst bit_iterator_collect.simps) (simp add: bit_iterator_next_Some)
  with Suc show ?case by simp
qed

lemma bit_iterator_collect_None:
  "bit_iterator_collect \<lparr>buffer_iterator = xs, current_byte = None, pos = n\<rparr> =
     concat (map byte_bits xs)"
proof (induction xs arbitrary: n)
  case Nil
  show ?case by (subst bit_iterator_collect.simps) (simp add: bit_iterator_next_def)
next
  case (Cons x xs)
  let ?it = "\<lparr>buffer_iterator = xs, current_byte = Some x, pos = 7\<rparr>"
  have bits: "byte_bits x = map (bit x) (rev [0..<Suc 7])" by (simp add: byte_bits_def)
  have "bit_iterator_collect \<lparr>buffer_iterator = x # xs, current_byte = None, pos = n\<rparr> =
      bit_iterator_collect ?it"
    by (subst (1 2) bit_iterator_collect.simps) (simp add: bit_iterator_next_def)
  also have "\<dots> = map (bit x) (rev [0..<Suc 7]) @
      bit_iterator_collect \<lparr>buffer_iterator = xs, current_byte = None, pos = 0\<rparr>"
    using bit_iterator_collect_byte[of 7 ?it x] by simp
  finally show ?case by (simp only: bits Cons.IH list.map concat.simps)
qed

lemma bit_iterator_bits:
  "bit_iterator_collect (bit_iterator_new buf) = concat (map byte_bits buf)"
  by (simp add: bit_iterator_new_def bit_iterator_collect_None)

section \<open>Prefix codes\<close>

text \<open>Symbol-by-symbol parsing of a bit string: the symbols found and the bits left over.\<close>

fun parse_code :: "('c list \<Rightarrow> 's option) \<Rightarrow> 'c list \<Rightarrow> 'c list \<Rightarrow> 's list \<times> 'c list" where
  "parse_code look cur [] = ([], cur)"
| "parse_code look cur (x # xs) =
     (case look (cur @ [x]) of
        None \<Rightarrow> parse_code look (cur @ [x]) xs
      | Some s \<Rightarrow> (case parse_code look [] xs of (ss, r) \<Rightarrow> (s # ss, r)))"

locale prefix_code =
  fixes code :: "'s \<Rightarrow> 'c list"
    and look :: "'c list \<Rightarrow> 's option"
    and depth :: nat
  assumes look_iff: "look c = Some s \<longleftrightarrow> code s = c"
    and code_nonempty: "code s \<noteq> []"
    and prefix_free: "prefix (code s) (code t) \<Longrightarrow> s = t"
    and complete: "length c = depth \<Longrightarrow> \<exists>s. prefix (code s) c"
begin

text \<open>Bits that have not yet reached a symbol.\<close>

definition pending :: "'c list \<Rightarrow> bool" where
  "pending c \<longleftrightarrow> (\<forall>s. \<not> prefix (code s) c)"

lemma pending_Nil [simp]: "pending []"
  using code_nonempty by (simp add: pending_def)

lemma pending_short: "pending c \<Longrightarrow> length c < depth"
proof (rule ccontr)
  assume p: "pending c" and "\<not> length c < depth"
  then have "length (take depth c) = depth" by simp
  then obtain s where "prefix (code s) (take depth c)" using complete by blast
  with p show False unfolding pending_def by (meson prefix_order.trans take_is_prefix)
qed

lemma look_None: "look c = None \<longleftrightarrow> (\<forall>s. code s \<noteq> c)"
  by (metis look_iff not_None_eq)

lemma pending_snoc: "pending c \<Longrightarrow> look (c @ [x]) = None \<Longrightarrow> pending (c @ [x])"
  by (auto simp: pending_def prefix_snoc look_None)

lemma pending_prefix: "pending d \<Longrightarrow> prefix c d \<Longrightarrow> pending c"
  unfolding pending_def using prefix_order.trans by blast

lemma code_butlast_pending: "code s = c @ d \<Longrightarrow> d \<noteq> [] \<Longrightarrow> pending c"
  unfolding pending_def
  by (metis append_self_conv prefix_def prefix_free prefix_order.antisym prefix_order.trans)

lemma parse_code_sound:
  "pending cur \<Longrightarrow> parse_code look cur xs = (ss, r) \<Longrightarrow>
     cur @ xs = concat (map code ss) @ r \<and> pending r"
proof (induction xs arbitrary: cur ss)
  case Nil
  then show ?case by simp
next
  case (Cons x xs)
  show ?case
  proof (cases "look (cur @ [x])")
    case None
    then show ?thesis
      using Cons.IH[of "cur @ [x]" ss] Cons.prems pending_snoc by simp
  next
    case (Some s)
    then obtain ss' where "ss = s # ss'" "parse_code look [] xs = (ss', r)"
      using Cons.prems(2) by (auto split: prod.splits)
    moreover have "code s = cur @ [x]" using Some look_iff by blast
    ultimately show ?thesis using Cons.IH[of "[]" ss'] by simp
  qed
qed

lemma parse_code_pending: "pending (cur @ xs) \<Longrightarrow> parse_code look cur xs = ([], cur @ xs)"
proof (induction xs arbitrary: cur)
  case (Cons x xs)
  have "\<forall>s. code s \<noteq> cur @ [x]"
    using Cons.prems unfolding pending_def by (metis append_Cons append_assoc append_Nil prefixI)
  then have "look (cur @ [x]) = None" by (simp add: look_None)
  then show ?case using Cons.IH[of "cur @ [x]"] Cons.prems by simp
qed simp

lemma parse_code_symbol:
  "code s = cur @ d \<Longrightarrow> d \<noteq> [] \<Longrightarrow>
     parse_code look cur (d @ xs) = (case parse_code look [] xs of (ss, r) \<Rightarrow> (s # ss, r))"
proof (induction d arbitrary: cur)
  case (Cons x d)
  show ?case
  proof (cases "d = []")
    case True
    then have "look (cur @ [x]) = Some s" using Cons.prems look_iff by simp
    with True show ?thesis by simp
  next
    case False
    then have "pending (cur @ [x])"
      using code_butlast_pending[of s "cur @ [x]" d] Cons.prems by simp
    then have "look (cur @ [x]) = None"
      unfolding pending_def look_None by auto
    then show ?thesis using Cons.IH[of "cur @ [x]"] Cons.prems False by simp
  qed
qed simp

lemma parse_code_complete:
  "pending r \<Longrightarrow> parse_code look [] (concat (map code ss) @ r) = (ss, r)"
proof (induction ss)
  case Nil
  then show ?case using parse_code_pending[of "[]" r] by simp
next
  case (Cons s ss)
  then show ?case using parse_code_symbol[of s "[]" "code s"] code_nonempty by simp
qed

theorem parse_code_iff:
  "parse_code look [] xs = (ss, r) \<longleftrightarrow> xs = concat (map code ss) @ r \<and> pending r"
  using parse_code_sound[of "[]" xs ss r] parse_code_complete[of r ss] by auto

end

section \<open>A check that a list of code words is a complete prefix code\<close>

fun split_code ::
    "bool list list \<Rightarrow> bool list list \<Rightarrow> bool list list \<Rightarrow>
     (bool list list \<times> bool list list) option" where
  "split_code [] l r = Some (l, r)"
| "split_code ([] # cs) l r = None"
| "split_code ((False # c) # cs) l r = split_code cs (c # l) r"
| "split_code ((True # c) # cs) l r = split_code cs l (c # r)"

primrec full_code :: "nat \<Rightarrow> bool list list \<Rightarrow> bool" where
  "full_code 0 cs = (cs = [[]])"
| "full_code (Suc n) cs =
     (cs = [[]] \<or>
      (case split_code cs [] [] of
         None \<Rightarrow> False
       | Some (l, r) \<Rightarrow> full_code n l \<and> full_code n r))"

lemma split_code_count:
  "split_code cs l r = Some (l', r') \<Longrightarrow>
     length (filter (\<lambda>c. prefix c (y # x)) cs) + length (filter (\<lambda>c. prefix c x) (if y then r else l)) =
     length (filter (\<lambda>c. prefix c x) (if y then r' else l'))"
proof (induction cs l r rule: split_code.induct)
  case (3 c cs l r)
  then show ?case by (cases y) (auto split: if_splits)
next
  case (4 c cs l r)
  then show ?case by (cases y) (auto split: if_splits)
qed auto

lemma full_code_unique:
  "full_code n cs \<Longrightarrow> n \<le> length x \<Longrightarrow> length (filter (\<lambda>c. prefix c x) cs) = 1"
proof (induction n arbitrary: cs x)
  case (Suc n)
  show ?case
  proof (cases "cs = [[]]")
    case False
    then obtain l r where lr: "split_code cs [] [] = Some (l, r)" "full_code n l" "full_code n r"
      using Suc.prems(1) by (auto split: option.splits)
    obtain y z where x: "x = y # z" using Suc.prems(2) by (cases x) auto
    have "length (filter (\<lambda>c. prefix c z) (if y then r else l)) = 1"
      using Suc.IH lr(2,3) Suc.prems(2) x by simp
    then show ?thesis using split_code_count[OF lr(1), of y z] x by simp
  qed simp
qed simp

lemma filter_one_index:
  assumes "length (filter P xs) = 1" and "i < length xs" "P (xs ! i)" "j < length xs" "P (xs ! j)"
  shows "i = j"
proof -
  have "card {i. i < length xs \<and> P (xs ! i)} = 1"
    using assms(1) by (simp add: length_filter_conv_card)
  then obtain k where k: "{i. i < length xs \<and> P (xs ! i)} = {k}"
    by (rule card_1_singletonE)
  have "i \<in> {i. i < length xs \<and> P (xs ! i)}" "j \<in> {i. i < length xs \<and> P (xs ! i)}"
    using assms(2-) by simp_all
  then show ?thesis unfolding k by simp
qed

lemma full_code_complete:
  assumes "full_code n cs" and "n \<le> length x"
  shows "\<exists>i<length cs. prefix (cs ! i) x"
proof -
  have "filter (\<lambda>c. prefix c x) cs \<noteq> []" using full_code_unique[OF assms] by force
  then show ?thesis by (auto simp: filter_empty_conv in_set_conv_nth)
qed

lemma full_code_prefix_free:
  assumes "full_code n cs" and "i < length cs" "j < length cs" and "prefix (cs ! i) (cs ! j)"
  shows "i = j"
proof -
  let ?x = "cs ! j @ replicate n True"
  have "length (filter (\<lambda>c. prefix c ?x) cs) = 1"
    using full_code_unique[OF assms(1)] by simp
  moreover have "prefix (cs ! i) ?x" "prefix (cs ! j) ?x"
    using assms(4) by (auto intro: prefix_order.trans)
  ultimately show ?thesis using filter_one_index assms(2,3) by blast
qed

section \<open>The code table of HPACK\<close>

fun symbol_index :: "huffman_code_symbol \<Rightarrow> nat" where
  "symbol_index (Symbol x) = unat x"
| "symbol_index EndOfString = 256"

definition huffman_code :: "huffman_code_symbol \<Rightarrow> bool list" where
  "huffman_code s = (case HUFFMAN_CODE_TABLE ! symbol_index s of (c, n) \<Rightarrow> code_bits c n)"

lemma length_HUFFMAN_CODE_TABLE [simp]: "length HUFFMAN_CODE_TABLE = 257"
  by (simp add: HUFFMAN_CODE_TABLE_def)

lemma symbol_index_less [simp]: "symbol_index s < 257"
  using unat_u8_less by (cases s) (auto intro: less_trans)

lemma symbol_index_new: "i < 257 \<Longrightarrow> symbol_index (huffman_code_symbol_new i) = i"
  by (auto simp: huffman_code_symbol_new_def unat_of_nat)

lemma symbol_new_index: "huffman_code_symbol_new (symbol_index s) = s"
  using unat_u8_less by (cases s) (auto simp: huffman_code_symbol_new_def dest: less_imp_neq)

fun int_bits :: "nat \<Rightarrow> int \<Rightarrow> bool list \<Rightarrow> bool list" where
  "int_bits 0 c acc = acc"
| "int_bits (Suc n) c acc = int_bits n (c div 2) (odd c # acc)"

lemma int_bits_eq: "int_bits n c acc = map (bit c) (rev [0..<n]) @ acc"
proof (induction n c acc rule: int_bits.induct)
  case (2 n c acc)
  have "[0..<Suc n] = 0 # map Suc [0..<n]" by (simp add: map_Suc_upt upt_conv_Cons)
  then show ?case using 2 by (simp add: rev_map bit_Suc bit_0 comp_def)
qed simp

lemma code_bits_int: "code_bits c n = int_bits n (uint c) []"
  by (auto simp: code_bits_def int_bits_eq bit_uint_iff dest: bit_imp_le_length)

lemma full_code_HUFFMAN_CODE_TABLE:
  "full_code 30 (map (\<lambda>(c, n). int_bits n (uint c) []) HUFFMAN_CODE_TABLE)"
  by code_simp

lemma HUFFMAN_CODE_TABLE_entries:
  "list_all (\<lambda>(c, n). 0 < n \<and> n \<le> 30 \<and> uint c < 2 ^ n) HUFFMAN_CODE_TABLE"
  by code_simp

lemma HUFFMAN_CODE_TABLE_eos: "HUFFMAN_CODE_TABLE ! 256 = (0x3fffffff, 30)"
  by code_simp

lemma HUFFMAN_CODE_TABLE_nth:
  assumes "i < 257" and "HUFFMAN_CODE_TABLE ! i = (c, n)"
  shows "0 < n" "n \<le> 30" "take_bit n c = c"
proof -
  have n: "0 < n \<and> n \<le> 30 \<and> uint c < 2 ^ n"
    using HUFFMAN_CODE_TABLE_entries assms by (force simp: list_all_length)
  then show "0 < n" "n \<le> 30" by simp_all
  show "take_bit n c = c"
    using n by (intro word_uint_eqI) (simp add: unsigned_take_bit_eq take_bit_int_eq_self)
qed

lemma huffman_code_nth: "i < 257 \<Longrightarrow>
    huffman_code (huffman_code_symbol_new i) = map (\<lambda>(c, n). code_bits c n) HUFFMAN_CODE_TABLE ! i"
  by (simp add: huffman_code_def symbol_index_new)

lemma full_code_huffman: "full_code 30 (map (\<lambda>(c, n). code_bits c n) HUFFMAN_CODE_TABLE)"
  using full_code_HUFFMAN_CODE_TABLE by (simp add: code_bits_int)

lemma huffman_code_prefix_free:
  assumes "prefix (huffman_code s) (huffman_code t)"
  shows "s = t"
proof -
  have "symbol_index s = symbol_index t"
    using assms full_code_prefix_free[OF full_code_huffman, of "symbol_index s" "symbol_index t"]
    by (simp add: huffman_code_def)
  then show ?thesis by (metis symbol_new_index)
qed

lemma huffman_code_complete:
  assumes "length c = 30"
  shows "\<exists>s. prefix (huffman_code s) c"
proof -
  obtain i where "i < 257" and "prefix (map (\<lambda>(c, n). code_bits c n) HUFFMAN_CODE_TABLE ! i) c"
    using full_code_complete[OF full_code_huffman, of c] assms by auto
  then show ?thesis using huffman_code_nth by metis
qed

section \<open>The decoding table realises the code\<close>

definition table_look ::
    "(nat \<rightharpoonup> (u32 \<rightharpoonup> huffman_code_symbol)) \<Rightarrow> nat \<Rightarrow> u32 \<Rightarrow> huffman_code_symbol option" where
  "table_look t n c = (case t n of None \<Rightarrow> None | Some sub \<Rightarrow> sub c)"

definition table_key :: "nat \<times> u32 \<times> nat \<Rightarrow> (nat \<times> u32) \<times> huffman_code_symbol" where
  "table_key = (\<lambda>(s, c, n). ((n, c), huffman_code_symbol_new s))"

lemma from_table_step_look:
  "table_look (fst (from_table_step st e)) n c =
     (if (n, c) = fst (table_key e) then Some (snd (table_key e)) else table_look (fst st) n c)"
  by (cases st; cases e) (auto simp: table_look_def table_key_def Let_def split: option.splits)

lemma from_table_foldl_look:
  "table_look (fst (foldl from_table_step (Map.empty, eos) es)) n c =
     map_of (rev (map table_key es)) (n, c)"
  by (induction es rule: rev_induct)
    (auto simp: from_table_step_look simp del: from_table_step.simps, simp add: table_look_def)

definition hpack_table :: "nat \<rightharpoonup> (u32 \<rightharpoonup> huffman_code_symbol)" where
  "hpack_table = fst (foldl from_table_step (Map.empty, None) (enumerate 0 HUFFMAN_CODE_TABLE))"

definition huffman_look :: "bool list \<Rightarrow> huffman_code_symbol option" where
  "huffman_look xs = table_look hpack_table (length xs) (bits_word xs)"

lemma distinct_HUFFMAN_CODE_TABLE: "distinct HUFFMAN_CODE_TABLE"
proof (rule distinct_conv_nth[THEN iffD2], intro allI impI notI)
  fix i j
  assume "i < length HUFFMAN_CODE_TABLE" "j < length HUFFMAN_CODE_TABLE" "i \<noteq> j"
    and "HUFFMAN_CODE_TABLE ! i = HUFFMAN_CODE_TABLE ! j"
  then show False using full_code_prefix_free[OF full_code_huffman, of i j] by simp
qed

lemma hpack_table_look:
  "table_look hpack_table n c = Some s \<longleftrightarrow> HUFFMAN_CODE_TABLE ! symbol_index s = (c, n)"
proof -
  let ?es = "enumerate 0 HUFFMAN_CODE_TABLE"
  have "map fst (map table_key es) = map prod.swap (map snd es)" for es
    by (induction es) (auto simp: table_key_def)
  then have "map fst (map table_key ?es) = map prod.swap (map snd ?es)" .
  also have "\<dots> = map prod.swap HUFFMAN_CODE_TABLE"
    by (simp only: map_snd_enumerate)
  finally have "distinct (map fst (map table_key ?es))"
    using distinct_HUFFMAN_CODE_TABLE by (simp only: distinct_map) simp
  then have "distinct (map fst (rev (map table_key ?es)))"
    by (simp only: rev_map[symmetric] distinct_rev)
  then have "table_look hpack_table n c = Some s \<longleftrightarrow> ((n, c), s) \<in> set (map table_key ?es)"
    unfolding hpack_table_def from_table_foldl_look by (subst map_of_eq_Some_iff) auto
  also have "set (map table_key ?es) = (\<lambda>i. table_key (i, HUFFMAN_CODE_TABLE ! i)) ` {..<257}"
    by (force simp: in_set_enumerate_eq image_iff)
  also have "((n, c), s) \<in> \<dots> \<longleftrightarrow>
      (\<exists>i<257. HUFFMAN_CODE_TABLE ! i = (c, n) \<and> huffman_code_symbol_new i = s)"
  proof -
    have "((n, c), s) = table_key (i, HUFFMAN_CODE_TABLE ! i) \<longleftrightarrow>
        HUFFMAN_CODE_TABLE ! i = (c, n) \<and> huffman_code_symbol_new i = s" for i
      by (cases "HUFFMAN_CODE_TABLE ! i") (auto simp: table_key_def)
    then show ?thesis by (simp add: image_iff Bex_def)
  qed
  also have "\<dots> \<longleftrightarrow> HUFFMAN_CODE_TABLE ! symbol_index s = (c, n)"
    using symbol_index_new symbol_new_index symbol_index_less by metis
  finally show ?thesis .
qed

lemma huffman_look_iff: "huffman_look xs = Some s \<longleftrightarrow> huffman_code s = xs"
proof -
  obtain c n where cn: "HUFFMAN_CODE_TABLE ! symbol_index s = (c, n)" by fastforce
  note entry = HUFFMAN_CODE_TABLE_nth[OF symbol_index_less cn]
  have "huffman_look xs = Some s \<longleftrightarrow> c = bits_word xs \<and> n = length xs"
    by (auto simp: huffman_look_def hpack_table_look cn)
  also have "\<dots> \<longleftrightarrow> code_bits c n = xs"
    using entry code_bits_bits_word bits_word_code_bits[of c n] by auto
  finally show ?thesis by (simp add: huffman_code_def cn)
qed

lemma huffman_code_nonempty: "huffman_code s \<noteq> []"
proof -
  obtain c n where cn: "HUFFMAN_CODE_TABLE ! symbol_index s = (c, n)" by fastforce
  have "length (huffman_code s) = n" by (simp add: huffman_code_def cn)
  then show ?thesis using HUFFMAN_CODE_TABLE_nth[OF symbol_index_less cn] by force
qed

interpretation hc: prefix_code huffman_code huffman_look 30
  by unfold_locales
    (simp_all add: huffman_look_iff huffman_code_nonempty huffman_code_prefix_free
       huffman_code_complete)

section \<open>Correctness of the decoder\<close>

fun symbol_byte :: "huffman_code_symbol \<Rightarrow> u8" where
  "symbol_byte (Symbol x) = x"
| "symbol_byte EndOfString = 0"

lemma decode_bits_step:
  "current_len \<noteq> 255 \<Longrightarrow>
   decode_bits d (x # xs) (bits_word cur) current_len res =
     (case table_look (hd_table d) (Suc current_len) (bits_word (cur @ [x])) of
        None \<Rightarrow> decode_bits d xs (bits_word (cur @ [x])) (Suc current_len) res
      | Some (Symbol s) \<Rightarrow> decode_bits d xs 0 0 (res @ [s])
      | Some EndOfString \<Rightarrow> Err EOSInString)"
  by (simp add: bits_word_snoc table_look_def Let_def split: option.splits)

text \<open>The loop on 32-bit accumulators parses the prefix code, and stops at an EOS symbol.\<close>

lemma decode_bits_parse:
  assumes "hd_table d = hpack_table" and "hc.pending cur"
  shows "decode_bits d xs (bits_word cur) (length cur) res =
    (case parse_code huffman_look cur xs of
       (ss, r) \<Rightarrow> if EndOfString \<in> set ss then Err EOSInString
                 else Ok (bits_word r, length r, res @ map symbol_byte ss))"
  using assms(2)
proof (induction xs arbitrary: cur res)
  case Nil
  then show ?case by simp
next
  case (Cons x xs)
  have "length cur \<noteq> 255" using hc.pending_short[OF Cons.prems] by simp
  note step = decode_bits_step[OF this, of d x xs cur res]
  have look: "table_look (hd_table d) (Suc (length cur)) (bits_word (cur @ [x])) =
      huffman_look (cur @ [x])"
    by (simp add: assms(1) huffman_look_def)
  show ?case
  proof (cases "huffman_look (cur @ [x])")
    case None
    then have "hc.pending (cur @ [x])" using Cons.prems hc.pending_snoc by blast
    then show ?thesis
      using Cons.IH[of "cur @ [x]" res] step look None by simp
  next
    case (Some s)
    show ?thesis
    proof (cases s)
      case (Symbol y)
      then show ?thesis
        using Cons.IH[OF hc.pending_Nil, of "res @ [y]"] step look Some
        by (cases "parse_code huffman_look [] xs") simp
    next
      case EndOfString
      then show ?thesis using step look Some
        by (cases "parse_code huffman_look [] xs") simp
    qed
  qed
qed

lemma huffman_decoder_new_eq:
  "huffman_decoder_new = Ok \<lparr>hd_table = hpack_table, eos_codepoint = (0x3fffffff, 30)\<rparr>"
proof -
  obtain ts t where T: "HUFFMAN_CODE_TABLE = ts @ [t]"
    by (metis append_butlast_last_id length_HUFFMAN_CODE_TABLE list.size(3) zero_neq_numeral)
  then have len: "length ts = 256"
    using length_HUFFMAN_CODE_TABLE unfolding T by simp
  then have t: "t = (0x3fffffff, 30)"
    using HUFFMAN_CODE_TABLE_eos T by (metis nth_append_length)
  have "snd (from_table_step st (256, c, n)) = Some (c, n)" for st c n
    by (cases st) (simp add: Let_def huffman_code_symbol_new_def)
  then have "snd (foldl from_table_step (Map.empty, None) (enumerate 0 HUFFMAN_CODE_TABLE)) =
      Some (0x3fffffff, 30)"
    unfolding T enumerate_append_eq foldl_append
    by (simp add: len t del: from_table_step.simps)
  then show ?thesis
    by (auto simp: huffman_decoder_new_def from_table_def hpack_table_def split: prod.splits option.splits)
qed

text \<open>The padding check accepts exactly up to seven bits, all set (a prefix of the EOS code).\<close>

lemma padding_word:
  assumes "length r \<le> 7"
  shows "push_bit (32 - length r) (push_bit (length r) 1 - 1) = push_bit (32 - length r) (bits_word r)
    \<longleftrightarrow> (\<forall>x\<in>set r. x)"
proof -
  let ?n = "length r"
  have m: "push_bit ?n 1 - 1 = (mask ?n :: u32)" by (simp add: mask_eq_exp_minus_1)
  have "push_bit (32 - ?n) (mask ?n) = push_bit (32 - ?n) (bits_word r) \<longleftrightarrow>
      (\<forall>k<?n. bit (bits_word r) k)"
  proof
    assume eq: "push_bit (32 - ?n) (mask ?n) = push_bit (32 - ?n) (bits_word r)"
    show "\<forall>k<?n. bit (bits_word r) k"
    proof (intro allI impI)
      fix k assume "k < ?n"
      then show "bit (bits_word r) k"
        using arg_cong[OF eq, of "\<lambda>w. bit w (32 - ?n + k)"] assms by (auto simp: bit_simps)
    qed
  next
    assume "\<forall>k<?n. bit (bits_word r) k"
    then show "push_bit (32 - ?n) (mask ?n) = push_bit (32 - ?n) (bits_word r)"
      using assms by (intro bit_word_eqI) (auto simp: bit_simps bits_word_def bit_horner_sum_bit_word_iff)
  qed
  also have "\<dots> \<longleftrightarrow> (\<forall>k<?n. rev r ! k)"
    using assms by (auto simp: bits_word_def bit_horner_sum_bit_word_iff)
  also have "\<dots> \<longleftrightarrow> (\<forall>x\<in>set (rev r). x)"
    unfolding all_set_conv_all_nth by simp
  finally show ?thesis unfolding m by simp
qed

lemma eos_mask:
  assumes "0 < n" "n \<le> 7"
  shows "push_bit 2 0x3fffffff AND push_bit (32 - n) (push_bit n 1 - 1) =
    push_bit (32 - n) (push_bit n 1 - 1 :: u32)"
proof -
  have "n \<in> {1, 2, 3, 4, 5, 6, 7}" using assms by auto
  then show ?thesis by (elim insertE emptyE) simp_all
qed

lemma check_padding_eq:
  assumes "eos_codepoint d = (0x3fffffff, 30)"
  shows "check_padding d (bits_word r) (length r) res =
    (if length r > 7 then Err PaddingTooLarge
     else if \<forall>x\<in>set r. x then Ok res else Err InvalidPadding)"
proof (cases "length r > 7 \<or> r = []")
  case True
  then show ?thesis by (auto simp: check_padding_def assms shl_u32_def)
next
  case False
  then have "0 < length r" "length r \<le> 7" by auto
  then show ?thesis
    using padding_word[of r] eos_mask[of "length r"]
    by (simp add: check_padding_def assms shl_u32_def del: push_bit_of_1 push_bit_numeral)
qed

definition hpack_huffman_decode :: "bytes \<Rightarrow> (bytes, huffman_decoder_error) result" where
  "hpack_huffman_decode buf = and_then huffman_decoder_new (\<lambda>d. huffman_decode d buf)"

lemma hpack_huffman_decode_parse:
  "hpack_huffman_decode buf =
     (case parse_code huffman_look [] (concat (map byte_bits buf)) of
        (ss, r) \<Rightarrow> if EndOfString \<in> set ss then Err EOSInString
                  else if length r > 7 then Err PaddingTooLarge
                  else if \<forall>x\<in>set r. x then Ok (map symbol_byte ss) else Err InvalidPadding)"
proof -
  let ?d = "\<lparr>hd_table = hpack_table, eos_codepoint = (0x3fffffff, 30)\<rparr>"
  have "hpack_huffman_decode buf = huffman_decode ?d buf"
    by (simp add: hpack_huffman_decode_def huffman_decoder_new_eq)
  then show ?thesis
    using decode_bits_parse[of ?d "[]" "concat (map byte_bits buf)" "[]"]
    by (cases "parse_code huffman_look [] (concat (map byte_bits buf))")
      (simp add: huffman_decode_def bit_iterator_bits check_padding_eq)
qed

lemma huffman_code_EndOfString: "huffman_code EndOfString = replicate 30 True"
proof -
  have "int_bits 30 0x3fffffff [] = replicate 30 True" by code_simp
  then show ?thesis by (simp add: huffman_code_def HUFFMAN_CODE_TABLE_eos code_bits_int)
qed

lemma pending_padding: "k \<le> 7 \<Longrightarrow> hc.pending (replicate k True)"
  by (rule hc.code_butlast_pending[of EndOfString _ "replicate (30 - k) True"])
    (simp_all add: huffman_code_EndOfString flip: replicate_add)

lemma map_Symbol_symbol_byte: "EndOfString \<notin> set ss \<Longrightarrow> map Symbol (map symbol_byte ss) = ss"
proof (induction ss)
  case (Cons a ss)
  then show ?case by (cases a) auto
qed simp

lemma concat_huffman_code:
  "concat (map (\<lambda>x. huffman_code (Symbol x)) s) = concat (map huffman_code (map Symbol s))"
  by (simp add: comp_def)

section \<open>Properties\<close>

text \<open>C16: the Huffman decoder, built from the table of the source and run on its 32-bit
  accumulator, returns a string exactly when the input bits are the concatenation of the code
  words of its bytes followed by at most seven padding bits, all set.\<close>

theorem huffman_decode_iff:
  "hpack_huffman_decode buf = Ok s \<longleftrightarrow>
     (\<exists>k. k \<le> 7 \<and> concat (map byte_bits buf) =
        concat (map (\<lambda>x. huffman_code (Symbol x)) s) @ replicate k True)"
proof
  obtain ss r where parse: "parse_code huffman_look [] (concat (map byte_bits buf)) = (ss, r)"
    by fastforce
  note bits = hc.parse_code_iff[THEN iffD1, OF parse]
  assume "hpack_huffman_decode buf = Ok s"
  then have dec: "EndOfString \<notin> set ss" "length r \<le> 7" "\<forall>x\<in>set r. x" "s = map symbol_byte ss"
    by (simp_all add: hpack_huffman_decode_parse parse split: if_splits)
  moreover have "r = replicate (length r) True"
    using dec(3) by (induction r) auto
  ultimately show "\<exists>k. k \<le> 7 \<and> concat (map byte_bits buf) =
      concat (map (\<lambda>x. huffman_code (Symbol x)) s) @ replicate k True"
    using bits map_Symbol_symbol_byte[OF dec(1)] unfolding concat_huffman_code by metis
next
  assume "\<exists>k. k \<le> 7 \<and> concat (map byte_bits buf) =
      concat (map (\<lambda>x. huffman_code (Symbol x)) s) @ replicate k True"
  then obtain k where k: "k \<le> 7" and bits: "concat (map byte_bits buf) =
      concat (map huffman_code (map Symbol s)) @ replicate k True"
    unfolding concat_huffman_code by blast
  have "parse_code huffman_look [] (concat (map byte_bits buf)) = (map Symbol s, replicate k True)"
    unfolding bits by (rule hc.parse_code_complete[OF pending_padding[OF k]])
  then show "hpack_huffman_decode buf = Ok s"
    using k by (auto simp: hpack_huffman_decode_parse comp_def)
qed

text \<open>On every input the Huffman decoder returns, without a panic, and it reports an EOS in
  the string exactly when the code word of EOS follows the code words of some octets.\<close>

lemma huffman_decode_eos:
  "hpack_huffman_decode buf \<noteq> Panic \<and>
   (hpack_huffman_decode buf = Err EOSInString \<longleftrightarrow>
     (\<exists>s rest. concat (map byte_bits buf) =
        concat (map (\<lambda>x. huffman_code (Symbol x)) s) @ huffman_code EndOfString @ rest))"
proof (intro conjI iffI)
  obtain ss r where parse: "parse_code huffman_look [] (concat (map byte_bits buf)) = (ss, r)"
    by fastforce
  note bits = hc.parse_code_iff[THEN iffD1, OF parse]
  show "hpack_huffman_decode buf \<noteq> Panic"
    by (simp add: hpack_huffman_decode_parse parse)
  {
    assume "hpack_huffman_decode buf = Err EOSInString"
    then have "EndOfString \<in> set ss"
      by (auto simp: hpack_huffman_decode_parse parse split: if_splits)
    then obtain as zs where "ss = as @ EndOfString # zs" "EndOfString \<notin> set as"
      by (metis split_list_first)
    then show "\<exists>s rest. concat (map byte_bits buf) =
        concat (map (\<lambda>x. huffman_code (Symbol x)) s) @ huffman_code EndOfString @ rest"
      using bits map_Symbol_symbol_byte[of as] unfolding concat_huffman_code
      by (intro exI[of _ "map symbol_byte as"]) auto
  }
  assume "\<exists>s rest. concat (map byte_bits buf) =
      concat (map (\<lambda>x. huffman_code (Symbol x)) s) @ huffman_code EndOfString @ rest"
  then obtain s rest where eq: "concat (map byte_bits buf) =
      concat (map huffman_code (map Symbol s @ [EndOfString])) @ rest"
    unfolding concat_huffman_code by auto
  obtain ss' r' where "parse_code huffman_look [] rest = (ss', r')" by fastforce
  then have "rest = concat (map huffman_code ss') @ r'" "hc.pending r'"
    using hc.parse_code_iff by blast+
  then have "ss = (map Symbol s @ [EndOfString]) @ ss'"
    using parse hc.parse_code_complete[of r' "(map Symbol s @ [EndOfString]) @ ss'"] eq by simp
  then show "hpack_huffman_decode buf = Err EOSInString"
    by (simp add: hpack_huffman_decode_parse parse)
qed

end
