(* ===== verification/Hpack_Primitives.thy ===== *)
theory Hpack_Primitives
  imports Hpack_Huffman
begin

text \<open>
  The primitive types of HPACK: prefix-coded integers and octet strings, as the encoder writes
  them (\<open>encode_integer_into\<close>, \<open>encode_integer\<close>, \<open>encode_string_literal\<close> of
  \<open>crates/loona-hpack/src/encoder.rs\<close>) and the decoder reads them (\<open>decode_integer\<close>,
  \<open>decode_string\<close> of \<open>crates/loona-hpack/src/decoder.rs\<close>), with the decoder's error types. A
  writer \<open>W: io::Write\<close> is a parameter: its \<open>write_all\<close> takes the writer's state and the
  bytes to the outcome and the new state; \<open>vec_write_all\<close> is the one of \<open>Vec<u8>\<close>. Sizes
  (\<open>usize\<close>) are natural numbers; the decoded values are shown to stay below \<open>2 ^ 29\<close>.
\<close>

section \<open>Errors\<close>

datatype integer_decoding_error = TooManyOctets | ValueTooLarge | IntNotEnoughOctets | InvalidPrefix

datatype string_decoding_error =
  StrNotEnoughOctets | HuffmanDecoderError huffman_decoder_error

datatype decoder_error =
  HeaderIndexOutOfBounds
| IntegerDecodingError integer_decoding_error
| StringDecodingError string_decoding_error
| InvalidMaxDynamicSize
| SizeUpdateAtEnd

section \<open>Writing\<close>

type_synonym ('w, 'e) writer = "'w \<Rightarrow> bytes \<Rightarrow> (unit, 'e) result \<times> 'w"

definition vec_write_all :: "(bytes, 'e) writer" where
  "vec_write_all w bs = (Ok (), w @ bs)"

function encode_integer_loop :: "('w, 'e) writer \<Rightarrow> nat \<Rightarrow> 'w \<Rightarrow> (unit, 'e) result \<times> 'w" where
  "encode_integer_loop write_all value w =
     (if 128 \<le> value then
        bind_st (write_all w [of_nat (value mod 128 + 128)])
          (\<lambda>_ w. encode_integer_loop write_all (value div 128) w)
      else write_all w [of_nat value])"
  by pat_completeness auto
termination
  by (relation "measure (\<lambda>(write_all, value, w). value)") auto

declare encode_integer_loop.simps [simp del]

definition prefix_mask :: "nat \<Rightarrow> u8" where
  "prefix_mask prefix_size = (if 8 \<le> prefix_size then 0xFF else push_bit prefix_size 1 - 1)"

definition encode_integer_into ::
    "('w, 'e) writer \<Rightarrow> nat \<Rightarrow> nat \<Rightarrow> u8 \<Rightarrow> 'w \<Rightarrow> (unit, 'e) result \<times> 'w" where
  "encode_integer_into write_all value prefix_size leading_bits w =
     (let msk = prefix_mask prefix_size;
          leading_bits = leading_bits AND (NOT msk)
      in if value < unat msk then write_all w [leading_bits OR of_nat value]
         else bind_st (write_all w [leading_bits OR msk])
                (\<lambda>_ w. encode_integer_loop write_all (value - unat msk) w))"

definition encode_integer :: "nat \<Rightarrow> nat \<Rightarrow> (bytes, 'e) result" where
  "encode_integer value prefix_size =
     (case encode_integer_into (vec_write_all :: (bytes, 'e) writer) value prefix_size 0 [] of
        (Ok _, res) \<Rightarrow> Ok res
      | (Err e, res) \<Rightarrow> Panic
      | (Panic, res) \<Rightarrow> Panic)"

definition encode_string_literal ::
    "('w, 'e) writer \<Rightarrow> bytes \<Rightarrow> 'w \<Rightarrow> (unit, 'e) result \<times> 'w" where
  "encode_string_literal write_all octet_str w =
     bind_st (encode_integer_into write_all (length octet_str) 7 0 w)
       (\<lambda>_ w. write_all w octet_str)"

section \<open>Reading\<close>

fun decode_integer_loop ::
    "bytes \<Rightarrow> nat \<Rightarrow> nat \<Rightarrow> nat \<Rightarrow> (nat \<times> nat, decoder_error) result" where
  "decode_integer_loop [] value tot m = Err (IntegerDecodingError IntNotEnoughOctets)"
| "decode_integer_loop (x # xs) value tot m =
     (let tot = tot + 1;
          value = value + unat (x AND 127) * 2 ^ m;
          m = m + 7
      in if x AND 128 \<noteq> 128 then Ok (value, tot)
         else if tot = 5 then Err (IntegerDecodingError TooManyOctets)
         else decode_integer_loop xs value tot m)"

definition decode_integer :: "bytes \<Rightarrow> nat \<Rightarrow> (nat \<times> nat, decoder_error) result" where
  "decode_integer buf prefix_size =
     (if \<not> (1 \<le> prefix_size \<and> prefix_size \<le> 8) then Err (IntegerDecodingError InvalidPrefix)
      else if buf = [] then Err (IntegerDecodingError IntNotEnoughOctets)
      else
        let msk = (if prefix_size = 8 then 0xFF else push_bit prefix_size 1 - 1);
            value = unat (hd buf AND msk)
        in if value < unat msk then Ok (value, 1)
           else decode_integer_loop (tl buf) value 1 0)"

definition decode_string :: "bytes \<Rightarrow> (bytes \<times> nat, decoder_error) result" where
  "decode_string buf =
     and_then (decode_integer buf 7) (\<lambda>(len, consumed).
       if length buf < consumed + len then Err (StringDecodingError StrNotEnoughOctets)
       else
         let raw_string = take len (drop consumed buf) in
         and_then (index_at buf 0) (\<lambda>x.
           if x AND 128 = 128 then
             (case hpack_huffman_decode raw_string of
                Err e \<Rightarrow> Err (StringDecodingError (HuffmanDecoderError e))
              | Ok res \<Rightarrow> Ok (res, consumed + len)
              | Panic \<Rightarrow> Panic)
           else Ok (raw_string, consumed + len)))"

section \<open>The bytes of an integer\<close>

fun continuation_bytes :: "nat \<Rightarrow> bytes" where
  "continuation_bytes v =
     (if 128 \<le> v then of_nat (v mod 128 + 128) # continuation_bytes (v div 128) else [of_nat v])"

declare continuation_bytes.simps [simp del]

definition integer_bytes :: "nat \<Rightarrow> nat \<Rightarrow> u8 \<Rightarrow> bytes" where
  "integer_bytes v n lead =
     (if v < 2 ^ n - 1 then [lead AND NOT (mask n) OR of_nat v]
      else (lead AND NOT (mask n) OR mask n) # continuation_bytes (v - (2 ^ n - 1)))"

lemma unat_mask: "n \<le> 8 \<Longrightarrow> unat (mask n :: u8) = 2 ^ n - 1"
proof -
  assume "n \<le> 8"
  then have "n \<in> {0, 1, 2, 3, 4, 5, 6, 7, 8}" by auto
  then show ?thesis by (elim insertE emptyE) (simp_all add: mask_eq_exp_minus_1)
qed

lemma prefix_mask_eq: "n \<le> 8 \<Longrightarrow> prefix_mask n = mask n"
  by (auto simp: prefix_mask_def mask_eq_exp_minus_1)

lemma encode_integer_loop_vec:
  "encode_integer_loop (vec_write_all :: (bytes, 'e) writer) v w = (Ok (), w @ continuation_bytes v)"
proof (induction v arbitrary: w rule: continuation_bytes.induct)
  case (1 v)
  have "128 \<le> v \<Longrightarrow> encode_integer_loop (vec_write_all :: (bytes, 'e) writer) (v div 128) w' =
      (Ok (), w' @ continuation_bytes (v div 128))" for w' :: bytes
    by (rule 1)
  then show ?case
    by (subst encode_integer_loop.simps, subst continuation_bytes.simps)
      (simp add: vec_write_all_def[of "w"])
qed

lemma encode_integer_into_vec:
  "n \<le> 8 \<Longrightarrow> encode_integer_into vec_write_all v n lead w = (Ok (), w @ integer_bytes v n lead)"
  by (simp add: encode_integer_into_def Let_def prefix_mask_eq unat_mask integer_bytes_def
      encode_integer_loop_vec vec_write_all_def[of w])

lemma encode_string_literal_vec:
  "encode_string_literal vec_write_all s w = (Ok (), w @ integer_bytes (length s) 7 0 @ s)"
  by (simp add: encode_string_literal_def encode_integer_into_vec vec_write_all_def[of "w @ _"])

section \<open>Decoding inverts encoding\<close>

lemma unat_and_127: "unat ((of_nat v :: u8) AND 127) = v mod 128"
proof -
  have "(of_nat v :: u8) AND 127 = take_bit 7 (of_nat v)"
    by (simp add: take_bit_eq_mask mask_eq_exp_minus_1)
  also have "\<dots> = of_nat (take_bit 7 v)"
    by (rule take_bit_of_nat)
  also have "take_bit 7 v = v mod 128"
    by (simp add: take_bit_eq_mod)
  finally have "(of_nat v :: u8) AND 127 = of_nat (v mod 128)" .
  then show ?thesis by (simp only: unat_of_nat) simp
qed

lemma and_128_iff: "(of_nat v :: u8) AND 128 = 128 \<longleftrightarrow> odd (v div 128)"
proof -
  have "bit (of_nat v :: u8) 7 \<longleftrightarrow> bit v 7" by (simp add: bit_of_nat_iff)
  also have "\<dots> \<longleftrightarrow> odd (v div 128)" by (simp add: bit_iff_odd)
  finally show ?thesis using is_set_bit[of 7 "of_nat v"] by simp
qed

lemma decode_integer_loop_bytes:
  "tot < 5 \<Longrightarrow>
   decode_integer_loop (continuation_bytes v @ rest) acc tot m =
     (if tot + length (continuation_bytes v) \<le> 5
      then Ok (acc + v * 2 ^ m, tot + length (continuation_bytes v))
      else Err (IntegerDecodingError TooManyOctets))"
proof (induction v arbitrary: acc tot m rule: continuation_bytes.induct)
  case (1 v)
  show ?case
  proof (cases "128 \<le> v")
    case True
    let ?x = "of_nat (v mod 128 + 128) :: u8"
    have x: "unat (?x AND 127) = v mod 128" "?x AND 128 = 128"
      by (simp_all add: unat_and_127 and_128_iff div_add_self2 del: of_nat_add)
    have "v * 2 ^ m = (v div 128 * 128 + v mod 128) * 2 ^ m"
      by (simp only: div_mult_mod_eq)
    also have "\<dots> = v div 128 * 2 ^ (m + 7) + v mod 128 * 2 ^ m"
      by (simp only: add_mult_distrib power_add) simp
    finally have split: "acc + v mod 128 * 2 ^ m + v div 128 * 2 ^ (m + 7) = acc + v * 2 ^ m"
      by simp
    have "length (continuation_bytes (v div 128)) > 0"
      by (subst continuation_bytes.simps) simp
    moreover have "continuation_bytes v = ?x # continuation_bytes (v div 128)"
      using True by (subst continuation_bytes.simps) simp
    ultimately show ?thesis
      using x split "1.IH"[OF True, of "tot + 1" "acc + v mod 128 * 2 ^ m" "m + 7"] "1.prems"
      by (simp add: Let_def del: of_nat_add)
  next
    case False
    then have "unat ((of_nat v :: u8) AND 127) = v" "(of_nat v :: u8) AND 128 \<noteq> 128"
      by (simp_all add: unat_and_127 and_128_iff)
    with False "1.prems" show ?thesis
      by (subst (1 2 3) continuation_bytes.simps) (simp add: Let_def)
  qed
qed

lemma continuation_bytes_length: "length (continuation_bytes v) \<le> Suc n \<longleftrightarrow> v < 128 ^ Suc n"
proof (induction n arbitrary: v)
  case 0
  have "length (continuation_bytes (v div 128)) > 0"
    by (subst continuation_bytes.simps) simp
  then show ?case by (subst continuation_bytes.simps) auto
next
  case (Suc n)
  show ?case
  proof (cases "128 \<le> v")
    case True
    then show ?thesis
      using Suc.IH[of "v div 128"]
      by (subst continuation_bytes.simps) (auto simp: div_less_iff_less_mult mult.commute)
  next
    case False
    then have "v < 128 ^ Suc (Suc n)"
      by (simp add: less_le_trans[of v 128])
    with False show ?thesis by (subst continuation_bytes.simps) simp
  qed
qed

lemma not_bit_high: "v < 2 ^ n \<Longrightarrow> n \<le> k \<Longrightarrow> \<not> bit (v :: nat) k"
proof -
  assume "v < 2 ^ n" "n \<le> k"
  then have "v < 2 ^ k" using power_increasing[of n k "2 :: nat"] by linarith
  then show ?thesis by (simp add: bit_iff_odd)
qed

lemma mask_and_prefix:
  assumes "v < 2 ^ n"
  shows "(lead AND NOT (mask n) OR of_nat v) AND mask n = (of_nat v :: u8)"
  using not_bit_high[OF assms] by (auto intro!: bit_word_eqI simp: bit_simps) (meson not_less)

text \<open>The bits above the prefix are those of \<open>leading_bits\<close>: they select the representation.\<close>

lemma integer_bytes_lead_bit:
  assumes "n \<le> k" "k < 8"
  shows "bit (hd (integer_bytes v n lead)) k \<longleftrightarrow> bit lead k"
proof (cases "v < 2 ^ n - 1")
  case True
  then have "\<not> bit v k" using assms by (intro not_bit_high[of v n]) auto
  with True show ?thesis using assms by (auto simp: integer_bytes_def bit_simps)
next
  case False
  then show ?thesis using assms by (auto simp: integer_bytes_def bit_simps)
qed

lemma integer_bytes_nonempty [simp]: "integer_bytes v n lead \<noteq> []"
  by (simp add: integer_bytes_def)

lemma decode_integer_bytes:
  assumes "1 \<le> n" "n \<le> 8"
  shows "decode_integer (integer_bytes v n lead @ rest) n =
    (if v < 2 ^ n - 1 + 2 ^ 28 then Ok (v, length (integer_bytes v n lead))
     else Err (IntegerDecodingError TooManyOctets))"
proof -
  have msk: "(if n = 8 then 0xFF else push_bit n 1 - 1) = (mask n :: u8)"
    using prefix_mask_eq[OF assms(2)] assms by (simp add: prefix_mask_def split: if_splits)
  show ?thesis
  proof (cases "v < 2 ^ n - 1")
    case True
    have "v < 2 ^ n" using True by simp
    moreover from this have "v < 2 ^ 8"
      using assms power_increasing[of n 8 "2 :: nat"] by linarith
    ultimately have "unat ((lead AND NOT (mask n) OR of_nat v) AND mask n) = v"
      by (simp add: mask_and_prefix unat_of_nat)
    with True assms msk show ?thesis
      by (simp add: decode_integer_def Let_def integer_bytes_def unat_mask)
  next
    case False
    have "(lead AND NOT (mask n) OR mask n) AND mask n = (mask n :: u8)"
      by (auto intro!: bit_word_eqI simp: bit_simps)
    then have "decode_integer (integer_bytes v n lead @ rest) n =
        decode_integer_loop (continuation_bytes (v - (2 ^ n - 1)) @ rest) (2 ^ n - 1) 1 0"
      using False assms msk by (simp add: decode_integer_def Let_def integer_bytes_def unat_mask)
    also have "\<dots> = (if v - (2 ^ n - 1) < 2 ^ 28
        then Ok (v, 1 + length (continuation_bytes (v - (2 ^ n - 1))))
        else Err (IntegerDecodingError TooManyOctets))"
      using continuation_bytes_length[of "v - (2 ^ n - 1)" 3] False
      by (simp add: decode_integer_loop_bytes)
    finally show ?thesis using False by (auto simp: integer_bytes_def)
  qed
qed

section \<open>What a successful read guarantees\<close>

lemma decode_integer_loop_bounds:
  "decode_integer_loop xs acc tot m = Ok (v, c) \<Longrightarrow> tot < 5 \<Longrightarrow>
     v + 2 ^ m \<le> acc + 2 ^ m * 128 ^ (5 - tot) \<and> tot < c \<and> c \<le> 5 \<and> c \<le> tot + length xs"
proof (induction xs acc tot m rule: decode_integer_loop.induct)
  case (2 x xs acc tot m)
  let ?k = "unat (x AND 127)"
  have "?k \<le> 127"
    using word_and_le1[of x 127] by (simp add: word_le_nat_alt)
  then have "(?k + 1) * 2 ^ m \<le> 128 * 2 ^ m"
    by (intro mult_le_mono1) simp
  then have k: "?k * 2 ^ m + 2 ^ m \<le> 128 * 2 ^ m"
    by simp
  have "5 - tot = Suc (4 - tot)" using "2.prems"(2) by simp
  then have pow: "(128 :: nat) ^ (5 - tot) = 128 * 128 ^ (4 - tot)" by (simp only: power_Suc)
  show ?case
  proof (cases "x AND 128 \<noteq> 128")
    case True
    have "(1 :: nat) \<le> 128 ^ (4 - tot)" by simp
    then have "128 * 2 ^ m \<le> (2 :: nat) ^ m * 128 ^ (5 - tot)" by (simp add: pow)
    moreover have vc: "v = acc + ?k * 2 ^ m" "c = tot + 1"
      using True "2.prems" by (simp_all add: Let_def)
    ultimately have "v + 2 ^ m \<le> acc + 2 ^ m * 128 ^ (5 - tot)" using k by linarith
    with vc "2.prems"(2) show ?thesis by simp
  next
    case False
    with "2.prems" have tot: "tot + 1 < 5" by (auto simp: Let_def split: if_splits)
    have IH: "v + 2 ^ (m + 7) \<le> acc + ?k * 2 ^ m + 2 ^ (m + 7) * 128 ^ (4 - tot) \<and>
        tot + 1 < c \<and> c \<le> 5 \<and> c \<le> tot + 1 + length xs"
      using "2.IH"[OF refl refl refl] False "2.prems" tot by (simp add: Let_def)
    have "(2 :: nat) ^ (m + 7) * 128 ^ (4 - tot) = 2 ^ m * 128 ^ (5 - tot)"
      by (simp add: pow power_add)
    moreover have "(2 :: nat) ^ (m + 7) = 128 * 2 ^ m" by (simp add: power_add)
    ultimately have "v + 2 ^ m \<le> acc + 2 ^ m * 128 ^ (5 - tot)" using IH k by linarith
    with IH show ?thesis by simp
  qed
qed simp

lemma decode_integer_bounds:
  assumes "decode_integer buf n = Ok (v, c)"
  shows "v < 2 ^ n - 1 + 2 ^ 28" "1 \<le> c" "c \<le> 5" "c \<le> length buf"
proof -
  have n: "1 \<le> n" "n \<le> 8" and "buf \<noteq> []"
    using assms by (auto simp: decode_integer_def split: if_splits)
  then obtain x xs where buf: "buf = x # xs" by (cases buf) auto
  have msk: "(if n = 8 then 0xFF else push_bit n 1 - 1) = (mask n :: u8)"
    using prefix_mask_eq[OF n(2)] n by (simp add: prefix_mask_def split: if_splits)
  have le: "unat (x AND mask n) \<le> 2 ^ n - 1"
    using word_and_le1[of x "mask n"] n by (simp add: word_le_nat_alt unat_mask)
  consider "v = unat (x AND mask n)" "c = 1" "v < 2 ^ n - 1"
    | "decode_integer_loop xs (unat (x AND mask n)) 1 0 = Ok (v, c)"
    using assms n by (auto simp: decode_integer_def Let_def buf msk unat_mask split: if_splits)
  then have "v < 2 ^ n - 1 + 2 ^ 28 \<and> 1 \<le> c \<and> c \<le> 5 \<and> c \<le> length buf"
  proof cases
    case 2
    have "v + 2 ^ 0 \<le> unat (x AND mask n) + 2 ^ 0 * 128 ^ (5 - 1)" "1 < c" "c \<le> 5"
      "c \<le> 1 + length xs"
      using decode_integer_loop_bounds[OF 2] by simp_all
    moreover have "0 < (2 :: nat) ^ n" by simp
    then have "unat (x AND mask n) < 2 ^ n" using le by linarith
    ultimately show ?thesis using buf by simp
  qed (simp add: buf)
  then show "v < 2 ^ n - 1 + 2 ^ 28" "1 \<le> c" "c \<le> 5" "c \<le> length buf" by simp_all
qed

lemma decode_integer_loop_no_panic: "decode_integer_loop xs acc tot m \<noteq> Panic"
  by (induction xs acc tot m rule: decode_integer_loop.induct) (auto simp: Let_def)

lemma decode_integer_no_panic: "decode_integer buf n \<noteq> Panic"
  by (simp add: decode_integer_def Let_def decode_integer_loop_no_panic)

lemma decode_string_bytes:
  assumes "length s < 127 + 2 ^ 28"
  shows "decode_string (integer_bytes (length s) 7 0 @ s @ rest) =
    Ok (s, length (integer_bytes (length s) 7 0) + length s)"
proof -
  let ?i = "integer_bytes (length s) 7 0"
  have "\<not> bit (hd ?i) 7" using integer_bytes_lead_bit[of 7 7] by simp
  then have "(?i @ s @ rest) ! 0 AND 128 \<noteq> 128"
    using is_set_bit[of 7 "hd ?i"] by (simp add: nth_append hd_conv_nth)
  moreover have "decode_integer (?i @ s @ rest) 7 = Ok (length s, length ?i)"
    using assms decode_integer_bytes[of 7 "length s" 0 "s @ rest"] by simp
  moreover have "0 < length ?i" by (simp add: length_greater_0_conv[THEN iffD2])
  ultimately show ?thesis
    by (simp add: decode_string_def index_at_def Let_def)
qed

lemma decode_string_bounds:
  assumes "decode_string buf = Ok (s, c)"
  shows "1 \<le> c" "c \<le> length buf"
proof -
  obtain len k where "decode_integer buf 7 = Ok (len, k)" "k + len \<le> length buf" "c = k + len"
    using assms
    by (auto simp: decode_string_def result_simps Let_def split: if_splits result.splits)
  then show "1 \<le> c" "c \<le> length buf" using decode_integer_bounds(2)[of buf 7 len k] by auto
qed

lemma decode_string_no_panic: "decode_string buf \<noteq> Panic"
proof
  assume "decode_string buf = Panic"
  then consider "decode_integer buf 7 = Panic" | len k where "decode_integer buf 7 = Ok (len, k)"
      "length buf \<le> 0"
    | raw where "hpack_huffman_decode raw = Panic"
    by (auto simp: decode_string_def result_simps Let_def split: if_splits result.splits)
  then show False
  proof cases
    case 1
    then show False by (simp add: decode_integer_no_panic)
  next
    case 2
    then show False using decode_integer_bounds by fastforce
  next
    case 3
    then show False
      by (auto simp: hpack_huffman_decode_parse split: prod.splits if_splits)
  qed
qed

section \<open>Properties\<close>

text \<open>C27: what \<open>encode_integer_into\<close> writes for a value, \<open>decode_integer\<close> reads back with the
  number of bytes written, whatever follows in the buffer and whatever the leading bits are; a
  value that needs more than five octets is the only one rejected, as \<open>TooManyOctets\<close>.\<close>

theorem integer_roundtrip:
  assumes "1 \<le> n" "n \<le> 8"
  shows "\<exists>bs. encode_integer_into vec_write_all v n lead w = (Ok () :: (unit, 'e) result, w @ bs) \<and>
    decode_integer (bs @ rest) n =
      (if v < 2 ^ n - 1 + 2 ^ 28 then Ok (v, length bs)
       else Err (IntegerDecodingError TooManyOctets))"
  using decode_integer_bytes[OF assms] encode_integer_into_vec[OF assms(2)]
  by (intro exI[of _ "integer_bytes v n lead"]) simp

theorem integer_roundtrip_witness:
  "\<exists>bs. encode_integer_into vec_write_all 1337 5 0x80 [] = (Ok () :: (unit, unit) result, [] @ bs) \<and>
    decode_integer (bs @ [7]) 5 = Ok (1337, length bs)"
  using integer_roundtrip[of 5 1337 "0x80" "[]" "[7]", where 'e = unit] by simp

text \<open>A successful \<open>decode_integer\<close> consumed between one and five bytes, no more than the
  buffer has, and the value is below \<open>2 ^ n - 1 + 2 ^ 28\<close>: the arithmetic of the loop cannot
  overflow even a 32-bit \<open>usize\<close>.\<close>

lemma decode_integer_safe:
  assumes "decode_integer buf n = Ok (v, c)"
  shows "v < 2 ^ n - 1 + 2 ^ 28 \<and> v < 2 ^ 32 \<and> 1 \<le> c \<and> c \<le> 5 \<and> c \<le> length buf"
proof -
  have "n \<le> 8" using assms by (auto simp: decode_integer_def split: if_splits)
  then have "(2 :: nat) ^ n \<le> 2 ^ 8" by (intro power_increasing) auto
  with decode_integer_bounds[OF assms] show ?thesis by simp
qed

lemma decode_integer_safe_witness:
  "decode_integer [31, 154, 10, 7] 5 = Ok (1337, 3) \<and> (3 :: nat) \<le> length [31, 154, 10, 7 :: u8]"
proof -
  have "decode_integer [31, 154, 10, 7] 5 = Ok (1337, 3)"
    by (simp add: decode_integer_def Let_def)
  then show ?thesis using decode_integer_safe[of "[31, 154, 10, 7]" 5 1337 3] by simp
qed

text \<open>An octet string written by \<open>encode_string_literal\<close> is read back by \<open>decode_string\<close>,
  together with the number of bytes written, as long as its length is representable in five
  octets.\<close>

lemma string_roundtrip:
  assumes "length s < 127 + 2 ^ 28"
  shows "\<exists>bs. encode_string_literal vec_write_all s w = (Ok () :: (unit, 'e) result, w @ bs) \<and>
    decode_string (bs @ rest) = Ok (s, length bs)"
  using decode_string_bytes[OF assms, of rest]
  by (intro exI[of _ "integer_bytes (length s) 7 0 @ s"]) (simp add: encode_string_literal_vec)

lemma string_roundtrip_witness:
  "\<exists>bs. encode_string_literal vec_write_all [1, 2, 3] [] = (Ok () :: (unit, unit) result, [] @ bs) \<and>
    decode_string (bs @ [9]) = Ok ([1, 2, 3], length bs)"
  using string_roundtrip[of "[1, 2, 3]" "[]" "[9]", where 'e = unit] by simp

end
