(* ===== verification/Hpack_Encoder.thy ===== *)
theory Hpack_Encoder
  imports Hpack_Tables Hpack_Primitives
begin

text \<open>
  The HPACK encoder (\<open>crates/loona-hpack/src/encoder.rs\<close>): its header table and the encoding of
  a header list into any \<open>io::Write\<close>. A header found in the tables becomes its index; a header
  whose name only is found becomes an index and a literal value, without indexing; any other
  header becomes two literals and is added to the dynamic table. The bytes written to a
  \<open>Vec<u8>\<close> are given by \<open>header_bytes\<close>, and the invariant that the documentation of \<open>encode\<close>
  states (no header name twice in the produced table) is proved.
\<close>

section \<open>The encoder\<close>

record encoder =
  enc_header_table :: header_table

definition encoder_new :: encoder where
  "encoder_new = \<lparr>enc_header_table = with_static_table STATIC_TABLE\<rparr>"

definition enc_set_max_table_size :: "encoder \<Rightarrow> nat \<Rightarrow> (encoder, 'e) result" where
  "enc_set_max_table_size enc new_max_size =
     and_then (dt_set_max_table_size (ht_dynamic_table (enc_header_table enc)) new_max_size)
       (\<lambda>dt. Ok (enc\<lparr>enc_header_table := (enc_header_table enc)\<lparr>ht_dynamic_table := dt\<rparr>\<rparr>))"

definition encode_literal ::
    "('w, 'e) writer \<Rightarrow> header \<Rightarrow> bool \<Rightarrow> 'w \<Rightarrow> (unit, 'e) result \<times> 'w" where
  "encode_literal write_all header should_index buf =
     (let msk = (if should_index then 0x40 else 0)
      in bind_st (write_all buf [msk])
           (\<lambda>_ buf. bind_st (encode_string_literal write_all (fst header) buf)
             (\<lambda>_ buf. encode_string_literal write_all (snd header) buf)))"

definition encode_indexed_name ::
    "('w, 'e) writer \<Rightarrow> nat \<times> bytes \<Rightarrow> bool \<Rightarrow> 'w \<Rightarrow> (unit, 'e) result \<times> 'w" where
  "encode_indexed_name write_all header should_index buf =
     (let (msk, prefx) = (if should_index then (0x40, 6) else (0, 4))
      in bind_st (encode_integer_into write_all (fst header) prefx msk buf)
           (\<lambda>_ buf. encode_string_literal write_all (snd header) buf))"

definition encode_indexed :: "('w, 'e) writer \<Rightarrow> nat \<Rightarrow> 'w \<Rightarrow> (unit, 'e) result \<times> 'w" where
  "encode_indexed write_all index buf = encode_integer_into write_all index 7 0x80 buf"

text \<open>The state of an encoding is the encoder and the writer.\<close>

definition encode_header_into ::
    "('w, 'e) writer \<Rightarrow> header \<Rightarrow> encoder \<times> 'w \<Rightarrow> (unit, 'e) result \<times> (encoder \<times> 'w)" where
  "encode_header_into write_all header s =
     (let (enc, w) = s in
      case find_header (enc_header_table enc) header of
        None \<Rightarrow>
          (case encode_literal write_all header True w of
             (Ok _, w') \<Rightarrow>
               (case ht_add_header (enc_header_table enc) (fst header) (snd header) of
                  Ok ht \<Rightarrow> (Ok (), enc\<lparr>enc_header_table := ht\<rparr>, w')
                | Err e \<Rightarrow> (Err e, enc, w')
                | Panic \<Rightarrow> (Panic, enc, w'))
           | (r, w') \<Rightarrow> (r, enc, w'))
      | Some (index, False) \<Rightarrow>
          (case encode_indexed_name write_all (index, snd header) False w of
             (r, w') \<Rightarrow> (r, enc, w'))
      | Some (index, True) \<Rightarrow>
          (case encode_indexed write_all index w of (r, w') \<Rightarrow> (r, enc, w')))"

fun encode_into ::
    "('w, 'e) writer \<Rightarrow> header list \<Rightarrow> encoder \<times> 'w \<Rightarrow> (unit, 'e) result \<times> (encoder \<times> 'w)" where
  "encode_into write_all [] s = (Ok (), s)"
| "encode_into write_all (header # headers) s =
     bind_st (encode_header_into write_all header s) (\<lambda>_ s. encode_into write_all headers s)"

definition encode :: "encoder \<Rightarrow> header list \<Rightarrow> (bytes, 'e) result \<times> encoder" where
  "encode enc headers =
     (case encode_into (vec_write_all :: (bytes, 'e) writer) headers (enc, []) of
        (Ok _, enc', encoded) \<Rightarrow> (Ok encoded, enc')
      | (Err e, enc', encoded) \<Rightarrow> (Panic, enc')
      | (Panic, enc', encoded) \<Rightarrow> (Panic, enc'))"

section \<open>The bytes of a header\<close>

definition literal_bytes :: "header \<Rightarrow> bytes" where
  "literal_bytes h =
     0x40 # integer_bytes (length (fst h)) 7 0 @ fst h @ integer_bytes (length (snd h)) 7 0 @ snd h"

definition indexed_name_bytes :: "nat \<Rightarrow> bytes \<Rightarrow> bytes" where
  "indexed_name_bytes i v = integer_bytes i 4 0 @ integer_bytes (length v) 7 0 @ v"

definition header_bytes :: "header_table \<Rightarrow> header \<Rightarrow> bytes" where
  "header_bytes ht h =
     (case find_header ht h of
        None \<Rightarrow> literal_bytes h
      | Some (i, full) \<Rightarrow> if full then integer_bytes i 7 0x80 else indexed_name_bytes i (snd h))"

abbreviation enc_dynamic_table :: "encoder \<Rightarrow> dynamic_table" where
  "enc_dynamic_table enc \<equiv> ht_dynamic_table (enc_header_table enc)"

definition enc_inv :: "encoder \<Rightarrow> bool" where
  "enc_inv enc \<longleftrightarrow> dt_inv (enc_dynamic_table enc)"

text \<open>The encoder after a header: the header is pushed when its name was in no table.\<close>

definition enc_after :: "encoder \<Rightarrow> header \<Rightarrow> encoder" where
  "enc_after enc h =
     (if find_header (enc_header_table enc) h = None
      then enc\<lparr>enc_header_table :=
             (enc_header_table enc)\<lparr>ht_dynamic_table := dt_push (enc_dynamic_table enc) h\<rparr>\<rparr>
      else enc)"

fun encode_bytes :: "encoder \<Rightarrow> header list \<Rightarrow> bytes" where
  "encode_bytes enc [] = []"
| "encode_bytes enc (h # hs) =
     header_bytes (enc_header_table enc) h @ encode_bytes (enc_after enc h) hs"

lemma enc_inv_after: "enc_inv enc \<Longrightarrow> enc_inv (enc_after enc h)"
  by (simp add: enc_inv_def enc_after_def dt_inv_push)

lemma enc_static_after [simp]:
  "static_table (enc_header_table (enc_after enc h)) = static_table (enc_header_table enc)"
  by (simp add: enc_after_def)

lemma enc_max_after [simp]:
  "dt_max_size (enc_dynamic_table (enc_after enc h)) = dt_max_size (enc_dynamic_table enc)"
  by (simp add: enc_after_def)

lemma encode_header_into_vec:
  assumes "enc_inv enc"
  shows "encode_header_into vec_write_all h (enc, w) =
    (Ok (), enc_after enc h, w @ header_bytes (enc_header_table enc) h)"
proof -
  have "dt_inv (enc_dynamic_table enc)" using assms by (simp add: enc_inv_def)
  then show ?thesis
    by (auto simp: encode_header_into_def header_bytes_def enc_after_def encode_literal_def Let_def
        encode_string_literal_vec literal_bytes_def ht_add_header_def dt_add_header_push
        encode_indexed_name_def encode_integer_into_vec indexed_name_bytes_def encode_indexed_def
        vec_write_all_def[of w]
        split: option.splits bool.splits)
qed

lemma encode_into_vec:
  "enc_inv enc \<Longrightarrow> encode_into vec_write_all hs (enc, w) =
    (Ok (), foldl enc_after enc hs, w @ encode_bytes enc hs)"
proof (induction hs arbitrary: enc w)
  case (Cons h hs)
  then show ?case by (simp add: encode_header_into_vec enc_inv_after)
qed simp

lemma encode_vec: "enc_inv enc \<Longrightarrow> encode enc hs = (Ok (encode_bytes enc hs), foldl enc_after enc hs)"
  by (simp add: encode_def encode_into_vec)

lemma enc_inv_foldl: "enc_inv enc \<Longrightarrow> enc_inv (foldl enc_after enc hs)"
  by (induction hs arbitrary: enc) (auto simp: enc_inv_after)

lemma enc_inv_new [simp]: "enc_inv encoder_new"
  by (simp add: enc_inv_def encoder_new_def with_static_table_def)

section \<open>No name twice in the dynamic table\<close>

text \<open>
  The dynamic table of an encoder holds no name twice and no name of the static table, so a
  header whose value changes does not evict others.
\<close>

definition enc_names_inv :: "encoder \<Rightarrow> bool" where
  "enc_names_inv enc \<longleftrightarrow>
     distinct (map fst (dt_table (enc_dynamic_table enc))) \<and>
     set (map fst (dt_table (enc_dynamic_table enc))) \<inter>
       set (map fst (static_table (enc_header_table enc))) = {}"

lemma map_fst_prefix_distinct: "prefix xs ys \<Longrightarrow> distinct (map fst ys) \<Longrightarrow> distinct (map fst xs)"
  by (auto simp: prefix_def)

lemma enc_names_inv_after:
  assumes "enc_names_inv enc"
  shows "enc_names_inv (enc_after enc h)"
proof (cases "find_header (enc_header_table enc) h")
  case None
  let ?t = "dt_table (enc_dynamic_table enc)" and ?m = "dt_max_size (enc_dynamic_table enc)"
  have new: "fst h \<notin> set (map fst ?t)" "fst h \<notin> set (map fst (static_table (enc_header_table enc)))"
    using None by (auto simp: find_header_None ht_iter_def)
  have pre: "prefix (fit ?m (h # ?t)) (h # ?t)" by (rule prefix_fit)
  from set_mono_prefix[OF pre]
  have "set (map fst (fit ?m (h # ?t))) \<subseteq> insert (fst h) (set (map fst ?t))"
    by (auto simp del: fit.simps)
  moreover have "distinct (map fst (fit ?m (h # ?t)))"
    using map_fst_prefix_distinct[OF pre] new(1) assms by (simp add: enc_names_inv_def)
  moreover have "set (map fst ?t) \<inter> set (map fst (static_table (enc_header_table enc))) = {}"
    using assms by (simp add: enc_names_inv_def)
  ultimately have "distinct (map fst (fit ?m (h # ?t))) \<and>
      set (map fst (fit ?m (h # ?t))) \<inter> set (map fst (static_table (enc_header_table enc))) = {}"
    using new(2) by blast
  then show ?thesis using None by (simp add: enc_names_inv_def enc_after_def dt_push_def del: fit.simps)
next
  case Some
  then show ?thesis using assms by (simp add: enc_after_def)
qed

lemma enc_names_inv_set_max:
  assumes "enc_inv enc" and "enc_names_inv enc" and "enc_set_max_table_size enc m = Ok enc'"
  shows "enc_inv enc' \<and> enc_names_inv enc'"
proof -
  let ?t = "dt_table (enc_dynamic_table enc)"
  have "dt_inv (enc_dynamic_table enc)" using assms(1) by (simp add: enc_inv_def)
  then have enc': "enc' = enc\<lparr>enc_header_table := (enc_header_table enc)\<lparr>ht_dynamic_table :=
      dt_resize (enc_dynamic_table enc) m\<rparr>\<rparr>"
    using assms(3) by (simp add: enc_set_max_table_size_def dt_set_max_table_size_resize)
  have "distinct (map fst (fit m ?t))"
    using map_fst_prefix_distinct[OF prefix_fit] assms(2) by (auto simp: enc_names_inv_def)
  moreover have "set (map fst (fit m ?t)) \<subseteq> set (map fst ?t)"
    using set_mono_prefix[OF prefix_fit] by (simp add: image_mono)
  moreover have "set (map fst ?t) \<inter> set (map fst (static_table (enc_header_table enc))) = {}"
    using assms(2) by (simp add: enc_names_inv_def)
  ultimately have "distinct (map fst (fit m ?t)) \<and>
      set (map fst (fit m ?t)) \<inter> set (map fst (static_table (enc_header_table enc))) = {}"
    by blast
  then show ?thesis using dt_inv_resize by (simp add: enc' enc_inv_def enc_names_inv_def dt_resize_def)
qed

section \<open>Reachable encoders\<close>

inductive enc_reachable :: "encoder \<Rightarrow> bool" where
  enc_reachable_new: "enc_reachable encoder_new"
| enc_reachable_encode:
    "enc_reachable enc \<Longrightarrow> enc_reachable (snd (encode enc hs :: (bytes, unit) result \<times> encoder))"
| enc_reachable_set_max:
    "enc_reachable enc \<Longrightarrow> enc_set_max_table_size enc m = (Ok enc' :: (encoder, unit) result) \<Longrightarrow>
     enc_reachable enc'"

lemma enc_names_inv_foldl: "enc_names_inv enc \<Longrightarrow> enc_names_inv (foldl enc_after enc hs)"
  by (induction hs arbitrary: enc) (auto simp: enc_names_inv_after)

text \<open>In every encoder that a program can build, the dynamic table is within its bound and
  holds each header name at most once, and none that the static table has: the reason the
  documentation of \<open>encode\<close> gives for not indexing a literal with a known name.\<close>

lemma encoder_reachable_inv:
  assumes "enc_reachable enc"
  shows "enc_inv enc \<and> enc_names_inv enc"
  using assms
proof (induction rule: enc_reachable.induct)
  case enc_reachable_new
  have "enc_names_inv encoder_new"
    by (simp add: enc_names_inv_def encoder_new_def with_static_table_def dynamic_table_new_def
        with_size_def)
  then show ?case by simp
next
  case (enc_reachable_encode enc hs)
  then show ?case by (simp add: encode_vec enc_inv_foldl enc_names_inv_foldl)
next
  case (enc_reachable_set_max enc m enc')
  then show ?case using enc_names_inv_set_max by blast
qed

lemma encoder_reachable_inv_witness:
  "enc_names_inv (snd (encode encoder_new [(byte_str ''x-a'', byte_str ''1''),
     (byte_str ''x-a'', byte_str ''2'')] :: (bytes, unit) result \<times> encoder))"
  using encoder_reachable_inv[OF enc_reachable_encode[OF enc_reachable_new]] by blast

text \<open>When the writer fails in the middle of a header, \<open>encode_header_into\<close> reports that error
  and leaves the encoder's tables as they were; the literal is indexed only after it has been
  written completely.\<close>

lemma encode_header_write_error:
  assumes "enc_inv enc" and "encode_header_into write_all h (enc, w) = (Err e, enc', w')"
  shows "enc' = enc"
  using assms
  by (auto simp: encode_header_into_def enc_inv_def ht_add_header_def dt_add_header_push Let_def
      split: option.splits bool.splits result.splits prod.splits)

definition failing_write_all :: "(bytes, unit) writer" where
  "failing_write_all w bs = (if 2 < length w then (Err (), w) else (Ok (), w @ bs))"

theorem encode_header_write_error_witness:
  "\<exists>w'. encode_header_into failing_write_all (byte_str ''x-a'', byte_str ''1'') (encoder_new, []) =
     (Err (), encoder_new, w')"
proof -
  have "encode_literal failing_write_all (byte_str ''x-a'', byte_str ''1'') True [] =
      (Err (), 0x40 # 3 # byte_str ''x-a'')"
    by (simp add: encode_literal_def encode_string_literal_def encode_integer_into_def prefix_mask_def
        failing_write_all_def byte_str_def Let_def)
  moreover have "find_header (enc_header_table encoder_new) (byte_str ''x-a'', byte_str ''1'') = None"
    by (simp add: find_header_None ht_iter_def encoder_new_def with_static_table_def
        dynamic_table_new_def with_size_def STATIC_TABLE_def byte_str_def)
  ultimately obtain enc' w' where
    run: "encode_header_into failing_write_all (byte_str ''x-a'', byte_str ''1'') (encoder_new, []) =
      (Err (), enc', w')"
    by (simp add: encode_header_into_def)
  moreover have "enc' = encoder_new"
    using encode_header_write_error[OF enc_inv_new run] .
  ultimately show ?thesis by blast
qed

end
