(* ===== verification/Hpack_Decoder.thy ===== *)
theory Hpack_Decoder
  imports Hpack_Tables Hpack_Primitives
begin

text \<open>
  The HPACK decoder (\<open>crates/loona-hpack/src/decoder.rs\<close>): the five field representations, the
  loop of \<open>decode_with_cb\<close> over a header block, and the dynamic table it maintains. The callback
  is a function on a state of the caller's, threaded through the loop; on an error the table
  and the callback's state keep what was done before it, as in the source. Decoding terminates
  (every field consumes a byte), never panics, and keeps the table within the size that the
  protocol allows. The \<open>allow_trailing_size_updates\<close> flag exists in test builds only and is not
  modelled.
\<close>

section \<open>Field representations\<close>

datatype field_representation =
  Indexed
| LiteralWithIncrementalIndexing
| SizeUpdate
| LiteralNeverIndexed
| LiteralWithoutIndexing

definition field_representation_new :: "u8 \<Rightarrow> field_representation" where
  "field_representation_new octet =
     (if octet AND 128 = 128 then Indexed
      else if octet AND 64 = 64 then LiteralWithIncrementalIndexing
      else if octet AND 32 = 32 then SizeUpdate
      else if octet AND 16 = 16 then LiteralNeverIndexed
      else LiteralWithoutIndexing)"

section \<open>The decoder\<close>

record decoder =
  dec_header_table :: header_table
  max_allowed_table_size :: "nat option"

definition dec_with_static_table :: "header list \<Rightarrow> decoder" where
  "dec_with_static_table st =
     \<lparr>dec_header_table = with_static_table st, max_allowed_table_size = None\<rparr>"

definition decoder_new :: decoder where
  "decoder_new = dec_with_static_table STATIC_TABLE"

text \<open>The \<open>assert!\<close> on the allowed size is a panic.\<close>

definition dec_set_max_table_size :: "decoder \<Rightarrow> nat \<Rightarrow> (decoder, 'e) result" where
  "dec_set_max_table_size dec new_max_size =
     (if (case max_allowed_table_size dec of
            Some max_allowed_size \<Rightarrow> \<not> new_max_size \<le> max_allowed_size
          | None \<Rightarrow> False)
      then Panic
      else
        and_then (dt_set_max_table_size (ht_dynamic_table (dec_header_table dec)) new_max_size)
          (\<lambda>dt. Ok (dec\<lparr>dec_header_table := (dec_header_table dec)\<lparr>ht_dynamic_table := dt\<rparr>\<rparr>)))"

definition set_max_allowed_table_size :: "decoder \<Rightarrow> nat \<Rightarrow> decoder" where
  "set_max_allowed_table_size dec max_allowed_size =
     dec\<lparr>max_allowed_table_size := Some max_allowed_size\<rparr>"

definition dec_get_from_table :: "decoder \<Rightarrow> nat \<Rightarrow> (header, decoder_error) result" where
  "dec_get_from_table dec index =
     ok_or (get_from_table (dec_header_table dec) index) HeaderIndexOutOfBounds"

definition decode_indexed :: "decoder \<Rightarrow> bytes \<Rightarrow> (header \<times> nat, decoder_error) result" where
  "decode_indexed dec buf =
     and_then (decode_integer buf 7) (\<lambda>(index, consumed).
     and_then (dec_get_from_table dec index) (\<lambda>(name, value).
       Ok ((name, value), consumed)))"

definition decode_literal :: "decoder \<Rightarrow> bytes \<Rightarrow> bool \<Rightarrow> (header \<times> nat, decoder_error) result" where
  "decode_literal dec buf index =
     (let prefx = (if index then 6 else 4) in
      and_then (decode_integer buf prefx) (\<lambda>(table_index, consumed).
      and_then
        (if table_index = 0 then
           and_then (slice_from buf consumed) (\<lambda>rest.
           and_then (decode_string rest) (\<lambda>(name, name_len).
             Ok (name, consumed + name_len)))
         else
           and_then (dec_get_from_table dec table_index) (\<lambda>(name, _). Ok (name, consumed)))
        (\<lambda>(name, consumed).
      and_then (slice_from buf consumed) (\<lambda>rest.
      and_then (decode_string rest) (\<lambda>(value, value_len).
        Ok ((name, value), consumed + value_len))))))"

definition update_max_dynamic_size :: "decoder \<Rightarrow> bytes \<Rightarrow> (nat, decoder_error) result \<times> decoder" where
  "update_max_dynamic_size dec buf =
     (case decode_integer buf 5 of
        Ok (new_size, consumed) \<Rightarrow>
          if (case max_allowed_table_size dec of
                Some max_size \<Rightarrow> max_size < new_size
              | None \<Rightarrow> False)
          then (Err InvalidMaxDynamicSize, dec)
          else
            (case dt_set_max_table_size (ht_dynamic_table (dec_header_table dec)) new_size of
               Ok dt \<Rightarrow>
                 (Ok consumed,
                  dec\<lparr>dec_header_table := (dec_header_table dec)\<lparr>ht_dynamic_table := dt\<rparr>\<rparr>)
             | Err e \<Rightarrow> (Err e, dec)
             | Panic \<Rightarrow> (Panic, dec))
      | Err e \<Rightarrow> (Err e, dec)
      | Panic \<Rightarrow> (Panic, dec))"

section \<open>Decoding a header block\<close>

type_synonym 's callback = "'s \<Rightarrow> bytes \<Rightarrow> bytes \<Rightarrow> 's"

text \<open>One turn of the loop: the field at the start of \<open>buffer_leftover\<close>.\<close>

definition decode_field ::
    "'s callback \<Rightarrow> bytes \<Rightarrow> decoder \<times> 's \<Rightarrow> (nat, decoder_error) result \<times> (decoder \<times> 's)" where
  "decode_field cb buffer_leftover st =
     (let (dec, s) = st in
      case index_at buffer_leftover 0 of
        Err e \<Rightarrow> (Err e, st)
      | Panic \<Rightarrow> (Panic, st)
      | Ok initial_octet \<Rightarrow>
          (case field_representation_new initial_octet of
             Indexed \<Rightarrow>
               (case decode_indexed dec buffer_leftover of
                  Ok ((name, value), consumed) \<Rightarrow> (Ok consumed, dec, cb s name value)
                | Err e \<Rightarrow> (Err e, st)
                | Panic \<Rightarrow> (Panic, st))
           | LiteralWithIncrementalIndexing \<Rightarrow>
               (case decode_literal dec buffer_leftover True of
                  Ok ((name, value), consumed) \<Rightarrow>
                    let s' = cb s name value in
                    (case ht_add_header (dec_header_table dec) name value of
                       Ok ht \<Rightarrow> (Ok consumed, dec\<lparr>dec_header_table := ht\<rparr>, s')
                     | Err e \<Rightarrow> (Err e, dec, s')
                     | Panic \<Rightarrow> (Panic, dec, s'))
                | Err e \<Rightarrow> (Err e, st)
                | Panic \<Rightarrow> (Panic, st))
           | LiteralWithoutIndexing \<Rightarrow>
               (case decode_literal dec buffer_leftover False of
                  Ok ((name, value), consumed) \<Rightarrow> (Ok consumed, dec, cb s name value)
                | Err e \<Rightarrow> (Err e, st)
                | Panic \<Rightarrow> (Panic, st))
           | LiteralNeverIndexed \<Rightarrow>
               (case decode_literal dec buffer_leftover False of
                  Ok ((name, value), consumed) \<Rightarrow> (Ok consumed, dec, cb s name value)
                | Err e \<Rightarrow> (Err e, st)
                | Panic \<Rightarrow> (Panic, st))
           | SizeUpdate \<Rightarrow>
               (case update_max_dynamic_size dec buffer_leftover of
                  (r, dec') \<Rightarrow> (r, dec', s))))"

lemma decode_indexed_consumed: "decode_indexed dec buf = Ok (h, c) \<Longrightarrow> 1 \<le> c \<and> c \<le> length buf"
  by (auto simp: decode_indexed_def result_simps dest: decode_integer_bounds)

lemma decode_literal_consumed:
  assumes "decode_literal dec buf idx = Ok (h, c)"
  shows "1 \<le> c \<and> c \<le> length buf"
proof -
  obtain n rest v k where "n \<le> length buf" "decode_string (drop n buf) = Ok (v, k)" "c = n + k"
    using assms by (auto simp: decode_literal_def result_simps Let_def)
  then show ?thesis using decode_string_bounds[of "drop n buf" v k] by auto
qed

lemma update_max_dynamic_size_consumed:
  "update_max_dynamic_size dec buf = (Ok c, dec') \<Longrightarrow> 1 \<le> c \<and> c \<le> length buf"
  by (auto simp: update_max_dynamic_size_def split: result.splits prod.splits if_splits option.splits
      dest: decode_integer_bounds)

text \<open>Every field consumes at least a byte and at most what is left.\<close>

lemma decode_field_consumed:
  "decode_field cb buf st = (Ok c, st') \<Longrightarrow> 1 \<le> c \<and> c \<le> length buf"
  by (auto simp: decode_field_def Let_def split: result.splits prod.splits field_representation.splits
      dest: decode_indexed_consumed decode_literal_consumed update_max_dynamic_size_consumed)

function decode_loop ::
    "'s callback \<Rightarrow> bytes \<Rightarrow> nat \<Rightarrow> bool \<Rightarrow> decoder \<times> 's \<Rightarrow>
     (unit, decoder_error) result \<times> (decoder \<times> 's)" where
  "decode_loop cb buf current_octet_index last_was_size_update st =
     (if current_octet_index < length buf then
        (case decode_field cb (drop current_octet_index buf) st of
           (Ok consumed, st') \<Rightarrow>
             decode_loop cb buf (current_octet_index + consumed)
               (field_representation_new (buf ! current_octet_index) = SizeUpdate) st'
         | (Err e, st') \<Rightarrow> (Err e, st')
         | (Panic, st') \<Rightarrow> (Panic, st'))
      else if last_was_size_update then (Err SizeUpdateAtEnd, st)
      else (Ok (), st))"
  by pat_completeness auto
termination
  by (relation "measure (\<lambda>(cb, buf, i, last, st). length buf - i)")
    (auto dest: sym[THEN decode_field_consumed] decode_field_consumed)

declare decode_loop.simps [simp del]

definition decode_with_cb ::
    "decoder \<Rightarrow> bytes \<Rightarrow> 's callback \<Rightarrow> 's \<Rightarrow> (unit, decoder_error) result \<times> (decoder \<times> 's)" where
  "decode_with_cb dec buf cb s = decode_loop cb buf 0 False (dec, s)"

definition decode :: "decoder \<Rightarrow> bytes \<Rightarrow> (header list, decoder_error) result \<times> decoder" where
  "decode dec buf =
     (case decode_with_cb dec buf (\<lambda>header_list n v. header_list @ [(n, v)]) [] of
        (Ok _, dec', header_list) \<Rightarrow> (Ok header_list, dec')
      | (Err e, dec', header_list) \<Rightarrow> (Err e, dec')
      | (Panic, dec', header_list) \<Rightarrow> (Panic, dec'))"

section \<open>The decoder's invariant\<close>

abbreviation dec_dynamic_table :: "decoder \<Rightarrow> dynamic_table" where
  "dec_dynamic_table dec \<equiv> ht_dynamic_table (dec_header_table dec)"

text \<open>The table's accounting is right and its bound is within what the protocol allows.\<close>

definition dec_inv :: "decoder \<Rightarrow> bool" where
  "dec_inv dec \<longleftrightarrow> dt_inv (dec_dynamic_table dec) \<and>
     (case max_allowed_table_size dec of
        None \<Rightarrow> True
      | Some m \<Rightarrow> dt_max_size (dec_dynamic_table dec) \<le> m)"

text \<open>What a header block cannot change: the static table and the allowed size.\<close>

definition dec_frame :: "decoder \<Rightarrow> decoder \<Rightarrow> bool" where
  "dec_frame dec dec' \<longleftrightarrow>
     max_allowed_table_size dec' = max_allowed_table_size dec \<and>
     static_table (dec_header_table dec') = static_table (dec_header_table dec)"

definition dec_add :: "decoder \<Rightarrow> header \<Rightarrow> decoder" where
  "dec_add dec h = dec\<lparr>dec_header_table :=
     (dec_header_table dec)\<lparr>ht_dynamic_table := dt_push (dec_dynamic_table dec) h\<rparr>\<rparr>"

definition dec_resize :: "decoder \<Rightarrow> nat \<Rightarrow> decoder" where
  "dec_resize dec m = dec\<lparr>dec_header_table :=
     (dec_header_table dec)\<lparr>ht_dynamic_table := dt_resize (dec_dynamic_table dec) m\<rparr>\<rparr>"

lemma dec_inv_dt: "dec_inv dec \<Longrightarrow> dt_inv (dec_dynamic_table dec)"
  by (simp add: dec_inv_def)

lemma dec_inv_add: "dec_inv dec \<Longrightarrow> dec_inv (dec_add dec h)"
  by (simp add: dec_inv_def dec_add_def dt_inv_push split: option.splits)

lemma dec_inv_resize:
  "(case max_allowed_table_size dec of None \<Rightarrow> True | Some m \<Rightarrow> n \<le> m) \<Longrightarrow> dec_inv (dec_resize dec n)"
  by (simp add: dec_inv_def dec_resize_def dt_inv_resize split: option.splits)

lemma dec_frame_refl [simp]: "dec_frame dec dec"
  by (simp add: dec_frame_def)

lemma dec_frame_trans: "dec_frame a b \<Longrightarrow> dec_frame b c \<Longrightarrow> dec_frame a c"
  by (simp add: dec_frame_def)

lemma dec_frame_add [simp]: "dec_frame dec (dec_add dec h)"
  by (simp add: dec_frame_def dec_add_def)

lemma dec_frame_resize [simp]: "dec_frame dec (dec_resize dec m)"
  by (simp add: dec_frame_def dec_resize_def)

lemma ht_add_header_dec:
  "dec_inv dec \<Longrightarrow> ht_add_header (dec_header_table dec) n v = Ok (dec_header_table (dec_add dec (n, v)))"
  by (simp add: ht_add_header_def dec_inv_def dt_add_header_push dec_add_def)

lemma dec_set_header_table_add [simp]:
  "dec\<lparr>dec_header_table := dec_header_table (dec_add dec h)\<rparr> = dec_add dec h"
  by (simp add: dec_add_def)

lemma update_max_dynamic_size_eq:
  "dec_inv dec \<Longrightarrow> update_max_dynamic_size dec buf =
     (case decode_integer buf 5 of
        Ok (n, c) \<Rightarrow>
          if (case max_allowed_table_size dec of Some m \<Rightarrow> m < n | None \<Rightarrow> False)
          then (Err InvalidMaxDynamicSize, dec) else (Ok c, dec_resize dec n)
      | Err e \<Rightarrow> (Err e, dec)
      | Panic \<Rightarrow> (Panic, dec))"
  by (simp add: update_max_dynamic_size_def dec_inv_def dt_set_max_table_size_resize dec_resize_def
      split: result.splits prod.splits)

lemma update_max_dynamic_size_inv:
  assumes "dec_inv dec" and "update_max_dynamic_size dec buf = (r, dec')"
  shows "r \<noteq> Panic \<and> dec_inv dec' \<and> dec_frame dec dec'"
  using assms decode_integer_no_panic[of buf 5]
  by (auto simp: update_max_dynamic_size_eq intro!: dec_inv_resize
      split: result.splits prod.splits if_splits option.splits)

lemma decode_indexed_no_panic: "decode_indexed dec buf \<noteq> Panic"
  by (auto simp: decode_indexed_def dec_get_from_table_def result_simps decode_integer_no_panic)

lemma decode_literal_no_panic: "decode_literal dec buf idx \<noteq> Panic"
  by (auto simp: decode_literal_def dec_get_from_table_def Let_def result_simps
      decode_integer_no_panic decode_string_no_panic
      dest: decode_integer_bounds decode_string_bounds split: if_splits)

text \<open>One field, whatever the bytes are: no panic, and the invariant is kept.\<close>

lemma decode_field_inv:
  assumes "dec_inv dec" and "buf \<noteq> []" and "decode_field cb buf (dec, s) = (r, dec', s')"
  shows "r \<noteq> Panic \<and> dec_inv dec' \<and> dec_frame dec dec'"
proof (cases "field_representation_new (buf ! 0)")
  case SizeUpdate
  then show ?thesis
    using assms update_max_dynamic_size_inv[OF assms(1)]
    by (auto simp: decode_field_def index_at_def split: prod.splits)
qed (use assms decode_indexed_no_panic decode_literal_no_panic in
     \<open>auto simp: decode_field_def index_at_def ht_add_header_dec Let_def dec_inv_add
        split: result.splits prod.splits\<close>)

lemma decode_loop_inv:
  "decode_loop cb buf i lst (dec, s) = (r, dec', s') \<Longrightarrow> dec_inv dec \<Longrightarrow>
     r \<noteq> Panic \<and> dec_inv dec' \<and> dec_frame dec dec'"
proof (induction cb buf i lst "(dec, s)" arbitrary: dec s rule: decode_loop.induct)
  case (1 cb buf i lst dec s)
  show ?case
  proof (cases "i < length buf")
    case False
    then show ?thesis using "1.prems" by (subst (asm) decode_loop.simps) (auto split: if_splits)
  next
    case True
    obtain q dec1 s1 where f: "decode_field cb (drop i buf) (dec, s) = (q, dec1, s1)"
      by (metis prod_cases3)
    have q: "q \<noteq> Panic \<and> dec_inv dec1 \<and> dec_frame dec dec1"
      using decode_field_inv[OF "1.prems"(2) _ f] True by simp
    show ?thesis
    proof (cases q)
      case (Ok c)
      then have "decode_loop cb buf (i + c) (field_representation_new (buf ! i) = SizeUpdate)
          (dec1, s1) = (r, dec', s')"
        using "1.prems"(1) True f by (subst (asm) decode_loop.simps) simp
      then show ?thesis
        using "1.hyps"[OF True f[unfolded Ok, symmetric] refl] q dec_frame_trans by blast
    qed (use "1.prems" True f q in \<open>auto simp: decode_loop.simps[of cb buf i]\<close>)
  qed
qed

section \<open>The callback sees the headers in order\<close>

definition feed :: "'s callback \<Rightarrow> 's \<Rightarrow> header list \<Rightarrow> 's" where
  "feed cb s hs = foldl (\<lambda>s h. cb s (fst h) (snd h)) s hs"

text \<open>A field delivers at most one header, which does not depend on the callback.\<close>

lemma decode_field_feed:
  "\<exists>r dec' hs. length hs \<le> 1 \<and> (\<forall>cb (s :: 's). decode_field cb buf (dec, s) = (r, dec', feed cb s hs)) \<and>
     (\<forall>s. decode_field (\<lambda>l n v. l @ [(n, v)]) buf (dec, s) = (r, dec', s @ hs))"
proof (cases "index_at buf 0 :: (u8, decoder_error) result")
  case (Ok x)
  show ?thesis
  proof (cases "field_representation_new x")
    case Indexed
    with Ok show ?thesis
      by (cases "decode_indexed dec buf")
        (auto simp: decode_field_def feed_def intro: exI[of _ "[]"] exI[of _ "[_]"])
  next
    case LiteralWithIncrementalIndexing
    show ?thesis
    proof (cases "decode_literal dec buf True")
      fix p assume p: "decode_literal dec buf True = Ok p"
      obtain n v c where "p = ((n, v), c)" by (metis surj_pair)
      with p Ok LiteralWithIncrementalIndexing show ?thesis
        by (cases "ht_add_header (dec_header_table dec) n v :: (header_table, decoder_error) result")
          (auto simp: decode_field_def feed_def Let_def intro: exI[of _ "[_]"])
    qed (use Ok LiteralWithIncrementalIndexing in
          \<open>auto simp: decode_field_def feed_def intro: exI[of _ "[]"]\<close>)
  next
    case SizeUpdate
    with Ok show ?thesis
      by (cases "update_max_dynamic_size dec buf")
        (auto simp: decode_field_def feed_def intro: exI[of _ "[]"])
  next
    case LiteralNeverIndexed
    with Ok show ?thesis
      by (cases "decode_literal dec buf False")
        (auto simp: decode_field_def feed_def intro: exI[of _ "[]"] exI[of _ "[_]"])
  next
    case LiteralWithoutIndexing
    with Ok show ?thesis
      by (cases "decode_literal dec buf False")
        (auto simp: decode_field_def feed_def intro: exI[of _ "[]"] exI[of _ "[_]"])
  qed
qed (auto simp: decode_field_def feed_def intro: exI[of _ "[]"])

lemma feed_append: "feed cb s (hs @ hs') = feed cb (feed cb s hs) hs'"
  by (simp add: feed_def)

lemma decode_loop_feed:
  "\<exists>r dec' hs. (\<forall>cb (s :: 's). decode_loop cb buf i l (dec, s) = (r, dec', feed cb s hs)) \<and>
     (\<forall>s. decode_loop (\<lambda>l n v. l @ [(n, v)]) buf i l (dec, s) = (r, dec', s @ hs))"
proof (induction "length buf - i" arbitrary: i l dec rule: less_induct)
  case less
  show ?case
  proof (cases "i < length buf")
    case False
    then show ?thesis
      by (cases l) (auto simp: decode_loop.simps feed_def intro: exI[of _ "[]"])
  next
    case True
    obtain r dec' hs where
      f: "\<And>cb (s :: 's). decode_field cb (drop i buf) (dec, s) = (r, dec', feed cb s hs)"
      and g: "\<And>s. decode_field (\<lambda>l n v. l @ [(n, v)]) (drop i buf) (dec, s) = (r, dec', s @ hs)"
      using decode_field_feed[of "drop i buf" dec, where 's = 's] by blast
    show ?thesis
    proof (cases r)
      case (Ok c)
      let ?l = "field_representation_new (buf ! i) = SizeUpdate"
      have "length buf - (i + c) < length buf - i"
        using decode_field_consumed[OF g[unfolded Ok]] True by auto
      from less[OF this, of ?l dec'] obtain q dec'' hs' where
        "\<forall>cb (s :: 's). decode_loop cb buf (i + c) ?l (dec', s) = (q, dec'', feed cb s hs')"
        "\<forall>s. decode_loop (\<lambda>l n v. l @ [(n, v)]) buf (i + c) ?l (dec', s) = (q, dec'', s @ hs')"
        by blast
      then show ?thesis
        using True Ok f g
        by (intro exI[of _ q] exI[of _ dec''] exI[of _ "hs @ hs'"])
          (simp add: decode_loop.simps[of _ buf i] feed_append)
    next
      case (Err e)
      then show ?thesis
        using True f g
        by (intro exI[of _ "Err e"] exI[of _ dec'] exI[of _ hs]) (simp add: decode_loop.simps[of _ buf i])
    next
      case Panic
      then show ?thesis
        using True f g
        by (intro exI[of _ Panic] exI[of _ dec'] exI[of _ hs]) (simp add: decode_loop.simps[of _ buf i])
    qed
  qed
qed


section \<open>Safety on arbitrary input\<close>

text \<open>C15: whatever bytes a peer sends, decoding them returns (it neither loops nor panics), and the
  decoder that is left has a dynamic table whose recorded size is right, within its bound, and a
  bound within the allowed size; the allowed size and the static table are unchanged.\<close>

theorem decode_safe:
  assumes "dec_inv dec"
  shows "case decode dec buf of (r, dec') \<Rightarrow> r \<noteq> Panic \<and> dec_inv dec' \<and> dec_frame dec dec'"
proof -
  obtain r dec' hs where
    run: "decode_loop (\<lambda>l n v. l @ [(n, v)]) buf 0 False (dec, []) = (r, dec', hs)"
    by (metis prod_cases3)
  have "r \<noteq> Panic \<and> dec_inv dec' \<and> dec_frame dec dec'"
    using decode_loop_inv[OF run assms] .
  then show ?thesis by (cases r) (simp_all add: decode_def decode_with_cb_def run)
qed

lemma dec_inv_decoder_new: "dec_inv decoder_new"
  by (simp add: dec_inv_def decoder_new_def dec_with_static_table_def with_static_table_def)

theorem decode_safe_witness:
  "case decode decoder_new [0x3F, 0xFF, 0xFF, 0xFF, 0xFF, 0x7F, 0x82] of
     (r, dec') \<Rightarrow> r \<noteq> Panic \<and> dec_inv dec'"
  using decode_safe[OF dec_inv_decoder_new, of "[0x3F, 0xFF, 0xFF, 0xFF, 0xFF, 0x7F, 0x82]"] by auto

text \<open>A size update above the allowed size is refused with \<open>InvalidMaxDynamicSize\<close> and changes
  nothing; any other sets the bound and evicts from the oldest entry on.\<close>

lemma size_update_respects_limit:
  assumes "dec_inv dec" and "max_allowed_table_size dec = Some m"
    and "decode_integer buf 5 = Ok (n, c)"
  shows "update_max_dynamic_size dec buf =
    (if m < n then (Err InvalidMaxDynamicSize, dec)
     else (Ok c, dec\<lparr>dec_header_table := (dec_header_table dec)\<lparr>ht_dynamic_table :=
       (dec_dynamic_table dec)\<lparr>dt_max_size := n, dt_table := fit n (dt_table (dec_dynamic_table dec)),
         dt_size := total_size (fit n (dt_table (dec_dynamic_table dec)))\<rparr>\<rparr>\<rparr>))"
  using assms by (simp add: update_max_dynamic_size_eq dec_resize_def dt_resize_def)

theorem size_update_respects_limit_witness:
  "update_max_dynamic_size (set_max_allowed_table_size decoder_new 4096) [0x3F, 0xE2, 0x1F] =
     (Err InvalidMaxDynamicSize, set_max_allowed_table_size decoder_new 4096)"
proof -
  let ?dec = "set_max_allowed_table_size decoder_new 4096"
  have "dec_inv ?dec" "max_allowed_table_size ?dec = Some 4096"
    using dec_inv_decoder_new
    by (simp_all add: dec_inv_def set_max_allowed_table_size_def decoder_new_def
        dec_with_static_table_def with_static_table_def dynamic_table_new_def with_size_def)
  moreover have "decode_integer [0x3F, 0xE2, 0x1F] 5 = Ok (4097, 3)"
    by (simp add: decode_integer_def Let_def)
  ultimately show ?thesis using size_update_respects_limit[of ?dec 4096 "[0x3F, 0xE2, 0x1F]"] by simp
qed

end
