(* ===== verification/Hpack_Roundtrip.thy ===== *)
theory Hpack_Roundtrip
  imports Hpack_Encoder Hpack_Decoder
begin

text \<open>
  The encoder and the decoder together. An encoder and a decoder are in step when they have the
  same static table and the encoder's dynamic table holds a prefix of the decoder's entries under
  a bound no larger than the decoder's. In step, every header block that the encoder produces is
  decoded to the headers it was made from, and both stay in step for the next block. Behind it
  are the field-wise inversion lemmas, one per representation the encoder writes.
\<close>

section \<open>The first octet selects the representation\<close>

lemma field_representation_new_bits:
  "field_representation_new x =
     (if bit x 7 then Indexed
      else if bit x 6 then LiteralWithIncrementalIndexing
      else if bit x 5 then SizeUpdate
      else if bit x 4 then LiteralNeverIndexed
      else LiteralWithoutIndexing)"
  using is_set_bit[of 7 x] is_set_bit[of 6 x] is_set_bit[of 5 x] is_set_bit[of 4 x]
  by (simp add: field_representation_new_def)

lemma field_representation_indexed:
  "field_representation_new (hd (integer_bytes i 7 0x80)) = Indexed"
  using integer_bytes_lead_bit[of 7 7 i "0x80"]
  by (simp add: field_representation_new_bits)

lemma field_representation_indexed_name:
  "field_representation_new (hd (integer_bytes i 4 0)) = LiteralWithoutIndexing"
  using integer_bytes_lead_bit[of 4 _ i 0] by (simp add: field_representation_new_bits)

section \<open>An encoder and a decoder in step\<close>

definition in_step :: "encoder \<Rightarrow> decoder \<Rightarrow> bool" where
  "in_step enc dec \<longleftrightarrow>
     dec_inv dec \<and>
     static_table (enc_header_table enc) = static_table (dec_header_table dec) \<and>
     dt.shadows (enc_dynamic_table enc) (dec_dynamic_table dec)"

text \<open>Every index of the encoder's tables is representable in five octets.\<close>

definition indexable :: "encoder \<Rightarrow> bool" where
  "indexable enc \<longleftrightarrow>
     length (static_table (enc_header_table enc)) + dt_max_size (enc_dynamic_table enc) div 32 < 2 ^ 28"

definition encodable :: "header \<Rightarrow> bool" where
  "encodable h \<longleftrightarrow> length (fst h) < 2 ^ 28 \<and> length (snd h) < 2 ^ 28"

definition dec_after :: "encoder \<Rightarrow> decoder \<Rightarrow> header \<Rightarrow> decoder" where
  "dec_after enc dec h =
     (if find_header (enc_header_table enc) h = None then dec_add dec h else dec)"

lemma in_step_enc_inv: "in_step enc dec \<Longrightarrow> enc_inv enc"
  by (simp add: in_step_def dt.shadows_def enc_inv_def)

lemma in_step_after:
  assumes "in_step enc dec"
  shows "in_step (enc_after enc h) (dec_after enc dec h)"
proof (cases "find_header (enc_header_table enc) h = None")
  case True
  have sh: "dt.shadows (enc_dynamic_table enc) (dec_dynamic_table dec)"
    using assms by (simp add: in_step_def)
  obtain s t where "dt_add_header (enc_dynamic_table enc) (fst h) (snd h) = (Ok s :: (_, unit) result)"
    "dt_add_header (dec_dynamic_table dec) (fst h) (snd h) = (Ok t :: (_, unit) result)"
    "dt.shadows s t"
    using dt.shadows_add[OF sh] by blast
  moreover have "dt_inv (enc_dynamic_table enc)" "dt_inv (dec_dynamic_table dec)"
    using sh by (simp_all add: dt.shadows_def)
  ultimately have "dt.shadows (dt_push (enc_dynamic_table enc) h) (dt_push (dec_dynamic_table dec) h)"
    by (simp add: dt_add_header_push)
  moreover have "dec_inv (dec_add dec h)"
    using assms by (simp add: in_step_def dec_inv_add)
  ultimately show ?thesis
    using assms True by (simp add: in_step_def enc_after_def dec_after_def dec_add_def)
next
  case False
  then have "enc_after enc h = enc" "dec_after enc dec h = dec"
    by (simp_all only: enc_after_def dec_after_def if_False)
  with assms show ?thesis by simp
qed

lemma indexable_after [simp]: "indexable (enc_after enc h) = indexable enc"
  by (simp add: indexable_def)

lemma dec_after_frame [simp]: "dec_frame dec (dec_after enc dec h)"
  by (simp add: dec_after_def)

lemma dec_after_max_size [simp]:
  "dt_max_size (dec_dynamic_table (dec_after enc dec h)) = dt_max_size (dec_dynamic_table dec)"
  by (simp add: dec_after_def dec_add_def)

text \<open>What the encoder finds at an index, the decoder finds there, and the index is small.\<close>

lemma in_step_get:
  assumes "in_step enc dec" and "get_from_table (enc_header_table enc) i = Some h"
  shows "get_from_table (dec_header_table dec) i = Some h"
proof -
  have "prefix (ht_iter (enc_header_table enc)) (ht_iter (dec_header_table dec))"
    using assms(1) by (simp add: in_step_def dt.shadows_def ht_iter_def)
  then obtain es where "ht_iter (dec_header_table dec) = ht_iter (enc_header_table enc) @ es"
    by (auto simp: prefix_def)
  with assms(2) show ?thesis
    by (auto simp: get_from_table_eq nth_append split: if_splits)
qed

lemma indexable_bound:
  assumes "enc_inv enc" and "indexable enc" and "i \<le> length (ht_iter (enc_header_table enc))"
  shows "i < 2 ^ 28"
proof -
  have "32 * length (dt_table (enc_dynamic_table enc)) \<le> dt_max_size (enc_dynamic_table enc)"
    using dt.entries_bound assms(1) by (simp add: enc_inv_def)
  then show ?thesis using assms(2,3) by (simp add: indexable_def ht_iter_def)
qed

section \<open>Decoding inverts encoding, field by field\<close>

lemma hd_append_nth: "xs \<noteq> [] \<Longrightarrow> (xs @ ys) ! 0 = hd xs"
  by (cases xs) auto

lemma decode_field_indexed:
  assumes "get_from_table (dec_header_table dec) i = Some (n, v)" and "i < 2 ^ 28"
  shows "decode_field cb (integer_bytes i 7 0x80 @ rest) (dec, s) =
    (Ok (length (integer_bytes i 7 0x80)), dec, cb s n v)"
  using assms
  by (simp add: decode_field_def index_at_def hd_append_nth field_representation_indexed
      decode_indexed_def decode_integer_bytes dec_get_from_table_def)

lemma decode_field_indexed_name:
  assumes "get_from_table (dec_header_table dec) i = Some (n, w)" and "0 < i" "i < 2 ^ 28"
    and "length v < 2 ^ 28"
  shows "decode_field cb (indexed_name_bytes i v @ rest) (dec, s) =
    (Ok (length (indexed_name_bytes i v)), dec, cb s n v)"
proof -
  have "decode_literal dec (indexed_name_bytes i v @ rest) False =
      Ok ((n, v), length (indexed_name_bytes i v))"
    using assms
    by (simp add: decode_literal_def indexed_name_bytes_def decode_integer_bytes
        dec_get_from_table_def slice_from_def decode_string_bytes)
  moreover have "field_representation_new ((indexed_name_bytes i v @ rest) ! 0) = LiteralWithoutIndexing"
    by (simp add: indexed_name_bytes_def hd_append_nth field_representation_indexed_name)
  ultimately show ?thesis
    by (simp add: decode_field_def index_at_def)
      (simp add: indexed_name_bytes_def)
qed

lemma decode_field_literal:
  assumes "dec_inv dec" and "encodable (n, v)"
  shows "decode_field cb (literal_bytes (n, v) @ rest) (dec, s) =
    (Ok (length (literal_bytes (n, v))), dec_add dec (n, v), cb s n v)"
proof -
  have int: "integer_bytes 0 6 0x40 = [0x40]"
    by (simp add: integer_bytes_def mask_eq_exp_minus_1)
  have "decode_integer (literal_bytes (n, v) @ rest) 6 = Ok (0, 1)"
    using decode_integer_bytes[of 6 0 "0x40"] by (simp add: int literal_bytes_def)
  then have "decode_literal dec (literal_bytes (n, v) @ rest) True =
      Ok ((n, v), length (literal_bytes (n, v)))"
    using assms(2)
    by (simp add: decode_literal_def literal_bytes_def slice_from_def decode_string_bytes encodable_def)
  moreover have "field_representation_new 0x40 = LiteralWithIncrementalIndexing"
    by (simp add: field_representation_new_def)
  ultimately show ?thesis
    using assms(1)
    by (simp add: decode_field_def index_at_def ht_add_header_dec Let_def)
      (simp add: literal_bytes_def ht_add_header_dec)
qed

text \<open>The three cases of the encoder's \<open>find_header\<close> together.\<close>

lemma decode_field_header:
  assumes "in_step enc dec" and "indexable enc" and "encodable h"
  shows "decode_field cb (header_bytes (enc_header_table enc) h @ rest) (dec, s) =
    (Ok (length (header_bytes (enc_header_table enc) h)), dec_after enc dec h, cb s (fst h) (snd h))"
proof (cases "find_header (enc_header_table enc) h")
  case None
  then show ?thesis
    using decode_field_literal[of dec "fst h" "snd h"] assms
    by (simp add: header_bytes_def dec_after_def in_step_def)
next
  case (Some p)
  obtain i full where p: "p = (i, full)" by (cases p)
  have "i \<le> length (ht_iter (enc_header_table enc))"
    using Some p find_header_TrueD(4) find_header_FalseD(4) by (cases full) simp_all
  then have bound: "i < 2 ^ 28"
    using assms in_step_enc_inv indexable_bound by blast
  show ?thesis
  proof (cases full)
    case True
    then have "get_from_table (dec_header_table dec) i = Some h"
      using find_header_TrueD(1)[of _ h i] in_step_get[OF assms(1)] Some p by simp
    then show ?thesis
      using decode_field_indexed[of dec i "fst h" "snd h"] bound Some p True
      by (simp add: header_bytes_def dec_after_def)
  next
    case False
    then obtain w where "get_from_table (dec_header_table dec) i = Some (fst h, w)" "0 < i"
      using find_header_FalseD(1,3)[of _ h i] in_step_get[OF assms(1)] Some p by fastforce
    then show ?thesis
      using decode_field_indexed_name[of dec i "fst h" w "snd h"] bound Some p False assms(3)
      by (simp add: header_bytes_def dec_after_def encodable_def)
  qed
qed

lemma header_bytes_not_size_update:
  "field_representation_new (hd (header_bytes ht h)) \<noteq> SizeUpdate"
  by (auto simp: header_bytes_def literal_bytes_def indexed_name_bytes_def field_representation_indexed
      field_representation_indexed_name split: option.splits)
    (simp add: field_representation_new_def)

lemma header_bytes_nonempty [simp]: "header_bytes ht h \<noteq> []"
  by (auto simp: header_bytes_def literal_bytes_def indexed_name_bytes_def split: option.splits)

section \<open>Decoding inverts encoding, block by block\<close>

text \<open>The loop depends on the bytes from its index on only.\<close>

lemma decode_loop_shift:
  "decode_loop cb (pre @ buf) (length pre + i) l st = decode_loop cb buf i l st"
proof (induction cb buf i l st rule: decode_loop.induct)
  case (1 cb buf i l st)
  obtain r st' where "decode_field cb (drop i buf) st = (r, st')"
    by (meson surj_pair)
  with 1 show ?case
    by (cases r; subst decode_loop.simps; subst (2) decode_loop.simps)
      (auto simp: add.assoc nth_append)
qed

lemma decode_loop_append:
  assumes "decode_field cb (xs @ ys) st = (Ok (length xs), st')" and "xs \<noteq> []"
  shows "decode_loop cb (xs @ ys) 0 l st =
    decode_loop cb ys 0 (field_representation_new (hd xs) = SizeUpdate) st'"
  using assms decode_loop_shift[of cb xs ys 0]
  by (subst decode_loop.simps) (simp add: hd_append_nth)

lemma decode_loop_encode_bytes:
  assumes "in_step enc dec" and "indexable enc" and "list_all encodable hs"
  shows "\<exists>dec'. decode_loop cb (encode_bytes enc hs) 0 False (dec, s) =
      (Ok (), dec', foldl (\<lambda>s h. cb s (fst h) (snd h)) s hs) \<and>
    in_step (foldl enc_after enc hs) dec' \<and> dec_frame dec dec' \<and>
    dt_max_size (dec_dynamic_table dec') = dt_max_size (dec_dynamic_table dec)"
  using assms
proof (induction hs arbitrary: enc dec s)
  case Nil
  then show ?case by (simp add: decode_loop.simps)
next
  case (Cons h hs)
  have field: "decode_field cb (encode_bytes enc (h # hs)) (dec, s) =
      (Ok (length (header_bytes (enc_header_table enc) h)), dec_after enc dec h, cb s (fst h) (snd h))"
    using decode_field_header[OF Cons.prems(1,2), of h cb] Cons.prems(3) by simp
  have "decode_loop cb (encode_bytes enc (h # hs)) 0 False (dec, s) =
      decode_loop cb (encode_bytes (enc_after enc h) hs) 0 False
        (dec_after enc dec h, cb s (fst h) (snd h))"
    using decode_loop_append[OF field[unfolded encode_bytes.simps]] header_bytes_not_size_update
    by simp
  moreover have "in_step (enc_after enc h) (dec_after enc dec h)"
    using Cons.prems in_step_after by blast
  ultimately show ?case
    using Cons.IH[of "enc_after enc h" "dec_after enc dec h" "cb s (fst h) (snd h)"] Cons.prems
      dec_frame_trans[OF dec_after_frame, of enc dec h]
    by auto
qed

lemma foldl_snoc: "foldl (\<lambda>xs h. xs @ [h]) ys hs = ys @ hs"
  by (induction hs arbitrary: ys) auto

lemma decode_encode_bytes:
  assumes "in_step enc dec" and "indexable enc" and "list_all encodable hs"
  shows "\<exists>dec'. decode dec (encode_bytes enc hs) = (Ok hs, dec') \<and>
    in_step (foldl enc_after enc hs) dec' \<and> dec_frame dec dec' \<and>
    dt_max_size (dec_dynamic_table dec') = dt_max_size (dec_dynamic_table dec)"
  using decode_loop_encode_bytes[OF assms, of "\<lambda>header_list n v. header_list @ [(n, v)]" "[]"]
  by (auto simp: decode_def decode_with_cb_def foldl_snoc)

section \<open>A whole connection\<close>

text \<open>
  The header blocks of one direction of a connection, in the order they are sent. Between two
  blocks the encoder's table may be given another bound.
\<close>

datatype session_step = SendBlock "header list" | Resize nat

fun run_session ::
    "encoder \<Rightarrow> decoder \<Rightarrow> session_step list \<Rightarrow> (header list list, decoder_error) result" where
  "run_session enc dec [] = Ok []"
| "run_session enc dec (SendBlock hs # steps) =
     (case encode enc hs of
        (Ok bs, enc') \<Rightarrow>
          (case decode dec bs of
             (Ok hs', dec') \<Rightarrow> and_then (run_session enc' dec' steps) (\<lambda>rest. Ok (hs' # rest))
           | (Err e, dec') \<Rightarrow> Err e
           | (Panic, dec') \<Rightarrow> Panic)
      | (Err e, enc') \<Rightarrow> Err e
      | (Panic, enc') \<Rightarrow> Panic)"
| "run_session enc dec (Resize m # steps) =
     and_then (enc_set_max_table_size enc m) (\<lambda>enc'. run_session enc' dec steps)"

fun session_blocks :: "session_step list \<Rightarrow> header list list" where
  "session_blocks [] = []"
| "session_blocks (SendBlock hs # steps) = hs # session_blocks steps"
| "session_blocks (Resize m # steps) = session_blocks steps"

fun step_ok :: "nat \<Rightarrow> session_step \<Rightarrow> bool" where
  "step_ok bound (SendBlock hs) = list_all encodable hs"
| "step_ok bound (Resize m) = (m \<le> bound)"

lemma in_step_resize:
  assumes "in_step enc dec" and "m \<le> dt_max_size (dec_dynamic_table dec)"
  obtains enc' where "enc_set_max_table_size enc m = (Ok enc' :: (_, decoder_error) result)"
    and "in_step enc' dec" and "dt_max_size (enc_dynamic_table enc') = m"
    and "static_table (enc_header_table enc') = static_table (enc_header_table enc)"
proof -
  obtain t where "dt_set_max_table_size (enc_dynamic_table enc) m = (Ok t :: (_, decoder_error) result)"
    "dt.shadows t (dec_dynamic_table dec)" "dt_max_size t = m"
    using dt.shadows_set_max assms unfolding in_step_def by blast
  with assms(1) show ?thesis
    by (intro that[of "enc\<lparr>enc_header_table := (enc_header_table enc)\<lparr>ht_dynamic_table := t\<rparr>\<rparr>"])
      (simp_all add: enc_set_max_table_size_def in_step_def)
qed


lemma dec_inv_new: "dec_inv (set_max_allowed_table_size decoder_new 4096)"
  by (simp add: dec_inv_def set_max_allowed_table_size_def decoder_new_def dec_with_static_table_def
      with_static_table_def dynamic_table_new_def with_size_def dt_inv_def)

lemma in_step_new: "in_step encoder_new (set_max_allowed_table_size decoder_new 4096)"
  using dec_inv_new
  by (simp add: in_step_def dt.shadows_def encoder_new_def decoder_new_def dec_with_static_table_def
      set_max_allowed_table_size_def with_static_table_def)

lemma decoder_new_simps [simp]:
  "static_table (dec_header_table (set_max_allowed_table_size decoder_new m)) = STATIC_TABLE"
  "dt_max_size (dec_dynamic_table (set_max_allowed_table_size decoder_new m)) = 4096"
  by (simp_all add: set_max_allowed_table_size_def decoder_new_def dec_with_static_table_def
      with_static_table_def dynamic_table_new_def with_size_def)

lemma length_STATIC_TABLE [simp]: "length STATIC_TABLE = 61"
  by (simp add: STATIC_TABLE_def)


section \<open>Raising the encoder's bound\<close>

text \<open>
  The encoder writes no size update, so a bound above the decoder's makes it refer to entries
  that the decoder has evicted. The header below is larger than the decoder's 4096 bytes and fits
  the encoder's 8192.
\<close>

definition big_header :: header where
  "big_header = (replicate 4100 0, [])"

lemma big_header_not_static: "fst big_header \<notin> fst ` set STATIC_TABLE"
proof -
  have "\<forall>h\<in>set STATIC_TABLE. length (fst h) < 30"
    by (simp add: STATIC_TABLE_def byte_str_def)
  then show ?thesis by (fastforce simp: big_header_def)
qed

definition big_encoder :: "header list \<Rightarrow> encoder" where
  "big_encoder es = \<lparr>enc_header_table = \<lparr>static_table = STATIC_TABLE,
     ht_dynamic_table = \<lparr>dt_table = es, dt_size = total_size es, dt_max_size = 8192\<rparr>\<rparr>\<rparr>"

lemma big_header_size: "entry_size big_header = 4132"
  by (simp add: big_header_def entry_size_def)

lemma big_encoder_resize: "enc_set_max_table_size encoder_new 8192 = Ok (big_encoder [])"
  by (simp add: enc_set_max_table_size_def encoder_new_def with_static_table_def
      dt_set_max_table_size_resize dt_resize_def big_encoder_def dynamic_table_new_def with_size_def
      dt_inv_def)

lemma big_encoder_inv: "enc_inv (big_encoder [])" "enc_inv (big_encoder [big_header])"
  by (simp_all add: enc_inv_def big_encoder_def dt_inv_def big_header_size)

lemma big_encoder_first:
  "encode (big_encoder []) [big_header] = (Ok (literal_bytes big_header), big_encoder [big_header])"
proof -
  have "find_header (enc_header_table (big_encoder [])) big_header = None"
    using big_header_not_static by (simp add: find_header_None ht_iter_def big_encoder_def)
  moreover from this have "enc_after (big_encoder []) big_header = big_encoder [big_header]"
    by (simp add: enc_after_def dt_push_def) (simp add: big_encoder_def big_header_size)
  ultimately show ?thesis
    by (simp add: encode_vec big_encoder_inv header_bytes_def)
qed

lemma big_encoder_find:
  "find_header (enc_header_table (big_encoder [big_header])) big_header = Some (62, True)"
proof -
  let ?ht = "enc_header_table (big_encoder [big_header])"
  have iter: "ht_iter ?ht = STATIC_TABLE @ [big_header]"
    by (simp add: ht_iter_def big_encoder_def)
  have get: "get_from_table ?ht 62 = Some big_header"
    by (simp add: get_from_table_eq iter nth_append)
  have early: "i = 62" if "get_from_table ?ht i = Some big_header" for i
    using that big_header_not_static
    by (auto simp: get_from_table_eq iter nth_append split: if_splits)
      (metis image_eqI length_STATIC_TABLE nth_mem)
  show ?thesis
  proof (cases "find_header ?ht big_header")
    case None
    then show ?thesis by (simp add: find_header_None iter)
  next
    case (Some p)
    then obtain i where "p = (i, True)"
      using find_header_FalseD(2)[of ?ht big_header _ 62] get by (cases p; cases "snd p") auto
    with Some early find_header_TrueD(1) show ?thesis by fastforce
  qed
qed

lemma big_encoder_second:
  "fst (encode (big_encoder [big_header]) [big_header]) = Ok (integer_bytes 62 7 0x80)"
  by (simp add: encode_vec big_encoder_inv header_bytes_def big_encoder_find)

text \<open>The decoder drops the header as soon as it has delivered it.\<close>

lemma big_header_decode:
  fixes dec defines "dec \<equiv> set_max_allowed_table_size decoder_new 4096"
  shows "decode dec (literal_bytes big_header) = (Ok [big_header], dec)"
proof -
  obtain n v where nv: "big_header = (n, v)" by fastforce
  have "encodable (n, v)"
    using nv by (auto simp: big_header_def encodable_def)
  moreover have "dec_add dec (n, v) = dec"
    using nv big_header_size
    by (simp add: dec_def dec_add_def dt_push_def set_max_allowed_table_size_def decoder_new_def
        dec_with_static_table_def with_static_table_def dynamic_table_new_def with_size_def)
  ultimately have "decode_field cb (literal_bytes (n, v) @ []) (dec, s) =
      (Ok (length (literal_bytes (n, v))), dec, cb s n v)" for cb and s :: "header list"
    using decode_field_literal[OF dec_inv_new, folded dec_def] by metis
  from decode_loop_append[OF this, where l = False] show ?thesis
    using nv
    by (simp add: decode_def decode_with_cb_def decode_loop.simps[of _ "[]"] literal_bytes_def
        field_representation_new_def)
qed

lemma big_index_decode:
  "fst (decode (set_max_allowed_table_size decoder_new 4096) (integer_bytes 62 7 0x80)) =
     Err HeaderIndexOutOfBounds"
proof -
  let ?dec = "set_max_allowed_table_size decoder_new 4096"
  have bytes: "integer_bytes 62 7 0x80 = [0xBE]"
    by (simp add: integer_bytes_def mask_eq_exp_minus_1)
  have "get_from_table (dec_header_table ?dec) 62 = None"
    by (simp add: get_from_table_eq ht_iter_def)
      (simp add: set_max_allowed_table_size_def decoder_new_def dec_with_static_table_def
        with_static_table_def dynamic_table_new_def with_size_def)
  then have "decode_field cb [0xBE] (?dec, s) = (Err HeaderIndexOutOfBounds, ?dec, s)"
    for cb and s :: "header list"
    by (simp add: decode_field_def index_at_def field_representation_new_def decode_indexed_def
        decode_integer_def dec_get_from_table_def)
  then show ?thesis
    by (simp add: bytes decode_def decode_with_cb_def decode_loop.simps)
qed


end
