(* ===== verification/Buffet_Io.thy ===== *)
theory Buffet_Io
  imports Prelude
begin

text \<open>
  Owned reads and writes (\<open>crates/buffet/src/io.rs\<close>) and the in-memory pipe
  (\<open>crates/buffet/src/io/pipe.rs\<close>). A single write may be partial; the provided methods of the trait
  \<open>WriteOwned\<close> retry it, for one buffer and for a list of pieces, dropping and splitting pieces by
  the number of bytes written. The locale \<open>owned_writer\<close> states what a writer promises for one write;
  the lemmas in it show that the retrying methods end and write every byte once and in order. The
  locale \<open>byte_source\<close> does the same for reading. Both are interpreted on the pipe. A piece is its
  bytes.
\<close>

datatype io_error = ConnectionReset | UnexpectedEof | WriteZero | BrokenPipe | OtherIo nat

section \<open>Writing in full\<close>

type_synonym 'w write_owned = "'w \<Rightarrow> bytes \<Rightarrow> (nat, io_error) result \<times> 'w"

text \<open>\<open>slice.split_at(n)\<close> panics when more was written than there was.\<close>

function write_all_loop ::
    "'w write_owned \<Rightarrow> nat \<Rightarrow> nat \<Rightarrow> bytes \<Rightarrow> 'w \<Rightarrow> (unit, io_error) result \<times> 'w" where
  "write_all_loop wo len written buf w =
     (if written < len then
        (case wo w buf of
           (Err e, w) \<Rightarrow> (Err e, w)
         | (Panic, w) \<Rightarrow> (Panic, w)
         | (Ok n, w) \<Rightarrow>
             if n = 0 then (Err WriteZero, w)
             else if \<not> n \<le> length buf then (Panic, w)
             else write_all_loop wo len (written + n) (drop n buf) w)
      else (Ok (), w))"
  by pat_completeness auto
termination
  by (relation "measure (\<lambda>(_, len, written, _, _). len - written)") auto

declare write_all_loop.simps [simp del]

definition write_all_owned :: "'w write_owned \<Rightarrow> bytes \<Rightarrow> 'w \<Rightarrow> (unit, io_error) result \<times> 'w" where
  "write_all_owned wo buf w = write_all_loop wo (length buf) 0 buf w"

fun writev_loop :: "'w write_owned \<Rightarrow> nat \<Rightarrow> bytes list \<Rightarrow> 'w \<Rightarrow> (nat, io_error) result \<times> 'w" where
  "writev_loop wo total_written [] w = (Ok total_written, w)"
| "writev_loop wo total_written (buf # bufs) w =
     (case wo w buf of
        (Err e, w) \<Rightarrow> (Err e, w)
      | (Panic, w) \<Rightarrow> (Panic, w)
      | (Ok n, w) \<Rightarrow>
          if n = 0 then (Err WriteZero, w)
          else if n < length buf then (Ok (total_written + n), w)
          else writev_loop wo (total_written + n) bufs w)"

definition writev_owned :: "'w write_owned \<Rightarrow> bytes list \<Rightarrow> 'w \<Rightarrow> (nat, io_error) result \<times> 'w" where
  "writev_owned wo bufs w = writev_loop wo 0 bufs w"

text \<open>Popping and splitting pieces by the number of bytes written; \<open>front_mut().unwrap()\<close> panics on an
  empty list.\<close>

fun advance_pieces :: "nat \<Rightarrow> bytes list \<Rightarrow> (bytes list, io_error) result" where
  "advance_pieces n [] = (if 0 < n then Panic else Ok [])"
| "advance_pieces n (p # ps) =
     (if 0 < n then
        if n < length p then Ok (drop n p # ps) else advance_pieces (n - length p) ps
      else Ok (p # ps))"

lemma advance_pieces_concat:
  "n \<le> length (concat ps) \<Longrightarrow> \<exists>ps'. advance_pieces n ps = Ok ps' \<and> concat ps' = drop n (concat ps)"
  by (induction n ps rule: advance_pieces.induct) auto

lemma advance_pieces_shrinks:
  "advance_pieces n ps = Ok ps' \<Longrightarrow> length (concat ps') + n = length (concat ps)"
  by (induction n ps rule: advance_pieces.induct) (auto split: if_splits)

function writev_all_owned ::
    "'w write_owned \<Rightarrow> bytes list \<Rightarrow> 'w \<Rightarrow> (unit, io_error) result \<times> 'w" where
  "writev_all_owned wo bufs w =
     (if length (concat bufs) = 0 then (Ok (), w)
      else
        (case writev_owned wo bufs w of
           (Err e, w) \<Rightarrow> (Err e, w)
         | (Panic, w) \<Rightarrow> (Panic, w)
         | (Ok n, w) \<Rightarrow>
             if n = 0 then (Err WriteZero, w)
             else
               (case advance_pieces n bufs of
                  Ok bufs \<Rightarrow> writev_all_owned wo bufs w
                | Err e \<Rightarrow> (Err e, w)
                | Panic \<Rightarrow> (Panic, w))))"
  by pat_completeness auto
termination
proof (relation "measure (\<lambda>(_, bufs, _). length (concat bufs))")
  fix wo :: "'w write_owned" and bufs and w :: 'w and p r w' n bufs'
  assume "r = Ok n" "n \<noteq> 0" "advance_pieces n bufs = Ok bufs'"
  then show "((wo, bufs', w'), wo, bufs, w) \<in> measure (\<lambda>(_, bufs, _). length (concat bufs))"
    using advance_pieces_shrinks[of n bufs bufs'] by simp
qed simp

declare writev_all_owned.simps [simp del]

locale owned_writer =
  fixes wo :: "'w write_owned" and out :: "'w \<Rightarrow> bytes"
  assumes wrote: "wo w buf = (Ok n, w') \<Longrightarrow> n \<le> length buf \<and> out w' = out w @ take n buf"
    and failed: "wo w buf = (r, w') \<Longrightarrow> \<forall>n. r \<noteq> Ok n \<Longrightarrow> out w' = out w \<and> r \<noteq> Panic"
begin

text \<open>What a call that was to write \<open>bs\<close> leaves: all of it, or a beginning of it and an error.\<close>

definition wrote_all :: "'w \<Rightarrow> bytes \<Rightarrow> (unit, io_error) result \<times> 'w \<Rightarrow> bool" where
  "wrote_all w bs p \<longleftrightarrow>
     (case fst p of
        Ok _ \<Rightarrow> out (snd p) = out w @ bs
      | Err _ \<Rightarrow> (\<exists>k\<le>length bs. out (snd p) = out w @ take k bs)
      | Panic \<Rightarrow> False)"

lemma wrote_all_after:
  assumes "out w' = out w @ take n bs" and "n \<le> length bs" and "wrote_all w' (drop n bs) p"
  shows "wrote_all w bs p"
proof (cases "fst p")
  case (Ok u)
  with assms show ?thesis by (simp add: wrote_all_def)
next
  case (Err e)
  with assms obtain k where k: "k \<le> length bs - n" "out (snd p) = (out w @ take n bs) @ take k (drop n bs)"
    by (auto simp: wrote_all_def)
  then have "out (snd p) = out w @ take (n + k) bs" by (simp add: take_add)
  with k(1) assms(2) Err show ?thesis by (auto simp: wrote_all_def intro: exI[of _ "n + k"])
qed (use assms in \<open>simp add: wrote_all_def\<close>)

lemma wrote_all_failed: "out w' = out w \<Longrightarrow> wrote_all w bs (Err e, w')"
  by (auto simp: wrote_all_def intro: exI[of _ 0])

lemma write_all_loop_writes:
  "written + length buf = len \<Longrightarrow> wrote_all w buf (write_all_loop wo len written buf w)"
proof (induction "length buf" arbitrary: written buf w rule: less_induct)
  case less
  obtain r w' where wo: "wo w buf = (r, w')" by (cases "wo w buf")
  show ?case
  proof (cases "buf = []")
    case True
    with less.prems show ?thesis by (subst write_all_loop.simps) (simp add: wrote_all_def)
  next
    case False
    with less.prems have lt: "written < len" by (cases buf) auto
    show ?thesis
    proof (cases "\<exists>n. r = Ok n")
      case True
      then obtain n where r: "r = Ok n" by blast
      note n = wrote[OF wo[unfolded r]]
      show ?thesis
      proof (cases "n = 0")
        case True
        with lt wo r n show ?thesis by (subst write_all_loop.simps) (simp add: wrote_all_failed)
      next
        case n0: False
        with n False less.prems have "wrote_all w' (drop n buf) (write_all_loop wo len (written + n) (drop n buf) w')"
          by (intro less.hyps) auto
        with n have "wrote_all w buf (write_all_loop wo len (written + n) (drop n buf) w')"
          by (blast intro: wrote_all_after)
        with lt wo r n n0 show ?thesis by (subst write_all_loop.simps) simp
      qed
    next
      case False
      with failed[OF wo] lt wo show ?thesis
        by (subst write_all_loop.simps) (cases r; simp add: wrote_all_failed)
    qed
  qed
qed

lemma write_all_owned_writes: "wrote_all w buf (write_all_owned wo buf w)"
  by (simp add: write_all_owned_def write_all_loop_writes)

lemma writev_loop_writes:
  "writev_loop wo t bufs w = (r, w') \<Longrightarrow>
   (case r of
      Ok n \<Rightarrow> t \<le> n \<and> n - t \<le> length (concat bufs) \<and> out w' = out w @ take (n - t) (concat bufs)
    | Err e \<Rightarrow> (\<exists>k\<le>length (concat bufs). out w' = out w @ take k (concat bufs))
    | Panic \<Rightarrow> False)"
proof (induction bufs arbitrary: t w)
  case (Cons buf bufs)
  obtain r1 w1 where wo: "wo w buf = (r1, w1)" by (cases "wo w buf")
  show ?case
  proof (cases "\<exists>n. r1 = Ok n")
    case True
    then obtain n where r1: "r1 = Ok n" by blast
    note n = wrote[OF wo[unfolded r1]]
    show ?thesis
    proof (cases "n = 0 \<or> n < length buf")
      case True
      with Cons.prems wo r1 n show ?thesis by (auto split: if_splits intro: exI[of _ 0])
    next
      case False
      with n have full: "n = length buf" "0 < length buf" by auto
      with Cons.prems wo r1 have "writev_loop wo (t + n) bufs w1 = (r, w')" by simp
      from Cons.IH[OF this] n full show ?thesis
        by (cases r) (auto intro: exI[of _ "length buf + k" for k])
    qed
  next
    case False
    with failed[OF wo] Cons.prems wo show ?thesis by (cases r1) (auto intro: exI[of _ 0])
  qed
qed auto

lemma writev_all_owned_writes: "wrote_all w (concat bufs) (writev_all_owned wo bufs w)"
proof (induction "length (concat bufs)" arbitrary: bufs w rule: less_induct)
  case less
  obtain r w' where wv: "writev_owned wo bufs w = (r, w')" by (cases "writev_owned wo bufs w")
  note wr = writev_loop_writes[OF wv[unfolded writev_owned_def]]
  show ?case
  proof (cases "concat bufs = []")
    case True
    then show ?thesis by (subst writev_all_owned.simps) (simp add: wrote_all_def)
  next
    case False
    show ?thesis
    proof (cases r)
      case (Ok n)
      with wr have n: "n \<le> length (concat bufs)" "out w' = out w @ take n (concat bufs)" by simp_all
      show ?thesis
      proof (cases "n = 0")
        case True
        with False wv Ok n show ?thesis by (subst writev_all_owned.simps) (auto simp: wrote_all_failed)
      next
        case n0: False
        obtain bufs' where adv: "advance_pieces n bufs = Ok bufs'" "concat bufs' = drop n (concat bufs)"
          using advance_pieces_concat[OF n(1)] by blast
        have "wrote_all w' (concat bufs') (writev_all_owned wo bufs' w')"
          using n0 False adv(2) by (intro less.hyps) (cases "concat bufs", auto)
        with n adv(2) have "wrote_all w (concat bufs) (writev_all_owned wo bufs' w')"
          by (auto intro: wrote_all_after)
        with False wv Ok n0 adv(1) show ?thesis by (subst writev_all_owned.simps) auto
      qed
    next
      case (Err e)
      with False wv wr show ?thesis
        by (subst writev_all_owned.simps) (auto simp: wrote_all_def)
    qed (use wr in simp)
  qed
qed

end

text \<open>C36: over any writer whose single writes append a beginning of the buffer or fail without effect,
  the retrying methods end, never panic, and, when they succeed, have written every byte exactly once
  and in order, however the single writes were cut; when they fail, what was written is a beginning.\<close>

theorem retried_writes_complete:
  assumes "owned_writer wo out"
  shows "(case write_all_owned wo buf w of
       (Ok _, w') \<Rightarrow> out w' = out w @ buf
     | (Err _, w') \<Rightarrow> (\<exists>k. out w' = out w @ take k buf)
     | (Panic, _) \<Rightarrow> False) \<and>
    (case writev_all_owned wo bufs w of
       (Ok _, w') \<Rightarrow> out w' = out w @ concat bufs
     | (Err _, w') \<Rightarrow> (\<exists>k. out w' = out w @ take k (concat bufs))
     | (Panic, _) \<Rightarrow> False)"
  using owned_writer.write_all_owned_writes[OF assms, of w buf]
    owned_writer.writev_all_owned_writes[OF assms, of w bufs]
  by (auto simp: owned_writer.wrote_all_def[OF assms] split: prod.splits result.splits)

section \<open>The pipe\<close>

datatype pipe_event = PipePiece bytes | PipeReset

text \<open>The channel between the two ends: what was sent and not yet received; whether the reading end still
  exists; \<^const>\<open>None\<close> is received once the writing end is gone and nothing is left.\<close>

record pipe_write =
  pw_sent :: "pipe_event list"
  pw_alive :: bool

definition pw_write_owned :: "pipe_write write_owned" where
  "pw_write_owned w buf =
     (if \<not> pw_alive w then (Err BrokenPipe, w)
      else (Ok (length buf), w\<lparr>pw_sent := pw_sent w @ [PipePiece buf]\<rparr>))"

definition pw_reset :: "pipe_write \<Rightarrow> (pipe_write, io_error) result" where
  "pw_reset w = (if pw_alive w then Ok (w\<lparr>pw_sent := pw_sent w @ [PipeReset]\<rparr>) else Panic)"

datatype read_state = Live | ReadReset | ReadEof

record pipe_read =
  pr_rx :: "pipe_event list"
  pr_remain :: "bytes option"
  pr_state :: read_state

definition pipe_read_new :: "pipe_event list \<Rightarrow> pipe_read" where
  "pipe_read_new evs = \<lparr>pr_rx = evs, pr_remain = None, pr_state = Live\<rparr>"

text \<open>\<open>read_owned\<close> into a buffer of capacity \<open>avail\<close>: the bytes that were copied into it. The loop goes
  round at most once, to report the state it has just entered.\<close>

definition pr_copy :: "pipe_read \<Rightarrow> bytes \<Rightarrow> nat \<Rightarrow> (bytes, io_error) result \<times> pipe_read" where
  "pr_copy r remain avail =
     (let read_size = min avail (length remain);
          remain' = drop read_size remain
      in (Ok (take read_size remain), r\<lparr>pr_remain := (if remain' \<noteq> [] then Some remain' else None)\<rparr>))"

definition pr_read_owned :: "pipe_read \<Rightarrow> nat \<Rightarrow> (bytes, io_error) result \<times> pipe_read" where
  "pr_read_owned r avail =
     (case pr_state r of
        ReadReset \<Rightarrow> (Err ConnectionReset, r)
      | ReadEof \<Rightarrow> (Ok [], r)
      | Live \<Rightarrow>
          (case pr_remain r of
             Some remain \<Rightarrow> pr_copy r remain avail
           | None \<Rightarrow>
               (case pr_rx r of
                  PipePiece p # rx \<Rightarrow>
                    if p = [] then (Panic, r\<lparr>pr_rx := rx\<rparr>) else pr_copy (r\<lparr>pr_rx := rx\<rparr>) p avail
                | PipeReset # rx \<Rightarrow> (Err ConnectionReset, r\<lparr>pr_rx := rx, pr_state := ReadReset\<rparr>)
                | [] \<Rightarrow> (Ok [], r\<lparr>pr_state := ReadEof\<rparr>))))"

fun event_bytes :: "pipe_event list \<Rightarrow> bytes" where
  "event_bytes [] = []"
| "event_bytes (PipePiece p # evs) = p @ event_bytes evs"
| "event_bytes (PipeReset # evs) = event_bytes evs"

lemma event_bytes_append [simp]: "event_bytes (xs @ ys) = event_bytes xs @ event_bytes ys"
  by (induction xs rule: event_bytes.induct) auto

interpretation pipe_writer: owned_writer pw_write_owned "\<lambda>w. event_bytes (pw_sent w)"
  by unfold_locales (auto simp: pw_write_owned_def split: if_splits)

text \<open>A source of bytes: a read takes a non-empty beginning of what is left, or nothing at the end. The
  invariant rules out an error.\<close>

locale byte_source =
  fixes rd :: "'r \<Rightarrow> nat \<Rightarrow> (bytes, io_error) result \<times> 'r" and left :: "'r \<Rightarrow> bytes"
    and good :: "'r \<Rightarrow> bool"
  assumes reads: "good r \<Longrightarrow> 0 < n \<Longrightarrow> \<exists>bs r'. rd r n = (Ok bs, r') \<and> good r' \<and> length bs \<le> n \<and>
      left r = bs @ left r' \<and> (bs = [] \<longrightarrow> left r = [])"
begin

text \<open>Reading to the end with a fixed buffer size.\<close>

fun read_times :: "nat \<Rightarrow> nat \<Rightarrow> 'r \<Rightarrow> (bytes, io_error) result" where
  "read_times n 0 r = Ok []"
| "read_times n (Suc k) r =
     (case rd r n of
        (Ok bs, r) \<Rightarrow> and_then (read_times n k r) (\<lambda>rest. Ok (bs @ rest))
      | (Err e, r) \<Rightarrow> Err e
      | (Panic, r) \<Rightarrow> Panic)"

lemma read_times_all:
  "good r \<Longrightarrow> 0 < n \<Longrightarrow> length (left r) \<le> k \<Longrightarrow> read_times n k r = Ok (left r)"
proof (induction k arbitrary: r)
  case (Suc k)
  from reads[OF Suc.prems(1,2)] obtain bs r' where r': "rd r n = (Ok bs, r')" "good r'"
      "left r = bs @ left r'" "bs = [] \<longrightarrow> left r = []" by blast
  then have "length (left r') \<le> k" using Suc.prems(3) by (cases bs) auto
  with Suc.IH[OF r'(2) Suc.prems(2)] r' show ?case by simp
qed simp

end

definition pr_good :: "pipe_read \<Rightarrow> bool" where
  "pr_good r \<longleftrightarrow> pr_state r \<noteq> ReadReset \<and> pr_remain r \<noteq> Some [] \<and>
     (pr_state r = ReadEof \<longrightarrow> pr_remain r = None \<and> pr_rx r = []) \<and>
     (\<forall>ev\<in>set (pr_rx r). \<exists>p. ev = PipePiece p \<and> p \<noteq> [])"

definition pr_left :: "pipe_read \<Rightarrow> bytes" where
  "pr_left r = (case pr_remain r of None \<Rightarrow> [] | Some p \<Rightarrow> p) @ event_bytes (pr_rx r)"

lemma pr_copy_reads:
  assumes "p \<noteq> []" and "0 < n"
  shows "\<exists>bs r'. pr_copy r p n = (Ok bs, r') \<and> length bs \<le> n \<and> bs \<noteq> [] \<and>
    p @ event_bytes (pr_rx r) = bs @ pr_left r' \<and> pr_rx r' = pr_rx r \<and> pr_state r' = pr_state r \<and>
    pr_remain r' \<noteq> Some []"
  using assms by (auto simp: pr_copy_def pr_left_def Let_def min_def)

interpretation pipe_reader: byte_source pr_read_owned pr_left pr_good
proof
  fix r n assume good: "pr_good r" and n: "0 < (n :: nat)"
  show "\<exists>bs r'. pr_read_owned r n = (Ok bs, r') \<and> pr_good r' \<and> length bs \<le> n \<and>
      pr_left r = bs @ pr_left r' \<and> (bs = [] \<longrightarrow> pr_left r = [])"
  proof (cases "pr_state r = Live")
    case live: True
    show ?thesis
    proof (cases "pr_remain r")
      case (Some p)
      with good have "p \<noteq> []" by (auto simp: pr_good_def)
      from pr_copy_reads[OF this n, of r] live Some good show ?thesis
        by (auto simp: pr_read_owned_def pr_left_def pr_good_def)
    next
      case None
      show ?thesis
      proof (cases "pr_rx r")
        case Nil
        with live None show ?thesis by (auto simp: pr_read_owned_def pr_left_def pr_good_def)
      next
        case (Cons ev rx)
        with good obtain p where p: "ev = PipePiece p" "p \<noteq> []" by (auto simp: pr_good_def)
        from pr_copy_reads[OF p(2) n, of "r\<lparr>pr_rx := rx\<rparr>"] live None Cons p good show ?thesis
          by (auto simp: pr_read_owned_def pr_left_def pr_good_def)
      qed
    qed
  next
    case False
    with good have "pr_state r = ReadEof" "pr_remain r = None" "pr_rx r = []"
      by (cases "pr_state r"; auto simp: pr_good_def)+
    with good show ?thesis by (auto simp: pr_read_owned_def pr_left_def)
  qed
qed

fun pr_read_times :: "nat \<Rightarrow> nat \<Rightarrow> pipe_read \<Rightarrow> (bytes, io_error) result" where
  "pr_read_times n 0 r = Ok []"
| "pr_read_times n (Suc k) r =
     (case pr_read_owned r n of
        (Ok bs, r) \<Rightarrow> and_then (pr_read_times n k r) (\<lambda>rest. Ok (bs @ rest))
      | (Err e, r) \<Rightarrow> Err e
      | (Panic, r) \<Rightarrow> Panic)"

lemma pr_read_times_eq: "pr_read_times n k r = pipe_reader.read_times n k r"
  by (induction k arbitrary: r) (simp_all add: pipe_reader.read_times.simps split: prod.split result.split)

lemma pipe_left_pieces: "pr_left (pipe_read_new (map PipePiece ps)) = concat ps"
  by (induction ps) (auto simp: pr_left_def pipe_read_new_def)

lemma pipe_good_pieces: "\<forall>p\<in>set ps. p \<noteq> [] \<Longrightarrow> pr_good (pipe_read_new (map PipePiece ps))"
  by (auto simp: pr_good_def pipe_read_new_def)

text \<open>What is written to a pipe, in any number of non-empty pieces, is what is read from it, whatever
  the size of the read buffer: enough reads return exactly the bytes written, and then the end.\<close>

lemma pipe_roundtrip:
  assumes "0 < n" and "\<forall>p\<in>set ps. p \<noteq> []" and "length (concat ps) \<le> k"
  shows "pr_read_times n k (pipe_read_new (map PipePiece ps)) = Ok (concat ps)"
  unfolding pr_read_times_eq
  using pipe_reader.read_times_all[OF pipe_good_pieces[OF assms(2)] assms(1), of k] assms(3)
  by (simp add: pipe_left_pieces)

lemma pipe_roundtrip_witness:
  "pr_read_times 2 9 (pipe_read_new (map PipePiece [[1, 2, 3], [4]])) = Ok [1, 2, 3, 4]"
  using pipe_roundtrip[of 2 "[[1, 2, 3], [4]]" 9] by simp

theorem retried_writes_complete_witness:
  "event_bytes (pw_sent (snd (writev_all_owned pw_write_owned [[1, 2], [3]]
     \<lparr>pw_sent = [], pw_alive = True\<rparr>))) = [1, 2, 3]"
proof -
  let ?w = "\<lparr>pw_sent = [], pw_alive = True\<rparr>"
  have "fst (writev_all_owned pw_write_owned [[1, 2], [3]] ?w) = Ok ()"
    by (simp add: writev_all_owned.simps[of _ "[[1, 2], [3]]"] writev_all_owned.simps[of _ "[]"]
        writev_owned_def pw_write_owned_def)
  with retried_writes_complete[OF pipe_writer.owned_writer_axioms, where buf = "[]" and w = ?w and bufs = "[[1, 2], [3]]"] show ?thesis
    by (auto split: prod.splits)
qed

end
