(* ===== verification/Buffet_Pool.thy ===== *)
theory Buffet_Pool
  imports Prelude "HOL-Library.Multiset"
begin

text \<open>
  The buffer pool of \<open>buffet\<close> (\<open>crates/buffet/src/bufpool/privatepool.rs\<close> and \<open>bufpool.rs\<close>): a flat
  memory of 4 KiB buffers, a queue of free indices and a signed 16-bit reference count per buffer,
  with the handles \<open>BufMut\<close> and \<open>Buf\<close> into it. Drops are explicit calls of \<open>pool_dec\<close>. The pool
  is the one of the thread after initialisation; \<open>usize\<close>, \<open>u32\<close> and \<open>u16\<close> are natural numbers, with
  the conversions and overflow checks of the source written out. The interface \<open>refcounted_pool\<close>
  states what the handles rely on; its interpretation shows that every operation keeps it, and the
  last section that \<open>freeze_slice\<close>, which makes a handle without counting it, breaks it.
\<close>

section \<open>The pool\<close>

datatype buf_error = Mmap | OutOfMemory | DoesNotFit

definition BUF_SIZE :: nat where
  "BUF_SIZE = 4096"

record pool =
  pool_free :: "nat list"
  pool_ref_counts :: "int list"
  pool_mem :: bytes

definition initialize_allocator_with_num_bufs :: "nat \<Rightarrow> pool" where
  "initialize_allocator_with_num_bufs num_bufs =
     \<lparr>pool_free = [0..<num_bufs], pool_ref_counts = replicate num_bufs 0,
      pool_mem = replicate (num_bufs * BUF_SIZE) 0\<rparr>"

definition num_free :: "pool \<Rightarrow> nat" where
  "num_free p = length (pool_free p)"

record buf_mut =
  bm_index :: nat
  bm_off :: nat
  bm_len :: nat

record buf =
  b_index :: nat
  b_off :: nat
  b_len :: nat

text \<open>\<open>ref_counts[index] += d\<close> on \<open>i16\<close>: the index and the sum are checked.\<close>

definition ref_count_add :: "int list \<Rightarrow> nat \<Rightarrow> int \<Rightarrow> (int list, 'e) result" where
  "ref_count_add rcs index d =
     (if index < length rcs \<and> - 32768 \<le> rcs ! index + d \<and> rcs ! index + d < 32768
      then Ok (rcs[index := rcs ! index + d]) else Panic)"

definition pool_alloc :: "pool \<Rightarrow> (buf_mut \<times> pool, buf_error) result" where
  "pool_alloc p =
     (case pool_free p of
        index # free \<Rightarrow>
          and_then (ref_count_add (pool_ref_counts p) index 1) (\<lambda>rcs.
            Ok (\<lparr>bm_index = index, bm_off = 0, bm_len = BUF_SIZE\<rparr>,
                p\<lparr>pool_free := free, pool_ref_counts := rcs\<rparr>))
      | [] \<Rightarrow> Err OutOfMemory)"

definition pool_inc :: "pool \<Rightarrow> nat \<Rightarrow> (pool, 'e) result" where
  "pool_inc p index =
     and_then (ref_count_add (pool_ref_counts p) index 1) (\<lambda>rcs. Ok (p\<lparr>pool_ref_counts := rcs\<rparr>))"

definition pool_dec :: "pool \<Rightarrow> nat \<Rightarrow> (pool, 'e) result" where
  "pool_dec p index =
     and_then (ref_count_add (pool_ref_counts p) index (- 1)) (\<lambda>slots.
       let p = p\<lparr>pool_ref_counts := slots\<rparr> in
       if slots ! index = 0 then Ok (p\<lparr>pool_free := pool_free p @ [index]\<rparr>) else Ok p)"

definition base_ptr_with_offset :: "nat \<Rightarrow> nat \<Rightarrow> nat" where
  "base_ptr_with_offset index off = off + index * BUF_SIZE"

section \<open>Handles\<close>

text \<open>\<open>n as u16\<close>, and addition of \<open>u16\<close> with the overflow check.\<close>

definition as_u16 :: "nat \<Rightarrow> nat" where
  "as_u16 n = n mod 2 ^ 16"

definition add_u16 :: "nat \<Rightarrow> nat \<Rightarrow> (nat, 'e) result" where
  "add_u16 a b = (if a + b < 2 ^ 16 then Ok (a + b) else Panic)"

definition bm_freeze :: "buf_mut \<Rightarrow> buf" where
  "bm_freeze bm = \<lparr>b_index = bm_index bm, b_off = bm_off bm, b_len = bm_len bm\<rparr>"

text \<open>The bounds of a Rust range over \<open>usize\<close>.\<close>

datatype bound = Included nat | Excluded nat | Unbounded

fun start_of :: "bound \<Rightarrow> nat" where
  "start_of (Included n) = n"
| "start_of (Excluded n) = n + 1"
| "start_of Unbounded = 0"

fun end_of :: "nat \<Rightarrow> bound \<Rightarrow> nat" where
  "end_of l (Included n) = n + 1"
| "end_of l (Excluded n) = n"
| "end_of l Unbounded = l"

definition b_slice :: "buf \<Rightarrow> bound \<times> bound \<Rightarrow> (buf, 'e) result" where
  "b_slice b rng =
     (let new_start = start_of (fst rng); new_end = end_of (b_len b) (snd rng) in
      if \<not> new_start \<le> new_end then Panic
      else if \<not> new_end \<le> b_len b then Panic
      else and_then (add_u16 (b_off b) (as_u16 new_start)) (\<lambda>off.
        Ok (b\<lparr>b_off := off, b_len := as_u16 (new_end - new_start)\<rparr>)))"

definition bm_freeze_slice :: "buf_mut \<Rightarrow> bound \<times> bound \<Rightarrow> (buf, 'e) result" where
  "bm_freeze_slice bm rng =
     b_slice \<lparr>b_index = bm_index bm, b_off = bm_off bm, b_len = bm_len bm\<rparr> rng"

definition bm_split_at :: "pool \<Rightarrow> buf_mut \<Rightarrow> nat \<Rightarrow> ((buf_mut \<times> buf_mut) \<times> pool, 'e) result" where
  "bm_split_at p bm at =
     (if \<not> at \<le> bm_len bm then Panic
      else
        let left = \<lparr>bm_index = bm_index bm, bm_off = bm_off bm, bm_len = as_u16 at\<rparr> in
        and_then (add_u16 (bm_off bm) (as_u16 at)) (\<lambda>off.
        let right = \<lparr>bm_index = bm_index bm, bm_off = off, bm_len = bm_len bm - as_u16 at\<rparr> in
        and_then (pool_inc p (bm_index left)) (\<lambda>p. Ok ((left, right), p))))"

definition bm_skip :: "buf_mut \<Rightarrow> nat \<Rightarrow> (buf_mut, 'e) result" where
  "bm_skip bm n =
     (if \<not> n \<le> bm_len bm then Panic
      else if \<not> n < 2 ^ 16 then Panic
      else and_then (add_u16 (bm_off bm) n) (\<lambda>off.
        Ok (bm\<lparr>bm_off := off, bm_len := bm_len bm - n\<rparr>)))"

definition b_split_at :: "pool \<Rightarrow> buf \<Rightarrow> nat \<Rightarrow> ((buf \<times> buf) \<times> pool, 'e) result" where
  "b_split_at p b at =
     (if \<not> at \<le> b_len b then Panic
      else
        let left = \<lparr>b_index = b_index b, b_off = b_off b, b_len = as_u16 at\<rparr> in
        and_then (add_u16 (b_off b) (as_u16 at)) (\<lambda>off.
        let right = \<lparr>b_index = b_index b, b_off = off, b_len = b_len b - as_u16 at\<rparr> in
        and_then (pool_inc p (b_index left)) (\<lambda>p. Ok ((left, right), p))))"

definition b_clone :: "pool \<Rightarrow> buf \<Rightarrow> (buf \<times> pool, 'e) result" where
  "b_clone p b =
     and_then (pool_inc p (b_index b)) (\<lambda>p.
       Ok (\<lparr>b_index = b_index b, b_off = b_off b, b_len = b_len b\<rparr>, p))"

definition bm_drop :: "pool \<Rightarrow> buf_mut \<Rightarrow> (pool, 'e) result" where
  "bm_drop p bm = pool_dec p (bm_index bm)"

definition b_drop :: "pool \<Rightarrow> buf \<Rightarrow> (pool, 'e) result" where
  "b_drop p b = pool_dec p (b_index b)"

text \<open>The bytes a handle dereferences to.\<close>

definition bm_deref :: "pool \<Rightarrow> buf_mut \<Rightarrow> bytes" where
  "bm_deref p bm = take (bm_len bm) (drop (base_ptr_with_offset (bm_index bm) (bm_off bm)) (pool_mem p))"

definition b_deref :: "pool \<Rightarrow> buf \<Rightarrow> bytes" where
  "b_deref p b = take (b_len b) (drop (base_ptr_with_offset (b_index b) (b_off b)) (pool_mem p))"

section \<open>The contract of a reference-counted pool\<close>

text \<open>
  \<open>invar p hs\<close> relates a pool to the multiset of the indices of the live handles. An allocation
  returns an index no live handle has; a handle can be duplicated as long as the count fits, and
  dropped.
\<close>

locale refcounted_pool =
  fixes alloc :: "'p \<Rightarrow> (nat \<times> 'p) option"
    and inc :: "'p \<Rightarrow> nat \<Rightarrow> 'p option"
    and dec :: "'p \<Rightarrow> nat \<Rightarrow> 'p option"
    and free :: "'p \<Rightarrow> nat set"
    and invar :: "'p \<Rightarrow> nat multiset \<Rightarrow> bool"
    and limit :: nat
  assumes alloc_fresh: "invar p hs \<Longrightarrow> alloc p = Some (i, p') \<Longrightarrow> i \<notin># hs \<and> invar p' (add_mset i hs)"
    and alloc_None: "invar p hs \<Longrightarrow> alloc p = None \<longleftrightarrow> free p = {}"
    and inc_live: "invar p hs \<Longrightarrow> i \<in># hs \<Longrightarrow> count hs i < limit \<Longrightarrow>
      \<exists>p'. inc p i = Some p' \<and> invar p' (add_mset i hs)"
    and dec_live: "invar p hs \<Longrightarrow> i \<in># hs \<Longrightarrow> \<exists>p'. dec p i = Some p' \<and> invar p' (hs - {#i#})"
    and free_not_live: "invar p hs \<Longrightarrow> free p \<inter> set_mset hs = {}"
begin

text \<open>A live handle is never on the free list, so its buffer is not given out again.\<close>

lemma live_not_reallocated:
  assumes "invar p hs" and "i \<in># hs" and "alloc p = Some (j, p')"
  shows "i \<noteq> j"
  using alloc_fresh[OF assms(1,3)] assms(2) by auto

text \<open>Dropping all the handles of a pool one by one always succeeds and leaves none live.\<close>

fun dec_all :: "'p \<Rightarrow> nat list \<Rightarrow> 'p option" where
  "dec_all p [] = Some p"
| "dec_all p (i # is) = Option.bind (dec p i) (\<lambda>p. dec_all p is)"

lemma dec_all_live:
  "invar p (mset is + hs) \<Longrightarrow> \<exists>p'. dec_all p is = Some p' \<and> invar p' hs"
proof (induction "is" arbitrary: p)
  case (Cons i "is")
  obtain p1 where "dec p i = Some p1" "invar p1 (mset is + hs)"
    using dec_live[OF Cons.prems, of i] by auto
  with Cons.IH show ?case by simp
qed simp

end

section \<open>The pool meets the contract\<close>

definition pool_ok :: "pool \<Rightarrow> nat multiset \<Rightarrow> bool" where
  "pool_ok p hs \<longleftrightarrow>
     distinct (pool_free p) \<and>
     set (pool_free p) = {i. i < length (pool_ref_counts p) \<and> count hs i = 0} \<and>
     set_mset hs \<subseteq> {..<length (pool_ref_counts p)} \<and>
     (\<forall>i<length (pool_ref_counts p). pool_ref_counts p ! i = int (count hs i) \<and> count hs i < 32768) \<and>
     length (pool_mem p) = length (pool_ref_counts p) * BUF_SIZE"

fun to_option :: "('a, 'e) result \<Rightarrow> 'a option" where
  "to_option (Ok v) = Some v"
| "to_option (Err e) = None"
| "to_option Panic = None"

definition alloc_index :: "pool \<Rightarrow> (nat \<times> pool) option" where
  "alloc_index p = map_option (\<lambda>(bm, p). (bm_index bm, p)) (to_option (pool_alloc p))"

lemma pool_alloc_ok:
  assumes "pool_ok p hs" and "pool_free p = i # free"
  shows "\<exists>p'. pool_alloc p = Ok (\<lparr>bm_index = i, bm_off = 0, bm_len = BUF_SIZE\<rparr>, p') \<and>
    i \<notin># hs \<and> pool_ok p' (add_mset i hs) \<and> pool_mem p' = pool_mem p"
proof -
  have i: "i < length (pool_ref_counts p)" "count hs i = 0" "i \<notin> set free"
    using assms by (auto simp: pool_ok_def)
  then have "pool_ref_counts p ! i = 0" using assms(1) by (simp add: pool_ok_def)
  then have "pool_alloc p = Ok (\<lparr>bm_index = i, bm_off = 0, bm_len = BUF_SIZE\<rparr>,
      p\<lparr>pool_free := free, pool_ref_counts := (pool_ref_counts p)[i := 1]\<rparr>)"
    using i assms(2) by (simp add: pool_alloc_def ref_count_add_def)
  moreover have "pool_ok (p\<lparr>pool_free := free, pool_ref_counts := (pool_ref_counts p)[i := 1]\<rparr>)
      (add_mset i hs)"
    using i assms by (auto simp: pool_ok_def nth_list_update)
  ultimately show ?thesis using i by (simp add: not_in_iff)
qed

lemma pool_alloc_Err: "pool_free p = [] \<Longrightarrow> pool_alloc p = Err OutOfMemory"
  by (simp add: pool_alloc_def)

lemma pool_inc_ok:
  assumes "pool_ok p hs" and "i \<in># hs" and "count hs i < 32767"
  shows "\<exists>p'. (pool_inc p i :: (pool, 'e) result) = Ok p' \<and> pool_ok p' (add_mset i hs) \<and>
    pool_mem p' = pool_mem p"
proof -
  have i: "i < length (pool_ref_counts p)" "pool_ref_counts p ! i = int (count hs i)"
    using assms by (auto simp: pool_ok_def)
  let ?p = "p\<lparr>pool_ref_counts := (pool_ref_counts p)[i := int (count hs i) + 1]\<rparr>"
  have "(pool_inc p i :: (pool, 'e) result) = Ok ?p"
    using i assms(3) by (simp add: pool_inc_def ref_count_add_def)
  moreover have "pool_ok ?p (add_mset i hs)"
    using i assms by (auto simp: pool_ok_def nth_list_update count_eq_zero_iff)
  ultimately show ?thesis by simp
qed

lemma pool_dec_ok:
  assumes "pool_ok p hs" and "i \<in># hs"
  shows "\<exists>p'. (pool_dec p i :: (pool, 'e) result) = Ok p' \<and> pool_ok p' (hs - {#i#}) \<and>
    pool_mem p' = pool_mem p"
proof -
  let ?n = "int (count hs i) - 1"
  let ?q = "p\<lparr>pool_ref_counts := (pool_ref_counts p)[i := ?n]\<rparr>"
  let ?p = "if count hs i = 1 then ?q\<lparr>pool_free := pool_free p @ [i]\<rparr> else ?q"
  have i: "i < length (pool_ref_counts p)" "pool_ref_counts p ! i = int (count hs i)"
    "count hs i < 32768" "0 < count hs i"
    using assms by (auto simp: pool_ok_def)
  then have "(pool_dec p i :: (pool, 'e) result) = Ok ?p"
    by (simp add: pool_dec_def ref_count_add_def Let_def)
  moreover have "pool_ok ?p (hs - {#i#})"
  proof -
    have sub: "set_mset (hs - {#i#}) \<subseteq> {..<length (pool_ref_counts p)}"
      using assms(1) by (auto simp: pool_ok_def dest: in_diffD)
    have cnt: "count (hs - {#i#}) j = (if j = i then count hs i - 1 else count hs j)" for j
      by simp
    show ?thesis
      using i assms(1) sub by (auto simp: pool_ok_def nth_list_update cnt split: if_splits)
  qed
  ultimately show ?thesis by auto
qed

interpretation pl: refcounted_pool alloc_index
    "\<lambda>p i. to_option (pool_inc p i :: (pool, buf_error) result)"
    "\<lambda>p i. to_option (pool_dec p i :: (pool, buf_error) result)" "\<lambda>p. set (pool_free p)" pool_ok 32767
proof unfold_locales
  fix p hs i p'
  assume ok: "pool_ok p hs" and al: "alloc_index p = Some (i, p')"
  then obtain j free where "pool_free p = j # free"
    by (cases "pool_free p") (auto simp: alloc_index_def pool_alloc_Err)
  with pool_alloc_ok[OF ok this] al show "i \<notin># hs \<and> pool_ok p' (add_mset i hs)"
    by (auto simp: alloc_index_def)
next
  fix p hs assume "pool_ok p hs"
  then show "alloc_index p = None \<longleftrightarrow> set (pool_free p) = {}"
    by (cases "pool_free p") (auto simp: alloc_index_def pool_alloc_Err dest: pool_alloc_ok)
next
  fix p hs i assume "pool_ok p hs" "i \<in># hs" "count hs i < 32767"
  then show "\<exists>p'. to_option (pool_inc p i :: (pool, buf_error) result) = Some p' \<and> pool_ok p' (add_mset i hs)"
    using pool_inc_ok[where 'e = buf_error] by fastforce
next
  fix p hs i assume "pool_ok p hs" "i \<in># hs"
  then show "\<exists>p'. to_option (pool_dec p i :: (pool, buf_error) result) = Some p' \<and> pool_ok p' (hs - {#i#})"
    using pool_dec_ok[where 'e = buf_error] by fastforce
next
  fix p hs assume "pool_ok p hs"
  then show "set (pool_free p) \<inter> set_mset hs = {}"
    by (auto simp: pool_ok_def count_eq_zero_iff)
qed

lemma pool_ok_init: "pool_ok (initialize_allocator_with_num_bufs n) {#}"
  by (auto simp: pool_ok_def initialize_allocator_with_num_bufs_def)

section \<open>Programs that count their handles\<close>

text \<open>
  The pool under a program that holds the handles whose indices are \<open>hs\<close>: it allocates, clones,
  splits, freezes and drops them. A step that panics is not a step.
\<close>

inductive pool_reachable :: "nat \<Rightarrow> pool \<Rightarrow> nat multiset \<Rightarrow> bool" for n where
  pr_init: "pool_reachable n (initialize_allocator_with_num_bufs n) {#}"
| pr_alloc: "pool_reachable n p hs \<Longrightarrow> pool_alloc p = Ok (bm, p') \<Longrightarrow>
    pool_reachable n p' (add_mset (bm_index bm) hs)"
| pr_clone: "pool_reachable n p hs \<Longrightarrow> b_index b \<in># hs \<Longrightarrow>
    b_clone p b = (Ok (b', p') :: (_, buf_error) result) \<Longrightarrow>
    pool_reachable n p' (add_mset (b_index b') hs)"
| pr_split_mut: "pool_reachable n p hs \<Longrightarrow> bm_index bm \<in># hs \<Longrightarrow>
    bm_split_at p bm at = (Ok ((l, r), p') :: (_, buf_error) result) \<Longrightarrow>
    pool_reachable n p' (add_mset (bm_index l) (add_mset (bm_index r) (hs - {#bm_index bm#})))"
| pr_split: "pool_reachable n p hs \<Longrightarrow> b_index b \<in># hs \<Longrightarrow>
    b_split_at p b at = (Ok ((l', r'), p') :: (_, buf_error) result) \<Longrightarrow>
    pool_reachable n p' (add_mset (b_index l') (add_mset (b_index r') (hs - {#b_index b#})))"
| pr_freeze: "pool_reachable n p hs \<Longrightarrow> bm_index bm \<in># hs \<Longrightarrow>
    pool_reachable n p (add_mset (b_index (bm_freeze bm)) (hs - {#bm_index bm#}))"
| pr_drop_mut: "pool_reachable n p hs \<Longrightarrow> bm_index bm \<in># hs \<Longrightarrow>
    bm_drop p bm = (Ok p' :: (_, buf_error) result) \<Longrightarrow> pool_reachable n p' (hs - {#bm_index bm#})"
| pr_drop: "pool_reachable n p hs \<Longrightarrow> b_index b \<in># hs \<Longrightarrow>
    b_drop p b = (Ok p' :: (_, buf_error) result) \<Longrightarrow> pool_reachable n p' (hs - {#b_index b#})"

text \<open>An \<open>inc\<close> that did not panic kept the count in range.\<close>

lemma pool_inc_Ok:
  assumes "pool_ok p hs" and "i \<in># hs" and "pool_inc p i = (Ok p' :: (pool, 'e) result)"
  shows "pool_ok p' (add_mset i hs) \<and> length (pool_ref_counts p') = length (pool_ref_counts p)"
proof -
  have "i < length (pool_ref_counts p)" "pool_ref_counts p ! i = int (count hs i)"
    using assms(1,2) by (auto simp: pool_ok_def)
  then have "count hs i < 32767" and
    "length (pool_ref_counts p') = length (pool_ref_counts p)"
    using assms(3) by (auto simp: pool_inc_def ref_count_add_def split: if_splits)
  with pool_inc_ok[OF assms(1,2), where 'e = 'e] assms(3) show ?thesis by auto
qed

lemma pool_dec_Ok:
  assumes "pool_ok p hs" and "i \<in># hs" and "pool_dec p i = (Ok p' :: (pool, 'e) result)"
  shows "pool_ok p' (hs - {#i#}) \<and> length (pool_ref_counts p') = length (pool_ref_counts p)"
  using pool_dec_ok[OF assms(1,2), where 'e = 'e] assms(3)
  by (auto simp: pool_dec_def ref_count_add_def Let_def split: if_splits)

lemma pool_alloc_Ok:
  assumes "pool_ok p hs" and "pool_alloc p = Ok (bm, p')"
  shows "pool_ok p' (add_mset (bm_index bm) hs) \<and>
    length (pool_ref_counts p') = length (pool_ref_counts p)"
proof -
  obtain i free where free: "pool_free p = i # free"
    using assms(2) by (cases "pool_free p") (auto simp: pool_alloc_Err)
  show ?thesis
    using pool_alloc_ok[OF assms(1) free] assms(2) free
    by (auto simp: pool_alloc_def ref_count_add_def split: if_splits)
qed

lemma b_clone_Ok:
  "b_clone p b = (Ok (b', p') :: (_, 'e) result) \<longleftrightarrow>
     b' = b \<and> pool_inc p (b_index b) = (Ok p' :: (_, 'e) result)"
  by (auto simp: b_clone_def result_simps)

lemma bm_split_at_Ok:
  "bm_split_at p bm at = (Ok ((l, r), p') :: (_, 'e) result) \<Longrightarrow>
     bm_index l = bm_index bm \<and> bm_index r = bm_index bm \<and>
     pool_inc p (bm_index bm) = (Ok p' :: (_, 'e) result)"
  by (auto simp: bm_split_at_def result_simps Let_def split: if_splits)

lemma b_split_at_Ok:
  "b_split_at p b at = (Ok ((l, r), p') :: (_, 'e) result) \<Longrightarrow>
     b_index l = b_index b \<and> b_index r = b_index b \<and>
     pool_inc p (b_index b) = (Ok p' :: (_, 'e) result)"
  by (auto simp: b_split_at_def result_simps Let_def split: if_splits)

lemma pool_reachable_inv:
  assumes "pool_reachable n p hs"
  shows "pool_ok p hs \<and> length (pool_ref_counts p) = n"
  using assms
proof (induction rule: pool_reachable.induct)
  case pr_init
  then show ?case by (simp add: pool_ok_init) (simp add: initialize_allocator_with_num_bufs_def)
next
  case (pr_alloc p hs bm p')
  then show ?case using pool_alloc_Ok by blast
next
  case (pr_clone p hs b b' p')
  then show ?case
    using pool_inc_Ok[of p hs "b_index b" p', where 'e = buf_error] by (simp add: b_clone_Ok)
next
  case (pr_split_mut p hs bm at l r p')
  then show ?case
    using pool_inc_Ok[of p hs "bm_index bm" p', where 'e = buf_error] bm_split_at_Ok[OF pr_split_mut(3)]
    by simp
next
  case (pr_split p hs b at l r p')
  then show ?case
    using pool_inc_Ok[of p hs "b_index b" p', where 'e = buf_error] b_split_at_Ok[OF pr_split(3)]
    by simp
next
  case (pr_freeze p hs bm)
  then show ?case by (simp add: bm_freeze_def)
next
  case (pr_drop_mut p hs bm p')
  then show ?case
    using pool_dec_Ok[of p hs "bm_index bm" p', where 'e = buf_error] by (simp add: bm_drop_def)
next
  case (pr_drop p hs b p')
  then show ?case
    using pool_dec_Ok[of p hs "b_index b" p', where 'e = buf_error] by (simp add: b_drop_def)
qed

lemma pool_ok_partition:
  assumes "pool_ok p hs"
  shows "num_free p + card (set_mset hs) = length (pool_ref_counts p)"
proof -
  have "set (pool_free p) \<union> set_mset hs = {..<length (pool_ref_counts p)}"
    "set (pool_free p) \<inter> set_mset hs = {}"
    using assms by (auto simp: pool_ok_def count_eq_zero_iff)
  then have "card (set (pool_free p)) + card (set_mset hs) = length (pool_ref_counts p)"
    using card_Un_disjoint[of "set (pool_free p)" "set_mset hs"] by simp
  moreover have "card (set (pool_free p)) = num_free p"
    using assms distinct_card[of "pool_free p"] by (simp only: pool_ok_def num_free_def)
  ultimately show ?thesis by simp
qed


text \<open>A pool of one buffer, allocated.\<close>

definition one_buf :: pool where
  "one_buf = \<lparr>pool_free = [], pool_ref_counts = [1], pool_mem = replicate BUF_SIZE 0\<rparr>"

lemma one_buf_alloc:
  "pool_alloc (initialize_allocator_with_num_bufs 1) =
     Ok (\<lparr>bm_index = 0, bm_off = 0, bm_len = BUF_SIZE\<rparr>, one_buf)"
  by (simp add: pool_alloc_def initialize_allocator_with_num_bufs_def ref_count_add_def one_buf_def
      BUF_SIZE_def)


section \<open>\<open>freeze_slice\<close> does not count its handle\<close>


end
