(* ===== verification/Buffet_Roll.thy ===== *)
theory Buffet_Roll
  imports Buffet_Pool
begin

text \<open>
  The rolling buffers of \<open>buffet\<close> (\<open>crates/buffet/src/roll.rs\<close>): \<open>RollMut\<close>, a buffer with a filled
  part and a writable rest, stored in a pool buffer or in a shared box, and \<open>Roll\<close>, an immutable
  view of a part of it. The memory is explicit: the pool and a list of boxes, each box addressed by
  its position; raw-pointer copies are writes into that memory at the computed address, so that
  aliasing between a \<open>RollMut\<close> and the \<open>Roll\<close>s taken from it is part of the model. A function that
  returns \<open>Err\<close> leaves memory and buffer as they were unless it returns them beside the outcome. The
  lemmas show that every operation acts on the filled bytes as on a plain byte list, that a frozen
  view never changes, and two calls that do not do what they promise.
\<close>

section \<open>Memory and storage\<close>

record memory =
  m_pool :: pool
  m_boxes :: "bytes list"

record box_storage =
  bs_buf :: nat
  bs_off :: nat

datatype storage_mut = StBuf buf_mut | StBox box_storage

record roll_mut =
  rm_storage :: storage_mut
  rm_len :: nat

datatype roll = RollBuf buf | RollBox box_storage nat | RollEmpty

definition overwrite :: "'a list \<Rightarrow> nat \<Rightarrow> 'a list \<Rightarrow> 'a list" where
  "overwrite xs pos ys = take pos xs @ ys @ drop (pos + length ys) xs"

definition bs_box :: "memory \<Rightarrow> box_storage \<Rightarrow> bytes" where
  "bs_box m bs = m_boxes m ! bs_buf bs"

fun st_off :: "storage_mut \<Rightarrow> nat" where
  "st_off (StBuf b) = bm_off b"
| "st_off (StBox b) = bs_off b"

fun st_cap :: "memory \<Rightarrow> storage_mut \<Rightarrow> nat" where
  "st_cap m (StBuf b) = BUF_SIZE"
| "st_cap m (StBox b) = length (bs_box m b)"

fun st_len :: "memory \<Rightarrow> storage_mut \<Rightarrow> nat" where
  "st_len m (StBuf b) = bm_len b"
| "st_len m (StBox b) = length (bs_box m b) - bs_off b"

text \<open>\<open>n\<close> bytes from \<open>as_mut_ptr()\<close> on, and a copy to \<open>as_mut_ptr().add(at)\<close>.\<close>

fun st_read :: "memory \<Rightarrow> storage_mut \<Rightarrow> nat \<Rightarrow> bytes" where
  "st_read m (StBuf b) n =
     take n (drop (base_ptr_with_offset (bm_index b) (bm_off b)) (pool_mem (m_pool m)))"
| "st_read m (StBox b) n = take n (drop (bs_off b) (bs_box m b))"

fun st_write :: "memory \<Rightarrow> storage_mut \<Rightarrow> nat \<Rightarrow> bytes \<Rightarrow> memory" where
  "st_write m (StBuf b) at s =
     m\<lparr>m_pool := (m_pool m)\<lparr>pool_mem :=
       overwrite (pool_mem (m_pool m)) (base_ptr_with_offset (bm_index b) (bm_off b) + at) s\<rparr>\<rparr>"
| "st_write m (StBox b) at s =
     m\<lparr>m_boxes := (m_boxes m)[bs_buf b := overwrite (bs_box m b) (bs_off b + at) s]\<rparr>"

fun st_drop :: "memory \<Rightarrow> storage_mut \<Rightarrow> (memory, 'e) result" where
  "st_drop m (StBuf b) = and_then (bm_drop (m_pool m) b) (\<lambda>p. Ok (m\<lparr>m_pool := p\<rparr>))"
| "st_drop m (StBox b) = Ok m"

text \<open>\<open>vec![0; n].into_boxed_slice()\<close> in a new \<open>Rc\<close>.\<close>

definition box_alloc :: "memory \<Rightarrow> nat \<Rightarrow> box_storage \<times> memory" where
  "box_alloc m n =
     (\<lparr>bs_buf = length (m_boxes m), bs_off = 0\<rparr>, m\<lparr>m_boxes := m_boxes m @ [replicate n 0]\<rparr>)"

definition as_u32 :: "nat \<Rightarrow> nat" where
  "as_u32 n = n mod 2 ^ 32"

definition try_u32 :: "nat \<Rightarrow> (nat, 'e) result" where
  "try_u32 n = (if n < 2 ^ 32 then Ok n else Panic)"

definition add_u32 :: "nat \<Rightarrow> nat \<Rightarrow> (nat, 'e) result" where
  "add_u32 a b = (if a + b < 2 ^ 32 then Ok (a + b) else Panic)"

definition sub_usize :: "nat \<Rightarrow> nat \<Rightarrow> (nat, 'e) result" where
  "sub_usize a b = (if b \<le> a then Ok (a - b) else Panic)"

section \<open>RollMut\<close>

definition rm_alloc :: "memory \<Rightarrow> (roll_mut \<times> memory, buf_error) result" where
  "rm_alloc m =
     and_then (pool_alloc (m_pool m)) (\<lambda>(bm, p).
       Ok (\<lparr>rm_storage = StBuf bm, rm_len = 0\<rparr>, m\<lparr>m_pool := p\<rparr>))"

definition rm_cap :: "memory \<Rightarrow> roll_mut \<Rightarrow> nat" where
  "rm_cap m r = st_len m (rm_storage r) - rm_len r"

definition rm_storage_size :: "memory \<Rightarrow> roll_mut \<Rightarrow> nat" where
  "rm_storage_size m r = st_cap m (rm_storage r)"

definition rm_deref :: "memory \<Rightarrow> roll_mut \<Rightarrow> (bytes, 'e) result" where
  "rm_deref m r =
     (if rm_len r \<le> st_len m (rm_storage r) then Ok (st_read m (rm_storage r) (rm_len r)) else Panic)"

text \<open>
  The copy into a fresh storage: \<open>next[..len].copy_from_slice(&self[..])\<close> panics when the new
  storage is shorter than the filled part; the old storage is dropped by the assignment.
\<close>

definition rm_replace_storage ::
    "memory \<Rightarrow> roll_mut \<Rightarrow> storage_mut \<Rightarrow> (roll_mut \<times> memory, buf_error) result" where
  "rm_replace_storage m r next_storage =
     (if \<not> rm_len r \<le> st_len m next_storage then Panic
      else and_then (rm_deref m r) (\<lambda>filled.
        and_then (st_drop (st_write m next_storage 0 filled) (rm_storage r)) (\<lambda>m.
          Ok (r\<lparr>rm_storage := next_storage\<rparr>, m))))"

definition rm_grow :: "memory \<Rightarrow> roll_mut \<Rightarrow> (roll_mut \<times> memory, buf_error) result" where
  "rm_grow m r =
     (let old_cap = st_cap m (rm_storage r);
          new_cap = old_cap * 2;
          (bs, m) = box_alloc m new_cap
      in rm_replace_storage m r (StBox bs))"

definition rm_compact :: "memory \<Rightarrow> roll_mut \<Rightarrow> (roll_mut \<times> memory, buf_error) result" where
  "rm_compact m r =
     (if \<not> rm_len r \<noteq> rm_storage_size m r then Panic
      else
        (case rm_storage r of
           StBuf bm \<Rightarrow>
             if \<not> bm_off bm \<noteq> 0 then Panic
             else and_then (pool_alloc (m_pool m)) (\<lambda>(next_b, p).
               rm_replace_storage (m\<lparr>m_pool := p\<rparr>) r (StBuf next_b))
         | StBox b \<Rightarrow>
             if BUF_SIZE < rm_len r then
               let (next_b, m) = box_alloc m (length (bs_box m b))
               in rm_replace_storage m r (StBox next_b)
             else and_then (pool_alloc (m_pool m)) (\<lambda>(next_b, p).
               rm_replace_storage (m\<lparr>m_pool := p\<rparr>) r (StBuf next_b))))"

definition rm_reserve :: "memory \<Rightarrow> roll_mut \<Rightarrow> (roll_mut \<times> memory, buf_error) result" where
  "rm_reserve m r =
     (if rm_len r < rm_cap m r then Ok (r, m)
      else if 0 < st_off (rm_storage r) then rm_compact m r
      else rm_grow m r)"

definition rm_reserve_at_least ::
    "memory \<Rightarrow> roll_mut \<Rightarrow> nat \<Rightarrow> (roll_mut \<times> memory, buf_error) result" where
  "rm_reserve_at_least m r requested_len =
     (if requested_len \<le> rm_cap m r then Ok (r, m)
      else
        and_then
          (if 0 < st_off (rm_storage r)
           then and_then (sub_usize BUF_SIZE (rm_len r)) (\<lambda>room. Ok (requested_len \<le> room))
           else Ok False)
          (\<lambda>compactable.
             and_then
               (if compactable then rm_compact m r
                else
                  let new_storage_size = max (rm_storage_size m r * 2) (requested_len + rm_len r);
                      (bs, m) = box_alloc m new_storage_size
                  in rm_replace_storage m r (StBox bs))
               (\<lambda>(r, m). if requested_len \<le> rm_cap m r then Ok (r, m) else Panic)))"

definition rm_put :: "memory \<Rightarrow> roll_mut \<Rightarrow> bytes \<Rightarrow> (roll_mut \<times> memory, buf_error) result" where
  "rm_put m r s =
     (if rm_cap m r < length s then Err DoesNotFit
      else
        let m = st_write m (rm_storage r) (rm_len r) s in
        and_then (try_u32 (length s)) (\<lambda>u32_len.
        and_then (add_u32 (rm_len r) u32_len) (\<lambda>len. Ok (r\<lparr>rm_len := len\<rparr>, m))))"

text \<open>
  A closure over a \<open>&mut [u8]\<close> takes the bytes of the slice to an outcome and the bytes it left in
  it; it cannot change the length of the slice.
\<close>

type_synonym 'a slice_fn = "bytes \<Rightarrow> ('a, buf_error) result \<times> bytes"

definition rm_put_with ::
    "memory \<Rightarrow> roll_mut \<Rightarrow> nat \<Rightarrow> 'a slice_fn \<Rightarrow> ('a, buf_error) result \<times> roll_mut \<times> memory" where
  "rm_put_with m r len f =
     (if \<not> len \<le> rm_cap m r then (Panic, r, m)
      else if \<not> len < 2 ^ 32 then (Panic, r, m)
      else
        let slice = take len (drop (rm_len r) (st_read m (rm_storage r) (rm_len r + len)));
            (res, slice') = f slice;
            m = st_write m (rm_storage r) (rm_len r) slice'
        in case res of
             Ok v \<Rightarrow>
               (case add_u32 (rm_len r) len of
                  Ok n \<Rightarrow> (Ok v, r\<lparr>rm_len := n\<rparr>, m)
                | Err e \<Rightarrow> (Err e, r, m)
                | Panic \<Rightarrow> (Panic, r, m))
           | Err e \<Rightarrow> (Err e, r, m)
           | Panic \<Rightarrow> (Panic, r, m))"

fun storage_skip_unchecked :: "storage_mut \<Rightarrow> nat \<Rightarrow> (storage_mut, 'e) result" where
  "storage_skip_unchecked (StBuf b) n = and_then (bm_skip b n) (\<lambda>b. Ok (StBuf b))"
| "storage_skip_unchecked (StBox b) n =
     and_then (add_u32 (bs_off b) n) (\<lambda>off. Ok (StBox (b\<lparr>bs_off := off\<rparr>)))"

fun filled_unchecked_len :: "storage_mut \<Rightarrow> nat \<Rightarrow> (roll, 'e) result" where
  "filled_unchecked_len (StBuf b) len =
     and_then (bm_freeze_slice b (Included 0, Excluded len)) (\<lambda>b. Ok (RollBuf b))"
| "filled_unchecked_len (StBox b) len = Ok (RollBox b len)"

definition rm_put_to_roll ::
    "memory \<Rightarrow> roll_mut \<Rightarrow> nat \<Rightarrow> unit slice_fn \<Rightarrow> (roll, buf_error) result \<times> roll_mut \<times> memory" where
  "rm_put_to_roll m r put_len f =
     (if \<not> put_len < 2 ^ 32 then (Panic, r, m)
      else
        (case rm_reserve_at_least m r put_len of
           Err e \<Rightarrow> (Err e, r, m)
         | Panic \<Rightarrow> (Panic, r, m)
         | Ok (r, m) \<Rightarrow>
             if rm_len r \<noteq> 0 then (Panic, r, m)
             else
               let (res, slice) = f (st_read m (rm_storage r) put_len);
                   m = st_write m (rm_storage r) 0 slice
               in case res of
                    Ok _ \<Rightarrow>
                      (case and_then (filled_unchecked_len (rm_storage r) put_len) (\<lambda>roll.
                              and_then (storage_skip_unchecked (rm_storage r) put_len) (\<lambda>st.
                                Ok (roll, st))) of
                         Ok (roll, st) \<Rightarrow> (Ok roll, r\<lparr>rm_storage := st\<rparr>, m)
                       | Err e \<Rightarrow> (Err e, r, m)
                       | Panic \<Rightarrow> (Panic, r, m))
                  | Err e \<Rightarrow> (Err e, r, m)
                  | Panic \<Rightarrow> (Panic, r, m)))"

definition rm_filled :: "roll_mut \<Rightarrow> (roll, 'e) result" where
  "rm_filled r = filled_unchecked_len (rm_storage r) (rm_len r)"

definition rm_skip :: "roll_mut \<Rightarrow> nat \<Rightarrow> (roll_mut, 'e) result" where
  "rm_skip r n =
     and_then (try_u32 n) (\<lambda>u32_n.
       if \<not> u32_n \<le> rm_len r then Panic
       else and_then (storage_skip_unchecked (rm_storage r) u32_n) (\<lambda>st.
         Ok (r\<lparr>rm_storage := st, rm_len := rm_len r - u32_n\<rparr>)))"

section \<open>Roll\<close>

fun roll_len :: "roll \<Rightarrow> nat" where
  "roll_len (RollBuf b) = b_len b"
| "roll_len (RollBox b len) = len"
| "roll_len RollEmpty = 0"

fun roll_deref :: "memory \<Rightarrow> roll \<Rightarrow> (bytes, 'e) result" where
  "roll_deref m (RollBuf b) = Ok (b_deref (m_pool m) b)"
| "roll_deref m (RollBox b len) =
     (if bs_off b + len \<le> length (bs_box m b) then Ok (take len (drop (bs_off b) (bs_box m b))) else Panic)"
| "roll_deref m RollEmpty = Ok []"

definition roll_box_slice :: "box_storage \<Rightarrow> nat \<Rightarrow> bound \<times> bound \<Rightarrow> (roll, 'e) result" where
  "roll_box_slice b len rng =
     (let new_start = start_of (fst rng); new_end = end_of len (snd rng) in
      if \<not> new_start \<le> new_end then Panic
      else if \<not> new_end \<le> len then Panic
      else and_then (add_u32 (bs_off b) (as_u32 new_start)) (\<lambda>off.
        Ok (RollBox (b\<lparr>bs_off := off\<rparr>) (as_u32 (new_end - new_start)))))"

fun roll_slice :: "roll \<Rightarrow> bound \<times> bound \<Rightarrow> (roll, 'e) result" where
  "roll_slice (RollBuf b) rng = and_then (b_slice b rng) (\<lambda>b. Ok (RollBuf b))"
| "roll_slice (RollBox b len) rng = roll_box_slice b len rng"
| "roll_slice RollEmpty rng = Panic"

definition roll_box_split_at :: "box_storage \<Rightarrow> nat \<Rightarrow> nat \<Rightarrow> (roll \<times> roll, 'e) result" where
  "roll_box_split_at b len at =
     and_then (try_u32 at) (\<lambda>at.
       if \<not> at \<le> len then Panic
       else and_then (add_u32 (bs_off b) at) (\<lambda>off.
         Ok (RollBox b at, RollBox (b\<lparr>bs_off := off\<rparr>) (len - at))))"

fun roll_split_at :: "memory \<Rightarrow> roll \<Rightarrow> nat \<Rightarrow> ((roll \<times> roll) \<times> memory, 'e) result" where
  "roll_split_at m (RollBuf b) at =
     and_then (b_split_at (m_pool m) b at) (\<lambda>((l, r), p).
       Ok ((RollBuf l, RollBuf r), m\<lparr>m_pool := p\<rparr>))"
| "roll_split_at m (RollBox b len) at =
     and_then (roll_box_split_at b len at) (\<lambda>lr. Ok (lr, m))"
| "roll_split_at m RollEmpty at = (if at = 0 then Ok ((RollEmpty, RollEmpty), m) else Panic)"

fun roll_drop :: "memory \<Rightarrow> roll \<Rightarrow> (memory, 'e) result" where
  "roll_drop m (RollBuf b) = and_then (b_drop (m_pool m) b) (\<lambda>p. Ok (m\<lparr>m_pool := p\<rparr>))"
| "roll_drop m (RollBox b len) = Ok m"
| "roll_drop m RollEmpty = Ok m"

definition rm_take_at_most :: "roll_mut \<Rightarrow> nat \<Rightarrow> (roll option \<times> roll_mut, 'e) result" where
  "rm_take_at_most r n =
     (if n = 0 then Panic
      else if rm_len r = 0 then Ok (None, r)
      else
        let n = min n (rm_len r) in
        and_then (rm_filled r) (\<lambda>filled.
        and_then (roll_slice filled (Unbounded, Excluded n)) (\<lambda>roll.
        and_then (rm_skip r n) (\<lambda>r. Ok (Some roll, r)))))"

definition rm_take_all :: "roll_mut \<Rightarrow> (roll \<times> roll_mut, 'e) result" where
  "rm_take_all r =
     and_then (rm_filled r) (\<lambda>roll.
       if roll_len roll = 0 then Panic
       else and_then (rm_skip r (roll_len roll)) (\<lambda>r. Ok (roll, r)))"

text \<open>\<open>keep\<close> owns its argument and drops it at the end.\<close>

definition rm_keep :: "memory \<Rightarrow> roll_mut \<Rightarrow> roll \<Rightarrow> (roll_mut \<times> memory, 'e) result" where
  "rm_keep m r roll =
     and_then
       (case (rm_storage r, roll) of
          (StBuf ours, RollBuf theirs) \<Rightarrow>
            if bm_index ours \<noteq> b_index theirs then Panic
            else if \<not> bm_off ours \<le> b_off theirs then Panic
            else
              let skipped = b_off theirs - bm_off ours in
              and_then (sub_usize (rm_len r) skipped) (\<lambda>len.
              and_then (sub_usize (bm_len ours) skipped) (\<lambda>ours_len.
                Ok \<lparr>rm_storage = StBuf (ours\<lparr>bm_len := ours_len, bm_off := b_off theirs\<rparr>), rm_len = len\<rparr>))
        | (StBox ours, RollBox theirs len) \<Rightarrow>
            if bs_buf ours \<noteq> bs_buf theirs then Panic
            else if \<not> bs_off ours \<le> bs_off theirs then Panic
            else
              let skipped = bs_off theirs - bs_off ours in
              and_then (sub_usize (rm_len r) skipped) (\<lambda>len.
                Ok \<lparr>rm_storage = StBox (ours\<lparr>bs_off := bs_off theirs\<rparr>), rm_len = len\<rparr>)
        | _ \<Rightarrow> Panic)
       (\<lambda>r. and_then (roll_drop m roll) (\<lambda>m. Ok (r, m)))"

text \<open>\<open>std::io::Write::write\<close>.\<close>

definition rm_write :: "memory \<Rightarrow> roll_mut \<Rightarrow> bytes \<Rightarrow> (nat, buf_error) result \<times> roll_mut \<times> memory" where
  "rm_write m r buf =
     (let n = length buf in
      case (if rm_cap m r < n then rm_reserve_at_least m r n else Ok (r, m)) of
        Err e \<Rightarrow> (Err e, r, m)
      | Panic \<Rightarrow> (Panic, r, m)
      | Ok (r, m) \<Rightarrow>
          (case rm_put m r buf of
             Ok (r, m) \<Rightarrow> (Ok n, r, m)
           | Err e \<Rightarrow> (Err e, r, m)
           | Panic \<Rightarrow> (Panic, r, m)))"

section \<open>Reading and writing a region\<close>

lemma length_overwrite [simp]: "pos + length ys \<le> length xs \<Longrightarrow> length (overwrite xs pos ys) = length xs"
  by (simp add: overwrite_def)

text \<open>A write is seen where it was made and nowhere else.\<close>

lemma take_drop_overwrite_append:
  assumes "a + k + length ys \<le> length xs"
  shows "take (k + length ys) (drop a (overwrite xs (a + k) ys)) = take k (drop a xs) @ ys"
proof -
  have "drop a (overwrite xs (a + k) ys) = take k (drop a xs) @ ys @ drop (a + k + length ys) xs"
    using assms by (simp add: overwrite_def drop_take)
  then show ?thesis using assms by simp
qed

lemma take_drop_overwrite_before:
  assumes "a + n \<le> pos" and "pos + length ys \<le> length xs"
  shows "take n (drop a (overwrite xs pos ys)) = take n (drop a xs)"
proof -
  have "take (a + n) (overwrite xs pos ys) = take (a + n) xs"
    using assms by (simp add: overwrite_def min_def)
  then show ?thesis by (metis drop_take add_diff_cancel_left')
qed

lemma take_drop_overwrite_after:
  assumes "pos + length ys \<le> a" and "pos + length ys \<le> length xs"
  shows "take n (drop a (overwrite xs pos ys)) = take n (drop a xs)"
proof -
  have "drop a (overwrite xs pos ys) = drop a xs"
    using assms by (simp add: overwrite_def)
  then show ?thesis by simp
qed

section \<open>Well-formed buffers\<close>

fun st_wf :: "memory \<Rightarrow> storage_mut \<Rightarrow> bool" where
  "st_wf m (StBuf b) \<longleftrightarrow>
     bm_index b < length (pool_ref_counts (m_pool m)) \<and> bm_off b + bm_len b = BUF_SIZE"
| "st_wf m (StBox b) \<longleftrightarrow>
     bs_buf b < length (m_boxes m) \<and> bs_off b \<le> length (bs_box m b) \<and> length (bs_box m b) < 2 ^ 32"

text \<open>The pool handles a storage holds; a box holds none.\<close>

fun st_handles :: "storage_mut \<Rightarrow> nat multiset" where
  "st_handles (StBuf b) = {#bm_index b#}"
| "st_handles (StBox b) = {#}"

definition mem_ok :: "memory \<Rightarrow> nat multiset \<Rightarrow> bool" where
  "mem_ok m hs \<longleftrightarrow> pool_ok (m_pool m) hs"

definition rm_wf :: "memory \<Rightarrow> nat multiset \<Rightarrow> roll_mut \<Rightarrow> bool" where
  "rm_wf m hs r \<longleftrightarrow> mem_ok m hs \<and> st_wf m (rm_storage r) \<and> st_handles (rm_storage r) \<subseteq># hs \<and>
     rm_len r \<le> st_len m (rm_storage r)"

text \<open>The filled bytes.\<close>

definition rm_contents :: "memory \<Rightarrow> roll_mut \<Rightarrow> bytes" where
  "rm_contents m r = st_read m (rm_storage r) (rm_len r)"

lemma rm_deref_contents:
  "rm_wf m hs r \<Longrightarrow> rm_deref m r = (Ok (rm_contents m r) :: (bytes, 'e) result)"
  by (simp add: rm_deref_def rm_wf_def rm_contents_def)

lemma buf_region:
  assumes "mem_ok m hs" and "st_wf m (StBuf b)"
  shows "base_ptr_with_offset (bm_index b) (bm_off b) + bm_len b \<le> length (pool_mem (m_pool m))"
proof -
  have "Suc (bm_index b) * BUF_SIZE \<le> length (pool_mem (m_pool m))"
    using assms by (simp add: mem_ok_def pool_ok_def del: mult_Suc)
  moreover have "bm_off b + bm_len b = BUF_SIZE" using assms(2) by simp
  ultimately show ?thesis by (simp add: base_ptr_with_offset_def)
qed

lemma length_st_read:
  assumes "mem_ok m hs" and "st_wf m st" and "n \<le> st_len m st"
  shows "length (st_read m st n) = n"
proof (cases st)
  case (StBuf b)
  with assms buf_region[of m hs b] show ?thesis by simp
next
  case (StBox b)
  with assms show ?thesis by auto
qed

lemma st_read_0 [simp]: "st_read m st 0 = []"
  by (cases st) simp_all

lemma st_read_write_append:
  assumes "mem_ok m hs" and "st_wf m st" and "k + length s \<le> st_len m st"
  shows "st_read (st_write m st k s) st (k + length s) = st_read m st k @ s"
proof (cases st)
  case (StBuf b)
  with assms buf_region[of m hs b] show ?thesis
    by (simp add: take_drop_overwrite_append)
next
  case (StBox b)
  with assms have "bs_off b + k + length s \<le> length (bs_box m b)" by auto
  with StBox assms show ?thesis by (simp add: bs_box_def take_drop_overwrite_append)
qed

lemma st_write_same:
  assumes "mem_ok m hs" and "st_wf m st" and "k + length s \<le> st_len m st"
  shows "mem_ok (st_write m st k s) hs" and "st_wf (st_write m st k s) st' = st_wf m st'"
    and "st_len (st_write m st k s) st' = st_len m st'"
proof -
  show "mem_ok (st_write m st k s) hs"
  proof (cases st)
    case (StBuf b)
    with assms buf_region[of m hs b] show ?thesis by (simp add: mem_ok_def pool_ok_def)
  next
    case (StBox b)
    with assms show ?thesis by (simp add: mem_ok_def)
  qed
  show "st_wf (st_write m st k s) st' = st_wf m st'" "st_len (st_write m st k s) st' = st_len m st'"
    using assms by (cases st; cases st'; auto simp: bs_box_def nth_list_update)+
qed

section \<open>Writing\<close>

lemma rm_put_ok:
  assumes "rm_wf m hs r" and "length s \<le> rm_cap m r" and "st_len m (rm_storage r) < 2 ^ 32"
  shows "\<exists>m'. rm_put m r s = Ok (r\<lparr>rm_len := rm_len r + length s\<rparr>, m') \<and>
    m' = st_write m (rm_storage r) (rm_len r) s \<and>
    rm_wf m' hs (r\<lparr>rm_len := rm_len r + length s\<rparr>) \<and>
    rm_contents m' (r\<lparr>rm_len := rm_len r + length s\<rparr>) = rm_contents m r @ s"
proof -
  have wf: "mem_ok m hs" "st_wf m (rm_storage r)" "rm_len r + length s \<le> st_len m (rm_storage r)"
    using assms by (auto simp: rm_wf_def rm_cap_def)
  have "rm_put m r s =
      Ok (r\<lparr>rm_len := rm_len r + length s\<rparr>, st_write m (rm_storage r) (rm_len r) s)"
    using assms wf(3) by (simp add: rm_put_def Let_def try_u32_def add_u32_def)
  then show ?thesis
    using wf st_write_same[OF wf] st_read_write_append[OF wf] assms(1)
    by (simp add: rm_wf_def rm_contents_def)
qed

lemma st_len_bound: "st_wf m st \<Longrightarrow> st_len m st < 2 ^ 32"
  by (cases st) (auto simp: BUF_SIZE_def)

section \<open>Moving to another storage\<close>

lemma st_drop_ok:
  assumes "mem_ok m hs" and "st_handles st \<subseteq># hs"
  shows "\<exists>m'. (st_drop m st :: (memory, 'e) result) = Ok m' \<and> mem_ok m' (hs - st_handles st) \<and>
    m_boxes m' = m_boxes m \<and> pool_mem (m_pool m') = pool_mem (m_pool m) \<and>
    length (pool_ref_counts (m_pool m')) = length (pool_ref_counts (m_pool m))"
proof (cases st)
  case (StBuf b)
  then obtain p where p: "(pool_dec (m_pool m) (bm_index b) :: (pool, 'e) result) = Ok p"
    "pool_ok p (hs - {#bm_index b#})" "pool_mem p = pool_mem (m_pool m)"
    using assms pool_dec_ok[of "m_pool m" hs "bm_index b", where 'e = 'e] by (auto simp: mem_ok_def)
  moreover have "length (pool_ref_counts p) = length (pool_ref_counts (m_pool m))"
    using p(1) by (auto simp: pool_dec_def ref_count_add_def Let_def split: if_splits)
  ultimately show ?thesis using StBuf by (simp add: bm_drop_def mem_ok_def)
next
  case (StBox b)
  with assms show ?thesis by simp
qed

lemma st_frame:
  assumes "m_boxes m' = m_boxes m" and "pool_mem (m_pool m') = pool_mem (m_pool m)"
    and "length (pool_ref_counts (m_pool m')) = length (pool_ref_counts (m_pool m))"
  shows "st_wf m' st = st_wf m st" "st_len m' st = st_len m st" "st_read m' st n = st_read m st n"
    "st_cap m' st = st_cap m st"
  using assms by (cases st; simp add: bs_box_def)+

text \<open>The filled bytes survive a move to any storage that is large enough.\<close>

lemma rm_replace_storage_ok:
  assumes "rm_wf m hs r" and "st_wf m st" and "rm_len r \<le> st_len m st"
    and "st_handles (rm_storage r) + st_handles st \<subseteq># hs"
  shows "\<exists>m'. rm_replace_storage m r st = Ok (r\<lparr>rm_storage := st\<rparr>, m') \<and>
    rm_wf m' (hs - st_handles (rm_storage r)) (r\<lparr>rm_storage := st\<rparr>) \<and>
    rm_contents m' (r\<lparr>rm_storage := st\<rparr>) = rm_contents m r \<and> st_len m' st = st_len m st"
proof -
  let ?c = "rm_contents m r"
  have wf: "mem_ok m hs" "st_handles (rm_storage r) \<subseteq># hs" and len: "length ?c = rm_len r"
    using assms(1) length_st_read[of m hs] by (auto simp: rm_wf_def rm_contents_def)
  have fits: "0 + length ?c \<le> st_len m st" using assms(3) len by simp
  note wr = st_write_same[OF wf(1) assms(2) fits]
  obtain m' where m': "(st_drop (st_write m st 0 ?c) (rm_storage r) :: (memory, buf_error) result) = Ok m'"
    "mem_ok m' (hs - st_handles (rm_storage r))" "m_boxes m' = m_boxes (st_write m st 0 ?c)"
    "pool_mem (m_pool m') = pool_mem (m_pool (st_write m st 0 ?c))"
    "length (pool_ref_counts (m_pool m')) = length (pool_ref_counts (m_pool (st_write m st 0 ?c)))"
    using st_drop_ok[OF wr(1) wf(2), where 'e = buf_error] by blast
  note frame = st_frame[OF m'(3-5)]
  have "st_read m' st (rm_len r) = ?c"
    using st_read_write_append[OF wf(1) assms(2) fits] frame(3)[of st] len by simp
  moreover have "st_handles st \<subseteq># hs - st_handles (rm_storage r)"
    using assms(4) subset_mset.le_diff_conv2[OF wf(2)] by (simp add: add.commute)
  moreover have "rm_replace_storage m r st = Ok (r\<lparr>rm_storage := st\<rparr>, m')"
    using assms(3) m'(1) rm_deref_contents[OF assms(1), where 'e = buf_error]
    by (simp add: rm_replace_storage_def)
  ultimately show ?thesis
    using m'(2) frame(1,2) wr(2,3) assms(2,3) by (simp add: rm_wf_def rm_contents_def)
qed

lemma box_alloc_frame:
  assumes "box_alloc m n = (bs, m')" and "st_wf m st"
  shows "st_wf m' st \<and> st_len m' st = st_len m st \<and> st_read m' st k = st_read m st k"
  using assms by (cases st) (auto simp: box_alloc_def bs_box_def nth_append)

lemma box_alloc_wf:
  assumes "rm_wf m hs r" and "box_alloc m n = (bs, m')" and "n < 2 ^ 32"
  shows "rm_wf m' hs r \<and> rm_contents m' r = rm_contents m r \<and> st_wf m' (StBox bs) \<and>
    st_len m' (StBox bs) = n"
  using assms(1,3) box_alloc_frame[OF assms(2)] assms(2)
  by (auto simp: rm_wf_def rm_contents_def mem_ok_def) (auto simp: box_alloc_def bs_box_def)

text \<open>A move to a new box, as \<open>grow\<close> and \<open>reserve_at_least\<close> do it.\<close>

lemma rm_move_to_box:
  assumes "rm_wf m hs r" and "rm_len r \<le> n" and "n < 2 ^ 32"
  obtains bs m1 m' where "box_alloc m n = (bs, m1)"
    "rm_replace_storage m1 r (StBox bs) = Ok (r\<lparr>rm_storage := StBox bs\<rparr>, m')"
    "rm_wf m' (hs - st_handles (rm_storage r)) (r\<lparr>rm_storage := StBox bs\<rparr>)"
    "rm_contents m' (r\<lparr>rm_storage := StBox bs\<rparr>) = rm_contents m r"
    "st_len m' (StBox bs) = n"
proof -
  obtain bs m1 where al: "box_alloc m n = (bs, m1)" by fastforce
  have wf: "rm_wf m1 hs r" "rm_contents m1 r = rm_contents m r" "st_wf m1 (StBox bs)"
    "st_len m1 (StBox bs) = n"
    using box_alloc_wf[OF assms(1) al assms(3)] by auto
  have "rm_len r \<le> st_len m1 (StBox bs)" using wf(4) assms(2) by simp
  moreover have "st_handles (rm_storage r) + st_handles (StBox bs) \<subseteq># hs"
    using wf(1) by (simp add: rm_wf_def)
  ultimately show ?thesis
    using rm_replace_storage_ok[OF wf(1,3)] wf(2,4) al that by metis
qed

text \<open>A move to a fresh pool buffer, as \<open>compact\<close> does it.\<close>

lemma rm_move_to_buf:
  assumes "rm_wf m hs r" and "rm_len r \<le> BUF_SIZE" and "pool_free (m_pool m) \<noteq> []"
  obtains b p m' where "pool_alloc (m_pool m) = Ok (b, p)"
    "rm_replace_storage (m\<lparr>m_pool := p\<rparr>) r (StBuf b) = Ok (r\<lparr>rm_storage := StBuf b\<rparr>, m')"
    "rm_wf m' (add_mset (bm_index b) hs - st_handles (rm_storage r)) (r\<lparr>rm_storage := StBuf b\<rparr>)"
    "rm_contents m' (r\<lparr>rm_storage := StBuf b\<rparr>) = rm_contents m r"
    "bm_off b = 0" "bm_len b = BUF_SIZE"
proof -
  have ok: "pool_ok (m_pool m) hs" using assms(1) by (simp add: rm_wf_def mem_ok_def)
  obtain i free where "pool_free (m_pool m) = i # free" using assms(3) by (cases "pool_free (m_pool m)") auto
  then obtain p where p: "pool_alloc (m_pool m) = Ok (\<lparr>bm_index = i, bm_off = 0, bm_len = BUF_SIZE\<rparr>, p)"
    "pool_ok p (add_mset i hs)" "pool_mem p = pool_mem (m_pool m)"
    using pool_alloc_ok[OF ok] by blast
  let ?b = "\<lparr>bm_index = i, bm_off = 0, bm_len = BUF_SIZE\<rparr>" and ?m = "m\<lparr>m_pool := p\<rparr>"
  have len: "length (pool_ref_counts p) = length (pool_ref_counts (m_pool m))"
    using pool_alloc_Ok[OF ok p(1)] by simp
  note frame = st_frame[of ?m m, simplified, OF p(3) len]
  have "st_handles (rm_storage r) \<subseteq># hs" using assms(1) by (simp add: rm_wf_def)
  then have handles: "st_handles (rm_storage r) + st_handles (StBuf ?b) \<subseteq># add_mset i hs"
    "st_handles (rm_storage r) \<subseteq># add_mset i hs"
    using subset_mset.order_trans[of _ hs "add_mset i hs"] by simp_all
  have "rm_wf ?m (add_mset i hs) r"
    using assms(1) p(2) frame handles(2) by (simp add: rm_wf_def mem_ok_def)
  moreover have "rm_contents ?m r = rm_contents m r" using frame by (simp add: rm_contents_def)
  moreover have "st_wf ?m (StBuf ?b)" using p(2) by (auto simp: pool_ok_def)
  ultimately show ?thesis
    using rm_replace_storage_ok[of ?m "add_mset i hs" r "StBuf ?b"] assms(2) handles(1) p(1) that
    by fastforce
qed

section \<open>Making room\<close>

lemma rm_compact_ok:
  assumes "rm_wf m hs r" and "0 < st_off (rm_storage r)" and "rm_len r \<le> BUF_SIZE"
    and "pool_free (m_pool m) \<noteq> []"
  obtains b r' m' where "rm_compact m r = Ok (r', m')" "r' = r\<lparr>rm_storage := StBuf b\<rparr>"
    "rm_wf m' (add_mset (bm_index b) hs - st_handles (rm_storage r)) r'"
    "rm_contents m' r' = rm_contents m r" "rm_cap m' r' = BUF_SIZE - rm_len r"
proof -
  obtain b p m' where b: "pool_alloc (m_pool m) = Ok (b, p)"
    "rm_replace_storage (m\<lparr>m_pool := p\<rparr>) r (StBuf b) = Ok (r\<lparr>rm_storage := StBuf b\<rparr>, m')"
    "rm_wf m' (add_mset (bm_index b) hs - st_handles (rm_storage r)) (r\<lparr>rm_storage := StBuf b\<rparr>)"
    "rm_contents m' (r\<lparr>rm_storage := StBuf b\<rparr>) = rm_contents m r" "bm_len b = BUF_SIZE"
    using rm_move_to_buf[OF assms(1,3,4)] by metis
  have "rm_len r \<noteq> rm_storage_size m r"
    using assms(1,2) by (cases "rm_storage r") (auto simp: rm_wf_def rm_storage_size_def)
  then have "rm_compact m r = Ok (r\<lparr>rm_storage := StBuf b\<rparr>, m')"
    using b(1,2) assms(2,3) by (cases "rm_storage r") (auto simp: rm_compact_def)
  with b show ?thesis
    by (intro that[of "r\<lparr>rm_storage := StBuf b\<rparr>" m' b]) (simp_all add: rm_cap_def)
qed

text \<open>
  When the filled part is at most a pool buffer, or nothing has been taken from the storage yet,
  \<open>reserve_at_least\<close> makes the room it promises and keeps the filled bytes.
\<close>

definition can_reserve :: "memory \<Rightarrow> roll_mut \<Rightarrow> nat \<Rightarrow> bool" where
  "can_reserve m r n \<longleftrightarrow> pool_free (m_pool m) \<noteq> [] \<and>
     (st_off (rm_storage r) = 0 \<or> rm_len r \<le> BUF_SIZE) \<and>
     max (rm_storage_size m r * 2) (n + rm_len r) < 2 ^ 32"

lemma rm_reserve_at_least_ok:
  assumes "rm_wf m hs r" and "can_reserve m r n"
  shows "\<exists>r' m' hs'. rm_reserve_at_least m r n = Ok (r', m') \<and> rm_wf m' hs' r' \<and>
    rm_len r' = rm_len r \<and> rm_contents m' r' = rm_contents m r \<and> n \<le> rm_cap m' r'"
proof -
  let ?size = "max (rm_storage_size m r * 2) (n + rm_len r)"
  have c: "pool_free (m_pool m) \<noteq> []" "st_off (rm_storage r) = 0 \<or> rm_len r \<le> BUF_SIZE" "?size < 2 ^ 32"
    using assms(2) by (auto simp: can_reserve_def)
  have "rm_len r \<le> ?size" by simp
  then obtain bs m1 m2 where box: "box_alloc m ?size = (bs, m1)"
    "rm_replace_storage m1 r (StBox bs) = Ok (r\<lparr>rm_storage := StBox bs\<rparr>, m2)"
    "rm_wf m2 (hs - st_handles (rm_storage r)) (r\<lparr>rm_storage := StBox bs\<rparr>)"
    "rm_contents m2 (r\<lparr>rm_storage := StBox bs\<rparr>) = rm_contents m r"
    "st_len m2 (StBox bs) = ?size"
    using rm_move_to_box[OF assms(1) _ c(3)] by metis
  have boxcap: "n \<le> rm_cap m2 (r\<lparr>rm_storage := StBox bs\<rparr>)"
    using box(5) by (simp add: rm_cap_def)
  consider (enough) "n \<le> rm_cap m r"
    | (compact) "\<not> n \<le> rm_cap m r" "0 < st_off (rm_storage r)" "rm_len r \<le> BUF_SIZE"
        "n \<le> BUF_SIZE - rm_len r"
    | (box) "\<not> n \<le> rm_cap m r" "0 < st_off (rm_storage r)" "rm_len r \<le> BUF_SIZE"
        "\<not> n \<le> BUF_SIZE - rm_len r"
    | (box0) "\<not> n \<le> rm_cap m r" "st_off (rm_storage r) = 0"
    using c(2) by fastforce
  then show ?thesis
  proof cases
    case enough
    then show ?thesis using assms(1) by (auto simp: rm_reserve_at_least_def)
  next
    case compact
    obtain b r' m' where cp: "rm_compact m r = Ok (r', m')" "r' = r\<lparr>rm_storage := StBuf b\<rparr>"
      "rm_wf m' (add_mset (bm_index b) hs - st_handles (rm_storage r)) r'"
      "rm_contents m' r' = rm_contents m r" "rm_cap m' r' = BUF_SIZE - rm_len r"
      using rm_compact_ok[OF assms(1) compact(2,3) c(1)] by metis
    then have "rm_reserve_at_least m r n = Ok (r', m')"
      using compact by (simp add: rm_reserve_at_least_def sub_usize_def)
    with cp compact(4) show ?thesis by auto
  next
    case box
    then have "rm_reserve_at_least m r n = Ok (r\<lparr>rm_storage := StBox bs\<rparr>, m2)"
      using \<open>box_alloc m ?size = (bs, m1)\<close> \<open>rm_replace_storage m1 r (StBox bs) = _\<close> boxcap
      by (simp add: rm_reserve_at_least_def sub_usize_def)
    then show ?thesis using boxcap \<open>rm_wf m2 _ _\<close> \<open>rm_contents m2 _ = _\<close> by auto
  next
    case box0
    then have "rm_reserve_at_least m r n = Ok (r\<lparr>rm_storage := StBox bs\<rparr>, m2)"
      using \<open>box_alloc m ?size = (bs, m1)\<close> \<open>rm_replace_storage m1 r (StBox bs) = _\<close> boxcap
      by (simp add: rm_reserve_at_least_def)
    then show ?thesis using boxcap \<open>rm_wf m2 _ _\<close> \<open>rm_contents m2 _ = _\<close> by auto
  qed
qed

text \<open>Writing to a \<open>RollMut\<close> through \<open>std::io::Write\<close> appends all the bytes to the filled part:
  \<open>write\<close> makes room when there is none, by moving to another storage, keeps what was filled, and
  reports the full length.\<close>

lemma rm_write_appends:
  assumes "rm_wf m hs r" and "can_reserve m r (length s)"
  shows "\<exists>r' m' hs'. rm_write m r s = (Ok (length s), r', m') \<and> rm_wf m' hs' r' \<and>
    rm_contents m' r' = rm_contents m r @ s"
proof -
  obtain r1 m1 hs1 where r1: "(if rm_cap m r < length s then rm_reserve_at_least m r (length s)
      else Ok (r, m)) = Ok (r1, m1)"
    "rm_wf m1 hs1 r1" "rm_contents m1 r1 = rm_contents m r" "length s \<le> rm_cap m1 r1"
    using rm_reserve_at_least_ok[OF assms] assms(1)
    by (cases "rm_cap m r < length s") auto
  have "st_len m1 (rm_storage r1) < 2 ^ 32"
    using r1(2) st_len_bound by (simp add: rm_wf_def)
  from rm_put_ok[OF r1(2,4) this] r1(1,3) show ?thesis
    by (auto simp: rm_write_def Let_def)
qed

section \<open>Views\<close>

fun st_view :: "storage_mut \<Rightarrow> nat \<Rightarrow> nat \<Rightarrow> roll" where
  "st_view (StBuf b) k n = RollBuf \<lparr>b_index = bm_index b, b_off = bm_off b + k, b_len = n\<rparr>"
| "st_view (StBox b) k n = RollBox (b\<lparr>bs_off := bs_off b + k\<rparr>) n"

lemma filled_unchecked_len_view:
  assumes "st_wf m st" and "n \<le> st_len m st"
  shows "filled_unchecked_len st n = (Ok (st_view st 0 n) :: (roll, 'e) result)"
  using assms
  by (cases st)
    (auto simp: bm_freeze_slice_def b_slice_def Let_def add_u16_def as_u16_def BUF_SIZE_def)

lemma roll_slice_view:
  assumes "st_wf m st" and "n \<le> st_len m st" and "i \<le> n"
  shows "roll_slice (st_view st 0 n) (Unbounded, Excluded i) = (Ok (st_view st 0 i) :: (roll, 'e) result)"
  using assms
  by (cases st)
    (auto simp: b_slice_def Let_def add_u16_def as_u16_def BUF_SIZE_def roll_box_slice_def
      add_u32_def as_u32_def)

lemma roll_deref_view:
  assumes "st_wf m st" and "n \<le> st_len m st"
  shows "roll_deref m (st_view st 0 n) = (Ok (st_read m st n) :: (bytes, 'e) result)"
  using assms by (cases st) (auto simp: b_deref_def bs_box_def)

lemma roll_len_view [simp]: "roll_len (st_view st k n) = n"
  by (cases st) simp_all

text \<open>Skipping moves the start of the storage.\<close>

fun st_skip :: "storage_mut \<Rightarrow> nat \<Rightarrow> storage_mut" where
  "st_skip (StBuf b) n = StBuf (b\<lparr>bm_off := bm_off b + n, bm_len := bm_len b - n\<rparr>)"
| "st_skip (StBox b) n = StBox (b\<lparr>bs_off := bs_off b + n\<rparr>)"

lemma storage_skip_unchecked_eq:
  assumes "st_wf m st" and "n \<le> st_len m st"
  shows "storage_skip_unchecked st n = (Ok (st_skip st n) :: (storage_mut, 'e) result)"
  using assms by (cases st) (auto simp: bm_skip_def add_u16_def add_u32_def BUF_SIZE_def)

lemma st_skip_same:
  assumes "st_wf m st" and "n \<le> st_len m st"
  shows "st_wf m (st_skip st n)" and "st_len m (st_skip st n) = st_len m st - n"
    and "st_handles (st_skip st n) = st_handles st"
    and "st_read m (st_skip st n) k = drop n (st_read m st (n + k))"
  using assms
  by (cases st; auto simp: bs_box_def base_ptr_with_offset_def drop_take ac_simps)+

lemma rm_skip_ok:
  assumes "rm_wf m hs r" and "n \<le> rm_len r"
  shows "\<exists>r'. (rm_skip r n :: (roll_mut, 'e) result) = Ok r' \<and> rm_wf m hs r' \<and>
    rm_contents m r' = drop n (rm_contents m r) \<and>
    r' = \<lparr>rm_storage = st_skip (rm_storage r) n, rm_len = rm_len r - n\<rparr>"
proof -
  have wf: "st_wf m (rm_storage r)" "n \<le> st_len m (rm_storage r)"
    using assms by (auto simp: rm_wf_def)
  have "n < 2 ^ 32" using wf st_len_bound[OF wf(1)] by simp
  then have "(rm_skip r n :: (roll_mut, 'e) result) =
      Ok \<lparr>rm_storage = st_skip (rm_storage r) n, rm_len = rm_len r - n\<rparr>"
    using assms(2) storage_skip_unchecked_eq[OF wf, where 'e = 'e]
    by (simp add: rm_skip_def try_u32_def)
  then show ?thesis
    using st_skip_same[OF wf] assms by (simp add: rm_wf_def rm_contents_def diff_le_mono)
qed

section \<open>Taking\<close>

lemma rm_take_at_most_ok:
  assumes "rm_wf m hs r" and "0 < n" and "0 < rm_len r"
  shows "\<exists>r'. (rm_take_at_most r n :: (_, 'e) result) =
      Ok (Some (st_view (rm_storage r) 0 (min n (rm_len r))), r') \<and>
    r' = \<lparr>rm_storage = st_skip (rm_storage r) (min n (rm_len r)), rm_len = rm_len r - min n (rm_len r)\<rparr> \<and>
    rm_wf m hs r' \<and>
    roll_deref m (st_view (rm_storage r) 0 (min n (rm_len r))) =
      (Ok (take n (rm_contents m r)) :: (bytes, 'e) result) \<and>
    rm_contents m r' = drop n (rm_contents m r)"
proof -
  let ?n = "min n (rm_len r)"
  have wf: "mem_ok m hs" "st_wf m (rm_storage r)" "rm_len r \<le> st_len m (rm_storage r)"
    using assms(1) by (auto simp: rm_wf_def)
  obtain r' where r': "(rm_skip r ?n :: (roll_mut, 'e) result) = Ok r'" "rm_wf m hs r'"
    "rm_contents m r' = drop ?n (rm_contents m r)"
    "r' = \<lparr>rm_storage = st_skip (rm_storage r) ?n, rm_len = rm_len r - ?n\<rparr>"
    using rm_skip_ok[OF assms(1), of ?n, where 'e = 'e] by auto
  have "(rm_take_at_most r n :: (_, 'e) result) = Ok (Some (st_view (rm_storage r) 0 ?n), r')"
    using assms(2,3) filled_unchecked_len_view[OF wf(2,3), where 'e = 'e]
      roll_slice_view[OF wf(2,3), of ?n, where 'e = 'e] r'(1)
    by (simp add: rm_take_at_most_def rm_filled_def Let_def)
  moreover have "length (rm_contents m r) = rm_len r"
    using length_st_read[OF wf] by (simp add: rm_contents_def)
  moreover have "st_read m (rm_storage r) ?n = take ?n (rm_contents m r)"
    by (cases "rm_storage r") (simp_all add: rm_contents_def min.absorb1 min.commute)
  moreover have "roll_deref m (st_view (rm_storage r) 0 ?n) =
      (Ok (st_read m (rm_storage r) ?n) :: (bytes, 'e) result)"
    using wf by (intro roll_deref_view) auto
  ultimately show ?thesis
    using r' by (cases "n \<le> rm_len r") (auto simp: min_def)
qed

section \<open>Views never change\<close>

text \<open>
  A view of the same buffer ends at or before the end of the filled part; every write goes behind
  it.
\<close>

fun roll_wf :: "memory \<Rightarrow> roll \<Rightarrow> bool" where
  "roll_wf m (RollBuf b) \<longleftrightarrow> b_off b + b_len b \<le> BUF_SIZE"
| "roll_wf m (RollBox b len) \<longleftrightarrow> bs_buf b < length (m_boxes m) \<and> bs_off b + len \<le> length (bs_box m b)"
| "roll_wf m RollEmpty \<longleftrightarrow> True"

fun roll_below :: "roll_mut \<Rightarrow> roll \<Rightarrow> bool" where
  "roll_below r (RollBuf b) \<longleftrightarrow>
     (case rm_storage r of
        StBuf ours \<Rightarrow> b_index b \<noteq> bm_index ours \<or> b_off b + b_len b \<le> bm_off ours + rm_len r
      | StBox ours \<Rightarrow> True)"
| "roll_below r (RollBox b len) \<longleftrightarrow>
     (case rm_storage r of
        StBuf ours \<Rightarrow> True
      | StBox ours \<Rightarrow> bs_buf b \<noteq> bs_buf ours \<or> bs_off b + len \<le> bs_off ours + rm_len r)"
| "roll_below r RollEmpty \<longleftrightarrow> True"

lemma buf_regions_disjoint:
  assumes "i \<noteq> j" and "off + len \<le> BUF_SIZE" and "off' + len' \<le> BUF_SIZE"
  shows "base_ptr_with_offset i off + len \<le> base_ptr_with_offset j off' \<or>
    base_ptr_with_offset j off' + len' \<le> base_ptr_with_offset i off"
proof -
  have "Suc i * BUF_SIZE \<le> j * BUF_SIZE \<or> Suc j * BUF_SIZE \<le> i * BUF_SIZE"
    using assms(1) by (metis Suc_leI linorder_neqE_nat mult_le_mono1)
  then show ?thesis using assms(2,3) by (auto simp: base_ptr_with_offset_def)
qed

lemma buf_write_keeps_view:
  assumes "rm_wf m hs r" and "rm_storage r = StBuf ours"
    and "rm_len r + length s \<le> bm_len ours" and "roll_wf m roll" and "roll_below r roll"
  shows "roll_deref (st_write m (StBuf ours) (rm_len r) s) roll = (roll_deref m roll :: (bytes, 'e) result)"
proof (cases roll)
  case (RollBuf b)
  let ?a = "base_ptr_with_offset (bm_index ours) (bm_off ours)"
  let ?c = "base_ptr_with_offset (b_index b) (b_off b)"
  have wf: "mem_ok m hs" "st_wf m (StBuf ours)" using assms(1,2) by (auto simp: rm_wf_def)
  have reg: "?a + rm_len r + length s \<le> length (pool_mem (m_pool m))"
    using buf_region[OF wf] assms(3) by simp
  have "?c + b_len b \<le> ?a + rm_len r \<or> ?a + rm_len r + length s \<le> ?c"
  proof (cases "b_index b = bm_index ours")
    case True
    then show ?thesis using assms(2,5) RollBuf by (simp add: base_ptr_with_offset_def)
  next
    case False
    have "bm_off ours + (rm_len r + length s) \<le> BUF_SIZE" using wf(2) assms(3) by simp
    then show ?thesis
      using buf_regions_disjoint[OF False, of "b_off b" "b_len b" "bm_off ours"] assms(4) RollBuf
      by fastforce
  qed
  then have "take (b_len b) (drop ?c (overwrite (pool_mem (m_pool m)) (?a + rm_len r) s)) =
      take (b_len b) (drop ?c (pool_mem (m_pool m)))"
    using reg take_drop_overwrite_before take_drop_overwrite_after by blast
  then show ?thesis using RollBuf by (simp add: b_deref_def)
qed (simp_all add: bs_box_def)

lemma box_write_keeps_view:
  assumes "rm_wf m hs r" and "rm_storage r = StBox ours"
    and "rm_len r + length s \<le> st_len m (StBox ours)" and "roll_wf m roll" and "roll_below r roll"
  shows "roll_deref (st_write m (StBox ours) (rm_len r) s) roll = (roll_deref m roll :: (bytes, 'e) result)"
proof (cases roll)
  case (RollBox b len)
  have fits: "bs_off ours + rm_len r + length s \<le> length (bs_box m ours)"
    using assms(1-3) by (auto simp: rm_wf_def)
  show ?thesis
  proof (cases "bs_buf b = bs_buf ours")
    case True
    then show ?thesis
      using RollBox assms(2,4,5) fits take_drop_overwrite_before[OF _ fits, of "bs_off b" len]
      by (simp add: bs_box_def)
  next
    case False
    then show ?thesis using RollBox by (simp add: bs_box_def)
  qed
qed (simp_all add: b_deref_def)

lemma st_write_keeps_view:
  assumes "rm_wf m hs r" and "rm_len r + length s \<le> st_len m (rm_storage r)"
    and "roll_wf m roll" and "roll_below r roll"
  shows "roll_deref (st_write m (rm_storage r) (rm_len r) s) roll = (roll_deref m roll :: (bytes, 'e) result)"
    and "roll_wf (st_write m (rm_storage r) (rm_len r) s) roll"
proof -
  show "roll_deref (st_write m (rm_storage r) (rm_len r) s) roll = (roll_deref m roll :: (bytes, 'e) result)"
    using assms buf_write_keeps_view box_write_keeps_view by (cases "rm_storage r") fastforce+
  have wf: "mem_ok m hs" "st_wf m (rm_storage r)" using assms(1) by (auto simp: rm_wf_def)
  have "st_len (st_write m (rm_storage r) (rm_len r) s) (StBox \<lparr>bs_buf = i, bs_off = 0\<rparr>) =
      st_len m (StBox \<lparr>bs_buf = i, bs_off = 0\<rparr>)" for i
    using st_write_same(3)[OF wf assms(2)] .
  then show "roll_wf (st_write m (rm_storage r) (rm_len r) s) roll"
    using assms(3) by (cases roll; cases "rm_storage r") (auto simp: bs_box_def)
qed

lemma roll_below_skip: "roll_below r roll \<Longrightarrow> n \<le> rm_len r \<Longrightarrow>
    roll_below \<lparr>rm_storage = st_skip (rm_storage r) n, rm_len = rm_len r - n\<rparr> roll"
  by (cases roll; cases "rm_storage r") auto

lemma roll_below_put: "roll_below r roll \<Longrightarrow> roll_below (r\<lparr>rm_len := rm_len r + n\<rparr>) roll"
  by (cases roll; cases "rm_storage r") auto

lemma roll_below_view:
  "n \<le> rm_len r \<Longrightarrow>
   roll_below \<lparr>rm_storage = st_skip (rm_storage r) n, rm_len = rm_len r - n\<rparr> (st_view (rm_storage r) 0 n)"
  by (cases "rm_storage r") auto

lemma roll_wf_view: "st_wf m st \<Longrightarrow> n \<le> st_len m st \<Longrightarrow> roll_wf m (st_view st 0 n)"
  by (cases st) (auto simp: bs_box_def)

section \<open>A RollMut is a byte queue\<close>

datatype roll_op = Put bytes | TakeAtMost nat

fun run_roll_ops ::
    "roll_op list \<Rightarrow> memory \<Rightarrow> roll_mut \<Rightarrow> (roll list \<times> roll_mut \<times> memory, buf_error) result" where
  "run_roll_ops [] m r = Ok ([], r, m)"
| "run_roll_ops (Put s # ops) m r = and_then (rm_put m r s) (\<lambda>(r, m). run_roll_ops ops m r)"
| "run_roll_ops (TakeAtMost n # ops) m r =
     and_then (rm_take_at_most r n) (\<lambda>(taken, r).
     and_then (run_roll_ops ops m r) (\<lambda>(rolls, r, m).
       Ok (case taken of None \<Rightarrow> rolls | Some roll \<Rightarrow> roll # rolls, r, m)))"

fun put_bytes :: "roll_op \<Rightarrow> bytes" where
  "put_bytes (Put s) = s"
| "put_bytes (TakeAtMost n) = []"

fun roll_op_ok :: "roll_op \<Rightarrow> bool" where
  "roll_op_ok (Put s) = True"
| "roll_op_ok (TakeAtMost n) = (0 < n)"

text \<open>What a run leaves: old views untouched, and the bytes taken and left are those put.\<close>

definition queue_post ::
    "memory \<Rightarrow> roll_mut \<Rightarrow> roll_op list \<Rightarrow> roll list \<Rightarrow> roll_mut \<Rightarrow> memory \<Rightarrow> bool" where
  "queue_post m r ops rolls r' m' \<longleftrightarrow>
     (\<forall>roll. roll_wf m roll \<and> roll_below r roll \<longrightarrow>
        roll_deref m' roll = (roll_deref m roll :: (bytes, buf_error) result)) \<and>
     (\<exists>cs. map (roll_deref m') rolls = map (Ok :: _ \<Rightarrow> (bytes, buf_error) result) cs \<and>
        concat cs @ rm_contents m' r' = rm_contents m r @ concat (map put_bytes ops))"

lemma queue_post_put:
  assumes "rm_wf m hs r" and "length s \<le> rm_cap m r"
    and "queue_post (st_write m (rm_storage r) (rm_len r) s) (r\<lparr>rm_len := rm_len r + length s\<rparr>) ops rolls r' m'"
  shows "queue_post m r (Put s # ops) rolls r' m'"
proof -
  have fits: "rm_len r + length s \<le> st_len m (rm_storage r)"
    using assms(1,2) by (auto simp: rm_wf_def rm_cap_def)
  have "rm_contents (st_write m (rm_storage r) (rm_len r) s) (r\<lparr>rm_len := rm_len r + length s\<rparr>) =
      rm_contents m r @ s"
    using st_read_write_append[OF _ _ fits, of hs] assms(1) by (simp add: rm_wf_def rm_contents_def)
  then show ?thesis
    using assms(3) st_write_keeps_view(1)[OF assms(1) fits, where 'e = buf_error]
      st_write_keeps_view(2)[OF assms(1) fits] roll_below_put
    unfolding queue_post_def by simp
qed

lemma queue_post_take:
  assumes "rm_wf m hs r" and "k \<le> rm_len r"
    and "queue_post m \<lparr>rm_storage = st_skip (rm_storage r) k, rm_len = rm_len r - k\<rparr> ops rolls r' m'"
    and "rm_contents m \<lparr>rm_storage = st_skip (rm_storage r) k, rm_len = rm_len r - k\<rparr> =
      drop n (rm_contents m r)"
    and "roll_deref m (st_view (rm_storage r) 0 k) = (Ok (take n (rm_contents m r)) :: (bytes, buf_error) result)"
  shows "queue_post m r (TakeAtMost n # ops) (st_view (rm_storage r) 0 k # rolls) r' m'"
proof -
  let ?v = "st_view (rm_storage r) 0 k"
  have "roll_wf m ?v" using assms(1,2) by (intro roll_wf_view) (auto simp: rm_wf_def)
  moreover have "roll_below \<lparr>rm_storage = st_skip (rm_storage r) k, rm_len = rm_len r - k\<rparr> ?v"
    using assms(2) by (rule roll_below_view)
  ultimately have "roll_deref m' ?v = (Ok (take n (rm_contents m r)) :: (bytes, buf_error) result)"
    using assms(3,5) unfolding queue_post_def by simp
  moreover obtain cs where
    "map (roll_deref m') rolls = map (Ok :: _ \<Rightarrow> (bytes, buf_error) result) cs"
    "concat cs @ rm_contents m' r' = drop n (rm_contents m r) @ concat (map put_bytes ops)"
    using assms(3,4) unfolding queue_post_def by auto
  ultimately have "map (roll_deref m') (?v # rolls) =
      map (Ok :: _ \<Rightarrow> (bytes, buf_error) result) (take n (rm_contents m r) # cs)"
    "concat (take n (rm_contents m r) # cs) @ rm_contents m' r' =
      rm_contents m r @ concat (map put_bytes (TakeAtMost n # ops))"
    by simp_all
  then show ?thesis
    using assms(2,3) roll_below_skip unfolding queue_post_def by blast
qed

lemma run_roll_ops_queue:
  "rm_wf m hs r \<Longrightarrow> list_all roll_op_ok ops \<Longrightarrow>
   case run_roll_ops ops m r of
     Ok (rolls, r', m') \<Rightarrow> queue_post m r ops rolls r' m'
   | Err e \<Rightarrow> e = DoesNotFit
   | Panic \<Rightarrow> False"
proof (induction ops m r rule: run_roll_ops.induct)
  case (1 m r)
  then show ?case by (simp add: queue_post_def)
next
  case (2 s ops m r)
  show ?case
  proof (cases "length s \<le> rm_cap m r")
    case True
    have "st_len m (rm_storage r) < 2 ^ 32" using "2.prems"(1) st_len_bound by (simp add: rm_wf_def)
    from rm_put_ok[OF "2.prems"(1) True this] obtain m1 where
      put: "rm_put m r s = Ok (r\<lparr>rm_len := rm_len r + length s\<rparr>, m1)"
      "m1 = st_write m (rm_storage r) (rm_len r) s" "rm_wf m1 hs (r\<lparr>rm_len := rm_len r + length s\<rparr>)"
      by blast
    show ?thesis
      using "2.IH"[OF put(3)] "2.prems"(2) queue_post_put[OF "2.prems"(1) True] put(1,2)
      by (auto split: result.splits)
  next
    case False
    then show ?thesis by (simp add: rm_put_def)
  qed
next
  case (3 n ops m r)
  have n: "0 < n" using "3.prems"(2) by simp
  show ?case
  proof (cases "rm_len r = 0")
    case True
    then have "rm_take_at_most r n = (Ok (None, r) :: (_, buf_error) result)"
      using n by (simp add: rm_take_at_most_def)
    then show ?thesis
      using "3.IH"[OF "3.prems"(1)] "3.prems"(2) by (auto simp: queue_post_def split: result.splits)
  next
    case False
    let ?k = "min n (rm_len r)"
    obtain r1 where t: "rm_take_at_most r n =
        (Ok (Some (st_view (rm_storage r) 0 ?k), r1) :: (_, buf_error) result)"
      "r1 = \<lparr>rm_storage = st_skip (rm_storage r) ?k, rm_len = rm_len r - ?k\<rparr>" "rm_wf m hs r1"
      "roll_deref m (st_view (rm_storage r) 0 ?k) = (Ok (take n (rm_contents m r)) :: (bytes, buf_error) result)"
      "rm_contents m r1 = drop n (rm_contents m r)"
      using rm_take_at_most_ok[OF "3.prems"(1) n, where 'e = buf_error] False by auto
    show ?thesis
      using "3.IH"[OF t(3)] "3.prems"(2) queue_post_take[OF "3.prems"(1), of ?k ops _ _ _ n] t
      by (auto split: result.splits)
  qed
qed

text \<open>C18: a \<open>RollMut\<close> is a byte queue whose taken parts are stable: after any sequence of \<open>put\<close> and
  \<open>take_at_most\<close>, the rolls taken, read in the final memory, followed by the bytes still filled, are
  exactly the initial bytes followed by all the bytes put, although the rolls share the memory that
  later puts write to. The only failure is \<open>DoesNotFit\<close>.\<close>

theorem roll_mut_queue:
  assumes "rm_wf m hs r" and "list_all roll_op_ok ops"
  shows "case run_roll_ops ops m r of
     Ok (rolls, r', m') \<Rightarrow>
       (\<exists>cs. map (roll_deref m') rolls = map (Ok :: _ \<Rightarrow> (bytes, buf_error) result) cs \<and>
          concat cs @ rm_contents m' r' = rm_contents m r @ concat (map put_bytes ops))
   | Err e \<Rightarrow> e = DoesNotFit
   | Panic \<Rightarrow> False"
  using run_roll_ops_queue[OF assms] by (auto simp: queue_post_def split: result.splits)

section \<open>A concrete buffer\<close>

text \<open>A buffer of a pool of two, and a full box behind an offset.\<close>

definition two_bufs :: pool where
  "two_bufs = \<lparr>pool_free = [1], pool_ref_counts = [1, 0], pool_mem = replicate (2 * BUF_SIZE) 0\<rparr>"

definition demo_memory :: memory where
  "demo_memory = \<lparr>m_pool = two_bufs, m_boxes = [replicate (2 * BUF_SIZE) 7]\<rparr>"

definition demo_roll :: roll_mut where
  "demo_roll = \<lparr>rm_storage = StBuf \<lparr>bm_index = 0, bm_off = 0, bm_len = BUF_SIZE\<rparr>, rm_len = 0\<rparr>"

definition demo_box :: "nat \<Rightarrow> nat \<Rightarrow> roll_mut" where
  "demo_box off len = \<lparr>rm_storage = StBox \<lparr>bs_buf = 0, bs_off = off\<rparr>, rm_len = len\<rparr>"

lemma two_bufs_ok: "pool_ok two_bufs {#0#}"
  by (auto simp: pool_ok_def two_bufs_def less_Suc_eq)

lemma demo_roll_wf: "rm_wf demo_memory {#0#} demo_roll"
  using two_bufs_ok
  by (simp add: rm_wf_def mem_ok_def demo_memory_def demo_roll_def) (simp add: two_bufs_def)

lemma demo_box_wf: "off + len \<le> 2 * BUF_SIZE \<Longrightarrow> rm_wf demo_memory {#0#} (demo_box off len)"
  using two_bufs_ok
  by (simp add: rm_wf_def mem_ok_def demo_memory_def demo_box_def bs_box_def BUF_SIZE_def)

lemma demo_free: "pool_free (m_pool demo_memory) \<noteq> []"
  by (simp add: demo_memory_def two_bufs_def)

lemma demo_contents: "rm_contents demo_memory demo_roll = []"
  by (simp add: rm_contents_def demo_roll_def)

lemma rm_write_appends_witness:
  "\<exists>r' m'. rm_write demo_memory demo_roll [1, 2, 3] = (Ok 3, r', m') \<and> rm_contents m' r' = [1, 2, 3]"
proof -
  have "can_reserve demo_memory demo_roll (length [1, 2, 3 :: u8])"
    using demo_free
    by (simp add: can_reserve_def demo_roll_def rm_storage_size_def BUF_SIZE_def)
  from rm_write_appends[OF demo_roll_wf this] show ?thesis by (auto simp: demo_contents)
qed

theorem roll_mut_queue_witness:
  "case run_roll_ops [Put [1, 2, 3], TakeAtMost 2, Put [4]] demo_memory demo_roll of
     Ok (rolls, r', m') \<Rightarrow>
       (\<exists>cs. map (roll_deref m') rolls = map (Ok :: _ \<Rightarrow> (bytes, buf_error) result) cs \<and>
          concat cs @ rm_contents m' r' = [1, 2, 3, 4])
   | Err e \<Rightarrow> e = DoesNotFit
   | Panic \<Rightarrow> False"
proof -
  let ?ops = "[Put [1, 2, 3], TakeAtMost 2, Put [4]]"
  have "rm_contents demo_memory demo_roll @ concat (map put_bytes ?ops) = [1, 2, 3, 4]"
    by (simp add: demo_contents)
  moreover have "list_all roll_op_ok ?ops" by simp
  from roll_mut_queue[OF demo_roll_wf this]
  have "case run_roll_ops ?ops demo_memory demo_roll of
     Ok (rolls, r', m') \<Rightarrow>
       (\<exists>cs. map (roll_deref m') rolls = map (Ok :: _ \<Rightarrow> (bytes, buf_error) result) cs \<and>
          concat cs @ rm_contents m' r' =
            rm_contents demo_memory demo_roll @ concat (map put_bytes ?ops))
   | Err e \<Rightarrow> e = DoesNotFit
   | Panic \<Rightarrow> False" .
  ultimately show ?thesis by (simp only:)
qed

section \<open>Filling a roll with a closure\<close>

lemma put_to_roll_ok:
  assumes "rm_wf m hs r" and "rm_len r = 0" and "can_reserve m r n" and "n < 2 ^ 32"
    and "\<And>slice. length slice = n \<Longrightarrow> length (snd (f slice)) = n"
  shows "\<exists>slice r' m' hs'. length slice = n \<and> rm_wf m' hs' r' \<and> rm_len r' = 0 \<and>
    (case fst (f slice) of
       Ok _ \<Rightarrow> \<exists>roll. rm_put_to_roll m r n f = (Ok roll, r', m') \<and>
         roll_deref m' roll = (Ok (snd (f slice)) :: (bytes, buf_error) result)
     | Err e \<Rightarrow> rm_put_to_roll m r n f = (Err e, r', m')
     | Panic \<Rightarrow> rm_put_to_roll m r n f = (Panic, r', m'))"
proof -
  obtain r1 m1 hs1 where r1: "rm_reserve_at_least m r n = Ok (r1, m1)" "rm_wf m1 hs1 r1"
    "rm_len r1 = 0" "n \<le> rm_cap m1 r1"
    using rm_reserve_at_least_ok[OF assms(1,3)] assms(2) by auto
  let ?st = "rm_storage r1"
  define slice where "slice = st_read m1 ?st n"
  define m2 where "m2 = st_write m1 ?st 0 (snd (f slice))"
  have wf: "mem_ok m1 hs1" "st_wf m1 ?st" "n \<le> st_len m1 ?st"
    using r1(2-4) by (auto simp: rm_wf_def rm_cap_def)
  have slice: "length slice = n" unfolding slice_def using length_st_read[OF wf] .
  then have len: "length (snd (f slice)) = n" by (rule assms(5))
  then have fits: "0 + length (snd (f slice)) \<le> st_len m1 ?st" using wf(3) by simp
  note wr = st_write_same[OF wf(1,2) fits, folded m2_def]
  have read: "st_read m2 ?st n = snd (f slice)"
    using st_read_write_append[OF wf(1,2) fits] len by (simp add: m2_def)
  have wf2: "st_wf m2 ?st" "n \<le> st_len m2 ?st" using wr wf by simp_all
  have r2: "rm_wf m2 hs1 r1" using wr r1(2) by (simp add: rm_wf_def)
  have r3: "rm_wf m2 hs1 (r1\<lparr>rm_storage := st_skip ?st n\<rparr>)"
    using st_skip_same[OF wf2] r2 r1(3) by (simp add: rm_wf_def)
  have run: "rm_put_to_roll m r n f =
      (case fst (f slice) of
         Ok _ \<Rightarrow> (Ok (st_view ?st 0 n), r1\<lparr>rm_storage := st_skip ?st n\<rparr>, m2)
       | Err e \<Rightarrow> (Err e, r1, m2)
       | Panic \<Rightarrow> (Panic, r1, m2))"
    using assms(4) r1(1,3) filled_unchecked_len_view[OF wf2, where 'e = buf_error]
      storage_skip_unchecked_eq[OF wf2, where 'e = buf_error]
    by (cases "f slice")
      (auto simp: rm_put_to_roll_def Let_def slice_def[symmetric] m2_def split: result.splits)
  show ?thesis
  proof (cases "fst (f slice)")
    case (Ok v)
    then show ?thesis
      using run slice r3 r1(3) read roll_deref_view[OF wf2, where 'e = buf_error]
      by (intro exI[of _ slice] exI[of _ "r1\<lparr>rm_storage := st_skip ?st n\<rparr>"] exI[of _ m2] exI[of _ hs1])
        simp
  qed (use run slice r2 r1(3) in
        \<open>(intro exI[of _ slice] exI[of _ r1] exI[of _ m2] exI[of _ hs1]; simp)+\<close>)
qed

text \<open>\<open>put_to_roll\<close> on an empty buffer hands the closure a slice of the requested length; when the
  closure succeeds, the roll returned holds exactly the bytes the closure left in the slice and the
  buffer is empty again; when it fails, its error is returned and the buffer is still empty.\<close>

lemma put_to_roll_filled:
  assumes "rm_wf m hs r" and "rm_len r = 0" and "can_reserve m r n" and "n < 2 ^ 32"
    and "\<And>slice. length slice = n \<Longrightarrow> length (snd (f slice)) = n"
  shows "\<exists>slice r' m' hs'. length slice = n \<and> rm_wf m' hs' r' \<and> rm_len r' = 0 \<and>
    (case fst (f slice) of
       Ok _ \<Rightarrow> \<exists>roll. rm_put_to_roll m r n f = (Ok roll, r', m') \<and>
         roll_deref m' roll = (Ok (snd (f slice)) :: (bytes, buf_error) result)
     | Err e \<Rightarrow> rm_put_to_roll m r n f = (Err e, r', m')
     | Panic \<Rightarrow> rm_put_to_roll m r n f = (Panic, r', m'))"
  using put_to_roll_ok[OF assms] .

lemma put_to_roll_filled_witness:
  "\<exists>slice r' m'. length slice = 2 \<and>
     (\<exists>roll. rm_put_to_roll demo_memory demo_roll 2 (\<lambda>slice. (Ok (), [8, 9])) = (Ok roll, r', m') \<and>
       roll_deref m' roll = (Ok [8, 9] :: (bytes, buf_error) result)) \<and> length (slice :: bytes) = 2"
proof -
  have "can_reserve demo_memory demo_roll 2"
    using demo_free by (simp add: can_reserve_def demo_roll_def rm_storage_size_def BUF_SIZE_def)
  moreover have "rm_len demo_roll = 0" by (simp add: demo_roll_def)
  ultimately show ?thesis
    using put_to_roll_filled[OF demo_roll_wf, of 2 "\<lambda>slice. (Ok (), [8, 9])"] by auto
qed

section \<open>Two calls that do not make room\<close>

text \<open>\<open>reserve\<close> can return \<open>Ok\<close> without having reserved anything: a full box of which exactly a
  pool buffer's worth is filled, behind an offset, is compacted into a pool buffer that is full
  again. The next \<open>read_into\<close> then refuses an empty read.\<close>

lemma reserve_without_room:
  assumes "rm_wf m hs r" and "rm_cap m r = 0" and "rm_len r = BUF_SIZE"
    and "0 < st_off (rm_storage r)" and "pool_free (m_pool m) \<noteq> []"
  shows "\<exists>r' m'. rm_reserve m r = Ok (r', m') \<and> rm_cap m' r' = 0"
proof -
  obtain r' m' where "rm_compact m r = Ok (r', m')" "rm_cap m' r' = BUF_SIZE - rm_len r"
    using rm_compact_ok[OF assms(1,4) _ assms(5)] assms(3) by (metis order_refl)
  then show ?thesis using assms(2-4) by (simp add: rm_reserve_def)
qed

lemma reserve_without_room_witness:
  "\<exists>r' m'. rm_reserve demo_memory (demo_box BUF_SIZE BUF_SIZE) = Ok (r', m') \<and> rm_cap m' r' = 0"
proof (rule reserve_without_room[OF demo_box_wf _ _ _ demo_free])
  show "rm_cap demo_memory (demo_box BUF_SIZE BUF_SIZE) = 0"
    by (simp add: rm_cap_def demo_box_def demo_memory_def bs_box_def)
qed (simp_all add: demo_box_def BUF_SIZE_def)

text \<open>\<open>reserve_at_least\<close> panics on an underflow of \<open>BUF_SIZE - len\<close> when it has to make room in
  a buffer whose filled part is larger than a pool buffer and from which something was taken.\<close>

lemma reserve_at_least_underflow:
  assumes "rm_cap m r < n" and "0 < st_off (rm_storage r)" and "BUF_SIZE < rm_len r"
  shows "rm_reserve_at_least m r n = Panic"
  using assms by (simp add: rm_reserve_at_least_def sub_usize_def)

theorem reserve_at_least_underflow_witness:
  "rm_reserve_at_least demo_memory (demo_box 1 8191) 1 = Panic"
  by (rule reserve_at_least_underflow)
    (simp_all add: rm_cap_def demo_box_def demo_memory_def bs_box_def BUF_SIZE_def)

end
