(* ===== verification/Buffet_Input.thy ===== *)
theory Buffet_Input
  imports Buffet_Roll "HOL-Library.Sublist"
begin

text \<open>
  \<open>Roll\<close> as the input of the \<open>nom\<close> parsers (\<open>crates/buffet/src/roll.rs\<close>, the implementations of
  \<open>InputIter\<close>, \<open>InputTake\<close>, \<open>InputTakeAtPosition\<close>, \<open>FindSubstring\<close> and \<open>Compare\<close>). The lemmas relate
  them to the plain byte list: slicing and splitting, splitting at the first byte that satisfies a
  predicate, the first occurrence of a substring, and comparison with a tag. \<open>memchr::memchr\<close> is a
  parameter; what is used of it is its documented result, the first index of a byte.
\<close>

section \<open>Definitions\<close>

text \<open>The outcomes of a \<open>nom\<close> parser: \<open>nom::Err\<close>.\<close>

datatype nom_err = Incomplete | NomError | NomFailure

type_synonym 'a parser = "bytes \<Rightarrow> (bytes \<times> 'a, nom_err) result"

datatype compare_result = CompareOk | CompareIncomplete | CompareError

fun roll_clone :: "memory \<Rightarrow> roll \<Rightarrow> (roll \<times> memory, 'e) result" where
  "roll_clone m (RollBuf b) =
     and_then (b_clone (m_pool m) b) (\<lambda>(b, p). Ok (RollBuf b, m\<lparr>m_pool := p\<rparr>))"
| "roll_clone m (RollBox b len) = Ok (RollBox b len, m)"
| "roll_clone m RollEmpty = Ok (RollEmpty, m)"

text \<open>\<open>self.iter().position(predicate)\<close>: \<open>RollIter::next\<close> yields the bytes from \<open>pos\<close> on.\<close>

fun iter_position :: "('a \<Rightarrow> bool) \<Rightarrow> nat \<Rightarrow> 'a list \<Rightarrow> nat option" where
  "iter_position predicate pos [] = None"
| "iter_position predicate pos (c # cs) =
     (if predicate c then Some pos else iter_position predicate (pos + 1) cs)"

definition roll_position :: "memory \<Rightarrow> roll \<Rightarrow> (u8 \<Rightarrow> bool) \<Rightarrow> (nat option, 'e) result" where
  "roll_position m roll predicate =
     and_then (roll_deref m roll) (\<lambda>cs. Ok (iter_position predicate 0 cs))"

definition roll_slice_index :: "roll \<Rightarrow> nat \<Rightarrow> (nat, nat) result" where
  "roll_slice_index roll cnt =
     (if cnt \<le> roll_len roll then Ok cnt else Err (cnt - roll_len roll))"

definition roll_take :: "memory \<Rightarrow> roll \<Rightarrow> nat \<Rightarrow> (roll \<times> memory, 'e) result" where
  "roll_take m roll cnt =
     and_then (roll_clone m roll) (\<lambda>(c, m).
     and_then (roll_slice c (Unbounded, Excluded cnt)) (\<lambda>r. Ok (r, m)))"

definition roll_take_split :: "memory \<Rightarrow> roll \<Rightarrow> nat \<Rightarrow> ((roll \<times> roll) \<times> memory, 'e) result" where
  "roll_take_split m roll cnt =
     and_then (roll_clone m roll) (\<lambda>(c, m).
     and_then (roll_split_at m c cnt) (\<lambda>((prefx, suffx), m). Ok ((suffx, prefx), m)))"

definition split_at_position ::
    "memory \<Rightarrow> roll \<Rightarrow> (u8 \<Rightarrow> bool) \<Rightarrow> ((roll \<times> roll) \<times> memory, nom_err) result" where
  "split_at_position m self predicate =
     and_then (roll_position m self predicate) (\<lambda>pos.
       case pos of
         Some i \<Rightarrow>
           and_then (roll_clone m self) (\<lambda>(c, m).
           and_then (roll_take_split m c i) (\<lambda>(res, m).
           and_then (roll_drop m c) (\<lambda>m. Ok (res, m))))
       | None \<Rightarrow> Err Incomplete)"

definition split_at_position1 ::
    "memory \<Rightarrow> roll \<Rightarrow> (u8 \<Rightarrow> bool) \<Rightarrow> ((roll \<times> roll) \<times> memory, nom_err) result" where
  "split_at_position1 m self predicate =
     and_then (roll_position m self predicate) (\<lambda>pos.
       case pos of
         Some i \<Rightarrow> if i = 0 then Err NomError else roll_take_split m self i
       | None \<Rightarrow> Err Incomplete)"

definition split_at_position_complete ::
    "memory \<Rightarrow> roll \<Rightarrow> (u8 \<Rightarrow> bool) \<Rightarrow> ((roll \<times> roll) \<times> memory, nom_err) result" where
  "split_at_position_complete m self predicate =
     and_then (roll_position m self predicate) (\<lambda>pos.
       case pos of
         Some i \<Rightarrow> roll_take_split m self i
       | None \<Rightarrow> roll_take_split m self (roll_len self))"

definition split_at_position1_complete ::
    "memory \<Rightarrow> roll \<Rightarrow> (u8 \<Rightarrow> bool) \<Rightarrow> ((roll \<times> roll) \<times> memory, nom_err) result" where
  "split_at_position1_complete m self predicate =
     and_then (roll_position m self predicate) (\<lambda>pos.
       case pos of
         Some i \<Rightarrow> if i = 0 then Err NomError else roll_take_split m self i
       | None \<Rightarrow>
           if roll_len self = 0 then Err NomError else roll_take_split m self (roll_len self))"

text \<open>\<open>find_substring\<close> on the bytes of the roll; the loop restarts behind a first byte whose rest does
  not match.\<close>

function find_substring_loop ::
    "(u8 \<Rightarrow> bytes \<Rightarrow> nat option) \<Rightarrow> bytes \<Rightarrow> bytes \<Rightarrow> u8 \<Rightarrow> bytes \<Rightarrow> nat \<Rightarrow> (nat option, 'e) result" where
  "find_substring_loop memchr self haystack substr_first substr_rest offset =
     (if offset \<le> length haystack then
        (case memchr substr_first (drop offset haystack) of
           Some position \<Rightarrow>
             let offset' = offset + position; next_offset = offset' + 1 in
             if next_offset + length substr_rest \<le> length self then
               if take (length substr_rest) (drop next_offset self) = substr_rest then Ok (Some offset')
               else find_substring_loop memchr self haystack substr_first substr_rest next_offset
             else Panic
         | None \<Rightarrow> Ok None)
      else Panic)"
  by pat_completeness auto
termination
  by (relation "measure (\<lambda>(mc, self, hay, f, r, offset). Suc (length hay) - offset)") auto

declare find_substring_loop.simps [simp del]

definition find_substring ::
    "(u8 \<Rightarrow> bytes \<Rightarrow> nat option) \<Rightarrow> bytes \<Rightarrow> bytes \<Rightarrow> (nat option, 'e) result" where
  "find_substring memchr self substr =
     (if length self < length substr then Ok None
      else
        (case substr of
           [] \<Rightarrow> Ok (Some 0)
         | substr_first # substr_rest \<Rightarrow>
             if substr_rest = [] then Ok (memchr substr_first self)
             else
               let haystack = take (length self - length substr_rest) self
               in find_substring_loop memchr self haystack substr_first substr_rest 0))"

definition roll_compare :: "bytes \<Rightarrow> bytes \<Rightarrow> compare_result" where
  "roll_compare self t =
     (case iter_position (\<lambda>(a, b). a \<noteq> b) 0 (zip self t) of
        Some _ \<Rightarrow> CompareError
      | None \<Rightarrow> if length t \<le> length self then CompareOk else CompareIncomplete)"

definition lowercase_byte :: "u8 \<Rightarrow> u8" where
  "lowercase_byte c = (if 65 \<le> c \<and> c \<le> 90 then c - 65 + 97 else c)"

definition roll_compare_no_case :: "bytes \<Rightarrow> bytes \<Rightarrow> compare_result" where
  "roll_compare_no_case self t =
     (if list_ex (\<lambda>(a, b). lowercase_byte a \<noteq> lowercase_byte b) (zip self t) then CompareError
      else if length self < length t then CompareIncomplete
      else CompareOk)"

section \<open>Substrings\<close>

text \<open>What is used of \<open>memchr\<close>: the index of the first occurrence of the byte.\<close>

definition memchr_spec :: "(u8 \<Rightarrow> bytes \<Rightarrow> nat option) \<Rightarrow> bool" where
  "memchr_spec memchr \<longleftrightarrow> (\<forall>b s. memchr b s = iter_position (\<lambda>c. c = b) 0 s)"

definition occurs_at :: "bytes \<Rightarrow> bytes \<Rightarrow> nat \<Rightarrow> bool" where
  "occurs_at substr self i \<longleftrightarrow> take (length substr) (drop i self) = substr"

text \<open>The first occurrence, by trying every position.\<close>

definition first_occurrence :: "bytes \<Rightarrow> bytes \<Rightarrow> nat option" where
  "first_occurrence substr self = find (occurs_at substr self) [0..<Suc (length self)]"

lemma iter_position_None: "iter_position p k cs = None \<longleftrightarrow> (\<forall>c\<in>set cs. \<not> p c)"
  by (induction p k cs rule: iter_position.induct) auto

lemma iter_position_Some:
  "iter_position p k cs = Some i \<longleftrightarrow>
     k \<le> i \<and> i < k + length cs \<and> p (cs ! (i - k)) \<and> (\<forall>j. k \<le> j \<and> j < i \<longrightarrow> \<not> p (cs ! (j - k)))"
proof (induction p k cs rule: iter_position.induct)
  case (2 p k c cs)
  show ?case
  proof (cases "p c")
    case True
    then show ?thesis by (auto simp: nth_Cons' dest: spec[of _ k])
  next
    case False
    have shift: "(c # cs) ! (j - k) = cs ! (j - (k + 1))" if "k + 1 \<le> j" for j
      using that by (simp add: nth_Cons' Suc_diff_le)
    have "(\<forall>j. k \<le> j \<and> j < i \<longrightarrow> \<not> p ((c # cs) ! (j - k))) \<longleftrightarrow>
        (\<forall>j. k + 1 \<le> j \<and> j < i \<longrightarrow> \<not> p (cs ! (j - (k + 1))))" (is "?l \<longleftrightarrow> ?r")
    proof
      assume ?l then show ?r using shift by (metis Suc_eq_plus1 Suc_leD)
    next
      assume r: ?r
      show ?l
      proof (intro allI impI)
        fix j assume "k \<le> j \<and> j < i"
        then show "\<not> p ((c # cs) ! (j - k))"
          using r False shift[of j] by (cases "j = k") auto
      qed
    qed
    with False 2 shift[of i] show ?thesis by (cases "i = k") auto
  qed
qed simp

lemma occurs_at_length: "occurs_at substr self i \<Longrightarrow> substr \<noteq> [] \<Longrightarrow> i + length substr \<le> length self"
proof -
  assume "occurs_at substr self i" "substr \<noteq> []"
  then have "min (length self - i) (length substr) = length substr" "0 < length substr"
    by (auto simp: occurs_at_def dest!: arg_cong[of _ _ length])
  then show ?thesis by linarith
qed

lemma occurs_at_Cons:
  "i < length self \<Longrightarrow>
   occurs_at (f # rest) self i \<longleftrightarrow> self ! i = f \<and> take (length rest) (drop (i + 1) self) = rest"
  by (auto simp: occurs_at_def take_Suc_conv_app_nth hd_drop_conv_nth drop_Suc take_Suc tl_drop)

lemma find_Some_least:
  assumes "P i" and "i < n" and "\<And>j. j < i \<Longrightarrow> \<not> P j"
  shows "find P [0..<n] = Some i"
  using assms by (auto simp: find_Some_iff intro!: exI[of _ i])

lemma first_occurrence_None: "(\<And>i. \<not> occurs_at substr self i) \<Longrightarrow> first_occurrence substr self = None"
  by (simp add: first_occurrence_def find_None_iff)

lemma find_substring_loop_first:
  assumes "memchr_spec memchr" and "rest \<noteq> []" and "length rest < length self"
    and "hay = take (length self - length rest) self"
    and "offset \<le> length hay" and "\<And>j. j < offset \<Longrightarrow> \<not> occurs_at (f # rest) self j"
  shows "(find_substring_loop memchr self hay f rest offset :: (nat option, 'e) result) =
    Ok (first_occurrence (f # rest) self)"
  using assms(5,6)
proof (induction "length hay - offset" arbitrary: offset rule: less_induct)
  case less
  have lh: "length hay = length self - length rest" using assms(4) by simp
  have hay: "hay ! i = self ! i" if "i < length hay" for i
    using that assms(4) by simp
  have mc: "memchr f (drop offset hay) = iter_position (\<lambda>c. c = f) 0 (drop offset hay)"
    using assms(1) by (simp add: memchr_spec_def)
  show ?case
  proof (cases "memchr f (drop offset hay)")
    case None
    then have nf: "\<forall>c\<in>set (drop offset hay). c \<noteq> f" using mc by (simp add: iter_position_None)
    have "\<not> occurs_at (f # rest) self j" for j
    proof
      assume oc: "occurs_at (f # rest) self j"
      then have "j + length (f # rest) \<le> length self" using occurs_at_length by blast
      then have j: "j < length hay" "j < length self" using lh by auto
      then have "hay ! j = f" using oc occurs_at_Cons hay by simp
      moreover have "offset \<le> j" using oc less.prems(2) not_le_imp_less by blast
      ultimately show False
        using nf j(1) nth_mem[of "j - offset" "drop offset hay"] by (auto simp: diff_less_mono)
    qed
    then have "first_occurrence (f # rest) self = None" by (rule first_occurrence_None)
    with None less.prems(1) show ?thesis by (subst find_substring_loop.simps) simp
  next
    case (Some p)
    then have p: "p < length hay - offset" "hay ! (offset + p) = f" "\<And>j. j < p \<Longrightarrow> hay ! (offset + j) \<noteq> f"
      using mc less.prems(1) by (auto simp: iter_position_Some)
    let ?o = "offset + p"
    have o: "?o < length hay" "?o + 1 + length rest \<le> length self" "?o < length self"
      using p(1) lh assms(3) by auto
    have before: "\<not> occurs_at (f # rest) self j" if "j < ?o" for j
    proof (cases "j < offset")
      case False
      then have "hay ! j \<noteq> f" using p(3)[of "j - offset"] that by simp
      then show ?thesis using that o occurs_at_Cons[of j self f rest] hay[of j] by simp
    qed (use less.prems(2) in auto)
    show ?thesis
    proof (cases "take (length rest) (drop (?o + 1) self) = rest")
      case True
      then have "occurs_at (f # rest) self ?o" using o p(2) hay[of ?o] occurs_at_Cons by simp
      then have "first_occurrence (f # rest) self = Some ?o"
        unfolding first_occurrence_def using before o(3) by (intro find_Some_least) auto
      with True Some o less.prems(1) show ?thesis
        by (subst find_substring_loop.simps) (simp add: Let_def)
    next
      case False
      then have no: "\<not> occurs_at (f # rest) self ?o" using o occurs_at_Cons by simp
      have IH: "(find_substring_loop memchr self hay f rest (?o + 1) :: (nat option, 'e) result) =
          Ok (first_occurrence (f # rest) self)"
        using o(1) before no by (intro less.hyps) (auto simp: less_Suc_eq)
      show ?thesis
        using False Some o less.prems(1) IH by (subst find_substring_loop.simps) (simp add: Let_def)
    qed
  qed
qed

text \<open>\<open>find_substring\<close> returns the first position at which the substring occurs, or none, and never
  panics, given that \<open>memchr\<close> finds the first occurrence of a byte.\<close>

lemma find_substring_first:
  assumes "memchr_spec memchr"
  shows "(find_substring memchr self substr :: (nat option, 'e) result) =
    Ok (first_occurrence substr self)"
proof (cases "length self < length substr")
  case True
  then have "\<not> occurs_at substr self i" for i
    using occurs_at_length[of substr self i] by (cases "substr = []") auto
  with True show ?thesis by (simp add: find_substring_def first_occurrence_None)
next
  case False
  show ?thesis
  proof (cases substr)
    case Nil
    have "first_occurrence [] self = Some 0"
      unfolding first_occurrence_def by (intro find_Some_least) (auto simp: occurs_at_def)
    with Nil show ?thesis by (simp add: find_substring_def)
  next
    case (Cons f rest)
    show ?thesis
    proof (cases "rest = []")
      case True
      have oc: "occurs_at [f] self i \<longleftrightarrow> i < length self \<and> self ! i = f" for i
        using occurs_at_length[of "[f]" self i] occurs_at_Cons[of i self f "[]"] by auto
      have "memchr f self = first_occurrence [f] self"
      proof (cases "memchr f self")
        case None
        then have "\<forall>c\<in>set self. c \<noteq> f" using assms by (simp add: memchr_spec_def iter_position_None)
        then have "first_occurrence [f] self = None"
          by (intro first_occurrence_None) (auto simp: oc)
        with None show ?thesis by simp
      next
        case (Some i)
        then have "find (occurs_at [f] self) [0..<Suc (length self)] = Some i"
          using assms by (intro find_Some_least) (auto simp: memchr_spec_def iter_position_Some oc)
        with Some show ?thesis by (simp add: first_occurrence_def)
      qed
      with Cons True False show ?thesis by (simp add: find_substring_def)
    next
      case rest: False
      have "length rest < length self" using False Cons by simp
      with find_substring_loop_first[OF assms rest this refl, of 0 f, where 'e = 'e] Cons rest False
      show ?thesis by (simp add: find_substring_def)
    qed
  qed
qed

lemma find_substring_first_witness:
  "(find_substring (\<lambda>b. iter_position (\<lambda>c. c = b) 0) [1, 2, 1, 3, 1, 3] [1, 3] :: (nat option, unit) result) =
     Ok (Some 2)"
proof -
  have "memchr_spec (\<lambda>b. iter_position (\<lambda>c. c = b) 0)" by (simp add: memchr_spec_def)
  from find_substring_first[OF this, of "[1, 2, 1, 3, 1, 3]" "[1, 3]", where 'e = unit]
  show ?thesis by (simp add: first_occurrence_def occurs_at_def upt_rec)
qed

section \<open>Comparing with a tag\<close>

lemma zip_mismatch_prefix:
  "(\<forall>(a, b)\<in>set (zip xs ys). f a = f b) \<longleftrightarrow>
     prefix (map f xs) (map f ys) \<or> prefix (map f ys) (map f xs)"
  by (induction xs ys rule: list_induct2') auto

lemma prefix_by_length:
  "prefix (map f xs) (map f ys) \<or> prefix (map f ys) (map f xs) \<Longrightarrow>
     length ys \<le> length xs \<longleftrightarrow> prefix (map f ys) (map f xs)"
  using prefix_length_prefix[of "map f ys" "map f ys" "map f xs"] prefix_length_le[of "map f ys" "map f xs"]
  by auto

text \<open>\<open>compare\<close> says \<open>Ok\<close> exactly when the roll begins with the tag, \<open>Incomplete\<close> exactly when the
  roll is a proper beginning of the tag, and \<open>Error\<close> otherwise; \<open>compare_no_case\<close> does the same up to
  ASCII case.\<close>

lemma roll_compare_prefix:
  "roll_compare self t =
     (if prefix t self then CompareOk else if prefix self t then CompareIncomplete else CompareError) \<and>
   roll_compare_no_case self t =
     (if prefix (map lowercase_byte t) (map lowercase_byte self) then CompareOk
      else if prefix (map lowercase_byte self) (map lowercase_byte t) then CompareIncomplete
      else CompareError)"
proof -
  have "iter_position (\<lambda>(a, b). a \<noteq> b) 0 (zip self t) = None \<longleftrightarrow> prefix self t \<or> prefix t self"
    using zip_mismatch_prefix[of self t "\<lambda>x. x"] by (auto simp: iter_position_None)
  then have cmp: "roll_compare self t =
      (if prefix self t \<or> prefix t self then if length t \<le> length self then CompareOk else CompareIncomplete
       else CompareError)"
    by (cases "iter_position (\<lambda>(a, b). a \<noteq> b) 0 (zip self t)") (simp_all add: roll_compare_def)
  have "list_ex (\<lambda>(a, b). lowercase_byte a \<noteq> lowercase_byte b) (zip self t) \<longleftrightarrow>
      \<not> (prefix (map lowercase_byte self) (map lowercase_byte t) \<or>
         prefix (map lowercase_byte t) (map lowercase_byte self))"
    using zip_mismatch_prefix[of self t lowercase_byte] by (auto simp: list_ex_iff)
  then have nocase: "roll_compare_no_case self t =
      (if prefix (map lowercase_byte self) (map lowercase_byte t) \<or>
          prefix (map lowercase_byte t) (map lowercase_byte self)
       then if length t \<le> length self then CompareOk else CompareIncomplete else CompareError)"
    by (simp add: roll_compare_no_case_def not_le[symmetric])
  show ?thesis
    using cmp prefix_by_length[of "\<lambda>x. x" self t]
    by (intro conjI, simp) (use nocase prefix_by_length[of lowercase_byte self t] in simp)
qed

section \<open>Splitting\<close>

text \<open>A live roll: a well-formed view whose buffer, if it has one, is counted.\<close>

fun roll_handles :: "roll \<Rightarrow> nat multiset" where
  "roll_handles (RollBuf b) = {#b_index b#}"
| "roll_handles (RollBox b len) = {#}"
| "roll_handles RollEmpty = {#}"

fun roll_bounded :: "memory \<Rightarrow> roll \<Rightarrow> bool" where
  "roll_bounded m (RollBuf b) \<longleftrightarrow> True"
| "roll_bounded m (RollBox b len) \<longleftrightarrow> length (bs_box m b) < 2 ^ 32"
| "roll_bounded m RollEmpty \<longleftrightarrow> True"

definition roll_live :: "memory \<Rightarrow> nat multiset \<Rightarrow> roll \<Rightarrow> bool" where
  "roll_live m hs roll \<longleftrightarrow> mem_ok m hs \<and> roll_wf m roll \<and> roll_bounded m roll \<and>
     roll_handles roll \<subseteq># hs"

definition roll_contents :: "memory \<Rightarrow> roll \<Rightarrow> bytes" where
  "roll_contents m roll = (case roll of
     RollBuf b \<Rightarrow> b_deref (m_pool m) b
   | RollBox b len \<Rightarrow> take len (drop (bs_off b) (bs_box m b))
   | RollEmpty \<Rightarrow> [])"

lemma roll_deref_live: "roll_live m hs roll \<Longrightarrow> roll_deref m roll = (Ok (roll_contents m roll) :: (bytes, 'e) result)"
  by (cases roll) (auto simp: roll_live_def roll_contents_def)

text \<open>Room for the handles that a split makes.\<close>

fun roll_spare :: "nat multiset \<Rightarrow> roll \<Rightarrow> bool" where
  "roll_spare hs (RollBuf b) \<longleftrightarrow> count hs (b_index b) + 3 < 32768"
| "roll_spare hs (RollBox b len) \<longleftrightarrow> True"
| "roll_spare hs RollEmpty \<longleftrightarrow> True"

text \<open>What a clone or a split can change of the memory: the pool's counts only.\<close>

definition same_bytes :: "memory \<Rightarrow> memory \<Rightarrow> bool" where
  "same_bytes m m' \<longleftrightarrow> m_boxes m' = m_boxes m \<and> pool_mem (m_pool m') = pool_mem (m_pool m)"

lemma roll_contents_same: "same_bytes m m' \<Longrightarrow> roll_contents m' roll = roll_contents m roll"
  by (cases roll) (simp_all add: same_bytes_def roll_contents_def b_deref_def bs_box_def)

lemma roll_clone_ok:
  assumes "roll_live m hs roll" and "roll_spare hs roll"
  shows "\<exists>m'. (roll_clone m roll :: (_, 'e) result) = Ok (roll, m') \<and>
    mem_ok m' (hs + roll_handles roll) \<and> same_bytes m m'"
proof (cases roll)
  case (RollBuf b)
  have "pool_ok (m_pool m) hs" "b_index b \<in># hs" "count hs (b_index b) < 32767"
    using assms RollBuf by (auto simp: roll_live_def mem_ok_def)
  from pool_inc_ok[OF this, where 'e = 'e] RollBuf show ?thesis
    by (auto simp: b_clone_def mem_ok_def same_bytes_def)
qed (use assms in \<open>auto simp: roll_live_def same_bytes_def\<close>)

lemma split_view:
  "i \<le> n \<Longrightarrow> take i (drop a xs) = take i (take n (drop a xs))"
  "i \<le> n \<Longrightarrow> take (n - i) (drop (a + i) xs) = drop i (take n (drop a xs))"
  by (simp_all add: min_absorb1 drop_take add.commute)

lemma same_bytes_trans: "same_bytes m m1 \<Longrightarrow> same_bytes m1 m2 \<Longrightarrow> same_bytes m m2"
  by (simp add: same_bytes_def)

lemma roll_split_at_ok:
  assumes "mem_ok m hs" and "roll_wf m roll" and "roll_bounded m roll" and "roll_handles roll \<subseteq># hs"
    and "\<forall>i\<in>#roll_handles roll. count hs i < 32767" and "i \<le> roll_len roll"
  shows "\<exists>l r m'. (roll_split_at m roll i :: (_, 'e) result) = Ok ((l, r), m') \<and> same_bytes m m' \<and>
    mem_ok m' (hs + roll_handles roll) \<and>
    roll_contents m' l = take i (roll_contents m roll) \<and> roll_contents m' r = drop i (roll_contents m roll)"
proof (cases roll)
  case (RollBuf b)
  have "pool_ok (m_pool m) hs" "b_index b \<in># hs" "count hs (b_index b) < 32767"
    using assms RollBuf by (auto simp: mem_ok_def)
  from pool_inc_ok[OF this, where 'e = 'e] obtain p where
    p: "(pool_inc (m_pool m) (b_index b) :: (pool, 'e) result) = Ok p"
    "pool_ok p (add_mset (b_index b) hs)" "pool_mem p = pool_mem (m_pool m)" by blast
  have i: "i \<le> b_len b" "b_off b + b_len b \<le> BUF_SIZE" using assms RollBuf by auto
  then have "i < 2 ^ 16" "b_off b + i < 2 ^ 16" by (auto simp: BUF_SIZE_def)
  then have "(roll_split_at m roll i :: (_, 'e) result) =
      Ok ((RollBuf \<lparr>b_index = b_index b, b_off = b_off b, b_len = i\<rparr>,
           RollBuf \<lparr>b_index = b_index b, b_off = b_off b + i, b_len = b_len b - i\<rparr>), m\<lparr>m_pool := p\<rparr>)"
    using RollBuf p(1) i by (simp add: b_split_at_def as_u16_def add_u16_def)
  moreover have "base_ptr_with_offset (b_index b) (b_off b + i) = base_ptr_with_offset (b_index b) (b_off b) + i"
    by (simp add: base_ptr_with_offset_def)
  ultimately show ?thesis
    using RollBuf p(2,3) split_view[OF i(1), where 'a = u8]
    by (simp add: same_bytes_def mem_ok_def roll_contents_def b_deref_def)
next
  case (RollBox b len)
  have i: "i \<le> len" "bs_off b + len \<le> length (bs_box m b)" "length (bs_box m b) < 2 ^ 32"
    using assms RollBox by auto
  then have "i < 2 ^ 32" "bs_off b + i < 2 ^ 32" by auto
  then have "(roll_split_at m roll i :: (_, 'e) result) =
      Ok ((RollBox b i, RollBox (b\<lparr>bs_off := bs_off b + i\<rparr>) (len - i)), m)"
    using RollBox i by (simp add: roll_box_split_at_def try_u32_def add_u32_def)
  then show ?thesis
    using RollBox split_view[OF i(1), where 'a = u8] assms(1) by (simp add: same_bytes_def roll_contents_def bs_box_def)
next
  case RollEmpty
  with assms show ?thesis by (simp add: same_bytes_def roll_contents_def)
qed

lemma roll_take_split_ok:
  assumes "roll_live m hs roll" and "roll_spare hs roll" and "i \<le> roll_len roll"
  shows "\<exists>l r m'. (roll_take_split m roll i :: (_, 'e) result) = Ok ((r, l), m') \<and> same_bytes m m' \<and>
    mem_ok m' (hs + roll_handles roll + roll_handles roll) \<and>
    roll_contents m' l = take i (roll_contents m roll) \<and> roll_contents m' r = drop i (roll_contents m roll)"
proof -
  obtain m1 where m1: "(roll_clone m roll :: (_, 'e) result) = Ok (roll, m1)"
    "mem_ok m1 (hs + roll_handles roll)" "same_bytes m m1"
    using roll_clone_ok[OF assms(1,2), where 'e = 'e] by blast
  have "roll_wf m1 roll" "roll_bounded m1 roll"
    using assms(1) m1(3) by (cases roll; simp add: roll_live_def same_bytes_def bs_box_def)+
  moreover have "\<forall>j\<in>#roll_handles roll. count (hs + roll_handles roll) j < 32767"
    using assms(2) by (cases roll) auto
  ultimately obtain l r m' where "(roll_split_at m1 roll i :: (_, 'e) result) = Ok ((l, r), m')"
    "same_bytes m1 m'" "mem_ok m' (hs + roll_handles roll + roll_handles roll)"
    "roll_contents m' l = take i (roll_contents m1 roll)" "roll_contents m' r = drop i (roll_contents m1 roll)"
    using roll_split_at_ok[OF m1(2), of roll i, where 'e = 'e] assms(3) by auto
  with m1(1) same_bytes_trans[OF m1(3)] roll_contents_same[OF m1(3), of roll] show ?thesis
    by (simp add: roll_take_split_def)
qed

lemma iter_position_split:
  assumes "iter_position p 0 cs = Some i"
  shows "take i cs = takeWhile (\<lambda>c. \<not> p c) cs" and "drop i cs = dropWhile (\<lambda>c. \<not> p c) cs" and "i < length cs"
proof -
  have i: "i < length cs" "p (cs ! i)" "\<forall>j<i. \<not> p (cs ! j)"
    using assms by (auto simp: iter_position_Some)
  then have tw: "takeWhile (\<lambda>c. \<not> p c) cs = take i cs"
    by (intro takeWhile_eq_take_P_nth) auto
  then show "take i cs = takeWhile (\<lambda>c. \<not> p c) cs" by simp
  have "length (takeWhile (\<lambda>c. \<not> p c) cs) = i" using tw i(1) by simp
  then show "drop i cs = dropWhile (\<lambda>c. \<not> p c) cs" by (simp add: dropWhile_eq_drop)
  show "i < length cs" by (rule i(1))
qed

lemma length_roll_contents: "roll_live m hs roll \<Longrightarrow> length (roll_contents m roll) = roll_len roll"
proof (cases roll)
  case (RollBuf b)
  assume live: "roll_live m hs roll"
  let ?bm = "\<lparr>bm_index = b_index b, bm_off = b_off b, bm_len = BUF_SIZE - b_off b\<rparr>"
  have "mem_ok m hs" "st_wf m (StBuf ?bm)" "b_off b + b_len b \<le> BUF_SIZE"
    using live RollBuf by (auto simp: roll_live_def mem_ok_def pool_ok_def)
  with buf_region[of m hs ?bm] RollBuf show ?thesis
    by (simp add: roll_contents_def b_deref_def)
qed (auto simp: roll_live_def roll_contents_def)

text \<open>Splitting a roll at the first byte that satisfies a predicate, as \<open>split_at_position1_complete\<close> does,
  returns the bytes before it and the bytes from it on, both views of the same memory; when the very
  first byte satisfies it, or the roll is empty, the parser fails. Neither the clones nor the splits panic as
  long as the buffer's reference count has room for them.\<close>

lemma split_at_position_spans:
  assumes "roll_live m hs roll" and "roll_spare hs roll"
  shows "case split_at_position1_complete m roll predicate of
      Ok ((suffx, prefx), m') \<Rightarrow>
        same_bytes m m' \<and>
        roll_contents m' prefx = takeWhile (\<lambda>c. \<not> predicate c) (roll_contents m roll) \<and>
        roll_contents m' suffx = dropWhile (\<lambda>c. \<not> predicate c) (roll_contents m roll) \<and>
        roll_contents m' prefx \<noteq> []
    | Err e \<Rightarrow> e = NomError \<and> takeWhile (\<lambda>c. \<not> predicate c) (roll_contents m roll) = []
    | Panic \<Rightarrow> False"
proof -
  let ?cs = "roll_contents m roll"
  have len: "length ?cs = roll_len roll" using assms(1) by (rule length_roll_contents)
  have pos: "(roll_position m roll predicate :: (_, nom_err) result) = Ok (iter_position predicate 0 ?cs)"
    using roll_deref_live[OF assms(1), where 'e = nom_err] by (simp add: roll_position_def)
  show ?thesis
  proof (cases "iter_position predicate 0 ?cs")
    case None
    then have all: "takeWhile (\<lambda>c. \<not> predicate c) ?cs = ?cs" "dropWhile (\<lambda>c. \<not> predicate c) ?cs = []"
      by (auto simp: iter_position_None takeWhile_eq_all_conv dropWhile_eq_Nil_conv)
    show ?thesis
      using None pos len roll_take_split_ok[OF assms, of "roll_len roll", where 'e = nom_err]
      by (auto simp: split_at_position1_complete_def all)
  next
    case (Some i)
    note sp = iter_position_split[OF Some]
    show ?thesis
    proof (cases "i = 0")
      case True
      with Some pos sp(1) show ?thesis by (simp add: split_at_position1_complete_def)
    next
      case False
      obtain l r m' where "(roll_take_split m roll i :: (_, nom_err) result) = Ok ((r, l), m')"
        "same_bytes m m'" "roll_contents m' l = take i ?cs" "roll_contents m' r = drop i ?cs"
        using roll_take_split_ok[OF assms, of i, where 'e = nom_err] sp(3) len by auto
      moreover have "take i ?cs \<noteq> []" using False sp(3) by auto
      ultimately show ?thesis
        using Some pos False sp(1,2) by (simp add: split_at_position1_complete_def)
    qed
  qed
qed

lemma demo_roll_live: "roll_live demo_memory {#0#} (RollBox \<lparr>bs_buf = 0, bs_off = 0\<rparr> 3)"
  using demo_roll_wf
  by (simp add: roll_live_def rm_wf_def demo_memory_def bs_box_def BUF_SIZE_def)

theorem split_at_position_spans_witness:
  "case split_at_position1_complete demo_memory (RollBox \<lparr>bs_buf = 0, bs_off = 0\<rparr> 3) (\<lambda>c. c = 13) of
     Ok ((suffx, prefx), m') \<Rightarrow> roll_contents m' prefx = [7, 7, 7]
   | Err e \<Rightarrow> False
   | Panic \<Rightarrow> False"
proof -
  have "roll_contents demo_memory (RollBox \<lparr>bs_buf = 0, bs_off = 0\<rparr> 3) = [7, 7, 7]"
    by (simp add: roll_contents_def demo_memory_def bs_box_def BUF_SIZE_def numeral_3_eq_3)
  with split_at_position_spans[OF demo_roll_live, of "\<lambda>c. c = 13"] show ?thesis
    by (auto split: result.splits)
qed

end
