(* ===== verification/Loona_Util.thy ===== *)
theory Loona_Util
  imports Buffet_Io Buffet_Input
begin

text \<open>
  Reading until a parser is satisfied (\<open>read_and_parse\<close>, \<open>crates/loona/src/util.rs\<close>). The buffer is the
  bytes filled so far; the room that the buffer offers to a read (after \<open>reserve\<close> when it had none) and
  the reader are operations of an explicit reading state, so that allocation failures, short reads and
  the end of the stream are all outcomes. The locale \<open>streaming_parser\<close> states what a parser of a
  bounded message promises: the remaining input is kept, more input never changes an answer, and the
  limit is enough. Together with a source of bytes it gives the main fact: what is parsed does not
  depend on how the bytes arrive.
\<close>

datatype read_and_parse_error =
  AllocError buf_error
| ReadError io_error
| BufferLimitReachedWhileParsing nat
| ParsingError string

record 'r reading =
  rd_room :: "'r \<Rightarrow> bytes \<Rightarrow> (nat, buf_error) result \<times> 'r"
  rd_owned :: "'r \<Rightarrow> nat \<Rightarrow> (bytes, io_error) result \<times> 'r"

text \<open>\<open>RollMut::read_into\<close> with the room of the buffer: refuses an empty read.\<close>

definition read_into ::
    "'r reading \<Rightarrow> nat \<Rightarrow> bytes \<Rightarrow> 'r \<Rightarrow> (bytes, read_and_parse_error) result \<times> 'r" where
  "read_into io limit buf r =
     (case rd_room io r buf of
        (Panic, r) \<Rightarrow> (Panic, r)
      | (Err e, r) \<Rightarrow> (Err (AllocError e), r)
      | (Ok cap, r) \<Rightarrow>
          let read_cap = min limit cap in
          if \<not> 0 < read_cap then (Panic, r)
          else (case rd_owned io r read_cap of (res, r) \<Rightarrow> (map_err ReadError res, r)))"

text \<open>The subtraction \<open>max_len - buf.len()\<close> comes before the check of the limit, and overflows when
  the buffer already holds more than the limit.\<close>

function read_and_parse ::
    "'r reading \<Rightarrow> string \<Rightarrow> 'a parser \<Rightarrow> nat \<Rightarrow> bytes \<Rightarrow> 'r \<Rightarrow>
     ((bytes \<times> 'a) option, read_and_parse_error) result \<times> 'r" where
  "read_and_parse io parser_name parser max_len buf r =
     (case parser buf of
        Ok (rest, output) \<Rightarrow> (Ok (Some (rest, output)), r)
      | Panic \<Rightarrow> (Panic, r)
      | Err err \<Rightarrow>
          if err = Incomplete then
            (case sub_usize max_len (length buf) of
               Panic \<Rightarrow> (Panic, r)
             | Err e \<Rightarrow> (Err e, r)
             | Ok read_limit \<Rightarrow>
                 if max_len \<le> length buf then (Err (BufferLimitReachedWhileParsing max_len), r)
                 else
                   (case read_into io read_limit buf r of
                      (Panic, r) \<Rightarrow> (Panic, r)
                    | (Err e, r) \<Rightarrow> (Err e, r)
                    | (Ok bs, r) \<Rightarrow>
                        if length bs = 0 then
                          if buf \<noteq> [] then (Err (ReadError UnexpectedEof), r) else (Ok None, r)
                        else read_and_parse io parser_name parser max_len (buf @ bs) r))
          else (Err (ParsingError parser_name), r))"
  by pat_completeness auto
termination
  by (relation "measure (\<lambda>(_, _, _, max_len, buf, _). max_len - length buf)")
     (auto intro!: diff_less_mono2 simp: not_le)

declare read_and_parse.simps [simp del]

section \<open>Parsers of bounded messages\<close>

locale prefix_parser =
  fixes p :: "'a parser"
  assumes suffix: "p i = Ok (rest, a) \<Longrightarrow> \<exists>pre. i = pre @ rest"
    and stable: "p i = Ok (rest, a) \<Longrightarrow> p (i @ xs) = Ok (rest @ xs, a)"
    and refused: "p i = Err e \<Longrightarrow> e \<noteq> Incomplete \<Longrightarrow> p (i @ xs) = Err e"
    and panicked: "p i = Panic \<Longrightarrow> p (i @ xs) = Panic"
begin

text \<open>What a whole stream parses to when at most \<open>max_len\<close> bytes may be buffered.\<close>

definition limited :: "nat \<Rightarrow> string \<Rightarrow> bytes \<Rightarrow> ((bytes \<times> 'a) option, read_and_parse_error) result" where
  "limited max_len name i =
     (case p (take max_len i) of
        Ok (rest, a) \<Rightarrow> Ok (Some (rest @ drop max_len i, a))
      | Panic \<Rightarrow> Panic
      | Err e \<Rightarrow>
          if e = Incomplete then
            if max_len \<le> length i then Err (BufferLimitReachedWhileParsing max_len)
            else if i = [] then Ok None else Err (ReadError UnexpectedEof)
          else Err (ParsingError name))"

end

locale streaming_parser = prefix_parser p
  for p :: "'a parser" +
  fixes max_len :: nat
  assumes returns: "p i \<noteq> Panic" and enough: "max_len \<le> length i \<Longrightarrow> p i \<noteq> Err Incomplete"
begin

text \<open>What a whole stream parses to.\<close>

definition whole :: "string \<Rightarrow> bytes \<Rightarrow> ((bytes \<times> 'a) option, read_and_parse_error) result" where
  "whole name i =
     (case p i of
        Ok (rest, a) \<Rightarrow> Ok (Some (rest, a))
      | Panic \<Rightarrow> Panic
      | Err e \<Rightarrow>
          if e = Incomplete then if i = [] then Ok None else Err (ReadError UnexpectedEof)
          else Err (ParsingError name))"

end

text \<open>A reading state is good when its reads take a non-empty beginning of what is left, or nothing at the
  end, and the buffer always offers some room.\<close>

locale buffered_source = byte_source "rd_owned io" left good
  for io :: "'r reading" and left and good +
  assumes room: "good r \<Longrightarrow> \<exists>cap r'. rd_room io r buf = (Ok cap, r') \<and> 0 < cap \<and> good r' \<and> left r' = left r"
begin

lemma read_into_takes:
  assumes "good r" and "0 < limit"
  shows "\<exists>bs r'. read_into io limit buf r = (Ok bs, r') \<and> good r' \<and> length bs \<le> limit \<and>
    left r = bs @ left r' \<and> (bs = [] \<longrightarrow> left r = [])"
proof -
  from room[OF assms(1), of buf] obtain cap r' where r': "rd_room io r buf = (Ok cap, r')" "0 < cap"
    "good r'" "left r' = left r" by blast
  with assms(2) have "0 < min limit cap" by simp
  from reads[OF r'(3) this] obtain bs r2 where "rd_owned io r' (min limit cap) = (Ok bs, r2)"
    "good r2" "length bs \<le> min limit cap" "left r' = bs @ left r2" "bs = [] \<longrightarrow> left r' = []" by blast
  with r' assms(2) show ?thesis by (simp add: read_into_def Let_def)
qed

end

locale parsed_stream = streaming_parser p max_len + buffered_source io left good
  for p :: "'a parser" and max_len and io :: "'r reading" and left and good
begin

text \<open>The outcome for the whole stream, with the unread part of the stream after the rest of the buffer.\<close>

definition agrees ::
    "string \<Rightarrow> bytes \<Rightarrow> ((bytes \<times> 'a) option, read_and_parse_error) result \<times> 'r \<Rightarrow> bool" where
  "agrees name i out \<longleftrightarrow> good (snd out) \<and>
     (case fst out of
        Ok (Some (rest, a)) \<Rightarrow> whole name i = Ok (Some (rest @ left (snd out), a))
      | Ok None \<Rightarrow> whole name i = Ok None \<and> left (snd out) = []
      | Err e \<Rightarrow> whole name i = Err e
      | Panic \<Rightarrow> False)"

lemma read_and_parse_agrees:
  assumes "good r"
  shows "agrees name (buf @ left r) (read_and_parse io name p max_len buf r)"
  using assms
proof (induction "max_len - length buf" arbitrary: buf r rule: less_induct)
  case less
  note unfolds = read_and_parse.simps[of io name p max_len buf r] agrees_def whole_def
  show ?case
  proof (cases "p buf")
    case (Ok o1)
    then obtain rest a where "p buf = Ok (rest, a)" by (cases o1) auto
    with less.prems stable[OF this, of "left r"] show ?thesis by (simp add: unfolds)
  next
    case Panic
    with returns show ?thesis by blast
  next
    case (Err e)
    show ?thesis
    proof (cases "e = Incomplete")
      case False
      with Err refused[OF Err, of "left r"] less.prems show ?thesis by (simp add: unfolds)
    next
      case True
      with enough[of buf] Err have limit: "length buf < max_len" by (meson not_less)
      then have "0 < max_len - length buf" by simp
      from read_into_takes[OF less.prems this, of buf] obtain bs r'
        where r': "read_into io (max_len - length buf) buf r = (Ok bs, r')" "good r'"
          "left r = bs @ left r'" "bs = [] \<longrightarrow> left r = []" by blast
      show ?thesis
      proof (cases "bs = []")
        case True
        with r' limit Err \<open>e = Incomplete\<close> show ?thesis by (auto simp: unfolds sub_usize_def)
      next
        case False
        with limit have "max_len - length (buf @ bs) < max_len - length buf" by (cases bs) auto
        from less.hyps[OF this r'(2)] False r' limit Err \<open>e = Incomplete\<close> show ?thesis
          by (simp add: read_and_parse.simps[of io name p max_len buf r] sub_usize_def)
      qed
    qed
  qed
qed

end

text \<open>A parser without a bound of its own, which the limit stops.\<close>

locale limited_stream = prefix_parser p + buffered_source io left good
  for p :: "'a parser" and io :: "'r reading" and left and good
begin

definition agrees_limited ::
    "nat \<Rightarrow> string \<Rightarrow> bytes \<Rightarrow> ((bytes \<times> 'a) option, read_and_parse_error) result \<times> 'r \<Rightarrow> bool" where
  "agrees_limited max_len name i out \<longleftrightarrow> good (snd out) \<and>
     (case fst out of
        Ok (Some (rest, a)) \<Rightarrow> limited max_len name i = Ok (Some (rest @ left (snd out), a))
      | Ok None \<Rightarrow> limited max_len name i = Ok None \<and> left (snd out) = []
      | Err e \<Rightarrow> limited max_len name i = Err e
      | Panic \<Rightarrow> limited max_len name i = Panic)"

lemma read_and_parse_limited:
  assumes "good r" and "length buf \<le> max_len"
  shows "agrees_limited max_len name (buf @ left r) (read_and_parse io name p max_len buf r)"
  using assms
proof (induction "max_len - length buf" arbitrary: buf r rule: less_induct)
  case less
  let ?i = "buf @ left r"
  note unfolds = read_and_parse.simps[of io name p max_len buf r] agrees_limited_def limited_def
  have i: "take max_len ?i = buf @ take (max_len - length buf) (left r)" using less.prems(2) by simp
  show ?case
  proof (cases "p buf")
    case (Ok o1)
    then obtain rest a where "p buf = Ok (rest, a)" by (cases o1) auto
    with less.prems stable[OF this] i show ?thesis by (simp add: unfolds del: take_append)
  next
    case Panic
    with panicked[OF Panic] less.prems i show ?thesis by (simp add: unfolds del: take_append)
  next
    case (Err e)
    show ?thesis
    proof (cases "e = Incomplete")
      case False
      with Err refused[OF Err] less.prems i show ?thesis by (simp add: unfolds del: take_append)
    next
      case True
      show ?thesis
      proof (cases "length buf = max_len")
        case full: True
        with Err True less.prems show ?thesis by (simp add: unfolds sub_usize_def)
      next
        case False
        with less.prems(2) have limit: "length buf < max_len" by simp
        then have "0 < max_len - length buf" by simp
        from read_into_takes[OF less.prems(1) this, of buf] obtain bs r'
          where r': "read_into io (max_len - length buf) buf r = (Ok bs, r')" "good r'" "length bs \<le> max_len - length buf"
            "left r = bs @ left r'" "bs = [] \<longrightarrow> left r = []" by blast
        show ?thesis
        proof (cases "bs = []")
          case True
          with r' limit Err \<open>e = Incomplete\<close> show ?thesis by (auto simp: unfolds sub_usize_def)
        next
          case False
          with limit r'(3) have "max_len - length (buf @ bs) < max_len - length buf" "length (buf @ bs) \<le> max_len"
            by (cases bs; auto)+
          from less.hyps[OF this(1) r'(2) this(2)] False r' limit Err \<open>e = Incomplete\<close> show ?thesis
            by (simp add: read_and_parse.simps[of io name p max_len buf r] sub_usize_def)
        qed
      qed
    qed
  qed
qed

text \<open>A message that is all there is of a parser's input is read, also when more is buffered already.\<close>

lemma read_and_parse_message:
  assumes "good r" and "buf @ left r = msg @ rest" and "length msg \<le> max_len" and "p msg = Ok ([], a)"
  shows "\<exists>buf' r'. read_and_parse io name p max_len buf r = (Ok (Some (buf', a)), r') \<and> good r' \<and>
    buf' @ left r' = rest"
proof (cases "length msg \<le> length buf")
  case True
  with assms(2) obtain xs where xs: "buf = msg @ xs" "xs @ left r = rest"
    by (auto simp: append_eq_append_conv2 dest: le_antisym)
  then have "read_and_parse io name p max_len buf r = (Ok (Some (xs, a)), r)"
    using stable[OF assms(4), of xs] by (subst read_and_parse.simps) simp
  with xs assms(1) show ?thesis by blast
next
  case False
  with assms(3) have "length buf \<le> max_len" by simp
  from read_and_parse_limited[OF assms(1) this, of name]
  obtain out r' where out: "read_and_parse io name p max_len buf r = (out, r')"
    and ag: "agrees_limited max_len name (msg @ rest) (out, r')"
    unfolding assms(2) by (metis prod.exhaust)
  have "take max_len (msg @ rest) = msg @ take (max_len - length msg) rest" using assms(3) by simp
  then have "limited max_len name (msg @ rest) = Ok (Some (rest, a))"
    using stable[OF assms(4)] assms(3) by (simp add: limited_def)
  with ag out show ?thesis by (auto simp: agrees_limited_def split: result.splits option.splits)
qed

end

text \<open>The pipe as the transport, with a buffer that always has room for one pool buffer.\<close>

definition pipe_reading :: "pipe_read reading" where
  "pipe_reading = \<lparr>rd_room = (\<lambda>r _. (Ok 4096, r)), rd_owned = pr_read_owned\<rparr>"

interpretation pipe_source: buffered_source pipe_reading pr_left pr_good
  by unfold_locales (use pipe_reader.reads in \<open>simp_all add: pipe_reading_def\<close>)

end
