(* ===== verification/Buffet_Piece.thy ===== *)
theory Buffet_Piece
  imports Prelude
begin

text \<open>
  Pieces and lists of pieces (\<open>crates/buffet/src/piece.rs\<close>): immutable bytes of several origins,
  whole or as a slice, and the lists of them that are handed to vectored writes. A roll inside a piece
  is its bytes: it is a frozen view (\<open>Buffet_Roll\<close> shows that such views do not change). The lemmas
  show that a piece made by \<open>From\<close> and \<open>split_at\<close> never panics when it is read, that splitting
  loses nothing, and that the lists are byte strings under concatenation.
\<close>

section \<open>Pieces\<close>

datatype piece_core =
  CoreStatic bytes | CoreVec bytes | CoreRoll bytes | CoreHeaderName bytes

datatype piece = Full piece_core | Slice piece_core nat nat

definition piece_empty :: piece where
  "piece_empty = Full (CoreStatic [])"

fun piece_core_as_ref :: "piece_core \<Rightarrow> bytes" where
  "piece_core_as_ref (CoreStatic s) = s"
| "piece_core_as_ref (CoreVec vec) = vec"
| "piece_core_as_ref (CoreRoll roll) = roll"
| "piece_core_as_ref (CoreHeaderName name) = name"

fun piece_core_of :: "piece \<Rightarrow> piece_core" where
  "piece_core_of (Full core) = core"
| "piece_core_of (Slice core start len) = core"

text \<open>\<open>&ptr[start..][..len]\<close> panics when it is out of range.\<close>

definition piece_as_ref :: "piece \<Rightarrow> (bytes, 'e) result" where
  "piece_as_ref p =
     (let bs = piece_core_as_ref (piece_core_of p) in
      case p of
        Slice core start len \<Rightarrow>
          and_then (slice_from bs start) (\<lambda>bs. if len \<le> length bs then Ok (take len bs) else Panic)
      | Full core \<Rightarrow> Ok bs)"

definition piece_len :: "piece \<Rightarrow> (nat, 'e) result" where
  "piece_len p = and_then (piece_as_ref p) (\<lambda>bs. Ok (length bs))"

definition piece_is_empty :: "piece \<Rightarrow> (bool, 'e) result" where
  "piece_is_empty p = and_then (piece_len p) (\<lambda>n. Ok (n = 0))"

definition piece_split_at :: "piece \<Rightarrow> nat \<Rightarrow> (piece \<times> piece, 'e) result" where
  "piece_split_at p middle =
     and_then (piece_len p) (\<lambda>len.
       if \<not> middle \<le> len then Panic
       else
         (case p of
            Full core \<Rightarrow> Ok (Slice core 0 middle, Slice core middle (len - middle))
          | Slice core start slen \<Rightarrow>
              Ok (Slice core start middle, Slice core (start + middle) (slen - middle))))"

section \<open>UTF-8\<close>

text \<open>
  \<open>std::str::from_utf8\<close> succeeds exactly on well-formed sequences: no overlong forms, no surrogates,
  nothing above \<open>0x10FFFF\<close>.
\<close>

definition utf8_cont :: "u8 \<Rightarrow> bool" where
  "utf8_cont b \<longleftrightarrow> 0x80 \<le> b \<and> b \<le> 0xBF"

function from_utf8 :: "bytes \<Rightarrow> bool" where
  "from_utf8 bs =
     (case bs of
        [] \<Rightarrow> True
      | a # r1 \<Rightarrow>
          if a \<le> 0x7F then from_utf8 r1
          else
            (case r1 of
               [] \<Rightarrow> False
             | b # r2 \<Rightarrow>
                 if 0xC2 \<le> a \<and> a \<le> 0xDF then utf8_cont b \<and> from_utf8 r2
                 else
                   (case r2 of
                      [] \<Rightarrow> False
                    | c # r3 \<Rightarrow>
                        if 0xE0 \<le> a \<and> a \<le> 0xEF then
                          (if a = 0xE0 then 0xA0 \<le> b \<and> b \<le> 0xBF
                           else if a = 0xED then 0x80 \<le> b \<and> b \<le> 0x9F
                           else utf8_cont b) \<and> utf8_cont c \<and> from_utf8 r3
                        else
                          (case r3 of
                             [] \<Rightarrow> False
                           | d # r4 \<Rightarrow>
                               0xF0 \<le> a \<and> a \<le> 0xF4 \<and>
                               (if a = 0xF0 then 0x90 \<le> b \<and> b \<le> 0xBF
                                else if a = 0xF4 then 0x80 \<le> b \<and> b \<le> 0x8F
                                else utf8_cont b) \<and>
                               utf8_cont c \<and> utf8_cont d \<and> from_utf8 r4))))"
  by pat_completeness auto
termination by (relation "measure length") auto

declare from_utf8.simps [simp del]

text \<open>\<open>Piece::to_str\<close>: the piece itself when it is UTF-8.\<close>

definition piece_to_str :: "piece \<Rightarrow> (piece option, 'e) result" where
  "piece_to_str p = and_then (piece_as_ref p) (\<lambda>bs. Ok (if from_utf8 bs then Some p else None))"

section \<open>Lists of pieces\<close>

record piece_list =
  pieces :: "piece list"

definition pl_default :: piece_list where
  "pl_default = \<lparr>pieces = []\<rparr>"

definition pl_single :: "piece \<Rightarrow> piece_list" where
  "pl_single p = \<lparr>pieces = [p]\<rparr>"

definition pl_push_back :: "piece_list \<Rightarrow> piece \<Rightarrow> (piece_list, 'e) result" where
  "pl_push_back l chunk =
     and_then (piece_is_empty chunk) (\<lambda>e.
       Ok (if \<not> e then l\<lparr>pieces := pieces l @ [chunk]\<rparr> else l))"

definition pl_push_front :: "piece_list \<Rightarrow> piece \<Rightarrow> (piece_list, 'e) result" where
  "pl_push_front l chunk =
     and_then (piece_is_empty chunk) (\<lambda>e.
       Ok (if \<not> e then l\<lparr>pieces := chunk # pieces l\<rparr> else l))"

definition followed_by :: "piece_list \<Rightarrow> piece \<Rightarrow> (piece_list, 'e) result" where
  "followed_by l chunk = pl_push_back l chunk"

definition preceded_by :: "piece_list \<Rightarrow> piece \<Rightarrow> (piece_list, 'e) result" where
  "preceded_by l chunk = pl_push_front l chunk"

fun sum_lens :: "piece list \<Rightarrow> (nat, 'e) result" where
  "sum_lens [] = Ok 0"
| "sum_lens (c # cs) = and_then (piece_len c) (\<lambda>n. and_then (sum_lens cs) (\<lambda>m. Ok (n + m)))"

definition pl_len :: "piece_list \<Rightarrow> (nat, 'e) result" where
  "pl_len l = sum_lens (pieces l)"

definition num_pieces :: "piece_list \<Rightarrow> nat" where
  "num_pieces l = length (pieces l)"

definition pl_is_empty :: "piece_list \<Rightarrow> (bool, 'e) result" where
  "pl_is_empty l = (if pieces l = [] then Ok True else and_then (pl_len l) (\<lambda>n. Ok (n = 0)))"

definition pl_clear :: "piece_list \<Rightarrow> piece_list" where
  "pl_clear l = l\<lparr>pieces := []\<rparr>"

definition into_vec_deque :: "piece_list \<Rightarrow> piece list" where
  "into_vec_deque l = pieces l"

section \<open>Pieces in range\<close>

fun piece_wf :: "piece \<Rightarrow> bool" where
  "piece_wf (Full core) = True"
| "piece_wf (Slice core start len) = (start + len \<le> length (piece_core_as_ref core))"

fun piece_bytes :: "piece \<Rightarrow> bytes" where
  "piece_bytes (Full core) = piece_core_as_ref core"
| "piece_bytes (Slice core start len) = take len (drop start (piece_core_as_ref core))"

definition pl_wf :: "piece_list \<Rightarrow> bool" where
  "pl_wf l \<longleftrightarrow> list_all piece_wf (pieces l)"

definition pl_bytes :: "piece_list \<Rightarrow> bytes" where
  "pl_bytes l = concat (map piece_bytes (pieces l))"

lemma piece_as_ref_wf [simp]: "piece_wf p \<Longrightarrow> piece_as_ref p = Ok (piece_bytes p)"
  by (cases p) (auto simp: piece_as_ref_def slice_from_def Let_def)

lemma piece_len_wf [simp]: "piece_wf p \<Longrightarrow> piece_len p = Ok (length (piece_bytes p))"
  by (simp add: piece_len_def)

lemma piece_is_empty_wf [simp]: "piece_wf p \<Longrightarrow> piece_is_empty p = Ok (piece_bytes p = [])"
  by (simp add: piece_is_empty_def)

lemma piece_split_at_wf:
  assumes "piece_wf p"
  shows "(piece_split_at p n :: (piece \<times> piece, 'e) result) =
      (if n \<le> length (piece_bytes p)
       then Ok (case p of
                  Full core \<Rightarrow> (Slice core 0 n, Slice core n (length (piece_bytes p) - n))
                | Slice core start len \<Rightarrow> (Slice core start n, Slice core (start + n) (len - n)))
       else Panic)"
  using assms by (cases p) (auto simp: piece_split_at_def)

lemma piece_split_at_bytes:
  assumes "piece_wf p" and "(piece_split_at p n :: (piece \<times> piece, 'e) result) = Ok (l, r)"
  shows "piece_wf l \<and> piece_wf r \<and> piece_bytes l = take n (piece_bytes p) \<and>
    piece_bytes r = drop n (piece_bytes p)"
  using assms
  by (cases p) (auto simp: piece_split_at_wf min_def drop_take add.commute split: if_splits)

locale byte_pieces =
  fixes wf :: "'p \<Rightarrow> bool" and bytes_of :: "'p \<Rightarrow> bytes"
    and split :: "'p \<Rightarrow> nat \<Rightarrow> ('p \<times> 'p, unit) result"
  assumes split_in_range: "wf p \<Longrightarrow> n \<le> length (bytes_of p) \<Longrightarrow>
      \<exists>l r. split p n = Ok (l, r) \<and> wf l \<and> wf r \<and>
        bytes_of l = take n (bytes_of p) \<and> bytes_of r = drop n (bytes_of p)"
begin

text \<open>Cutting a piece into consecutive parts of given sizes.\<close>

fun cuts :: "nat list \<Rightarrow> 'p \<Rightarrow> ('p list, unit) result" where
  "cuts [] p = Ok [p]"
| "cuts (n # ns) p = and_then (split p n) (\<lambda>(l, r). and_then (cuts ns r) (\<lambda>ps. Ok (l # ps)))"

lemma cuts_concat:
  "wf p \<Longrightarrow> sum_list ns \<le> length (bytes_of p) \<Longrightarrow>
   \<exists>ps. cuts ns p = Ok ps \<and> list_all wf ps \<and> concat (map bytes_of ps) = bytes_of p \<and>
     map (length \<circ> bytes_of) ps = ns @ [length (bytes_of p) - sum_list ns]"
proof (induction ns arbitrary: p)
  case Nil
  then show ?case by simp
next
  case (Cons n ns)
  then obtain l r where lr: "split p n = Ok (l, r)" "wf l" "wf r"
      "bytes_of l = take n (bytes_of p)" "bytes_of r = drop n (bytes_of p)"
    using split_in_range[of p n] by auto
  from lr Cons.prems have "sum_list ns \<le> length (bytes_of r)" by simp
  from Cons.IH[OF lr(3) this] obtain ps where "cuts ns r = Ok ps" "list_all wf ps"
      "concat (map bytes_of ps) = bytes_of r"
      "map (length \<circ> bytes_of) ps = ns @ [length (bytes_of r) - sum_list ns]"
    by blast
  with lr Cons.prems show ?case by (simp add: algebra_simps comp_def)
qed

end

interpretation pc: byte_pieces piece_wf piece_bytes "piece_split_at :: piece \<Rightarrow> nat \<Rightarrow> (piece \<times> piece, unit) result"
proof
  fix p n assume "piece_wf p" "n \<le> length (piece_bytes p)"
  moreover then obtain l r where "(piece_split_at p n :: (piece \<times> piece, unit) result) = Ok (l, r)"
    by (cases p) (auto simp: piece_split_at_wf)
  ultimately show "\<exists>l r. piece_split_at p n = (Ok (l, r) :: (piece \<times> piece, unit) result) \<and> piece_wf l \<and>
      piece_wf r \<and> piece_bytes l = take n (piece_bytes p) \<and> piece_bytes r = drop n (piece_bytes p)"
    using piece_split_at_bytes by blast
qed

fun split_sizes :: "nat list \<Rightarrow> piece \<Rightarrow> (piece list, unit) result" where
  "split_sizes [] p = Ok [p]"
| "split_sizes (n # ns) p =
     and_then (piece_split_at p n) (\<lambda>(l, r). and_then (split_sizes ns r) (\<lambda>ps. Ok (l # ps)))"

lemma split_sizes_cuts: "split_sizes ns p = pc.cuts ns p"
  by (induction ns arbitrary: p) (simp_all add: pc.cuts.simps)

text \<open>Cutting a piece again and again with \<open>split_at\<close> yields pieces of exactly the requested sizes
  whose bytes, read in order, are the bytes of the piece; neither the cuts nor the reads panic as long
  as the sizes fit.\<close>

lemma piece_splits_lossless:
  assumes "piece_wf p" and "sum_list ns \<le> length (piece_bytes p)"
  shows "\<exists>ps css. split_sizes ns p = Ok ps \<and> map piece_as_ref ps = map (Ok :: bytes \<Rightarrow> (bytes, unit) result) css \<and>
    concat css = piece_bytes p \<and> map length css = ns @ [length (piece_bytes p) - sum_list ns]"
proof -
  obtain ps where "split_sizes ns p = Ok ps" and wf: "list_all piece_wf ps"
      and "concat (map piece_bytes ps) = piece_bytes p"
      and "map (length \<circ> piece_bytes) ps = ns @ [length (piece_bytes p) - sum_list ns]"
    using pc.cuts_concat[OF assms] by (auto simp: split_sizes_cuts)
  moreover from wf have "map piece_as_ref ps = map (Ok :: bytes \<Rightarrow> (bytes, unit) result) (map piece_bytes ps)"
    by (induction ps) auto
  ultimately show ?thesis by (metis (no_types) map_map)
qed

section \<open>Lists as byte strings\<close>

lemma sum_lens_wf: "list_all piece_wf ps \<Longrightarrow> sum_lens ps = Ok (length (concat (map piece_bytes ps)))"
  by (induction ps) auto

lemma pl_len_wf: "pl_wf l \<Longrightarrow> pl_len l = Ok (length (pl_bytes l))"
  by (simp add: pl_len_def pl_wf_def pl_bytes_def sum_lens_wf)

text \<open>Lists of pieces are byte strings: \<open>preceded_by\<close> and \<open>followed_by\<close> put the bytes in front and
  behind, dropping a piece without bytes, the length is the number of bytes, and \<open>is_empty\<close> says that
  there are none, also when the list was made of an empty piece.\<close>

lemma piece_list_bytes:
  assumes "pl_wf l" and "piece_wf p"
  shows "(\<exists>f b. preceded_by l p = (Ok f :: (piece_list, 'e) result) \<and>
      followed_by l p = (Ok b :: (piece_list, 'e) result) \<and> pl_wf f \<and> pl_wf b \<and>
      pl_bytes f = piece_bytes p @ pl_bytes l \<and> pl_bytes b = pl_bytes l @ piece_bytes p \<and>
      num_pieces f \<le> Suc (num_pieces l)) \<and>
    pl_len l = (Ok (length (pl_bytes l)) :: (nat, 'e) result) \<and>
    pl_is_empty l = (Ok (pl_bytes l = []) :: (bool, 'e) result) \<and>
    pl_bytes (pl_single p) = piece_bytes p"
proof (intro conjI)
  show "\<exists>f b. preceded_by l p = (Ok f :: (piece_list, 'e) result) \<and>
      followed_by l p = (Ok b :: (piece_list, 'e) result) \<and> pl_wf f \<and> pl_wf b \<and>
      pl_bytes f = piece_bytes p @ pl_bytes l \<and> pl_bytes b = pl_bytes l @ piece_bytes p \<and>
      num_pieces f \<le> Suc (num_pieces l)"
    using assms by (cases "piece_bytes p = []")
      (simp_all add: preceded_by_def followed_by_def pl_push_front_def pl_push_back_def pl_wf_def
        pl_bytes_def num_pieces_def)
  show "pl_len l = (Ok (length (pl_bytes l)) :: (nat, 'e) result)"
    using assms by (simp add: pl_len_wf)
  show "pl_is_empty l = (Ok (pl_bytes l = []) :: (bool, 'e) result)"
    using assms by (simp add: pl_is_empty_def pl_len_wf) (simp add: pl_bytes_def)
  show "pl_bytes (pl_single p) = piece_bytes p"
    by (simp add: pl_single_def pl_bytes_def)
qed

lemma piece_splits_lossless_witness:
  "\<exists>ps css. split_sizes [2, 1] (Full (CoreVec (byte_str ''loona''))) = Ok ps \<and>
    map piece_as_ref ps = map (Ok :: bytes \<Rightarrow> (bytes, unit) result) css \<and>
    concat css = byte_str ''loona'' \<and> map length css = [2, 1, 2]"
  using piece_splits_lossless[of "Full (CoreVec (byte_str ''loona''))" "[2, 1]"]
  by (simp add: byte_str_def numeral_2_eq_2)

theorem piece_list_bytes_witness:
  "\<exists>f. preceded_by (pl_single (Slice (CoreStatic [1, 2, 3]) 1 2)) (Full (CoreRoll [7])) =
      (Ok f :: (piece_list, unit) result) \<and> pl_bytes f = [7, 2, 3]"
proof -
  let ?l = "pl_single (Slice (CoreStatic [1, 2, 3]) 1 2)" and ?p = "Full (CoreRoll [7])"
  have "pl_wf ?l" "piece_wf ?p" by (simp_all add: pl_wf_def pl_single_def)
  from piece_list_bytes[OF this, where 'e = unit]
  show ?thesis by (auto simp: pl_single_def pl_bytes_def)
qed

end
