(* ===== verification/Loona_Types.thy ===== *)
theory Loona_Types
  imports Buffet_Piece "HOL-Library.Multiset"
begin

text \<open>
  The HTTP vocabulary of \<open>crates/loona/src/types\<close>: methods, requests, responses, body chunks, the
  body made of a single piece, and the questions asked of a header map. A \<open>Piece\<close> or \<open>PieceStr\<close> is
  its bytes here (\<open>Buffet_Piece\<close> shows that pieces behave as bytes). The \<open>http\<close> package is a
  parameter: header names, header maps, and the parts of a URI, with \<open>http_spec\<close> for the documented
  behaviour that the proofs rely on.
\<close>

section \<open>The http package\<close>

text \<open>A \<open>HeaderMap<Piece>\<close> is represented by a list of names and values; what its operations do with
  the list is up to the package. An \<open>Authority\<close>, a \<open>Scheme\<close>, a \<open>PathAndQuery\<close> and a \<open>Uri\<close> are
  represented by bytes.\<close>

type_synonym headers = "header list"

record http =
  header_name_from_bytes :: "bytes \<Rightarrow> bytes option"
  hm_default :: headers
  hm_append :: "headers \<Rightarrow> bytes \<Rightarrow> bytes \<Rightarrow> headers"
  hm_get :: "headers \<Rightarrow> bytes \<Rightarrow> bytes option"
  hm_iter :: "headers \<Rightarrow> header list"
  hm_or_insert :: "headers \<Rightarrow> bytes \<Rightarrow> bytes \<Rightarrow> headers"
  scheme_from_str :: "bytes \<Rightarrow> bytes option"
  scheme_eq :: "bytes \<Rightarrow> bytes \<Rightarrow> bool"
  authority_from_str :: "bytes \<Rightarrow> bytes option"
  authority_eq :: "bytes \<Rightarrow> bytes \<Rightarrow> bool"
  path_and_query_from_str :: "bytes \<Rightarrow> bytes option"
  uri_from_parts :: "bytes \<Rightarrow> bytes option \<Rightarrow> bytes \<Rightarrow> bytes option"

text \<open>
  The header map: appending a value to a name leaves the values of other names and shows in the
  iteration; \<open>entry(name).or_insert_with\<close> keeps a value that is there.
\<close>

definition http_spec :: "http \<Rightarrow> bool" where
  "http_spec h \<longleftrightarrow>
     (\<forall>n. hm_get h (hm_default h) n = None) \<and>
     (\<forall>m n v k. hm_get h (hm_append h m n v) k =
        (if k = n \<and> hm_get h m n = None then Some v else hm_get h m k)) \<and>
     (\<forall>m n v k. hm_get h (hm_or_insert h m n v) k =
        (if k = n \<and> hm_get h m n = None then Some v else hm_get h m k)) \<and>
     hm_iter h (hm_default h) = [] \<and>
     (\<forall>m n v. mset (hm_iter h (hm_append h m n v)) = add_mset (n, v) (mset (hm_iter h m)))"

text \<open>The header names the code refers to.\<close>

definition CONTENT_LENGTH :: bytes where "CONTENT_LENGTH = byte_str ''content-length''"
definition CONNECTION_NAME :: bytes where "CONNECTION_NAME = byte_str ''connection''"
definition TRANSFER_ENCODING :: bytes where "TRANSFER_ENCODING = byte_str ''transfer-encoding''"
definition EXPECT :: bytes where "EXPECT = byte_str ''expect''"
definition UPGRADE :: bytes where "UPGRADE = byte_str ''upgrade''"
definition TE :: bytes where "TE = byte_str ''te''"
definition HOST :: bytes where "HOST = byte_str ''host''"

section \<open>Questions asked of headers\<close>

definition to_ascii_lowercase :: "u8 \<Rightarrow> u8" where
  "to_ascii_lowercase b = (if 0x41 \<le> b \<and> b \<le> 0x5A then b + 32 else b)"

definition eq_ignore_ascii_case :: "bytes \<Rightarrow> bytes \<Rightarrow> bool" where
  "eq_ignore_ascii_case a b \<longleftrightarrow> map to_ascii_lowercase a = map to_ascii_lowercase b"

text \<open>\<open>u64\<close> arithmetic that is checked by the code.\<close>

definition U64 :: nat where "U64 = 2 ^ 64"

definition checked_u64 :: "nat \<Rightarrow> nat option" where
  "checked_u64 n = (if n < U64 then Some n else None)"

fun from_digits_loop :: "nat \<Rightarrow> bytes \<Rightarrow> nat option" where
  "from_digits_loop res [] = Some res"
| "from_digits_loop res (b # bs) =
     (if 0x30 \<le> b \<and> b \<le> 0x39 then
        (case checked_u64 (res * 10) of
           None \<Rightarrow> None
         | Some res \<Rightarrow>
             (case checked_u64 (res + unat (b - 0x30)) of
                None \<Rightarrow> None
              | Some res \<Rightarrow> from_digits_loop res bs))
      else None)"

definition from_digits :: "bytes \<Rightarrow> nat option" where
  "from_digits bs = (if bs = [] then None else from_digits_loop 0 bs)"

definition content_length :: "http \<Rightarrow> headers \<Rightarrow> nat option" where
  "content_length h hs = Option.bind (hm_get h hs CONTENT_LENGTH) from_digits"

definition header_matches :: "http \<Rightarrow> headers \<Rightarrow> bytes \<Rightarrow> string \<Rightarrow> bool" where
  "header_matches h hs name expected =
     (case hm_get h hs name of
        None \<Rightarrow> False
      | Some v \<Rightarrow> eq_ignore_ascii_case v (byte_str expected))"

definition is_connection_close :: "http \<Rightarrow> headers \<Rightarrow> bool" where
  "is_connection_close h hs = header_matches h hs CONNECTION_NAME ''close''"

definition is_chunked_transfer_encoding :: "http \<Rightarrow> headers \<Rightarrow> bool" where
  "is_chunked_transfer_encoding h hs = header_matches h hs TRANSFER_ENCODING ''chunked''"

definition expects_100_continue :: "http \<Rightarrow> headers \<Rightarrow> bool" where
  "expects_100_continue h hs = header_matches h hs EXPECT ''100-continue''"

text \<open>An instance of the header map for the witnesses: a list in which the first value counts.\<close>

definition http_list :: http where
  "http_list = \<lparr>header_name_from_bytes = (\<lambda>n. if n = [] then None else Some (map to_ascii_lowercase n)),
     hm_default = [], hm_append = (\<lambda>m n v. m @ [(n, v)]), hm_get = (\<lambda>m. map_of m),
     hm_iter = (\<lambda>m. m), hm_or_insert = (\<lambda>m n v. if map_of m n = None then m @ [(n, v)] else m),
     scheme_from_str = (\<lambda>s. if s = [] then None else Some s), scheme_eq = (=),
     authority_from_str = (\<lambda>s. if s = [] then None else Some s), authority_eq = (=),
     path_and_query_from_str = Some, uri_from_parts = (\<lambda>s a p. Some p)\<rparr>"

lemma http_list_spec: "http_spec http_list"
  by (auto simp: http_spec_def http_list_def map_add_def split: option.splits)

section \<open>Methods, requests and responses\<close>

datatype req_method =
  Get | Head | Post | Put | Delete | Connect | Options | Trace | Other bytes

definition method_from :: "bytes \<Rightarrow> req_method" where
  "method_from s =
     (if s = byte_str ''GET'' then Get
      else if s = byte_str ''HEAD'' then Head
      else if s = byte_str ''POST'' then Post
      else if s = byte_str ''PUT'' then Put
      else if s = byte_str ''DELETE'' then Delete
      else if s = byte_str ''CONNECT'' then Connect
      else if s = byte_str ''OPTIONS'' then Options
      else if s = byte_str ''TRACE'' then Trace
      else Other s)"

fun into_chunk :: "req_method \<Rightarrow> bytes" where
  "into_chunk Get = byte_str ''GET''"
| "into_chunk Head = byte_str ''HEAD''"
| "into_chunk Post = byte_str ''POST''"
| "into_chunk Put = byte_str ''PUT''"
| "into_chunk Delete = byte_str ''DELETE''"
| "into_chunk Connect = byte_str ''CONNECT''"
| "into_chunk Options = byte_str ''OPTIONS''"
| "into_chunk Trace = byte_str ''TRACE''"
| "into_chunk (Other s) = s"

datatype version = HTTP_10 | HTTP_11 | HTTP_2

record request =
  rq_method :: req_method
  rq_uri :: bytes
  rq_version :: version
  rq_headers :: headers

record response =
  rs_version :: version
  rs_status :: nat
  rs_headers :: headers

definition is_informational :: "nat \<Rightarrow> bool" where
  "is_informational status \<longleftrightarrow> 100 \<le> status \<and> status < 200"

definition means_empty_body :: "response \<Rightarrow> bool" where
  "means_empty_body res \<longleftrightarrow> rs_status res = 204 \<or> rs_status res = 304"

section \<open>Bodies\<close>

datatype body_chunk = Chunk bytes | Done "headers option"

text \<open>The trait \<open>Body\<close> as a record of its operations.\<close>

record ('b, 'e) body_ops =
  body_content_len :: "'b \<Rightarrow> nat option"
  body_eof :: "'b \<Rightarrow> bool"
  body_next_chunk :: "'b \<Rightarrow> (body_chunk, 'e) result \<times> 'b"

record single_piece_body =
  spb_content_len :: nat
  spb_piece :: "bytes option"

definition single_piece_body_new :: "bytes \<Rightarrow> single_piece_body" where
  "single_piece_body_new p = \<lparr>spb_content_len = length p, spb_piece = Some p\<rparr>"

definition spb_next_chunk :: "single_piece_body \<Rightarrow> (body_chunk, 'e) result \<times> single_piece_body" where
  "spb_next_chunk s =
     (case spb_piece s of
        Some p \<Rightarrow> (Ok (Chunk p), s\<lparr>spb_piece := None\<rparr>)
      | None \<Rightarrow> (Ok (Done None), s))"

definition single_piece_body :: "(single_piece_body, 'e) body_ops" where
  "single_piece_body =
     \<lparr>body_content_len = (\<lambda>s. Some (spb_content_len s)), body_eof = (\<lambda>s. spb_piece s = None),
      body_next_chunk = spb_next_chunk\<rparr>"

definition unit_body :: "(unit, 'e) body_ops" where
  "unit_body =
     \<lparr>body_content_len = (\<lambda>_. Some 0), body_eof = (\<lambda>_. True),
      body_next_chunk = (\<lambda>s. (Ok (Done None), s))\<rparr>"

text \<open>A list of pieces is the list of their bytes; \<open>push_back\<close> drops an empty piece.\<close>

definition plist_push_back :: "bytes list \<Rightarrow> bytes \<Rightarrow> bytes list" where
  "plist_push_back plist p = (if p = [] then plist else plist @ [p])"

lemma concat_plist_push_back [simp]: "concat (plist_push_back plist p) = concat plist @ p"
  by (simp add: plist_push_back_def)

text \<open>How serving a connection ends.\<close>

datatype serve_outcome =
  ClientRequestedConnectionClose
| ServerRequestedConnectionClose
| ClientClosedConnectionBetweenRequests
| ClientDidntSpeakHttp11
| RequestHeadersTooLargeOnHttp1Conn
| ClientDidntSpeakHttp2
| SuccessfulHttp2GracefulShutdown

section \<open>Decimal numbers\<close>

text \<open>\<open>format!("{n}")\<close>.\<close>

function dec_bytes :: "nat \<Rightarrow> bytes" where
  "dec_bytes n = (if n < 10 then [0x30 + of_nat n] else dec_bytes (n div 10) @ [0x30 + of_nat (n mod 10)])"
  by pat_completeness auto
termination by (relation "measure id") auto

declare dec_bytes.simps [simp del]

definition is_digit :: "u8 \<Rightarrow> bool" where
  "is_digit b \<longleftrightarrow> 0x30 \<le> b \<and> b \<le> 0x39"

fun dec_value :: "nat \<Rightarrow> bytes \<Rightarrow> nat" where
  "dec_value acc [] = acc"
| "dec_value acc (b # bs) = dec_value (acc * 10 + unat (b - 0x30)) bs"

lemma length_dec_bytes: "n < 10 ^ k \<Longrightarrow> 0 < k \<Longrightarrow> length (dec_bytes n) \<le> k"
proof (induction k arbitrary: n)
  case (Suc k)
  show ?case
  proof (cases "n < 10")
    case True
    then show ?thesis by (subst dec_bytes.simps) simp
  next
    case False
    then have "0 < k" using Suc.prems(1) by (cases k) auto
    moreover have "n div 10 < 10 ^ k" using Suc.prems(1) by (simp add: less_mult_imp_div_less mult.commute)
    ultimately have "length (dec_bytes (n div 10)) \<le> k" using Suc.IH by blast
    then show ?thesis using False by (subst dec_bytes.simps) simp
  qed
qed simp

lemma dec_value_mono: "acc \<le> dec_value acc bs"
proof (induction bs arbitrary: acc)
  case (Cons b bs)
  have "acc \<le> acc * 10 + unat (b - 0x30)" by simp
  also have "\<dots> \<le> dec_value acc (b # bs)" using Cons.IH by simp
  finally show ?case .
qed simp

lemma from_digits_loop_value:
  "acc < U64 \<Longrightarrow>
   from_digits_loop acc bs =
     (if list_all is_digit bs \<and> dec_value acc bs < U64 then Some (dec_value acc bs) else None)"
proof (induction bs arbitrary: acc)
  case (Cons b bs)
  let ?n = "acc * 10 + unat (b - 0x30)"
  show ?case
  proof (cases "?n < U64")
    case True
    then show ?thesis
      using Cons.IH[of ?n] by (auto simp: checked_u64_def is_digit_def)
  next
    case False
    then have "\<not> dec_value ?n bs < U64" using dec_value_mono[of ?n bs] by linarith
    with False show ?thesis by (auto simp: checked_u64_def)
  qed
qed simp

lemma dec_value_append: "dec_value acc (xs @ [b]) = dec_value acc xs * 10 + unat (b - 0x30)"
  by (induction xs arbitrary: acc) auto

lemma digit_byte:
  assumes "d < 10"
  shows "is_digit (0x30 + of_nat d)" and "unat ((0x30 + of_nat d :: u8) - 0x30) = d"
proof -
  have *: "unat (of_nat d :: u8) = d" using assms by (simp add: unat_of_nat)
  then show "unat ((0x30 + of_nat d :: u8) - 0x30) = d" by simp
  have "unat (0x30 + of_nat d :: u8) = 0x30 + d"
    using * assms by (simp add: unat_word_ariths)
  then show "is_digit (0x30 + of_nat d)" using assms by (simp add: is_digit_def word_le_nat_alt)
qed

lemma dec_bytes_digits: "dec_bytes n \<noteq> [] \<and> list_all is_digit (dec_bytes n) \<and> dec_value 0 (dec_bytes n) = n"
proof (induction n rule: less_induct)
  case (less n)
  show ?case
  proof (cases "n < 10")
    case True
    then show ?thesis using digit_byte[OF True] by (simp add: dec_bytes.simps[of n])
  next
    case False
    then have IH: "list_all is_digit (dec_bytes (n div 10))" "dec_value 0 (dec_bytes (n div 10)) = n div 10"
      using less.IH[of "n div 10"] by auto
    have d: "n mod 10 < 10" by simp
    with False IH digit_byte[OF d] show ?thesis
      by (simp add: dec_bytes.simps[of n] dec_value_append)
  qed
qed

lemma from_digits_dec_bytes: "n < U64 \<Longrightarrow> from_digits (dec_bytes n) = Some n"
  using dec_bytes_digits[of n] by (simp add: from_digits_def from_digits_loop_value U64_def)

text \<open>\<open>from_digits\<close> accepts exactly the non-empty strings of decimal digits whose value fits in 64
  bits, and returns that value; it reads back every number that \<open>format!\<close> prints.\<close>

lemma from_digits_correct:
  "(from_digits bs = Some n \<longleftrightarrow>
      bs \<noteq> [] \<and> list_all is_digit bs \<and> dec_value 0 bs = n \<and> n < 2 ^ 64) \<and>
   (from_digits (dec_bytes k) = (if k < 2 ^ 64 then Some k else None))"
  using from_digits_loop_value[of 0 bs] from_digits_dec_bytes[of k]
    from_digits_loop_value[of 0 "dec_bytes k"] dec_bytes_digits[of k]
  by (auto simp: from_digits_def U64_def split: if_splits)

text \<open>Reading a method and writing it again gives back the same bytes, for the known methods and for
  any other; writing a known method and reading it gives back the same method.\<close>

lemma method_roundtrip:
  "into_chunk (method_from s) = s \<and>
   method_from (into_chunk mt) = (case mt of Other k \<Rightarrow> method_from k | _ \<Rightarrow> mt)"
  by (cases mt) (auto simp: method_from_def byte_str_def)

end
