(* ===== verification/Responder.thy ===== *)
theory Responder
  imports Loona_Types
begin

text \<open>
  The responder (\<open>crates/loona/src/responder.rs\<close>), which a request handler uses to answer: its three
  type states, the operations that move between them, and the loop that copies a whole body. It works
  over any implementation of the trait \<open>Encoder\<close>, given here as a record of its operations. The
  locale \<open>recording_encoder\<close> states what the responder relies on, that an operation that succeeds
  puts its part of the answer on the wire and one that fails puts nothing; the lemmas in it show which
  answers a responder can produce and that an announced content length is kept.
\<close>

section \<open>The operations\<close>

record ('enc, 'e) encoder_ops =
  eo_write_response :: "'enc \<Rightarrow> response \<Rightarrow> (unit, 'e) result \<times> 'enc"
  eo_write_body_chunk :: "'enc \<Rightarrow> bytes \<Rightarrow> (unit, 'e) result \<times> 'enc"
  eo_write_body_end :: "'enc \<Rightarrow> (unit, 'e) result \<times> 'enc"
  eo_write_trailers :: "'enc \<Rightarrow> headers \<Rightarrow> (unit, 'e) result \<times> 'enc"

datatype 'e responder_error =
  InterimResponseMustHaveStatusCode1xx nat
| FinalResponseMustHaveStatusCodeGreaterThanOrEqualTo200 nat
| BodyLengthDoesNotMatchAnnouncedContentLength nat nat
| EncoderError 'e

datatype ('e, 'b) responder_or_body_error = ResponderErr "'e responder_error" | BodyErr 'b

text \<open>The type states \<open>ExpectResponseHeaders\<close> and \<open>ResponseDone\<close> hold nothing but the encoder.\<close>

record expect_response_body =
  announced_content_length :: "nat option"
  bytes_written :: nat

definition map_err_st :: "('e \<Rightarrow> 'd) \<Rightarrow> ('a, 'e) result \<times> 's \<Rightarrow> ('a, 'd) result \<times> 's" where
  "map_err_st g p = (map_err g (fst p), snd p)"

definition write_interim_response ::
    "('enc, 'e) encoder_ops \<Rightarrow> 'enc \<Rightarrow> response \<Rightarrow> (unit, 'e responder_error) result \<times> 'enc" where
  "write_interim_response eo enc res =
     (if \<not> is_informational (rs_status res)
      then (Err (InterimResponseMustHaveStatusCode1xx (rs_status res)), enc)
      else map_err_st EncoderError (eo_write_response eo enc res))"

definition write_final_response_internal ::
    "('enc, 'e) encoder_ops \<Rightarrow> 'enc \<Rightarrow> response \<Rightarrow> nat option \<Rightarrow>
     (expect_response_body, 'e responder_error) result \<times> 'enc" where
  "write_final_response_internal eo enc res announced =
     (if is_informational (rs_status res)
      then (Err (FinalResponseMustHaveStatusCodeGreaterThanOrEqualTo200 (rs_status res)), enc)
      else
        bind_st (map_err_st EncoderError (eo_write_response eo enc res)) (\<lambda>_ enc.
          (Ok \<lparr>announced_content_length = announced, bytes_written = 0\<rparr>, enc)))"

definition write_final_response ::
    "http \<Rightarrow> ('enc, 'e) encoder_ops \<Rightarrow> 'enc \<Rightarrow> response \<Rightarrow>
     (expect_response_body, 'e responder_error) result \<times> 'enc" where
  "write_final_response h eo enc res =
     write_final_response_internal eo enc res (content_length h (rs_headers res))"

text \<open>\<open>bytes_written += chunk.len() as u64\<close> panics on overflow.\<close>

definition write_chunk ::
    "('enc, 'e) encoder_ops \<Rightarrow> expect_response_body \<Rightarrow> 'enc \<Rightarrow> bytes \<Rightarrow>
     (expect_response_body, 'e responder_error) result \<times> 'enc" where
  "write_chunk eo st enc chunk =
     (if \<not> bytes_written st + length chunk < U64 then (Panic, enc)
      else
        bind_st (map_err_st EncoderError (eo_write_body_chunk eo enc chunk)) (\<lambda>_ enc.
          (Ok (st\<lparr>bytes_written := bytes_written st + length chunk\<rparr>), enc)))"

definition finish_body ::
    "('enc, 'e) encoder_ops \<Rightarrow> expect_response_body \<Rightarrow> 'enc \<Rightarrow> headers option \<Rightarrow>
     (unit, 'e responder_error) result \<times> 'enc" where
  "finish_body eo st enc trailers =
     bind_st
       (case announced_content_length st of
          Some announced \<Rightarrow>
            if bytes_written st \<noteq> announced
            then (Err (BodyLengthDoesNotMatchAnnouncedContentLength (bytes_written st) announced), enc)
            else (Ok (), enc)
        | None \<Rightarrow> (Ok (), enc)) (\<lambda>_ enc.
     bind_st (map_err_st EncoderError (eo_write_body_end eo enc)) (\<lambda>_ enc.
       (case trailers of
          Some trailers \<Rightarrow> map_err_st EncoderError (eo_write_trailers eo enc trailers)
        | None \<Rightarrow> (Ok (), enc))))"

text \<open>The copying loop need not end: the body decides.\<close>

partial_function (option) write_body_loop ::
    "('enc, 'e) encoder_ops \<Rightarrow> ('b, 'be) body_ops \<Rightarrow> expect_response_body \<Rightarrow> 'enc \<Rightarrow> 'b \<Rightarrow>
     ((unit, ('e, 'be) responder_or_body_error) result \<times> 'enc \<times> 'b) option" where
  "write_body_loop eo bops st enc body =
     (case body_next_chunk bops body of
        (Err e, body) \<Rightarrow> Some (Err (BodyErr e), enc, body)
      | (Panic, body) \<Rightarrow> Some (Panic, enc, body)
      | (Ok (Chunk chunk), body) \<Rightarrow>
          (case map_err_st ResponderErr (write_chunk eo st enc chunk) of
             (Ok st, enc) \<Rightarrow> write_body_loop eo bops st enc body
           | (Err e, enc) \<Rightarrow> Some (Err e, enc, body)
           | (Panic, enc) \<Rightarrow> Some (Panic, enc, body))
      | (Ok (Done trailers), body) \<Rightarrow>
          (case map_err_st ResponderErr (finish_body eo st enc trailers) of
             (res, enc) \<Rightarrow> Some (res, enc, body)))"

declare write_body_loop.simps [code]

definition announce_content_len :: "http \<Rightarrow> nat option \<Rightarrow> response \<Rightarrow> response" where
  "announce_content_len h clen res =
     (case clen of
        Some clen \<Rightarrow>
          res\<lparr>rs_headers := hm_or_insert h (rs_headers res) CONTENT_LENGTH (dec_bytes clen)\<rparr>
      | None \<Rightarrow> res)"

definition write_final_response_with_body ::
    "http \<Rightarrow> ('enc, 'e) encoder_ops \<Rightarrow> ('b, 'be) body_ops \<Rightarrow> 'enc \<Rightarrow> response \<Rightarrow> 'b \<Rightarrow>
     ((unit, ('e, 'be) responder_or_body_error) result \<times> 'enc \<times> 'b) option" where
  "write_final_response_with_body h eo bops enc res body =
     (let res = announce_content_len h (body_content_len bops body) res in
      case map_err_st ResponderErr (write_final_response h eo enc res) of
        (Ok st, enc) \<Rightarrow> write_body_loop eo bops st enc body
      | (Err e, enc) \<Rightarrow> Some (Err e, enc, body)
      | (Panic, enc) \<Rightarrow> Some (Panic, enc, body))"

section \<open>What goes out\<close>

text \<open>The parts of an answer, in the order they were put on the wire.\<close>

datatype answer = AnsResponse response | AnsChunk bytes | AnsEnd | AnsTrailers headers

fun chunk_bytes :: "answer list \<Rightarrow> bytes" where
  "chunk_bytes [] = []"
| "chunk_bytes (AnsChunk c # as) = c @ chunk_bytes as"
| "chunk_bytes (_ # as) = chunk_bytes as"

lemma chunk_bytes_append [simp]: "chunk_bytes (xs @ ys) = chunk_bytes xs @ chunk_bytes ys"
  by (induction xs rule: chunk_bytes.induct) auto

lemma chunk_bytes_chunks [simp]: "chunk_bytes (map AnsChunk cs) = concat cs"
  by (induction cs) auto

locale recording_encoder =
  fixes eo :: "('enc, 'e) encoder_ops" and sent :: "'enc \<Rightarrow> answer list"
  assumes response_sent: "eo_write_response eo enc res = (r, enc') \<Longrightarrow>
      sent enc' = (if r = Ok () then sent enc @ [AnsResponse res] else sent enc)"
    and chunk_sent: "eo_write_body_chunk eo enc c = (r, enc') \<Longrightarrow>
      sent enc' = (if r = Ok () then sent enc @ [AnsChunk c] else sent enc)"
    and end_sent: "eo_write_body_end eo enc = (r, enc') \<Longrightarrow>
      sent enc' = (if r = Ok () then sent enc @ [AnsEnd] else sent enc)"
    and trailers_sent: "eo_write_trailers eo enc ts = (r, enc') \<Longrightarrow>
      sent enc' = (if r = Ok () then sent enc @ [AnsTrailers ts] else sent enc)"
begin

lemma write_chunk_sent:
  assumes "write_chunk eo st enc c = (Ok st', enc')"
  shows "sent enc' = sent enc @ [AnsChunk c] \<and> bytes_written st' = bytes_written st + length c \<and>
    announced_content_length st' = announced_content_length st"
  using assms chunk_sent
  by (cases "eo_write_body_chunk eo enc c"; cases "fst (eo_write_body_chunk eo enc c)")
     (auto simp: write_chunk_def map_err_st_def split: if_splits)

lemma finish_body_sent:
  assumes "finish_body eo st enc trailers = (Ok (), enc')"
  shows "sent enc' = sent enc @ AnsEnd # (case trailers of None \<Rightarrow> [] | Some t \<Rightarrow> [AnsTrailers t]) \<and>
    (announced_content_length st = None \<or> announced_content_length st = Some (bytes_written st))"
proof -
  obtain r e1 where e: "eo_write_body_end eo enc = (r, e1)" by (cases "eo_write_body_end eo enc")
  with assms have r: "r = Ok ()"
    by (cases r) (auto simp: finish_body_def map_err_st_def split: option.splits if_splits)
  have s1: "sent e1 = sent enc @ [AnsEnd]" using end_sent[OF e] r by simp
  show ?thesis
  proof (cases trailers)
    case None
    with assms e r s1 show ?thesis
      by (auto simp: finish_body_def map_err_st_def split: option.splits if_splits)
  next
    case (Some t)
    obtain r2 e2 where t: "eo_write_trailers eo e1 t = (r2, e2)" by (cases "eo_write_trailers eo e1 t")
    with assms e r Some have "r2 = Ok ()" "enc' = e2"
      by (cases r2; auto simp: finish_body_def map_err_st_def split: option.splits if_splits)+
    with trailers_sent[OF t] s1 Some assms e r show ?thesis
      by (auto simp: finish_body_def map_err_st_def split: option.splits if_splits)
  qed
qed

text \<open>What the copying loop achieves when it returns \<open>Ok\<close>: it put out the chunks of the body and the
  end, and the number of bytes is the announced one.\<close>

definition loop_post ::
    "expect_response_body \<Rightarrow> 'enc \<Rightarrow> (unit, ('e, 'c) responder_or_body_error) result \<times> 'enc \<times> 'b \<Rightarrow> bool"
where
  "loop_post st enc r \<longleftrightarrow> (fst r = Ok () \<longrightarrow>
     (\<exists>cs ts. sent (fst (snd r)) = sent enc @ map AnsChunk cs @ AnsEnd # map AnsTrailers ts \<and>
       announced_content_length st \<in> {None, Some (bytes_written st + length (concat cs))}))"

lemma loop_post_fail [simp]: "loop_post st enc (Err e, r)" "loop_post st enc (Panic, r)"
  by (simp_all add: loop_post_def)

lemma loop_post_chunk:
  assumes "write_chunk eo st enc c = (Ok st1, e1)" and "loop_post st1 e1 r"
  shows "loop_post st enc r"
  unfolding loop_post_def
proof
  assume "fst r = Ok ()"
  with assms(2) obtain cs ts where
    "sent (fst (snd r)) = sent e1 @ map AnsChunk cs @ AnsEnd # map AnsTrailers ts"
    "announced_content_length st1 \<in> {None, Some (bytes_written st1 + length (concat cs))}"
    by (auto simp: loop_post_def)
  with write_chunk_sent[OF assms(1)]
  have "sent (fst (snd r)) = sent enc @ map AnsChunk (c # cs) @ AnsEnd # map AnsTrailers ts \<and>
     announced_content_length st \<in> {None, Some (bytes_written st + length (concat (c # cs)))}"
    by auto
  then show "\<exists>cs ts. sent (fst (snd r)) = sent enc @ map AnsChunk cs @ AnsEnd # map AnsTrailers ts \<and>
     announced_content_length st \<in> {None, Some (bytes_written st + length (concat cs))}"
    by blast
qed

lemma loop_post_done:
  assumes "finish_body eo st enc trailers = (fr, e1)"
  shows "loop_post st enc (map_err ResponderErr fr, e1, b)"
  unfolding loop_post_def
proof
  assume "fst (map_err ResponderErr fr, e1, b) = Ok ()"
  then have "fr = Ok ()" by (cases fr) auto
  with finish_body_sent[of st enc trailers e1] assms
  have "sent (fst (snd (map_err ResponderErr fr, e1, b))) =
      sent enc @ map AnsChunk [] @ AnsEnd # map AnsTrailers (case trailers of None \<Rightarrow> [] | Some t \<Rightarrow> [t]) \<and>
     announced_content_length st \<in> {None, Some (bytes_written st + length (concat []))}"
    by (auto split: option.splits)
  then show "\<exists>cs ts. sent (fst (snd (map_err ResponderErr fr, e1, b))) =
      sent enc @ map AnsChunk cs @ AnsEnd # map AnsTrailers ts \<and>
     announced_content_length st \<in> {None, Some (bytes_written st + length (concat cs))}"
    by blast
qed

lemma write_body_loop_post:
  fixes bops :: "('b, 'c) body_ops"
  assumes "write_body_loop eo bops st enc body = Some r"
  shows "loop_post st enc r"
proof -
  have "eo = eo \<longrightarrow> loop_post st enc r"
  proof (rule write_body_loop.raw_induct[OF _ assms, of "\<lambda>eo' _ st enc _ r. eo' = eo \<longrightarrow> loop_post st enc r"],
      intro impI)
    fix loop and eo' :: "('enc, 'e) encoder_ops" and bops' :: "('b, 'c) body_ops" and st enc body r
    assume IH: "\<And>eo' (bops' :: ('b, 'c) body_ops) st enc body r.
        loop eo' bops' st enc body = Some r \<Longrightarrow> eo' = eo \<longrightarrow> loop_post st enc r"
      and step: "(case body_next_chunk bops' body of
        (Err e, body) \<Rightarrow> Some (Err (BodyErr e), enc, body)
      | (Panic, body) \<Rightarrow> Some (Panic, enc, body)
      | (Ok (Chunk chunk), body) \<Rightarrow>
          (case map_err_st ResponderErr (write_chunk eo' st enc chunk) of
             (Ok st, enc) \<Rightarrow> loop eo' bops' st enc body
           | (Err e, enc) \<Rightarrow> Some (Err e, enc, body)
           | (Panic, enc) \<Rightarrow> Some (Panic, enc, body))
      | (Ok (Done trailers), body) \<Rightarrow>
          (case map_err_st ResponderErr (finish_body eo' st enc trailers) of
             (res, enc) \<Rightarrow> Some (res, enc, body))) = Some r"
      and eo': "eo' = eo"
    show "loop_post st enc r"
    proof (cases "body_next_chunk bops' body")
      case n: (Pair nr b1)
      consider (chunk) c where "nr = Ok (Chunk c)" | (finish) ts where "nr = Ok (Done ts)"
        | (fail) "\<forall>x. nr \<noteq> Ok x"
        by (metis body_chunk.exhaust)
      then show ?thesis
      proof cases
        case chunk
        show ?thesis
        proof (cases "write_chunk eo st enc c")
          case (Pair wr e1)
          show ?thesis
          proof (cases wr)
            case (Ok st1)
            with step n chunk eo' Pair have "loop eo bops' st1 e1 b1 = Some r"
              by (simp add: map_err_st_def)
            with IH have "loop_post st1 e1 r" by blast
            with Pair Ok show ?thesis by (auto intro: loop_post_chunk)
          qed (use step n chunk eo' Pair in \<open>auto simp: map_err_st_def\<close>)
        qed
      next
        case finish
        with step n eo' loop_post_done show ?thesis
          by (cases "finish_body eo st enc ts") (auto simp: map_err_st_def)
      next
        case fail
        with step n show ?thesis by (cases nr) auto
      qed
    qed
  qed
  then show ?thesis by simp
qed

lemma write_final_response_sent:
  assumes "write_final_response h eo enc res = (Ok st, enc')"
  shows "sent enc' = sent enc @ [AnsResponse res] \<and> bytes_written st = 0 \<and>
    announced_content_length st = content_length h (rs_headers res) \<and>
    \<not> is_informational (rs_status res)"
  using assms response_sent
  by (cases "eo_write_response eo enc res"; cases "fst (eo_write_response eo enc res)")
     (auto simp: write_final_response_def write_final_response_internal_def map_err_st_def
        split: if_splits)

lemma whole_answer:
  fixes bops :: "('b, 'c) body_ops"
  assumes "write_final_response_with_body h eo bops enc res body = Some (Ok (), enc', body')"
  shows "\<exists>cs ts. sent enc' = sent enc @ AnsResponse (announce_content_len h (body_content_len bops body) res) #
      map AnsChunk cs @ AnsEnd # map AnsTrailers ts \<and>
    \<not> is_informational (rs_status res) \<and>
    (content_length h (rs_headers (announce_content_len h (body_content_len bops body) res)) \<in>
       {None, Some (length (concat cs))})"
proof -
  let ?res = "announce_content_len h (body_content_len bops body) res"
  obtain wr e1 where w: "write_final_response h eo enc ?res = (wr, e1)"
    by (cases "write_final_response h eo enc ?res")
  with assms obtain st where st: "wr = Ok st" and loop: "write_body_loop eo bops st e1 body = Some (Ok (), enc', body')"
    by (cases wr) (auto simp: write_final_response_with_body_def Let_def map_err_st_def)
  note ws = write_final_response_sent[OF w[unfolded st]]
  have "rs_status ?res = rs_status res" by (simp add: announce_content_len_def split: option.split)
  with ws write_body_loop_post[OF loop] show ?thesis by (auto simp: loop_post_def)
qed

end

end
