(* ===== verification/H2_Frames.thy ===== *)
theory H2_Frames
  imports Buffet_Input Hpack_Primitives
begin

text \<open>
  HTTP/2 frames (\<open>crates/loona-h2/src/lib.rs\<close>): frame types and flags, the frame header with its
  parser and writer, the payloads with theirs, error codes and settings. A \<open>Roll\<close> given to a parser
  is its bytes (\<open>Buffet_Input\<close> relates splitting a roll to splitting its bytes); a payload is written
  into a slice of a \<open>RollMut\<close> by \<open>put_to_roll\<close>. The packages that the code calls are parameters: the
  number parsers and combinators of \<open>nom\<close>, the big-endian writers of \<open>byteorder\<close> and the bit sets of
  \<open>enumflags2\<close>, each with a predicate that states the documented behaviour used. A \<open>BitFlags<F>\<close> is
  the set of its flags.
\<close>

section \<open>The packages\<close>

text \<open>Big-endian numbers: \<open>to_be_bytes\<close> and \<open>from_be_bytes\<close> of the standard library.\<close>

definition u32_to_be_bytes :: "u32 \<Rightarrow> bytes" where
  "u32_to_be_bytes x = [ucast (drop_bit 24 x), ucast (drop_bit 16 x), ucast (drop_bit 8 x), ucast x]"

definition u16_to_be_bytes :: "u16 \<Rightarrow> bytes" where
  "u16_to_be_bytes x = [ucast (drop_bit 8 x), ucast x]"

definition u32_from_be_bytes :: "u8 \<Rightarrow> u8 \<Rightarrow> u8 \<Rightarrow> u8 \<Rightarrow> u32" where
  "u32_from_be_bytes a b c d =
     push_bit 24 (ucast a) OR push_bit 16 (ucast b) OR push_bit 8 (ucast c) OR ucast d"

definition u16_from_be_bytes :: "u8 \<Rightarrow> u8 \<Rightarrow> u16" where
  "u16_from_be_bytes a b = push_bit 8 (ucast a) OR ucast b"

text \<open>
  \<open>nom\<close>: streaming number parsers, and the combinators \<open>tuple\<close> and \<open>map\<close> at the types they are used
  at.
\<close>

record encoded_frame_type =
  eft_ty :: u8
  eft_flags :: u8

type_synonym stream_id = u32

record priority_spec =
  exclusive :: bool
  stream_dependency :: stream_id
  weight :: u8

record nom =
  be_u8 :: "u8 parser"
  be_u24 :: "u32 parser"
  be_u32 :: "u32 parser"
  nom_tag :: "bytes \<Rightarrow> bytes parser"
  nom_take :: "nat \<Rightarrow> bytes parser"
  tuple_u8_u8 :: "u8 parser \<Rightarrow> u8 parser \<Rightarrow> (u8 \<times> u8) parser"
  tuple_u32_u32 :: "u32 parser \<Rightarrow> u32 parser \<Rightarrow> (u32 \<times> u32) parser"
  tuple_frame :: "u32 parser \<Rightarrow> encoded_frame_type parser \<Rightarrow> (u8 \<times> stream_id) parser \<Rightarrow>
    (u32 \<times> encoded_frame_type \<times> (u8 \<times> stream_id)) parser"
  tuple_priority :: "(u8 \<times> stream_id) parser \<Rightarrow> u8 parser \<Rightarrow> ((u8 \<times> stream_id) \<times> u8) parser"
  map_priority :: "((u8 \<times> stream_id) \<times> u8) parser \<Rightarrow>
    ((u8 \<times> stream_id) \<times> u8 \<Rightarrow> priority_spec) \<Rightarrow> priority_spec parser"

definition seq2 :: "'a parser \<Rightarrow> 'b parser \<Rightarrow> ('a \<times> 'b) parser" where
  "seq2 p q i = and_then (p i) (\<lambda>(i, a). and_then (q i) (\<lambda>(i, b). Ok (i, (a, b))))"

text \<open>What the code relies on: a number parser takes its bytes off the input or reports that there are
  not enough; \<open>tuple\<close> runs its parsers one after the other; \<open>tag\<close> compares with the input; \<open>take\<close>
  takes a number of bytes.\<close>

definition nom_spec :: "nom \<Rightarrow> bool" where
  "nom_spec nom \<longleftrightarrow>
     (\<forall>i. be_u8 nom i = (case i of a # r \<Rightarrow> Ok (r, a) | _ \<Rightarrow> Err Incomplete)) \<and>
     (\<forall>i. be_u24 nom i =
        (case i of a # b # c # r \<Rightarrow> Ok (r, u32_from_be_bytes 0 a b c) | _ \<Rightarrow> Err Incomplete)) \<and>
     (\<forall>i. be_u32 nom i =
        (case i of a # b # c # d # r \<Rightarrow> Ok (r, u32_from_be_bytes a b c d) | _ \<Rightarrow> Err Incomplete)) \<and>
     (\<forall>t i. nom_tag nom t i =
        (case roll_compare i t of
           CompareOk \<Rightarrow> Ok (drop (length t) i, take (length t) i)
         | CompareIncomplete \<Rightarrow> Err Incomplete
         | CompareError \<Rightarrow> Err NomError)) \<and>
     (\<forall>n i. nom_take nom n i = (if length i < n then Err Incomplete else Ok (drop n i, take n i))) \<and>
     (\<forall>p q. tuple_u8_u8 nom p q = seq2 p q) \<and>
     (\<forall>p q. tuple_u32_u32 nom p q = seq2 p q) \<and>
     (\<forall>p q r. tuple_frame nom p q r = seq2 p (seq2 q r)) \<and>
     (\<forall>p q. tuple_priority nom p q = seq2 p q) \<and>
     (\<forall>p f i. map_priority nom p f i = and_then (p i) (\<lambda>(i, a). Ok (i, f a)))"

text \<open>\<open>byteorder\<close>: \<open>WriteBytesExt\<close> over any writer. A 24-bit number that does not fit is outside the
  documented use.\<close>

record ('w, 'e) byteorder =
  write_u8 :: "('w, 'e) writer \<Rightarrow> 'w \<Rightarrow> u8 \<Rightarrow> (unit, 'e) result \<times> 'w"
  write_u16_be :: "('w, 'e) writer \<Rightarrow> 'w \<Rightarrow> u16 \<Rightarrow> (unit, 'e) result \<times> 'w"
  write_u24_be :: "('w, 'e) writer \<Rightarrow> 'w \<Rightarrow> u32 \<Rightarrow> (unit, 'e) result \<times> 'w"
  write_u32_be :: "('w, 'e) writer \<Rightarrow> 'w \<Rightarrow> u32 \<Rightarrow> (unit, 'e) result \<times> 'w"

definition byteorder_spec :: "('w, 'e) byteorder \<Rightarrow> bool" where
  "byteorder_spec bo \<longleftrightarrow>
     (\<forall>wa w n. write_u8 bo wa w n = wa w [n]) \<and>
     (\<forall>wa w n. write_u16_be bo wa w n = wa w (u16_to_be_bytes n)) \<and>
     (\<forall>wa w n. unat n < 2 ^ 24 \<longrightarrow> write_u24_be bo wa w n = wa w (tl (u32_to_be_bytes n))) \<and>
     (\<forall>wa w n. write_u32_be bo wa w n = wa w (u32_to_be_bytes n))"

section \<open>Frame types\<close>

datatype raw_frame_type =
  RawData | RawHeaders | RawPriority | RawRstStream | RawSettings | RawPushPromise | RawPing
| RawGoAway | RawWindowUpdate | RawContinuation

fun raw_frame_type_repr :: "raw_frame_type \<Rightarrow> u8" where
  "raw_frame_type_repr RawData = 0x00"
| "raw_frame_type_repr RawHeaders = 0x01"
| "raw_frame_type_repr RawPriority = 0x02"
| "raw_frame_type_repr RawRstStream = 0x03"
| "raw_frame_type_repr RawSettings = 0x04"
| "raw_frame_type_repr RawPushPromise = 0x05"
| "raw_frame_type_repr RawPing = 0x06"
| "raw_frame_type_repr RawGoAway = 0x07"
| "raw_frame_type_repr RawWindowUpdate = 0x08"
| "raw_frame_type_repr RawContinuation = 0x09"

definition raw_frame_type_from_repr :: "u8 \<Rightarrow> raw_frame_type option" where
  "raw_frame_type_from_repr value =
     (if value = 0x00 then Some RawData
      else if value = 0x01 then Some RawHeaders
      else if value = 0x02 then Some RawPriority
      else if value = 0x03 then Some RawRstStream
      else if value = 0x04 then Some RawSettings
      else if value = 0x05 then Some RawPushPromise
      else if value = 0x06 then Some RawPing
      else if value = 0x07 then Some RawGoAway
      else if value = 0x08 then Some RawWindowUpdate
      else if value = 0x09 then Some RawContinuation
      else None)"

datatype data_flags = DataPadded | DataEndStream
datatype headers_flags = HeadersPriority | HeadersPadded | HeadersEndHeaders | HeadersEndStream
datatype settings_flags = SettingsAck
datatype ping_flags = PingAck
datatype continuation_flags = ContinuationEndHeaders

fun data_flag_repr :: "data_flags \<Rightarrow> u8" where
  "data_flag_repr DataPadded = 0x08"
| "data_flag_repr DataEndStream = 0x01"

fun headers_flag_repr :: "headers_flags \<Rightarrow> u8" where
  "headers_flag_repr HeadersPriority = 0x20"
| "headers_flag_repr HeadersPadded = 0x08"
| "headers_flag_repr HeadersEndHeaders = 0x04"
| "headers_flag_repr HeadersEndStream = 0x01"

fun settings_flag_repr :: "settings_flags \<Rightarrow> u8" where
  "settings_flag_repr SettingsAck = 0x01"

fun ping_flag_repr :: "ping_flags \<Rightarrow> u8" where
  "ping_flag_repr PingAck = 0x01"

fun continuation_flag_repr :: "continuation_flags \<Rightarrow> u8" where
  "continuation_flag_repr ContinuationEndHeaders = 0x04"

datatype frame_type =
  Data "data_flags set"
| Headers "headers_flags set"
| Priority
| RstStream
| Settings "settings_flags set"
| PushPromise
| Ping "ping_flags set"
| GoAway
| WindowUpdate
| Continuation "continuation_flags set"
| Unknown encoded_frame_type

text \<open>\<open>enumflags2\<close>: \<open>bits\<close> and \<open>from_bits_truncate\<close> at the five flag types.\<close>

record enumflags =
  data_bits :: "data_flags set \<Rightarrow> u8"
  data_from_bits :: "u8 \<Rightarrow> data_flags set"
  headers_bits :: "headers_flags set \<Rightarrow> u8"
  headers_from_bits :: "u8 \<Rightarrow> headers_flags set"
  settings_bits :: "settings_flags set \<Rightarrow> u8"
  settings_from_bits :: "u8 \<Rightarrow> settings_flags set"
  ping_bits :: "ping_flags set \<Rightarrow> u8"
  ping_from_bits :: "u8 \<Rightarrow> ping_flags set"
  continuation_bits :: "continuation_flags set \<Rightarrow> u8"
  continuation_from_bits :: "u8 \<Rightarrow> continuation_flags set"

fun flags_or :: "('f \<Rightarrow> u8) \<Rightarrow> 'f list \<Rightarrow> 'f set \<Rightarrow> u8" where
  "flags_or repr [] F = 0"
| "flags_or repr (f # fs) F = (if f \<in> F then repr f else 0) OR flags_or repr fs F"

definition flags_of :: "('f \<Rightarrow> u8) \<Rightarrow> 'f list \<Rightarrow> u8 \<Rightarrow> 'f set" where
  "flags_of repr fs b = set (filter (\<lambda>f. repr f AND b \<noteq> 0) fs)"

definition enumflags_spec :: "enumflags \<Rightarrow> bool" where
  "enumflags_spec ef \<longleftrightarrow>
     (\<forall>F. data_bits ef F = flags_or data_flag_repr [DataPadded, DataEndStream] F) \<and>
     (\<forall>b. data_from_bits ef b = flags_of data_flag_repr [DataPadded, DataEndStream] b) \<and>
     (\<forall>F. headers_bits ef F =
        flags_or headers_flag_repr [HeadersPriority, HeadersPadded, HeadersEndHeaders, HeadersEndStream] F) \<and>
     (\<forall>b. headers_from_bits ef b =
        flags_of headers_flag_repr [HeadersPriority, HeadersPadded, HeadersEndHeaders, HeadersEndStream] b) \<and>
     (\<forall>F. settings_bits ef F = flags_or settings_flag_repr [SettingsAck] F) \<and>
     (\<forall>b. settings_from_bits ef b = flags_of settings_flag_repr [SettingsAck] b) \<and>
     (\<forall>F. ping_bits ef F = flags_or ping_flag_repr [PingAck] F) \<and>
     (\<forall>b. ping_from_bits ef b = flags_of ping_flag_repr [PingAck] b) \<and>
     (\<forall>F. continuation_bits ef F = flags_or continuation_flag_repr [ContinuationEndHeaders] F) \<and>
     (\<forall>b. continuation_from_bits ef b = flags_of continuation_flag_repr [ContinuationEndHeaders] b)"

definition eft_from :: "raw_frame_type \<Rightarrow> u8 \<Rightarrow> encoded_frame_type" where
  "eft_from ty flags = \<lparr>eft_ty = raw_frame_type_repr ty, eft_flags = flags\<rparr>"

fun frame_type_encode :: "enumflags \<Rightarrow> frame_type \<Rightarrow> encoded_frame_type" where
  "frame_type_encode ef (Data f) = eft_from RawData (data_bits ef f)"
| "frame_type_encode ef (Headers f) = eft_from RawHeaders (headers_bits ef f)"
| "frame_type_encode ef Priority = eft_from RawPriority 0"
| "frame_type_encode ef RstStream = eft_from RawRstStream 0"
| "frame_type_encode ef (Settings f) = eft_from RawSettings (settings_bits ef f)"
| "frame_type_encode ef PushPromise = eft_from RawPushPromise 0"
| "frame_type_encode ef (Ping f) = eft_from RawPing (ping_bits ef f)"
| "frame_type_encode ef GoAway = eft_from RawGoAway 0"
| "frame_type_encode ef WindowUpdate = eft_from RawWindowUpdate 0"
| "frame_type_encode ef (Continuation f) = eft_from RawContinuation (continuation_bits ef f)"
| "frame_type_encode ef (Unknown ft) = ft"

definition frame_type_decode :: "enumflags \<Rightarrow> encoded_frame_type \<Rightarrow> frame_type" where
  "frame_type_decode ef ft =
     (case raw_frame_type_from_repr (eft_ty ft) of
        Some ty \<Rightarrow>
          (case ty of
             RawData \<Rightarrow> Data (data_from_bits ef (eft_flags ft))
           | RawHeaders \<Rightarrow> Headers (headers_from_bits ef (eft_flags ft))
           | RawPriority \<Rightarrow> Priority
           | RawRstStream \<Rightarrow> RstStream
           | RawSettings \<Rightarrow> Settings (settings_from_bits ef (eft_flags ft))
           | RawPushPromise \<Rightarrow> PushPromise
           | RawPing \<Rightarrow> Ping (ping_from_bits ef (eft_flags ft))
           | RawGoAway \<Rightarrow> GoAway
           | RawWindowUpdate \<Rightarrow> WindowUpdate
           | RawContinuation \<Rightarrow> Continuation (continuation_from_bits ef (eft_flags ft)))
      | None \<Rightarrow> Unknown ft)"

section \<open>The frame header\<close>

definition CONNECTION :: stream_id where
  "CONNECTION = 0"

definition is_server_initiated :: "stream_id \<Rightarrow> bool" where
  "is_server_initiated sid = (sid mod 2 = 0)"

definition stream_id_try_from :: "u32 \<Rightarrow> (stream_id, u32) result" where
  "stream_id_try_from value = (if value AND 0x80000000 \<noteq> 0 then Err value else Ok value)"

record frame =
  ftype :: frame_type
  reserved :: u8
  fstream_id :: stream_id
  flen :: u32

definition frame_new :: "frame_type \<Rightarrow> stream_id \<Rightarrow> frame" where
  "frame_new frame_type sid = \<lparr>ftype = frame_type, reserved = 0, fstream_id = sid, flen = 0\<rparr>"

definition into_frame :: "frame_type \<Rightarrow> stream_id \<Rightarrow> frame" where
  "into_frame frame_type sid = \<lparr>ftype = frame_type, reserved = 0, fstream_id = sid, flen = 0\<rparr>"

definition with_len :: "frame \<Rightarrow> u32 \<Rightarrow> frame" where
  "with_len f len = f\<lparr>flen := len\<rparr>"

definition encoded_frame_type_parse :: "nom \<Rightarrow> encoded_frame_type parser" where
  "encoded_frame_type_parse nom i =
     and_then (tuple_u8_u8 nom (be_u8 nom) (be_u8 nom) i) (\<lambda>(i, (ty, flags)).
       Ok (i, \<lparr>eft_ty = ty, eft_flags = flags\<rparr>))"

definition parse_bit_and_u31 :: "nom \<Rightarrow> (u8 \<times> u32) parser" where
  "parse_bit_and_u31 nom i =
     and_then (be_u32 nom i) (\<lambda>(i, x).
       let bt = ucast (drop_bit 31 x); val = x AND 0x7FFFFFFF in Ok (i, (bt, val)))"

definition parse_reserved_and_stream_id :: "nom \<Rightarrow> (u8 \<times> stream_id) parser" where
  "parse_reserved_and_stream_id nom i =
     and_then (parse_bit_and_u31 nom i) (\<lambda>(i, (rsv, sid)). Ok (i, (rsv, sid)))"

definition pack_bit_and_u31 :: "u8 \<Rightarrow> u32 \<Rightarrow> (bytes, 'e) result" where
  "pack_bit_and_u31 bt val =
     (if val AND 0x7FFFFFFF \<noteq> val then Panic
      else if bt AND 0x1 \<noteq> bt then Panic
      else
        let bytes = u32_to_be_bytes val
        in Ok (if bt \<noteq> 0 then bytes[0 := bytes ! 0 OR 0x80] else bytes))"

definition pack_reserved_and_stream_id :: "u8 \<Rightarrow> stream_id \<Rightarrow> (bytes, 'e) result" where
  "pack_reserved_and_stream_id rsv sid = pack_bit_and_u31 rsv sid"

definition frame_parse :: "nom \<Rightarrow> enumflags \<Rightarrow> frame parser" where
  "frame_parse nom ef i =
     and_then (tuple_frame nom (be_u24 nom) (encoded_frame_type_parse nom)
                 (parse_reserved_and_stream_id nom) i)
       (\<lambda>(i, (len, ft, (rsv, sid))).
         Ok (i, \<lparr>ftype = frame_type_decode ef ft, reserved = rsv, fstream_id = sid, flen = len\<rparr>))"

definition frame_write_into ::
    "enumflags \<Rightarrow> ('w, 'e) byteorder \<Rightarrow> ('w, 'e) writer \<Rightarrow> frame \<Rightarrow> 'w \<Rightarrow> (unit, 'e) result \<times> 'w" where
  "frame_write_into ef bo write_all f w =
     bind_st (write_u24_be bo write_all w (flen f)) (\<lambda>_ w.
     let ft = frame_type_encode ef (ftype f) in
     bind_st (write_u8 bo write_all w (eft_ty ft)) (\<lambda>_ w.
     bind_st (write_u8 bo write_all w (eft_flags ft)) (\<lambda>_ w.
     bind_st (pack_reserved_and_stream_id (reserved f) (fstream_id f), w) (\<lambda>bs w.
       write_all w bs))))"

definition is_ack :: "frame \<Rightarrow> bool" where
  "is_ack f =
     (case ftype f of
        Settings flags \<Rightarrow> SettingsAck \<in> flags
      | Ping flags \<Rightarrow> PingAck \<in> flags
      | _ \<Rightarrow> False)"

definition is_end_headers :: "frame \<Rightarrow> bool" where
  "is_end_headers f =
     (case ftype f of
        Headers flags \<Rightarrow> HeadersEndHeaders \<in> flags
      | Continuation flags \<Rightarrow> ContinuationEndHeaders \<in> flags
      | _ \<Rightarrow> False)"

definition is_end_stream :: "frame \<Rightarrow> bool" where
  "is_end_stream f =
     (case ftype f of
        Data flags \<Rightarrow> DataEndStream \<in> flags
      | Headers flags \<Rightarrow> HeadersEndStream \<in> flags
      | _ \<Rightarrow> False)"

definition PREFACE :: bytes where
  "PREFACE = byte_str ''PRI * HTTP/2.0'' @ [13, 10, 13, 10] @ byte_str ''SM'' @ [13, 10, 13, 10]"

definition preface :: "nom \<Rightarrow> unit parser" where
  "preface nom i = and_then (nom_tag nom PREFACE i) (\<lambda>(i, _). Ok (i, ()))"

section \<open>Big-endian numbers\<close>

lemma u32_be_roundtrip:
  "u32_from_be_bytes (ucast (drop_bit 24 x)) (ucast (drop_bit 16 x)) (ucast (drop_bit 8 x)) (ucast x) = x"
proof (rule bit_word_eqI)
  fix n assume n: "n < LENGTH(32)"
  then consider "n < 8" | "8 \<le> n" "n < 16" | "16 \<le> n" "n < 24" | "24 \<le> n" "n < 32" by fastforce
  then show "bit (u32_from_be_bytes (ucast (drop_bit 24 x)) (ucast (drop_bit 16 x))
      (ucast (drop_bit 8 x)) (ucast x)) n = bit x n"
    by cases (auto simp: u32_from_be_bytes_def bit_simps)
qed

lemma u16_be_roundtrip: "u16_from_be_bytes (ucast (drop_bit 8 x)) (ucast x) = x"
proof (rule bit_word_eqI)
  fix n assume "n < LENGTH(16)"
  then consider "n < 8" | "8 \<le> n" "n < 16" by fastforce
  then show "bit (u16_from_be_bytes (ucast (drop_bit 8 x)) (ucast x)) n = bit x n"
    by cases (auto simp: u16_from_be_bytes_def bit_simps)
qed

lemma unat_high_bit: "unat (x :: 'a::len word) < 2 ^ k \<Longrightarrow> k \<le> n \<Longrightarrow> \<not> bit x n"
  using not_bit_high[of "unat x" k n] by (auto simp: bit_unsigned_iff dest: bit_imp_le_length)

lemma u24_top_zero: "unat (x :: u32) < 2 ^ 24 \<Longrightarrow> drop_bit 24 x = 0"
  by (rule bit_word_eqI) (simp add: bit_simps unat_high_bit[of x 24])

lemma u24_be_bytes:
  "unat x < 2 ^ 24 \<Longrightarrow>
   u32_from_be_bytes 0 (ucast (drop_bit 16 x)) (ucast (drop_bit 8 x)) (ucast x) = x"
  using u32_be_roundtrip[of x] by (simp add: u24_top_zero)

lemma u24_be_bound: "unat (u32_from_be_bytes 0 a b c) < 2 ^ 24"
proof -
  have "take_bit 24 (u32_from_be_bytes 0 a b c) = u32_from_be_bytes 0 a b c"
    by (rule bit_word_eqI) (auto simp: u32_from_be_bytes_def bit_simps dest: bit_imp_le_length)
  then have "unat (u32_from_be_bytes 0 a b c) = take_bit 24 (unat (u32_from_be_bytes 0 a b c))"
    by (metis unsigned_take_bit_eq)
  then show ?thesis by (metis take_bit_nat_less_exp)
qed

lemma u32_be_top_bit:
  "u32_from_be_bytes (a OR 0x80) b c d = u32_from_be_bytes a b c d OR 0x80000000"
proof -
  have "ucast (a OR 0x80 :: u8) = (ucast a OR 0x80 :: u32)"
    by (simp add: unsigned_or_eq)
  then show ?thesis
    by (simp add: u32_from_be_bytes_def push_bit_or) (simp add: ac_simps)
qed

section \<open>The reserved bit\<close>

lemma top_bit_31: "x AND 0x7FFFFFFF = (x :: u32) \<Longrightarrow> drop_bit 31 x = 0"
proof -
  assume "x AND 0x7FFFFFFF = x"
  then have "drop_bit 31 x = drop_bit 31 x AND drop_bit 31 0x7FFFFFFF" by (metis drop_bit_and)
  then show ?thesis by simp
qed

lemma one_bit_cases: "bt AND 0x1 = (bt :: u8) \<Longrightarrow> bt = 0 \<or> bt = 1"
  by (metis and_one_eq odd_iff_mod_2_eq_one parity_cases)

lemma pack_bit_and_u31_panics:
  "pack_bit_and_u31 bt val = Panic \<longleftrightarrow> val AND 0x7FFFFFFF \<noteq> val \<or> bt AND 0x1 \<noteq> bt"
  by (auto simp: pack_bit_and_u31_def Let_def)

lemma pack_parse_bit_and_u31:
  assumes "nom_spec nom" and "val AND 0x7FFFFFFF = val" and "bt AND 0x1 = bt"
  shows "\<exists>bs. (pack_bit_and_u31 bt val :: (bytes, 'e) result) = Ok bs \<and> length bs = 4 \<and>
    (\<forall>rest. parse_bit_and_u31 nom (bs @ rest) = Ok (rest, (bt, val)))"
proof -
  let ?a = "ucast (drop_bit 24 val) :: u8" and ?b = "ucast (drop_bit 16 val) :: u8"
  let ?c = "ucast (drop_bit 8 val) :: u8" and ?d = "ucast val :: u8"
  let ?a' = "if bt = 0 then ?a else ?a OR 0x80"
  have pack: "(pack_bit_and_u31 bt val :: (bytes, 'e) result) = Ok [?a', ?b, ?c, ?d]"
    using assms(2,3) by (simp add: pack_bit_and_u31_def u32_to_be_bytes_def)
  have val: "u32_from_be_bytes ?a' ?b ?c ?d = (if bt = 0 then val else val OR 0x80000000)"
    by (simp add: u32_be_top_bit u32_be_roundtrip)
  have "parse_bit_and_u31 nom ([?a', ?b, ?c, ?d] @ rest) = Ok (rest, (bt, val))" for rest
  proof (cases "bt = 0")
    case True
    then show ?thesis
      using assms(1,2) val top_bit_31[OF assms(2)] by (simp add: parse_bit_and_u31_def nom_spec_def Let_def)
  next
    case False
    then have "bt = 1" using one_bit_cases[OF assms(3)] by simp
    moreover have "drop_bit 31 (val OR 0x80000000) = 1"
      using top_bit_31[OF assms(2)] by (simp add: drop_bit_or)
    moreover have "(val OR 0x80000000) AND 0x7FFFFFFF = val"
      using assms(2) by (simp add: bit.conj_disj_distrib2)
    ultimately show ?thesis
      using assms(1) val False by (simp add: parse_bit_and_u31_def nom_spec_def Let_def)
  qed
  with pack show ?thesis by auto
qed

section \<open>Frame types survive the wire\<close>

lemma raw_from_repr: "raw_frame_type_from_repr (raw_frame_type_repr t) = Some t"
  by (cases t) (simp_all add: raw_frame_type_from_repr_def)

lemma flags_data: "flags_of data_flag_repr [DataPadded, DataEndStream]
    (flags_or data_flag_repr [DataPadded, DataEndStream] F) = F"
proof -
  have "x \<in> F \<longleftrightarrow> x \<in> flags_of data_flag_repr [DataPadded, DataEndStream]
      (flags_or data_flag_repr [DataPadded, DataEndStream] F)" for x
    by (cases x; cases "DataPadded \<in> F"; cases "DataEndStream \<in> F") (simp_all add: flags_of_def)
  then show ?thesis by blast
qed

lemma flags_headers:
  fixes fs defines "fs \<equiv> [HeadersPriority, HeadersPadded, HeadersEndHeaders, HeadersEndStream]"
  shows "flags_of headers_flag_repr fs (flags_or headers_flag_repr fs F) = F"
proof -
  have "x \<in> F \<longleftrightarrow> x \<in> flags_of headers_flag_repr fs (flags_or headers_flag_repr fs F)" for x
    by (cases x; cases "HeadersPriority \<in> F"; cases "HeadersPadded \<in> F";
        cases "HeadersEndHeaders \<in> F"; cases "HeadersEndStream \<in> F")
      (simp_all add: flags_of_def fs_def)
  then show ?thesis by blast
qed

lemma flags_single:
  assumes "\<And>x. x = f" and "repr f AND repr f \<noteq> 0"
  shows "flags_of repr [f] (flags_or repr [f] F) = F"
proof -
  have "x \<in> F \<longleftrightarrow> x \<in> flags_of repr [f] (flags_or repr [f] F)" for x
    using assms(2) assms(1)[of x] by (cases "f \<in> F") (simp_all add: flags_of_def)
  then show ?thesis by blast
qed

lemma flags_one:
  "flags_of settings_flag_repr [SettingsAck] (flags_or settings_flag_repr [SettingsAck] F) = F"
  "flags_of ping_flag_repr [PingAck] (flags_or ping_flag_repr [PingAck] G) = G"
  "flags_of continuation_flag_repr [ContinuationEndHeaders]
     (flags_or continuation_flag_repr [ContinuationEndHeaders] H) = H"
proof -
  have "x = SettingsAck" "y = PingAck" "z = ContinuationEndHeaders" for x y z
    by (cases x; cases y; cases z; simp)+
  then show "flags_of settings_flag_repr [SettingsAck] (flags_or settings_flag_repr [SettingsAck] F) = F"
    "flags_of ping_flag_repr [PingAck] (flags_or ping_flag_repr [PingAck] G) = G"
    "flags_of continuation_flag_repr [ContinuationEndHeaders]
       (flags_or continuation_flag_repr [ContinuationEndHeaders] H) = H"
    by (intro flags_single; simp)+
qed

text \<open>An unknown frame type that is really unknown.\<close>

fun frame_type_wf :: "frame_type \<Rightarrow> bool" where
  "frame_type_wf (Unknown ft) \<longleftrightarrow> raw_frame_type_from_repr (eft_ty ft) = None"
| "frame_type_wf _ \<longleftrightarrow> True"

lemma frame_type_roundtrip:
  assumes "enumflags_spec ef" and "frame_type_wf ft"
  shows "frame_type_decode ef (frame_type_encode ef ft) = ft"
  using assms
  by (cases ft)
    (simp_all add: frame_type_decode_def eft_from_def raw_from_repr enumflags_spec_def flags_data
      flags_headers flags_one del: raw_frame_type_repr.simps flags_or.simps)

section \<open>Frame headers survive the wire\<close>

definition frame_wf :: "frame \<Rightarrow> bool" where
  "frame_wf f \<longleftrightarrow> frame_type_wf (ftype f) \<and> unat (flen f) < 2 ^ 24 \<and>
     fstream_id f AND 0x7FFFFFFF = fstream_id f \<and> reserved f AND 1 = reserved f"

text \<open>The nine bytes of a frame header.\<close>

lemma frame_write_into_bytes:
  assumes "byteorder_spec (bo :: (bytes, 'e) byteorder)" and "unat (flen f) < 2 ^ 24"
    and "pack_bit_and_u31 (reserved f) (fstream_id f) = (Ok sid :: (bytes, 'e) result)"
  shows "frame_write_into ef bo vec_write_all f w =
    (Ok (), w @ tl (u32_to_be_bytes (flen f)) @ [eft_ty (frame_type_encode ef (ftype f)),
       eft_flags (frame_type_encode ef (ftype f))] @ sid)"
  using assms
  by (simp add: frame_write_into_def byteorder_spec_def Let_def pack_reserved_and_stream_id_def
      vec_write_all_def[of w] vec_write_all_def[of "w @ _"])

lemma frame_parse_bytes:
  assumes "nom_spec nom" and "unat len < 2 ^ 24"
    and "\<And>rest. parse_bit_and_u31 nom (sid @ rest) = Ok (rest, (rsv, s))"
  shows "frame_parse nom ef (tl (u32_to_be_bytes len) @ [ty, flags] @ sid @ rest) =
    Ok (rest, \<lparr>ftype = frame_type_decode ef \<lparr>eft_ty = ty, eft_flags = flags\<rparr>, reserved = rsv,
      fstream_id = s, flen = len\<rparr>)"
proof -
  have "be_u24 nom (tl (u32_to_be_bytes len) @ [ty, flags] @ sid @ rest) =
      Ok ([ty, flags] @ sid @ rest, len)"
    using assms(1) u24_be_bytes[OF assms(2)] by (simp add: nom_spec_def u32_to_be_bytes_def)
  moreover have "encoded_frame_type_parse nom ([ty, flags] @ sid @ rest) =
      Ok (sid @ rest, \<lparr>eft_ty = ty, eft_flags = flags\<rparr>)"
    using assms(1) by (simp add: encoded_frame_type_parse_def nom_spec_def seq2_def)
  moreover have "parse_reserved_and_stream_id nom (sid @ rest) = Ok (rest, (rsv, s))"
    using assms(3) by (simp add: parse_reserved_and_stream_id_def)
  moreover have "tuple_frame nom p q r = seq2 p (seq2 q r)" for p q r
    using assms(1) by (simp add: nom_spec_def)
  ultimately show ?thesis by (simp add: frame_parse_def seq2_def)
qed

lemma frame_written:
  assumes "nom_spec nom" and "byteorder_spec (bo :: (bytes, 'e) byteorder)" and "enumflags_spec ef"
    and "frame_wf f"
  shows "\<exists>bs. frame_write_into ef bo vec_write_all f w = (Ok (), w @ bs) \<and> length bs = 9 \<and>
    (\<forall>rest. frame_parse nom ef (bs @ rest) = Ok (rest, f))"
proof -
  have f: "unat (flen f) < 2 ^ 24" "fstream_id f AND 0x7FFFFFFF = fstream_id f"
    "reserved f AND 1 = reserved f" "frame_type_wf (ftype f)"
    using assms(4) by (auto simp: frame_wf_def)
  obtain sid where sid: "(pack_bit_and_u31 (reserved f) (fstream_id f) :: (bytes, 'e) result) = Ok sid"
    "length sid = 4" "\<And>rest. parse_bit_and_u31 nom (sid @ rest) = Ok (rest, (reserved f, fstream_id f))"
    using pack_parse_bit_and_u31[OF assms(1) f(2,3), where 'e = 'e] by blast
  let ?ft = "frame_type_encode ef (ftype f)"
  let ?bs = "tl (u32_to_be_bytes (flen f)) @ [eft_ty ?ft, eft_flags ?ft] @ sid"
  have "length ?bs = 9" using sid(2) by (simp add: u32_to_be_bytes_def)
  moreover have ft: "\<lparr>eft_ty = eft_ty ?ft, eft_flags = eft_flags ?ft\<rparr> = ?ft" by simp
  have "\<lparr>ftype = frame_type_decode ef \<lparr>eft_ty = eft_ty ?ft, eft_flags = eft_flags ?ft\<rparr>,
      reserved = reserved f, fstream_id = fstream_id f, flen = flen f\<rparr> = f"
    unfolding ft using frame_type_roundtrip[OF assms(3) f(4)] by simp
  then have "frame_parse nom ef (?bs @ rest) = Ok (rest, f)" for rest
    using frame_parse_bytes[OF assms(1) f(1) sid(3), of ef "eft_ty ?ft" "eft_flags ?ft" rest] by simp
  ultimately show ?thesis
    using frame_write_into_bytes[OF assms(2) f(1) sid(1), of ef w] by blast
qed

text \<open>C23: a frame header written by \<open>write_into\<close> takes nine bytes and is read back by \<open>parse\<close> from them,
  whatever follows: the length, the type with exactly its flags, the reserved bit and the stream id.\<close>

theorem frame_roundtrip:
  assumes "nom_spec nom" and "byteorder_spec (bo :: (bytes, 'e) byteorder)" and "enumflags_spec ef"
    and "frame_wf f"
  shows "\<exists>bs. frame_write_into ef bo vec_write_all f w = (Ok (), w @ bs) \<and> length bs = 9 \<and>
    frame_parse nom ef (bs @ rest) = Ok (rest, f)"
  using frame_written[OF assms, of w] by blast

text \<open>The packages' documented behaviour can be met: concrete instances.\<close>

definition nom_std :: nom where
  "nom_std = \<lparr>
     be_u8 = (\<lambda>i. case i of a # r \<Rightarrow> Ok (r, a) | _ \<Rightarrow> Err Incomplete),
     be_u24 = (\<lambda>i. case i of a # b # c # r \<Rightarrow> Ok (r, u32_from_be_bytes 0 a b c) | _ \<Rightarrow> Err Incomplete),
     be_u32 = (\<lambda>i. case i of a # b # c # d # r \<Rightarrow> Ok (r, u32_from_be_bytes a b c d) | _ \<Rightarrow> Err Incomplete),
     nom_tag = (\<lambda>t i. case roll_compare i t of
        CompareOk \<Rightarrow> Ok (drop (length t) i, take (length t) i)
      | CompareIncomplete \<Rightarrow> Err Incomplete
      | CompareError \<Rightarrow> Err NomError),
     nom_take = (\<lambda>n i. if length i < n then Err Incomplete else Ok (drop n i, take n i)),
     tuple_u8_u8 = seq2, tuple_u32_u32 = seq2, tuple_frame = (\<lambda>p q r. seq2 p (seq2 q r)),
     tuple_priority = seq2, map_priority = (\<lambda>p f i. and_then (p i) (\<lambda>(i, a). Ok (i, f a)))\<rparr>"

definition byteorder_std :: "('w, 'e) byteorder" where
  "byteorder_std = \<lparr>
     write_u8 = (\<lambda>wa w n. wa w [n]),
     write_u16_be = (\<lambda>wa w n. wa w (u16_to_be_bytes n)),
     write_u24_be = (\<lambda>wa w n. wa w (tl (u32_to_be_bytes n))),
     write_u32_be = (\<lambda>wa w n. wa w (u32_to_be_bytes n))\<rparr>"

definition enumflags_std :: enumflags where
  "enumflags_std = \<lparr>
     data_bits = flags_or data_flag_repr [DataPadded, DataEndStream],
     data_from_bits = flags_of data_flag_repr [DataPadded, DataEndStream],
     headers_bits = flags_or headers_flag_repr
       [HeadersPriority, HeadersPadded, HeadersEndHeaders, HeadersEndStream],
     headers_from_bits = flags_of headers_flag_repr
       [HeadersPriority, HeadersPadded, HeadersEndHeaders, HeadersEndStream],
     settings_bits = flags_or settings_flag_repr [SettingsAck],
     settings_from_bits = flags_of settings_flag_repr [SettingsAck],
     ping_bits = flags_or ping_flag_repr [PingAck],
     ping_from_bits = flags_of ping_flag_repr [PingAck],
     continuation_bits = flags_or continuation_flag_repr [ContinuationEndHeaders],
     continuation_from_bits = flags_of continuation_flag_repr [ContinuationEndHeaders]\<rparr>"

lemma nom_std_spec: "nom_spec nom_std"
  by (simp add: nom_spec_def nom_std_def)

lemma byteorder_std_spec: "byteorder_spec byteorder_std"
  by (simp add: byteorder_spec_def byteorder_std_def)

lemma enumflags_std_spec: "enumflags_spec enumflags_std"
  by (simp add: enumflags_spec_def enumflags_std_def)

theorem frame_roundtrip_witness:
  "\<exists>bs. frame_write_into enumflags_std (byteorder_std :: (bytes, unit) byteorder) vec_write_all
      \<lparr>ftype = Headers {HeadersEndStream, HeadersEndHeaders}, reserved = 0, fstream_id = 1, flen = 13\<rparr> [] =
        (Ok (), [] @ bs) \<and> length bs = 9 \<and>
    frame_parse nom_std enumflags_std (bs @ [0xFF]) =
      Ok ([0xFF], \<lparr>ftype = Headers {HeadersEndStream, HeadersEndHeaders}, reserved = 0, fstream_id = 1,
        flen = 13\<rparr>)"
  by (rule frame_roundtrip[OF nom_std_spec byteorder_std_spec enumflags_std_spec])
    (simp add: frame_wf_def)

lemma frame_parse_eq:
  assumes "nom_spec nom"
  shows "frame_parse nom ef i =
    and_then (seq2 (be_u24 nom) (seq2 (encoded_frame_type_parse nom) (parse_reserved_and_stream_id nom)) i)
      (\<lambda>(i, (len, ft, (rsv, sid))).
        Ok (i, \<lparr>ftype = frame_type_decode ef ft, reserved = rsv, fstream_id = sid, flen = len\<rparr>))"
  using assms by (simp add: frame_parse_def nom_spec_def)

lemma frame_parse_short: "nom_spec nom \<Longrightarrow> length i < 9 \<Longrightarrow> frame_parse nom ef i = Err Incomplete"
  by (auto simp: frame_parse_eq seq2_def nom_spec_def encoded_frame_type_parse_def
      parse_reserved_and_stream_id_def parse_bit_and_u31_def Let_def split: list.splits)

text \<open>The frame that nine bytes stand for.\<close>

definition frame_of_bytes :: "enumflags \<Rightarrow> bytes \<Rightarrow> frame" where
  "frame_of_bytes ef i = \<lparr>
     ftype = frame_type_decode ef \<lparr>eft_ty = i ! 3, eft_flags = i ! 4\<rparr>,
     reserved = ucast (drop_bit 31 (u32_from_be_bytes (i ! 5) (i ! 6) (i ! 7) (i ! 8))),
     fstream_id = u32_from_be_bytes (i ! 5) (i ! 6) (i ! 7) (i ! 8) AND 0x7FFFFFFF,
     flen = u32_from_be_bytes 0 (i ! 0) (i ! 1) (i ! 2)\<rparr>"

lemma frame_parse_long:
  assumes "nom_spec nom" and "9 \<le> length i"
  shows "frame_parse nom ef i = Ok (drop 9 i, frame_of_bytes ef (take 9 i))"
proof -
  from assms(2) obtain a b c t fl p q r s rest where i: "i = a # b # c # t # fl # p # q # r # s # rest"
    by (auto simp: numeral_eq_Suc Suc_le_length_iff)
  show ?thesis
    using assms(1) unfolding i frame_parse_eq[OF assms(1)]
    by (simp add: seq2_def nom_spec_def encoded_frame_type_parse_def parse_reserved_and_stream_id_def
        parse_bit_and_u31_def Let_def frame_of_bytes_def)
qed

lemma frame_of_bytes_bounds:
  "unat (flen (frame_of_bytes ef i)) < 2 ^ 24"
  "fstream_id (frame_of_bytes ef i) AND 0x7FFFFFFF = fstream_id (frame_of_bytes ef i)"
  "reserved (frame_of_bytes ef i) AND 1 = reserved (frame_of_bytes ef i)"
proof -
  have "ucast (drop_bit 31 (x :: u32)) AND (1 :: u8) = ucast (drop_bit 31 x)" for x
    by (rule bit_word_eqI) (auto simp: bit_simps bit_1_iff dest: bit_imp_le_length)
  then show "reserved (frame_of_bytes ef i) AND 1 = reserved (frame_of_bytes ef i)"
    by (simp add: frame_of_bytes_def)
qed (use u24_be_bound in \<open>simp_all add: frame_of_bytes_def and.assoc\<close>)

text \<open>Parsing a frame header never fails on nine bytes or more, and on fewer it asks for more input:
  there is no malformed frame header. The length is below \<open>2 ^ 24\<close>, the stream id below \<open>2 ^ 31\<close> and
  the reserved field a bit, so what was parsed can be written again.\<close>

lemma frame_parse_complete:
  assumes "nom_spec nom"
  shows "if length i < 9 then frame_parse nom ef i = Err Incomplete
    else \<exists>f. frame_parse nom ef i = Ok (drop 9 i, f) \<and> unat (flen f) < 2 ^ 24 \<and>
      fstream_id f AND 0x7FFFFFFF = fstream_id f \<and> reserved f AND 1 = reserved f"
  using frame_parse_short[OF assms] frame_parse_long[OF assms] frame_of_bytes_bounds
  by (simp add: not_less)

lemma frame_parse_complete_witness:
  "\<exists>f. frame_parse nom_std enumflags_std [0, 0, 5, 0xFF, 1, 0x80, 0, 0, 3, 7] = Ok ([7], f) \<and>
     reserved f AND 1 = reserved f"
  using frame_parse_complete[OF nom_std_spec, of "[0, 0, 5, 0xFF, 1, 0x80, 0, 0, 3, 7]" enumflags_std]
  by auto

text \<open>\<open>from_repr\<close> and \<open>repr\<close> of the frame types are inverse to each other: a type byte is known
  exactly when it is the code of a frame type.\<close>

lemma raw_frame_type_inverse:
  "raw_frame_type_from_repr v = Some t \<longleftrightarrow> raw_frame_type_repr t = v"
  using raw_from_repr[of t] by (auto simp: raw_frame_type_from_repr_def split: if_splits)

text \<open>\<open>pack_bit_and_u31\<close> and \<open>parse_bit_and_u31\<close> are inverse on a bit and a 31-bit number;
  \<open>pack_bit_and_u31\<close> panics on every other argument.\<close>

lemma bit_and_u31_roundtrip:
  assumes "nom_spec nom"
  shows "case (pack_bit_and_u31 bt val :: (bytes, 'e) result) of
     Ok bs \<Rightarrow> length bs = 4 \<and> parse_bit_and_u31 nom (bs @ rest) = Ok (rest, (bt, val))
   | Err e \<Rightarrow> False
   | Panic \<Rightarrow> val AND 0x7FFFFFFF \<noteq> val \<or> bt AND 1 \<noteq> bt"
proof (cases "val AND 0x7FFFFFFF = val \<and> bt AND 1 = bt")
  case True
  then show ?thesis using pack_parse_bit_and_u31[OF assms, of val bt, where 'e = 'e] by auto
next
  case False
  then have "(pack_bit_and_u31 bt val :: (bytes, 'e) result) = Panic"
    by (simp add: pack_bit_and_u31_panics)
  with False show ?thesis by simp
qed

theorem bit_and_u31_roundtrip_witness:
  "case (pack_bit_and_u31 1 0x7FFFFFFF :: (bytes, unit) result) of
     Ok bs \<Rightarrow> length bs = 4 \<and> parse_bit_and_u31 nom_std (bs @ [5]) = Ok ([5], (1, 0x7FFFFFFF))
   | Err e \<Rightarrow> False
   | Panic \<Rightarrow> False"
  using bit_and_u31_roundtrip[OF nom_std_spec, where bt = 1 and val = "0x7FFFFFFF" and rest = "[5]"
      and 'e = unit]
  by (auto split: result.splits)

end
