(* ===== verification/H2_Payloads.thy ===== *)
theory H2_Payloads
  imports H2_Frames
begin

text \<open>
  The payloads of HTTP/2 frames (\<open>crates/loona-h2/src/lib.rs\<close>): priorities, error codes, settings,
  GOAWAY, RST_STREAM and WINDOW_UPDATE, with their parsers and their \<open>into_piece\<close>, which writes the
  payload into a slice of a scratch buffer through \<open>put_to_roll\<close>. A \<open>Piece\<close> made of a roll is that
  roll. The lemmas show that every payload written is read back, that applying settings keeps them
  within the limits of the protocol, and that parsing a SETTINGS payload visits exactly its known
  settings.
\<close>

section \<open>Writing into a slice\<close>

text \<open>
  \<open>std::io::Write for &mut [u8]\<close>: the slice and how much of it has been written. \<open>write_all\<close> fails
  with an \<open>io::Error\<close> when the slice is full, which becomes the \<open>Mmap\<close> variant of \<open>buffet::Error\<close>.
\<close>

definition slice_write_all :: "(bytes \<times> nat, buf_error) writer" where
  "slice_write_all w s =
     (let (sl, k) = w; n = min (length s) (length sl - k)
      in (if n < length s then Err Mmap else Ok (), (overwrite sl k (take n s), k + n)))"

definition slice_closure ::
    "(bytes \<times> nat \<Rightarrow> (unit, buf_error) result \<times> (bytes \<times> nat)) \<Rightarrow> unit slice_fn" where
  "slice_closure f sl = (case f (sl, 0) of (res, (sl', _)) \<Rightarrow> (res, sl'))"

text \<open>\<open>scratch.put_to_roll(len, f).unwrap()\<close>.\<close>

definition put_to_piece ::
    "memory \<Rightarrow> roll_mut \<Rightarrow> nat \<Rightarrow> (bytes \<times> nat \<Rightarrow> (unit, buf_error) result \<times> (bytes \<times> nat)) \<Rightarrow>
     (roll, buf_error) result \<times> roll_mut \<times> memory" where
  "put_to_piece m scratch len f =
     (case rm_put_to_roll m scratch len (slice_closure f) of
        (Ok roll, scratch, m) \<Rightarrow> (Ok roll, scratch, m)
      | (Err e, scratch, m) \<Rightarrow> (Panic, scratch, m)
      | (Panic, scratch, m) \<Rightarrow> (Panic, scratch, m))"

type_synonym slice_byteorder = "(bytes \<times> nat, buf_error) byteorder"

section \<open>Priorities\<close>

definition priority_spec_parse :: "nom \<Rightarrow> priority_spec parser" where
  "priority_spec_parse nom =
     map_priority nom
       (tuple_priority nom (parse_reserved_and_stream_id nom) (be_u8 nom))
       (\<lambda>((excl, sid), w). \<lparr>exclusive = (excl \<noteq> 0), stream_dependency = sid, weight = w\<rparr>)"

definition priority_spec_into_piece ::
    "slice_byteorder \<Rightarrow> memory \<Rightarrow> roll_mut \<Rightarrow> priority_spec \<Rightarrow>
     (roll, buf_error) result \<times> roll_mut \<times> memory" where
  "priority_spec_into_piece bo m scratch ps =
     put_to_piece m scratch 5 (\<lambda>w.
       bind_st (pack_reserved_and_stream_id (if exclusive ps then 1 else 0) (stream_dependency ps), w)
         (\<lambda>reserved_and_stream_id w.
       bind_st (slice_write_all w reserved_and_stream_id) (\<lambda>_ w.
         write_u8 bo slice_write_all w (weight ps))))"

section \<open>Error codes\<close>

type_synonym error_code = u32

datatype known_error_code =
  NoError | ProtocolError | InternalError | FlowControlError | SettingsTimeout | StreamClosed
| FrameSizeError | RefusedStream | Cancel | CompressionError | ConnectError | EnhanceYourCalm
| InadequateSecurity | Http1_1Required

fun known_error_code_repr :: "known_error_code \<Rightarrow> u32" where
  "known_error_code_repr NoError = 0x00"
| "known_error_code_repr ProtocolError = 0x01"
| "known_error_code_repr InternalError = 0x02"
| "known_error_code_repr FlowControlError = 0x03"
| "known_error_code_repr SettingsTimeout = 0x04"
| "known_error_code_repr StreamClosed = 0x05"
| "known_error_code_repr FrameSizeError = 0x06"
| "known_error_code_repr RefusedStream = 0x07"
| "known_error_code_repr Cancel = 0x08"
| "known_error_code_repr CompressionError = 0x09"
| "known_error_code_repr ConnectError = 0x0a"
| "known_error_code_repr EnhanceYourCalm = 0x0b"
| "known_error_code_repr InadequateSecurity = 0x0c"
| "known_error_code_repr Http1_1Required = 0x0d"

definition known_error_code_from_repr :: "u32 \<Rightarrow> known_error_code option" where
  "known_error_code_from_repr value =
     (if value = 0x00 then Some NoError
      else if value = 0x01 then Some ProtocolError
      else if value = 0x02 then Some InternalError
      else if value = 0x03 then Some FlowControlError
      else if value = 0x04 then Some SettingsTimeout
      else if value = 0x05 then Some StreamClosed
      else if value = 0x06 then Some FrameSizeError
      else if value = 0x07 then Some RefusedStream
      else if value = 0x08 then Some Cancel
      else if value = 0x09 then Some CompressionError
      else if value = 0x0a then Some ConnectError
      else if value = 0x0b then Some EnhanceYourCalm
      else if value = 0x0c then Some InadequateSecurity
      else if value = 0x0d then Some Http1_1Required
      else None)"

section \<open>Settings\<close>

record settings =
  header_table_size :: u32
  enable_push :: bool
  max_concurrent_streams :: "u32 option"
  initial_window_size :: u32
  max_frame_size :: u32
  max_header_list_size :: u32

definition settings_default :: settings where
  "settings_default = \<lparr>header_table_size = 4096, enable_push = False,
     max_concurrent_streams = Some 100, initial_window_size = 2 ^ 16 - 1, max_frame_size = 2 ^ 14,
     max_header_list_size = 0\<rparr>"

datatype setting =
  HeaderTableSize | EnablePush | MaxConcurrentStreams | InitialWindowSize | MaxFrameSize
| MaxHeaderListSize

datatype settings_error =
  InvalidEnablePushValue u32 | InitialWindowSizeTooLarge u32 | SettingsMaxFrameSizeInvalid u32

definition MAX_INITIAL_WINDOW_SIZE :: u32 where
  "MAX_INITIAL_WINDOW_SIZE = 2 ^ 31 - 1"

definition MAX_FRAME_SIZE_ALLOWED_RANGE :: "u32 \<times> u32" where
  "MAX_FRAME_SIZE_ALLOWED_RANGE = (2 ^ 14, 2 ^ 24 - 1)"

definition settings_apply :: "settings \<Rightarrow> setting \<Rightarrow> u32 \<Rightarrow> (unit, settings_error) result \<times> settings" where
  "settings_apply s code value =
     (case code of
        HeaderTableSize \<Rightarrow> (Ok (), s\<lparr>header_table_size := value\<rparr>)
      | EnablePush \<Rightarrow>
          if value = 0 then (Ok (), s\<lparr>enable_push := False\<rparr>)
          else if value = 1 then (Ok (), s\<lparr>enable_push := True\<rparr>)
          else (Err (InvalidEnablePushValue value), s)
      | MaxConcurrentStreams \<Rightarrow> (Ok (), s\<lparr>max_concurrent_streams := Some value\<rparr>)
      | InitialWindowSize \<Rightarrow>
          if MAX_INITIAL_WINDOW_SIZE < value then (Err (InitialWindowSizeTooLarge value), s)
          else (Ok (), s\<lparr>initial_window_size := value\<rparr>)
      | MaxFrameSize \<Rightarrow>
          if \<not> (fst MAX_FRAME_SIZE_ALLOWED_RANGE \<le> value \<and> value \<le> snd MAX_FRAME_SIZE_ALLOWED_RANGE)
          then (Err (SettingsMaxFrameSizeInvalid value), s)
          else (Ok (), s\<lparr>max_frame_size := value\<rparr>)
      | MaxHeaderListSize \<Rightarrow> (Ok (), s\<lparr>max_header_list_size := value\<rparr>))"

fun setting_repr :: "setting \<Rightarrow> u16" where
  "setting_repr HeaderTableSize = 0x01"
| "setting_repr EnablePush = 0x02"
| "setting_repr MaxConcurrentStreams = 0x03"
| "setting_repr InitialWindowSize = 0x04"
| "setting_repr MaxFrameSize = 0x05"
| "setting_repr MaxHeaderListSize = 0x06"

definition setting_from_repr :: "u16 \<Rightarrow> setting option" where
  "setting_from_repr value =
     (if value = 0x01 then Some HeaderTableSize
      else if value = 0x02 then Some EnablePush
      else if value = 0x03 then Some MaxConcurrentStreams
      else if value = 0x04 then Some InitialWindowSize
      else if value = 0x05 then Some MaxFrameSize
      else if value = 0x06 then Some MaxHeaderListSize
      else None)"

text \<open>The callback is a fallible function on a state of the caller's; the loop stops at its error.\<close>

type_synonym ('s, 'e) settings_callback = "'s \<Rightarrow> setting \<Rightarrow> u32 \<Rightarrow> (unit, 'e) result \<times> 's"

fun settings_parse_chunks ::
    "bytes \<Rightarrow> ('s, 'e) settings_callback \<Rightarrow> 's \<Rightarrow> (unit, 'e) result \<times> 's" where
  "settings_parse_chunks (a # b # c # d # e # f # rest) callback s =
     (let id = u16_from_be_bytes a b; value = u32_from_be_bytes c d e f in
      case setting_from_repr id of
        None \<Rightarrow> settings_parse_chunks rest callback s
      | Some code \<Rightarrow> bind_st (callback s code value) (\<lambda>_ s. settings_parse_chunks rest callback s))"
| "settings_parse_chunks _ callback s = (Ok (), s)"

definition settings_parse ::
    "bytes \<Rightarrow> ('s, 'e) settings_callback \<Rightarrow> 's \<Rightarrow> (unit, 'e) result \<times> 's" where
  "settings_parse buf callback s =
     (if length buf mod 6 \<noteq> 0 then (Panic, s) else settings_parse_chunks buf callback s)"

fun setting_pairs_write ::
    "('w, 'e) byteorder \<Rightarrow> ('w, 'e) writer \<Rightarrow> (setting \<times> u32) list \<Rightarrow> 'w \<Rightarrow> (unit, 'e) result \<times> 'w" where
  "setting_pairs_write bo write_all [] w = (Ok (), w)"
| "setting_pairs_write bo write_all ((code, value) # pairs) w =
     bind_st (write_u16_be bo write_all w (setting_repr code)) (\<lambda>_ w.
     bind_st (write_u32_be bo write_all w value) (\<lambda>_ w.
       setting_pairs_write bo write_all pairs w))"

definition setting_pairs_into_piece ::
    "slice_byteorder \<Rightarrow> memory \<Rightarrow> roll_mut \<Rightarrow> (setting \<times> u32) list \<Rightarrow>
     (roll, buf_error) result \<times> roll_mut \<times> memory" where
  "setting_pairs_into_piece bo m scratch pairs =
     put_to_piece m scratch (length pairs * 6) (setting_pairs_write bo slice_write_all pairs)"

section \<open>GOAWAY, RST_STREAM, WINDOW_UPDATE\<close>

record go_away =
  last_stream_id :: stream_id
  ga_error_code :: error_code
  additional_debug_data :: bytes

definition go_away_into_piece ::
    "slice_byteorder \<Rightarrow> memory \<Rightarrow> roll_mut \<Rightarrow> go_away \<Rightarrow>
     (roll, buf_error) result \<times> roll_mut \<times> memory" where
  "go_away_into_piece bo m scratch g =
     put_to_piece m scratch (8 + length (additional_debug_data g)) (\<lambda>w.
       bind_st (write_u32_be bo slice_write_all w (last_stream_id g)) (\<lambda>_ w.
       bind_st (write_u32_be bo slice_write_all w (ga_error_code g)) (\<lambda>_ w.
         slice_write_all w (additional_debug_data g))))"

definition go_away_parse :: "nom \<Rightarrow> go_away parser" where
  "go_away_parse nom i =
     and_then (tuple_u32_u32 nom (be_u32 nom) (be_u32 nom) i) (\<lambda>(rest, (lsid, code)).
       Ok ([], \<lparr>last_stream_id = lsid, ga_error_code = code, additional_debug_data = rest\<rparr>))"

record rst_stream =
  rst_error_code :: error_code

definition rst_stream_into_piece ::
    "slice_byteorder \<Rightarrow> memory \<Rightarrow> roll_mut \<Rightarrow> rst_stream \<Rightarrow>
     (roll, buf_error) result \<times> roll_mut \<times> memory" where
  "rst_stream_into_piece bo m scratch r =
     put_to_piece m scratch 4 (\<lambda>w. write_u32_be bo slice_write_all w (rst_error_code r))"

definition rst_stream_parse :: "nom \<Rightarrow> rst_stream parser" where
  "rst_stream_parse nom i =
     and_then (be_u32 nom i) (\<lambda>(rest, code). Ok (rest, \<lparr>rst_error_code = code\<rparr>))"

record window_update =
  wu_reserved :: u8
  increment :: u32

definition window_update_into_piece ::
    "slice_byteorder \<Rightarrow> memory \<Rightarrow> roll_mut \<Rightarrow> window_update \<Rightarrow>
     (roll, buf_error) result \<times> roll_mut \<times> memory" where
  "window_update_into_piece bo m scratch u =
     put_to_piece m scratch 4 (\<lambda>w.
       bind_st (pack_bit_and_u31 (wu_reserved u) (increment u), w) (\<lambda>packed w.
         slice_write_all w packed))"

definition window_update_parse :: "nom \<Rightarrow> window_update parser" where
  "window_update_parse nom i =
     and_then (parse_bit_and_u31 nom i) (\<lambda>(rest, (rsv, inc)).
       Ok (rest, \<lparr>wu_reserved = rsv, increment = inc\<rparr>))"

section \<open>What a sequence of writes leaves in a slice\<close>

text \<open>\<open>writes f bs\<close>: \<open>f\<close> succeeds and writes exactly \<open>bs\<close>, wherever there is room for it.\<close>

definition writes :: "(bytes \<times> nat \<Rightarrow> (unit, buf_error) result \<times> (bytes \<times> nat)) \<Rightarrow> bytes \<Rightarrow> bool" where
  "writes f bs \<longleftrightarrow> (\<forall>pre rest. length bs \<le> length rest \<longrightarrow>
     f (pre @ rest, length pre) =
       (Ok (), (pre @ bs @ drop (length bs) rest, length pre + length bs)))"

lemma writes_write_all: "writes (\<lambda>w. slice_write_all w bs) bs"
  by (auto simp: writes_def slice_write_all_def overwrite_def min_def Let_def)

lemma writes_nothing: "writes (\<lambda>w. (Ok (), w)) []"
  by (simp add: writes_def)

lemma writes_then:
  assumes "writes f as" and "writes g bs"
  shows "writes (\<lambda>w. bind_st (f w) (\<lambda>_ w. g w)) (as @ bs)"
  unfolding writes_def
proof (intro allI impI)
  fix pre rest :: bytes assume len: "length (as @ bs) \<le> length rest"
  have "f (pre @ rest, length pre) = (Ok (), ((pre @ as) @ drop (length as) rest, length (pre @ as)))"
    using assms(1) len by (simp add: writes_def)
  moreover have "g ((pre @ as) @ drop (length as) rest, length (pre @ as)) =
      (Ok (), ((pre @ as) @ bs @ drop (length bs) (drop (length as) rest), length (pre @ as) + length bs))"
    using assms(2)[unfolded writes_def, rule_format, of "drop (length as) rest" "pre @ as"] len by simp
  ultimately show "bind_st (f (pre @ rest, length pre)) (\<lambda>_ w. g w) =
      (Ok (), (pre @ (as @ bs) @ drop (length (as @ bs)) rest, length pre + length (as @ bs)))"
    by (simp add: add.commute)
qed

definition scratch_ok :: "memory \<Rightarrow> nat multiset \<Rightarrow> roll_mut \<Rightarrow> nat \<Rightarrow> bool" where
  "scratch_ok m hs r n \<longleftrightarrow> rm_wf m hs r \<and> rm_len r = 0 \<and> can_reserve m r n"

lemma put_to_piece_ok:
  assumes "length bs = n" and "scratch_ok m hs r n" and "writes f bs"
  shows "\<exists>roll r' m' hs'. put_to_piece m r n f = (Ok roll, r', m') \<and> rm_wf m' hs' r' \<and>
    rm_len r' = 0 \<and> roll_deref m' roll = (Ok bs :: (bytes, buf_error) result)"
proof -
  have r: "rm_wf m hs r" "rm_len r = 0" "can_reserve m r n" "n < 2 ^ 32"
    using assms(2) by (auto simp: scratch_ok_def can_reserve_def)
  have f: "slice_closure f sl = (Ok (), bs)" if "length sl = n" for sl
    using assms(1) assms(3)[unfolded writes_def, rule_format, of sl "[]"] that by (simp add: slice_closure_def)
  obtain roll r' m' hs' where "rm_put_to_roll m r n (slice_closure f) = (Ok roll, r', m')"
    "roll_deref m' roll = (Ok bs :: (bytes, buf_error) result)" "rm_wf m' hs' r'" "rm_len r' = 0"
    using put_to_roll_ok[OF r, of "slice_closure f"] f assms(1) by fastforce
  then show ?thesis by (auto simp: put_to_piece_def)
qed

lemma writes_u32:
  "byteorder_spec (bo :: slice_byteorder) \<Longrightarrow>
   writes (\<lambda>w. write_u32_be bo slice_write_all w n) (u32_to_be_bytes n)"
  using writes_write_all[of "u32_to_be_bytes n"] by (simp add: byteorder_spec_def writes_def)

lemma writes_u16:
  "byteorder_spec (bo :: slice_byteorder) \<Longrightarrow>
   writes (\<lambda>w. write_u16_be bo slice_write_all w n) (u16_to_be_bytes n)"
  using writes_write_all[of "u16_to_be_bytes n"] by (simp add: byteorder_spec_def writes_def)

lemma be_u32_bytes: "nom_spec nom \<Longrightarrow> be_u32 nom (u32_to_be_bytes x @ rest) = Ok (rest, x)"
  by (simp add: nom_spec_def u32_to_be_bytes_def u32_be_roundtrip)

section \<open>Settings stay within the protocol's limits\<close>

definition settings_ok :: "settings \<Rightarrow> bool" where
  "settings_ok s \<longleftrightarrow> unat (initial_window_size s) < 2 ^ 31 \<and>
     2 ^ 14 \<le> unat (max_frame_size s) \<and> unat (max_frame_size s) < 2 ^ 24"

lemma settings_default_ok: "settings_ok settings_default"
  by (simp add: settings_ok_def settings_default_def)

lemma settings_apply_ok: "settings_ok s \<Longrightarrow> settings_ok (snd (settings_apply s code value))"
  by (auto simp: settings_apply_def settings_ok_def MAX_INITIAL_WINDOW_SIZE_def
      MAX_FRAME_SIZE_ALLOWED_RANGE_def word_less_nat_alt word_le_nat_alt split: setting.splits)

lemma settings_parse_chunks_inv:
  "\<forall>s code v. P s \<longrightarrow> P (snd (callback s code v)) \<Longrightarrow> P s \<Longrightarrow>
   P (snd (settings_parse_chunks buf callback s))"
proof (induction buf callback s rule: settings_parse_chunks.induct)
  case (1 a b c d e f rest callback s)
  show ?case
  proof (cases "setting_from_repr (u16_from_be_bytes a b)")
    case None
    with 1 show ?thesis by (simp add: Let_def)
  next
    case (Some code)
    obtain r s' where cb: "callback s code (u32_from_be_bytes c d e f) = (r, s')" by fastforce
    have "P s'" using "1.prems" cb by (metis snd_conv)
    with 1 Some cb show ?thesis by (cases r) (auto simp: Let_def)
  qed
qed simp_all

text \<open>C29: whatever a SETTINGS payload holds, parsing it into the current settings keeps them legal: the
  initial window stays below \<open>2 ^ 31\<close> and the maximum frame size within \<open>2 ^ 14\<close> to \<open>2 ^ 24 - 1\<close>, also
  when an illegal value makes it stop with an error.\<close>

theorem settings_stay_legal:
  assumes "settings_ok s"
  shows "settings_ok (snd (settings_parse buf settings_apply s))"
proof -
  have "settings_ok (snd (settings_parse_chunks buf settings_apply s))"
    by (rule settings_parse_chunks_inv) (use assms settings_apply_ok in auto)
  then show ?thesis using assms by (simp add: settings_parse_def)
qed

theorem settings_stay_legal_witness:
  "settings_ok (snd (settings_parse [0, 4, 0xFF, 0xFF, 0xFF, 0xFF] settings_apply settings_default))"
  by (rule settings_stay_legal[OF settings_default_ok])

section \<open>Settings survive the wire\<close>

definition setting_pair_bytes :: "setting \<times> u32 \<Rightarrow> bytes" where
  "setting_pair_bytes p = u16_to_be_bytes (setting_repr (fst p)) @ u32_to_be_bytes (snd p)"

lemma setting_from_repr_repr: "setting_from_repr (setting_repr c) = Some c"
  by (cases c) (simp_all add: setting_from_repr_def)

lemma setting_pairs_writes:
  assumes "byteorder_spec (bo :: slice_byteorder)"
  shows "writes (setting_pairs_write bo slice_write_all pairs) (concat (map setting_pair_bytes pairs))"
proof (induction pairs)
  case Nil
  then show ?case using writes_nothing by (simp add: writes_def)
next
  case (Cons p pairs)
  let ?f = "\<lambda>w. bind_st (write_u16_be bo slice_write_all w (setting_repr (fst p))) (\<lambda>_ w.
      bind_st (write_u32_be bo slice_write_all w (snd p)) (\<lambda>_ w.
        setting_pairs_write bo slice_write_all pairs w))"
  have "writes ?f
    (u16_to_be_bytes (setting_repr (fst p)) @ u32_to_be_bytes (snd p) @ concat (map setting_pair_bytes pairs))"
    using assms Cons.IH by (intro writes_then writes_u16 writes_u32)
  moreover have "setting_pairs_write bo slice_write_all (p # pairs) = ?f" by (cases p) auto
  moreover have "concat (map setting_pair_bytes (p # pairs)) = u16_to_be_bytes (setting_repr (fst p)) @
      u32_to_be_bytes (snd p) @ concat (map setting_pair_bytes pairs)"
    by (simp add: setting_pair_bytes_def)
  ultimately show ?case by (simp only:)
qed

lemma length_setting_pairs: "length (concat (map setting_pair_bytes pairs)) = length pairs * 6"
  by (induction pairs) (simp_all add: setting_pair_bytes_def u16_to_be_bytes_def u32_to_be_bytes_def)

text \<open>A fallible callback run over a list of settings, stopping at the first error.\<close>

fun visit_settings ::
    "(setting \<times> u32) list \<Rightarrow> ('s, 'e) settings_callback \<Rightarrow> 's \<Rightarrow> (unit, 'e) result \<times> 's" where
  "visit_settings [] callback s = (Ok (), s)"
| "visit_settings ((c, v) # pairs) callback s =
     bind_st (callback s c v) (\<lambda>_ s. visit_settings pairs callback s)"

lemma bind_st_cong: "(\<And>s'. f () s' = g () s') \<Longrightarrow> bind_st p f = bind_st p g"
  by (cases p; cases "fst p") auto

lemma settings_parse_pairs:
  "settings_parse_chunks (concat (map setting_pair_bytes pairs)) callback s = visit_settings pairs callback s"
proof (induction pairs arbitrary: s)
  case (Cons p pairs)
  obtain c v where p: "p = (c, v)" by fastforce
  have IH: "settings_parse_chunks (concat (map setting_pair_bytes pairs)) callback =
      visit_settings pairs callback"
    by (rule ext) (rule Cons.IH)
  have "setting_pair_bytes (c, v) =
      [ucast (drop_bit 8 (setting_repr c)), ucast (setting_repr c), ucast (drop_bit 24 v),
       ucast (drop_bit 16 v), ucast (drop_bit 8 v), ucast v]"
    by (simp add: setting_pair_bytes_def u16_to_be_bytes_def u32_to_be_bytes_def)
  then show ?case
    by (simp add: p u16_be_roundtrip u32_be_roundtrip setting_from_repr_repr IH)
qed simp

text \<open>The payload that \<open>SettingPairs\<close> writes into its roll is parsed back to the same settings in
  the same order, for any callback, including one that stops at an error.\<close>

lemma setting_pairs_roundtrip:
  assumes "byteorder_spec (bo :: slice_byteorder)" and "scratch_ok m hs scratch (length pairs * 6)"
  shows "\<exists>roll scratch' m' bs. setting_pairs_into_piece bo m scratch pairs = (Ok roll, scratch', m') \<and>
    roll_deref m' roll = (Ok bs :: (bytes, buf_error) result) \<and>
    settings_parse bs callback s = visit_settings pairs callback s"
proof -
  let ?bs = "concat (map setting_pair_bytes pairs)"
  have len: "length ?bs = length pairs * 6" by (rule length_setting_pairs)
  have "settings_parse ?bs callback s = visit_settings pairs callback s"
    by (simp add: settings_parse_def len settings_parse_pairs del: length_concat)
  then show ?thesis
    using put_to_piece_ok[OF len assms(2) setting_pairs_writes[OF assms(1)]]
    unfolding setting_pairs_into_piece_def by blast
qed

lemma demo_scratch: "n \<le> 4096 \<Longrightarrow> scratch_ok demo_memory {#0#} demo_roll n"
  using demo_roll_wf demo_free
  by (simp add: scratch_ok_def can_reserve_def)
    (simp add: demo_roll_def rm_storage_size_def BUF_SIZE_def)

lemma setting_pairs_roundtrip_witness:
  "\<exists>roll scratch' m' bs.
     setting_pairs_into_piece byteorder_std demo_memory demo_roll [(MaxFrameSize, 16384), (EnablePush, 0)] =
       (Ok roll, scratch', m') \<and>
     roll_deref m' roll = (Ok bs :: (bytes, buf_error) result) \<and>
     settings_parse bs settings_apply settings_default =
       visit_settings [(MaxFrameSize, 16384), (EnablePush, 0)] settings_apply settings_default"
  by (rule setting_pairs_roundtrip[OF byteorder_std_spec demo_scratch]) simp

section \<open>The other payloads survive the wire\<close>

text \<open>A GOAWAY payload and a RST_STREAM payload are read back as they were written, GOAWAY with all
  of its debug data.\<close>

lemma go_away_rst_roundtrip:
  assumes "byteorder_spec (bo :: slice_byteorder)" and "nom_spec nom"
    and "scratch_ok m hs scratch (8 + length (additional_debug_data g))"
    and "scratch_ok m2 hs2 scratch2 4"
  shows "(\<exists>roll scratch' m' bs. go_away_into_piece bo m scratch g = (Ok roll, scratch', m') \<and>
      roll_deref m' roll = (Ok bs :: (bytes, buf_error) result) \<and> go_away_parse nom bs = Ok ([], g)) \<and>
    (\<exists>roll scratch' m' bs. rst_stream_into_piece bo m2 scratch2 r = (Ok roll, scratch', m') \<and>
      roll_deref m' roll = (Ok bs :: (bytes, buf_error) result) \<and> rst_stream_parse nom (bs @ rest) = Ok (rest, r))"
proof (rule conjI)
  let ?bs = "u32_to_be_bytes (last_stream_id g) @ u32_to_be_bytes (ga_error_code g) @ additional_debug_data g"
  let ?f = "\<lambda>w. bind_st (write_u32_be bo slice_write_all w (last_stream_id g)) (\<lambda>_ w.
      bind_st (write_u32_be bo slice_write_all w (ga_error_code g)) (\<lambda>_ w.
        slice_write_all w (additional_debug_data g)))"
  have f: "writes ?f ?bs" using assms(1) by (intro writes_then writes_u32 writes_write_all)
  have len: "length ?bs = 8 + length (additional_debug_data g)" by (simp add: u32_to_be_bytes_def)
  have "go_away_parse nom ?bs = Ok ([], g)"
    using assms(2) be_u32_bytes[OF assms(2)] by (simp add: go_away_parse_def nom_spec_def seq2_def)
  then show "\<exists>roll scratch' m' bs. go_away_into_piece bo m scratch g = (Ok roll, scratch', m') \<and>
      roll_deref m' roll = (Ok bs :: (bytes, buf_error) result) \<and> go_away_parse nom bs = Ok ([], g)"
    using put_to_piece_ok[OF len assms(3) f] unfolding go_away_into_piece_def by blast
next
  let ?rb = "u32_to_be_bytes (rst_error_code r)"
  have len: "length ?rb = 4" by (simp add: u32_to_be_bytes_def)
  have "rst_stream_parse nom (?rb @ rest) = Ok (rest, r)"
    using be_u32_bytes[OF assms(2)] by (simp add: rst_stream_parse_def)
  then show "\<exists>roll scratch' m' bs. rst_stream_into_piece bo m2 scratch2 r = (Ok roll, scratch', m') \<and>
      roll_deref m' roll = (Ok bs :: (bytes, buf_error) result) \<and> rst_stream_parse nom (bs @ rest) = Ok (rest, r)"
    using put_to_piece_ok[OF len assms(4) writes_u32[OF assms(1)]]
    unfolding rst_stream_into_piece_def by blast
qed

lemma go_away_rst_roundtrip_witness:
  "\<exists>roll scratch' m' bs.
     go_away_into_piece byteorder_std demo_memory demo_roll
       \<lparr>last_stream_id = 5, ga_error_code = 1, additional_debug_data = [1, 2, 3]\<rparr> = (Ok roll, scratch', m') \<and>
     roll_deref m' roll = (Ok bs :: (bytes, buf_error) result) \<and>
     go_away_parse nom_std bs =
       Ok ([], \<lparr>last_stream_id = 5, ga_error_code = 1, additional_debug_data = [1, 2, 3]\<rparr>)"
  by (rule go_away_rst_roundtrip[OF byteorder_std_spec nom_std_spec demo_scratch demo_scratch[of 4],
        THEN conjunct1])
    simp_all

text \<open>WINDOW_UPDATE and priority payloads are read back as they were written when their numbers have
  31 bits; a WINDOW_UPDATE with a larger increment panics instead of being sent wrong.\<close>

lemma window_update_priority_roundtrip:
  assumes "byteorder_spec (bo :: slice_byteorder)" and "nom_spec nom"
    and "scratch_ok m hs scratch 4" and "scratch_ok m2 hs2 scratch2 5"
    and "stream_dependency ps AND 0x7FFFFFFF = stream_dependency ps"
  shows "(if increment u AND 0x7FFFFFFF = increment u \<and> wu_reserved u AND 1 = wu_reserved u
    then \<exists>roll scratch' m' bs. window_update_into_piece bo m scratch u = (Ok roll, scratch', m') \<and>
      roll_deref m' roll = (Ok bs :: (bytes, buf_error) result) \<and> window_update_parse nom (bs @ rest) = Ok (rest, u)
    else fst (window_update_into_piece bo m scratch u) = Panic) \<and>
    (\<exists>roll scratch' m' bs. priority_spec_into_piece bo m2 scratch2 ps = (Ok roll, scratch', m') \<and>
      roll_deref m' roll = (Ok bs :: (bytes, buf_error) result) \<and>
      priority_spec_parse nom (bs @ rest) = Ok (rest, ps))"
proof (rule conjI)
  show "if increment u AND 0x7FFFFFFF = increment u \<and> wu_reserved u AND 1 = wu_reserved u
    then \<exists>roll scratch' m' bs. window_update_into_piece bo m scratch u = (Ok roll, scratch', m') \<and>
      roll_deref m' roll = (Ok bs :: (bytes, buf_error) result) \<and> window_update_parse nom (bs @ rest) = Ok (rest, u)
    else fst (window_update_into_piece bo m scratch u) = Panic"
  proof (cases "increment u AND 0x7FFFFFFF = increment u \<and> wu_reserved u AND 1 = wu_reserved u")
    case True
    then obtain bs where bs: "(pack_bit_and_u31 (wu_reserved u) (increment u) :: (bytes, buf_error) result) = Ok bs"
      "length bs = 4" "\<And>rest. parse_bit_and_u31 nom (bs @ rest) = Ok (rest, (wu_reserved u, increment u))"
      using pack_parse_bit_and_u31[OF assms(2), where 'e = buf_error] by blast
    then show ?thesis
      using True put_to_piece_ok[OF bs(2) assms(3) writes_write_all]
      by (auto simp: window_update_into_piece_def window_update_parse_def)
  next
    case False
    let ?f = "\<lambda>w. bind_st (pack_bit_and_u31 (wu_reserved u) (increment u), w) (\<lambda>packed w.
        slice_write_all w packed)"
    have "(pack_bit_and_u31 (wu_reserved u) (increment u) :: (bytes, buf_error) result) = Panic"
      using False by (simp add: pack_bit_and_u31_panics)
    then have cl: "slice_closure ?f sl = (Panic, sl)" for sl
      by (simp add: slice_closure_def)
    have "rm_wf m hs scratch" "rm_len scratch = 0" "can_reserve m scratch 4"
      using assms(3) by (auto simp: scratch_ok_def)
    from put_to_roll_ok[OF this, of "slice_closure ?f"]
    have "fst (rm_put_to_roll m scratch 4 (slice_closure ?f)) = Panic"
      by (auto simp: cl)
    then have "fst (window_update_into_piece bo m scratch u) = Panic"
      unfolding window_update_into_piece_def put_to_piece_def
      by (cases "rm_put_to_roll m scratch 4 (slice_closure ?f)") auto
    then show ?thesis by (simp only: False if_False)
  qed
next
  let ?e = "if exclusive ps then 1 else 0 :: u8"
  have e: "?e AND 1 = ?e" by simp
  obtain bs where bs: "(pack_bit_and_u31 ?e (stream_dependency ps) :: (bytes, buf_error) result) = Ok bs"
    "length bs = 4" "\<And>rest. parse_bit_and_u31 nom (bs @ rest) = Ok (rest, (?e, stream_dependency ps))"
    using pack_parse_bit_and_u31[OF assms(2,5) e, where 'e = buf_error] by blast
  have w8: "writes (\<lambda>w. write_u8 bo slice_write_all w (weight ps)) [weight ps]"
    using assms(1) writes_write_all[of "[weight ps]"] by (simp add: byteorder_spec_def writes_def)
  have "priority_spec_parse nom ((bs @ [weight ps]) @ rest) = Ok (rest, ps)"
    using assms(2) bs(3)
    by (simp add: priority_spec_parse_def nom_spec_def seq2_def parse_reserved_and_stream_id_def)
  moreover have len: "length (bs @ [weight ps]) = 5" using bs(2) by simp
  have "\<exists>roll scratch' m'. priority_spec_into_piece bo m2 scratch2 ps = (Ok roll, scratch', m') \<and>
      roll_deref m' roll = (Ok (bs @ [weight ps]) :: (bytes, buf_error) result)"
    using put_to_piece_ok[OF len assms(4) writes_then[OF writes_write_all w8]] bs(1)
    by (auto simp: priority_spec_into_piece_def pack_reserved_and_stream_id_def)
  ultimately show "\<exists>roll scratch' m' bs. priority_spec_into_piece bo m2 scratch2 ps = (Ok roll, scratch', m') \<and>
      roll_deref m' roll = (Ok bs :: (bytes, buf_error) result) \<and>
      priority_spec_parse nom (bs @ rest) = Ok (rest, ps)"
    by blast
qed

lemma window_update_priority_roundtrip_witness:
  "\<exists>roll scratch' m' bs.
     window_update_into_piece byteorder_std demo_memory demo_roll \<lparr>wu_reserved = 0, increment = 65535\<rparr> =
       (Ok roll, scratch', m') \<and>
     roll_deref m' roll = (Ok bs :: (bytes, buf_error) result) \<and>
     window_update_parse nom_std (bs @ [9]) = Ok ([9], \<lparr>wu_reserved = 0, increment = 65535\<rparr>)"
proof -
  have s: "scratch_ok demo_memory {#0#} demo_roll 4" "scratch_ok demo_memory {#0#} demo_roll 5"
    using demo_scratch by simp_all
  show ?thesis
    using window_update_priority_roundtrip[OF byteorder_std_spec nom_std_spec s,
        of "\<lparr>exclusive = False, stream_dependency = 0, weight = 0\<rparr>"
          "\<lparr>wu_reserved = 0, increment = 65535\<rparr>" "[9]"]
    by simp
qed

end
