(* ===== verification/H2_Types.thy ===== *)
theory H2_Types
  imports Loona_Util Responder H2_Payloads Hpack_Decoder Hpack_Encoder "HOL-Library.AList"
begin

text \<open>
  The state of an HTTP/2 connection (\<open>crates/loona/src/h2/types.rs\<close>) and of the request body that is
  handed to the handler (\<open>crates/loona/src/h2/body.rs\<close>): stream states, what is waiting to be sent on
  a stream, the errors and their codes on the wire, and the accounting of received bytes against the
  announced content length. A piece is its bytes. Windows are \<open>i64\<close> in the code and integers here;
  the invariant of \<open>H2_Server\<close> keeps them far from overflowing. The hash map of streams is an
  association list with distinct keys.
\<close>

section \<open>Errors\<close>

datatype encoder_state = ExpectResponseHeaders | ExpectResponseBody | ResponseDone

datatype h2_encoder_error = WrongState encoder_state encoder_state | EncStreamReset

datatype h2_connection_error =
  FrameTooLarge frame_type u32 u32
| IncompleteFrame frame_type u32
| HeadersInvalidPriority stream_id
| ClientSidShouldBeOdd
| ClientSidShouldBeNumericallyIncreasing stream_id stream_id
| PaddedFrameEmpty frame_type
| PaddedFrameTooShort frame_type nat u32
| ExpectedContinuationFrame stream_id "frame_type option"
| ExpectedContinuationForStream stream_id stream_id
| UnexpectedContinuationFrame stream_id
| HpackDecodingError decoder_error
| ClientSentPushPromise
| WindowUpdateForUnknownOrClosedStream stream_id
| StreamSpecificFrameToConnection frame_type
| ReadAndParse read_and_parse_error
| WriteError io_error
| ConnResponderError "h2_encoder_error responder_error"
| RstStreamForUnknownStream stream_id
| ConnStreamClosed stream_id
| PingFrameWithNonZeroStreamId stream_id
| PingFrameInvalidLength u32
| SettingsInvalidLength u32
| SettingsWithNonZeroStreamId stream_id
| GoAwayWithNonZeroStreamId stream_id
| WindowUpdateZeroIncrement
| ConnWindowUpdateOverflow
| WindowUnderflow stream_id
| StreamWindowSizeOverflowDueToSettings stream_id
| WindowUpdateInvalidLength nat
| BadSettingValue settings_error

definition conn_error_code :: "h2_connection_error \<Rightarrow> known_error_code" where
  "conn_error_code e =
     (case e of
        FrameTooLarge _ _ _ \<Rightarrow> FrameSizeError
      | PaddedFrameEmpty _ \<Rightarrow> FrameSizeError
      | PingFrameInvalidLength _ \<Rightarrow> FrameSizeError
      | SettingsInvalidLength _ \<Rightarrow> FrameSizeError
      | WindowUpdateInvalidLength _ \<Rightarrow> FrameSizeError
      | ConnWindowUpdateOverflow \<Rightarrow> FlowControlError
      | WindowUnderflow _ \<Rightarrow> FlowControlError
      | StreamWindowSizeOverflowDueToSettings _ \<Rightarrow> FlowControlError
      | BadSettingValue (InitialWindowSizeTooLarge _) \<Rightarrow> FlowControlError
      | HpackDecodingError _ \<Rightarrow> CompressionError
      | ConnStreamClosed _ \<Rightarrow> StreamClosed
      | PaddedFrameTooShort _ _ _ \<Rightarrow> ProtocolError
      | StreamSpecificFrameToConnection _ \<Rightarrow> ProtocolError
      | _ \<Rightarrow> ProtocolError)"

datatype h2_stream_error =
  DataLengthDoesNotMatchContentLength nat nat
| OverflowWhileCalculatingContentLength
| StreamRefused
| TrailersNotEndStream
| InvalidPriorityFrameSize u32
| StrmClosed
| InvalidRstStreamFrameSize u32
| StreamWindowUpdateOverflow
| BadRequest string
| StreamCancel

fun stream_error_code :: "h2_stream_error \<Rightarrow> known_error_code" where
  "stream_error_code StreamCancel = Cancel"
| "stream_error_code StrmClosed = StreamClosed"
| "stream_error_code StreamRefused = RefusedStream"
| "stream_error_code (InvalidPriorityFrameSize _) = FrameSizeError"
| "stream_error_code (InvalidRstStreamFrameSize _) = FrameSizeError"
| "stream_error_code StreamWindowUpdateOverflow = FlowControlError"
| "stream_error_code _ = ProtocolError"

record h2_request_error =
  re_status :: nat
  re_message :: bytes

datatype h2_error_level =
  LevelConnection h2_connection_error | LevelStream h2_stream_error | LevelRequest h2_request_error

text \<open>The error of serving a connection (\<open>crates/loona/src/error.rs\<close>); \<open>'d\<close> is the error of the driver.\<close>

datatype 'd serve_error =
  DownstreamWrite io_error
| Driver 'd
| ResponseHandlerBodyNotDrained
| ServeConnection h2_connection_error
| ServeAlloc buf_error

section \<open>The request body\<close>

text \<open>
  The channel to the handler: what has been sent on it. Whether a send succeeds, that is whether the
  handler still holds the receiver, is decided outside of this code (\<open>alive\<close>).
\<close>

datatype incoming_message = MsgPiece bytes | MsgTrailers headers | MsgStreamReset

record channel =
  ch_id :: nat
  ch_sent :: "incoming_message list"

definition ch_send :: "(channel \<Rightarrow> bool) \<Rightarrow> channel \<Rightarrow> incoming_message \<Rightarrow> bool \<times> channel" where
  "ch_send alive ch msg =
     (if alive ch then (True, ch\<lparr>ch_sent := ch_sent ch @ [msg]\<rparr>) else (False, ch))"

datatype chunk_position = NotLast | Last

record stream_incoming =
  si_tx :: channel
  total_received :: nat
  si_content_length :: "nat option"
  si_capacity :: int

definition stream_incoming_new :: "u32 \<Rightarrow> nat option \<Rightarrow> channel \<Rightarrow> stream_incoming" where
  "stream_incoming_new initial clen tx =
     \<lparr>si_tx = tx, total_received = 0, si_content_length = clen, si_capacity = uint initial\<rparr>"

definition si_write_chunk ::
    "(channel \<Rightarrow> bool) \<Rightarrow> stream_incoming \<Rightarrow> bytes \<Rightarrow> chunk_position \<Rightarrow>
     (unit, h2_stream_error) result \<times> stream_incoming" where
  "si_write_chunk alive si chunk which =
     (case checked_u64 (total_received si + length chunk) of
        None \<Rightarrow> (Err OverflowWhileCalculatingContentLength, si)
      | Some new_total \<Rightarrow>
          let si = si\<lparr>total_received := new_total\<rparr> in
          bind_st
            (case si_content_length si of
               Some clen \<Rightarrow>
                 if clen < total_received si
                 then (Err (DataLengthDoesNotMatchContentLength (total_received si) clen), si)
                 else if which = Last \<and> total_received si \<noteq> clen
                 then (Err (DataLengthDoesNotMatchContentLength (total_received si) clen), si)
                 else (Ok (), si)
             | None \<Rightarrow> (Ok (), si)) (\<lambda>_ si.
          case ch_send alive (si_tx si) (MsgPiece chunk) of
            (sent, tx) \<Rightarrow> (if \<not> sent then Err StreamCancel else Ok (), si\<lparr>si_tx := tx\<rparr>)))"

definition si_write_trailers ::
    "(channel \<Rightarrow> bool) \<Rightarrow> stream_incoming \<Rightarrow> headers \<Rightarrow> (unit, h2_stream_error) result \<times> stream_incoming" where
  "si_write_trailers alive si trailers =
     bind_st
       (case si_content_length si of
          Some clen \<Rightarrow>
            if total_received si \<noteq> clen
            then (Err (DataLengthDoesNotMatchContentLength (total_received si) clen), si)
            else (Ok (), si)
        | None \<Rightarrow> (Ok (), si)) (\<lambda>_ si.
       (Ok (), si\<lparr>si_tx := snd (ch_send alive (si_tx si) (MsgTrailers trailers))\<rparr>))"

definition si_send_error :: "(channel \<Rightarrow> bool) \<Rightarrow> stream_incoming \<Rightarrow> stream_incoming" where
  "si_send_error alive si = si\<lparr>si_tx := snd (ch_send alive (si_tx si) MsgStreamReset)\<rparr>"

text \<open>The body as the handler sees it: the messages it will still receive before the sender is gone.\<close>

record h2_body =
  hb_content_length :: "nat option"
  hb_eof :: bool
  hb_rx :: "incoming_message list"

datatype h2_body_error = BodyStreamReset

definition hb_next_chunk :: "h2_body \<Rightarrow> (body_chunk, h2_body_error) result \<times> h2_body" where
  "hb_next_chunk b =
     (if hb_eof b then (Ok (Done None), b)
      else
        (case hb_rx b of
           MsgPiece p # rx \<Rightarrow> (Ok (Chunk p), b\<lparr>hb_rx := rx\<rparr>)
         | MsgTrailers ts # rx \<Rightarrow> (Ok (Done (Some ts)), b\<lparr>hb_rx := rx, hb_eof := True\<rparr>)
         | MsgStreamReset # rx \<Rightarrow> (Err BodyStreamReset, b\<lparr>hb_rx := rx\<rparr>)
         | [] \<Rightarrow> (Ok (Done None), b\<lparr>hb_eof := True\<rparr>)))"

definition h2_body_ops :: "(h2_body, h2_body_error) body_ops" where
  "h2_body_ops =
     \<lparr>body_content_len = hb_content_length, body_eof = hb_eof, body_next_chunk = hb_next_chunk\<rparr>"

section \<open>What is waiting to be sent\<close>

datatype headers_outgoing = WaitingForHeaders | WroteNone bytes | WroteSome bytes | WroteAll

fun ho_has_more_to_write :: "headers_outgoing \<Rightarrow> bool" where
  "ho_has_more_to_write WaitingForHeaders = True"
| "ho_has_more_to_write (WroteNone _) = True"
| "ho_has_more_to_write (WroteSome _) = True"
| "ho_has_more_to_write WroteAll = False"

text \<open>\<open>std::mem::take\<close> leaves the default, \<open>WroteAll\<close>.\<close>

fun ho_take_piece :: "headers_outgoing \<Rightarrow> bytes \<times> headers_outgoing" where
  "ho_take_piece (WroteNone p) = (p, WroteAll)"
| "ho_take_piece (WroteSome p) = (p, WroteAll)"
| "ho_take_piece _ = ([], WroteAll)"

datatype body_outgoing = StillReceiving "bytes list" | DoneReceiving "bytes list" | DoneSending

fun bo_might_receive_more :: "body_outgoing \<Rightarrow> bool" where
  "bo_might_receive_more (StillReceiving _) = True"
| "bo_might_receive_more (DoneReceiving _) = True"
| "bo_might_receive_more DoneSending = False"

fun bo_has_more_to_write :: "body_outgoing \<Rightarrow> bool" where
  "bo_has_more_to_write (StillReceiving _) = True"
| "bo_has_more_to_write (DoneReceiving _) = True"
| "bo_has_more_to_write DoneSending = False"

fun bo_pop_front :: "body_outgoing \<Rightarrow> bytes option \<times> body_outgoing" where
  "bo_pop_front (StillReceiving []) = (None, StillReceiving [])"
| "bo_pop_front (StillReceiving (p # ps)) = (Some p, StillReceiving ps)"
| "bo_pop_front (DoneReceiving []) = (None, DoneSending)"
| "bo_pop_front (DoneReceiving (p # ps)) = (Some p, if ps = [] then DoneSending else DoneReceiving ps)"
| "bo_pop_front DoneSending = (None, DoneSending)"

fun bo_push_front :: "body_outgoing \<Rightarrow> bytes \<Rightarrow> body_outgoing" where
  "bo_push_front (StillReceiving ps) p = StillReceiving (p # ps)"
| "bo_push_front (DoneReceiving ps) p = DoneReceiving (p # ps)"
| "bo_push_front DoneSending p = DoneReceiving [p]"

fun bo_push_back :: "body_outgoing \<Rightarrow> bytes \<Rightarrow> (body_outgoing, 'e) result" where
  "bo_push_back (StillReceiving ps) p = Ok (StillReceiving (ps @ [p]))"
| "bo_push_back (DoneReceiving ps) p = Ok (DoneReceiving (ps @ [p]))"
| "bo_push_back DoneSending p = Panic"

record stream_outgoing =
  so_headers :: headers_outgoing
  so_body :: body_outgoing
  so_capacity :: int

datatype stream_state =
  Open stream_incoming stream_outgoing
| HalfClosedRemote stream_outgoing
| HalfClosedLocal stream_incoming
| Transition

fun outgoing_of :: "stream_state \<Rightarrow> stream_outgoing option" where
  "outgoing_of (Open _ outgoing) = Some outgoing"
| "outgoing_of (HalfClosedRemote outgoing) = Some outgoing"
| "outgoing_of _ = None"

text \<open>Assigning through the reference that \<open>outgoing_mut\<close> returns.\<close>

fun set_outgoing :: "stream_state \<Rightarrow> stream_outgoing \<Rightarrow> stream_state" where
  "set_outgoing (Open incoming _) outgoing = Open incoming outgoing"
| "set_outgoing (HalfClosedRemote _) outgoing = HalfClosedRemote outgoing"
| "set_outgoing ss _ = ss"

text \<open>The incoming half of a stream, and assignments through a reference to it.\<close>

fun incoming_of :: "stream_state \<Rightarrow> stream_incoming option" where
  "incoming_of (Open incoming _) = Some incoming"
| "incoming_of (HalfClosedLocal incoming) = Some incoming"
| "incoming_of _ = None"

fun set_incoming :: "stream_state \<Rightarrow> stream_incoming \<Rightarrow> stream_state" where
  "set_incoming (Open _ outgoing) incoming = Open incoming outgoing"
| "set_incoming (HalfClosedLocal _) incoming = HalfClosedLocal incoming"
| "set_incoming ss _ = ss"

section \<open>The connection\<close>

type_synonym streams = "(stream_id \<times> stream_state) list"

record conn_state =
  cs_streams :: streams
  last_stream_id :: stream_id
  self_settings :: settings
  peer_settings :: settings
  send_data_notified :: bool
  streams_with_pending_data :: "stream_id list"
  incoming_capacity :: int
  outgoing_capacity :: int

definition conn_state_default :: conn_state where
  "conn_state_default =
     \<lparr>cs_streams = [], last_stream_id = 0, self_settings = settings_default,
      peer_settings = settings_default, send_data_notified = False, streams_with_pending_data = [],
      incoming_capacity = uint (initial_window_size settings_default),
      outgoing_capacity = uint (initial_window_size settings_default)\<rparr>"

definition mk_stream_outgoing :: "conn_state \<Rightarrow> stream_outgoing" where
  "mk_stream_outgoing s =
     \<lparr>so_headers = WaitingForHeaders, so_body = StillReceiving [],
      so_capacity = uint (initial_window_size (peer_settings s))\<rparr>"

datatype headers_or_trailers = IsHeaders | IsTrailers

datatype h2_event_payload = EvHeaders response | EvBodyChunk bytes | EvBodyEnd

record h2_event =
  ev_stream_id :: stream_id
  ev_payload :: h2_event_payload

end
