(* ===== verification/H2_Body.thy ===== *)
theory H2_Body
  imports H2_Types
begin

text \<open>
  The request body of an HTTP/2 stream, from the DATA frames to the handler: \<open>write_chunk\<close> accepts the
  payloads of a stream as long as they agree with the announced content length, and \<open>next_chunk\<close>
  gives the handler what was accepted. The lemmas show that the handler reads exactly the bytes the
  peer sent, and that a body is accepted in full exactly when its length is the announced one.
\<close>

fun write_chunks ::
    "(channel \<Rightarrow> bool) \<Rightarrow> stream_incoming \<Rightarrow> (bytes \<times> chunk_position) list \<Rightarrow>
     (unit, h2_stream_error) result \<times> stream_incoming" where
  "write_chunks alive si [] = (Ok (), si)"
| "write_chunks alive si ((c, w) # cs) =
     bind_st (si_write_chunk alive si c w) (\<lambda>_ si. write_chunks alive si cs)"

text \<open>The handler reading its body to the end.\<close>

function read_to_end :: "h2_body \<Rightarrow> (bytes list \<times> headers option, h2_body_error) result" where
  "read_to_end b =
     (case hb_next_chunk b of
        (Err e, _) \<Rightarrow> Err e
      | (Panic, _) \<Rightarrow> Panic
      | (Ok (Done ts), _) \<Rightarrow> Ok ([], ts)
      | (Ok (Chunk c), b) \<Rightarrow> and_then (read_to_end b) (\<lambda>(cs, ts). Ok (c # cs, ts)))"
  by pat_completeness auto
termination
  by (relation "measure (\<lambda>b. length (hb_rx b))")
     (auto simp: hb_next_chunk_def split: if_splits list.splits incoming_message.splits)

declare read_to_end.simps [simp del]

lemma checked_u64_eq: "checked_u64 n = (if n < 2 ^ 64 then Some n else None)"
  by (simp add: checked_u64_def U64_def)

lemma si_write_chunk_iff:
  "(si_write_chunk alive si c w = (Ok (), si')) \<longleftrightarrow>
     total_received si + length c < 2 ^ 64 \<and> alive (si_tx si) \<and>
     (\<forall>n. si_content_length si = Some n \<longrightarrow>
        total_received si + length c \<le> n \<and> (w = Last \<longrightarrow> total_received si + length c = n)) \<and>
     si' = si\<lparr>total_received := total_received si + length c,
       si_tx := (si_tx si)\<lparr>ch_sent := ch_sent (si_tx si) @ [MsgPiece c]\<rparr>\<rparr>"
  by (auto simp: si_write_chunk_def checked_u64_eq ch_send_def Let_def split: option.split)

lemma si_write_chunk_no_panic: "fst (si_write_chunk alive si c w) \<noteq> Panic"
  by (auto simp: si_write_chunk_def checked_u64_eq ch_send_def Let_def split: option.split)

definition si_after :: "stream_incoming \<Rightarrow> bytes list \<Rightarrow> stream_incoming" where
  "si_after si cs = si\<lparr>total_received := total_received si + length (concat cs),
     si_tx := (si_tx si)\<lparr>ch_sent := ch_sent (si_tx si) @ map MsgPiece cs\<rparr>\<rparr>"

lemma si_after_simps [simp]:
  "si_after si [] = si"
  "total_received (si_after si cs) = total_received si + length (concat cs)"
  "si_content_length (si_after si cs) = si_content_length si"
  "ch_sent (si_tx (si_after si cs)) = ch_sent (si_tx si) @ map MsgPiece cs"
  by (simp_all add: si_after_def)

lemma si_after_Cons:
  "si_after (si\<lparr>total_received := total_received si + length c,
     si_tx := (si_tx si)\<lparr>ch_sent := ch_sent (si_tx si) @ [MsgPiece c]\<rparr>\<rparr>) cs = si_after si (c # cs)"
  by (simp add: si_after_def)

lemma write_chunks_ok:
  "write_chunks alive si (map (\<lambda>c. (c, NotLast)) cs) = (Ok (), si') \<Longrightarrow> si' = si_after si cs"
  by (induction cs arbitrary: si) (auto simp: result_simps si_write_chunk_iff simp flip: si_after_Cons)

lemma write_chunks_accepts:
  assumes "\<And>ch. alive ch" and "total_received si + length (concat cs) \<le> n" and "n < 2 ^ 64"
    and "si_content_length si = Some n"
  shows "write_chunks alive si (map (\<lambda>c. (c, NotLast)) cs) = (Ok (), si_after si cs)"
  using assms(2,4)
proof (induction cs arbitrary: si)
  case (Cons c cs)
  let ?si = "si\<lparr>total_received := total_received si + length c,
    si_tx := (si_tx si)\<lparr>ch_sent := ch_sent (si_tx si) @ [MsgPiece c]\<rparr>\<rparr>"
  have "si_write_chunk alive si c NotLast = (Ok (), ?si)"
    using Cons.prems assms(1,3) by (simp add: si_write_chunk_iff)
  with Cons.IH[of ?si] Cons.prems show ?case by (simp add: si_after_Cons)
qed simp

lemma write_chunks_append:
  "write_chunks alive si (xs @ ys) =
     bind_st (write_chunks alive si xs) (\<lambda>_ si. write_chunks alive si ys)"
proof (induction xs arbitrary: si)
  case (Cons x xs)
  obtain c w where x: "x = (c, w)" by (cases x)
  obtain r si' where "si_write_chunk alive si c w = (r, si')" by (cases "si_write_chunk alive si c w")
  with x Cons show ?case by (cases r) simp_all
qed simp

lemma read_to_end_pieces:
  "read_to_end \<lparr>hb_content_length = l, hb_eof = False, hb_rx = map MsgPiece cs @ ms\<rparr> =
   and_then (read_to_end \<lparr>hb_content_length = l, hb_eof = False, hb_rx = ms\<rparr>)
     (\<lambda>(ds, ts). Ok (cs @ ds, ts))"
proof (induction cs)
  case Nil
  show ?case by (cases "read_to_end \<lparr>hb_content_length = l, hb_eof = False, hb_rx = ms\<rparr>") auto
next
  case (Cons c cs)
  show ?case
    by (subst read_to_end.simps, simp add: hb_next_chunk_def Cons)
       (cases "read_to_end \<lparr>hb_content_length = l, hb_eof = False, hb_rx = ms\<rparr>"; auto)
qed

text \<open>C39: with a handler that keeps reading, the payloads of a stream whose request announced a content
  length are all accepted exactly when they add up to that length, and then the handler reads exactly
  these payloads, in order, and the end of the body.\<close>

theorem request_body_delivery:
  assumes "\<And>ch. alive ch" and "n < 2 ^ 64" and "ch_sent tx = []"
  shows "(\<exists>si. write_chunks alive (stream_incoming_new w (Some n) tx)
        (map (\<lambda>c. (c, NotLast)) ds @ [(d, Last)]) = (Ok (), si) \<and>
      read_to_end \<lparr>hb_content_length = Some n, hb_eof = False, hb_rx = ch_sent (si_tx si)\<rparr> = Ok ((ds @ [d]), None))
    \<longleftrightarrow> length (concat (ds @ [d])) = n"
proof
  let ?si = "stream_incoming_new w (Some n) tx"
  have new: "total_received ?si = 0" "si_content_length ?si = Some n" "si_tx ?si = tx"
    by (simp_all add: stream_incoming_new_def)
  assume "\<exists>si. write_chunks alive ?si (map (\<lambda>c. (c, NotLast)) ds @ [(d, Last)]) = (Ok (), si) \<and>
      read_to_end \<lparr>hb_content_length = Some n, hb_eof = False, hb_rx = ch_sent (si_tx si)\<rparr> = Ok ((ds @ [d]), None)"
  then show "length (concat (ds @ [d])) = n"
    using new by (auto simp: write_chunks_append result_simps si_write_chunk_iff dest!: write_chunks_ok)
next
  let ?si = "stream_incoming_new w (Some n) tx"
  have new: "total_received ?si = 0" "si_content_length ?si = Some n" "ch_sent (si_tx ?si) = []"
    using assms(3) by (simp_all add: stream_incoming_new_def)
  assume len: "length (concat (ds @ [d])) = n"
  then have first: "write_chunks alive ?si (map (\<lambda>c. (c, NotLast)) ds) = (Ok (), si_after ?si ds)"
    using assms(1,2) new by (intro write_chunks_accepts[where n = n]) auto
  have "si_write_chunk alive (si_after ?si ds) d Last = (Ok (), si_after ?si (ds @ [d]))"
    using len assms(1,2) new by (simp add: si_write_chunk_iff) (simp add: si_after_def)
  with first have "write_chunks alive ?si (map (\<lambda>c. (c, NotLast)) ds @ [(d, Last)]) = (Ok (), si_after ?si (ds @ [d]))"
    by (simp add: write_chunks_append)
  moreover have "read_to_end \<lparr>hb_content_length = Some n, hb_eof = False,
      hb_rx = ch_sent (si_tx (si_after ?si (ds @ [d])))\<rparr> = Ok ((ds @ [d]), None)"
    using read_to_end_pieces[of "Some n" "ds @ [d]" "[]"] new
    by (simp add: read_to_end.simps[of "\<lparr>hb_content_length = Some n, hb_eof = False, hb_rx = []\<rparr>"] hb_next_chunk_def)
  ultimately show "\<exists>si. write_chunks alive ?si (map (\<lambda>c. (c, NotLast)) ds @ [(d, Last)]) = (Ok (), si) \<and>
      read_to_end \<lparr>hb_content_length = Some n, hb_eof = False, hb_rx = ch_sent (si_tx si)\<rparr> = Ok ((ds @ [d]), None)"
    by blast
qed

theorem request_body_delivery_witness:
  "\<exists>si. write_chunks (\<lambda>_. True) (stream_incoming_new 65535 (Some 3) \<lparr>ch_id = 0, ch_sent = []\<rparr>)
      [([1, 2], NotLast), ([3], Last)] = (Ok (), si) \<and>
    read_to_end \<lparr>hb_content_length = Some 3, hb_eof = False, hb_rx = ch_sent (si_tx si)\<rparr> =
      Ok ([[1, 2], [3]], None)"
  using request_body_delivery[of "\<lambda>_. True" 3 "\<lparr>ch_id = 0, ch_sent = []\<rparr>" 65535 "[[1, 2]]" "[3]"]
  by simp

end
