(* ===== verification/H2_Headers.thy ===== *)
theory H2_Headers
  imports H2_Types
begin

text \<open>
  The field blocks of requests and trailers (\<open>read_headers\<close>, \<open>crates/loona/src/h2/server.rs\<close>): the
  callback that checks every decoded field and collects the pseudo-headers and the header map, and the
  checks of the complete request. The messages of \<open>BadRequest\<close>, which are only logged, are shortened to a
  few words. The callback cannot fail, so the panic of \<open>value.parse().unwrap()\<close> on a scheme is recorded
  in its state and takes effect when the block has been decoded.
\<close>

section \<open>One field\<close>

record field_block =
  fb_method :: "req_method option"
  fb_scheme :: "bytes option"
  fb_path :: "bytes option"
  fb_authority :: "bytes option"
  fb_headers :: headers
  fb_req_error :: "h2_stream_error option"
  fb_saw_regular :: bool
  fb_panicked :: bool

definition field_block_new :: "http \<Rightarrow> field_block" where
  "field_block_new h =
     \<lparr>fb_method = None, fb_scheme = None, fb_path = None, fb_authority = None, fb_headers = hm_default h,
      fb_req_error = None, fb_saw_regular = False, fb_panicked = False\<rparr>"

abbreviation bad_request :: "string \<Rightarrow> field_block \<Rightarrow> field_block" where
  "bad_request msg fb \<equiv> fb\<lparr>fb_req_error := Some (BadRequest msg)\<rparr>"

definition KEEP_ALIVE :: bytes where "KEEP_ALIVE = byte_str ''keep-alive''"
definition PROXY_CONNECTION :: bytes where "PROXY_CONNECTION = byte_str ''proxy-connection''"

definition PSEUDO_METHOD :: bytes where "PSEUDO_METHOD = byte_str '':method''"
definition PSEUDO_SCHEME :: bytes where "PSEUDO_SCHEME = byte_str '':scheme''"
definition PSEUDO_PATH :: bytes where "PSEUDO_PATH = byte_str '':path''"
definition PSEUDO_AUTHORITY :: bytes where "PSEUDO_AUTHORITY = byte_str '':authority''"

definition is_pseudo :: "bytes \<Rightarrow> bool" where
  "is_pseudo key \<longleftrightarrow> (case key of b # _ \<Rightarrow> b = 0x3A | [] \<Rightarrow> False)"

text \<open>The variables are assigned by \<open>replace\<close> before a duplicate is noticed.\<close>

definition on_pseudo_header :: "http \<Rightarrow> field_block \<Rightarrow> bytes \<Rightarrow> bytes \<Rightarrow> field_block" where
  "on_pseudo_header h fb key value =
     (if key = PSEUDO_METHOD then
        if \<not> from_utf8 value then bad_request ''method: not utf-8'' fb
        else
          let fb' = fb\<lparr>fb_method := Some (method_from value)\<rparr> in
          if fb_method fb \<noteq> None then bad_request ''duplicate method'' fb' else fb'
      else if key = PSEUDO_SCHEME then
        if \<not> from_utf8 value then bad_request ''scheme: not utf-8'' fb
        else
          (case scheme_from_str h value of
             None \<Rightarrow> fb\<lparr>fb_panicked := True\<rparr>
           | Some scheme \<Rightarrow>
               let fb' = fb\<lparr>fb_scheme := Some scheme\<rparr> in
               if fb_scheme fb \<noteq> None then bad_request ''duplicate scheme'' fb' else fb')
      else if key = PSEUDO_PATH then
        if \<not> from_utf8 value then bad_request ''path: not utf-8'' fb
        else
          let fb' = fb\<lparr>fb_path := Some value\<rparr> in
          if fb_path fb \<noteq> None then bad_request ''duplicate path'' fb' else fb'
      else if key = PSEUDO_AUTHORITY then
        if \<not> from_utf8 value then bad_request ''authority: not utf-8'' fb
        else
          (case authority_from_str h value of
             None \<Rightarrow> bad_request ''authority: not valid'' fb
           | Some authority \<Rightarrow>
               let fb' = fb\<lparr>fb_authority := Some authority\<rparr> in
               if fb_authority fb \<noteq> None then bad_request ''duplicate authority'' fb' else fb')
      else bad_request ''invalid pseudo-header'' fb)"

definition is_ascii_uppercase :: "u8 \<Rightarrow> bool" where
  "is_ascii_uppercase b \<longleftrightarrow> 0x41 \<le> b \<and> b \<le> 0x5A"

definition is_blank :: "u8 \<Rightarrow> bool" where
  "is_blank b \<longleftrightarrow> b = 0x20 \<or> b = 0x09"

definition on_regular_header :: "http \<Rightarrow> field_block \<Rightarrow> bytes \<Rightarrow> bytes \<Rightarrow> field_block" where
  "on_regular_header h fb key value =
     (let fb = fb\<lparr>fb_saw_regular := True\<rparr> in
      case header_name_from_bytes h key of
        None \<Rightarrow> bad_request ''invalid header name'' fb
      | Some name \<Rightarrow>
          if list_ex is_ascii_uppercase key then bad_request ''uppercase'' fb
          else if name = CONNECTION_NAME \<or> name = KEEP_ALIVE \<or> name = PROXY_CONNECTION \<or>
                  name = TRANSFER_ENCODING \<or> name = UPGRADE
          then bad_request ''connection-specific'' fb
          else if name = TE \<and> value \<noteq> byte_str ''trailers'' then bad_request ''te'' fb
          else if value \<noteq> [] \<and> (is_blank (hd value) \<or> is_blank (last value))
          then bad_request ''whitespace'' fb
          else if list_ex (\<lambda>b. b = 0x0D \<or> b = 0x0A \<or> b = 0x00) value then bad_request ''cr, lf, nul'' fb
          else fb\<lparr>fb_headers := hm_append h (fb_headers fb) name value\<rparr>)"

definition on_header_pair :: "http \<Rightarrow> headers_or_trailers \<Rightarrow> field_block callback" where
  "on_header_pair h kind fb key value =
     (if fb_panicked fb then fb
      else if fb_req_error fb \<noteq> None then fb
      else if is_pseudo key then
        if fb_saw_regular fb then bad_request ''pseudo-header after regular'' fb
        else if kind = IsTrailers then bad_request ''pseudo-header in trailers'' fb
        else on_pseudo_header h fb key value
      else on_regular_header h fb key value)"

section \<open>The request\<close>

text \<open>\<open>str::parse::<u64>\<close>: digits after an optional plus sign, within 64 bits.\<close>

definition parse_u64 :: "bytes \<Rightarrow> nat option" where
  "parse_u64 s =
     (case s of
        [] \<Rightarrow> None
      | b # ds \<Rightarrow> if b = 0x2B then if ds = [] then None else from_digits_loop 0 ds
                  else from_digits_loop 0 s)"

definition bad :: "string \<Rightarrow> ('a, h2_error_level) result" where
  "bad msg = Err (LevelStream (BadRequest msg))"

definition host_authority :: "http \<Rightarrow> bytes \<Rightarrow> (bytes, h2_error_level) result" where
  "host_authority h host =
     (if \<not> from_utf8 host then bad ''host: not utf-8''
      else
        (case authority_from_str h host of
           None \<Rightarrow> bad ''host: not valid''
         | Some authority \<Rightarrow> Ok authority))"

definition request_authority :: "http \<Rightarrow> field_block \<Rightarrow> (bytes option, h2_error_level) result" where
  "request_authority h fb =
     (case fb_authority fb of
        Some authority \<Rightarrow>
          (case hm_get h (fb_headers fb) HOST of
             Some host \<Rightarrow>
               and_then (host_authority h host) (\<lambda>host_auth.
                 if \<not> authority_eq h host_auth authority then bad ''host does not match authority''
                 else Ok (Some authority))
           | None \<Rightarrow> Ok (Some authority))
      | None \<Rightarrow>
          (case hm_get h (fb_headers fb) HOST of
             Some host \<Rightarrow> and_then (host_authority h host) (\<lambda>authority. Ok (Some authority))
           | None \<Rightarrow> Ok None))"

definition request_content_length :: "http \<Rightarrow> headers \<Rightarrow> bool \<Rightarrow> (nat option, h2_error_level) result" where
  "request_content_length h hs end_stream =
     (case hm_get h hs CONTENT_LENGTH of
        Some len \<Rightarrow>
          if \<not> from_utf8 len then bad ''content-length: not utf-8''
          else
            (case parse_u64 len of
               None \<Rightarrow> bad ''content-length: not an integer''
             | Some len \<Rightarrow> Ok (Some len))
      | None \<Rightarrow> if end_stream then Ok (Some 0) else Ok None)"

definition NOT_IMPLEMENTED :: nat where "NOT_IMPLEMENTED = 501"
definition BAD_REQUEST :: nat where "BAD_REQUEST = 400"

definition request_method :: "field_block \<Rightarrow> (req_method, h2_error_level) result" where
  "request_method fb =
     (case fb_method fb of
        Some m \<Rightarrow>
          if m = Connect then
            if fb_scheme fb \<noteq> None then bad ''connect with scheme''
            else if fb_path fb \<noteq> None then bad ''connect with path''
            else if fb_authority fb = None then bad ''connect without authority''
            else Err (LevelRequest \<lparr>re_status = NOT_IMPLEMENTED,
                   re_message = byte_str ''CONNECT method is not supported''\<rparr>)
          else Ok m
      | None \<Rightarrow> bad ''missing method'')"

definition request_of_block ::
    "http \<Rightarrow> bool \<Rightarrow> field_block \<Rightarrow> (request \<times> nat option, h2_error_level) result" where
  "request_of_block h end_stream fb =
     and_then (request_method fb) (\<lambda>m.
     and_then (case fb_scheme fb of Some s \<Rightarrow> Ok s | None \<Rightarrow> bad ''missing scheme'') (\<lambda>scheme.
     and_then (case fb_path fb of Some p \<Rightarrow> Ok p | None \<Rightarrow> bad ''missing path'') (\<lambda>path.
       if path = [] \<and> (scheme_eq h scheme (byte_str ''http'') \<or> scheme_eq h scheme (byte_str ''https''))
       then bad ''empty path''
       else
         and_then (case path_and_query_from_str h path of Some p \<Rightarrow> Ok p | None \<Rightarrow> bad ''path: not valid'')
           (\<lambda>path_and_query.
         and_then (request_authority h fb) (\<lambda>authority.
           (case uri_from_parts h scheme authority path_and_query of
              None \<Rightarrow> Err (LevelRequest \<lparr>re_status = BAD_REQUEST,
                        re_message = byte_str ''invalid URI parts''\<rparr>)
            | Some uri \<Rightarrow>
                let req = \<lparr>rq_method = m, rq_uri = uri, rq_version = HTTP_2, rq_headers = fb_headers fb\<rparr> in
                and_then (request_content_length h (rq_headers req) end_stream) (\<lambda>clen.
                  Ok (req, clen)))))))) "

section \<open>Which field blocks are accepted\<close>

text \<open>The rules of RFC 9113, sections 8.2 and 8.3, for a whole block.\<close>

definition pseudo_field_ok :: "http \<Rightarrow> header \<Rightarrow> bool" where
  "pseudo_field_ok h nv \<longleftrightarrow>
     fst nv \<in> {PSEUDO_METHOD, PSEUDO_SCHEME, PSEUDO_PATH, PSEUDO_AUTHORITY} \<and> from_utf8 (snd nv) \<and>
     (fst nv = PSEUDO_SCHEME \<longrightarrow> scheme_from_str h (snd nv) \<noteq> None) \<and>
     (fst nv = PSEUDO_AUTHORITY \<longrightarrow> authority_from_str h (snd nv) \<noteq> None)"

definition regular_field_ok :: "http \<Rightarrow> header \<Rightarrow> bool" where
  "regular_field_ok h nv \<longleftrightarrow>
     (\<exists>name. header_name_from_bytes h (fst nv) = Some name \<and>
        name \<notin> {CONNECTION_NAME, KEEP_ALIVE, PROXY_CONNECTION, TRANSFER_ENCODING, UPGRADE} \<and>
        (name = TE \<longrightarrow> snd nv = byte_str ''trailers'')) \<and>
     (\<forall>b\<in>set (fst nv). \<not> is_ascii_uppercase b) \<and>
     (snd nv \<noteq> [] \<longrightarrow> \<not> is_blank (hd (snd nv)) \<and> \<not> is_blank (last (snd nv))) \<and>
     set (snd nv) \<inter> {0x0D, 0x0A, 0x00} = {}"

definition pseudo_fields :: "header list \<Rightarrow> header list" where
  "pseudo_fields hs = filter (is_pseudo \<circ> fst) hs"

definition regular_fields :: "header list \<Rightarrow> header list" where
  "regular_fields hs = filter (Not \<circ> is_pseudo \<circ> fst) hs"

definition fields_ok :: "http \<Rightarrow> headers_or_trailers \<Rightarrow> header list \<Rightarrow> bool" where
  "fields_ok h kind hs \<longleftrightarrow> hs = pseudo_fields hs @ regular_fields hs \<and>
     (kind = IsTrailers \<longrightarrow> pseudo_fields hs = []) \<and> distinct (map fst (pseudo_fields hs)) \<and>
     (\<forall>nv\<in>set (pseudo_fields hs). pseudo_field_ok h nv) \<and>
     (\<forall>nv\<in>set (regular_fields hs). regular_field_ok h nv)"

definition collected_headers :: "http \<Rightarrow> header list \<Rightarrow> headers" where
  "collected_headers h rs =
     foldl (\<lambda>m (n, v). hm_append h m (the (header_name_from_bytes h n)) v) (hm_default h) rs"

definition fb_good :: "field_block \<Rightarrow> bool" where
  "fb_good fb \<longleftrightarrow> fb_req_error fb = None \<and> \<not> fb_panicked fb"

text \<open>The block that a list of accepted fields leaves.\<close>

definition collected :: "http \<Rightarrow> header list \<Rightarrow> field_block" where
  "collected h hs = (let ps = pseudo_fields hs in
     \<lparr>fb_method = map_option method_from (map_of ps PSEUDO_METHOD),
      fb_scheme = Option.bind (map_of ps PSEUDO_SCHEME) (scheme_from_str h),
      fb_path = map_of ps PSEUDO_PATH,
      fb_authority = Option.bind (map_of ps PSEUDO_AUTHORITY) (authority_from_str h),
      fb_headers = collected_headers h (regular_fields hs),
      fb_req_error = None, fb_saw_regular = (regular_fields hs \<noteq> []), fb_panicked = False\<rparr>)"

lemma pseudo_names [simp]:
  "PSEUDO_METHOD \<noteq> PSEUDO_SCHEME" "PSEUDO_METHOD \<noteq> PSEUDO_PATH" "PSEUDO_METHOD \<noteq> PSEUDO_AUTHORITY"
  "PSEUDO_SCHEME \<noteq> PSEUDO_PATH" "PSEUDO_SCHEME \<noteq> PSEUDO_AUTHORITY" "PSEUDO_PATH \<noteq> PSEUDO_AUTHORITY"
  by (simp_all add: PSEUDO_METHOD_def PSEUDO_SCHEME_def PSEUDO_PATH_def PSEUDO_AUTHORITY_def byte_str_def)

lemmas pseudo_names_sym [simp] = pseudo_names[symmetric]

lemma fields_split_snoc:
  "pseudo_fields (hs @ [nv]) = pseudo_fields hs @ (if is_pseudo (fst nv) then [nv] else [])"
  "regular_fields (hs @ [nv]) = regular_fields hs @ (if is_pseudo (fst nv) then [] else [nv])"
  by (simp_all add: pseudo_fields_def regular_fields_def)

lemma collected_headers_snoc:
  "collected_headers h (rs @ [(n, v)]) =
     hm_append h (collected_headers h rs) (the (header_name_from_bytes h n)) v"
  by (simp add: collected_headers_def)

lemma on_header_pair_bad: "\<not> fb_good fb \<Longrightarrow> on_header_pair h kind fb n v = fb"
  by (auto simp: fb_good_def on_header_pair_def)

lemma fields_ok_snoc_regular:
  assumes "\<not> is_pseudo n"
  shows "fields_ok h kind (hs @ [(n, v)]) \<longleftrightarrow> fields_ok h kind hs \<and> regular_field_ok h (n, v)"
  using assms by (auto simp: fields_ok_def fields_split_snoc simp flip: append_assoc)

lemma fields_ok_snoc_pseudo:
  assumes "is_pseudo n"
  shows "fields_ok h kind (hs @ [(n, v)]) \<longleftrightarrow> fields_ok h kind hs \<and> regular_fields hs = [] \<and>
    kind = IsHeaders \<and> pseudo_field_ok h (n, v) \<and> n \<notin> fst ` set (pseudo_fields hs)"
proof -
  have "hs @ [(n, v)] = (pseudo_fields hs @ [(n, v)]) @ regular_fields hs \<longleftrightarrow>
      hs = pseudo_fields hs @ regular_fields hs \<and> regular_fields hs = []"
  proof (cases "regular_fields hs" rule: rev_cases)
    case (snoc rs r)
    then have "r \<in> set (regular_fields hs)" by simp
    then have "\<not> is_pseudo (fst r)" by (simp add: regular_fields_def)
    with assms have "r \<noteq> (n, v)" by auto
    with snoc show ?thesis by (simp flip: append_assoc)
  qed simp
  with assms show ?thesis
    by (cases kind) (auto simp: fields_ok_def fields_split_snoc)
qed

lemma fb_good_simps [simp]:
  "\<not> fb_good (fb\<lparr>fb_req_error := Some e\<rparr>)"
  "\<not> fb_good (fb\<lparr>fb_panicked := True\<rparr>)"
  "fb_good (fb\<lparr>fb_method := m\<rparr>) = fb_good fb" "fb_good (fb\<lparr>fb_scheme := s\<rparr>) = fb_good fb"
  "fb_good (fb\<lparr>fb_path := s\<rparr>) = fb_good fb" "fb_good (fb\<lparr>fb_authority := s\<rparr>) = fb_good fb"
  "fb_good (fb\<lparr>fb_saw_regular := b\<rparr>) = fb_good fb" "fb_good (fb\<lparr>fb_headers := hs\<rparr>) = fb_good fb"
  by (simp_all add: fb_good_def)

lemma on_regular_header_eq:
  "on_regular_header h fb n v =
     (if regular_field_ok h (n, v) then fb\<lparr>fb_saw_regular := True,
        fb_headers := hm_append h (fb_headers fb) (the (header_name_from_bytes h n)) v\<rparr>
      else fb\<lparr>fb_saw_regular := True, fb_req_error := fb_req_error (on_regular_header h fb n v)\<rparr>) \<and>
   (\<not> regular_field_ok h (n, v) \<longrightarrow> fb_req_error (on_regular_header h fb n v) \<noteq> None)"
proof (cases "header_name_from_bytes h n")
  case None
  then show ?thesis by (simp add: on_regular_header_def regular_field_ok_def)
next
  case (Some name)
  have ex: "list_ex is_ascii_uppercase n \<longleftrightarrow> \<not> (\<forall>b\<in>set n. \<not> is_ascii_uppercase b)"
    "list_ex (\<lambda>b. b = 0x0D \<or> b = 0x0A \<or> b = 0x00) v \<longleftrightarrow> set v \<inter> {0x0D, 0x0A, 0x00} \<noteq> {}"
    by (auto simp: list_ex_iff)
  have ok: "regular_field_ok h (n, v) \<longleftrightarrow> \<not> list_ex is_ascii_uppercase n \<and>
      \<not> (name = CONNECTION_NAME \<or> name = KEEP_ALIVE \<or> name = PROXY_CONNECTION \<or>
         name = TRANSFER_ENCODING \<or> name = UPGRADE) \<and>
      \<not> (name = TE \<and> v \<noteq> byte_str ''trailers'') \<and>
      \<not> (v \<noteq> [] \<and> (is_blank (hd v) \<or> is_blank (last v))) \<and>
      \<not> list_ex (\<lambda>b. b = 0x0D \<or> b = 0x0A \<or> b = 0x00) v"
    unfolding ex regular_field_ok_def using Some by auto
  have eq: "on_regular_header h fb n v = (let fb = fb\<lparr>fb_saw_regular := True\<rparr> in
      if list_ex is_ascii_uppercase n then bad_request ''uppercase'' fb
      else if name = CONNECTION_NAME \<or> name = KEEP_ALIVE \<or> name = PROXY_CONNECTION \<or>
              name = TRANSFER_ENCODING \<or> name = UPGRADE
      then bad_request ''connection-specific'' fb
      else if name = TE \<and> v \<noteq> byte_str ''trailers'' then bad_request ''te'' fb
      else if v \<noteq> [] \<and> (is_blank (hd v) \<or> is_blank (last v)) then bad_request ''whitespace'' fb
      else if list_ex (\<lambda>b. b = 0x0D \<or> b = 0x0A \<or> b = 0x00) v then bad_request ''cr, lf, nul'' fb
      else fb\<lparr>fb_headers := hm_append h (fb_headers fb) name v\<rparr>)"
    using Some by (simp only: on_regular_header_def Let_def option.simps)
  show ?thesis unfolding ok eq Let_def using Some by (simp only: split: if_split) simp
qed

lemma map_of_snoc: "n \<notin> fst ` set ps \<Longrightarrow> map_of (ps @ [(n, v)]) k = (if k = n then Some v else map_of ps k)"
  using map_of_eq_None_iff[of ps n] by (auto simp: map_add_def split: option.split)

lemma on_pseudo_header_good:
  assumes "fields_ok h kind hs" and "regular_fields hs = []"
  shows "fb_good (on_pseudo_header h (collected h hs) n v) \<longleftrightarrow>
      pseudo_field_ok h (n, v) \<and> n \<notin> fst ` set (pseudo_fields hs)"
    and "pseudo_field_ok h (n, v) \<Longrightarrow> n \<notin> fst ` set (pseudo_fields hs) \<Longrightarrow> is_pseudo n \<Longrightarrow>
      on_pseudo_header h (collected h hs) n v = collected h (hs @ [(n, v)])"
proof -
  have ok: "pseudo_field_ok h (k, w)" if "map_of (pseudo_fields hs) k = Some w" for k w
    using assms(1) map_of_SomeD[OF that] by (auto simp: fields_ok_def)
  have good: "fb_good (collected h hs)" by (simp add: collected_def fb_good_def Let_def)
  have fields: "fb_method (collected h hs) = None \<longleftrightarrow> map_of (pseudo_fields hs) PSEUDO_METHOD = None"
      "fb_scheme (collected h hs) = None \<longleftrightarrow> map_of (pseudo_fields hs) PSEUDO_SCHEME = None"
      "fb_path (collected h hs) = None \<longleftrightarrow> map_of (pseudo_fields hs) PSEUDO_PATH = None"
      "fb_authority (collected h hs) = None \<longleftrightarrow> map_of (pseudo_fields hs) PSEUDO_AUTHORITY = None"
    using ok[of PSEUDO_SCHEME] ok[of PSEUDO_AUTHORITY]
    by (cases "map_of (pseudo_fields hs) PSEUDO_SCHEME"; cases "map_of (pseudo_fields hs) PSEUDO_AUTHORITY";
        simp add: collected_def Let_def pseudo_field_ok_def)+
  have dup: "k \<in> fst ` set (pseudo_fields hs) \<longleftrightarrow> map_of (pseudo_fields hs) k \<noteq> None" for k
    by (metis map_of_eq_None_iff)
  show "fb_good (on_pseudo_header h (collected h hs) n v) \<longleftrightarrow>
      pseudo_field_ok h (n, v) \<and> n \<notin> fst ` set (pseudo_fields hs)"
    unfolding dup on_pseudo_header_def
    by (simp add: pseudo_field_ok_def Let_def good fields split: option.split)
  show "on_pseudo_header h (collected h hs) n v = collected h (hs @ [(n, v)])"
    if "pseudo_field_ok h (n, v)" "n \<notin> fst ` set (pseudo_fields hs)" "is_pseudo n"
  proof -
    have new: "map_of (pseudo_fields hs) n = None" using that(2) unfolding dup by simp
    have collect: "collected h (hs @ [(n, v)]) = (let ps = pseudo_fields hs @ [(n, v)] in
       \<lparr>fb_method = map_option method_from (map_of ps PSEUDO_METHOD),
        fb_scheme = Option.bind (map_of ps PSEUDO_SCHEME) (scheme_from_str h),
        fb_path = map_of ps PSEUDO_PATH,
        fb_authority = Option.bind (map_of ps PSEUDO_AUTHORITY) (authority_from_str h),
        fb_headers = collected_headers h [],
        fb_req_error = None, fb_saw_regular = False, fb_panicked = False\<rparr>)"
      using that(3) assms(2) by (simp add: collected_def fields_split_snoc)
    from that(1) consider "n = PSEUDO_METHOD" | "n = PSEUDO_SCHEME" | "n = PSEUDO_PATH" | "n = PSEUDO_AUTHORITY"
      by (auto simp: pseudo_field_ok_def)
    then show ?thesis
    proof cases
      case 1
      with that(1) new show ?thesis unfolding collect map_of_snoc[OF that(2)] Let_def on_pseudo_header_def
        by (simp add: pseudo_field_ok_def collected_def assms(2) Let_def)
    next
      case 2
      with that(1) new show ?thesis unfolding collect map_of_snoc[OF that(2)] Let_def on_pseudo_header_def
        by (auto simp: pseudo_field_ok_def collected_def assms(2) Let_def)
    next
      case 3
      with that(1) new show ?thesis unfolding collect map_of_snoc[OF that(2)] Let_def on_pseudo_header_def
        by (simp add: pseudo_field_ok_def collected_def assms(2) Let_def)
    next
      case 4
      with that(1) new show ?thesis unfolding collect map_of_snoc[OF that(2)] Let_def on_pseudo_header_def
        by (auto simp: pseudo_field_ok_def collected_def assms(2) Let_def)
    qed
  qed
qed

lemma field_block_feed:
  "(fb_good (feed (on_header_pair h kind) (field_block_new h) hs) \<longleftrightarrow> fields_ok h kind hs) \<and>
   (fields_ok h kind hs \<longrightarrow> feed (on_header_pair h kind) (field_block_new h) hs = collected h hs)"
proof (induction hs rule: rev_induct)
  case Nil
  show ?case
    by (simp add: feed_def fields_ok_def collected_def pseudo_fields_def regular_fields_def field_block_new_def
        fb_good_def collected_headers_def)
next
  case (snoc nv hs)
  obtain n v where nv: "nv = (n, v)" by (cases nv)
  let ?fb = "feed (on_header_pair h kind) (field_block_new h) hs"
  have step: "feed (on_header_pair h kind) (field_block_new h) (hs @ [nv]) = on_header_pair h kind ?fb n v"
    by (simp add: feed_def nv)
  show ?case
  proof (cases "fields_ok h kind hs")
    case False
    with snoc.IH have "\<not> fb_good ?fb" by simp
    moreover have "\<not> fields_ok h kind (hs @ [nv])"
      using False nv fields_ok_snoc_regular fields_ok_snoc_pseudo by metis
    ultimately show ?thesis by (simp add: step on_header_pair_bad)
  next
    case True
    with snoc.IH have fb: "?fb = collected h hs" by simp
    have c: "\<not> fb_panicked (collected h hs)" "fb_req_error (collected h hs) = None"
        "fb_saw_regular (collected h hs) \<longleftrightarrow> regular_fields hs \<noteq> []" "fb_good (collected h hs)"
      by (simp_all add: collected_def Let_def fb_good_def)
    show ?thesis
    proof (cases "is_pseudo n")
      case pseudo: True
      show ?thesis
      proof (cases "regular_fields hs = [] \<and> kind = IsHeaders")
        case True
        with pseudo c have "on_header_pair h kind (collected h hs) n v = on_pseudo_header h (collected h hs) n v"
          by (simp add: on_header_pair_def)
        with on_pseudo_header_good[OF \<open>fields_ok h kind hs\<close>] \<open>fields_ok h kind hs\<close> pseudo True show ?thesis
          unfolding step fb unfolding nv fields_ok_snoc_pseudo[OF pseudo] by simp
      next
        case False
        with pseudo c have "\<not> fb_good (on_header_pair h kind (collected h hs) n v)"
          by (cases kind) (auto simp: on_header_pair_def)
        with False show ?thesis
          unfolding step fb unfolding nv fields_ok_snoc_pseudo[OF pseudo] by (cases kind) auto
      qed
    next
      case False
      have "on_header_pair h kind (collected h hs) n v = on_regular_header h (collected h hs) n v"
        using False c by (simp add: on_header_pair_def)
      moreover have "collected h (hs @ [(n, v)]) = (collected h hs)\<lparr>fb_saw_regular := True,
          fb_headers := hm_append h (fb_headers (collected h hs)) (the (header_name_from_bytes h n)) v\<rparr>"
        using False by (simp add: collected_def fields_split_snoc collected_headers_snoc Let_def)
      ultimately show ?thesis
        using on_regular_header_eq[of h "collected h hs" n v] c True
        unfolding step fb unfolding nv fields_ok_snoc_regular[OF False] fb_good_def by auto
    qed
  qed
qed

text \<open>C38: the callback accepts exactly the field blocks that RFC 9113 allows, whatever the order in which the
  fields are wrong: pseudo-headers come first, only in headers, are among the four of a request and occur
  at most once; names are lowercase and not connection-specific, \<open>te\<close> says \<open>trailers\<close>, values have no
  outer blanks and no line breaks or zero bytes. The block that is collected then holds the method,
  scheme, path and authority and all the other fields in order.\<close>

theorem field_blocks_accepted:
  "if fields_ok h kind hs
   then feed (on_header_pair h kind) (field_block_new h) hs = collected h hs \<and> fb_good (collected h hs)
   else \<not> fb_good (feed (on_header_pair h kind) (field_block_new h) hs)"
  using field_block_feed[of h kind hs] by auto

end
