(* ===== verification/H2_Encode.thy ===== *)
theory H2_Encode
  imports H2_Types
begin

text \<open>
  The HTTP/2 encoder (\<open>crates/loona/src/h2/encode.rs\<close>): the handle of a stream through which a
  responder sends its answer to the connection as events, its state, and the events its drop adds. The
  encoder keeps the events it has sent; whether the connection still receives them is decided outside
  (\<open>alive\<close>). The lemmas show that whatever a handler does, the connection gets the headers once, then
  chunks, then the end of the body once, and that an answer written by a responder keeps the content
  length it announces.
\<close>

record h2_encoder =
  he_stream_id :: stream_id
  he_tx :: "h2_event list"
  he_state :: encoder_state

definition h2_encoder_new :: "stream_id \<Rightarrow> h2_encoder" where
  "h2_encoder_new sid = \<lparr>he_stream_id = sid, he_tx = [], he_state = ExpectResponseHeaders\<rparr>"

definition he_event :: "h2_encoder \<Rightarrow> h2_event_payload \<Rightarrow> h2_event" where
  "he_event e payload = \<lparr>ev_stream_id = he_stream_id e, ev_payload = payload\<rparr>"

definition he_send ::
    "(h2_event list \<Rightarrow> bool) \<Rightarrow> h2_encoder \<Rightarrow> h2_event_payload \<Rightarrow>
     (unit, h2_encoder_error) result \<times> h2_encoder" where
  "he_send alive e payload =
     (if alive (he_tx e) then (Ok (), e\<lparr>he_tx := he_tx e @ [he_event e payload]\<rparr>)
      else (Err EncStreamReset, e))"

definition he_write_response ::
    "(h2_event list \<Rightarrow> bool) \<Rightarrow> h2_encoder \<Rightarrow> response \<Rightarrow> (unit, h2_encoder_error) result \<times> h2_encoder" where
  "he_write_response alive e res =
     (if is_informational (rs_status res) then (Panic, e)
      else if he_state e \<noteq> ExpectResponseHeaders
      then (Err (WrongState ExpectResponseHeaders (he_state e)), e)
      else
        bind_st (he_send alive e (EvHeaders res)) (\<lambda>_ e.
          (Ok (), e\<lparr>he_state := ExpectResponseBody\<rparr>)))"

definition he_write_body_chunk ::
    "(h2_event list \<Rightarrow> bool) \<Rightarrow> h2_encoder \<Rightarrow> bytes \<Rightarrow> (unit, h2_encoder_error) result \<times> h2_encoder" where
  "he_write_body_chunk alive e chunk =
     (if he_state e \<noteq> ExpectResponseBody then (Err (WrongState ExpectResponseBody (he_state e)), e)
      else he_send alive e (EvBodyChunk chunk))"

definition he_write_body_end ::
    "(h2_event list \<Rightarrow> bool) \<Rightarrow> h2_encoder \<Rightarrow> (unit, h2_encoder_error) result \<times> h2_encoder" where
  "he_write_body_end alive e =
     (if he_state e \<noteq> ExpectResponseBody then (Err (WrongState ExpectResponseBody (he_state e)), e)
      else
        bind_st (he_send alive e EvBodyEnd) (\<lambda>_ e. (Ok (), e\<lparr>he_state := ResponseDone\<rparr>)))"

text \<open>\<open>todo!("write trailers")\<close>.\<close>

definition he_write_trailers ::
    "h2_encoder \<Rightarrow> headers \<Rightarrow> (unit, h2_encoder_error) result \<times> h2_encoder" where
  "he_write_trailers e trailers =
     (if he_state e \<noteq> ResponseDone then (Err (WrongState ResponseDone (he_state e)), e) else (Panic, e))"

definition h2_encoder_ops :: "(h2_event list \<Rightarrow> bool) \<Rightarrow> (h2_encoder, h2_encoder_error) encoder_ops" where
  "h2_encoder_ops alive =
     \<lparr>eo_write_response = he_write_response alive, eo_write_body_chunk = he_write_body_chunk alive,
      eo_write_body_end = he_write_body_end alive, eo_write_trailers = he_write_trailers\<rparr>"

definition internal_server_error :: "http \<Rightarrow> response" where
  "internal_server_error h =
     \<lparr>rs_version = HTTP_11, rs_status = 500, rs_headers = hm_default h\<rparr>"

text \<open>The task that the drop spawns sends its events until one fails.\<close>

fun send_all :: "(h2_event list \<Rightarrow> bool) \<Rightarrow> h2_encoder \<Rightarrow> h2_event_payload list \<Rightarrow> h2_encoder" where
  "send_all alive e [] = e"
| "send_all alive e (p # ps) =
     (case he_send alive e p of (Ok _, e) \<Rightarrow> send_all alive e ps | (_, e) \<Rightarrow> e)"

definition he_drop :: "http \<Rightarrow> (h2_event list \<Rightarrow> bool) \<Rightarrow> h2_encoder \<Rightarrow> h2_encoder" where
  "he_drop h alive e =
     send_all alive e
       (case he_state e of
          ExpectResponseHeaders \<Rightarrow> [EvHeaders (internal_server_error h), EvBodyEnd]
        | ExpectResponseBody \<Rightarrow> [EvBodyEnd]
        | ResponseDone \<Rightarrow> [])"

section \<open>The order of events\<close>

text \<open>What a handler may do with the encoder, in any order; a panic ends the handler.\<close>

datatype enc_call = CallResponse response | CallChunk bytes | CallEnd | CallTrailers headers

definition enc_call ::
    "(h2_event list \<Rightarrow> bool) \<Rightarrow> h2_encoder \<Rightarrow> enc_call \<Rightarrow> (unit, h2_encoder_error) result \<times> h2_encoder" where
  "enc_call alive e c =
     (case c of
        CallResponse res \<Rightarrow> he_write_response alive e res
      | CallChunk chunk \<Rightarrow> he_write_body_chunk alive e chunk
      | CallEnd \<Rightarrow> he_write_body_end alive e
      | CallTrailers trailers \<Rightarrow> he_write_trailers e trailers)"

fun enc_calls :: "(h2_event list \<Rightarrow> bool) \<Rightarrow> h2_encoder \<Rightarrow> enc_call list \<Rightarrow> h2_encoder" where
  "enc_calls alive e [] = e"
| "enc_calls alive e (c # cs) =
     (case enc_call alive e c of (Panic, e) \<Rightarrow> e | (_, e) \<Rightarrow> enc_calls alive e cs)"

text \<open>The events of one answer, as far as the state says.\<close>

fun answer_events :: "encoder_state \<Rightarrow> h2_event_payload list \<Rightarrow> bool" where
  "answer_events ExpectResponseHeaders ps \<longleftrightarrow> ps = []"
| "answer_events ExpectResponseBody ps \<longleftrightarrow> (\<exists>res cs. ps = EvHeaders res # map EvBodyChunk cs)"
| "answer_events ResponseDone ps \<longleftrightarrow> (\<exists>res cs. ps = EvHeaders res # map EvBodyChunk cs @ [EvBodyEnd])"

definition he_inv :: "stream_id \<Rightarrow> h2_encoder \<Rightarrow> bool" where
  "he_inv sid e \<longleftrightarrow> he_stream_id e = sid \<and> (\<forall>ev\<in>set (he_tx e). ev_stream_id ev = sid) \<and>
     answer_events (he_state e) (map ev_payload (he_tx e))"

lemma he_inv_new: "he_inv sid (h2_encoder_new sid)"
  by (simp add: he_inv_def h2_encoder_new_def)

lemma he_inv_response: "he_inv sid e \<Longrightarrow> he_inv sid (snd (he_write_response alive e res))"
  by (auto simp: he_inv_def he_write_response_def he_send_def he_event_def)

lemma answer_events_chunk:
  assumes "answer_events ExpectResponseBody ps"
  shows "answer_events ExpectResponseBody (ps @ [EvBodyChunk c])"
proof -
  from assms obtain res cs where "ps = EvHeaders res # map EvBodyChunk cs" by auto
  then have "ps @ [EvBodyChunk c] = EvHeaders res # map EvBodyChunk (cs @ [c])" by simp
  then show ?thesis unfolding answer_events.simps by blast
qed

lemma he_inv_chunk: "he_inv sid e \<Longrightarrow> he_inv sid (snd (he_write_body_chunk alive e c))"
  using answer_events_chunk[of "map ev_payload (he_tx e)" c]
  by (cases "he_state e") (simp_all add: he_inv_def he_write_body_chunk_def he_send_def he_event_def
      del: answer_events.simps)

lemma he_inv_end: "he_inv sid e \<Longrightarrow> he_inv sid (snd (he_write_body_end alive e))"
  by (auto simp: he_inv_def he_write_body_end_def he_send_def he_event_def)

lemma he_inv_call: "he_inv sid e \<Longrightarrow> he_inv sid (snd (enc_call alive e c))"
  by (cases c)
     (simp_all add: enc_call_def he_inv_response he_inv_chunk he_inv_end he_write_trailers_def)

lemma he_inv_calls: "he_inv sid e \<Longrightarrow> he_inv sid (enc_calls alive e cs)"
proof (induction cs arbitrary: e)
  case (Cons c cs)
  from he_inv_call[OF Cons.prems, of alive c] Cons.IH show ?case
    by (cases "enc_call alive e c"; cases "fst (enc_call alive e c)") auto
qed simp

lemma send_all_alive:
  "(\<And>l. alive l) \<Longrightarrow> send_all alive e ps = e\<lparr>he_tx := he_tx e @ map (he_event e) ps\<rparr>"
  by (induction ps arbitrary: e) (simp_all add: he_send_def he_event_def[abs_def])

lemma he_drop_events:
  assumes "he_inv sid e"
  shows "answer_events ResponseDone (map ev_payload (he_tx (he_drop h (\<lambda>_. True) e))) \<and>
    (\<forall>ev\<in>set (he_tx (he_drop h (\<lambda>_. True) e)). ev_stream_id ev = sid)"
proof (cases "he_state e")
  case ExpectResponseHeaders
  with assms show ?thesis
    by (auto simp: he_inv_def he_drop_def send_all_alive he_event_def simp del: send_all.simps
        intro: exI[of _ "[]"])
qed (use assms in \<open>auto simp: he_inv_def he_drop_def send_all_alive he_event_def simp del: send_all.simps\<close>)

text \<open>C40: whatever a handler does with its encoder, in whatever order, and also when it panics or forgets
  to answer, the connection receives for its stream exactly one sequence of headers, any number of body
  chunks, and the end of the body.\<close>

theorem h2_encoder_protocol:
  "\<exists>res cs. he_tx (he_drop h (\<lambda>_. True) (enc_calls (\<lambda>_. True) (h2_encoder_new sid) calls)) =
     map (\<lambda>p. \<lparr>ev_stream_id = sid, ev_payload = p\<rparr>) (EvHeaders res # map EvBodyChunk cs @ [EvBodyEnd])"
proof -
  define evs where "evs = he_tx (he_drop h (\<lambda>_. True) (enc_calls (\<lambda>_. True) (h2_encoder_new sid) calls))"
  have inv: "answer_events ResponseDone (map ev_payload evs) \<and> (\<forall>ev\<in>set evs. ev_stream_id ev = sid)"
    unfolding evs_def by (rule he_drop_events[OF he_inv_calls[OF he_inv_new]])
  then obtain res cs where "map ev_payload evs = EvHeaders res # map EvBodyChunk cs @ [EvBodyEnd]"
    by auto
  moreover from inv have "\<forall>ev\<in>set evs. ev_stream_id ev = sid" by blast
  then have "map (\<lambda>p. \<lparr>ev_stream_id = sid, ev_payload = p\<rparr>) (map ev_payload evs) = evs"
    by (induction evs) auto
  ultimately show ?thesis unfolding evs_def by metis
qed

section \<open>Answers of a responder\<close>

fun answer_of :: "h2_event_payload \<Rightarrow> answer" where
  "answer_of (EvHeaders res) = AnsResponse res"
| "answer_of (EvBodyChunk c) = AnsChunk c"
| "answer_of EvBodyEnd = AnsEnd"

definition he_sent :: "h2_encoder \<Rightarrow> answer list" where
  "he_sent e = map (answer_of \<circ> ev_payload) (he_tx e)"

interpretation h2e: recording_encoder "h2_encoder_ops alive" he_sent
  by unfold_locales
     (auto simp: h2_encoder_ops_def he_write_response_def he_write_body_chunk_def he_write_body_end_def
        he_write_trailers_def he_send_def he_event_def he_sent_def split: if_splits)

lemma answer_of_inj: "answer_of x = answer_of y \<longleftrightarrow> x = y"
  by (cases x; cases y) auto

lemma answers_of_events:
  "map answer_of ps = AnsResponse res # map AnsChunk cs @ AnsEnd # map AnsTrailers ts \<Longrightarrow>
   ps = EvHeaders res # map EvBodyChunk cs @ [EvBodyEnd]"
proof -
  assume eq: "map answer_of ps = AnsResponse res # map AnsChunk cs @ AnsEnd # map AnsTrailers ts"
  have "ts = []"
  proof (rule ccontr)
    assume "ts \<noteq> []"
    then obtain t where "t \<in> set ts" by (cases ts) auto
    with arg_cong[OF eq, of set] have "AnsTrailers t \<in> answer_of ` set ps" by auto
    then obtain p where "answer_of p = AnsTrailers t" by auto
    then show False by (cases p) auto
  qed
  with eq have "map answer_of ps = map answer_of (EvHeaders res # map EvBodyChunk cs @ [EvBodyEnd])"
    by (simp add: comp_def)
  then show ?thesis using answer_of_inj by (metis (no_types, lifting) inj_def list.inj_map_strong)
qed

text \<open>When a handler answers a request with a whole body and the responder reports success, the
  connection got the headers, the chunks and the end, the status is a final one, and a content length
  in the headers, the handler's own or the one the responder added, is the number of bytes sent.\<close>

lemma h2_answer_content_length:
  fixes bops :: "('b, 'be) body_ops"
  assumes "write_final_response_with_body h (h2_encoder_ops alive) bops (h2_encoder_new sid) res body =
    Some (Ok (), enc, body')"
  shows "\<exists>cs. map ev_payload (he_tx enc) =
      EvHeaders (announce_content_len h (body_content_len bops body) res) # map EvBodyChunk cs @ [EvBodyEnd] \<and>
    \<not> is_informational (rs_status res) \<and>
    content_length h (rs_headers (announce_content_len h (body_content_len bops body) res)) \<in>
      {None, Some (length (concat cs))}"
proof -
  have "he_sent (h2_encoder_new sid) = []" by (simp add: he_sent_def h2_encoder_new_def)
  with h2e.whole_answer[OF assms] obtain cs ts where
    "map answer_of (map ev_payload (he_tx enc)) =
       AnsResponse (announce_content_len h (body_content_len bops body) res) # map AnsChunk cs @ AnsEnd # map AnsTrailers ts"
    and rest: "\<not> is_informational (rs_status res)"
      "content_length h (rs_headers (announce_content_len h (body_content_len bops body) res)) \<in>
        {None, Some (length (concat cs))}"
    by (auto simp: he_sent_def)
  from answers_of_events[OF this(1)] rest show ?thesis by metis
qed

lemma single_piece_loop:
  assumes "announced_content_length st = Some (length p)" and "bytes_written st = 0" and "length p < 2 ^ 64"
    and "he_state e = ExpectResponseBody"
  shows "write_body_loop (h2_encoder_ops (\<lambda>_. True)) (single_piece_body :: (_, 'be) body_ops) st e
      (single_piece_body_new p) =
    Some (Ok (), e\<lparr>he_tx := he_tx e @ [he_event e (EvBodyChunk p), he_event e EvBodyEnd],
      he_state := ResponseDone\<rparr>, \<lparr>spb_content_len = length p, spb_piece = None\<rparr>)"
  using assms
  by (subst write_body_loop.simps, subst write_body_loop.simps)
     (simp add: single_piece_body_def single_piece_body_new_def spb_next_chunk_def write_chunk_def U64_def
        h2_encoder_ops_def he_write_body_chunk_def he_write_body_end_def he_send_def map_err_st_def
        finish_body_def he_event_def)

lemma single_piece_answer:
  assumes "http_spec h" and "\<not> is_informational status" and "length message < 2 ^ 64"
  shows "\<exists>e b. write_final_response_with_body h (h2_encoder_ops (\<lambda>_. True))
      (single_piece_body :: (_, 'be) body_ops) (h2_encoder_new sid)
      \<lparr>rs_version = v, rs_status = status, rs_headers = hm_default h\<rparr>
      (single_piece_body_new message) = Some (Ok (), e, b) \<and> he_state e = ResponseDone \<and>
    map ev_payload (he_tx e) =
      [EvHeaders \<lparr>rs_version = v, rs_status = status,
         rs_headers = hm_or_insert h (hm_default h) CONTENT_LENGTH (dec_bytes (length message))\<rparr>,
       EvBodyChunk message, EvBodyEnd]"
proof -
  have "content_length h (hm_or_insert h (hm_default h) CONTENT_LENGTH (dec_bytes (length message))) =
      Some (length message)"
    using assms(1,3) by (simp add: content_length_def http_spec_def from_digits_dec_bytes U64_def)
  moreover have "body_content_len (single_piece_body :: (_, 'be) body_ops) (single_piece_body_new message) = Some (length message)"
    by (simp add: single_piece_body_def single_piece_body_new_def)
  ultimately show ?thesis
    using assms(2,3)
    by (simp add: write_final_response_with_body_def announce_content_len_def write_final_response_def
        write_final_response_internal_def h2_encoder_ops_def he_write_response_def he_send_def
        h2_encoder_new_def map_err_st_def single_piece_loop[unfolded h2_encoder_ops_def] he_event_def)
qed

text \<open>The answer to a request that the server itself rejects, written by
  \<open>write_final_response_with_body\<close> with a single piece as the body, always succeeds as long as the
  connection lives: headers with the right content length, the message, and the end.\<close>

lemma error_answer_complete:
  assumes "http_spec h" and "\<not> is_informational status" and "length message < 2 ^ 64"
  shows "\<exists>e b. write_final_response_with_body h (h2_encoder_ops (\<lambda>_. True))
      (single_piece_body :: (_, 'be) body_ops) (h2_encoder_new sid)
      \<lparr>rs_version = HTTP_2, rs_status = status, rs_headers = hm_default h\<rparr>
      (single_piece_body_new message) = Some (Ok (), e, b) \<and> he_state e = ResponseDone \<and>
    map ev_payload (he_tx e) =
      [EvHeaders \<lparr>rs_version = HTTP_2, rs_status = status,
         rs_headers = hm_or_insert h (hm_default h) CONTENT_LENGTH (dec_bytes (length message))\<rparr>,
       EvBodyChunk message, EvBodyEnd]"
  by (rule single_piece_answer[OF assms])

lemma error_answer_complete_witness:
  "\<exists>e b. write_final_response_with_body http_list (h2_encoder_ops (\<lambda>_. True))
      (single_piece_body :: (_, unit) body_ops) (h2_encoder_new 3)
      \<lparr>rs_version = HTTP_2, rs_status = 400, rs_headers = []\<rparr>
      (single_piece_body_new (byte_str ''invalid'')) = Some (Ok (), e, b) \<and>
    map ev_payload (he_tx e) =
      [EvHeaders \<lparr>rs_version = HTTP_2, rs_status = 400,
         rs_headers = [(CONTENT_LENGTH, dec_bytes 7)]\<rparr>, EvBodyChunk (byte_str ''invalid''), EvBodyEnd]"
proof -
  have "\<not> is_informational 400" "length (byte_str ''invalid'') < 2 ^ 64"
    by (simp_all add: is_informational_def byte_str_def)
  from error_answer_complete[OF http_list_spec this, where 'be = unit and sid = 3]
  have "\<exists>e b. write_final_response_with_body http_list (h2_encoder_ops (\<lambda>_. True))
      (single_piece_body :: (_, unit) body_ops) (h2_encoder_new 3)
      \<lparr>rs_version = HTTP_2, rs_status = 400, rs_headers = []\<rparr>
      (single_piece_body_new (byte_str ''invalid'')) = Some (Ok (), e, b) \<and> he_state e = ResponseDone \<and>
    map ev_payload (he_tx e) =
      [EvHeaders \<lparr>rs_version = HTTP_2, rs_status = 400,
         rs_headers = [(CONTENT_LENGTH, dec_bytes (length (byte_str ''invalid'')))]\<rparr>, EvBodyChunk (byte_str ''invalid''), EvBodyEnd]"
    by (simp add: http_list_def)
  moreover have "length (byte_str ''invalid'') = 7" by (simp add: byte_str_def)
  ultimately show ?thesis by auto
qed

text \<open>A handler that announces three bytes and sends them.\<close>

lemma h2_answer_content_length_witness:
  "\<exists>cs enc b. write_final_response_with_body http_list (h2_encoder_ops (\<lambda>_. True)) (single_piece_body :: (_, unit) body_ops)
      (h2_encoder_new 1) \<lparr>rs_version = HTTP_2, rs_status = 200, rs_headers = []\<rparr>
      (single_piece_body_new [1, 2, 3]) = Some (Ok (), enc, b) \<and>
    map ev_payload (he_tx enc) =
      EvHeaders (announce_content_len http_list (Some 3)
        \<lparr>rs_version = HTTP_2, rs_status = 200, rs_headers = []\<rparr>) # map EvBodyChunk cs @ [EvBodyEnd] \<and>
    length (concat cs) = 3"
proof -
  let ?res = "\<lparr>rs_version = HTTP_2, rs_status = 200, rs_headers = []\<rparr>"
  let ?run = "write_final_response_with_body http_list (h2_encoder_ops (\<lambda>_. True))
    (single_piece_body :: (_, unit) body_ops) (h2_encoder_new 1) ?res (single_piece_body_new [1, 2, 3])"
  have clen: "content_length http_list (rs_headers (announce_content_len http_list (Some 3) ?res)) = Some 3"
    using from_digits_dec_bytes[of 3] by (simp add: content_length_def http_list_def announce_content_len_def U64_def)
  have "\<not> is_informational 200" by (simp add: is_informational_def)
  from single_piece_answer[OF http_list_spec this, of "[1, 2, 3]" 1 HTTP_2, where 'be = unit]
  have "\<exists>enc b. ?run = Some (Ok (), enc, b)" by (auto simp: http_list_def)
  then obtain enc b where run: "?run = Some (Ok (), enc, b)" by blast
  have len: "body_content_len (single_piece_body :: (_, unit) body_ops) (single_piece_body_new [1, 2, 3]) = Some 3"
    by (simp add: single_piece_body_def single_piece_body_new_def)
  from h2_answer_content_length[OF run] clen len run show ?thesis by auto
qed

end
