(* ===== verification/H2_Send.thy ===== *)
theory H2_Send
  imports H2_Encode
begin

text \<open>
  The sending half of the HTTP/2 server (\<open>crates/loona/src/h2/server.rs\<close>): the server context, writing
  a frame with its effect on the flow control windows and the stream state, resetting a stream, the
  events that come from the handlers, and \<open>send_data_maybe\<close>, which turns the queued headers and
  bodies of the pending streams into frames within the windows. A roll or a piece is its bytes, a list
  of pieces the list of their bytes. The loop that cuts a header block into frames is a
  \<open>partial_function\<close>, since it need not end when the peer's frame size is zero; the other loops end
  always. The context's writer, the order in which a hash map or set is iterated, the packages and the
  liveness and size of channels are parameters (\<open>deps\<close>; the size comes from
  \<open>H2_SERVER_CHAN_SIZE\<close>).
\<close>

section \<open>The context\<close>

record 'w deps =
  d_nom :: nom
  d_bo :: "(bytes, io_error) byteorder"
  d_slice_bo :: slice_byteorder
  d_ef :: enumflags
  d_http :: http
  d_write :: "('w, io_error) writer"
  d_alive :: "channel \<Rightarrow> bool"
  d_order :: "stream_id list \<Rightarrow> stream_id list"
  d_chan_size :: nat

text \<open>\<open>spawned\<close> are the handlers: the request and the body each was given. \<open>closed_tx\<close> are the channels to
  handlers whose sending end has been dropped, with what was sent on them.\<close>

record 'w server_context =
  sc_state :: conn_state
  sc_hpack_dec :: decoder
  sc_hpack_enc :: encoder
  out_scratch :: bytes
  goaway_recv :: bool
  transport_w :: 'w
  ev_queue :: "h2_event list"
  spawned :: "(stream_id \<times> request \<times> h2_body) list"
  closed_tx :: "channel list"

definition MAX_WINDOW_SIZE :: int where
  "MAX_WINDOW_SIZE = 2 ^ 32 - 1"

definition server_context_new :: "conn_state \<Rightarrow> 'w \<Rightarrow> 'w server_context" where
  "server_context_new state w =
     \<lparr>sc_state = state,
      sc_hpack_dec = set_max_allowed_table_size decoder_new (unat (header_table_size settings_default)),
      sc_hpack_enc = encoder_new, out_scratch = [], goaway_recv = False, transport_w = w,
      ev_queue = [], spawned = [], closed_tx = []\<rparr>"

text \<open>What \<open>serve\<close> starts with: \<open>max_streams\<close> comes from \<open>ServerConf\<close>.\<close>

definition serve_context :: "u32 option \<Rightarrow> 'w \<Rightarrow> 'w server_context" where
  "serve_context max_streams w =
     server_context_new
       (conn_state_default\<lparr>self_settings := settings_default\<lparr>max_concurrent_streams := max_streams\<rparr>\<rparr>) w"

abbreviation st_upd :: "(conn_state \<Rightarrow> conn_state) \<Rightarrow> 'w server_context \<Rightarrow> 'w server_context" where
  "st_upd f c \<equiv> c\<lparr>sc_state := f (sc_state c)\<rparr>"

definition set_stream :: "stream_id \<Rightarrow> stream_state \<Rightarrow> conn_state \<Rightarrow> conn_state" where
  "set_stream sid ss s = s\<lparr>cs_streams := AList.update sid ss (cs_streams s)\<rparr>"

definition remove_stream :: "stream_id \<Rightarrow> conn_state \<Rightarrow> conn_state" where
  "remove_stream sid s = s\<lparr>cs_streams := AList.delete sid (cs_streams s)\<rparr>"

definition get_outgoing :: "conn_state \<Rightarrow> stream_id \<Rightarrow> stream_outgoing option" where
  "get_outgoing s sid = Option.bind (map_of (cs_streams s) sid) outgoing_of"

text \<open>Assignments through the reference to the outgoing half of a stream.\<close>

definition put_outgoing :: "stream_id \<Rightarrow> stream_outgoing \<Rightarrow> conn_state \<Rightarrow> conn_state" where
  "put_outgoing sid og s =
     (case map_of (cs_streams s) sid of
        Some ss \<Rightarrow> set_stream sid (set_outgoing ss og) s
      | None \<Rightarrow> s)"

definition add_pending :: "stream_id \<Rightarrow> conn_state \<Rightarrow> conn_state" where
  "add_pending sid s = s\<lparr>streams_with_pending_data := List.insert sid (streams_with_pending_data s)\<rparr>"

definition remove_pending :: "stream_id \<Rightarrow> conn_state \<Rightarrow> conn_state" where
  "remove_pending sid s = s\<lparr>streams_with_pending_data := removeAll sid (streams_with_pending_data s)\<rparr>"

definition notify_one :: "conn_state \<Rightarrow> conn_state" where
  "notify_one s = s\<lparr>send_data_notified := True\<rparr>"

text \<open>Removing a stream drops its incoming half, and with it the channel to the handler.\<close>

definition close_channel :: "channel \<Rightarrow> 'w server_context \<Rightarrow> 'w server_context" where
  "close_channel ch c = c\<lparr>closed_tx := closed_tx c @ [ch]\<rparr>"

definition drop_incoming :: "stream_state option \<Rightarrow> 'w server_context \<Rightarrow> 'w server_context" where
  "drop_incoming ss c =
     (case Option.bind ss incoming_of of
        Some incoming \<Rightarrow> close_channel (si_tx incoming) c
      | None \<Rightarrow> c)"

definition drop_stream :: "stream_id \<Rightarrow> 'w server_context \<Rightarrow> 'w server_context" where
  "drop_stream sid c =
     st_upd (remove_stream sid) (drop_incoming (map_of (cs_streams (sc_state c)) sid) c)"

section \<open>Writing a frame\<close>

text \<open>\<open>Frame::into_piece\<close> on the scratch buffer, and \<open>put_to_roll\<close> of a closure on it.\<close>

definition frame_into_piece ::
    "'w deps \<Rightarrow> frame \<Rightarrow> bytes \<Rightarrow> (bytes, io_error) result \<times> bytes" where
  "frame_into_piece d f scratch =
     (if \<not> length scratch = 0 then (Panic, scratch)
      else
        bind_st (frame_write_into (d_ef d) (d_bo d) vec_write_all f scratch) (\<lambda>_ scratch.
          if scratch = [] then (Panic, scratch) else (Ok scratch, [])))"

definition scratch_put_to_roll ::
    "nat \<Rightarrow> (bytes \<times> nat \<Rightarrow> (unit, buf_error) result \<times> (bytes \<times> nat)) \<Rightarrow> bytes \<Rightarrow>
     (bytes, buf_error) result \<times> bytes" where
  "scratch_put_to_roll len f scratch =
     (if \<not> (len < 2 ^ 32 \<and> scratch = []) then (Panic, scratch)
      else
        (case slice_closure f (replicate len 0) of
           (Ok _, sl) \<Rightarrow> (Ok sl, scratch)
         | (Err e, _) \<Rightarrow> (Err e, scratch)
         | (Panic, _) \<Rightarrow> (Panic, scratch)))"

definition as_frame_len :: "bytes list \<Rightarrow> nat" where
  "as_frame_len payload = length (concat payload)"

text \<open>The effect of a DATA frame on the stream and on the two windows, before it is written.\<close>

definition write_frame_state ::
    "frame \<Rightarrow> bytes list \<Rightarrow> conn_state \<Rightarrow> (conn_state, h2_connection_error) result" where
  "write_frame_state f payload s =
     (case ftype f of
        Data flags \<Rightarrow>
          (case map_of (cs_streams s) (fstream_id f) of
             None \<Rightarrow> Panic
           | Some ss \<Rightarrow>
               (case outgoing_of ss of
                  None \<Rightarrow> Panic
                | Some og \<Rightarrow>
                    let payload_len = as_frame_len payload;
                        next_cap = so_capacity og - int payload_len;
                        next_conn_cap = outgoing_capacity s - int payload_len
                    in
                    if \<not> payload_len < 2 ^ 32 then Panic
                    else if next_cap < 0 then Panic
                    else if next_conn_cap < 0 then Panic
                    else
                      let ss = set_outgoing ss (og\<lparr>so_capacity := next_cap\<rparr>);
                          s = (set_stream (fstream_id f) ss s)\<lparr>outgoing_capacity := next_conn_cap\<rparr>
                      in
                      if DataEndStream \<in> flags then
                        let s = remove_pending (fstream_id f) s in
                        (case ss of
                           Open incoming _ \<Rightarrow>
                             Ok (set_stream (fstream_id f) (HalfClosedLocal incoming) s)
                         | _ \<Rightarrow> Ok (remove_stream (fstream_id f) s))
                      else Ok s))
      | _ \<Rightarrow> Ok s)"

definition write_frame ::
    "'w deps \<Rightarrow> frame \<Rightarrow> bytes list \<Rightarrow> 'w server_context \<Rightarrow>
     (unit, h2_connection_error) result \<times> 'w server_context" where
  "write_frame d f payload c =
     (case write_frame_state f payload (sc_state c) of
        Panic \<Rightarrow> (Panic, c)
      | Err e \<Rightarrow> (Err e, c)
      | Ok s \<Rightarrow>
          let c = c\<lparr>sc_state := s\<rparr>; len = as_frame_len payload in
          if \<not> len < 2 ^ 32 then (Err (FrameTooLarge (ftype f) (of_nat len) (- 1)), c)
          else
            (case frame_into_piece d (f\<lparr>flen := of_nat len\<rparr>) (out_scratch c) of
               (Panic, scratch) \<Rightarrow> (Panic, c\<lparr>out_scratch := scratch\<rparr>)
             | (Err e, scratch) \<Rightarrow> (Err (WriteError e), c\<lparr>out_scratch := scratch\<rparr>)
             | (Ok frame_roll, scratch) \<Rightarrow>
                 (case d_write d (transport_w c) (frame_roll @ concat payload) of
                    (r, w) \<Rightarrow> (map_err WriteError r, c\<lparr>out_scratch := scratch, transport_w := w\<rparr>))))"

fun write_frames ::
    "'w deps \<Rightarrow> (frame \<times> bytes list) list \<Rightarrow> 'w server_context \<Rightarrow>
     (unit, h2_connection_error) result \<times> 'w server_context" where
  "write_frames d [] c = (Ok (), c)"
| "write_frames d ((f, plist) # fs) c = bind_st (write_frame d f plist c) (\<lambda>_ c. write_frames d fs c)"

section \<open>Resetting a stream\<close>

definition rst_payload :: "'w deps \<Rightarrow> known_error_code \<Rightarrow> bytes \<Rightarrow> (bytes, buf_error) result \<times> bytes" where
  "rst_payload d code =
     scratch_put_to_roll 4 (\<lambda>w. write_u32_be (d_slice_bo d) slice_write_all w (known_error_code_repr code))"

text \<open>The frame is sent fifteen times.\<close>

definition rst ::
    "'w deps \<Rightarrow> stream_id \<Rightarrow> h2_stream_error \<Rightarrow> 'w server_context \<Rightarrow>
     (unit, h2_connection_error) result \<times> 'w server_context" where
  "rst d sid e c =
     (let c = drop_stream sid c in
      case rst_payload d (stream_error_code e) (out_scratch c) of
        (Ok payload, scratch) \<Rightarrow>
          let f = with_len (frame_new RstStream sid) (of_nat (length payload)) in
          write_frames d (replicate 15 (f, [payload])) (c\<lparr>out_scratch := scratch\<rparr>)
      | (_, scratch) \<Rightarrow> (Panic, c\<lparr>out_scratch := scratch\<rparr>))"

section \<open>Cutting headers and bodies into frames\<close>

definition bytes_split_at :: "bytes \<Rightarrow> nat \<Rightarrow> (bytes \<times> bytes, 'e) result" where
  "bytes_split_at p n = (if n \<le> length p then Ok (take n p, drop n p) else Panic)"

definition is_wrote_some :: "headers_outgoing \<Rightarrow> bool" where
  "is_wrote_some h = (case h of WroteSome _ \<Rightarrow> True | _ \<Rightarrow> False)"

partial_function (option) queue_header_frames ::
    "nat \<Rightarrow> stream_id \<Rightarrow> headers_outgoing \<Rightarrow> (headers_outgoing \<times> (frame \<times> bytes list) list) option" where
  "queue_header_frames max_fram sid headers =
     (let is_continuation = is_wrote_some headers;
          (p, headers) = ho_take_piece headers
      in
      if max_fram < length p then
        let frame_type = if is_continuation then Continuation {} else Headers {} in
        Option.bind (queue_header_frames max_fram sid (WroteSome (drop max_fram p)))
          (\<lambda>(headers, frames).
            Some (headers, (frame_new frame_type sid, [take max_fram p]) # frames))
      else
        let frame_type = if is_continuation then Continuation {ContinuationEndHeaders}
                         else Headers {HeadersEndHeaders}
        in Some (headers, [(frame_new frame_type sid, [p])]))"

declare queue_header_frames.simps [code]

fun body_pieces :: "body_outgoing \<Rightarrow> bytes list" where
  "body_pieces (StillReceiving ps) = ps"
| "body_pieces (DoneReceiving ps) = ps"
| "body_pieces DoneSending = []"

lemma bo_pop_front_size:
  "bo_pop_front body = (Some p, body') \<Longrightarrow> length (body_pieces body') < length (body_pieces body)"
  by (induction body rule: bo_pop_front.induct) (auto split: if_splits)

text \<open>The inner loop: pieces are popped into one frame until there is none or one had to be split.\<close>

function build_frame ::
    "nat \<Rightarrow> nat \<Rightarrow> body_outgoing \<Rightarrow> bytes list \<Rightarrow> nat \<Rightarrow>
     (body_outgoing \<times> bytes list \<times> nat, h2_connection_error) result" where
  "build_frame max_fram cap_left body plist frame_len =
     (case bo_pop_front body of
        (None, body) \<Rightarrow> Ok (body, plist, frame_len)
      | (Some p, body) \<Rightarrow>
          let fram_size_if_full_piece = frame_len + length p;
              max_this_fram = min max_fram cap_left
          in
          if max_this_fram < fram_size_if_full_piece then
            and_then (sub_usize max_this_fram frame_len) (\<lambda>write_size.
            and_then (bytes_split_at p write_size) (\<lambda>(written, requeued).
              Ok (bo_push_front body requeued, plist_push_back plist written, frame_len + write_size)))
          else build_frame max_fram cap_left body (plist_push_back plist p) (frame_len + length p))"
  by pat_completeness auto
termination
  by (relation "measure (\<lambda>(_, _, body, _, _). length (body_pieces body))")
     (auto dest: bo_pop_front_size[OF sym])

declare build_frame.simps [simp del]

text \<open>The outer loop: frames until the capacity of this turn is used up. A frame without bytes is only
  sent to end the stream.\<close>

function queue_body_frames ::
    "nat \<Rightarrow> nat \<Rightarrow> stream_id \<Rightarrow> body_outgoing \<Rightarrow> nat \<Rightarrow>
     (body_outgoing \<times> (frame \<times> bytes list) list, h2_connection_error) result" where
  "queue_body_frames max_fram capacity sid body total_written =
     (if total_written < capacity then
        (case build_frame max_fram (capacity - total_written) body [] 0 of
           Panic \<Rightarrow> Panic
         | Err e \<Rightarrow> Err e
         | Ok (body, plist, frame_len) \<Rightarrow>
             if bo_might_receive_more body then
               if frame_len = 0 then Ok (body, [])
               else
                 and_then (queue_body_frames max_fram capacity sid body (total_written + frame_len))
                   (\<lambda>(body, frames). Ok (body, (frame_new (Data {}) sid, plist) # frames))
             else Ok (body, [(frame_new (Data {DataEndStream}) sid, plist)]))
      else Ok (body, []))"
  by pat_completeness auto
termination
  by (relation "measure (\<lambda>(_, capacity, _, _, total_written). capacity - total_written)") auto

declare queue_body_frames.simps [simp del]

section \<open>Sending what is pending\<close>

text \<open>\<open>x as usize\<close> of an \<open>i64\<close>: a negative number wraps.\<close>

definition i64_as_usize :: "int \<Rightarrow> nat" where
  "i64_as_usize x = nat (x mod 2 ^ 64)"

type_synonym queued = "(frame \<times> bytes list) list"

fun queue_streams ::
    "nat \<Rightarrow> stream_id list \<Rightarrow> conn_state \<Rightarrow> queued \<Rightarrow> stream_id list \<Rightarrow>
     ((conn_state \<times> queued \<times> stream_id list, h2_connection_error) result) option" where
  "queue_streams max_fram [] s frames not_pending = Some (Ok (s, frames, not_pending))"
| "queue_streams max_fram (sid # sids) s frames not_pending =
     (if outgoing_capacity s \<le> 0 then Some (Ok (s, frames, not_pending))
      else
        (case get_outgoing s sid of
           None \<Rightarrow> Some Panic
         | Some og \<Rightarrow>
             if so_headers og = WaitingForHeaders then
               queue_streams max_fram sids s frames (List.insert sid not_pending)
             else
               Option.bind
                 (if ho_has_more_to_write (so_headers og)
                  then queue_header_frames max_fram sid (so_headers og)
                  else Some (so_headers og, []))
                 (\<lambda>(headers, hframes).
                   let capacity = i64_as_usize (min (outgoing_capacity s) (so_capacity og)) in
                   case (if bo_has_more_to_write (so_body og)
                         then queue_body_frames max_fram capacity sid (so_body og) 0
                         else Ok (so_body og, [])) of
                     Panic \<Rightarrow> Some Panic
                   | Err e \<Rightarrow> Some (Err e)
                   | Ok (body, bframes) \<Rightarrow>
                       queue_streams max_fram sids
                         (put_outgoing sid (og\<lparr>so_headers := headers, so_body := body\<rparr>) s)
                         (frames @ hframes @ bframes) not_pending)))"

definition send_data_maybe ::
    "'w deps \<Rightarrow> 'w server_context \<Rightarrow>
     ((unit, h2_connection_error) result \<times> 'w server_context) option" where
  "send_data_maybe d c =
     (let s = sc_state c in
      case queue_streams (unat (max_frame_size (peer_settings s)))
             (d_order d (streams_with_pending_data s)) s [] [] of
        None \<Rightarrow> None
      | Some Panic \<Rightarrow> Some (Panic, c)
      | Some (Err e) \<Rightarrow> Some (Err e, c)
      | Some (Ok (s, frames, not_pending)) \<Rightarrow>
          Some (bind_st (write_frames d frames (c\<lparr>sc_state := s\<rparr>)) (\<lambda>_ c.
            (Ok (), st_upd (\<lambda>s. fold remove_pending not_pending s) c))))"

section \<open>Events from the handlers\<close>

definition response_headers :: "http \<Rightarrow> response \<Rightarrow> header list" where
  "response_headers h res =
     (byte_str '':status'', dec_bytes (rs_status res)) #
     filter (\<lambda>(name, _). name \<noteq> TRANSFER_ENCODING) (hm_iter h (rs_headers res))"

definition worth_revisiting :: "stream_outgoing \<Rightarrow> conn_state \<Rightarrow> conn_state" where
  "worth_revisiting og s =
     (if 0 < outgoing_capacity s \<and> 0 < so_capacity og then notify_one s else s)"

definition handle_event ::
    "'w deps \<Rightarrow> h2_event \<Rightarrow> 'w server_context \<Rightarrow>
     (unit, h2_connection_error) result \<times> 'w server_context" where
  "handle_event d ev c =
     (let sid = ev_stream_id ev in
      case get_outgoing (sc_state c) sid of
        None \<Rightarrow> (Ok (), c)
      | Some og \<Rightarrow>
          (case ev_payload ev of
             EvHeaders res \<Rightarrow>
               if (case so_body og of StillReceiving _ \<Rightarrow> False | _ \<Rightarrow> True) then (Panic, c)
               else if length (out_scratch c) \<noteq> 0 then (Panic, c)
               else
                 (case encode_into vec_write_all (response_headers (d_http d) res)
                         (sc_hpack_enc c, out_scratch c) of
                    (Panic, enc, scratch) \<Rightarrow> (Panic, c\<lparr>sc_hpack_enc := enc, out_scratch := scratch\<rparr>)
                  | (Err e, enc, scratch) \<Rightarrow>
                      (Err (WriteError e), c\<lparr>sc_hpack_enc := enc, out_scratch := scratch\<rparr>)
                  | (Ok _, enc, scratch) \<Rightarrow>
                      if scratch = [] then (Panic, c)
                      else
                        let og = og\<lparr>so_headers := WroteNone scratch\<rparr>
                        in (Ok (), st_upd (\<lambda>s. worth_revisiting og (add_pending sid (put_outgoing sid og s)))
                              (c\<lparr>sc_hpack_enc := enc, out_scratch := []\<rparr>)))
           | EvBodyChunk chunk \<Rightarrow>
               (case bo_push_back (so_body og) chunk of
                  Ok body \<Rightarrow>
                    let og = og\<lparr>so_body := body\<rparr>
                    in (Ok (), st_upd (\<lambda>s. worth_revisiting og (add_pending sid (put_outgoing sid og s))) c)
                | Err e \<Rightarrow> (Err e, c)
                | Panic \<Rightarrow> (Panic, c))
           | EvBodyEnd \<Rightarrow>
               (case so_body og of
                  StillReceiving ps \<Rightarrow>
                    (Ok (), st_upd (\<lambda>s.
                        put_outgoing sid (og\<lparr>so_body := DoneReceiving ps\<rparr>)
                          (if ps = [] then notify_one s else s)) c)
                | DoneReceiving _ \<Rightarrow> (Panic, c)
                | DoneSending \<Rightarrow> (Panic, c))))"

end
