(* ===== verification/H2_Receive.thy ===== *)
theory H2_Receive
  imports H2_Headers H2_Send
begin

text \<open>
  The receiving half of the HTTP/2 server (\<open>crates/loona/src/h2/server.rs\<close>): \<open>read_headers\<close>, which gathers
  the continuation frames of a header block, decodes it and accepts a request or the trailers of one,
  and \<open>process_frame\<close>, which acts on one frame. \<open>rx\<close> is the list of frames that are still to come from
  the deframer before its channel closes. \<open>process_frame\<close> is \<^const>\<open>None\<close> when it never returns: answering
  a rejected request sends events into the bounded channel that only this task empties.
\<close>

datatype read_headers_mode = Process | Skip

type_synonym rx = "(frame \<times> bytes) list"

section \<open>Header blocks\<close>

text \<open>The loop over continuation frames.\<close>

fun read_continuations ::
    "stream_id \<Rightarrow> rx \<Rightarrow> bytes list \<Rightarrow> (bytes list, h2_connection_error) result \<times> rx" where
  "read_continuations sid [] fragments = (Err (ExpectedContinuationFrame sid None), [])"
| "read_continuations sid ((f, payload) # rx) fragments =
     (if sid \<noteq> fstream_id f then (Err (ExpectedContinuationForStream sid (fstream_id f)), rx)
      else
        (case ftype f of
           Continuation cont_flags \<Rightarrow>
             let fragments = fragments @ [payload] in
             if ContinuationEndHeaders \<in> cont_flags then (Ok fragments, rx)
             else read_continuations sid rx fragments
         | other \<Rightarrow> (Err (ExpectedContinuationFrame sid (Some other)), rx)))"

definition header_fragments ::
    "headers_flags set \<Rightarrow> stream_id \<Rightarrow> bytes \<Rightarrow> rx \<Rightarrow> (bytes, h2_connection_error) result \<times> rx" where
  "header_fragments flags sid payload rx =
     (if HeadersEndHeaders \<in> flags then (Ok payload, rx)
      else
        (case read_continuations sid rx [payload] of
           (r, rx) \<Rightarrow> (and_then r (\<lambda>fragments. Ok (concat fragments)), rx)))"

text \<open>Accepting a request: the stream is stored and a handler is spawned with the request and its body.\<close>

definition accept_stream ::
    "'w deps \<Rightarrow> stream_id \<Rightarrow> bool \<Rightarrow> request \<Rightarrow> nat option \<Rightarrow> 'w server_context \<Rightarrow> 'w server_context" where
  "accept_stream d sid end_stream req clen c =
     (let piece_tx = \<lparr>ch_id = length (spawned c), ch_sent = []\<rparr>;
          req_body = \<lparr>hb_content_length = clen, hb_eof = end_stream, hb_rx = []\<rparr>;
          incoming = stream_incoming_new (initial_window_size (self_settings (sc_state c))) clen piece_tx;
          outgoing = mk_stream_outgoing (sc_state c)
      in (st_upd (set_stream sid
             (if end_stream then HalfClosedRemote outgoing else Open incoming outgoing)) c)
           \<lparr>spawned := spawned c @ [(sid, req, req_body)],
            closed_tx := closed_tx c @ (if end_stream then [piece_tx] else [])\<rparr>)"

definition accept_trailers ::
    "'w deps \<Rightarrow> stream_id \<Rightarrow> headers \<Rightarrow> 'w server_context \<Rightarrow>
     (unit, h2_error_level) result \<times> 'w server_context" where
  "accept_trailers d sid trailers c =
     (case map_of (cs_streams (sc_state c)) sid of
        Some (Open incoming outgoing) \<Rightarrow>
          (case si_write_trailers (d_alive d) incoming trailers of
             (Ok _, incoming) \<Rightarrow>
               (Ok (), close_channel (si_tx incoming) (st_upd (set_stream sid (HalfClosedRemote outgoing)) c))
           | (Err e, incoming) \<Rightarrow> (Err (LevelStream e), st_upd (set_stream sid (Open incoming outgoing)) c)
           | (Panic, incoming) \<Rightarrow> (Panic, c))
      | _ \<Rightarrow> (Panic, c))"

definition read_headers ::
    "'w deps \<Rightarrow> headers_or_trailers \<Rightarrow> read_headers_mode \<Rightarrow> headers_flags set \<Rightarrow> stream_id \<Rightarrow> bytes \<Rightarrow>
     rx \<times> 'w server_context \<Rightarrow> (unit, h2_error_level) result \<times> rx \<times> 'w server_context" where
  "read_headers d kind mode flags sid payload st =
     (case st of (rx, c) \<Rightarrow>
      case header_fragments flags sid payload rx of
        (Panic, rx) \<Rightarrow> (Panic, rx, c)
      | (Err e, rx) \<Rightarrow> (Err (LevelConnection e), rx, c)
      | (Ok block, rx) \<Rightarrow>
          if mode = Skip then (Ok (), rx, c)
          else
            (case decode_with_cb (sc_hpack_dec c) block (on_header_pair (d_http d) kind)
                    (field_block_new (d_http d)) of
               (res, dec, fb) \<Rightarrow>
                 let c = c\<lparr>sc_hpack_dec := dec\<rparr> in
                 if fb_panicked fb then (Panic, rx, c)
                 else
                   (case res of
                      Panic \<Rightarrow> (Panic, rx, c)
                    | Err e \<Rightarrow> (Err (LevelConnection (HpackDecodingError e)), rx, c)
                    | Ok _ \<Rightarrow>
                        (case fb_req_error fb of
                           Some e \<Rightarrow> (Err (LevelStream e), rx, c)
                         | None \<Rightarrow>
                             (case kind of
                                IsHeaders \<Rightarrow>
                                  let end_stream = HeadersEndStream \<in> flags in
                                  (case request_of_block (d_http d) end_stream fb of
                                     Ok (req, clen) \<Rightarrow> (Ok (), rx, accept_stream d sid end_stream req clen c)
                                   | Err e \<Rightarrow> (Err e, rx, c)
                                   | Panic \<Rightarrow> (Panic, rx, c))
                              | IsTrailers \<Rightarrow>
                                  (case accept_trailers d sid (fb_headers fb) c of
                                     (r, c) \<Rightarrow> (r, rx, c)))))))"

section \<open>DATA\<close>

text \<open>The peer has sent everything: an open stream keeps its outgoing half, any other is removed.\<close>

definition end_incoming :: "stream_id \<Rightarrow> 'w server_context \<Rightarrow> 'w server_context" where
  "end_incoming sid c =
     (case map_of (cs_streams (sc_state c)) sid of
        Some (Open incoming outgoing) \<Rightarrow>
          close_channel (si_tx incoming) (st_upd (set_stream sid (HalfClosedRemote outgoing)) c)
      | _ \<Rightarrow> drop_stream sid c)"

definition process_data ::
    "'w deps \<Rightarrow> frame \<Rightarrow> data_flags set \<Rightarrow> bytes \<Rightarrow> 'w server_context \<Rightarrow>
     (unit, h2_connection_error) result \<times> 'w server_context" where
  "process_data d f flags payload c =
     (let sid = fstream_id f in
      if sid = CONNECTION then (Err (StreamSpecificFrameToConnection (ftype f)), c)
      else
        (case map_of (cs_streams (sc_state c)) sid of
           None \<Rightarrow> (Err (ConnStreamClosed sid), c)
         | Some ss \<Rightarrow>
             (case incoming_of ss of
                Some incoming \<Rightarrow>
                  let next_cap = si_capacity incoming - int (length payload) in
                  if next_cap < 0 then (Err (WindowUnderflow sid), c)
                  else
                    (case si_write_chunk (d_alive d) (incoming\<lparr>si_capacity := next_cap\<rparr>) payload
                            (if is_end_stream f then Last else NotLast) of
                       (r, incoming) \<Rightarrow>
                         let c = st_upd (set_stream sid (set_incoming ss incoming)) c in
                         (case r of
                            Err e \<Rightarrow> rst d sid e c
                          | Panic \<Rightarrow> (Panic, c)
                          | Ok _ \<Rightarrow>
                              if DataEndStream \<in> flags then (Ok (), end_incoming sid c)
                              else (Ok (), c)))
              | None \<Rightarrow>
                  (case ss of
                     HalfClosedRemote _ \<Rightarrow> rst d sid StrmClosed c
                   | _ \<Rightarrow> (Panic, c)))))"

section \<open>HEADERS\<close>

text \<open>\<open>finish()\<close> of \<open>nom\<close> panics on an incomplete parse.\<close>

fun finish :: "string \<Rightarrow> ('a, nom_err) result \<Rightarrow> ('a, h2_connection_error) result" where
  "finish name (Ok v) = Ok v"
| "finish name (Err e) = (if e = Incomplete then Panic else Err (ReadAndParse (ParsingError name)))"
| "finish name Panic = Panic"

definition strip_priority ::
    "'w deps \<Rightarrow> frame \<Rightarrow> headers_flags set \<Rightarrow> bytes \<Rightarrow> (bytes, h2_connection_error) result" where
  "strip_priority d f flags payload =
     (if HeadersPriority \<in> flags then
        and_then (finish ''PrioritySpec'' (priority_spec_parse (d_nom d) payload)) (\<lambda>(payload, pri_spec).
          if stream_dependency pri_spec = fstream_id f then Err (HeadersInvalidPriority (fstream_id f))
          else Ok payload)
      else Ok payload)"

text \<open>What a HEADERS frame is for, and whether its block is to be processed.\<close>

definition classify_headers ::
    "'w deps \<Rightarrow> frame \<Rightarrow> headers_flags set \<Rightarrow> 'w server_context \<Rightarrow>
     (headers_or_trailers \<times> read_headers_mode, h2_connection_error) result \<times> 'w server_context" where
  "classify_headers d f flags c =
     (let sid = fstream_id f; s = sc_state c in
      case map_of (cs_streams s) sid of
        None \<Rightarrow>
          if is_server_initiated sid then (Err ClientSidShouldBeOdd, c)
          else if sid < last_stream_id s
          then (Err (ClientSidShouldBeNumericallyIncreasing sid (last_stream_id s)), c)
          else if sid = last_stream_id s then (Err (ConnStreamClosed sid), c)
          else
            let max_concurrent = (case max_concurrent_streams (self_settings s) of
                                    Some m \<Rightarrow> unat m | None \<Rightarrow> 2 ^ 32 - 1);
                num_streams_if_accept = length (cs_streams s) + 1
            in
            if max_concurrent < num_streams_if_accept then
              bind_st (rst d sid StreamRefused c) (\<lambda>_ c. (Ok (IsHeaders, Skip), c))
            else (Ok (IsHeaders, Process), st_upd (\<lambda>s. s\<lparr>last_stream_id := sid\<rparr>) c)
      | Some ss \<Rightarrow>
          (case ss of
             HalfClosedRemote _ \<Rightarrow> (Err (ConnStreamClosed sid), c)
           | Transition \<Rightarrow> (Panic, c)
           | _ \<Rightarrow>
               if HeadersEndStream \<in> flags then (Ok (IsTrailers, Process), c)
               else bind_st (rst d sid TrailersNotEndStream c) (\<lambda>_ c. (Ok (IsTrailers, Skip), c))))"

text \<open>Answering a rejected request. The events go through the channel that only this task empties: when
  it has no room for all of them, the call never returns.\<close>

definition answer_rejected ::
    "'w deps \<Rightarrow> stream_id \<Rightarrow> h2_request_error \<Rightarrow> 'w server_context \<Rightarrow>
     ((unit, h2_connection_error) result \<times> 'w server_context) option" where
  "answer_rejected d sid e c =
     (let c = st_upd (\<lambda>s. set_stream sid (HalfClosedRemote (mk_stream_outgoing s)) s) c in
      case write_final_response_with_body (d_http d) (h2_encoder_ops (\<lambda>_. True))
             (single_piece_body :: (_, unit) body_ops) (h2_encoder_new sid)
             \<lparr>rs_version = HTTP_2, rs_status = re_status e, rs_headers = hm_default (d_http d)\<rparr>
             (single_piece_body_new (re_message e)) of
        None \<Rightarrow> None
      | Some (r, enc, _) \<Rightarrow>
          let events = he_tx (he_drop (d_http d) (\<lambda>_. True) enc) in
          if d_chan_size d < length (ev_queue c) + length events then None
          else
            let c = c\<lparr>ev_queue := ev_queue c @ events\<rparr> in
            Some (case r of
                Ok _ \<Rightarrow> (Ok (), st_upd (\<lambda>s. s\<lparr>last_stream_id := sid\<rparr>) c)
              | Err (ResponderErr e) \<Rightarrow> (Err (ConnResponderError e), c)
              | Err (BodyErr _) \<Rightarrow> (Panic, c)
              | Panic \<Rightarrow> (Panic, c)))"

definition process_headers ::
    "'w deps \<Rightarrow> frame \<Rightarrow> headers_flags set \<Rightarrow> bytes \<Rightarrow> rx \<times> 'w server_context \<Rightarrow>
     ((unit, h2_connection_error) result \<times> rx \<times> 'w server_context) option" where
  "process_headers d f flags payload st =
     (case st of (rx, c) \<Rightarrow>
      let sid = fstream_id f in
      case strip_priority d f flags payload of
        Panic \<Rightarrow> Some (Panic, rx, c)
      | Err e \<Rightarrow> Some (Err e, rx, c)
      | Ok payload \<Rightarrow>
          (case classify_headers d f flags c of
             (Panic, c) \<Rightarrow> Some (Panic, rx, c)
           | (Err e, c) \<Rightarrow> Some (Err e, rx, c)
           | (Ok (kind, mode), c) \<Rightarrow>
               (case read_headers d kind mode flags sid payload (rx, c) of
                  (Ok _, rx, c) \<Rightarrow> Some (Ok (), rx, c)
                | (Panic, rx, c) \<Rightarrow> Some (Panic, rx, c)
                | (Err (LevelConnection e), rx, c) \<Rightarrow> Some (Err e, rx, c)
                | (Err (LevelStream e), rx, c) \<Rightarrow> (case rst d sid e c of (r, c) \<Rightarrow> Some (r, rx, c))
                | (Err (LevelRequest e), rx, c) \<Rightarrow>
                    map_option (\<lambda>(r, c). (r, rx, c)) (answer_rejected d sid e c))))"

section \<open>The other frames\<close>

definition process_priority ::
    "'w deps \<Rightarrow> frame \<Rightarrow> bytes \<Rightarrow> 'w server_context \<Rightarrow>
     (unit, h2_connection_error) result \<times> 'w server_context" where
  "process_priority d f payload c =
     (case priority_spec_parse (d_nom d) payload of
        Ok (_, pri_spec) \<Rightarrow>
          if stream_dependency pri_spec = fstream_id f then (Err (HeadersInvalidPriority (fstream_id f)), c)
          else (Ok (), c)
      | Err _ \<Rightarrow> rst d (fstream_id f) (InvalidPriorityFrameSize (flen f)) c
      | Panic \<Rightarrow> (Panic, c))"

definition process_rst_stream ::
    "'w deps \<Rightarrow> frame \<Rightarrow> 'w server_context \<Rightarrow> (unit, h2_connection_error) result \<times> 'w server_context" where
  "process_rst_stream d f c =
     (let sid = fstream_id f in
      if flen f \<noteq> 4 then rst d sid (InvalidRstStreamFrameSize (flen f)) c
      else
        (case map_of (cs_streams (sc_state c)) sid of
           None \<Rightarrow> (Err (RstStreamForUnknownStream sid), c)
         | Some ss \<Rightarrow>
             let c = st_upd (remove_stream sid) c in
             (case ss of
                HalfClosedRemote _ \<Rightarrow> (Ok (), c)
              | Transition \<Rightarrow> (Panic, c)
              | Open incoming _ \<Rightarrow> (Ok (), close_channel (si_tx (si_send_error (d_alive d) incoming)) c)
              | HalfClosedLocal incoming \<Rightarrow>
                  (Ok (), close_channel (si_tx (si_send_error (d_alive d) incoming)) c))))"

text \<open>The callback of \<open>Settings::parse\<close> changes the peer's settings and the encoder.\<close>

definition on_setting :: "(settings \<times> encoder, settings_error) settings_callback" where
  "on_setting se code value =
     (case settings_apply (fst se) code value of
        (Err e, s) \<Rightarrow> (Err e, s, snd se)
      | (Panic, s) \<Rightarrow> (Panic, s, snd se)
      | (Ok _, s) \<Rightarrow>
          (case code of
             HeaderTableSize \<Rightarrow>
               (case enc_set_max_table_size (snd se) (unat value) of
                  Ok enc \<Rightarrow> (Ok (), s, enc)
                | Err e \<Rightarrow> (Err e, s, snd se)
                | Panic \<Rightarrow> (Panic, s, snd se))
           | _ \<Rightarrow> (Ok (), s, snd se)))"

text \<open>The loop that applies a change of the initial window size to the streams, in the order of the map.\<close>

fun shift_windows ::
    "int \<Rightarrow> stream_id list \<Rightarrow> conn_state \<Rightarrow> bool \<Rightarrow> (bool, h2_connection_error) result \<times> conn_state" where
  "shift_windows delta [] s maybe_send_data = (Ok maybe_send_data, s)"
| "shift_windows delta (sid # sids) s maybe_send_data =
     (case get_outgoing s sid of
        None \<Rightarrow> shift_windows delta sids s maybe_send_data
      | Some og \<Rightarrow>
          let next_cap = so_capacity og + delta in
          if MAX_WINDOW_SIZE < next_cap then (Err (StreamWindowSizeOverflowDueToSettings sid), s)
          else
            shift_windows delta sids (put_outgoing sid (og\<lparr>so_capacity := next_cap\<rparr>) s)
              (if 0 < next_cap \<and> so_capacity og \<le> 0 then True else maybe_send_data))"

definition apply_initial_window ::
    "'w deps \<Rightarrow> u32 \<Rightarrow> conn_state \<Rightarrow> (bool, h2_connection_error) result \<times> conn_state" where
  "apply_initial_window d original s =
     (let delta = uint (initial_window_size (peer_settings s)) - uint original in
      if delta \<noteq> 0 then shift_windows delta (d_order d (map fst (cs_streams s))) s False
      else (Ok False, s))"

definition apply_settings ::
    "'w deps \<Rightarrow> bytes \<Rightarrow> 'w server_context \<Rightarrow> (unit, h2_connection_error) result \<times> 'w server_context" where
  "apply_settings d payload c =
     (let s = sc_state c;
          original = initial_window_size (peer_settings s)
      in
      case settings_parse payload on_setting (peer_settings s, sc_hpack_enc c) of
        (r, ps, enc) \<Rightarrow>
          let c = c\<lparr>sc_state := s\<lparr>peer_settings := ps\<rparr>, sc_hpack_enc := enc\<rparr> in
          (case r of
             Panic \<Rightarrow> (Panic, c)
           | Err e \<Rightarrow> (Err (BadSettingValue e), c)
           | Ok _ \<Rightarrow>
               (case apply_initial_window d original (sc_state c) of
                  (Panic, s) \<Rightarrow> (Panic, c\<lparr>sc_state := s\<rparr>)
                | (Err e, s) \<Rightarrow> (Err e, c\<lparr>sc_state := s\<rparr>)
                | (Ok maybe_send_data, s) \<Rightarrow>
                    bind_st (write_frame d (frame_new (Settings {SettingsAck}) CONNECTION) [] (c\<lparr>sc_state := s\<rparr>))
                      (\<lambda>_ c. (Ok (), if maybe_send_data then st_upd notify_one c else c)))))"

definition process_settings ::
    "'w deps \<Rightarrow> frame \<Rightarrow> settings_flags set \<Rightarrow> bytes \<Rightarrow> 'w server_context \<Rightarrow>
     (unit, h2_connection_error) result \<times> 'w server_context" where
  "process_settings d f flags payload c =
     (if fstream_id f \<noteq> CONNECTION then (Err (SettingsWithNonZeroStreamId (fstream_id f)), c)
      else if length payload mod 6 \<noteq> 0 then (Err (SettingsInvalidLength (of_nat (length payload))), c)
      else if SettingsAck \<in> flags then
        if payload \<noteq> [] then (Err (SettingsInvalidLength (of_nat (length payload))), c) else (Ok (), c)
      else apply_settings d payload c)"

definition process_ping ::
    "'w deps \<Rightarrow> frame \<Rightarrow> ping_flags set \<Rightarrow> bytes \<Rightarrow> 'w server_context \<Rightarrow>
     (unit, h2_connection_error) result \<times> 'w server_context" where
  "process_ping d f flags payload c =
     (if fstream_id f \<noteq> CONNECTION then (Err (PingFrameWithNonZeroStreamId (fstream_id f)), c)
      else if flen f \<noteq> 8 then (Err (PingFrameInvalidLength (flen f)), c)
      else if PingAck \<in> flags then (Ok (), c)
      else write_frame d (with_len (frame_new (Ping {PingAck}) CONNECTION) (of_nat (length payload))) [payload] c)"

definition window_update_connection ::
    "int \<Rightarrow> 'w server_context \<Rightarrow> (unit, h2_connection_error) result \<times> 'w server_context" where
  "window_update_connection inc c =
     (let new_capacity = outgoing_capacity (sc_state c) + inc in
      if MAX_WINDOW_SIZE < new_capacity then (Err ConnWindowUpdateOverflow, c)
      else (Ok (), st_upd (\<lambda>s. notify_one (s\<lparr>outgoing_capacity := new_capacity\<rparr>)) c))"

definition window_update_stream ::
    "'w deps \<Rightarrow> stream_id \<Rightarrow> int \<Rightarrow> 'w server_context \<Rightarrow>
     (unit, h2_connection_error) result \<times> 'w server_context" where
  "window_update_stream d sid inc c =
     (case get_outgoing (sc_state c) sid of
        None \<Rightarrow> (Err (WindowUpdateForUnknownOrClosedStream sid), c)
      | Some og \<Rightarrow>
          let new_capacity = so_capacity og + inc in
          if MAX_WINDOW_SIZE < new_capacity then rst d sid StreamWindowUpdateOverflow c
          else
            let c = st_upd (put_outgoing sid (og\<lparr>so_capacity := new_capacity\<rparr>)) c in
            if so_capacity og \<le> 0 \<and> 0 < new_capacity then
              (Ok (), st_upd (\<lambda>s. (if 0 < outgoing_capacity s then notify_one else id) (add_pending sid s)) c)
            else (Ok (), c))"

definition process_window_update ::
    "'w deps \<Rightarrow> frame \<Rightarrow> bytes \<Rightarrow> 'w server_context \<Rightarrow>
     (unit, h2_connection_error) result \<times> 'w server_context" where
  "process_window_update d f payload c =
     (if length payload \<noteq> 4 then (Err (WindowUpdateInvalidLength (length payload)), c)
      else
        (case finish ''WindowUpdate'' (window_update_parse (d_nom d) payload) of
           Panic \<Rightarrow> (Panic, c)
         | Err e \<Rightarrow> (Err e, c)
         | Ok (_, update) \<Rightarrow>
             if increment update = 0 then (Err WindowUpdateZeroIncrement, c)
             else if fstream_id f = CONNECTION then window_update_connection (uint (increment update)) c
             else window_update_stream d (fstream_id f) (uint (increment update)) c))"

definition process_frame ::
    "'w deps \<Rightarrow> frame \<Rightarrow> bytes \<Rightarrow> rx \<times> 'w server_context \<Rightarrow>
     ((unit, h2_connection_error) result \<times> rx \<times> 'w server_context) option" where
  "process_frame d f payload st =
     (case st of (rx, c) \<Rightarrow>
      let keep_rx = (\<lambda>(r, c). Some (r, rx, c)) in
      case ftype f of
        Data flags \<Rightarrow> keep_rx (process_data d f flags payload c)
      | Headers flags \<Rightarrow> process_headers d f flags payload (rx, c)
      | Priority \<Rightarrow> keep_rx (process_priority d f payload c)
      | RstStream \<Rightarrow> keep_rx (process_rst_stream d f c)
      | Settings flags \<Rightarrow> keep_rx (process_settings d f flags payload c)
      | PushPromise \<Rightarrow> keep_rx (Err ClientSentPushPromise, c)
      | Ping flags \<Rightarrow> keep_rx (process_ping d f flags payload c)
      | GoAway \<Rightarrow>
          keep_rx
            (if fstream_id f \<noteq> CONNECTION then (Err (GoAwayWithNonZeroStreamId (fstream_id f)), c)
             else (Ok (), c\<lparr>goaway_recv := True\<rparr>))
      | WindowUpdate \<Rightarrow> keep_rx (process_window_update d f payload c)
      | Continuation _ \<Rightarrow> keep_rx (Err (UnexpectedContinuationFrame (fstream_id f)), c)
      | Unknown _ \<Rightarrow> keep_rx (Ok (), c))"

end
