(* ===== verification/H2_Flow.thy ===== *)
theory H2_Flow
  imports H2_Send
begin

text \<open>
  Flow control of the HTTP/2 server: what \<open>send_data_maybe\<close> puts into frames. A header block is cut
  into one HEADERS frame and CONTINUATION frames that add up to it, and the cutting ends; a body is cut
  into DATA frames within the peer's frame size and the capacity of the turn, as much of it as fits,
  with END_STREAM exactly on the frame that finishes it. Writing the frames of one stream keeps both
  windows above zero; two streams at once can overdraw the connection window.
\<close>

section \<open>Header blocks\<close>

definition frames_bytes :: "queued \<Rightarrow> bytes" where
  "frames_bytes fs = concat (map (\<lambda>(f, plist). concat plist) fs)"

lemma frames_bytes_simps [simp]:
  "frames_bytes [] = []"
  "frames_bytes ((f, plist) # fs) = concat plist @ frames_bytes fs"
  "frames_bytes (fs @ gs) = frames_bytes fs @ frames_bytes gs"
  by (simp_all add: frames_bytes_def)

text \<open>CONTINUATION frames of one stream, of which exactly the last ends the block.\<close>

fun continuation_frames :: "nat \<Rightarrow> stream_id \<Rightarrow> queued \<Rightarrow> bool" where
  "continuation_frames max_fram sid [] \<longleftrightarrow> False"
| "continuation_frames max_fram sid [(f, plist)] \<longleftrightarrow>
     f = frame_new (Continuation {ContinuationEndHeaders}) sid \<and> length (concat plist) \<le> max_fram"
| "continuation_frames max_fram sid ((f, plist) # fs) \<longleftrightarrow>
     f = frame_new (Continuation {}) sid \<and> length (concat plist) = max_fram \<and>
     continuation_frames max_fram sid fs"

fun header_frames :: "nat \<Rightarrow> stream_id \<Rightarrow> queued \<Rightarrow> bool" where
  "header_frames max_fram sid [] \<longleftrightarrow> False"
| "header_frames max_fram sid [(f, plist)] \<longleftrightarrow>
     f = frame_new (Headers {HeadersEndHeaders}) sid \<and> length (concat plist) \<le> max_fram"
| "header_frames max_fram sid ((f, plist) # fs) \<longleftrightarrow>
     f = frame_new (Headers {}) sid \<and> length (concat plist) = max_fram \<and>
     continuation_frames max_fram sid fs"

lemma continuation_frames_Cons:
  "continuation_frames mf sid fs \<Longrightarrow> length (concat plist) = mf \<Longrightarrow>
   continuation_frames mf sid ((frame_new (Continuation {}) sid, plist) # fs)"
  by (cases fs) auto

lemma header_frames_Cons:
  "continuation_frames mf sid fs \<Longrightarrow> length (concat plist) = mf \<Longrightarrow>
   header_frames mf sid ((frame_new (Headers {}) sid, plist) # fs)"
  by (cases fs) auto

lemma queue_continuations:
  "0 < mf \<Longrightarrow> \<exists>frames. queue_header_frames mf sid (WroteSome p) = Some (WroteAll, frames) \<and>
     continuation_frames mf sid frames \<and> frames_bytes frames = p"
proof (induction "length p" arbitrary: p rule: less_induct)
  case less
  show ?case
  proof (cases "mf < length p")
    case True
    with less.prems have "length (drop mf p) < length p" by simp
    from less.hyps[OF this less.prems] obtain frames where
        "queue_header_frames mf sid (WroteSome (drop mf p)) = Some (WroteAll, frames)"
        "continuation_frames mf sid frames" "frames_bytes frames = drop mf p"
      by blast
    with True show ?thesis
      by (subst queue_header_frames.simps)
         (auto simp: is_wrote_some_def intro!: continuation_frames_Cons)
  next
    case False
    then show ?thesis by (subst queue_header_frames.simps) (simp add: is_wrote_some_def)
  qed
qed

lemma queue_headers:
  assumes "0 < mf"
  shows "\<exists>frames. queue_header_frames mf sid (WroteNone p) = Some (WroteAll, frames) \<and>
     header_frames mf sid frames \<and> frames_bytes frames = p"
proof (cases "mf < length p")
  case True
  with queue_continuations[OF assms, of sid "drop mf p"] show ?thesis
    by (subst queue_header_frames.simps) (auto simp: is_wrote_some_def intro!: header_frames_Cons)
next
  case False
  then show ?thesis by (subst queue_header_frames.simps) (simp add: is_wrote_some_def)
qed

text \<open>C31: with a positive frame size, cutting a header block into frames ends, and gives one HEADERS frame
  and as many CONTINUATION frames as needed, none above the frame size, END_HEADERS on the last one and
  only there, which together carry exactly the header block. With a frame size of zero it would never
  end.\<close>

theorem header_block_fragmentation:
  assumes "0 < mf"
  shows "\<exists>frames. queue_header_frames mf sid (WroteNone p) = Some (WroteAll, frames) \<and>
     header_frames mf sid frames \<and> frames_bytes frames = p"
  using assms by (rule queue_headers)

theorem header_block_fragmentation_witness:
  "\<exists>frames. queue_header_frames 2 1 (WroteNone [1, 2, 3, 4, 5]) = Some (WroteAll, frames) \<and>
     header_frames 2 1 frames \<and> frames_bytes frames = [1, 2, 3, 4, 5]"
  using header_block_fragmentation[of 2 1 "[1, 2, 3, 4, 5]"] by simp

section \<open>Bodies\<close>

definition body_bytes :: "body_outgoing \<Rightarrow> bytes" where
  "body_bytes body = concat (body_pieces body)"

text \<open>Whether the handler has ended the body.\<close>

fun body_ended :: "body_outgoing \<Rightarrow> bool" where
  "body_ended (StillReceiving _) = False"
| "body_ended _ = True"

lemma bo_pop_front_None:
  "bo_pop_front body = (None, body') \<Longrightarrow>
   body_bytes body = [] \<and> body_bytes body' = [] \<and> body_ended body' = body_ended body \<and>
   (body' = DoneSending \<longleftrightarrow> body_ended body)"
  by (induction body rule: bo_pop_front.induct) (auto simp: body_bytes_def)

lemma bo_pop_front_Some:
  "bo_pop_front body = (Some p, body') \<Longrightarrow>
   body_bytes body = p @ body_bytes body' \<and> body_ended body' = body_ended body"
  by (induction body rule: bo_pop_front.induct) (auto simp: body_bytes_def split: if_splits)

lemma bo_push_front_bytes [simp]:
  "body_bytes (bo_push_front body p) = p @ body_bytes body"
  "body_ended (bo_push_front body p) = body_ended body"
  "bo_push_front body p \<noteq> DoneSending"
  by (cases body; simp add: body_bytes_def)+

text \<open>One frame: it takes as many bytes of the body as fit.\<close>

lemma build_frame_takes:
  assumes "frame_len \<le> min mf cap" and "frame_len = length (concat plist)"
  shows "\<exists>body' plist'. build_frame mf cap body plist frame_len =
      Ok (body', plist', length (concat plist')) \<and>
    concat plist' = concat plist @ take (min mf cap - frame_len) (body_bytes body) \<and>
    body_bytes body' = drop (min mf cap - frame_len) (body_bytes body) \<and>
    body_ended body' = body_ended body \<and>
    (body' = DoneSending \<longleftrightarrow> body_ended body \<and> length (body_bytes body) \<le> min mf cap - frame_len)"
  using assms
proof (induction mf cap body plist frame_len rule: build_frame.induct)
  case (1 mf cap body plist n)
  obtain pop body1 where pop: "bo_pop_front body = (pop, body1)" by (cases "bo_pop_front body")
  let ?m = "min mf cap"
  show ?case
  proof (cases pop)
    case None
    with pop bo_pop_front_None[of body body1] 1(3) show ?thesis
      by (subst build_frame.simps) auto
  next
    case (Some p)
    note bytes = bo_pop_front_Some[OF pop[unfolded Some]]
    show ?thesis
    proof (cases "?m < n + length p")
      case True
      with 1(2) have "?m - n < length p" by linarith
      with True 1(2,3) pop Some bytes show ?thesis
        by (subst build_frame.simps)
           (auto simp: sub_usize_def bytes_split_at_def Let_def)
    next
      case False
      with 1(3) have "n + length p \<le> ?m" "n + length p = length (concat (plist_push_back plist p))" by auto
      from 1(1)[OF pop[symmetric] Some refl refl False this] bytes False pop Some 1(2) show ?thesis
        by (subst build_frame.simps) auto
    qed
  qed
qed

text \<open>All frames of a turn.\<close>

fun data_frames :: "nat \<Rightarrow> stream_id \<Rightarrow> bool \<Rightarrow> queued \<Rightarrow> bool" where
  "data_frames mf sid fin [] \<longleftrightarrow> \<not> fin"
| "data_frames mf sid fin ((f, plist) # fs) \<longleftrightarrow> length (concat plist) \<le> mf \<and>
     (if fin \<and> fs = [] then f = frame_new (Data {DataEndStream}) sid
      else f = frame_new (Data {}) sid \<and> concat plist \<noteq> [] \<and> data_frames mf sid fin fs)"

lemma take_take_drop:
  assumes "k \<le> n"
  shows "take n xs = take k xs @ take (n - length (take k xs)) (drop k xs)"
    and "drop (n - length (take k xs)) (drop k xs) = drop n xs"
  using assms by (cases "k \<le> length xs"; simp flip: take_add; simp add: min_def)+

lemma queue_body_takes:
  assumes "0 < mf" and "total_written \<le> capacity" and "total_written < capacity \<or> body \<noteq> DoneSending"
  shows "\<exists>body' frames. queue_body_frames mf capacity sid body total_written = Ok (body', frames) \<and>
    frames_bytes frames = take (capacity - total_written) (body_bytes body) \<and>
    body_bytes body' = drop (capacity - total_written) (body_bytes body) \<and>
    body_ended body' = body_ended body \<and>
    data_frames mf sid (body' = DoneSending) frames \<and>
    (body' = DoneSending \<longleftrightarrow> body_ended body \<and> total_written < capacity \<and>
       length (body_bytes body) \<le> capacity - total_written)"
  using assms
proof (induction mf capacity sid body total_written rule: queue_body_frames.induct)
  case (1 mf capacity sid body t)
  let ?left = "capacity - t"
  show ?case
  proof (cases "t < capacity")
    case False
    with 1(3,4) show ?thesis by (subst queue_body_frames.simps) auto
  next
    case True
    have start: "0 \<le> min mf ?left" "0 = length (concat ([] :: bytes list))" by simp_all
    obtain body1 plist where bf: "build_frame mf ?left body [] 0 = Ok (body1, plist, length (concat plist))"
      and plist: "concat plist = take (min mf ?left) (body_bytes body)"
      and rest: "body_bytes body1 = drop (min mf ?left) (body_bytes body)"
      and ended: "body_ended body1 = body_ended body"
      and fin: "body1 = DoneSending \<longleftrightarrow> body_ended body \<and> length (body_bytes body) \<le> min mf ?left"
      using build_frame_takes[OF start, of body]
      unfolding concat.simps append_Nil diff_zero by blast
    show ?thesis
    proof (cases "body1 = DoneSending")
      case True
      with \<open>t < capacity\<close> bf plist rest fin show ?thesis
        by (subst queue_body_frames.simps) auto
    next
      case more: False
      then have mm: "bo_might_receive_more body1" by (cases body1) auto
      show ?thesis
      proof (cases "concat plist = []")
        case True
        with plist 1(2) \<open>t < capacity\<close> have "body_bytes body = []" by auto
        with True \<open>t < capacity\<close> bf mm rest more fin ended show ?thesis
          by (subst queue_body_frames.simps) auto
      next
        case False
        then have fl: "length (concat plist) \<noteq> 0" by simp
        have le: "t + length (concat plist) \<le> capacity" using plist \<open>t < capacity\<close> by simp
        obtain body' frames where q: "queue_body_frames mf capacity sid body1 (t + length (concat plist)) = Ok (body', frames)"
          and q': "frames_bytes frames = take (capacity - (t + length (concat plist))) (body_bytes body1)"
            "body_bytes body' = drop (capacity - (t + length (concat plist))) (body_bytes body1)"
            "body_ended body' = body_ended body1" "data_frames mf sid (body' = DoneSending) frames"
            "body' = DoneSending \<longleftrightarrow> body_ended body1 \<and> t + length (concat plist) < capacity \<and>
              length (body_bytes body1) \<le> capacity - (t + length (concat plist))"
          using 1(1)[OF \<open>t < capacity\<close> bf refl refl mm fl 1(2) le] more by blast
        have split: "frames_bytes ((frame_new (Data {}) sid, plist) # frames) = take ?left (body_bytes body)"
            "body_bytes body' = drop ?left (body_bytes body)"
          using take_take_drop[of "min mf ?left" ?left "body_bytes body"] plist rest q'(1,2)
          by (auto simp: diff_diff_add)
        have fin': "body' = DoneSending \<longleftrightarrow> body_ended body \<and> length (body_bytes body) \<le> ?left"
          using q'(5) ended rest plist more fin le False by (auto simp: min_def split: if_splits)
        have "data_frames mf sid (body' = DoneSending) ((frame_new (Data {}) sid, plist) # frames)"
          using q'(4) False plist by (cases frames) auto
        moreover have "queue_body_frames mf capacity sid body t =
            Ok (body', (frame_new (Data {}) sid, plist) # frames)"
          by (subst queue_body_frames.simps) (use q bf mm fl \<open>t < capacity\<close> in simp)
        moreover have "body_ended body' = body_ended body" using q'(3) ended by simp
        ultimately show ?thesis using split fin' \<open>t < capacity\<close> by blast
      qed
    qed
  qed
qed

lemma queue_body_turn:
  assumes "0 < mf" and "0 < capacity"
  shows "\<exists>body' frames. queue_body_frames mf capacity sid body 0 = Ok (body', frames) \<and>
    frames_bytes frames = take capacity (body_bytes body) \<and>
    body_bytes body' = drop capacity (body_bytes body) \<and>
    data_frames mf sid (body' = DoneSending) frames \<and>
    (body' = DoneSending \<longleftrightarrow> body_ended body \<and> length (body_bytes body) \<le> capacity)"
  using queue_body_takes[of mf 0 capacity body sid] assms by auto

text \<open>C32: within one turn, a body is cut into DATA frames that carry, in order, exactly as many of its
  bytes as the capacity allows, leaving the rest queued; no frame is above the peer's frame size, only
  a frame that ends the stream may be empty, and END_STREAM is on the last frame exactly when the
  handler has ended the body and all of it was sent.\<close>

theorem body_fragmentation:
  assumes "0 < mf" and "0 < capacity"
  shows "\<exists>body' frames. queue_body_frames mf capacity sid body 0 = Ok (body', frames) \<and>
    frames_bytes frames = take capacity (body_bytes body) \<and>
    body_bytes body' = drop capacity (body_bytes body) \<and>
    data_frames mf sid (body' = DoneSending) frames \<and>
    (body' = DoneSending \<longleftrightarrow> body_ended body \<and> length (body_bytes body) \<le> capacity)"
  using assms by (rule queue_body_turn)

theorem body_fragmentation_witness:
  "\<exists>body' frames. queue_body_frames 2 4 1 (DoneReceiving [[1, 2, 3], [], [4, 5]]) 0 = Ok (body', frames) \<and>
    frames_bytes frames = [1, 2, 3, 4] \<and> body_bytes body' = [5] \<and> data_frames 2 1 False frames"
  using body_fragmentation[of 2 4 1 "DoneReceiving [[1, 2, 3], [], [4, 5]]"]
  by (auto simp: body_bytes_def)

section \<open>State updates\<close>

named_theorems conn_simps \<open>reading a connection state after an update\<close>

lemma set_stream_simps [conn_simps]:
  "map_of (cs_streams (set_stream sid ss s)) = (map_of (cs_streams s))(sid \<mapsto> ss)"
  "outgoing_capacity (set_stream sid ss s) = outgoing_capacity s"
  "peer_settings (set_stream sid ss s) = peer_settings s"
  "self_settings (set_stream sid ss s) = self_settings s"
  "last_stream_id (set_stream sid ss s) = last_stream_id s"
  "streams_with_pending_data (set_stream sid ss s) = streams_with_pending_data s"
  by (simp_all add: set_stream_def AList.update_conv')

lemma remove_stream_simps [conn_simps]:
  "map_of (cs_streams (remove_stream sid s)) = (map_of (cs_streams s))(sid := None)"
  "outgoing_capacity (remove_stream sid s) = outgoing_capacity s"
  "peer_settings (remove_stream sid s) = peer_settings s"
  "self_settings (remove_stream sid s) = self_settings s"
  "last_stream_id (remove_stream sid s) = last_stream_id s"
  "streams_with_pending_data (remove_stream sid s) = streams_with_pending_data s"
  by (simp_all add: remove_stream_def AList.delete_conv')

lemma pending_simps [conn_simps]:
  "cs_streams (remove_pending sid s) = cs_streams s"
  "outgoing_capacity (remove_pending sid s) = outgoing_capacity s"
  "peer_settings (remove_pending sid s) = peer_settings s"
  "self_settings (remove_pending sid s) = self_settings s"
  "last_stream_id (remove_pending sid s) = last_stream_id s"
  "streams_with_pending_data (remove_pending sid s) = removeAll sid (streams_with_pending_data s)"
  "cs_streams (add_pending sid s) = cs_streams s"
  "outgoing_capacity (add_pending sid s) = outgoing_capacity s"
  "peer_settings (add_pending sid s) = peer_settings s"
  "self_settings (add_pending sid s) = self_settings s"
  "last_stream_id (add_pending sid s) = last_stream_id s"
  "streams_with_pending_data (add_pending sid s) = List.insert sid (streams_with_pending_data s)"
  "cs_streams (notify_one s) = cs_streams s"
  "outgoing_capacity (notify_one s) = outgoing_capacity s"
  "peer_settings (notify_one s) = peer_settings s"
  "self_settings (notify_one s) = self_settings s"
  "last_stream_id (notify_one s) = last_stream_id s"
  "streams_with_pending_data (notify_one s) = streams_with_pending_data s"
  by (simp_all add: remove_pending_def add_pending_def notify_one_def)

lemma put_outgoing_simps [conn_simps]:
  "outgoing_capacity (put_outgoing sid og s) = outgoing_capacity s"
  "peer_settings (put_outgoing sid og s) = peer_settings s"
  "self_settings (put_outgoing sid og s) = self_settings s"
  "last_stream_id (put_outgoing sid og s) = last_stream_id s"
  "streams_with_pending_data (put_outgoing sid og s) = streams_with_pending_data s"
  by (simp_all add: put_outgoing_def conn_simps split: option.split)

lemma outgoing_of_set [simp]:
  "outgoing_of (set_outgoing ss og) = (if outgoing_of ss = None then None else Some og)"
  by (cases ss) auto

lemma set_outgoing_twice [simp]: "set_outgoing (set_outgoing ss og) og' = set_outgoing ss og'"
  by (cases ss) auto

lemma get_outgoing_put [conn_simps]:
  "get_outgoing (put_outgoing sid og s) k =
     (if k = sid \<and> get_outgoing s sid \<noteq> None then Some og else get_outgoing s k)"
  by (auto simp: get_outgoing_def put_outgoing_def conn_simps split: option.splits)

lemma get_outgoing_cap [conn_simps]: "get_outgoing (s\<lparr>outgoing_capacity := x\<rparr>) k = get_outgoing s k"
  by (simp add: get_outgoing_def)

section \<open>The bytes of a frame\<close>

text \<open>What the proofs rely on of the packages, and a transport that accepts every write.\<close>

definition deps_ok :: "'w deps \<Rightarrow> bool" where
  "deps_ok d \<longleftrightarrow> nom_spec (d_nom d) \<and> byteorder_spec (d_bo d) \<and> byteorder_spec (d_slice_bo d) \<and>
     enumflags_spec (d_ef d) \<and> http_spec (d_http d) \<and> (\<forall>xs. mset (d_order d xs) = mset xs)"

definition transport_ok :: "'w deps \<Rightarrow> bool" where
  "transport_ok d \<longleftrightarrow> (\<forall>w bs. fst (d_write d w bs) = Ok ())"

definition sid_ok :: "stream_id \<Rightarrow> bool" where
  "sid_ok sid \<longleftrightarrow> sid AND 0x7FFFFFFF = sid"

lemma frame_into_piece_ok:
  assumes "deps_ok d" and "unat (flen f) < 2 ^ 24" and "sid_ok (fstream_id f)" and "reserved f = 0"
  shows "\<exists>bs. frame_into_piece d f [] = (Ok bs, []) \<and> length bs = 9"
proof -
  from assms obtain sid where sid: "(pack_bit_and_u31 (reserved f) (fstream_id f) :: (bytes, io_error) result) = Ok sid"
      "length sid = 4"
    using pack_parse_bit_and_u31[of "d_nom d" "fstream_id f" "reserved f", where 'e = io_error]
    by (auto simp: deps_ok_def sid_ok_def)
  have "byteorder_spec (d_bo d)" using assms(1) by (simp add: deps_ok_def)
  from frame_write_into_bytes[OF this assms(2) sid(1), of "d_ef d" "[]"] sid(2) show ?thesis
    by (auto simp: frame_into_piece_def u32_to_be_bytes_def)
qed

text \<open>A frame whose effect on the state is known is written in full.\<close>

lemma write_frame_writes:
  assumes "deps_ok d" and "transport_ok d" and "write_frame_state f payload (sc_state c) = Ok s"
    and "length (concat payload) < 2 ^ 24" and "sid_ok (fstream_id f)" and "reserved f = 0"
    and "out_scratch c = []"
  shows "\<exists>w. write_frame d f payload c = (Ok (), c\<lparr>sc_state := s, transport_w := w\<rparr>)"
proof -
  have "unat (of_nat (length (concat payload)) :: u32) < 2 ^ 24"
    using assms(4) by (simp add: unat_of_nat)
  then obtain bs where bs: "frame_into_piece d (f\<lparr>flen := of_nat (length (concat payload))\<rparr>) [] = (Ok bs, [])"
    using frame_into_piece_ok[OF assms(1), of "f\<lparr>flen := of_nat (length (concat payload))\<rparr>"] assms(5,6) by auto
  obtain r w where w: "d_write d (transport_w c) (bs @ concat payload) = (r, w)"
    by (cases "d_write d (transport_w c) (bs @ concat payload)")
  then have "r = Ok ()" using assms(2) unfolding transport_ok_def by (metis fst_conv)
  with assms(3,4,7) bs w show ?thesis
    by (intro exI[of _ w]) (simp add: write_frame_def as_frame_len_def Let_def)
qed

lemma header_frames_types:
  "continuation_frames mf sid fs \<Longrightarrow> (f, pl) \<in> set fs \<Longrightarrow>
     (\<exists>fl. f = frame_new (Continuation fl) sid) \<and> length (concat pl) \<le> mf"
  by (induction mf sid fs rule: continuation_frames.induct) auto

lemma header_frames_types':
  "header_frames mf sid fs \<Longrightarrow> (f, pl) \<in> set fs \<Longrightarrow>
     (\<exists>ft. f = frame_new ft sid \<and> (\<forall>fl. ft \<noteq> Data fl)) \<and> length (concat pl) \<le> mf"
  using header_frames_types[of mf sid "tl fs" f pl]
  by (cases "(mf, sid, fs)" rule: header_frames.cases) auto

text \<open>Frames that carry no data leave the state.\<close>

lemma write_other_frames:
  assumes "deps_ok d" and "transport_ok d"
    and "\<forall>(f, pl)\<in>set fs. (\<exists>ft. f = frame_new ft sid \<and> (\<forall>fl. ft \<noteq> Data fl)) \<and> length (concat pl) < 2 ^ 24"
    and "sid_ok sid" and "out_scratch c = []"
  shows "\<exists>w. write_frames d fs c = (Ok (), c\<lparr>transport_w := w\<rparr>)"
  using assms(3,5)
proof (induction fs arbitrary: c)
  case Nil
  show ?case by (auto intro: exI[of _ "transport_w c"])
next
  case (Cons x fs)
  obtain f pl where x: "x = (f, pl)" by (cases x)
  with Cons.prems obtain ft where f: "f = frame_new ft sid" "\<forall>fl. ft \<noteq> Data fl" "length (concat pl) < 2 ^ 24"
    by auto
  then have "write_frame_state f pl (sc_state c) = Ok (sc_state c)"
    by (cases ft) (auto simp: write_frame_state_def frame_new_def)
  then obtain w where "write_frame d f pl c = (Ok (), c\<lparr>sc_state := sc_state c, transport_w := w\<rparr>)"
    using write_frame_writes[OF assms(1,2), of f pl c "sc_state c"] f assms(4) Cons.prems(2)
    by (auto simp: frame_new_def)
  with Cons.IH[of "c\<lparr>transport_w := w\<rparr>"] Cons.prems x show ?case by auto
qed

section \<open>The windows\<close>

text \<open>The state after \<open>n\<close> bytes of a stream were sent, and after its last frame.\<close>

definition data_sent :: "stream_id \<Rightarrow> stream_outgoing \<Rightarrow> nat \<Rightarrow> conn_state \<Rightarrow> conn_state" where
  "data_sent sid og n s =
     (put_outgoing sid (og\<lparr>so_capacity := so_capacity og - int n\<rparr>) s)
       \<lparr>outgoing_capacity := outgoing_capacity s - int n\<rparr>"

definition stream_ended :: "stream_id \<Rightarrow> conn_state \<Rightarrow> conn_state" where
  "stream_ended sid s =
     remove_pending sid
       (case map_of (cs_streams s) sid of
          Some (Open incoming _) \<Rightarrow> set_stream sid (HalfClosedLocal incoming) s
        | _ \<Rightarrow> remove_stream sid s)"

lemma get_outgoing_stream:
  assumes "get_outgoing s sid = Some og"
  obtains ss where "map_of (cs_streams s) sid = Some ss" "outgoing_of ss = Some og"
  using assms by (auto simp: get_outgoing_def bind_eq_Some_conv)

lemma set_outgoing_same: "outgoing_of ss = Some og \<Longrightarrow> set_outgoing ss og = ss"
  by (cases ss) auto

lemma put_outgoing_same:
  assumes "get_outgoing s sid = Some og"
  shows "put_outgoing sid og s = s"
  using assms
  by (elim get_outgoing_stream)
     (simp add: put_outgoing_def set_stream_def set_outgoing_same AList.update_triv)

lemma put_outgoing_twice [simp]: "put_outgoing sid og' (put_outgoing sid og s) = put_outgoing sid og' s"
  by (simp add: put_outgoing_def set_stream_def AList.update_conv' split: option.split)

lemma put_outgoing_cap [simp]:
  "put_outgoing sid og (s\<lparr>outgoing_capacity := x\<rparr>) = (put_outgoing sid og s)\<lparr>outgoing_capacity := x\<rparr>"
  by (simp add: put_outgoing_def set_stream_def split: option.split)

lemma data_sent_0: "get_outgoing s sid = Some og \<Longrightarrow> data_sent sid og 0 s = s"
  by (simp add: data_sent_def put_outgoing_same)

lemma data_sent_add:
  "data_sent sid (og\<lparr>so_capacity := so_capacity og - int n\<rparr>) m (data_sent sid og n s) =
   data_sent sid og (n + m) s"
  by (simp add: data_sent_def conn_simps algebra_simps)

lemma data_sent_simps [conn_simps]:
  "get_outgoing (data_sent sid og n s) k =
     (if k = sid \<and> get_outgoing s sid \<noteq> None
      then Some (og\<lparr>so_capacity := so_capacity og - int n\<rparr>) else get_outgoing s k)"
  "outgoing_capacity (data_sent sid og n s) = outgoing_capacity s - int n"
  by (simp_all add: data_sent_def conn_simps)

lemma write_data_state:
  assumes "get_outgoing s sid = Some og" and "length (concat pl) < 2 ^ 32"
    and "int (length (concat pl)) \<le> so_capacity og" and "int (length (concat pl)) \<le> outgoing_capacity s"
  shows "write_frame_state (frame_new (Data {}) sid) pl s = Ok (data_sent sid og (length (concat pl)) s)"
    and "write_frame_state (frame_new (Data {DataEndStream}) sid) pl s =
      Ok (stream_ended sid (data_sent sid og (length (concat pl)) s))"
proof -
  obtain ss where ss: "map_of (cs_streams s) sid = Some ss" "outgoing_of ss = Some og"
    using assms(1) by (rule get_outgoing_stream)
  then show "write_frame_state (frame_new (Data {}) sid) pl s = Ok (data_sent sid og (length (concat pl)) s)"
    using assms(2-4)
    by (simp add: write_frame_state_def frame_new_def as_frame_len_def data_sent_def put_outgoing_def Let_def)
  from ss assms(2-4) show "write_frame_state (frame_new (Data {DataEndStream}) sid) pl s =
      Ok (stream_ended sid (data_sent sid og (length (concat pl)) s))"
    by (cases ss)
       (simp_all add: write_frame_state_def frame_new_def as_frame_len_def data_sent_def put_outgoing_def
         stream_ended_def set_stream_def remove_stream_def remove_pending_def Let_def AList.update_conv')
qed

lemma write_data_frames:
  assumes "deps_ok d" and "transport_ok d" and "sid_ok sid" and "mf < 2 ^ 24"
    and "data_frames mf sid fin fs" and "get_outgoing (sc_state c) sid = Some og"
    and "int (length (frames_bytes fs)) \<le> so_capacity og"
    and "int (length (frames_bytes fs)) \<le> outgoing_capacity (sc_state c)" and "out_scratch c = []"
  shows "\<exists>w. write_frames d fs c = (Ok (), c\<lparr>sc_state :=
      (if fin then stream_ended sid else id) (data_sent sid og (length (frames_bytes fs)) (sc_state c)),
      transport_w := w\<rparr>)"
  using assms(5-9)
proof (induction fs arbitrary: c og)
  case Nil
  then show ?case by (auto simp: data_sent_0 intro: exI[of _ "transport_w c"])
next
  case (Cons x fs)
  obtain f pl where x: "x = (f, pl)" by (cases x)
  let ?n = "length (concat pl)"
  have n: "?n \<le> mf" "int ?n \<le> so_capacity og" "int ?n \<le> outgoing_capacity (sc_state c)"
    using Cons.prems x by auto
  then have n': "?n < 2 ^ 24" "?n < 2 ^ 32" using assms(4) by simp_all
  note st = write_data_state[OF Cons.prems(2) n'(2) n(2,3)]
  have wr: "\<exists>w. write_frame d (frame_new (Data fl) sid) pl c = (Ok (), c\<lparr>sc_state := s, transport_w := w\<rparr>)"
    if "write_frame_state (frame_new (Data fl) sid) pl (sc_state c) = Ok s" for fl s
    using write_frame_writes[OF assms(1,2) that n'(1)] assms(3) Cons.prems(5) by (simp add: frame_new_def)
  show ?case
  proof (cases "fin \<and> fs = []")
    case True
    with Cons.prems(1) x wr[OF st(2)] show ?thesis by auto
  next
    case False
    let ?og = "og\<lparr>so_capacity := so_capacity og - int ?n\<rparr>"
    obtain w where w: "write_frame d f pl c = (Ok (), c\<lparr>sc_state := data_sent sid og ?n (sc_state c), transport_w := w\<rparr>)"
      using False Cons.prems(1) x wr[OF st(1)] by auto
    let ?c = "c\<lparr>sc_state := data_sent sid og ?n (sc_state c), transport_w := w\<rparr>"
    have "data_frames mf sid fin fs" "get_outgoing (sc_state ?c) sid = Some ?og"
      "int (length (frames_bytes fs)) \<le> so_capacity ?og"
      "int (length (frames_bytes fs)) \<le> outgoing_capacity (sc_state ?c)" "out_scratch ?c = []"
      using False Cons.prems x by (auto simp: conn_simps split: if_splits)
    from Cons.IH[OF this] w x show ?thesis by (auto simp: data_sent_add)
  qed
qed

lemma write_frames_append:
  "write_frames d (xs @ ys) c = bind_st (write_frames d xs c) (\<lambda>_ c. write_frames d ys c)"
proof (induction xs arbitrary: c)
  case (Cons x xs)
  obtain f pl where x: "x = (f, pl)" by (cases x)
  obtain r c' where "write_frame d f pl c = (r, c')" by (cases "write_frame d f pl c")
  with x Cons show ?case by (cases r) simp_all
qed simp

lemma stream_ended_simps [conn_simps]:
  "get_outgoing (stream_ended sid s) k = (if k = sid then None else get_outgoing s k)"
  "streams_with_pending_data (stream_ended sid s) = removeAll sid (streams_with_pending_data s)"
  "outgoing_capacity (stream_ended sid s) = outgoing_capacity s"
  by (simp_all add: stream_ended_def get_outgoing_def conn_simps split: option.split stream_state.split)

lemma i64_as_usize_id: "0 \<le> x \<Longrightarrow> x < 2 ^ 64 \<Longrightarrow> i64_as_usize x = nat x"
  by (simp add: i64_as_usize_def)

text \<open>The frames queued for one stream.\<close>

lemma queue_stream_step:
  assumes "0 < mf" and "mf < 2 ^ 24" and "get_outgoing s sid = Some og"
    and "so_headers og = WroteNone block \<or> so_headers og = WroteAll" and "so_body og \<noteq> DoneSending"
    and "0 < outgoing_capacity s" and "0 < so_capacity og" and "so_capacity og \<le> MAX_WINDOW_SIZE"
  defines "k \<equiv> nat (min (outgoing_capacity s) (so_capacity og))"
  shows "\<exists>hfs bfs body. queue_streams mf (sid # sids) s frames np =
      queue_streams mf sids (put_outgoing sid (og\<lparr>so_headers := WroteAll, so_body := body\<rparr>) s)
        (frames @ hfs @ bfs) np \<and>
    (\<forall>(f, pl)\<in>set hfs. (\<exists>ft. f = frame_new ft sid \<and> (\<forall>fl. ft \<noteq> Data fl)) \<and> length (concat pl) < 2 ^ 24) \<and>
    frames_bytes bfs = take k (body_bytes (so_body og)) \<and> body_bytes body = drop k (body_bytes (so_body og)) \<and>
    data_frames mf sid (body = DoneSending) bfs \<and>
    (body = DoneSending \<longleftrightarrow> body_ended (so_body og) \<and> length (body_bytes (so_body og)) \<le> k)"
proof -
  have k: "i64_as_usize (min (outgoing_capacity s) (so_capacity og)) = k" "0 < k"
    using assms(6-8) by (simp_all add: k_def i64_as_usize_id MAX_WINDOW_SIZE_def min_def)
  obtain hfs where h: "(if ho_has_more_to_write (so_headers og) then queue_header_frames mf sid (so_headers og)
        else Some (so_headers og, [])) = Some (WroteAll, hfs)"
      and hfs: "\<forall>(f, pl)\<in>set hfs. (\<exists>ft. f = frame_new ft sid \<and> (\<forall>fl. ft \<noteq> Data fl)) \<and> length (concat pl) < 2 ^ 24"
  proof (cases "so_headers og = WroteAll")
    case False
    with assms(4) have hb: "so_headers og = WroteNone block" by simp
    obtain frames where "queue_header_frames mf sid (WroteNone block) = Some (WroteAll, frames)"
        "header_frames mf sid frames"
      using queue_headers[OF assms(1)] by blast
    with hb header_frames_types'[of mf sid frames] assms(2) that[of frames] show thesis by fastforce
  qed (use that[of "[]"] in simp)
  obtain body bfs where b: "queue_body_frames mf k sid (so_body og) 0 = Ok (body, bfs)"
      and bfs: "frames_bytes bfs = take k (body_bytes (so_body og))"
        "body_bytes body = drop k (body_bytes (so_body og))" "data_frames mf sid (body = DoneSending) bfs"
        "body = DoneSending \<longleftrightarrow> body_ended (so_body og) \<and> length (body_bytes (so_body og)) \<le> k"
    using queue_body_turn[OF assms(1) k(2), of sid "so_body og"] by blast
  have "so_headers og \<noteq> WaitingForHeaders" "bo_has_more_to_write (so_body og)"
    using assms(4,5) by (auto intro: bo_has_more_to_write.elims(3))
  with h b k(1) assms(3,6) have "queue_streams mf (sid # sids) s frames np =
      queue_streams mf sids (put_outgoing sid (og\<lparr>so_headers := WroteAll, so_body := body\<rparr>) s)
        (frames @ hfs @ bfs) np"
    by simp
  with hfs bfs show ?thesis by blast
qed


section \<open>Two streams at once\<close>

lemma write_data_overdraws:
  assumes "deps_ok d" and "transport_ok d" and "sid_ok sid" and "mf < 2 ^ 24"
    and "data_frames mf sid fin fs" and "get_outgoing (sc_state c) sid = Some og"
    and "int (length (frames_bytes fs)) \<le> so_capacity og"
    and "outgoing_capacity (sc_state c) < int (length (frames_bytes fs))"
    and "0 \<le> outgoing_capacity (sc_state c)" and "out_scratch c = []"
  shows "fst (write_frames d fs c) = Panic"
  using assms(5-10)
proof (induction fs arbitrary: c og)
  case (Cons x fs)
  obtain f pl where x: "x = (f, pl)" by (cases x)
  let ?n = "length (concat pl)"
  obtain fl where f: "f = frame_new (Data fl) sid" using Cons.prems(1) x by (auto split: if_splits)
  have n: "?n \<le> mf" "int ?n \<le> so_capacity og" using Cons.prems x by auto
  then have n': "?n < 2 ^ 24" "?n < 2 ^ 32" using assms(4) by simp_all
  obtain ss where ss: "map_of (cs_streams (sc_state c)) sid = Some ss" "outgoing_of ss = Some og"
    using Cons.prems(2) by (rule get_outgoing_stream)
  show ?case
  proof (cases "outgoing_capacity (sc_state c) < int ?n")
    case True
    with ss n(2) n' f have "write_frame_state f pl (sc_state c) = Panic"
      by (simp add: write_frame_state_def frame_new_def as_frame_len_def Let_def)
    with x show ?thesis by (simp add: write_frame_def)
  next
    case False
    with Cons.prems(1,4) x have "\<not> (fin \<and> fs = [])" by auto
    with Cons.prems(1) x have f': "f = frame_new (Data {}) sid" and fs: "data_frames mf sid fin fs" by auto
    let ?og = "og\<lparr>so_capacity := so_capacity og - int ?n\<rparr>"
    from False have "int ?n \<le> outgoing_capacity (sc_state c)" by simp
    from write_data_state(1)[OF Cons.prems(2) n'(2) n(2) this] f' Cons.prems(6) assms(3) obtain w
      where w: "write_frame d f pl c = (Ok (), c\<lparr>sc_state := data_sent sid og ?n (sc_state c), transport_w := w\<rparr>)"
      using write_frame_writes[OF assms(1,2) _ n'(1), of f c] by (auto simp: frame_new_def)
    let ?c = "c\<lparr>sc_state := data_sent sid og ?n (sc_state c), transport_w := w\<rparr>"
    have "get_outgoing (sc_state ?c) sid = Some ?og" "int (length (frames_bytes fs)) \<le> so_capacity ?og"
      "outgoing_capacity (sc_state ?c) < int (length (frames_bytes fs))"
      "0 \<le> outgoing_capacity (sc_state ?c)" "out_scratch ?c = []"
      using False Cons.prems x by (auto simp: conn_simps)
    from Cons.IH[OF fs this] w x show ?thesis by simp
  qed
qed simp

text \<open>A stream that has headers out of the way, both windows open and a body that fits them.\<close>

definition ready_stream :: "conn_state \<Rightarrow> stream_id \<Rightarrow> stream_outgoing \<Rightarrow> bool" where
  "ready_stream s sid og \<longleftrightarrow> sid_ok sid \<and> get_outgoing s sid = Some og \<and> so_headers og = WroteAll \<and>
     so_body og \<noteq> DoneSending \<and> 0 < so_capacity og \<and> so_capacity og \<le> MAX_WINDOW_SIZE \<and>
     int (length (body_bytes (so_body og))) \<le> min (outgoing_capacity s) (so_capacity og)"

lemma queue_ready_stream:
  assumes "ready_stream s sid og" and "0 < mf" and "mf < 2 ^ 24" and "0 < outgoing_capacity s"
  shows "\<exists>bfs body. queue_streams mf (sid # sids) s frames np =
      queue_streams mf sids (put_outgoing sid (og\<lparr>so_body := body\<rparr>) s) (frames @ bfs) np \<and>
    frames_bytes bfs = body_bytes (so_body og) \<and> data_frames mf sid (body = DoneSending) bfs"
proof -
  let ?k = "nat (min (outgoing_capacity s) (so_capacity og))"
  have og: "so_headers og = WroteAll" "so_headers og \<noteq> WaitingForHeaders" "bo_has_more_to_write (so_body og)"
      "get_outgoing s sid = Some og"
    using assms(1) by (auto simp: ready_stream_def intro: bo_has_more_to_write.elims(3))
  have k: "i64_as_usize (min (outgoing_capacity s) (so_capacity og)) = ?k" "0 < ?k"
      "length (body_bytes (so_body og)) \<le> ?k"
    using assms by (auto simp: ready_stream_def i64_as_usize_id MAX_WINDOW_SIZE_def min_def)
  obtain body bfs where b: "queue_body_frames mf ?k sid (so_body og) 0 = Ok (body, bfs)"
      and bfs: "frames_bytes bfs = take ?k (body_bytes (so_body og))" "data_frames mf sid (body = DoneSending) bfs"
    using queue_body_turn[OF assms(2) k(2), of sid "so_body og"] by blast
  have eq: "og\<lparr>so_headers := WroteAll\<rparr> = og" using og(1) by (cases og) simp
  from b k(1) og assms(4) have "queue_streams mf (sid # sids) s frames np =
      queue_streams mf sids (put_outgoing sid (og\<lparr>so_body := body\<rparr>) s) (frames @ bfs) np"
    by (simp add: eq)
  with bfs k(3) show ?thesis by auto
qed

text \<open>C33: the connection window is not shared out between the streams of one turn: two streams whose
  bodies each fit the connection window, but not together, make \<open>send_data_maybe\<close> panic on the
  check in \<open>write_frame\<close> that no frame may overdraw the connection.\<close>

theorem send_data_overdraws_connection:
  assumes "deps_ok d" and "transport_ok d" and "out_scratch c = []" and "settings_ok (peer_settings (sc_state c))"
    and "d_order d (streams_with_pending_data (sc_state c)) = [a, b]" and "a \<noteq> b"
    and "ready_stream (sc_state c) a oa" and "ready_stream (sc_state c) b ob"
    and "0 < outgoing_capacity (sc_state c)"
    and "outgoing_capacity (sc_state c) <
      int (length (body_bytes (so_body oa))) + int (length (body_bytes (so_body ob)))"
  shows "\<exists>c'. send_data_maybe d c = Some (Panic, c')"
proof -
  define s where "s = sc_state c"
  define mf where "mf = unat (max_frame_size (peer_settings s))"
  have mf: "0 < mf" "mf < 2 ^ 24" using assms(4) by (simp_all add: settings_ok_def mf_def s_def)
  obtain afs abody where qa: "queue_streams mf [a, b] s [] [] =
        queue_streams mf [b] (put_outgoing a (oa\<lparr>so_body := abody\<rparr>) s) ([] @ afs) []"
      and afs: "frames_bytes afs = body_bytes (so_body oa)" "data_frames mf a (abody = DoneSending) afs"
    using queue_ready_stream[OF assms(7)[folded s_def] mf, of "[b]"] assms(9) s_def by blast
  define s1 where "s1 = put_outgoing a (oa\<lparr>so_body := abody\<rparr>) s"
  have "ready_stream s1 b ob" "0 < outgoing_capacity s1"
    using assms(6,8,9) by (auto simp: ready_stream_def s1_def s_def conn_simps)
  from queue_ready_stream[OF this(1) mf this(2), of "[]" "[] @ afs" "[]"] obtain bfs bbody where
      qb: "queue_streams mf [b] s1 ([] @ afs) [] =
        queue_streams mf [] (put_outgoing b (ob\<lparr>so_body := bbody\<rparr>) s1) (([] @ afs) @ bfs) []"
      and bfs: "frames_bytes bfs = body_bytes (so_body ob)" "data_frames mf b (bbody = DoneSending) bfs"
    by blast
  define c2 where "c2 = c\<lparr>sc_state := put_outgoing b (ob\<lparr>so_body := bbody\<rparr>) s1\<rparr>"
  have c2: "get_outgoing (sc_state c2) a = Some (oa\<lparr>so_body := abody\<rparr>)"
      "get_outgoing (sc_state c2) b = Some (ob\<lparr>so_body := bbody\<rparr>)"
      "outgoing_capacity (sc_state c2) = outgoing_capacity s" "out_scratch c2 = []"
    using assms(3,6,7,8) by (auto simp: c2_def s1_def s_def conn_simps ready_stream_def)
  let ?la = "length (body_bytes (so_body oa))"
  have ready: "sid_ok a" "sid_ok b" "int ?la \<le> outgoing_capacity s" "int ?la \<le> so_capacity oa"
      "int (length (body_bytes (so_body ob))) \<le> so_capacity ob"
    using assms(7,8) by (auto simp: ready_stream_def s_def)
  obtain w where w: "write_frames d afs c2 = (Ok (), c2\<lparr>sc_state :=
      (if abody = DoneSending then stream_ended a else id) (data_sent a (oa\<lparr>so_body := abody\<rparr>) ?la (sc_state c2)),
      transport_w := w\<rparr>)" (is "_ = (Ok (), ?c3)")
    using write_data_frames[OF assms(1,2) ready(1) mf(2) afs(2) c2(1)] c2(3,4) ready(3,4) by (auto simp: afs(1))
  have "fst (write_frames d bfs ?c3) = Panic"
  proof (rule write_data_overdraws[OF assms(1,2) ready(2) mf(2) bfs(2), of _ "ob\<lparr>so_body := bbody\<rparr>"])
    show "get_outgoing (sc_state ?c3) b = Some (ob\<lparr>so_body := bbody\<rparr>)"
      using c2(2) assms(6)
      by (auto simp: conn_simps)
  qed (use c2 ready assms(10) bfs(1) in \<open>auto simp: conn_simps s_def\<close>)
  with w have "fst (write_frames d (afs @ bfs) c2) = Panic" by (simp add: write_frames_append)
  then obtain c' where "write_frames d (afs @ bfs) c2 = (Panic, c')" by (metis prod.collapse)
  with qa qb assms(5) have "send_data_maybe d c = Some (Panic, c')"
    by (simp add: send_data_maybe_def Let_def mf_def[symmetric] s_def[symmetric] s1_def[symmetric] c2_def)
  then show ?thesis by blast
qed

section \<open>Concrete connections\<close>

definition deps_std :: "bytes deps" where
  "deps_std = \<lparr>d_nom = nom_std, d_bo = byteorder_std, d_slice_bo = byteorder_std, d_ef = enumflags_std,
     d_http = http_list, d_write = vec_write_all, d_alive = (\<lambda>_. True), d_order = (\<lambda>xs. xs), d_chan_size = 32\<rparr>"

lemma deps_std_ok: "deps_ok deps_std" "transport_ok deps_std"
  by (simp_all add: deps_ok_def transport_ok_def deps_std_def nom_std_spec byteorder_std_spec
      enumflags_std_spec http_list_spec vec_write_all_def)

text \<open>A connection with one response of which the headers and 70000 bytes are queued, and one with two
  responses of 40000 bytes each.\<close>

definition demo_outgoing :: "headers_outgoing \<Rightarrow> nat \<Rightarrow> stream_outgoing" where
  "demo_outgoing headers n =
     \<lparr>so_headers = headers, so_body = DoneReceiving [replicate n 0], so_capacity = 65535\<rparr>"

definition demo_context :: "(stream_id \<times> stream_outgoing) list \<Rightarrow> bytes server_context" where
  "demo_context ogs =
     server_context_new
       (conn_state_default\<lparr>cs_streams := map (\<lambda>(sid, og). (sid, HalfClosedRemote og)) ogs,
          streams_with_pending_data := map fst ogs\<rparr>) []"

lemma demo_context_simps:
  "out_scratch (demo_context ogs) = []"
  "peer_settings (sc_state (demo_context ogs)) = settings_default"
  "streams_with_pending_data (sc_state (demo_context ogs)) = map fst ogs"
  "outgoing_capacity (sc_state (demo_context ogs)) = 65535"
  by (simp_all add: demo_context_def server_context_new_def conn_state_default_def settings_default_def)


theorem send_data_overdraws_connection_witness:
  "\<exists>c'. send_data_maybe deps_std (demo_context [(1, demo_outgoing WroteAll 40000), (3, demo_outgoing WroteAll 40000)]) =
     Some (Panic, c')"
proof -
  let ?og = "demo_outgoing WroteAll 40000"
  let ?c = "demo_context [(1, ?og), (3, ?og)]"
  have "ready_stream (sc_state ?c) 1 ?og" "ready_stream (sc_state ?c) 3 ?og"
    by (simp_all add: ready_stream_def demo_context_simps sid_ok_def demo_outgoing_def MAX_WINDOW_SIZE_def
        body_bytes_def get_outgoing_def demo_context_def server_context_new_def conn_state_default_def
        settings_default_def)
  from send_data_overdraws_connection[OF deps_std_ok demo_context_simps(1) _ _ _ this]
  show ?thesis
    by (simp add: demo_context_simps settings_default_ok deps_std_def demo_outgoing_def body_bytes_def)
qed

end
