(* ===== verification/H2_Server.thy ===== *)
theory H2_Server
  imports H2_Receive H2_Flow
begin

text \<open>
  The HTTP/2 connection as a state machine (\<open>process_loop\<close>, \<open>crates/loona/src/h2/server.rs\<close>): a turn of the
  loop handles a frame, an event of a handler, or the notification that data can be sent; handlers add
  events at any time. The theorems here hold in every state a connection can reach: the number of streams
  and the flow control windows stay within their bounds, stream identifiers are odd and never reused,
  and the HPACK state stays sound.
\<close>

section \<open>The loop\<close>

text \<open>\<open>tokio::select!\<close> waits for whichever branch is ready; which messages are there is not up to this task,
  so the three branches are three rules. A turn that fails ends the loop.\<close>

inductive conn_step :: "'w deps \<Rightarrow> rx \<times> 'w server_context \<Rightarrow> rx \<times> 'w server_context \<Rightarrow> bool" for d where
  step_frame: "process_frame d f payload (rx, c) = Some (Ok (), st) \<Longrightarrow> conn_step d ((f, payload) # rx, c) st"
| step_event: "ev_queue c = ev # q \<Longrightarrow> handle_event d ev (c\<lparr>ev_queue := q\<rparr>) = (Ok (), c') \<Longrightarrow>
    conn_step d (rx, c) (rx, c')"
| step_notified: "send_data_notified (sc_state c) \<Longrightarrow>
    send_data_maybe d (st_upd (\<lambda>s. s\<lparr>send_data_notified := False\<rparr>) c) = Some (Ok (), c') \<Longrightarrow>
    conn_step d (rx, c) (rx, c')"
| step_handler: "length (ev_queue c) < d_chan_size d \<Longrightarrow>
    conn_step d (rx, c) (rx, c\<lparr>ev_queue := ev_queue c @ [ev]\<rparr>)"

inductive_cases conn_stepE: "conn_step d st st'"

section \<open>The invariant\<close>

definition max_streams :: "conn_state \<Rightarrow> nat" where
  "max_streams s = (case max_concurrent_streams (self_settings s) of Some m \<Rightarrow> unat m | None \<Rightarrow> 2 ^ 32 - 1)"

definition window_ok :: "conn_state \<Rightarrow> int \<Rightarrow> bool" where
  "window_ok s cap \<longleftrightarrow> cap \<le> MAX_WINDOW_SIZE \<and> uint (initial_window_size (peer_settings s)) - 2 ^ 31 < cap"

definition stream_ok :: "conn_state \<Rightarrow> stream_id \<Rightarrow> stream_state \<Rightarrow> bool" where
  "stream_ok s sid ss \<longleftrightarrow> \<not> is_server_initiated sid \<and> sid \<le> last_stream_id s \<and> ss \<noteq> Transition \<and>
     (\<forall>og. outgoing_of ss = Some og \<longrightarrow> window_ok s (so_capacity og)) \<and>
     (\<forall>si. incoming_of ss = Some si \<longrightarrow> 0 \<le> si_capacity si \<and> si_capacity si < 2 ^ 32)"

definition conn_inv :: "conn_state \<Rightarrow> bool" where
  "conn_inv s \<longleftrightarrow> distinct (map fst (cs_streams s)) \<and> length (cs_streams s) \<le> max_streams s \<and>
     (\<forall>sid ss. map_of (cs_streams s) sid = Some ss \<longrightarrow> stream_ok s sid ss) \<and>
     0 \<le> outgoing_capacity s \<and> outgoing_capacity s \<le> MAX_WINDOW_SIZE \<and> settings_ok (peer_settings s)"

definition ctx_inv :: "'w server_context \<Rightarrow> bool" where
  "ctx_inv c \<longleftrightarrow> conn_inv (sc_state c) \<and> out_scratch c = [] \<and> dec_inv (sc_hpack_dec c) \<and>
     enc_inv (sc_hpack_enc c) \<and> enc_names_inv (sc_hpack_enc c)"

text \<open>What a call leaves when it succeeds.\<close>

definition keeps :: "('s \<Rightarrow> bool) \<Rightarrow> ('a, 'e) result \<times> 's \<Rightarrow> bool" where
  "keeps I p \<longleftrightarrow> (case p of (Ok _, s) \<Rightarrow> I s | _ \<Rightarrow> True)"

named_theorems keeps_intro \<open>rules for calls that keep an invariant\<close>

lemma keeps_simps [simp]:
  "keeps I (Ok v, s) = I s" "keeps I (Err e, s)" "keeps I (Panic, s)"
  by (simp_all add: keeps_def)

lemma keeps_bind [keeps_intro]:
  assumes "keeps I p" and "\<And>v s. p = (Ok v, s) \<Longrightarrow> I s \<Longrightarrow> keeps J (f v s)"
  shows "keeps J (bind_st p f)"
  using assms by (cases p; cases "fst p") (auto simp: keeps_def)

lemma keepsD: "keeps I p \<Longrightarrow> p = (Ok v, s) \<Longrightarrow> I s"
  by (simp add: keeps_def)

subsection \<open>State updates\<close>

lemma stream_ok_cong:
  assumes "last_stream_id s' = last_stream_id s" and "peer_settings s' = peer_settings s"
  shows "stream_ok s' sid ss = stream_ok s sid ss"
  using assms by (simp add: stream_ok_def window_ok_def)

lemma length_set_stream:
  "length (cs_streams (set_stream sid ss s)) =
     (if map_of (cs_streams s) sid = None then Suc (length (cs_streams s)) else length (cs_streams s))"
proof -
  have "length (AList.update k v al) = (if k \<in> fst ` set al then length al else Suc (length al))"
    for k :: stream_id and v :: stream_state and al by (induction al) auto
  then show ?thesis by (auto simp: set_stream_def map_of_eq_None_iff)
qed

lemma conn_inv_set_stream:
  assumes "conn_inv s" and "stream_ok s sid ss"
    and "map_of (cs_streams s) sid \<noteq> None \<or> length (cs_streams s) < max_streams s"
  shows "conn_inv (set_stream sid ss s)"
proof -
  have "max_streams (set_stream sid ss s) = max_streams s" by (simp add: max_streams_def conn_simps)
  moreover have "distinct (map fst (cs_streams (set_stream sid ss s)))"
    using assms(1) by (auto simp: conn_inv_def set_stream_def intro: AList.distinct_update)
  moreover have "stream_ok (set_stream sid ss s) k x = stream_ok s k x" for k x
    by (rule stream_ok_cong) (simp_all add: conn_simps)
  ultimately show ?thesis
    using assms by (auto simp: conn_inv_def conn_simps length_set_stream)
qed

lemma conn_inv_remove_stream: 
  assumes "conn_inv s"
  shows "conn_inv (remove_stream sid s)"
proof -
  have "max_streams (remove_stream sid s) = max_streams s" by (simp add: max_streams_def conn_simps)
  moreover have "length (cs_streams (remove_stream sid s)) \<le> length (cs_streams s)"
    by (simp add: remove_stream_def AList.length_delete_le)
  moreover have "distinct (map fst (cs_streams (remove_stream sid s)))"
    using assms by (auto simp: conn_inv_def remove_stream_def intro: AList.distinct_delete)
  moreover have "stream_ok (remove_stream sid s) k x = stream_ok s k x" for k x
    by (rule stream_ok_cong) (simp_all add: conn_simps)
  ultimately show ?thesis using assms by (auto simp: conn_inv_def conn_simps split: if_splits)
qed

text \<open>Fields that the invariant does not look at.\<close>

lemma conn_inv_cong:
  assumes "cs_streams s' = cs_streams s" and "outgoing_capacity s' = outgoing_capacity s"
    and "peer_settings s' = peer_settings s" and "self_settings s' = self_settings s"
    and "last_stream_id s' = last_stream_id s"
  shows "conn_inv s' = conn_inv s"
  using assms by (simp add: conn_inv_def stream_ok_def window_ok_def max_streams_def)

lemma conn_inv_pending [simp]:
  "conn_inv (add_pending sid s) = conn_inv s" "conn_inv (remove_pending sid s) = conn_inv s"
  "conn_inv (notify_one s) = conn_inv s" "conn_inv (s\<lparr>send_data_notified := b\<rparr>) = conn_inv s"
  by (rule conn_inv_cong; simp add: conn_simps)+

lemma conn_inv_worth_revisiting [simp]: "conn_inv (worth_revisiting og s) = conn_inv s"
  by (simp add: worth_revisiting_def)

lemma conn_inv_capacity:
  assumes "conn_inv s" and "0 \<le> x" and "x \<le> MAX_WINDOW_SIZE"
  shows "conn_inv (s\<lparr>outgoing_capacity := x\<rparr>)"
  using assms by (simp add: conn_inv_def stream_ok_def window_ok_def max_streams_def)

lemma conn_inv_put_outgoing:
  assumes "conn_inv s" and "window_ok s (so_capacity og)"
  shows "conn_inv (put_outgoing sid og s)"
proof (cases "map_of (cs_streams s) sid")
  case (Some ss)
  with assms have "stream_ok s sid ss" by (auto simp: conn_inv_def)
  with assms(2) have "stream_ok s sid (set_outgoing ss og)" by (cases ss) (auto simp: stream_ok_def)
  with conn_inv_set_stream[OF assms(1) this] Some show ?thesis by (simp add: put_outgoing_def)
qed (simp add: put_outgoing_def assms)

lemma conn_inv_outgoing:
  assumes "conn_inv s" and "get_outgoing s sid = Some og"
  shows "window_ok s (so_capacity og)"
  using assms by (elim get_outgoing_stream) (auto simp: conn_inv_def stream_ok_def)

lemma conn_inv_stream:
  assumes "conn_inv s" and "map_of (cs_streams s) sid = Some ss"
  shows "stream_ok s sid ss"
  using assms by (auto simp: conn_inv_def)

lemma settings_ok_window: 
  assumes "settings_ok p"
  shows "uint (initial_window_size p) < 2 ^ 31"
proof -
  have "int (unat (initial_window_size p)) < int (2 ^ 31)"
    using assms by (simp only: settings_ok_def of_nat_less_iff)
  then show ?thesis by simp
qed

lemma window_ok_initial: "settings_ok (peer_settings s) \<Longrightarrow> window_ok s (so_capacity (mk_stream_outgoing s))"
  using settings_ok_window[of "peer_settings s"]
  by (simp add: window_ok_def mk_stream_outgoing_def MAX_WINDOW_SIZE_def)

subsection \<open>Sending\<close>

lemma write_frame_state_inv:
  assumes "conn_inv s" and "write_frame_state f payload s = Ok s'"
  shows "conn_inv s'"
proof (cases "ftype f")
  case (Data flags)
  let ?sid = "fstream_id f" and ?n = "as_frame_len payload"
  from assms(2) Data obtain ss og where ss: "map_of (cs_streams s) ?sid = Some ss" "outgoing_of ss = Some og"
    and caps: "0 \<le> so_capacity og - int ?n" "0 \<le> outgoing_capacity s - int ?n"
    by (auto simp: write_frame_state_def Let_def split: option.splits if_splits)
  define ss1 where "ss1 = set_outgoing ss (og\<lparr>so_capacity := so_capacity og - int ?n\<rparr>)"
  define s1 where "s1 = (set_stream ?sid ss1 s)\<lparr>outgoing_capacity := outgoing_capacity s - int ?n\<rparr>"
  have ok: "stream_ok s ?sid ss" using conn_inv_stream[OF assms(1) ss(1)] .
  have "uint (initial_window_size (peer_settings s)) < 2 ^ 31"
    using assms(1) by (intro settings_ok_window) (simp add: conn_inv_def)
  with ok caps(1) ss(2) have "stream_ok s ?sid ss1"
    by (cases ss) (auto simp: ss1_def stream_ok_def window_ok_def)
  then have s1: "conn_inv s1"
    using conn_inv_set_stream[OF assms(1), of ?sid ss1] ss(1) caps(2) assms(1)
    unfolding s1_def by (intro conn_inv_capacity) (auto simp: conn_inv_def conn_simps)
  show ?thesis
  proof (cases "DataEndStream \<in> flags")
    case False
    with assms(2) Data ss caps s1 show ?thesis
      by (simp add: write_frame_state_def Let_def ss1_def s1_def split: if_splits)
  next
    case True
    have halfclosed: "conn_inv (set_stream ?sid (HalfClosedLocal si) (remove_pending ?sid s1))"
      if "ss = Open si og" for si
    proof (rule conn_inv_set_stream)
      show "stream_ok (remove_pending ?sid s1) ?sid (HalfClosedLocal si)"
        using ok that by (simp add: stream_ok_def s1_def conn_simps)
    qed (use s1 in \<open>simp_all add: s1_def conn_simps\<close>)
    have removed: "conn_inv (remove_stream ?sid (remove_pending ?sid s1))"
      using s1 by (intro conn_inv_remove_stream) simp
    show ?thesis
    proof (cases ss)
      case (Open si og')
      with halfclosed assms(2) Data ss caps True show ?thesis
        by (simp add: write_frame_state_def Let_def ss1_def s1_def split: if_splits)
    qed (use removed assms(2) Data ss caps True in
        \<open>simp_all add: write_frame_state_def Let_def ss1_def s1_def split: if_splits\<close>)
  qed
qed (use assms in \<open>simp_all add: write_frame_state_def\<close>)

lemma frame_into_piece_scratch: "frame_into_piece d f scratch = (Ok bs, scratch') \<Longrightarrow> scratch' = []"
  by (auto simp: frame_into_piece_def result_simps split: if_splits)

lemma write_frame_keeps [keeps_intro]:
  assumes "ctx_inv c"
  shows "keeps ctx_inv (write_frame d f payload c)"
proof -
  have "ctx_inv c'" if "write_frame d f payload c = (Ok (), c')" for c'
    using that assms write_frame_state_inv[of "sc_state c" f payload]
    by (auto simp: write_frame_def ctx_inv_def Let_def dest: frame_into_piece_scratch
        split: result.splits if_splits prod.splits)
  then show ?thesis by (cases "write_frame d f payload c") (auto simp: keeps_def split: result.splits)
qed

lemma write_frames_keeps [keeps_intro]: "ctx_inv c \<Longrightarrow> keeps ctx_inv (write_frames d fs c)"
  by (induction d fs c rule: write_frames.induct) (auto intro!: keeps_intro)

lemma ctx_inv_simps [simp]:
  "ctx_inv (c\<lparr>ev_queue := q\<rparr>) = ctx_inv c" "ctx_inv (c\<lparr>closed_tx := t\<rparr>) = ctx_inv c"
  "ctx_inv (c\<lparr>spawned := sp\<rparr>) = ctx_inv c" "ctx_inv (c\<lparr>goaway_recv := b\<rparr>) = ctx_inv c"
  "ctx_inv (close_channel ch c) = ctx_inv c" "ctx_inv (drop_incoming ss c) = ctx_inv c"
  by (simp_all add: ctx_inv_def close_channel_def drop_incoming_def split: option.split)

lemma drop_simps [simp]:
  "sc_state (close_channel ch c) = sc_state c" "sc_state (drop_incoming ss c) = sc_state c"
  by (simp_all add: close_channel_def drop_incoming_def split: option.split)

text \<open>Updates of the connection state.\<close>

lemma ctx_inv_st:
  assumes "ctx_inv c" and "conn_inv s"
  shows "ctx_inv (c\<lparr>sc_state := s\<rparr>)"
  using assms by (simp add: ctx_inv_def)

lemma ctx_inv_conn: "ctx_inv c \<Longrightarrow> conn_inv (sc_state c)"
  by (simp add: ctx_inv_def)

lemma ctx_inv_drop_stream: "ctx_inv c \<Longrightarrow> ctx_inv (drop_stream sid c)"
  unfolding drop_stream_def by (intro ctx_inv_st conn_inv_remove_stream) (auto dest: ctx_inv_conn)

lemma rst_payload_scratch: "rst_payload d code scratch = (r, scratch') \<Longrightarrow> scratch' = scratch"
  by (auto simp: rst_payload_def scratch_put_to_roll_def split: if_splits prod.splits result.splits)

lemma rst_keeps [keeps_intro]:
  assumes "ctx_inv c"
  shows "keeps ctx_inv (rst d sid e c)"
proof -
  have "c\<lparr>out_scratch := out_scratch c\<rparr> = c" for c :: "'a server_context" by simp
  then show ?thesis
    using ctx_inv_drop_stream[OF assms, of sid]
    by (auto simp: rst_def Let_def intro!: keeps_intro dest!: rst_payload_scratch split: prod.split result.split)
qed

text \<open>What one turn of \<open>'each_stream\<close> leaves when the whole succeeds.\<close>

lemma queue_streams_ConsE:
  assumes "queue_streams mf (sid # sids) s fs np = Some (Ok out)"
  obtains (stop) "out = (s, fs, np)"
  | (waiting) og where "get_outgoing s sid = Some og"
      "queue_streams mf sids s fs (List.insert sid np) = Some (Ok out)"
  | (queued) og headers body fs' where "get_outgoing s sid = Some og"
      "queue_streams mf sids (put_outgoing sid (og\<lparr>so_headers := headers, so_body := body\<rparr>) s) fs' np = Some (Ok out)"
proof (cases "outgoing_capacity s \<le> 0")
  case True
  with assms stop show ?thesis by simp
next
  case False
  with assms obtain og where og: "get_outgoing s sid = Some og" by (auto split: option.splits)
  show ?thesis
  proof (cases "so_headers og = WaitingForHeaders")
    case True
    with assms False og waiting show ?thesis by simp
  next
    case waiting: False
    with assms False og obtain headers hframes where h:
        "(if ho_has_more_to_write (so_headers og) then queue_header_frames mf sid (so_headers og)
          else Some (so_headers og, [])) = Some (headers, hframes)"
      by (auto simp: bind_eq_Some_conv simp del: ho_has_more_to_write.simps)
    let ?cap = "i64_as_usize (min (outgoing_capacity s) (so_capacity og))"
    from assms False og waiting h obtain body bframes where b:
        "(if bo_has_more_to_write (so_body og) then queue_body_frames mf ?cap sid (so_body og) 0
          else Ok (so_body og, [])) = Ok (body, bframes)"
      by (auto simp: Let_def split: result.splits prod.splits)
    have "queue_streams mf sids (put_outgoing sid (og\<lparr>so_headers := headers, so_body := body\<rparr>) s)
        (fs @ hframes @ bframes) np = Some (Ok out)"
      using assms False og waiting h b by (simp add: Let_def)
    then show ?thesis by (rule queued[OF og])
  qed
qed

lemma queue_streams_inv:
  assumes "conn_inv s" and "queue_streams mf sids s fs np = Some (Ok (s', fs', np'))"
  shows "conn_inv s'"
  using assms
proof (induction sids arbitrary: s fs np)
  case (Cons sid sids)
  from Cons.prems(2) show ?case
  proof (cases rule: queue_streams_ConsE)
    case (queued og headers body fs'')
    with conn_inv_put_outgoing[OF Cons.prems(1)] conn_inv_outgoing[OF Cons.prems(1) queued(1)]
    show ?thesis using Cons.IH[OF _ queued(2)] by simp
  qed (use Cons in auto)
qed simp

lemma send_data_maybe_inv:
  assumes "ctx_inv c" and "send_data_maybe d c = Some (Ok (), c')"
  shows "ctx_inv c'"
proof -
  from assms(2) obtain s fs np where q: "queue_streams (unat (max_frame_size (peer_settings (sc_state c))))
      (d_order d (streams_with_pending_data (sc_state c))) (sc_state c) [] [] = Some (Ok (s, fs, np))"
    and w: "bind_st (write_frames d fs (c\<lparr>sc_state := s\<rparr>)) (\<lambda>_ c.
      (Ok (), st_upd (\<lambda>s. fold remove_pending np s) c)) = (Ok (), c')"
    by (auto simp: send_data_maybe_def Let_def split: option.splits result.splits)
  have fold: "conn_inv (fold remove_pending np s) = conn_inv s" for s by (induction np arbitrary: s) auto
  have "keeps ctx_inv (bind_st (write_frames d fs (c\<lparr>sc_state := s\<rparr>)) (\<lambda>_ c.
      (Ok (), st_upd (\<lambda>s. fold remove_pending np s) c)))"
  proof (rule keeps_bind[where I = ctx_inv])
    show "keeps ctx_inv (write_frames d fs (c\<lparr>sc_state := s\<rparr>))"
      using queue_streams_inv[OF ctx_inv_conn[OF assms(1)] q] assms(1) by (intro write_frames_keeps ctx_inv_st)
  qed (auto intro!: ctx_inv_st simp: fold dest: ctx_inv_conn)
  with w show ?thesis by (simp add: keeps_def)
qed

lemma handle_event_keeps [keeps_intro]:
  assumes "ctx_inv c"
  shows "keeps ctx_inv (handle_event d ev c)"
proof (cases "get_outgoing (sc_state c) (ev_stream_id ev)")
  case None
  with assms show ?thesis by (simp add: handle_event_def)
next
  case (Some og)
  let ?sid = "ev_stream_id ev"
  have put: "conn_inv (put_outgoing ?sid og' (sc_state c))" if "so_capacity og' = so_capacity og" for og'
    using conn_inv_put_outgoing[OF ctx_inv_conn[OF assms]] conn_inv_outgoing[OF ctx_inv_conn[OF assms] Some] that
    by simp
  have enc: "enc_inv (sc_hpack_enc c)" "enc_names_inv (sc_hpack_enc c)" using assms by (simp_all add: ctx_inv_def)
  show ?thesis
  proof (cases "ev_payload ev")
    case (EvHeaders res)
    with Some assms enc put show ?thesis
      by (auto simp: handle_event_def encode_into_vec Let_def ctx_inv_def enc_inv_foldl enc_names_inv_foldl
          split: body_outgoing.split)
  next
    case (EvBodyChunk chunk)
    with Some assms put show ?thesis
      by (auto simp: handle_event_def Let_def ctx_inv_def split: result.split)
  next
    case EvBodyEnd
    have "conn_inv (put_outgoing ?sid (og\<lparr>so_body := b\<rparr>) (notify_one (sc_state c)))" for b
      using conn_inv_put_outgoing[of "notify_one (sc_state c)" "og\<lparr>so_body := b\<rparr>"]
        conn_inv_outgoing[OF ctx_inv_conn[OF assms] Some] ctx_inv_conn[OF assms]
      by (simp add: window_ok_def conn_simps)
    with EvBodyEnd Some assms put show ?thesis
      by (auto simp: handle_event_def Let_def ctx_inv_def split: body_outgoing.split)
  qed
qed

subsection \<open>Receiving\<close>

lemma incoming_of_set [simp]:
  "incoming_of (set_incoming ss si) = (if incoming_of ss = None then None else Some si)"
  "outgoing_of (set_incoming ss si) = outgoing_of ss"
  "(set_incoming ss si = Transition) = (ss = Transition)"
  by (cases ss; simp)+

lemma si_write_chunk_capacity: "si_write_chunk alive si c w = (r, si') \<Longrightarrow> si_capacity si' = si_capacity si"
  by (auto simp: si_write_chunk_def ch_send_def Let_def split: option.splits if_splits)

lemma end_incoming_inv: "ctx_inv c \<Longrightarrow> ctx_inv (end_incoming sid c)"
proof -
  assume inv: "ctx_inv c"
  have "conn_inv (set_stream sid (HalfClosedRemote og) (sc_state c))"
    if "map_of (cs_streams (sc_state c)) sid = Some (Open si og)" for si og
    using conn_inv_stream[OF ctx_inv_conn[OF inv] that] that
    by (intro conn_inv_set_stream ctx_inv_conn inv) (auto simp: stream_ok_def)
  with inv show ?thesis
    by (auto simp: end_incoming_def intro!: ctx_inv_drop_stream ctx_inv_st split: option.split stream_state.split)
qed

lemma process_data_keeps [keeps_intro]:
  assumes "ctx_inv c"
  shows "keeps ctx_inv (process_data d f flags payload c)"
proof (cases "Option.bind (map_of (cs_streams (sc_state c)) (fstream_id f)) incoming_of")
  case None
  then show ?thesis
    using rst_keeps[OF assms]
    by (auto simp: process_data_def Let_def split: option.split stream_state.split)
next
  case (Some si)
  then obtain ss where ss: "map_of (cs_streams (sc_state c)) (fstream_id f) = Some ss" "incoming_of ss = Some si"
    by (auto simp: bind_eq_Some_conv)
  have ok: "stream_ok (sc_state c) (fstream_id f) ss" using conn_inv_stream[OF ctx_inv_conn[OF assms] ss(1)] .
  let ?cap = "si_capacity si - int (length payload)"
  obtain r si' where w: "si_write_chunk (d_alive d) (si\<lparr>si_capacity := ?cap\<rparr>) payload
      (if is_end_stream f then Last else NotLast) = (r, si')"
    by (cases "si_write_chunk (d_alive d) (si\<lparr>si_capacity := ?cap\<rparr>) payload (if is_end_stream f then Last else NotLast)")
  then have cap: "si_capacity si' = ?cap" using si_write_chunk_capacity[OF w] by simp
  have "ctx_inv (st_upd (set_stream (fstream_id f) (set_incoming ss si')) c)" if "0 \<le> ?cap"
    using ok ss cap that
    by (intro ctx_inv_st conn_inv_set_stream ctx_inv_conn assms) (auto simp: stream_ok_def)
  with ss w show ?thesis
    by (auto simp: process_data_def Let_def intro!: keeps_intro end_incoming_inv split: result.split)
qed

lemma process_priority_keeps [keeps_intro]: "ctx_inv c \<Longrightarrow> keeps ctx_inv (process_priority d f payload c)"
  by (auto simp: process_priority_def intro!: keeps_intro split: result.split)

lemma process_rst_stream_keeps [keeps_intro]: "ctx_inv c \<Longrightarrow> keeps ctx_inv (process_rst_stream d f c)"
  by (auto simp: process_rst_stream_def Let_def intro!: keeps_intro ctx_inv_st conn_inv_remove_stream
      dest: ctx_inv_conn split: option.split stream_state.split)

lemma process_ping_keeps [keeps_intro]: "ctx_inv c \<Longrightarrow> keeps ctx_inv (process_ping d f flags payload c)"
  by (auto simp: process_ping_def intro!: keeps_intro)

lemma process_window_update_keeps [keeps_intro]:
  assumes "ctx_inv c"
  shows "keeps ctx_inv (process_window_update d f payload c)"
proof -
  have inv: "conn_inv (sc_state c)" using assms by (rule ctx_inv_conn)
  have "keeps ctx_inv (window_update_connection inc c)" if "0 \<le> inc" for inc
    using assms inv that
    by (auto simp: window_update_connection_def Let_def not_less intro!: ctx_inv_st conn_inv_capacity)
       (auto simp: conn_inv_def)
  moreover have "keeps ctx_inv (window_update_stream d sid inc c)" if "0 \<le> inc" for inc sid
  proof (cases "get_outgoing (sc_state c) sid")
    case (Some og)
    have "conn_inv (put_outgoing sid (og\<lparr>so_capacity := so_capacity og + inc\<rparr>) (sc_state c))"
      if "so_capacity og + inc \<le> MAX_WINDOW_SIZE"
      using conn_inv_outgoing[OF inv Some] that \<open>0 \<le> inc\<close>
      by (intro conn_inv_put_outgoing inv) (auto simp: window_ok_def)
    with Some assms show ?thesis
      by (auto simp: window_update_stream_def Let_def intro!: keeps_intro ctx_inv_st)
  qed (simp add: window_update_stream_def)
  ultimately show ?thesis
    by (auto simp: process_window_update_def split: result.split)
qed

text \<open>A change of the initial window size moves every window by the same amount. While the loop runs, the
  windows of the streams in \<open>T\<close> are still relative to the old size.\<close>

definition shifting_stream :: "int \<Rightarrow> conn_state \<Rightarrow> stream_id \<Rightarrow> stream_state \<Rightarrow> bool" where
  "shifting_stream delta s sid ss \<longleftrightarrow> \<not> is_server_initiated sid \<and> sid \<le> last_stream_id s \<and> ss \<noteq> Transition \<and>
     (\<forall>og. outgoing_of ss = Some og \<longrightarrow> so_capacity og \<le> MAX_WINDOW_SIZE \<and>
       uint (initial_window_size (peer_settings s)) - delta - 2 ^ 31 < so_capacity og) \<and>
     (\<forall>si. incoming_of ss = Some si \<longrightarrow> 0 \<le> si_capacity si \<and> si_capacity si < 2 ^ 32)"

definition shifting :: "int \<Rightarrow> stream_id set \<Rightarrow> conn_state \<Rightarrow> bool" where
  "shifting delta T s \<longleftrightarrow> distinct (map fst (cs_streams s)) \<and> length (cs_streams s) \<le> max_streams s \<and>
     (\<forall>sid ss. map_of (cs_streams s) sid = Some ss \<longrightarrow>
        shifting_stream (if sid \<in> T then delta else 0) s sid ss) \<and>
     0 \<le> outgoing_capacity s \<and> outgoing_capacity s \<le> MAX_WINDOW_SIZE \<and> settings_ok (peer_settings s)"

lemma shifting_done: "shifting delta {} s = conn_inv s" "shifting 0 T s = conn_inv s"
  by (simp_all add: shifting_def conn_inv_def stream_ok_def window_ok_def shifting_stream_def)

lemma shiftingD:
  assumes "shifting delta T s" and "map_of (cs_streams s) sid = Some ss"
  shows "shifting_stream (if sid \<in> T then delta else 0) s sid ss"
  using assms unfolding shifting_def by blast

lemma shifting_start:
  assumes "conn_inv s" and "settings_ok ps"
    and "delta = uint (initial_window_size ps) - uint (initial_window_size (peer_settings s))"
  shows "shifting delta (set (map fst (cs_streams s))) (s\<lparr>peer_settings := ps\<rparr>)"
proof -
  have "shifting_stream (if sid \<in> set (map fst (cs_streams s)) then delta else 0) (s\<lparr>peer_settings := ps\<rparr>) sid ss"
    if "map_of (cs_streams s) sid = Some ss" for sid ss
    using conn_inv_stream[OF assms(1) that] map_of_SomeD[OF that] assms(3)
    by (force simp: stream_ok_def window_ok_def shifting_stream_def)
  with assms(1,2) show ?thesis by (simp add: shifting_def conn_inv_def max_streams_def)
qed

lemma shifting_skip:
  assumes "shifting delta (insert sid T) s" and "get_outgoing s sid = None"
  shows "shifting delta T s"
proof -
  have "shifting_stream (if k \<in> T then delta else 0) s k ss" if "map_of (cs_streams s) k = Some ss" for k ss
  proof (cases "k = sid")
    case True
    then have "outgoing_of ss = None" using assms(2) that by (simp add: get_outgoing_def)
    moreover have "shifting_stream delta s k ss"
      using shiftingD[OF assms(1) that] True by simp
    ultimately show ?thesis by (simp add: shifting_stream_def)
  next
    case False
    with shiftingD[OF assms(1) that] show ?thesis by simp
  qed
  with assms(1) show ?thesis by (simp add: shifting_def del: map_of_eq_Some_iff)
qed

lemma shifting_step:
  assumes "shifting delta (insert sid T) s" and "sid \<notin> T" and "get_outgoing s sid = Some og"
    and "so_capacity og + delta \<le> MAX_WINDOW_SIZE"
  shows "shifting delta T (put_outgoing sid (og\<lparr>so_capacity := so_capacity og + delta\<rparr>) s)"
proof -
  obtain ss where ss: "map_of (cs_streams s) sid = Some ss" "outgoing_of ss = Some og"
    using assms(3) by (rule get_outgoing_stream)
  let ?ss = "set_outgoing ss (og\<lparr>so_capacity := so_capacity og + delta\<rparr>)"
  have put: "put_outgoing sid (og\<lparr>so_capacity := so_capacity og + delta\<rparr>) s = set_stream sid ?ss s"
    using ss by (simp add: put_outgoing_def)
  note shifted = shiftingD[OF assms(1)]
  have "shifting_stream 0 s sid ?ss"
    using shifted[OF ss(1)] ss(2) assms(4) by (cases ss) (auto simp: shifting_stream_def)
  moreover have "shifting_stream dl (set_stream sid ?ss s) k x = shifting_stream dl s k x" for dl k x
    by (simp add: shifting_stream_def conn_simps)
  ultimately have streams: "shifting_stream (if k \<in> T then delta else 0) (set_stream sid ?ss s) k x"
    if "map_of (cs_streams (set_stream sid ?ss s)) k = Some x" for k x
    using shifted[of k x] assms(2) that by (cases "k = sid") (simp_all add: set_stream_simps del: map_of_eq_Some_iff)
  have "distinct (map fst (cs_streams (set_stream sid ?ss s)))"
    using assms(1) by (auto simp: shifting_def set_stream_def intro: AList.distinct_update)
  moreover have "length (cs_streams (set_stream sid ?ss s)) = length (cs_streams s)"
    using ss by (simp add: length_set_stream)
  moreover have "max_streams (set_stream sid ?ss s) = max_streams s" by (simp add: max_streams_def conn_simps)
  ultimately show ?thesis
    unfolding put shifting_def using assms(1) streams
    by (simp add: shifting_def set_stream_simps del: map_of_eq_Some_iff fun_upd_apply)
qed

lemma shift_windows_inv:
  assumes "shift_windows delta sids s b = (Ok b', s')" and "shifting delta (set sids) s" and "distinct sids"
  shows "conn_inv s'"
  using assms
proof (induction delta sids s b rule: shift_windows.induct)
  case (1 delta s b)
  then show ?case by (simp add: shifting_done)
next
  case (2 delta sid sids s b)
  show ?case
  proof (cases "get_outgoing s sid")
    case None
    with 2 show ?thesis by (simp add: shifting_skip)
  next
    case (Some og)
    with 2 show ?thesis by (simp add: Let_def shifting_step split: if_splits)
  qed
qed

lemma on_setting_inv:
  assumes "settings_ok (fst se) \<and> enc_inv (snd se) \<and> enc_names_inv (snd se)"
  shows "settings_ok (fst (snd (on_setting se code v))) \<and> enc_inv (snd (snd (on_setting se code v))) \<and>
    enc_names_inv (snd (snd (on_setting se code v)))"
  using assms settings_apply_ok[of "fst se" code v] enc_names_inv_set_max[of "snd se" "unat v"]
  by (auto simp: on_setting_def split: prod.split result.split setting.split)

lemma on_settings_inv:
  assumes "settings_ok (fst se) \<and> enc_inv (snd se) \<and> enc_names_inv (snd se)"
  shows "let se' = snd (settings_parse payload on_setting se) in
    settings_ok (fst se') \<and> enc_inv (snd se') \<and> enc_names_inv (snd se')"
  using settings_parse_chunks_inv[of "\<lambda>se. settings_ok (fst se) \<and> enc_inv (snd se) \<and> enc_names_inv (snd se)"
      on_setting se payload] on_setting_inv assms
  by (auto simp: settings_parse_def Let_def)

lemma apply_initial_window_inv:
  assumes "conn_inv s" and "settings_ok ps" and "\<And>xs. mset (d_order d xs) = mset xs"
    and "apply_initial_window d (initial_window_size (peer_settings s)) (s\<lparr>peer_settings := ps\<rparr>) = (Ok b, s')"
  shows "conn_inv s'"
proof -
  let ?keys = "d_order d (map fst (cs_streams s))"
  let ?delta = "uint (initial_window_size ps) - uint (initial_window_size (peer_settings s))"
  have keys: "distinct ?keys" "set ?keys = set (map fst (cs_streams s))"
    using mset_eq_imp_distinct_iff[OF assms(3)[of "map fst (cs_streams s)"]]
      mset_eq_setD[OF assms(3)[of "map fst (cs_streams s)"]] assms(1)
    by (auto simp only: conn_inv_def)
  show ?thesis
  proof (cases "?delta = 0")
    case True
    with shifting_start[OF assms(1,2), of 0] assms(4) show ?thesis
      by (auto simp: shifting_done apply_initial_window_def)
  next
    case False
    with assms(4) shift_windows_inv[of ?delta ?keys "s\<lparr>peer_settings := ps\<rparr>" False b s'] keys
      shifting_start[OF assms(1,2), of ?delta]
    show ?thesis by (simp add: apply_initial_window_def)
  qed
qed

lemma apply_settings_keeps [keeps_intro]:
  assumes "ctx_inv c" and "\<And>xs. mset (d_order d xs) = mset xs"
  shows "keeps ctx_inv (apply_settings d payload c)"
proof -
  let ?s = "sc_state c"
  obtain r ps enc where p: "settings_parse payload on_setting (peer_settings ?s, sc_hpack_enc c) = (r, ps, enc)"
    by (cases "settings_parse payload on_setting (peer_settings ?s, sc_hpack_enc c)")
  have "settings_ok (peer_settings ?s)" "enc_inv (sc_hpack_enc c)" "enc_names_inv (sc_hpack_enc c)"
    using assms(1) by (auto simp: ctx_inv_def conn_inv_def)
  then have ok: "settings_ok ps \<and> enc_inv enc \<and> enc_names_inv enc"
    using on_settings_inv[of "(peer_settings ?s, sc_hpack_enc c)" payload] by (simp add: p)
  obtain sr s' where sh: "apply_initial_window d (initial_window_size (peer_settings ?s)) (?s\<lparr>peer_settings := ps\<rparr>) = (sr, s')"
    by (rule prod.exhaust)
  have "ctx_inv (c\<lparr>sc_hpack_enc := enc, sc_state := s'\<rparr>)" if "sr = Ok b" for b
    using apply_initial_window_inv[OF ctx_inv_conn[OF assms(1)] _ assms(2), of ps b s'] sh that assms(1) ok
    by (simp add: ctx_inv_def)
  then have "keeps ctx_inv (write_frame d f [] (c\<lparr>sc_hpack_enc := enc, sc_state := s'\<rparr>))" if "sr = Ok b" for b f
    using that by (intro write_frame_keeps)
  then have "keeps ctx_inv (bind_st (write_frame d f [] (c\<lparr>sc_hpack_enc := enc, sc_state := s'\<rparr>))
      (\<lambda>_ c. (Ok (), if b then st_upd notify_one c else c)))" if "sr = Ok b" for b f
    using that by (intro keeps_bind[where I = ctx_inv]) (simp_all add: ctx_inv_st ctx_inv_conn)
  then show ?thesis
    by (cases r; cases sr) (simp_all add: apply_settings_def Let_def p sh)
qed

lemma process_settings_keeps [keeps_intro]:
  "ctx_inv c \<Longrightarrow> (\<And>xs. mset (d_order d xs) = mset xs) \<Longrightarrow> keeps ctx_inv (process_settings d f flags payload c)"
  by (auto simp: process_settings_def intro: apply_settings_keeps)

subsection \<open>Header blocks\<close>

text \<open>The state in which \<open>read_headers\<close> is called: for headers, the stream is new and there is room for it.\<close>

definition may_accept :: "headers_or_trailers \<Rightarrow> read_headers_mode \<Rightarrow> stream_id \<Rightarrow> conn_state \<Rightarrow> bool" where
  "may_accept kind mode sid s \<longleftrightarrow> (kind = IsHeaders \<and> mode = Process \<longrightarrow>
     \<not> is_server_initiated sid \<and> last_stream_id s = sid \<and> map_of (cs_streams s) sid = None \<and>
     length (cs_streams s) < max_streams s)"

lemma conn_inv_last_stream_id:
  assumes "conn_inv s" and "last_stream_id s \<le> sid"
  shows "conn_inv (s\<lparr>last_stream_id := sid\<rparr>)"
proof -
  have "stream_ok (s\<lparr>last_stream_id := sid\<rparr>) k ss" if "stream_ok s k ss" for k ss
    using that assms(2) by (auto simp: stream_ok_def window_ok_def)
  with assms(1) show ?thesis by (auto simp: conn_inv_def max_streams_def)
qed

lemma classify_headers_keeps:
  assumes "ctx_inv c" and "classify_headers d f flags c = (Ok (kind, mode), c')"
  shows "ctx_inv c' \<and> may_accept kind mode (fstream_id f) (sc_state c')"
proof (cases "map_of (cs_streams (sc_state c)) (fstream_id f)")
  case None
  let ?sid = "fstream_id f" and ?s = "sc_state c"
  have room: "may_accept IsHeaders Process ?sid (?s\<lparr>last_stream_id := ?sid\<rparr>)"
    if "\<not> is_server_initiated ?sid" "length (cs_streams ?s) < max_streams ?s"
    using that None by (simp add: may_accept_def max_streams_def)
  show ?thesis
  proof (cases "max_streams ?s < length (cs_streams ?s) + 1")
    case True
    with assms(2) None obtain v where v: "rst d ?sid StreamRefused c = (Ok v, c')" "mode = Skip"
      by (auto simp: classify_headers_def Let_def max_streams_def result_simps split: if_splits option.splits)
    with keepsD[OF rst_keeps[OF assms(1)] v(1)] show ?thesis by (simp add: may_accept_def)
  next
    case False
    with assms(2) None have c': "c' = st_upd (\<lambda>s. s\<lparr>last_stream_id := ?sid\<rparr>) c" "kind = IsHeaders" "mode = Process"
        "\<not> is_server_initiated ?sid" "last_stream_id ?s \<le> ?sid"
      by (auto simp: classify_headers_def Let_def max_streams_def split: if_splits option.splits)
    with room False conn_inv_last_stream_id[OF ctx_inv_conn[OF assms(1)] c'(5)] assms(1)
    show ?thesis by (auto intro!: ctx_inv_st)
  qed
next
  case (Some ss)
  with assms(2) keepsD[OF rst_keeps[OF assms(1)]] assms(1) show ?thesis
    by (auto simp: classify_headers_def may_accept_def Let_def result_simps split: stream_state.splits if_splits)
qed

lemma uint_u32_less: "uint (x :: u32) < 2 ^ 32"
proof -
  have "int (unat x) < int 4294967296" using unat_u32_less[of x] by (simp only: of_nat_less_iff)
  then show ?thesis by simp
qed

lemma accept_stream_inv:
  assumes "ctx_inv c" and "may_accept IsHeaders Process sid (sc_state c)"
  shows "ctx_inv (accept_stream d sid end_stream req clen c)"
proof -
  let ?s = "sc_state c"
  have "window_ok ?s (so_capacity (mk_stream_outgoing ?s))"
    using assms(1) by (intro window_ok_initial) (simp add: ctx_inv_def conn_inv_def)
  moreover have "uint (initial_window_size (self_settings ?s)) < 2 ^ 32" by (rule uint_u32_less)
  ultimately have "stream_ok ?s sid (if end_stream then HalfClosedRemote (mk_stream_outgoing ?s)
      else Open (stream_incoming_new (initial_window_size (self_settings ?s)) clen ch) (mk_stream_outgoing ?s))" for ch
    using assms(2) by (auto simp: stream_ok_def may_accept_def stream_incoming_new_def)
  with assms have "conn_inv (set_stream sid (if end_stream then HalfClosedRemote (mk_stream_outgoing ?s)
      else Open (stream_incoming_new (initial_window_size (self_settings ?s)) clen ch) (mk_stream_outgoing ?s)) ?s)" for ch
    by (intro conn_inv_set_stream) (auto simp: may_accept_def dest: ctx_inv_conn)
  with assms(1) show ?thesis by (simp add: accept_stream_def Let_def ctx_inv_def)
qed

lemma si_write_trailers_capacity: "si_write_trailers alive si ts = (r, si') \<Longrightarrow> si_capacity si' = si_capacity si"
  by (auto simp: si_write_trailers_def split: option.splits if_splits)

lemma accept_trailers_inv:
  assumes "ctx_inv c" and "accept_trailers d sid ts c = (r, c')"
  shows "r = Panic \<or> ctx_inv c' \<and> (\<forall>e. r \<noteq> Err (LevelRequest e))"
proof (cases "map_of (cs_streams (sc_state c)) sid")
  case (Some ss)
  show ?thesis
  proof (cases ss)
    case (Open si og)
    obtain res si' where w: "si_write_trailers (d_alive d) si ts = (res, si')" by (rule prod.exhaust)
    have ok: "stream_ok (sc_state c) sid (Open si og)" using conn_inv_stream[OF ctx_inv_conn[OF assms(1)]] Some Open by simp
    then have "stream_ok (sc_state c) sid (HalfClosedRemote og)" "stream_ok (sc_state c) sid (Open si' og)"
      using si_write_trailers_capacity[OF w] by (auto simp: stream_ok_def)
    then have "conn_inv (set_stream sid (HalfClosedRemote og) (sc_state c))" "conn_inv (set_stream sid (Open si' og) (sc_state c))"
      using Some by (auto intro!: conn_inv_set_stream ctx_inv_conn assms)
    with assms Some Open w show ?thesis
      by (auto simp: accept_trailers_def intro!: ctx_inv_st split: result.splits)
  qed (use assms Some in \<open>auto simp: accept_trailers_def\<close>)
qed (use assms in \<open>auto simp: accept_trailers_def\<close>)

lemma read_headers_inv:
  assumes "ctx_inv c" and "may_accept kind mode sid (sc_state c)"
    and "read_headers d kind mode flags sid payload (rx, c) = (r, rx', c')"
  shows "r = Panic \<or> ctx_inv c' \<and>
    (\<forall>e. r = Err (LevelRequest e) \<longrightarrow> may_accept IsHeaders Process sid (sc_state c'))"
proof -
  obtain hr rx1 where h: "header_fragments flags sid payload rx = (hr, rx1)" by (rule prod.exhaust)
  show ?thesis
  proof (cases "\<exists>block. hr = Ok block \<and> mode = Process")
    case False
    with assms h show ?thesis
      by (cases hr; cases mode) (auto simp: read_headers_def)
  next
    case True
    then obtain block where block: "hr = Ok block" "mode = Process" by blast
    obtain dr dec fb where dec: "decode_with_cb (sc_hpack_dec c) block (on_header_pair (d_http d) kind)
        (field_block_new (d_http d)) = (dr, dec, fb)" by (rule prod_cases3)
    let ?c = "c\<lparr>sc_hpack_dec := dec\<rparr>"
    have "dec_inv dec"
      using decode_loop_inv[OF dec[unfolded decode_with_cb_def]] assms(1) by (simp add: ctx_inv_def)
    then have c: "ctx_inv ?c" using assms(1) by (simp add: ctx_inv_def)
    show ?thesis
    proof (cases kind)
      case IsHeaders
      then have "ctx_inv (accept_stream d sid es req clen ?c)" for es req clen
        using accept_stream_inv[OF c] assms(2) block(2) by simp
      with c assms(2,3) h block dec IsHeaders show ?thesis
        by (auto simp: read_headers_def Let_def split: if_splits result.splits option.splits)
    next
      case IsTrailers
      with c assms(3) h block dec accept_trailers_inv[OF c, of d sid "fb_headers fb"] show ?thesis
        by (auto simp: read_headers_def Let_def split: if_splits result.splits option.splits prod.splits)
    qed
  qed
qed

lemma answer_rejected_inv:
  assumes "ctx_inv c" and "may_accept IsHeaders Process sid (sc_state c)"
    and "answer_rejected d sid e c = Some (Ok (), c')"
  shows "ctx_inv c'"
proof -
  let ?s = "set_stream sid (HalfClosedRemote (mk_stream_outgoing (sc_state c))) (sc_state c)"
  have "settings_ok (peer_settings (sc_state c))" using assms(1) by (simp add: ctx_inv_def conn_inv_def)
  then have "conn_inv ?s"
    using window_ok_initial[of "sc_state c"] assms(2)
    by (intro conn_inv_set_stream ctx_inv_conn assms) (auto simp: stream_ok_def may_accept_def)
  moreover have "last_stream_id ?s = sid" using assms(2) by (simp add: may_accept_def conn_simps)
  ultimately have "conn_inv (?s\<lparr>last_stream_id := sid\<rparr>)" by (intro conn_inv_last_stream_id) simp_all
  with assms(1,3) show ?thesis
    by (auto simp: answer_rejected_def Let_def ctx_inv_def
        split: option.splits if_splits result.splits responder_or_body_error.splits)
qed

lemma process_headers_inv:
  assumes "ctx_inv c" and "process_headers d f flags payload (rx, c) = Some (Ok (), rx', c')"
  shows "ctx_inv c'"
proof -
  from assms(2) obtain payload' where sp: "strip_priority d f flags payload = Ok payload'"
    by (auto simp: process_headers_def Let_def split: result.splits)
  with assms(2) obtain kind mode c1 where cl: "classify_headers d f flags c = (Ok (kind, mode), c1)"
    by (auto simp: process_headers_def Let_def split: result.splits prod.splits)
  note inv1 = classify_headers_keeps[OF assms(1) cl]
  obtain r rx2 c2 where rh: "read_headers d kind mode flags (fstream_id f) payload' (rx, c1) = (r, rx2, c2)"
    by (rule prod_cases3)
  note inv2 = read_headers_inv[OF conjunct1[OF inv1] conjunct2[OF inv1] rh]
  show ?thesis
  proof (cases r)
    case (Ok u)
    with assms(2) sp cl rh inv2 show ?thesis by (simp add: process_headers_def)
  next
    case (Err e)
    with inv2 have c2: "ctx_inv c2" by simp
    with Err assms(2) sp cl rh inv2 keepsD[OF rst_keeps[OF c2]] answer_rejected_inv[OF c2] show ?thesis
      by (cases e) (auto simp: process_headers_def split: prod.splits)
  next
    case Panic
    with assms(2) sp cl rh show ?thesis by (simp add: process_headers_def)
  qed
qed

lemma process_frame_inv:
  assumes "ctx_inv c" and "\<And>xs. mset (d_order d xs) = mset xs"
    and "process_frame d f payload (rx, c) = Some (Ok (), rx', c')"
  shows "ctx_inv c'"
proof (cases "ftype f")
  case (Headers flags)
  with assms process_headers_inv show ?thesis by (simp add: process_frame_def) blast
qed (use assms in \<open>auto simp: process_frame_def Let_def split: prod.splits if_splits
      intro: keepsD[OF process_data_keeps] keepsD[OF process_priority_keeps] keepsD[OF process_rst_stream_keeps]
        keepsD[OF process_settings_keeps] keepsD[OF process_ping_keeps] keepsD[OF process_window_update_keeps]\<close>)

lemma conn_step_inv:
  assumes "conn_step d st st'" and "\<And>xs. mset (d_order d xs) = mset xs" and "ctx_inv (snd st)"
  shows "ctx_inv (snd st')"
  using assms
proof (induction rule: conn_step.induct)
  case (step_frame f payload rx c st)
  then show ?case using process_frame_inv[of c d f payload rx] by (cases st) auto
next
  case (step_event c ev q c' rx)
  then show ?case using keepsD[OF handle_event_keeps[of "c\<lparr>ev_queue := q\<rparr>" d ev] step_event(2)] by simp
next
  case (step_notified c c' rx)
  then show ?case
    using send_data_maybe_inv[of "st_upd (\<lambda>s. s\<lparr>send_data_notified := False\<rparr>) c" d c'] by (simp add: ctx_inv_st ctx_inv_conn)
qed simp

lemma serve_context_inv: "ctx_inv (serve_context m w)"
proof -
  have "conn_inv (conn_state_default\<lparr>self_settings := x\<rparr>)" for x
    using settings_default_ok
    by (simp add: conn_inv_def conn_state_default_def MAX_WINDOW_SIZE_def max_streams_def)
       (simp add: settings_default_def)
  moreover have "dec_inv (set_max_allowed_table_size decoder_new (unat (header_table_size settings_default)))"
    using dec_inv_decoder_new
    by (simp add: dec_inv_def set_max_allowed_table_size_def decoder_new_def dec_with_static_table_def
        with_static_table_def dynamic_table_new_def with_size_def settings_default_def)
  moreover have "enc_names_inv encoder_new"
    by (simp add: enc_names_inv_def encoder_new_def with_static_table_def dynamic_table_new_def with_size_def)
  ultimately show ?thesis by (simp add: ctx_inv_def serve_context_def server_context_new_def)
qed

lemma reachable_inv:
  assumes "(conn_step d)\<^sup>*\<^sup>* (rx, serve_context m w) st" and "\<And>xs. mset (d_order d xs) = mset xs"
  shows "ctx_inv (snd st)"
  using assms(1)
  by (induction rule: rtranclp_induct) (auto simp: serve_context_inv intro: conn_step_inv[OF _ assms(2)])



end
