(* ===== verification/H2_Lifecycle.thy ===== *)
theory H2_Lifecycle
  imports H2_Server
begin

text \<open>
  The life of a stream: an abstract state machine with the states of RFC 9113, section 5.1, that a client's
  streams go through, and the proof that the connection refines it. A stream that is not stored is idle when its
  identifier is above the last one seen and closed otherwise. Every turn of the loop moves every stream
  forwards or leaves it; in particular no stream is opened twice.
\<close>

datatype phase = Idle | PhaseOpen | PhaseHalfClosedRemote | PhaseHalfClosedLocal | PhaseClosed

inductive phase_step :: "phase \<Rightarrow> phase \<Rightarrow> bool" where
  recv_headers: "phase_step Idle PhaseOpen"
| recv_headers_end: "phase_step PhaseOpen PhaseHalfClosedRemote"
| send_end: "phase_step PhaseOpen PhaseHalfClosedLocal"
| close_remote: "phase_step PhaseHalfClosedRemote PhaseClosed"
| close_local: "phase_step PhaseHalfClosedLocal PhaseClosed"

text \<open>Any number of these steps, as a function.\<close>

fun phase_le :: "phase \<Rightarrow> phase \<Rightarrow> bool" where
  "phase_le Idle _ = True"
| "phase_le PhaseOpen q = (q \<noteq> Idle)"
| "phase_le PhaseHalfClosedRemote q = (q \<in> {PhaseHalfClosedRemote, PhaseClosed})"
| "phase_le PhaseHalfClosedLocal q = (q \<in> {PhaseHalfClosedLocal, PhaseClosed})"
| "phase_le PhaseClosed q = (q = PhaseClosed)"

lemma phase_le_refl [simp]: "phase_le p p"
  by (cases p) auto

lemma phase_le_trans: "phase_le p q \<Longrightarrow> phase_le q r \<Longrightarrow> phase_le p r"
  by (cases p; cases q; cases r) auto

lemma phase_le_Closed [simp]: "phase_le p PhaseClosed"
  by (cases p) auto

lemma phase_le_steps: "phase_step\<^sup>*\<^sup>* p q \<longleftrightarrow> phase_le p q"
proof
  assume "phase_step\<^sup>*\<^sup>* p q"
  then show "phase_le p q"
    by (induction rule: rtranclp_induct) (auto elim!: phase_step.cases intro: phase_le_trans)
next
  have io: "phase_step\<^sup>*\<^sup>* Idle PhaseOpen" and oh: "phase_step\<^sup>*\<^sup>* PhaseOpen PhaseHalfClosedRemote"
    and ol: "phase_step\<^sup>*\<^sup>* PhaseOpen PhaseHalfClosedLocal" and hc: "phase_step\<^sup>*\<^sup>* PhaseHalfClosedRemote PhaseClosed"
    and lc: "phase_step\<^sup>*\<^sup>* PhaseHalfClosedLocal PhaseClosed"
    by (blast intro: phase_step.intros)+
  have "phase_step\<^sup>*\<^sup>* Idle PhaseHalfClosedRemote" "phase_step\<^sup>*\<^sup>* Idle PhaseHalfClosedLocal"
    "phase_step\<^sup>*\<^sup>* PhaseOpen PhaseClosed"
    using rtranclp_trans[OF io oh] rtranclp_trans[OF io ol] rtranclp_trans[OF oh hc] by simp_all
  moreover from this(3) have "phase_step\<^sup>*\<^sup>* Idle PhaseClosed" using rtranclp_trans[OF io] by simp
  moreover assume "phase_le p q"
  ultimately show "phase_step\<^sup>*\<^sup>* p q" using io oh ol hc lc by (cases p; cases q) auto
qed

fun phase_of :: "stream_state \<Rightarrow> phase" where
  "phase_of (Open _ _) = PhaseOpen"
| "phase_of (HalfClosedRemote _) = PhaseHalfClosedRemote"
| "phase_of (HalfClosedLocal _) = PhaseHalfClosedLocal"
| "phase_of Transition = PhaseClosed"

definition stream_phase :: "conn_state \<Rightarrow> stream_id \<Rightarrow> phase" where
  "stream_phase s sid =
     (case map_of (cs_streams s) sid of
        Some ss \<Rightarrow> phase_of ss
      | None \<Rightarrow> if sid \<le> last_stream_id s then PhaseClosed else Idle)"

definition advances :: "conn_state \<Rightarrow> conn_state \<Rightarrow> bool" where
  "advances s s' \<longleftrightarrow> (\<forall>sid. phase_le (stream_phase s sid) (stream_phase s' sid))"

lemma advances_refl [simp]: "advances s s"
  by (simp add: advances_def)

lemma advances_trans: "advances s t \<Longrightarrow> advances t u \<Longrightarrow> advances s u"
  unfolding advances_def using phase_le_trans by blast

lemma advances_same:
  assumes "map_of (cs_streams s') = map_of (cs_streams s)" and "last_stream_id s' = last_stream_id s"
  shows "advances s0 s' = advances s0 s"
  using assms by (simp add: advances_def stream_phase_def)

lemma phase_set_stream:
  "stream_phase (set_stream sid ss s) k = (if k = sid then phase_of ss else stream_phase s k)"
  by (simp add: stream_phase_def conn_simps)

lemma advances_set_stream:
  assumes "phase_le (stream_phase s sid) (phase_of ss)"
  shows "advances s (set_stream sid ss s)"
  using assms by (auto simp: advances_def phase_set_stream)

lemma advances_remove_stream:
  assumes "conn_inv s"
  shows "advances s (remove_stream sid s)"
proof -
  have "sid \<le> last_stream_id s" if "map_of (cs_streams s) sid = Some ss" for ss
    using conn_inv_stream[OF assms that] by (simp add: stream_ok_def)
  then show ?thesis
    by (auto simp: advances_def stream_phase_def conn_simps simp del: map_of_eq_Some_iff split: option.split)
qed

lemma advances_last: "last_stream_id s \<le> sid \<Longrightarrow> advances s (s\<lparr>last_stream_id := sid\<rparr>)"
  by (auto simp: advances_def stream_phase_def split: option.split)

lemma phase_of_set [simp]: "phase_of (set_outgoing ss og) = phase_of ss" "phase_of (set_incoming ss si) = phase_of ss"
  by (cases ss; simp)+

lemma phase_put_outgoing [simp]: "stream_phase (put_outgoing sid og s) k = stream_phase s k"
  by (auto simp: put_outgoing_def stream_phase_def conn_simps split: option.split)

lemma phase_updates [simp]:
  "stream_phase (add_pending sid s) k = stream_phase s k" "stream_phase (remove_pending sid s) k = stream_phase s k"
  "stream_phase (notify_one s) k = stream_phase s k" "stream_phase (s\<lparr>send_data_notified := b\<rparr>) k = stream_phase s k"
  "stream_phase (s\<lparr>outgoing_capacity := x\<rparr>) k = stream_phase s k" "stream_phase (s\<lparr>peer_settings := ps\<rparr>) k = stream_phase s k"
  by (simp_all add: stream_phase_def conn_simps)

lemma advances_phase: "(\<And>k. stream_phase s' k = stream_phase s k) \<Longrightarrow> advances s s'"
  by (simp add: advances_def)

lemma phase_stored: "map_of (cs_streams s) sid = Some ss \<Longrightarrow> stream_phase s sid = phase_of ss"
  by (simp add: stream_phase_def)

section \<open>Every call moves streams forwards\<close>

definition forwards :: "'w server_context \<Rightarrow> ('a, 'e) result \<times> 'w server_context \<Rightarrow> bool" where
  "forwards c p \<longleftrightarrow> keeps (\<lambda>c'. advances (sc_state c) (sc_state c')) p"

lemma forwards_simps [simp]:
  "forwards c (Ok v, c') = advances (sc_state c) (sc_state c')" "forwards c (Err e, c')" "forwards c (Panic, c')"
  by (simp_all add: forwards_def)

lemma forwardsD: "forwards c p \<Longrightarrow> p = (Ok v, c') \<Longrightarrow> advances (sc_state c) (sc_state c')"
  by (simp add: forwards_def keeps_def)

lemma forwards_from: "advances (sc_state c) (sc_state c1) \<Longrightarrow> forwards c1 p \<Longrightarrow> forwards c p"
  by (auto simp: forwards_def keeps_def split: prod.splits result.splits intro: advances_trans)

lemma forwards_bind:
  assumes "forwards c p" and "\<And>v c'. p = (Ok v, c') \<Longrightarrow> forwards c' (f v c')"
  shows "forwards c (bind_st p f)"
proof (cases p)
  case (Pair r c')
  with assms show ?thesis by (cases r) (auto intro: forwards_from)
qed

lemma write_frame_state_advances:
  assumes "conn_inv s" and "write_frame_state f payload s = Ok s'"
  shows "advances s s'"
proof (cases "ftype f")
  case (Data flags)
  let ?sid = "fstream_id f" and ?n = "as_frame_len payload"
  from assms(2) Data obtain ss og where ss: "map_of (cs_streams s) ?sid = Some ss" "outgoing_of ss = Some og"
    and caps: "0 \<le> so_capacity og - int ?n" "0 \<le> outgoing_capacity s - int ?n" "?n < 2 ^ 32"
    by (auto simp: write_frame_state_def Let_def split: option.splits if_splits)
  have last: "?sid \<le> last_stream_id s" using conn_inv_stream[OF assms(1) ss(1)] by (simp add: stream_ok_def)
  have ph: "stream_phase s ?sid = phase_of ss" using phase_stored[OF ss(1)] .
  show ?thesis
    using assms(2) Data ss caps last ph
    by (cases ss)
       (auto simp: write_frame_state_def Let_def advances_def stream_phase_def conn_simps split: if_splits)
qed (use assms in \<open>simp_all add: write_frame_state_def\<close>)

lemma write_frame_forwards:
  assumes "ctx_inv c"
  shows "forwards c (write_frame d f payload c)"
  using write_frame_state_advances[OF ctx_inv_conn[OF assms], of f payload]
  by (auto simp: write_frame_def Let_def forwards_def keeps_def split: result.splits prod.splits if_splits)

lemma write_frames_forwards: "ctx_inv c \<Longrightarrow> forwards c (write_frames d fs c)"
proof (induction d fs c rule: write_frames.induct)
  case (2 d f plist fs c)
  then show ?case
    using keepsD[OF write_frame_keeps[OF "2.prems"]]
    by (auto intro!: forwards_bind write_frame_forwards)
qed simp

lemma rst_forwards:
  assumes "ctx_inv c"
  shows "forwards c (rst d sid e c)"
proof -
  have "advances (sc_state c) (sc_state (drop_stream sid c))"
    using advances_remove_stream[OF ctx_inv_conn[OF assms]] by (simp add: drop_stream_def)
  moreover have "forwards (drop_stream sid c) (write_frames d fs (drop_stream sid c))" for fs
    using write_frames_forwards ctx_inv_drop_stream[OF assms] by blast
  ultimately have "forwards c (write_frames d fs (drop_stream sid c))" for fs by (rule forwards_from)
  moreover have "c\<lparr>out_scratch := out_scratch c\<rparr> = c" for c :: "'a server_context" by simp
  ultimately show ?thesis
    by (auto simp: rst_def Let_def dest!: rst_payload_scratch split: prod.split result.split)
qed

lemma queue_streams_phase:
  assumes "queue_streams mf sids s fs np = Some (Ok (s', fs', np'))"
  shows "stream_phase s' k = stream_phase s k"
  using assms
proof (induction sids arbitrary: s fs np)
  case (Cons sid sids)
  from Cons.prems show ?case
  proof (cases rule: queue_streams_ConsE)
    case (queued og headers body fs'')
    then show ?thesis using Cons.IH[OF queued(2)] by simp
  qed (use Cons.IH in auto)
qed simp

lemma fold_remove_pending_phase [simp]: "stream_phase (fold remove_pending np s) k = stream_phase s k"
  by (induction np arbitrary: s) auto

lemma send_data_maybe_forwards:
  assumes "ctx_inv c" and "send_data_maybe d c = Some (Ok (), c')"
  shows "advances (sc_state c) (sc_state c')"
proof -
  from assms(2) obtain s fs np where q: "queue_streams (unat (max_frame_size (peer_settings (sc_state c))))
      (d_order d (streams_with_pending_data (sc_state c))) (sc_state c) [] [] = Some (Ok (s, fs, np))"
    and w: "bind_st (write_frames d fs (c\<lparr>sc_state := s\<rparr>)) (\<lambda>_ c.
      (Ok (), st_upd (\<lambda>s. fold remove_pending np s) c)) = (Ok (), c')"
    by (auto simp: send_data_maybe_def Let_def split: option.splits result.splits)
  let ?c = "c\<lparr>sc_state := s\<rparr>"
  have "ctx_inv ?c" using queue_streams_inv[OF ctx_inv_conn[OF assms(1)] q] assms(1) by (intro ctx_inv_st)
  from write_frames_forwards[OF this] have "forwards ?c (bind_st (write_frames d fs ?c) (\<lambda>_ c.
      (Ok (), st_upd (\<lambda>s. fold remove_pending np s) c)))"
    by (rule forwards_bind) (simp add: advances_def)
  moreover have "advances (sc_state c) (sc_state ?c)"
    using queue_streams_phase[OF q] by (simp add: advances_def)
  ultimately have "forwards c (Ok () :: (unit, h2_connection_error) result, c')"
    unfolding w by (rule forwards_from[rotated])
  then show ?thesis by simp
qed

lemma worth_revisiting_phase [simp]: "stream_phase (worth_revisiting og s) k = stream_phase s k"
  by (simp add: worth_revisiting_def)

lemma handle_event_forwards:
  "handle_event d ev c = (Ok (), c') \<Longrightarrow> stream_phase (sc_state c') k = stream_phase (sc_state c) k"
proof (cases "ev_payload ev")
  case (EvHeaders res)
  then show "handle_event d ev c = (Ok (), c') \<Longrightarrow> stream_phase (sc_state c') k = stream_phase (sc_state c) k"
    by (auto simp: handle_event_def Let_def split: option.splits if_splits prod.splits result.splits)
next
  case (EvBodyChunk chunk)
  then show "handle_event d ev c = (Ok (), c') \<Longrightarrow> stream_phase (sc_state c') k = stream_phase (sc_state c) k"
    by (auto simp: handle_event_def Let_def split: option.splits result.splits)
next
  case EvBodyEnd
  then show "handle_event d ev c = (Ok (), c') \<Longrightarrow> stream_phase (sc_state c') k = stream_phase (sc_state c) k"
    by (auto simp: handle_event_def Let_def split: option.splits body_outgoing.splits if_splits)
qed

lemma end_incoming_advances: "ctx_inv c \<Longrightarrow> advances (sc_state c) (sc_state (end_incoming sid c))"
  by (auto simp: end_incoming_def drop_stream_def phase_stored intro!: advances_set_stream advances_remove_stream
      dest: ctx_inv_conn split: option.split stream_state.split)

lemma process_data_forwards:
  assumes "ctx_inv c"
  shows "forwards c (process_data d f flags payload c)"
proof (cases "Option.bind (map_of (cs_streams (sc_state c)) (fstream_id f)) incoming_of")
  case None
  then show ?thesis
    using rst_forwards[OF assms]
    by (auto simp: process_data_def Let_def split: option.split stream_state.split)
next
  case (Some si)
  then obtain ss where ss: "map_of (cs_streams (sc_state c)) (fstream_id f) = Some ss" "incoming_of ss = Some si"
    by (auto simp: bind_eq_Some_conv)
  let ?cap = "si_capacity si - int (length payload)"
  obtain r si' where w: "si_write_chunk (d_alive d) (si\<lparr>si_capacity := ?cap\<rparr>) payload
      (if is_end_stream f then Last else NotLast) = (r, si')" by (rule prod.exhaust)
  let ?c = "st_upd (set_stream (fstream_id f) (set_incoming ss si')) c"
  have inv: "ctx_inv ?c" if "0 \<le> ?cap"
    using conn_inv_stream[OF ctx_inv_conn[OF assms] ss(1)] ss si_write_chunk_capacity[OF w] that
    by (intro ctx_inv_st conn_inv_set_stream ctx_inv_conn assms) (auto simp: stream_ok_def)
  have "advances (sc_state c) (sc_state ?c)"
    using phase_stored[OF ss(1)] by (auto intro!: advances_set_stream)
  from forwards_from[OF this rst_forwards[OF inv]] advances_trans[OF this end_incoming_advances[OF inv]] this
  show ?thesis
    using ss w by (auto simp: process_data_def Let_def split: result.split)
qed

text \<open>While a request is being accepted its stream is neither stored nor above the last identifier; what counts
  is where it started.\<close>

definition advances_others :: "stream_id \<Rightarrow> conn_state \<Rightarrow> conn_state \<Rightarrow> bool" where
  "advances_others sid s s' \<longleftrightarrow> (\<forall>k. k \<noteq> sid \<longrightarrow> phase_le (stream_phase s k) (stream_phase s' k))"

lemma advances_from_idle: "stream_phase s sid = Idle \<Longrightarrow> advances_others sid s s' \<Longrightarrow> advances s s'"
  unfolding advances_def advances_others_def by (metis phase_le.simps(1))

lemma advances_others_trans: "advances_others sid s t \<Longrightarrow> advances t u \<Longrightarrow> advances_others sid s u"
  unfolding advances_others_def advances_def using phase_le_trans by blast

lemma advances_others_set: "advances_others sid s s' \<Longrightarrow> advances_others sid s (set_stream sid ss s')"
  by (simp add: advances_others_def phase_set_stream)

lemma classify_headers_forwards:
  assumes "ctx_inv c" and "classify_headers d f flags c = (Ok (kind, mode), c')"
  shows "(if kind = IsHeaders \<and> mode = Process
    then stream_phase (sc_state c) (fstream_id f) = Idle \<and> advances_others (fstream_id f) (sc_state c) (sc_state c')
    else advances (sc_state c) (sc_state c'))"
proof (cases "map_of (cs_streams (sc_state c)) (fstream_id f)")
  case None
  let ?sid = "fstream_id f"
  have "advances (sc_state c) (sc_state c')" if "rst d ?sid StreamRefused c = (Ok (), c')"
    using rst_forwards[OF assms(1), of d ?sid StreamRefused] that by simp
  moreover have "stream_phase (sc_state c) ?sid = Idle" if "\<not> ?sid \<le> last_stream_id (sc_state c)"
    using None that by (simp add: stream_phase_def)
  moreover have "advances_others ?sid (sc_state c) ((sc_state c)\<lparr>last_stream_id := ?sid\<rparr>)"
    if "last_stream_id (sc_state c) \<le> ?sid"
    using advances_last[OF that] by (simp add: advances_def advances_others_def)
  ultimately show ?thesis
    using assms(2) None
    by (auto simp: classify_headers_def Let_def result_simps split: if_splits option.splits)
next
  case (Some ss)
  with assms(2) forwardsD[OF rst_forwards[OF assms(1)]] show ?thesis
    by (auto simp: classify_headers_def Let_def result_simps split: stream_state.splits if_splits)
qed

lemma read_headers_phase:
  assumes "read_headers d kind mode flags sid payload (rx, c) = (r, rx', c')" and "r \<noteq> Panic"
    and "kind = IsHeaders" and "k \<noteq> sid"
  shows "stream_phase (sc_state c') k = stream_phase (sc_state c) k"
  using assms
  by (auto simp: read_headers_def Let_def accept_stream_def phase_set_stream
      split: prod.splits result.splits if_splits option.splits)

lemma accept_trailers_advances:
  assumes "accept_trailers d sid ts c = (r, c')"
  shows "advances (sc_state c) (sc_state c') \<and> r \<noteq> Err (LevelRequest e)"
  using assms
  by (auto simp: accept_trailers_def phase_stored intro!: advances_set_stream
      split: option.splits stream_state.splits prod.splits result.splits)

lemma read_headers_forwards:
  assumes "read_headers d kind mode flags sid payload (rx, c) = (r, rx', c')"
    and "kind = IsTrailers \<or> mode = Skip"
  shows "advances (sc_state c) (sc_state c') \<and> r \<noteq> Err (LevelRequest e)"
  using assms accept_trailers_advances[of d sid _ "c\<lparr>sc_hpack_dec := _\<rparr>"]
  by (auto simp: read_headers_def Let_def split: prod.splits result.splits if_splits option.splits)

lemma answer_rejected_others:
  assumes "answer_rejected d sid e c = Some (Ok (), c')" and "last_stream_id (sc_state c) = sid"
  shows "advances_others sid (sc_state c) (sc_state c')"
proof -
  let ?s = "set_stream sid (HalfClosedRemote (mk_stream_outgoing (sc_state c))) (sc_state c)"
  have "sc_state c' = ?s\<lparr>last_stream_id := sid\<rparr>"
    using assms(1) by (auto simp: answer_rejected_def Let_def
        split: option.splits if_splits result.splits responder_or_body_error.splits)
  moreover have "?s\<lparr>last_stream_id := sid\<rparr> = ?s" using assms(2) by (simp add: set_stream_def)
  ultimately show ?thesis by (simp add: advances_others_def phase_set_stream)
qed

lemma process_headers_forwards:
  assumes "ctx_inv c" and "process_headers d f flags payload (rx, c) = Some (Ok (), rx', c')"
  shows "advances (sc_state c) (sc_state c')"
proof -
  let ?sid = "fstream_id f"
  from assms(2) obtain payload' where sp: "strip_priority d f flags payload = Ok payload'"
    by (auto simp: process_headers_def Let_def split: result.splits)
  with assms(2) obtain kind mode c1 where cl: "classify_headers d f flags c = (Ok (kind, mode), c1)"
    by (auto simp: process_headers_def Let_def split: result.splits prod.splits)
  note inv1 = classify_headers_keeps[OF assms(1) cl] and cf = classify_headers_forwards[OF assms(1) cl]
  obtain r rx2 c2 where rh: "read_headers d kind mode flags ?sid payload' (rx, c1) = (r, rx2, c2)"
    by (rule prod_cases3)
  note inv2 = read_headers_inv[OF conjunct1[OF inv1] conjunct2[OF inv1] rh]
  have r: "r \<noteq> Panic" using assms(2) sp cl rh by (auto simp: process_headers_def)
  with inv2 have c2: "ctx_inv c2" by simp
  have fin: "c' = c2 \<or> (\<exists>e. rst d ?sid e c2 = (Ok (), c')) \<or>
      (\<exists>e. r = Err (LevelRequest e) \<and> answer_rejected d ?sid e c2 = Some (Ok (), c'))"
    using assms(2) sp cl rh r
    by (cases r) (auto simp: process_headers_def Let_def split: h2_error_level.splits prod.splits)
  show ?thesis
  proof (cases "kind = IsHeaders \<and> mode = Process")
    case True
    with cf have idle: "stream_phase (sc_state c) ?sid = Idle" and "advances_others ?sid (sc_state c) (sc_state c1)"
      by simp_all
    with read_headers_phase[OF rh r] True have oth: "advances_others ?sid (sc_state c) (sc_state c2)"
      by (simp add: advances_others_def)
    have "advances_others ?sid (sc_state c) (sc_state c')"
      using fin
    proof (elim disjE exE conjE)
      fix e assume "r = Err (LevelRequest e)" "answer_rejected d ?sid e c2 = Some (Ok (), c')"
      with inv2 answer_rejected_others[of d ?sid e c2 c'] have "advances_others ?sid (sc_state c2) (sc_state c')"
        by (simp add: may_accept_def)
      with oth show ?thesis unfolding advances_others_def using phase_le_trans by blast
    qed (use oth forwardsD[OF rst_forwards[OF c2]] advances_others_trans in blast)+
    with idle show ?thesis by (rule advances_from_idle)
  next
    case False
    with cf have "advances (sc_state c) (sc_state c1)" by (simp only: if_False)
    moreover have "kind = IsTrailers \<or> mode = Skip" using False by (cases kind; cases mode) auto
    ultimately have adv: "advances (sc_state c) (sc_state c2)" and "\<forall>e. r \<noteq> Err (LevelRequest e)"
      using read_headers_forwards[OF rh] advances_trans by blast+
    with fin forwardsD[OF rst_forwards[OF c2]] advances_trans show ?thesis by blast
  qed
qed

lemma shift_windows_phase: "shift_windows delta sids s b = (r, s') \<Longrightarrow> stream_phase s' k = stream_phase s k"
  by (induction delta sids s b rule: shift_windows.induct) (auto simp: Let_def split: option.splits if_splits)

lemma apply_settings_forwards:
  assumes "ctx_inv c" and "\<And>xs. mset (d_order d xs) = mset xs"
  shows "forwards c (apply_settings d payload c)"
proof -
  let ?s = "sc_state c"
  obtain r ps enc where p: "settings_parse payload on_setting (peer_settings ?s, sc_hpack_enc c) = (r, ps, enc)"
    by (rule prod_cases3)
  have ok: "settings_ok ps \<and> enc_inv enc \<and> enc_names_inv enc"
    using on_settings_inv[of "(peer_settings ?s, sc_hpack_enc c)" payload] assms(1)
    by (simp add: p ctx_inv_def conn_inv_def)
  obtain sr s' where sh: "apply_initial_window d (initial_window_size (peer_settings ?s)) (?s\<lparr>peer_settings := ps\<rparr>) = (sr, s')"
    by (rule prod.exhaust)
  let ?c = "c\<lparr>sc_hpack_enc := enc, sc_state := s'\<rparr>"
  have "stream_phase s' k = stream_phase ?s k" for k
    using sh by (auto simp: apply_initial_window_def Let_def shift_windows_phase split: if_splits)
  then have adv: "advances (sc_state c) (sc_state ?c)" by (simp add: advances_def)
  have "forwards ?c (bind_st (write_frame d f [] ?c) (\<lambda>_ c. (Ok (), if b then st_upd notify_one c else c)))"
    if "sr = Ok b" for b f
    using apply_initial_window_inv[OF ctx_inv_conn[OF assms(1)] _ assms(2), of ps b s'] sh that assms(1) ok
    by (intro forwards_bind write_frame_forwards) (auto simp: ctx_inv_def advances_def)
  from forwards_from[OF adv this] show ?thesis
    by (cases r; cases sr) (simp_all add: apply_settings_def Let_def p sh)
qed

lemma process_frame_forwards:
  assumes "ctx_inv c" and "\<And>xs. mset (d_order d xs) = mset xs"
    and "process_frame d f payload (rx, c) = Some (Ok (), rx', c')"
  shows "advances (sc_state c) (sc_state c')"
proof -
  have same: "advances (sc_state c) s" if "\<And>k. stream_phase s k = stream_phase (sc_state c) k" for s
    using that by (rule advances_phase)
  have data: "forwards c (process_data d f flags payload c)" for flags using process_data_forwards[OF assms(1)] .
  have priority: "forwards c (process_priority d f payload c)"
    using rst_forwards[OF assms(1)] by (auto simp: process_priority_def split: result.split)
  have reset: "forwards c (process_rst_stream d f c)"
    using rst_forwards[OF assms(1)] advances_remove_stream[OF ctx_inv_conn[OF assms(1)]]
    by (auto simp: process_rst_stream_def Let_def split: option.split stream_state.split)
  have settings: "forwards c (process_settings d f flags payload c)" for flags
    using apply_settings_forwards[OF assms(1,2)] by (simp add: process_settings_def)
  have ping: "forwards c (process_ping d f flags payload c)" for flags
    using write_frame_forwards[OF assms(1)] by (simp add: process_ping_def)
  have window: "forwards c (process_window_update d f payload c)"
    using rst_forwards[OF assms(1)]
    by (auto simp: process_window_update_def window_update_connection_def window_update_stream_def Let_def
        intro!: same split: result.split option.split)
  from assms(3) show ?thesis
  proof (cases "ftype f")
    case (Headers flags)
    with assms(3) process_headers_forwards[OF assms(1)] show ?thesis by (simp add: process_frame_def)
  qed (auto simp: process_frame_def Let_def split: prod.splits if_splits
      intro: forwardsD[OF data] forwardsD[OF priority] forwardsD[OF reset] forwardsD[OF settings] forwardsD[OF ping]
        forwardsD[OF window])
qed

lemma conn_step_forwards:
  assumes "conn_step d st st'" and "\<And>xs. mset (d_order d xs) = mset xs" and "ctx_inv (snd st)"
  shows "advances (sc_state (snd st)) (sc_state (snd st'))"
  using assms
proof (induction rule: conn_step.induct)
  case (step_frame f payload rx c st)
  then show ?case using process_frame_forwards[of c d f payload rx] by (cases st) auto
next
  case (step_event c ev q c' rx)
  then show ?case using handle_event_forwards[OF step_event(2)] by (simp add: advances_def)
next
  case (step_notified c c' rx)
  then have "advances (sc_state (st_upd (\<lambda>s. s\<lparr>send_data_notified := False\<rparr>) c)) (sc_state c')"
    by (intro send_data_maybe_forwards) (simp_all add: ctx_inv_st ctx_inv_conn)
  then show ?case by (simp add: advances_def)
qed simp


text \<open>A connection that receives one request without a body.\<close>

definition demo_request :: "frame \<times> bytes" where
  "demo_request = ((frame_new (Headers {HeadersEndHeaders, HeadersEndStream}) 1)\<lparr>flen := 3\<rparr>, [0x82, 0x86, 0x84])"

definition demo_fields :: "header list" where
  "demo_fields = [(PSEUDO_METHOD, byte_str ''GET''), (PSEUDO_SCHEME, byte_str ''http''), (PSEUDO_PATH, byte_str ''/'')]"

lemma demo_decode:
  "case decode_with_cb (set_max_allowed_table_size decoder_new 4096) [0x82, 0x86, 0x84] (\<lambda>hs n v. hs @ [(n, v)]) [] of
     (r, _, hs) \<Rightarrow> r = Ok () \<and> hs = demo_fields"
proof -
  let ?dec = "set_max_allowed_table_size decoder_new 4096"
  have "static_table (dec_header_table ?dec) = STATIC_TABLE"
    by (simp add: set_max_allowed_table_size_def decoder_new_def dec_with_static_table_def with_static_table_def)
  then have "get_from_table (dec_header_table ?dec) 2 = Some (PSEUDO_METHOD, byte_str ''GET'')"
      "get_from_table (dec_header_table ?dec) 6 = Some (PSEUDO_SCHEME, byte_str ''http'')"
      "get_from_table (dec_header_table ?dec) 4 = Some (PSEUDO_PATH, byte_str ''/'')"
    by (simp_all add: get_from_table_def STATIC_TABLE_def PSEUDO_METHOD_def PSEUDO_SCHEME_def PSEUDO_PATH_def)
  moreover have "decode_integer (0x82 # r) 7 = Ok (2, 1)" "decode_integer (0x86 # r) 7 = Ok (6, 1)"
      "decode_integer (0x84 # r) 7 = Ok (4, 1)" for r
    by (simp_all add: decode_integer_def)
  ultimately show ?thesis
    by (simp add: decode_with_cb_def decode_loop.simps decode_field_def field_representation_new_def
        decode_indexed_def Let_def dec_get_from_table_def index_at_def demo_fields_def)
qed

lemma demo_utf8: "from_utf8 (byte_str ''GET'')" "from_utf8 (byte_str ''http'')" "from_utf8 (byte_str ''/'')"
  by code_simp+

lemma demo_fields_ok: "fields_ok http_list IsHeaders demo_fields"
proof -
  have "pseudo_fields demo_fields = demo_fields" "regular_fields demo_fields = []"
    by (simp_all add: pseudo_fields_def regular_fields_def demo_fields_def is_pseudo_def byte_str_def
        PSEUDO_METHOD_def PSEUDO_SCHEME_def PSEUDO_PATH_def)
  moreover have "\<forall>nv\<in>set demo_fields. pseudo_field_ok http_list nv"
    by (simp add: demo_fields_def pseudo_field_ok_def demo_utf8 http_list_def) (simp add: byte_str_def)
  ultimately show ?thesis by (simp add: fields_ok_def) (simp add: demo_fields_def)
qed

lemma demo_block:
  "\<exists>dec. decode_with_cb (set_max_allowed_table_size decoder_new 4096) [0x82, 0x86, 0x84]
     (on_header_pair http_list IsHeaders) (field_block_new http_list) = (Ok (), dec, collected http_list demo_fields)"
proof -
  let ?dec = "set_max_allowed_table_size decoder_new 4096" and ?buf = "[0x82, 0x86, 0x84] :: bytes"
  obtain r dec hs where "\<forall>cb (s :: field_block). decode_loop cb ?buf 0 False (?dec, s) = (r, dec, feed cb s hs)"
    and "\<forall>s. decode_loop (\<lambda>l n v. l @ [(n, v)]) ?buf 0 False (?dec, s) = (r, dec, s @ hs)"
    using decode_loop_feed[of ?buf 0 False ?dec, where 's = field_block] by blast
  with demo_decode field_block_feed[of http_list IsHeaders demo_fields] demo_fields_ok show ?thesis
    by (auto simp: decode_with_cb_def)
qed

lemma demo_request_accepted:
  "\<exists>c. process_frame deps_std (fst demo_request) (snd demo_request) ([], serve_context (Some 32) []) = Some (Ok (), [], c) \<and>
     stream_phase (sc_state c) 1 = PhaseHalfClosedRemote"
proof -
  let ?c = "serve_context (Some 32) [] :: bytes server_context"
  let ?c1 = "st_upd (\<lambda>s. s\<lparr>last_stream_id := 1\<rparr>) ?c"
  obtain dec where dec: "decode_with_cb (set_max_allowed_table_size decoder_new 4096) [0x82, 0x86, 0x84]
     (on_header_pair http_list IsHeaders) (field_block_new http_list) = (Ok (), dec, collected http_list demo_fields)"
    using demo_block by blast
  have cl: "classify_headers deps_std (fst demo_request) {HeadersEndHeaders, HeadersEndStream} ?c =
      (Ok (IsHeaders, Process), ?c1)"
    by (simp add: classify_headers_def demo_request_def frame_new_def serve_context_def server_context_new_def
        conn_state_default_def is_server_initiated_def settings_default_def)
  have c1: "sc_hpack_dec ?c1 = set_max_allowed_table_size decoder_new 4096"
    by (simp add: serve_context_def server_context_new_def settings_default_def)
  have fb: "\<exists>req clen. request_of_block http_list True (collected http_list demo_fields) = Ok (req, clen)"
    by (simp add: request_of_block_def request_method_def collected_def demo_fields_def pseudo_fields_def
        regular_fields_def is_pseudo_def byte_str_def PSEUDO_METHOD_def PSEUDO_SCHEME_def PSEUDO_PATH_def PSEUDO_AUTHORITY_def
        http_list_def method_from_def request_authority_def collected_headers_def request_content_length_def Let_def)
  then obtain req clen where req: "request_of_block http_list True (collected http_list demo_fields) = Ok (req, clen)" by blast
  have "fb_panicked (collected http_list demo_fields) = False" "fb_req_error (collected http_list demo_fields) = None"
    by (simp_all add: collected_def Let_def)
  then have "read_headers deps_std IsHeaders Process {HeadersEndHeaders, HeadersEndStream} 1 [0x82, 0x86, 0x84] ([], ?c1) =
      (Ok (), [], accept_stream deps_std 1 True req clen (?c1\<lparr>sc_hpack_dec := dec\<rparr>))"
    using dec req c1 by (simp add: read_headers_def header_fragments_def deps_std_def)
  with cl have "process_frame deps_std (fst demo_request) (snd demo_request) ([], ?c) =
      Some (Ok (), [], accept_stream deps_std 1 True req clen (?c1\<lparr>sc_hpack_dec := dec\<rparr>))"
    by (simp add: process_frame_def process_headers_def demo_request_def frame_new_def strip_priority_def Let_def)
  then show ?thesis by (auto simp: accept_stream_def Let_def phase_set_stream)
qed


end
