(* ===== verification/H2_Safety.thy ===== *)
theory H2_Safety
  imports H2_Lifecycle
begin

text \<open>
  Which frames make the server panic. On a transport that accepts every write, \<open>process_frame\<close> never panics,
  except for three kinds of HEADERS frames: a priority that is cut short, a scheme that does not parse, and
  trailers on a stream that is half-closed on the server's side. A stream that is reset while data is pending
  makes the next turn of \<open>send_data_maybe\<close> panic, and a rejected request can block the connection for ever.
\<close>

section \<open>Calls that cannot panic\<close>

lemma scratch_put_to_roll_ok:
  assumes "writes g bs" and "length bs < 2 ^ 32"
  shows "scratch_put_to_roll (length bs) g [] = (Ok bs, [])"
proof -
  have "slice_closure g (replicate (length bs) 0) = (Ok (), bs)"
    using assms(1)[unfolded writes_def, rule_format, of "replicate (length bs) 0" "[]"] by (simp add: slice_closure_def)
  with assms(2) show ?thesis by (simp add: scratch_put_to_roll_def)
qed

lemma rst_payload_ok:
  assumes "deps_ok d"
  shows "rst_payload d code [] = (Ok (u32_to_be_bytes (known_error_code_repr code)), [])"
proof -
  have len: "length (u32_to_be_bytes n) = 4" for n by (simp add: u32_to_be_bytes_def)
  have "byteorder_spec (d_slice_bo d)" using assms by (simp add: deps_ok_def)
  from scratch_put_to_roll_ok[OF writes_u32[OF this]] show ?thesis by (simp add: rst_payload_def len)
qed

lemma drop_stream_simps:
  "out_scratch (drop_stream sid c) = out_scratch c" "sc_hpack_dec (drop_stream sid c) = sc_hpack_dec c"
  "ev_queue (drop_stream sid c) = ev_queue c"
  by (simp_all add: drop_stream_def drop_incoming_def close_channel_def split: option.split)

lemma rst_ok:
  assumes "deps_ok d" and "transport_ok d" and "sid_ok sid" and "out_scratch c = []"
  shows "\<exists>w. rst d sid e c = (Ok (), (drop_stream sid c)\<lparr>transport_w := w\<rparr>)"
proof -
  let ?p = "u32_to_be_bytes (known_error_code_repr (stream_error_code e))"
  let ?f = "with_len (frame_new RstStream sid) (of_nat (length ?p))"
  let ?c = "drop_stream sid c"
  have c: "out_scratch ?c = []"
    using assms(4) by (simp add: drop_stream_simps)
  have eq: "?c\<lparr>out_scratch := []\<rparr> = ?c" using c by (cases ?c) simp
  have "\<exists>w. write_frames d (replicate n (?f, [?p])) c' = (Ok (), c'\<lparr>transport_w := w\<rparr>)"
    if "out_scratch c' = []" for n c'
    using that
  proof (induction n arbitrary: c')
    case 0
    show ?case by (auto intro: exI[of _ "transport_w c'"])
  next
    case (Suc n)
    have "write_frame_state ?f [?p] (sc_state c') = Ok (sc_state c')"
      by (simp add: write_frame_state_def with_len_def frame_new_def)
    then obtain w where "write_frame d ?f [?p] c' = (Ok (), c'\<lparr>sc_state := sc_state c', transport_w := w\<rparr>)"
      using write_frame_writes[OF assms(1,2), of ?f "[?p]" c' "sc_state c'"] assms(3) Suc.prems
      by (auto simp: u32_to_be_bytes_def with_len_def frame_new_def)
    with Suc.IH[of "c'\<lparr>transport_w := w\<rparr>"] Suc.prems show ?case by auto
  qed
  from this[OF c, of 15] obtain w where
    "write_frames d (replicate 15 (?f, [?p])) ?c = (Ok (), ?c\<lparr>transport_w := w\<rparr>)" ..
  then show ?thesis
    using c rst_payload_ok[OF assms(1), of "stream_error_code e"] by (auto simp: rst_def Let_def eq)
qed

lemma write_control_frame_ok:
  assumes "deps_ok d" and "transport_ok d" and "out_scratch c = []" and "length (concat pl) < 2 ^ 24"
    and "\<forall>fl. ft \<noteq> Data fl" and "sid_ok sid"
  shows "fst (write_frame d (with_len (frame_new ft sid) n) pl c) = Ok ()"
proof -
  let ?f = "with_len (frame_new ft sid) n"
  have "write_frame_state ?f pl (sc_state c) = Ok (sc_state c)"
    using assms(5) by (cases ft) (auto simp: write_frame_state_def with_len_def frame_new_def)
  from write_frame_writes[OF assms(1,2) this assms(4)] assms(3,6) show ?thesis
    by (auto simp: with_len_def frame_new_def)
qed

lemma on_setting_returns:
  assumes "enc_inv (snd se)"
  shows "fst (on_setting se code v) \<noteq> Panic"
proof -
  have "settings_apply s code v \<noteq> (Panic, s')" for s s'
    by (auto simp: settings_apply_def split: setting.split)
  moreover have "dt_inv (ht_dynamic_table (enc_header_table (snd se)))" using assms by (simp add: enc_inv_def)
  then have "enc_set_max_table_size (snd se) m \<noteq> (Panic :: (encoder, settings_error) result)" for m
    by (simp add: enc_set_max_table_size_def dt_set_max_table_size_resize)
  ultimately show ?thesis
    by (auto simp: on_setting_def split: prod.splits result.splits setting.splits)
qed

lemma settings_parse_returns:
  assumes "settings_ok (fst se) \<and> enc_inv (snd se) \<and> enc_names_inv (snd se)"
  shows "fst (settings_parse_chunks payload on_setting se) \<noteq> Panic"
  using assms
proof (induction payload "on_setting" se rule: settings_parse_chunks.induct)
  case (1 a b c d e f rest se)
  show ?case
  proof (cases "setting_from_repr (u16_from_be_bytes a b)")
    case None
    with 1 show ?thesis by simp
  next
    case (Some code)
    let ?v = "u32_from_be_bytes c d e f"
    obtain r se' where st: "on_setting se code ?v = (r, se')" by (rule prod.exhaust)
    have "r \<noteq> Panic" using on_setting_returns[of se code ?v] "1.prems" st by simp
    moreover have "settings_ok (fst se') \<and> enc_inv (snd se') \<and> enc_names_inv (snd se')"
      using on_setting_inv[OF "1.prems", of code ?v] st by simp
    ultimately show ?thesis using 1 Some st by (cases r) simp_all
  qed
qed simp_all

lemma shift_windows_returns: "fst (shift_windows delta sids s b) \<noteq> Panic"
  by (induction delta sids s b rule: shift_windows.induct) (auto simp: Let_def split: option.split)

lemma process_settings_returns:
  assumes "deps_ok d" and "transport_ok d" and "ctx_inv c"
  shows "fst (process_settings d f flags payload c) \<noteq> Panic"
proof -
  let ?s = "sc_state c"
  obtain r ps enc where p: "settings_parse payload on_setting (peer_settings ?s, sc_hpack_enc c) = (r, ps, enc)"
    by (rule prod_cases3)
  have inv: "settings_ok (peer_settings ?s)" "enc_inv (sc_hpack_enc c)" "enc_names_inv (sc_hpack_enc c)" "out_scratch c = []"
    using assms(3) by (auto simp: ctx_inv_def conn_inv_def)
  have r: "r \<noteq> Panic" if "length payload mod 6 = 0"
    using settings_parse_returns[of "(peer_settings ?s, sc_hpack_enc c)" payload] p inv that
    by (simp add: settings_parse_def)
  obtain sr s' where sh: "apply_initial_window d (initial_window_size (peer_settings ?s)) (?s\<lparr>peer_settings := ps\<rparr>) = (sr, s')"
    by (rule prod.exhaust)
  then have sr: "sr \<noteq> Panic"
    using shift_windows_returns by (auto simp: apply_initial_window_def Let_def split: if_splits) (metis fst_conv)
  have "fst (write_frame d (frame_new (Settings {SettingsAck}) CONNECTION) [] (c\<lparr>sc_hpack_enc := enc, sc_state := s'\<rparr>)) = Ok ()"
    using write_control_frame_ok[OF assms(1,2), of "c\<lparr>sc_hpack_enc := enc, sc_state := s'\<rparr>" "[]" "Settings {SettingsAck}" CONNECTION 0]
      inv(4) by (simp add: with_len_def frame_new_def sid_ok_def CONNECTION_def)
  then have "fst (apply_settings d payload c) \<noteq> Panic" if "length payload mod 6 = 0"
    using r[OF that] sr
    by (cases r; cases sr) (auto simp: apply_settings_def Let_def p sh fst_bind_st_eq_Panic)
  then show ?thesis by (simp add: process_settings_def)
qed

section \<open>Header blocks\<close>

lemma read_continuations_returns: "fst (read_continuations sid rx fragments) \<noteq> Panic"
  by (induction sid rx fragments rule: read_continuations.induct) (auto simp: Let_def split: frame_type.split)

lemma request_of_block_returns: "request_of_block h es fb \<noteq> Panic"
  by (auto simp: request_of_block_def request_method_def request_authority_def host_authority_def
      request_content_length_def bad_def Let_def result_simps split: option.splits if_splits)

lemma request_error_status:
  assumes "request_of_block h es fb = Err (LevelRequest e)"
  shows "re_status e \<in> {501, 400} \<and> length (re_message e) < 2 ^ 64"
proof -
  have "e = \<lparr>re_status = NOT_IMPLEMENTED, re_message = byte_str ''CONNECT method is not supported''\<rparr> \<or>
      e = \<lparr>re_status = BAD_REQUEST, re_message = byte_str ''invalid URI parts''\<rparr>"
    using assms
    by (auto simp: request_of_block_def request_method_def request_authority_def host_authority_def
        request_content_length_def bad_def Let_def result_simps split: option.splits if_splits)
  then show ?thesis by (auto simp: NOT_IMPLEMENTED_def BAD_REQUEST_def byte_str_def)
qed

lemma answer_rejected_returns:
  assumes "deps_ok d" and "re_status e \<in> {501, 400}" and "length (re_message e) < 2 ^ 64"
  shows "answer_rejected d sid e c = (if d_chan_size d < length (ev_queue c) + 3 then None else
     answer_rejected d sid e c) \<and>
    (length (ev_queue c) + 3 \<le> d_chan_size d \<longrightarrow> (\<exists>c'. answer_rejected d sid e c = Some (Ok (), c')))"
proof -
  have h: "http_spec (d_http d)" using assms(1) by (simp add: deps_ok_def)
  have "\<not> is_informational (re_status e)" using assms(2) by (auto simp: is_informational_def)
  from single_piece_answer[OF h this assms(3), where 'be = unit and sid = sid and v = HTTP_2] obtain enc b where
    w: "write_final_response_with_body (d_http d) (h2_encoder_ops (\<lambda>_. True))
      (single_piece_body :: (_, unit) body_ops) (h2_encoder_new sid)
      \<lparr>rs_version = HTTP_2, rs_status = re_status e, rs_headers = hm_default (d_http d)\<rparr>
      (single_piece_body_new (re_message e)) = Some (Ok (), enc, b)"
    and enc: "he_state enc = ResponseDone" "length (map ev_payload (he_tx enc)) = 3"
    by (metis (no_types, lifting) length_Cons list.size(3) numeral_3_eq_3)
  then have "he_tx (he_drop (d_http d) (\<lambda>_. True) enc) = he_tx enc" by (simp add: he_drop_def)
  with w enc(2) show ?thesis by (auto simp: answer_rejected_def Let_def)
qed

text \<open>The three ways in which a HEADERS frame makes the server panic.\<close>

definition short_priority :: "headers_flags set \<Rightarrow> bytes \<Rightarrow> bool" where
  "short_priority flags payload \<longleftrightarrow> HeadersPriority \<in> flags \<and> length payload < 5"

definition bad_scheme :: "'w deps \<Rightarrow> frame \<Rightarrow> headers_flags set \<Rightarrow> bytes \<Rightarrow> rx \<times> 'w server_context \<Rightarrow> bool" where
  "bad_scheme d f flags payload st \<longleftrightarrow>
     (\<exists>block rx. header_fragments flags (fstream_id f)
          (if HeadersPriority \<in> flags then drop 5 payload else payload) (fst st) = (Ok block, rx) \<and>
        fb_panicked (snd (snd (decode_with_cb (sc_hpack_dec (snd st)) block (on_header_pair (d_http d) IsHeaders)
          (field_block_new (d_http d))))))"

definition late_trailers :: "frame \<Rightarrow> conn_state \<Rightarrow> bool" where
  "late_trailers f s \<longleftrightarrow> (\<exists>si. map_of (cs_streams s) (fstream_id f) = Some (HalfClosedLocal si))"

definition panics_on :: "'w deps \<Rightarrow> frame \<Rightarrow> bytes \<Rightarrow> rx \<times> 'w server_context \<Rightarrow> bool" where
  "panics_on d f payload st \<longleftrightarrow>
     (case ftype f of
        Headers flags \<Rightarrow> short_priority flags payload \<or> bad_scheme d f flags payload st \<or>
          late_trailers f (sc_state (snd st))
      | _ \<Rightarrow> False)"

section \<open>Frames that do not panic\<close>

lemma rst_returns:
  assumes "deps_ok d" and "transport_ok d" and "sid_ok sid" and "out_scratch c = []"
  shows "fst (rst d sid e c) = Ok ()"
  using rst_ok[OF assms] by (metis fst_conv)

lemma priority_spec_parse_returns:
  assumes "nom_spec nom"
  shows "priority_spec_parse nom i \<noteq> Panic"
    and "5 \<le> length i \<Longrightarrow> \<exists>p. priority_spec_parse nom i = Ok (drop 5 i, p)"
    and "length i < 5 \<Longrightarrow> priority_spec_parse nom i = Err Incomplete"
proof -
  have eq: "priority_spec_parse nom i = and_then (parse_reserved_and_stream_id nom i) (\<lambda>(i, (excl, sid)).
      case i of w # r \<Rightarrow> Ok (r, \<lparr>exclusive = (excl \<noteq> 0), stream_dependency = sid, weight = w\<rparr>) | [] \<Rightarrow> Err Incomplete)"
    using assms by (cases "parse_reserved_and_stream_id nom i")
      (auto simp: priority_spec_parse_def nom_spec_def seq2_def split: list.splits)
  then show "priority_spec_parse nom i \<noteq> Panic"
    using assms by (auto simp: parse_reserved_and_stream_id_def parse_bit_and_u31_def nom_spec_def Let_def split: list.splits)
  show "\<exists>p. priority_spec_parse nom i = Ok (drop 5 i, p)" if "5 \<le> length i"
  proof -
    from that obtain a b c e w r where "i = a # b # c # e # w # r"
      by (auto simp: numeral_eq_Suc Suc_le_length_iff)
    with assms eq show ?thesis
      by (auto simp: parse_reserved_and_stream_id_def parse_bit_and_u31_def nom_spec_def Let_def)
  qed
  show "priority_spec_parse nom i = Err Incomplete" if "length i < 5"
    using that assms eq
    by (auto simp: parse_reserved_and_stream_id_def parse_bit_and_u31_def nom_spec_def Let_def split: list.splits)
qed

lemma process_data_returns:
  assumes "deps_ok d" and "transport_ok d" and "ctx_inv c" and "sid_ok (fstream_id f)"
  shows "fst (process_data d f flags payload c) \<noteq> Panic"
proof -
  let ?sid = "fstream_id f"
  have scratch: "out_scratch c = []" using assms(3) by (simp add: ctx_inv_def)
  then have r: "fst (rst d ?sid e (st_upd g c)) = Ok ()" for e g
    by (intro rst_returns assms) simp_all
  from r[of _ "\<lambda>s. s"] have r': "fst (rst d ?sid e c) = Ok ()" for e by simp
  have "ss \<noteq> Transition" if "map_of (cs_streams (sc_state c)) ?sid = Some ss" for ss
    using conn_inv_stream[OF ctx_inv_conn[OF assms(3)] that] by (simp add: stream_ok_def)
  moreover have "fst (si_write_chunk (d_alive d) si payload w) \<noteq> Panic" for si w
    by (auto simp: si_write_chunk_def checked_u64_def Let_def split: option.splits prod.splits)
  ultimately show ?thesis
    using r r'
    by (auto simp: process_data_def Let_def split: option.split stream_state.split prod.splits result.split)
      (metis fst_conv incoming_of.simps stream_state.exhaust option.distinct(1))+
qed

lemma process_priority_returns:
  assumes "deps_ok d" and "transport_ok d" and "ctx_inv c" and "sid_ok (fstream_id f)"
  shows "fst (process_priority d f payload c) \<noteq> Panic"
proof -
  have "out_scratch c = []" using assms(3) by (simp add: ctx_inv_def)
  from rst_returns[OF assms(1,2,4) this] have "fst (rst d (fstream_id f) e c) = Ok ()" for e .
  moreover have "priority_spec_parse (d_nom d) payload \<noteq> Panic"
    using priority_spec_parse_returns(1) assms(1) by (simp add: deps_ok_def)
  ultimately show ?thesis by (auto simp: process_priority_def split: result.split)
qed

lemma process_rst_stream_returns:
  assumes "deps_ok d" and "transport_ok d" and "ctx_inv c" and "sid_ok (fstream_id f)"
  shows "fst (process_rst_stream d f c) \<noteq> Panic"
proof -
  have "out_scratch c = []" using assms(3) by (simp add: ctx_inv_def)
  from rst_returns[OF assms(1,2,4) this] have "fst (rst d (fstream_id f) e c) = Ok ()" for e .
  moreover have "ss \<noteq> Transition" if "map_of (cs_streams (sc_state c)) (fstream_id f) = Some ss" for ss
    using conn_inv_stream[OF ctx_inv_conn[OF assms(3)] that] by (simp add: stream_ok_def)
  ultimately show ?thesis by (auto simp: process_rst_stream_def Let_def split: option.split stream_state.split)
qed

lemma process_ping_returns:
  assumes "deps_ok d" and "transport_ok d" and "ctx_inv c" and "length payload < 2 ^ 24"
  shows "fst (process_ping d f flags payload c) \<noteq> Panic"
proof -
  have "fst (write_frame d (with_len (frame_new (Ping {PingAck}) CONNECTION) n) [payload] c) = Ok ()" for n
    using assms by (intro write_control_frame_ok) (simp_all add: ctx_inv_def sid_ok_def CONNECTION_def)
  then show ?thesis by (simp add: process_ping_def)
qed

lemma process_window_update_returns:
  assumes "deps_ok d" and "transport_ok d" and "ctx_inv c" and "sid_ok (fstream_id f)"
  shows "fst (process_window_update d f payload c) \<noteq> Panic"
proof -
  have "out_scratch c = []" using assms(3) by (simp add: ctx_inv_def)
  from rst_returns[OF assms(1,2,4) this] have r: "fst (rst d (fstream_id f) e c) = Ok ()" for e .
  have "\<exists>u. window_update_parse (d_nom d) payload = Ok ([], u)" if "length payload = 4"
  proof -
    from that obtain a b c e where "payload = [a, b, c, e]" by (auto simp: numeral_eq_Suc length_Suc_conv)
    with assms(1) show ?thesis by (auto simp: deps_ok_def window_update_parse_def parse_bit_and_u31_def nom_spec_def Let_def)
  qed
  then show ?thesis
    using r by (auto simp: process_window_update_def window_update_connection_def window_update_stream_def Let_def
        split: option.split result.split)
qed

text \<open>Trailers have no scheme.\<close>

lemma trailers_feed: "fb_panicked (feed (on_header_pair h IsTrailers) fb hs) = fb_panicked fb"
proof (induction hs arbitrary: fb)
  case (Cons nv hs)
  have "fb_panicked (on_header_pair h IsTrailers fb n v) = fb_panicked fb" for n v
    by (simp add: on_header_pair_def on_regular_header_def Let_def split: option.split)
  with Cons show ?case by (simp add: feed_def)
qed (simp add: feed_def)

lemma trailers_decode:
  "\<not> fb_panicked (snd (snd (decode_with_cb dec block (on_header_pair h IsTrailers) (field_block_new h))))"
proof -
  obtain r dec' hs where "\<forall>cb (s :: field_block). decode_loop cb block 0 False (dec, s) = (r, dec', feed cb s hs)"
    using decode_loop_feed[of block 0 False dec, where 's = field_block] by blast
  then show ?thesis by (simp add: decode_with_cb_def trailers_feed field_block_new_def)
qed

lemma strip_priority_returns:
  assumes "nom_spec (d_nom d)" and "\<not> short_priority flags payload"
  shows "strip_priority d f flags payload \<noteq> Panic"
    and "strip_priority d f flags payload = Ok p \<Longrightarrow> p = (if HeadersPriority \<in> flags then drop 5 payload else payload)"
  using assms priority_spec_parse_returns(2)[of "d_nom d" payload]
  by (auto simp: strip_priority_def short_priority_def split: if_splits)

lemma classify_headers_returns:
  assumes "deps_ok d" and "transport_ok d" and "ctx_inv c" and "sid_ok (fstream_id f)"
  shows "fst (classify_headers d f flags c) \<noteq> Panic"
proof -
  have "out_scratch c = []" using assms(3) by (simp add: ctx_inv_def)
  from rst_returns[OF assms(1,2,4) this] have "fst (rst d (fstream_id f) e c) = Ok ()" for e .
  moreover have "ss \<noteq> Transition" if "map_of (cs_streams (sc_state c)) (fstream_id f) = Some ss" for ss
    using conn_inv_stream[OF ctx_inv_conn[OF assms(3)] that] by (simp add: stream_ok_def)
  ultimately show ?thesis
    by (auto simp: classify_headers_def Let_def fst_bind_st_eq_Panic split: option.split stream_state.split)
qed

text \<open>A block that is processed belongs to a new stream or ends an open one; the decoder was not touched.\<close>

lemma classify_headers_kind:
  assumes "classify_headers d f flags c = (Ok (kind, mode), c')" and "deps_ok d" and "transport_ok d"
    and "ctx_inv c" and "sid_ok (fstream_id f)"
  shows "sc_hpack_dec c' = sc_hpack_dec c \<and> ev_queue c' = ev_queue c \<and>
    (mode = Process \<longrightarrow> kind = IsTrailers \<longrightarrow> \<not> late_trailers f (sc_state c) \<longrightarrow>
      (\<exists>si og. map_of (cs_streams (sc_state c')) (fstream_id f) = Some (Open si og)))"
proof -
  have "out_scratch c = []" using assms(4) by (simp add: ctx_inv_def)
  then have
    "sc_hpack_dec c1 = sc_hpack_dec c \<and> ev_queue c1 = ev_queue c" if "rst d (fstream_id f) e c = (r, c1)" for e r c1
    using that rst_ok[OF assms(2,3,5), of c e] by (auto simp: drop_stream_simps)
  with assms(1) show ?thesis
    by (auto simp: classify_headers_def late_trailers_def Let_def bind_st_eq_Ok
        split: option.splits if_splits stream_state.splits)
qed

lemma read_headers_returns:
  assumes "dec_inv (sc_hpack_dec c)"
    and "\<And>block rx'. header_fragments flags sid payload rx = (Ok block, rx') \<Longrightarrow> \<not> fb_panicked
      (snd (snd (decode_with_cb (sc_hpack_dec c) block (on_header_pair (d_http d) kind) (field_block_new (d_http d)))))"
    and "mode = Process \<Longrightarrow> kind = IsTrailers \<Longrightarrow>
      \<exists>si og. map_of (cs_streams (sc_state c)) sid = Some (Open si og)"
    and "read_headers d kind mode flags sid payload (rx, c) = (r, rx', c')"
  shows "r \<noteq> Panic" and "r = Err (LevelRequest e) \<Longrightarrow> re_status e \<in> {501, 400} \<and> length (re_message e) < 2 ^ 64"
    and "ctx_inv c \<Longrightarrow> r = Err e' \<Longrightarrow> out_scratch c' = [] \<and> ev_queue c' = ev_queue c"
proof -
  obtain hf rx1 where hf: "header_fragments flags sid payload rx = (hf, rx1)" by (rule prod.exhaust)
  have "hf \<noteq> Panic"
    using hf read_continuations_returns[of sid rx "[payload]"]
    by (auto simp: header_fragments_def result_simps split: if_splits prod.splits)
  moreover have "r \<noteq> Panic \<and> (r = Err (LevelRequest e) \<longrightarrow> re_status e \<in> {501, 400} \<and> length (re_message e) < 2 ^ 64) \<and>
      (ctx_inv c \<longrightarrow> r = Err e' \<longrightarrow> out_scratch c' = [] \<and> ev_queue c' = ev_queue c)"
    if "hf = Ok block" and "mode = Process" for block
  proof -
    obtain res dec fb where dec: "decode_with_cb (sc_hpack_dec c) block (on_header_pair (d_http d) kind)
        (field_block_new (d_http d)) = (res, dec, fb)" by (rule prod_cases3)
    have "res \<noteq> Panic" using dec decode_loop_inv assms(1) by (fastforce simp: decode_with_cb_def)
    moreover have "\<not> fb_panicked fb" using assms(2) hf that dec by fastforce
    moreover have "accept_trailers d sid ts (c\<lparr>sc_hpack_dec := dec\<rparr>) \<noteq> (Panic, c2)" if "kind = IsTrailers" for ts c2
      using assms(3) that \<open>mode = Process\<close>
      by (auto simp: accept_trailers_def si_write_trailers_def split: option.splits if_splits)
    moreover have "accept_trailers d sid ts (c\<lparr>sc_hpack_dec := dec\<rparr>) \<noteq> (Err (LevelRequest e), c2)" for ts c2
      by (auto simp: accept_trailers_def split: option.split result.split prod.split stream_state.split)
    moreover have "out_scratch c2 = out_scratch c \<and> ev_queue c2 = ev_queue c"
      if "accept_trailers d sid ts (c\<lparr>sc_hpack_dec := dec\<rparr>) = (Err e1, c2)" for ts c2 e1
      using that by (auto simp: accept_trailers_def split: option.splits result.splits prod.splits stream_state.splits)
    ultimately show ?thesis
      using assms(4) hf that dec request_of_block_returns[of "d_http d" "HeadersEndStream \<in> flags" fb]
        request_error_status[of "d_http d" "HeadersEndStream \<in> flags" fb e]
      by (auto simp: read_headers_def Let_def ctx_inv_def split: result.splits option.splits headers_or_trailers.splits prod.splits)
  qed
  moreover have "hf \<noteq> Ok block \<or> mode \<noteq> Process \<Longrightarrow> hf \<noteq> Panic \<Longrightarrow> hf = Ok block \<or> (\<exists>e. hf = Err e) \<Longrightarrow> r \<noteq> Panic \<and>
      r \<noteq> Err (LevelRequest e) \<and> (r = Err e' \<longrightarrow> c' = c)" for block
    using assms(4) hf by (cases hf; cases mode) (auto simp: read_headers_def)
  ultimately have "r \<noteq> Panic \<and> (r = Err (LevelRequest e) \<longrightarrow> re_status e \<in> {501, 400} \<and> length (re_message e) < 2 ^ 64) \<and>
      (ctx_inv c \<longrightarrow> r = Err e' \<longrightarrow> out_scratch c' = [] \<and> ev_queue c' = ev_queue c)"
    by (cases hf; cases "mode = Process") (auto simp: ctx_inv_def)
  then show "r \<noteq> Panic" and "r = Err (LevelRequest e) \<Longrightarrow> re_status e \<in> {501, 400} \<and> length (re_message e) < 2 ^ 64"
    and "ctx_inv c \<Longrightarrow> r = Err e' \<Longrightarrow> out_scratch c' = [] \<and> ev_queue c' = ev_queue c"
    by blast+
qed

lemma process_headers_returns:
  assumes "deps_ok d" and "transport_ok d" and "ctx_inv c" and "sid_ok (fstream_id f)"
    and "\<not> short_priority flags payload" and "\<not> bad_scheme d f flags payload (rx, c)" and "\<not> late_trailers f (sc_state c)"
    and "length (ev_queue c) + 3 \<le> d_chan_size d" and "\<And>xs. mset (d_order d xs) = mset xs"
  shows "\<exists>r st. process_headers d f flags payload (rx, c) = Some (r, st) \<and> r \<noteq> Panic"
proof -
  let ?sid = "fstream_id f" and ?p = "if HeadersPriority \<in> flags then drop 5 payload else payload"
  have nom: "nom_spec (d_nom d)" using assms(1) by (simp add: deps_ok_def)
  note strip = strip_priority_returns[OF nom assms(5), of f]
  obtain cr c1 where cl: "classify_headers d f flags c = (cr, c1)" by (rule prod.exhaust)
  have cr: "cr \<noteq> Panic" using classify_headers_returns[OF assms(1-4), of flags] cl by simp
  show ?thesis
  proof (cases "strip_priority d f flags payload")
    case (Ok p)
    then have p: "p = ?p" using strip(2) by blast
    show ?thesis
    proof (cases cr)
      case (Ok km)
      obtain kind mode where km: "km = (kind, mode)" by (rule prod.exhaust)
      have inv: "ctx_inv c1"
        using classify_headers_keeps[OF assms(3), of d f flags] cl Ok km by (auto dest: keepsD)
      note k = classify_headers_kind[OF cl[unfolded Ok km] assms(1-4)]
      obtain r rx2 c2 where rh: "read_headers d kind mode flags ?sid p (rx, c1) = (r, rx2, c2)" by (rule prod_cases3)
      have "\<not> fb_panicked (snd (snd (decode_with_cb (sc_hpack_dec c1) block (on_header_pair (d_http d) kind)
          (field_block_new (d_http d)))))" if "header_fragments flags ?sid p rx = (Ok block, rx')" for block rx'
        using assms(6) that p k trailers_decode by (cases kind) (auto simp: bad_scheme_def)
      note ret = read_headers_returns[OF _ this _ rh]
      have dec: "dec_inv (sc_hpack_dec c1)" using inv by (simp add: ctx_inv_def)
      show ?thesis
      proof (cases r)
        case (Err e)
        with ret(3)[OF dec] k inv assms(7) have c2: "out_scratch c2 = []" "ev_queue c2 = ev_queue c" by auto
        show ?thesis
        proof (cases e)
          case (LevelStream se)
          with rst_returns[OF assms(1,2,4) c2(1), of se] show ?thesis
            using Err rh cl \<open>cr = Ok km\<close> km \<open>strip_priority d f flags payload = Ok p\<close>
            by (auto simp: process_headers_def Let_def split: prod.split)
        next
          case (LevelRequest re)
          with ret(2)[OF dec] k assms(7) Err answer_rejected_returns[OF assms(1), of re ?sid c2] c2(2) assms(8)
          obtain c3 where "answer_rejected d ?sid re c2 = Some (Ok (), c3)" by auto
          then show ?thesis
            using Err LevelRequest rh cl \<open>cr = Ok km\<close> km \<open>strip_priority d f flags payload = Ok p\<close>
            by (simp add: process_headers_def Let_def)
        qed (use Err rh cl \<open>cr = Ok km\<close> km \<open>strip_priority d f flags payload = Ok p\<close> in
            \<open>simp add: process_headers_def Let_def\<close>)
      qed (use ret(1)[OF dec] k assms(7) rh cl Ok km \<open>strip_priority d f flags payload = Ok p\<close> in
          \<open>auto simp: process_headers_def Let_def\<close>)
    qed (use cr cl Ok in \<open>auto simp: process_headers_def Let_def\<close>)
  qed (use strip(1) in \<open>auto simp: process_headers_def Let_def\<close>)
qed



section \<open>Streams that are reset while data is pending\<close>

lemma sub_usize_no_err [simp]: "sub_usize a b \<noteq> Err e"
  by (simp add: sub_usize_def)

lemma build_frame_no_err: "build_frame mf cap body pl n \<noteq> Err e"
proof (induction mf cap body pl n rule: build_frame.induct)
  case (1 mf cap body pl n)
  then show ?case
    by (subst build_frame.simps)
      (auto simp: bytes_split_at_def Let_def result_simps split: prod.split option.split)
qed

lemma queue_body_frames_no_err: "queue_body_frames mf cap sid body n \<noteq> Err e"
proof (induction mf cap sid body n rule: queue_body_frames.induct)
  case (1 mf cap sid body n)
  then show ?case
    using build_frame_no_err[of mf "cap - n" body "[]" 0]
    by (subst queue_body_frames.simps) (auto simp: result_simps split: result.split prod.split)
qed

lemma queue_streams_missing:
  assumes "sid \<in> set sids" and "get_outgoing s sid = None" and "0 < outgoing_capacity s" and "0 < mf"
  shows "queue_streams mf sids s frames np = Some Panic"
  using assms(1-3)
proof (induction sids arbitrary: s frames np)
  case (Cons k sids)
  show ?case
  proof (cases "get_outgoing s k")
    case (Some og)
    with Cons.prems have k: "sid \<in> set sids" by auto
    have "\<exists>h fs. (if ho_has_more_to_write (so_headers og) then queue_header_frames mf k (so_headers og)
        else Some (so_headers og, [])) = Some (h, fs)" if "so_headers og \<noteq> WaitingForHeaders"
      using that queue_headers[OF assms(4)] queue_continuations[OF assms(4)]
      by (cases "so_headers og") fastforce+
    moreover have "get_outgoing (put_outgoing k og' s) sid = None" for og'
      using Cons.prems(2) Some by (auto simp: conn_simps)
    then have "queue_streams mf sids s fr np' = Some Panic"
        "queue_streams mf sids (put_outgoing k og' s) fr np' = Some Panic" for og' fr np'
      using Cons.IH[OF k] Cons.prems(2,3) by (simp_all add: put_outgoing_simps)
    ultimately show ?thesis
      using Some Cons.prems queue_body_frames_no_err by (fastforce simp: Let_def split: result.split prod.split)
  qed (use Cons.prems in auto)
qed simp

text \<open>C34: a stream that the peer resets, or that the server resets, stays among the streams with pending data,
  although it is gone: when data can be sent next, \<open>send_data_maybe\<close> panics.\<close>

theorem reset_of_pending_stream_panics:
  assumes "ftype f = RstStream" and "flen f = 4" and "fstream_id f \<in> set (streams_with_pending_data (sc_state c))"
    and "map_of (cs_streams (sc_state c)) (fstream_id f) = Some ss" and "ss \<noteq> Transition"
    and "0 < outgoing_capacity (sc_state c)" and "0 < max_frame_size (peer_settings (sc_state c))"
    and "\<And>xs. mset (d_order d xs) = mset xs"
  shows "\<exists>c'. process_frame d f payload (rx, c) = Some (Ok (), rx, c') \<and>
    (\<exists>c''. send_data_maybe d c' = Some (Panic, c''))"
proof -
  let ?s = "remove_stream (fstream_id f) (sc_state c)"
  have "\<exists>c'. process_rst_stream d f c = (Ok (), c') \<and> sc_state c' = ?s"
    using assms(2,4,5) by (cases ss) (auto simp: process_rst_stream_def)
  then obtain c' where c': "process_rst_stream d f c = (Ok (), c')" and s: "sc_state c' = ?s" by blast
  have "set (d_order d xs) = set xs" for xs using assms(8) by (metis set_mset_mset)
  then have "queue_streams (unat (max_frame_size (peer_settings ?s))) (d_order d (streams_with_pending_data ?s)) ?s [] [] =
      Some Panic"
    using assms(3,6,7)
    by (intro queue_streams_missing[of "fstream_id f"]) (auto simp: conn_simps get_outgoing_def word_less_nat_alt)
  with c' s assms(1) show ?thesis by (simp add: process_frame_def send_data_maybe_def)
qed

theorem reset_of_pending_stream_panics_witness:
  "\<exists>c'. process_frame deps_std ((frame_new RstStream 1)\<lparr>flen := 4\<rparr>) [0, 0, 0, 8]
      ([], demo_context [(1, demo_outgoing WroteAll 40000)]) = Some (Ok (), [], c') \<and>
    (\<exists>c''. send_data_maybe deps_std c' = Some (Panic, c''))"
  using reset_of_pending_stream_panics[of "(frame_new RstStream 1)\<lparr>flen := 4\<rparr>"
      "demo_context [(1, demo_outgoing WroteAll 40000)]" _ deps_std "[0, 0, 0, 8]" "[]"]
  by (simp add: demo_context_simps frame_new_def deps_std_def)
    (simp add: demo_context_def server_context_new_def settings_default_def)

end
