(* ===== verification/H2_Deframe.thy ===== *)
theory H2_Deframe
  imports H2_Send
begin

text \<open>
  The deframer of the HTTP/2 server (\<open>deframe_loop\<close>, \<open>crates/loona/src/h2/server.rs\<close>): it reads a frame
  header and a payload at a time, refuses frames above the maximum size, removes the padding and
  passes the frame on through a channel. The loop is a \<open>partial_function\<close>, since a peer may send for
  ever. It is shown to compute \<open>deframe_bytes\<close>, a function of the whole byte stream, whatever the sizes
  of the reads.
\<close>

section \<open>The code\<close>

definition has_padding :: "frame \<Rightarrow> bool" where
  "has_padding f =
     (case ftype f of
        Data flags \<Rightarrow> DataPadded \<in> flags
      | Headers flags \<Rightarrow> HeadersPadded \<in> flags
      | _ \<Rightarrow> False)"

definition remove_padding :: "frame \<Rightarrow> bytes \<Rightarrow> (bytes, h2_connection_error) result" where
  "remove_padding f payload =
     (if has_padding f then
        if payload = [] then Err (PaddedFrameEmpty (ftype f))
        else
          and_then (bytes_split_at payload 1) (\<lambda>(padding_length_roll, payload).
          and_then (index_at padding_length_roll 0) (\<lambda>b.
            let padding_length = unat b in
            if length payload < padding_length
            then Err (PaddedFrameTooShort (ftype f) padding_length (flen f))
            else
              and_then (sub_usize (length payload) padding_length) (\<lambda>pos.
              and_then (bytes_split_at payload pos) (\<lambda>(payload, _). Ok payload))))
      else Ok payload)"

definition MAX_FRAME_HEADER_SIZE :: nat where
  "MAX_FRAME_HEADER_SIZE = 128"

text \<open>One turn of the loop up to the channel; \<^const>\<open>None\<close> when the peer has hung up.\<close>

definition read_frame ::
    "'r reading \<Rightarrow> nom \<Rightarrow> enumflags \<Rightarrow> u32 \<Rightarrow> bytes \<Rightarrow> 'r \<Rightarrow>
     ((bytes \<times> frame \<times> bytes) option, h2_connection_error) result \<times> 'r" where
  "read_frame io nom ef max_size buf r =
     (case read_and_parse io ''Http2Frame'' (frame_parse nom ef) MAX_FRAME_HEADER_SIZE buf r of
        (Panic, r) \<Rightarrow> (Panic, r)
      | (Err e, r) \<Rightarrow> (Err (ReadAndParse e), r)
      | (Ok None, r) \<Rightarrow> (Ok None, r)
      | (Ok (Some (buf, frame)), r) \<Rightarrow>
          if max_size < flen frame
          then (Err (FrameTooLarge (ftype frame) (flen frame) max_size), r)
          else
            (case read_and_parse io ''FramePayload'' (nom_take nom (unat (flen frame)))
                    (unat (flen frame)) buf r of
               (Panic, r) \<Rightarrow> (Panic, r)
             | (Err e, r) \<Rightarrow> (Err (ReadAndParse e), r)
             | (Ok None, r) \<Rightarrow> (Err (IncompleteFrame (ftype frame) (flen frame)), r)
             | (Ok (Some (buf, payload)), r) \<Rightarrow>
                 (and_then (remove_padding frame payload) (\<lambda>payload. Ok (Some (buf, frame, payload))), r)))"

text \<open>\<open>send\<close> is the channel to the processing task; it returns \<^const>\<open>None\<close> when the receiver is gone.\<close>

partial_function (option) deframe_loop ::
    "'r reading \<Rightarrow> nom \<Rightarrow> enumflags \<Rightarrow> u32 \<Rightarrow> ('t \<Rightarrow> frame \<times> bytes \<Rightarrow> 't option) \<Rightarrow>
     bytes \<Rightarrow> 'r \<Rightarrow> 't \<Rightarrow> ((unit, h2_connection_error) result \<times> 't \<times> 'r) option" where
  "deframe_loop io nom ef max_size send buf r tx =
     (case read_frame io nom ef max_size buf r of
        (Panic, r) \<Rightarrow> Some (Panic, tx, r)
      | (Err e, r) \<Rightarrow> Some (Err e, tx, r)
      | (Ok x, r) \<Rightarrow>
          (case x of
             None \<Rightarrow> Some (Ok (), tx, r)
           | Some (buf, frame, payload) \<Rightarrow>
               (case send tx (frame, payload) of
                  None \<Rightarrow> Some (Ok (), tx, r)
                | Some tx \<Rightarrow> deframe_loop io nom ef max_size send buf r tx)))"

declare deframe_loop.simps [code]

section \<open>The parsers of a frame are streaming parsers\<close>

lemma frame_parser:
  assumes "nom_spec nom"
  shows "streaming_parser (frame_parse nom ef) MAX_FRAME_HEADER_SIZE"
proof -
  have eq: "frame_parse nom ef i =
      (if length i < 9 then Err Incomplete else Ok (drop 9 i, frame_of_bytes ef (take 9 i)))" for i
    using frame_parse_short[OF assms] frame_parse_long[OF assms] by simp
  show ?thesis
    by unfold_locales
       (auto simp: eq MAX_FRAME_HEADER_SIZE_def split: if_splits intro: append_take_drop_id[symmetric])
qed

lemma take_parser:
  assumes "nom_spec nom"
  shows "streaming_parser (nom_take nom n) n"
proof -
  have eq: "nom_take nom n i = (if length i < n then Err Incomplete else Ok (drop n i, take n i))" for i
    using assms by (simp add: nom_spec_def)
  show ?thesis
    by unfold_locales (auto simp: eq split: if_splits intro: append_take_drop_id[symmetric])
qed

interpretation frame_header: streaming_parser "frame_parse nom_std ef" MAX_FRAME_HEADER_SIZE
  by (rule frame_parser[OF nom_std_spec])

interpretation frame_payload: streaming_parser "nom_take nom_std n" n
  by (rule take_parser[OF nom_std_spec])

section \<open>The byte stream as a whole\<close>

lemma remove_padding_returns: "remove_padding f payload \<noteq> Panic"
  by (auto simp: remove_padding_def bytes_split_at_def index_at_def sub_usize_def Let_def Suc_le_eq)

function deframe_bytes ::
    "enumflags \<Rightarrow> u32 \<Rightarrow> bytes \<Rightarrow> (frame \<times> bytes) list \<times> (unit, h2_connection_error) result" where
  "deframe_bytes ef max_size i =
     (if i = [] then ([], Ok ())
      else if length i < 9 then ([], Err (ReadAndParse (ReadError UnexpectedEof)))
      else
        let f = frame_of_bytes ef (take 9 i); rest = drop 9 i; n = unat (flen f) in
        if max_size < flen f then ([], Err (FrameTooLarge (ftype f) (flen f) max_size))
        else if length rest < n then
          ([], Err (if rest = [] then IncompleteFrame (ftype f) (flen f)
                    else ReadAndParse (ReadError UnexpectedEof)))
        else
          (case remove_padding f (take n rest) of
             Ok payload \<Rightarrow>
               (case deframe_bytes ef max_size (drop n rest) of
                  (fs, out) \<Rightarrow> ((f, payload) # fs, out))
           | Err e \<Rightarrow> ([], Err e)
           | Panic \<Rightarrow> ([], Panic)))"
  by pat_completeness auto
termination
  by (relation "measure (\<lambda>(_, _, i). length i)") auto

declare deframe_bytes.simps [simp del]

lemma deframe_bytes_Nil [simp]: "deframe_bytes ef max_size [] = ([], Ok ())"
  by (simp add: deframe_bytes.simps)

locale deframed_stream = buffered_source io left good
  for io :: "'r reading" and left and good +
  fixes nom :: nom
  assumes nom: "nom_spec nom"
begin

sublocale header: parsed_stream "frame_parse nom ef" MAX_FRAME_HEADER_SIZE io left good
  by (rule parsed_stream.intro[OF frame_parser[OF nom] buffered_source_axioms])

sublocale payload: parsed_stream "nom_take nom n" n io left good
  by (rule parsed_stream.intro[OF take_parser[OF nom] buffered_source_axioms])

lemma header_whole:
  "header.whole ef name i =
     (if i = [] then Ok None
      else if length i < 9 then Err (ReadError UnexpectedEof)
      else Ok (Some (drop 9 i, frame_of_bytes ef (take 9 i))))"
  using frame_parse_short[OF nom, of i ef] frame_parse_long[OF nom, of i ef]
  by (cases i) (auto simp: header.whole_def)

lemma payload_whole:
  "payload.whole n name i =
     (if n \<le> length i then Ok (Some (drop n i, take n i))
      else if i = [] then Ok None else Err (ReadError UnexpectedEof))"
  using nom by (auto simp: payload.whole_def nom_spec_def)

lemma read_frame_agrees:
  assumes "good r" and rf: "read_frame io nom ef max_size buf r = (out, r')"
  shows "good r' \<and>
    (case out of
       Ok None \<Rightarrow> deframe_bytes ef max_size (buf @ left r) = ([], Ok ())
     | Ok (Some (buf', f, p)) \<Rightarrow>
         deframe_bytes ef max_size (buf @ left r) =
           (case deframe_bytes ef max_size (buf' @ left r') of (fs, out) \<Rightarrow> ((f, p) # fs, out)) \<and>
         length (buf' @ left r') < length (buf @ left r)
     | Err e \<Rightarrow> deframe_bytes ef max_size (buf @ left r) = ([], Err e)
     | Panic \<Rightarrow> False)"
proof -
  define i where "i = buf @ left r"
  note df = deframe_bytes.simps[of ef max_size i]
  obtain res r1 where h: "read_and_parse io ''Http2Frame'' (frame_parse nom ef) MAX_FRAME_HEADER_SIZE buf r = (res, r1)"
    by (cases "read_and_parse io ''Http2Frame'' (frame_parse nom ef) MAX_FRAME_HEADER_SIZE buf r")
  note ag = header.read_and_parse_agrees[OF assms(1), of ef "''Http2Frame''" buf, unfolded h header.agrees_def header_whole i_def[symmetric]]
  show ?thesis
  proof (cases "length i < 9")
    case True
    with ag rf show ?thesis unfolding i_def[symmetric]
      by (auto simp: read_frame_def h df split: result.splits option.splits if_splits)
  next
    case False
    then have ne: "i \<noteq> []" by (cases i) auto
    with ag False obtain rest where res: "res = Ok (Some (rest, frame_of_bytes ef (take 9 i)))"
      and rest: "rest @ left r1 = drop 9 i" and good: "good r1"
      by (auto split: result.splits option.splits if_splits)
    define f where "f = frame_of_bytes ef (take 9 i)"
    define n where "n = unat (flen f)"
    show ?thesis
    proof (cases "max_size < flen f")
      case True
      with False ne good rf show ?thesis unfolding i_def[symmetric]
        by (auto simp: read_frame_def h res f_def[symmetric] df Let_def)
    next
      case small: False
      obtain res2 r2 where p: "read_and_parse io ''FramePayload'' (nom_take nom n) n rest r1 = (res2, r2)"
        by (cases "read_and_parse io ''FramePayload'' (nom_take nom n) n rest r1")
      note ag2 = payload.read_and_parse_agrees[OF good, of n "''FramePayload''" rest, unfolded p payload.agrees_def
          payload_whole rest]
      show ?thesis
      proof (cases "n \<le> length (drop 9 i)")
        case True
        with ag2 obtain rest2 where res2: "res2 = Ok (Some (rest2, take n (drop 9 i)))"
          and rest2: "rest2 @ left r2 = drop n (drop 9 i)" and good2: "good r2"
          by (auto split: result.splits option.splits)
        have "length (rest2 @ left r2) < length i" using rest2 False by simp
        with False ne small True good2 rf show ?thesis unfolding i_def[symmetric]
          using remove_padding_returns[of f "take n (drop 9 i)"] rest2
          by (cases "remove_padding f (take n (drop 9 i))")
             (auto simp: read_frame_def h res f_def[symmetric] n_def[symmetric] p res2 df Let_def)
      next
        case False
        with False ne small \<open>\<not> length i < 9\<close> ag2 rf show ?thesis unfolding i_def[symmetric]
          by (auto simp: read_frame_def h res f_def[symmetric] n_def[symmetric] p df Let_def
              split: result.splits option.splits if_splits)
      qed
    qed
  qed
qed

lemma deframe_loop_agrees:
  assumes "good r" and "\<And>t x. send t x = Some (t @ [x])"
  shows "\<exists>r'. deframe_loop io nom ef max_size send buf r tx =
    Some (snd (deframe_bytes ef max_size (buf @ left r)), tx @ fst (deframe_bytes ef max_size (buf @ left r)), r') \<and>
    snd (deframe_bytes ef max_size (buf @ left r)) \<noteq> Panic"
  using assms(1)
proof (induction "length (buf @ left r)" arbitrary: buf r tx rule: less_induct)
  case less
  obtain res r' where rf: "read_frame io nom ef max_size buf r = (res, r')"
    by (cases "read_frame io nom ef max_size buf r")
  note ag = read_frame_agrees[OF less.prems rf]
  note unf = deframe_loop.simps[of io nom ef max_size send buf r tx] rf
  show ?case
  proof (cases "\<exists>buf' f p. res = Ok (Some (buf', f, p))")
    case True
    then obtain buf' f p where res: "res = Ok (Some (buf', f, p))" by blast
    with ag have "good r'" and "length (buf' @ left r') < length (buf @ left r)"
      and eq: "deframe_bytes ef max_size (buf @ left r) =
        ((f, p) # fst (deframe_bytes ef max_size (buf' @ left r')), snd (deframe_bytes ef max_size (buf' @ left r')))"
      by (auto split: prod.splits)
    from less.hyps[OF this(2,1), of "tx @ [(f, p)]"] show ?thesis
      by (auto simp: unf res assms(2) eq)
  next
    case False
    with ag show ?thesis by (auto simp: unf split: result.splits option.splits)
  qed
qed

end

interpretation pipe_stream: deframed_stream pipe_reading pr_left pr_good nom_std
  by unfold_locales (rule nom_std_spec)



section \<open>Written frames are read back\<close>

text \<open>The bytes of a frame on the wire: the header with the length of the payload, and the payload.\<close>

definition frame_wire :: "'w deps \<Rightarrow> frame \<times> bytes list \<Rightarrow> bytes" where
  "frame_wire d fp =
     (case frame_into_piece d ((fst fp)\<lparr>flen := of_nat (as_frame_len (snd fp))\<rparr>) [] of
        (Ok header, _) \<Rightarrow> header @ concat (snd fp)
      | _ \<Rightarrow> [])"

definition sendable :: "u32 \<Rightarrow> frame \<times> bytes list \<Rightarrow> bool" where
  "sendable max_size fp \<longleftrightarrow> frame_type_wf (ftype (fst fp)) \<and> \<not> has_padding (fst fp) \<and> reserved (fst fp) = 0 \<and>
     fstream_id (fst fp) AND 0x7FFFFFFF = fstream_id (fst fp) \<and>
     as_frame_len (snd fp) \<le> unat max_size \<and> as_frame_len (snd fp) < 2 ^ 24"

definition received :: "frame \<times> bytes list \<Rightarrow> frame \<times> bytes" where
  "received fp = ((fst fp)\<lparr>flen := of_nat (as_frame_len (snd fp))\<rparr>, concat (snd fp))"

lemma deframe_bytes_frame:
  assumes "nom_spec (d_nom d)" and "byteorder_spec (d_bo d)" and "enumflags_spec (d_ef d)" and "sendable max_size fp"
  shows "deframe_bytes (d_ef d) max_size (frame_wire d fp @ i) =
    (case deframe_bytes (d_ef d) max_size i of (fs, out) \<Rightarrow> (received fp # fs, out))"
proof -
  obtain f pl where fp: "fp = (f, pl)" by (cases fp)
  define f' where "f' = f\<lparr>flen := of_nat (as_frame_len pl)\<rparr>"
  have len: "unat (flen f') = as_frame_len pl" and small: "\<not> max_size < flen f'" and pad: "\<not> has_padding f'"
    and wf: "frame_wf f'"
    using assms(4) fp
    by (auto simp: sendable_def f'_def unat_of_nat word_less_nat_alt frame_wf_def has_padding_def split: frame_type.split)
  from frame_written[OF assms(1-3) wf, of "[]"] obtain bs where
    bs: "frame_write_into (d_ef d) (d_bo d) vec_write_all f' [] = (Ok (), [] @ bs)" "length bs = 9"
      "\<And>rest. frame_parse (d_nom d) (d_ef d) (bs @ rest) = Ok (rest, f')" by blast
  from bs(3)[of "[]"] have f': "frame_of_bytes (d_ef d) bs = f'"
    using frame_parse_long[OF assms(1), of "bs @ []" "d_ef d"] bs(2) by simp
  have wire: "frame_wire d fp = bs @ concat pl"
    using bs(1,2) by (auto simp: frame_wire_def fp f'_def[symmetric] frame_into_piece_def)
  have "bs \<noteq> []" using bs(2) by auto
  then show ?thesis
    by (subst deframe_bytes.simps)
       (simp add: wire[unfolded fp] bs(2) f' Let_def small len as_frame_len_def remove_padding_def pad received_def fp
         f'_def[unfolded as_frame_len_def, symmetric])
qed

lemma deframe_bytes_frames:
  assumes "nom_spec (d_nom d)" and "byteorder_spec (d_bo d)" and "enumflags_spec (d_ef d)"
    and "\<forall>fp\<in>set fps. sendable max_size fp"
  shows "deframe_bytes (d_ef d) max_size (concat (map (frame_wire d) fps)) = (map received fps, Ok ())"
  using assms(4) by (induction fps) (simp_all add: deframe_bytes_frame[OF assms(1-3)])

lemma write_frame_wire:
  assumes "write_frame d f pl c = (Ok (), c')" and "out_scratch c = []" and "d_write d = vec_write_all"
  shows "transport_w c' = transport_w c @ frame_wire d (f, pl) \<and> out_scratch c' = []"
  using assms
  by (auto simp: write_frame_def frame_wire_def vec_write_all_def Let_def frame_into_piece_def result_simps
      split: result.splits prod.splits if_splits)

lemma write_frames_wire:
  assumes "write_frames d fps c = (Ok (), c')" and "out_scratch c = []" and "d_write d = vec_write_all"
  shows "transport_w c' = transport_w c @ concat (map (frame_wire d) fps)"
  using assms
proof (induction fps arbitrary: c)
  case (Cons fp fps)
  obtain f pl where fp: "fp = (f, pl)" by (cases fp)
  with Cons.prems(1) obtain c1 where c1: "write_frame d f pl c = (Ok (), c1)" "write_frames d fps c1 = (Ok (), c')"
    by (auto simp: result_simps)
  from write_frame_wire[OF c1(1) Cons.prems(2,3)] Cons.IH[OF c1(2) _ Cons.prems(3)] fp show ?case by simp
qed simp


definition deframe_demo_deps :: "bytes deps" where
  "deframe_demo_deps = \<lparr>d_nom = nom_std, d_bo = byteorder_std, d_slice_bo = byteorder_std, d_ef = enumflags_std,
     d_http = http_list, d_write = vec_write_all, d_alive = (\<lambda>_. True), d_order = (\<lambda>xs. xs), d_chan_size = 32\<rparr>"


end
