(* ===== verification/H2_Work.thy ===== *)
theory H2_Work
  imports H2_Safety H2_Deframe
begin

text \<open>
  A whole HTTP/2 connection (\<open>work\<close>, \<open>crates/loona/src/h2/server.rs\<close>): the preface, the initial SETTINGS
  frame, the deframer and the processing task side by side, and the final GOAWAY. The two tasks run
  concurrently and the peer may send for ever, so this is a relation: the frames that the processing task
  sees are those the deframer has passed on. The text of an error, which \<open>thiserror\<close> generates, is a
  parameter (\<open>fmt\<close>). When the connection is given up, the processing task is dropped in any state.
\<close>

section \<open>The processing task\<close>

text \<open>\<open>process_loop\<close> ends when the channel is closed and empty, or when a turn fails.\<close>

inductive process_loop ::
    "'w deps \<Rightarrow> rx \<times> 'w server_context \<Rightarrow> (unit, h2_connection_error) result \<times> 'w server_context \<Rightarrow> bool" for d where
  loop_hung_up: "process_loop d ([], c) (Ok (), c)"
| loop_frame_fails: "process_frame d f payload (rx, c) = Some (r, rx', c') \<Longrightarrow> r \<noteq> Ok () \<Longrightarrow>
    process_loop d ((f, payload) # rx, c) (r, c')"
| loop_event_fails: "ev_queue c = ev # q \<Longrightarrow> handle_event d ev (c\<lparr>ev_queue := q\<rparr>) = (r, c') \<Longrightarrow> r \<noteq> Ok () \<Longrightarrow>
    process_loop d (rx, c) (r, c')"
| loop_send_fails: "send_data_notified (sc_state c) \<Longrightarrow>
    send_data_maybe d (st_upd (\<lambda>s. s\<lparr>send_data_notified := False\<rparr>) c) = Some (r, c') \<Longrightarrow> r \<noteq> Ok () \<Longrightarrow>
    process_loop d (rx, c) (r, c')"
| loop_turn: "conn_step d st st' \<Longrightarrow> process_loop d st' out \<Longrightarrow> process_loop d st out"

section \<open>The two tasks\<close>

text \<open>A turn of the deframer that passes a frame on.\<close>

inductive deframe_turn ::
    "'r reading \<Rightarrow> 'w deps \<Rightarrow> u32 \<Rightarrow> bytes \<times> 'r \<times> rx \<Rightarrow> bytes \<times> 'r \<times> rx \<Rightarrow> bool" for io d max_size where
  "read_frame io (d_nom d) (d_ef d) max_size buf r = (Ok (Some (buf', f, payload)), r') \<Longrightarrow>
    deframe_turn io d max_size (buf, r, tx) (buf', r', tx @ [(f, payload)])"

text \<open>What \<open>select!\<close> makes of the end of the deframer: the connection is given up at once, or the processing
  task is waited for and the error is turned into a GOAWAY.\<close>

fun after_deframe :: "(unit, h2_connection_error) result \<Rightarrow> (h2_connection_error option, 'd serve_error) result" where
  "after_deframe (Ok _) = Ok None"
| "after_deframe (Err (ReadAndParse e)) =
     (if e = ReadError ConnectionReset then Ok None else Err (ServeConnection (ReadAndParse e)))"
| "after_deframe (Err e) = Ok (Some e)"
| "after_deframe Panic = Panic"

inductive run_tasks ::
    "'w deps \<Rightarrow> 'r reading \<Rightarrow> bytes \<Rightarrow> 'r \<Rightarrow> 'w server_context \<Rightarrow>
     (h2_connection_error option, 'd serve_error) result \<times> 'w server_context \<Rightarrow> bool" for d io buf r c where
  deframe_fatal:
    "deframe_loop io (d_nom d) (d_ef d) (max_frame_size (self_settings (sc_state c))) (\<lambda>t x. Some (t @ [x])) buf r [] =
       Some (dr, fs, r') \<Longrightarrow> after_deframe dr = res \<Longrightarrow> (\<nexists>g. res = Ok g) \<Longrightarrow>
     (conn_step d)\<^sup>*\<^sup>* (fs, c) (rx, c') \<Longrightarrow> run_tasks d io buf r c (res, c')"
| deframe_first:
    "deframe_loop io (d_nom d) (d_ef d) (max_frame_size (self_settings (sc_state c))) (\<lambda>t x. Some (t @ [x])) buf r [] =
       Some (dr, fs, r') \<Longrightarrow> (after_deframe dr :: (_, 'd serve_error) result) = Ok g \<Longrightarrow> process_loop d (fs, c) (pr, c') \<Longrightarrow>
     run_tasks d io buf r c (case pr of Ok _ \<Rightarrow> Ok g | Err e \<Rightarrow> Err (ServeConnection e) | Panic \<Rightarrow> Panic, c')"
| process_first:
    "(deframe_turn io d (max_frame_size (self_settings (sc_state c))))\<^sup>*\<^sup>* (buf, r, []) (buf', r', fs) \<Longrightarrow>
     process_loop d (fs, c) (pr, c') \<Longrightarrow> pr \<noteq> Ok () \<Longrightarrow>
     run_tasks d io buf r c (case pr of Ok _ \<Rightarrow> Ok None | Err e \<Rightarrow> Ok (Some e) | Panic \<Rightarrow> Panic, c')"

section \<open>Opening and closing\<close>

definition initial_settings :: "settings \<Rightarrow> (setting \<times> u32) list" where
  "initial_settings s =
     [(EnablePush, 0), (HeaderTableSize, header_table_size s), (InitialWindowSize, initial_window_size s),
      (MaxConcurrentStreams, case max_concurrent_streams s of Some m \<Rightarrow> m | None \<Rightarrow> - 1),
      (MaxFrameSize, max_frame_size s), (MaxHeaderListSize, max_header_list_size s)]"

definition send_initial_settings ::
    "'w deps \<Rightarrow> 'w server_context \<Rightarrow> (unit, h2_connection_error) result \<times> 'w server_context" where
  "send_initial_settings d c =
     (let pairs = initial_settings (self_settings (sc_state c)) in
      case scratch_put_to_roll (length pairs * 6) (setting_pairs_write (d_slice_bo d) slice_write_all pairs)
             (out_scratch c) of
        (Ok payload, scratch) \<Rightarrow>
          write_frame d (frame_new (Settings {}) CONNECTION) [payload] (c\<lparr>out_scratch := scratch\<rparr>)
      | (_, scratch) \<Rightarrow> (Panic, c\<lparr>out_scratch := scratch\<rparr>))"

definition goaway_payload ::
    "'w deps \<Rightarrow> stream_id \<Rightarrow> known_error_code \<Rightarrow> bytes \<Rightarrow> bytes \<Rightarrow> (bytes, buf_error) result \<times> bytes" where
  "goaway_payload d lsid code debug_data =
     scratch_put_to_roll (8 + length debug_data) (\<lambda>w.
       bind_st (write_u32_be (d_slice_bo d) slice_write_all w lsid) (\<lambda>_ w.
       bind_st (write_u32_be (d_slice_bo d) slice_write_all w (known_error_code_repr code)) (\<lambda>_ w.
         slice_write_all w debug_data)))"

definition send_goaway ::
    "'w deps \<Rightarrow> (h2_connection_error \<Rightarrow> bytes) \<Rightarrow> h2_connection_error \<Rightarrow> 'w server_context \<Rightarrow>
     (unit, 'd serve_error) result \<times> 'w server_context" where
  "send_goaway d fmt e c =
     (case goaway_payload d (conn_state.last_stream_id (sc_state c)) (conn_error_code e) (fmt e) (out_scratch c) of
        (Ok payload, scratch) \<Rightarrow>
          map_err_st ServeConnection
            (write_frame d (frame_new GoAway CONNECTION) [payload] (c\<lparr>out_scratch := scratch\<rparr>))
      | (Err e, scratch) \<Rightarrow> (Err (ServeAlloc e), c\<lparr>out_scratch := scratch\<rparr>)
      | (Panic, scratch) \<Rightarrow> (Panic, c\<lparr>out_scratch := scratch\<rparr>))"

text \<open>What happens after the tasks.\<close>

definition close_connection ::
    "'w deps \<Rightarrow> (h2_connection_error \<Rightarrow> bytes) \<Rightarrow>
     (h2_connection_error option, 'd serve_error) result \<times> 'w server_context \<Rightarrow>
     (serve_outcome, 'd serve_error) result \<times> 'w server_context" where
  "close_connection d fmt out =
     bind_st out (\<lambda>goaway_err c.
       case goaway_err of
         None \<Rightarrow> (Ok SuccessfulHttp2GracefulShutdown, c)
       | Some e \<Rightarrow> bind_st (send_goaway d fmt e c) (\<lambda>_ c. (Ok SuccessfulHttp2GracefulShutdown, c)))"

definition read_preface ::
    "'r reading \<Rightarrow> 'w deps \<Rightarrow> bytes \<Rightarrow> 'r \<Rightarrow> ((bytes \<times> unit) option, read_and_parse_error) result \<times> 'r" where
  "read_preface io d buf r = read_and_parse io ''Http2Preface'' (preface (d_nom d)) (length PREFACE) buf r"

inductive work ::
    "'w deps \<Rightarrow> 'r reading \<Rightarrow> (h2_connection_error \<Rightarrow> bytes) \<Rightarrow> bytes \<Rightarrow> 'r \<Rightarrow> 'w server_context \<Rightarrow>
     (serve_outcome, 'd serve_error) result \<times> 'w server_context \<Rightarrow> bool" for d io fmt buf r c where
  no_preface: "read_preface io d buf r = (Ok None, r') \<Longrightarrow> work d io fmt buf r c (Ok ClientDidntSpeakHttp2, c)"
| bad_preface: "read_preface io d buf r = (Err e, r') \<Longrightarrow> work d io fmt buf r c (Err (ServeConnection (ReadAndParse e)), c)"
| preface_panics: "read_preface io d buf r = (Panic, r') \<Longrightarrow> work d io fmt buf r c (Panic, c)"
| settings_fail: "read_preface io d buf r = (Ok (Some (buf', ())), r') \<Longrightarrow>
    send_initial_settings d c = (res, c') \<Longrightarrow> res \<noteq> Ok () \<Longrightarrow>
    work d io fmt buf r c (map_err_st ServeConnection (and_then res (\<lambda>_. Panic), c'))"
| serves: "read_preface io d buf r = (Ok (Some (buf', ())), r') \<Longrightarrow>
    send_initial_settings d c = (Ok (), c') \<Longrightarrow> run_tasks d io buf' r' c' out \<Longrightarrow>
    work d io fmt buf r c (close_connection d fmt out)"

section \<open>What the peer sees\<close>

text \<open>A frame on the connection that carries one piece reaches a deframer.\<close>

lemma connection_frame_sent:
  assumes "deps_ok d" and "d_write d = vec_write_all" and "out_scratch c = []" and "length p < 2 ^ 24"
    and "length p \<le> unat max_size" and "ft = Settings {} \<or> ft = GoAway"
  shows "\<exists>w. write_frame d (frame_new ft CONNECTION) [p] c = (Ok (), c\<lparr>transport_w := transport_w c @ w\<rparr>) \<and>
    deframe_bytes (d_ef d) max_size w = ([((frame_new ft CONNECTION)\<lparr>flen := of_nat (length p)\<rparr>, p)], Ok ())"
proof -
  let ?f = "frame_new ft CONNECTION"
  have "transport_ok d" using assms(2) by (simp add: transport_ok_def vec_write_all_def)
  moreover have "write_frame_state ?f [p] (sc_state c) = Ok (sc_state c)"
    using assms(6) by (auto simp: write_frame_state_def frame_new_def)
  ultimately obtain w where w: "write_frame d ?f [p] c = (Ok (), c\<lparr>sc_state := sc_state c, transport_w := w\<rparr>)"
    using write_frame_writes[OF assms(1), of ?f "[p]" c "sc_state c"] assms(3,4)
    by (auto simp: frame_new_def sid_ok_def CONNECTION_def)
  have "w = transport_w c @ frame_wire d (?f, [p])"
    using write_frame_wire[OF w assms(3,2)] by simp
  moreover have "sendable max_size (?f, [p])"
    using assms(4-6) by (auto simp: sendable_def frame_new_def has_padding_def CONNECTION_def as_frame_len_def)
  then have "deframe_bytes (d_ef d) max_size (frame_wire d (?f, [p])) = ([received (?f, [p])], Ok ())"
    using deframe_bytes_frames[of d "[(?f, [p])]" max_size] assms(1) by (simp add: deps_ok_def)
  ultimately show ?thesis using w by (auto simp: received_def as_frame_len_def)
qed

lemma scratch_unchanged: "out_scratch c = [] \<Longrightarrow> c\<lparr>out_scratch := []\<rparr> = c"
  by simp

lemma initial_settings_visited:
  assumes "settings_ok s" and "\<not> enable_push s"
  shows "visit_settings (initial_settings s) settings_apply settings_default =
    (Ok (), s\<lparr>max_concurrent_streams := Some (case max_concurrent_streams s of Some m \<Rightarrow> m | None \<Rightarrow> - 1)\<rparr>)"
proof -
  have "\<not> MAX_INITIAL_WINDOW_SIZE < initial_window_size s"
      "fst MAX_FRAME_SIZE_ALLOWED_RANGE \<le> max_frame_size s" "max_frame_size s \<le> snd MAX_FRAME_SIZE_ALLOWED_RANGE"
    using assms(1) by (simp_all add: settings_ok_def MAX_INITIAL_WINDOW_SIZE_def MAX_FRAME_SIZE_ALLOWED_RANGE_def
        word_less_nat_alt word_le_nat_alt)
  then show ?thesis
    using assms(2) by (cases s) (simp add: initial_settings_def settings_apply_def settings_default_def)
qed

text \<open>C35: the server opens a connection with a SETTINGS frame that a peer's deframer accepts, and the peer that
  applies it to the initial values has exactly the settings that the server enforces; no limit on the number
  of streams is sent as the largest number.\<close>

theorem initial_settings_received:
  assumes "deps_ok d" and "d_write d = vec_write_all" and "out_scratch c = []" and "36 \<le> unat max_size"
    and "settings_ok (self_settings (sc_state c))" and "\<not> enable_push (self_settings (sc_state c))"
  shows "\<exists>w payload. send_initial_settings d c = (Ok (), c\<lparr>transport_w := transport_w c @ w\<rparr>) \<and>
    deframe_bytes (d_ef d) max_size w = ([((frame_new (Settings {}) CONNECTION)\<lparr>flen := 36\<rparr>, payload)], Ok ()) \<and>
    settings_parse payload settings_apply settings_default =
      (Ok (), (self_settings (sc_state c))\<lparr>max_concurrent_streams :=
         Some (case max_concurrent_streams (self_settings (sc_state c)) of Some m \<Rightarrow> m | None \<Rightarrow> - 1)\<rparr>)"
proof -
  let ?pairs = "initial_settings (self_settings (sc_state c))"
  let ?p = "concat (map setting_pair_bytes ?pairs)"
  have bo: "byteorder_spec (d_slice_bo d)" using assms(1) by (simp add: deps_ok_def)
  have len: "length ?pairs * 6 = 36" by (simp add: initial_settings_def)
  then have lenp: "length ?p = 36" using length_setting_pairs[of ?pairs] by simp
  have "scratch_put_to_roll (length ?pairs * 6) (setting_pairs_write (d_slice_bo d) slice_write_all ?pairs) [] = (Ok ?p, [])"
    using scratch_put_to_roll_ok[OF setting_pairs_writes[OF bo, of ?pairs]] lenp len by simp
  then have "send_initial_settings d c = write_frame d (frame_new (Settings {}) CONNECTION) [?p] (c\<lparr>out_scratch := []\<rparr>)"
    using assms(3) by (simp add: send_initial_settings_def Let_def)
  then have "send_initial_settings d c = write_frame d (frame_new (Settings {}) CONNECTION) [?p] c"
    by (simp only: scratch_unchanged[OF assms(3)])
  moreover have "settings_parse ?p settings_apply settings_default = visit_settings ?pairs settings_apply settings_default"
    using lenp by (simp add: settings_parse_def settings_parse_pairs del: length_concat)
  ultimately show ?thesis
    using connection_frame_sent[OF assms(1-3), of ?p max_size "Settings {}"] lenp assms(4)
      initial_settings_visited[OF assms(5,6)] by auto
qed

theorem initial_settings_received_witness:
  "\<exists>w payload. send_initial_settings deps_std (serve_context (Some 32) []) =
      (Ok (), (serve_context (Some 32) [] :: bytes server_context)\<lparr>transport_w := w\<rparr>) \<and>
    deframe_bytes enumflags_std 16384 w = ([((frame_new (Settings {}) CONNECTION)\<lparr>flen := 36\<rparr>, payload)], Ok ()) \<and>
    settings_parse payload settings_apply settings_default =
      (Ok (), settings_default\<lparr>max_concurrent_streams := Some 32\<rparr>)"
proof -
  let ?c = "serve_context (Some 32) [] :: bytes server_context"
  have c: "self_settings (sc_state ?c) = settings_default\<lparr>max_concurrent_streams := Some 32\<rparr>" "out_scratch ?c = []"
      "transport_w ?c = []" "d_write deps_std = vec_write_all" "d_ef deps_std = enumflags_std"
    by (simp_all add: serve_context_def server_context_new_def conn_state_default_def deps_std_def)
  have "settings_ok (settings_default\<lparr>max_concurrent_streams := Some 32\<rparr>)" "\<not> enable_push settings_default"
    by (simp_all add: settings_ok_def settings_default_def)
  then show ?thesis
    using initial_settings_received[OF deps_std_ok(1) c(4,2), of 16384] c by simp
qed

text \<open>When a task ends with a connection error, the last thing the peer receives is a GOAWAY frame on the
  connection, which it reads as the last stream the server has accepted, the error code of the error and its
  text, and the connection is closed in order.\<close>

lemma goaway_received:
  fixes e :: h2_connection_error
  assumes "deps_ok d" and "d_write d = vec_write_all" and "out_scratch c = []"
    and "8 + length (fmt e) \<le> unat max_size" and "unat max_size < 2 ^ 24"
  shows "\<exists>w f payload. close_connection d fmt (Ok (Some e), c) =
      (Ok SuccessfulHttp2GracefulShutdown :: (_, 'd serve_error) result, c\<lparr>transport_w := transport_w c @ w\<rparr>) \<and>
    deframe_bytes (d_ef d) max_size w = ([(f, payload)], Ok ()) \<and> ftype f = GoAway \<and> fstream_id f = CONNECTION \<and>
    go_away_parse (d_nom d) payload =
      Ok ([], \<lparr>go_away.last_stream_id = conn_state.last_stream_id (sc_state c),
        ga_error_code = known_error_code_repr (conn_error_code e), additional_debug_data = fmt e\<rparr>)"
proof -
  let ?l = "conn_state.last_stream_id (sc_state c)" and ?code = "known_error_code_repr (conn_error_code e)"
  let ?p = "u32_to_be_bytes ?l @ u32_to_be_bytes ?code @ fmt e"
  have bo: "byteorder_spec (d_slice_bo d)" and nom: "nom_spec (d_nom d)" using assms(1) by (simp_all add: deps_ok_def)
  have len: "length ?p = 8 + length (fmt e)" by (simp add: u32_to_be_bytes_def)
  have "writes (\<lambda>w. bind_st (write_u32_be (d_slice_bo d) slice_write_all w ?l) (\<lambda>_ w.
      bind_st (write_u32_be (d_slice_bo d) slice_write_all w ?code) (\<lambda>_ w. slice_write_all w (fmt e)))) ?p"
    using bo by (intro writes_then writes_u32 writes_write_all)
  from scratch_put_to_roll_ok[OF this, unfolded len] assms(4,5)
  have "goaway_payload d ?l (conn_error_code e) (fmt e) [] = (Ok ?p, [])" by (simp add: goaway_payload_def)
  then have "(send_goaway d fmt e c :: (unit, 'd serve_error) result \<times> _) =
      map_err_st ServeConnection (write_frame d (frame_new GoAway CONNECTION) [?p] (c\<lparr>out_scratch := []\<rparr>))"
    using assms(3) by (simp add: send_goaway_def)
  then have "(send_goaway d fmt e c :: (unit, 'd serve_error) result \<times> _) =
      map_err_st ServeConnection (write_frame d (frame_new GoAway CONNECTION) [?p] c)"
    by (simp only: scratch_unchanged[OF assms(3)])
  moreover obtain w where "write_frame d (frame_new GoAway CONNECTION) [?p] c = (Ok (), c\<lparr>transport_w := transport_w c @ w\<rparr>)"
    and w: "deframe_bytes (d_ef d) max_size w = ([((frame_new GoAway CONNECTION)\<lparr>flen := of_nat (length ?p)\<rparr>, ?p)], Ok ())"
    using connection_frame_sent[OF assms(1-3), of ?p max_size GoAway] len assms(4,5) by auto
  ultimately have "close_connection d fmt (Ok (Some e), c) =
      (Ok SuccessfulHttp2GracefulShutdown :: (_, 'd serve_error) result, c\<lparr>transport_w := transport_w c @ w\<rparr>)"
    by (simp add: close_connection_def map_err_st_def)
  moreover have "go_away_parse (d_nom d) ?p = Ok ([], \<lparr>go_away.last_stream_id = ?l, ga_error_code = ?code, additional_debug_data = fmt e\<rparr>)"
    using nom be_u32_bytes[OF nom] by (simp add: go_away_parse_def nom_spec_def seq2_def)
  ultimately show ?thesis using w by (auto simp: frame_new_def)
qed

lemma goaway_received_witness:
  "\<exists>w f payload. close_connection deps_std (\<lambda>_. [0x6F, 0x68]) (Ok (Some ClientSentPushPromise), serve_context None []) =
      (Ok SuccessfulHttp2GracefulShutdown :: (_, unit serve_error) result,
       (serve_context None [] :: bytes server_context)\<lparr>transport_w := w\<rparr>) \<and>
    deframe_bytes enumflags_std 16384 w = ([(f, payload)], Ok ()) \<and>
    go_away_parse nom_std payload = Ok ([], \<lparr>go_away.last_stream_id = 0, ga_error_code = 1, additional_debug_data = [0x6F, 0x68]\<rparr>)"
proof -
  let ?c = "serve_context None [] :: bytes server_context"
  have c: "out_scratch ?c = []" "transport_w ?c = []" "conn_state.last_stream_id (sc_state ?c) = 0"
      "d_write deps_std = vec_write_all" "d_ef deps_std = enumflags_std" "d_nom deps_std = nom_std"
    by (simp_all add: serve_context_def server_context_new_def conn_state_default_def deps_std_def)
  from goaway_received[OF deps_std_ok(1) c(4,1), of "\<lambda>_. [0x6F, 0x68]" ClientSentPushPromise 16384, where 'd = unit]
  show ?thesis using c by (auto simp: conn_error_code_def)
qed

section \<open>The preface\<close>

lemma preface_eq:
  assumes "nom_spec nom"
  shows "preface nom i =
    (if prefix PREFACE i then Ok (drop (length PREFACE) i, ())
     else if prefix i PREFACE then Err Incomplete else Err NomError)"
  using assms roll_compare_prefix[of i PREFACE] by (simp add: preface_def nom_spec_def)

lemma preface_parser:
  assumes "nom_spec nom"
  shows "streaming_parser (preface nom) (length PREFACE)"
proof
  fix i rest and a :: unit and xs e
  note eq = preface_eq[OF assms]
  show "preface nom i = Ok (rest, a) \<Longrightarrow> \<exists>pre. i = pre @ rest"
    by (auto simp: eq prefix_def split: if_splits)
  show "preface nom i = Ok (rest, a) \<Longrightarrow> preface nom (i @ xs) = Ok (rest @ xs, a)"
    by (auto simp: eq prefix_def split: if_splits)
  show "preface nom (i @ xs) = Err e" if "preface nom i = Err e" "e \<noteq> Incomplete"
  proof -
    have "\<not> prefix PREFACE i" "\<not> prefix i PREFACE" and e: "e = NomError" using that by (auto simp: eq split: if_splits)
    then have "\<not> prefix PREFACE (i @ xs)" "\<not> prefix (i @ xs) PREFACE"
      using prefix_same_cases[of PREFACE "i @ xs" i] append_prefixD by auto
    then show ?thesis using e by (simp add: eq)
  qed
  show "preface nom i \<noteq> Panic" by (simp add: eq)
  then show "preface nom i = Panic \<Longrightarrow> preface nom (i @ xs) = Panic" by simp
  show "preface nom i \<noteq> Err Incomplete" if "length PREFACE \<le> length i"
  proof -
    have "prefix PREFACE i" if "prefix i PREFACE"
      using that \<open>length PREFACE \<le> length i\<close> by (metis le_antisym not_equal_is_parallel parallelE prefix_length_le)
    then show ?thesis by (auto simp: eq)
  qed
qed

interpretation preface_std: streaming_parser "preface nom_std" "length PREFACE"
  by (rule preface_parser[OF nom_std_spec])

interpretation preface_pipe: parsed_stream "preface nom_std" "length PREFACE" pipe_reading pr_left pr_good
  by (rule parsed_stream.intro[OF preface_parser[OF nom_std_spec] pipe_source.buffered_source_axioms])

text \<open>A client that does not begin with the preface gets nothing: whatever pieces its bytes arrive in, the
  only way serving the connection ends is that the client did not speak HTTP/2, when it sent nothing at all,
  or a connection error, and nothing has been written.\<close>

lemma preface_is_required:
  assumes "d_nom d = nom_std" and "\<not> prefix PREFACE (concat ps)" and "\<forall>p\<in>set ps. p \<noteq> []"
    and "work d pipe_reading fmt [] (pipe_read_new (map PipePiece ps)) c (res, c')"
  shows "c' = c \<and> (if ps = [] then res = Ok ClientDidntSpeakHttp2
    else res = Err (ServeConnection (ReadAndParse
      (if prefix (concat ps) PREFACE then ReadError UnexpectedEof else ParsingError ''Http2Preface''))))"
proof -
  let ?r = "pipe_read_new (map PipePiece ps)" and ?i = "concat ps"
  obtain out r' where out: "read_preface pipe_reading d [] ?r = (out, r')" by (rule prod.exhaust)
  have "ps = [] \<longleftrightarrow> ?i = []" using assms(3) by (cases ps) auto
  moreover have "preface_pipe.agrees ''Http2Preface'' ?i (out, r')"
    using preface_pipe.read_and_parse_agrees[of ?r "''Http2Preface''" "[]"] pipe_good_pieces[OF assms(3)] assms(1) out
      pipe_left_pieces[of ps] by (simp add: read_preface_def)
  ultimately have "out = (if ps = [] then Ok None else Err (if prefix ?i PREFACE then ReadError UnexpectedEof
      else ParsingError ''Http2Preface''))"
    using assms(2) by (auto simp: preface_pipe.agrees_def preface_std.whole_def preface_eq[OF nom_std_spec]
        split: result.splits option.splits if_splits)
  with assms(4) out show ?thesis by (auto elim!: work.cases split: if_splits)
qed

lemma preface_is_required_witness:
  "\<exists>res c'. work deps_std pipe_reading (\<lambda>_. []) [] (pipe_read_new (map PipePiece [[0x47], [0x45, 0x54]]))
      (serve_context None [] :: bytes server_context) (res, c') \<and> c' = serve_context None [] \<and>
    res = (Err (ServeConnection (ReadAndParse (ParsingError ''Http2Preface''))) :: (_, unit serve_error) result)"
proof -
  let ?r = "pipe_read_new (map PipePiece [[0x47], [0x45, 0x54]])" and ?c = "serve_context None [] :: bytes server_context"
  have nom: "d_nom deps_std = nom_std" by (simp add: deps_std_def)
  have np: "\<not> prefix PREFACE [0x47, 0x45, 0x54]" "\<not> prefix [0x47, 0x45, 0x54] PREFACE"
    by (simp_all add: PREFACE_def byte_str_def)
  obtain out r' where out: "read_preface pipe_reading deps_std [] ?r = (out, r')" by (rule prod.exhaust)
  have "preface_pipe.agrees ''Http2Preface'' [0x47, 0x45, 0x54] (out, r')"
    using preface_pipe.read_and_parse_agrees[of ?r "''Http2Preface''" "[]"] pipe_good_pieces[of "[[0x47], [0x45, 0x54]]"] nom out
      pipe_left_pieces[of "[[0x47], [0x45, 0x54]]"] by (simp add: read_preface_def)
  then obtain e where "out = Err e"
    using np by (cases out) (auto simp: preface_pipe.agrees_def preface_std.whole_def preface_eq[OF nom_std_spec]
        split: result.splits option.splits if_splits)
  with out have "work deps_std pipe_reading (\<lambda>_. []) [] ?r ?c
      ((Err (ServeConnection (ReadAndParse e)) :: (_, unit serve_error) result), ?c)" by (intro bad_preface) simp
  from preface_is_required[OF nom _ _ this] this np show ?thesis by auto
qed

end
