(* ===== verification/H1_Parse.thy ===== *)
theory H1_Parse
  imports H2_Frames Loona_Util Loona_Types
begin

text \<open>
  The HTTP/1.1 parsers (\<open>crates/loona/src/h1/parse.rs\<close>): requests, responses, headers, and the sizes and
  line ends of chunks. The streaming combinators of \<open>nom\<close> are parameters; \<open>nom1_spec\<close> is their documented
  behaviour, stated with reference combinators. Those that search in the input do so with the
  operations of \<open>Roll\<close>, which are modelled. The loop over header lines has fuel, one unit per byte of input
  and one more: a header line takes at least one byte, so it never runs out (\<open>headers_loop_fuel\<close>). Every parser
  is a \<open>prefix_parser\<close>: more input never changes an answer.
\<close>

section \<open>The packages\<close>

text \<open>Reference combinators.\<close>

definition p_terminated :: "'a parser \<Rightarrow> 'b parser \<Rightarrow> 'a parser" where
  "p_terminated p q i = and_then (p i) (\<lambda>(i, a). and_then (q i) (\<lambda>(i, _). Ok (i, a)))"

definition p_preceded :: "'a parser \<Rightarrow> 'b parser \<Rightarrow> 'b parser" where
  "p_preceded p q i = and_then (p i) (\<lambda>(i, _). q i)"

definition p_opt :: "'a parser \<Rightarrow> 'a option parser" where
  "p_opt p i =
     (case p i of
        Ok (i, a) \<Rightarrow> Ok (i, Some a)
      | Err e \<Rightarrow> if e = NomError then Ok (i, None) else Err e
      | Panic \<Rightarrow> Panic)"

definition p_map_res :: "'a parser \<Rightarrow> ('a \<Rightarrow> 'b option) \<Rightarrow> 'b parser" where
  "p_map_res p f i =
     and_then (p i) (\<lambda>(i, a). case f a of Some b \<Rightarrow> Ok (i, b) | None \<Rightarrow> Err NomError)"

definition p_take_while1 :: "(u8 \<Rightarrow> bool) \<Rightarrow> bytes parser" where
  "p_take_while1 f i =
     (case iter_position (\<lambda>c. \<not> f c) 0 i of
        None \<Rightarrow> Err Incomplete
      | Some n \<Rightarrow> if n = 0 then Err NomError else Ok (drop n i, take n i))"

definition p_take_until :: "(u8 \<Rightarrow> bytes \<Rightarrow> nat option) \<Rightarrow> bytes \<Rightarrow> bytes parser" where
  "p_take_until memchr needle i =
     and_then (find_substring memchr i needle) (\<lambda>pos.
       case pos of None \<Rightarrow> Err Incomplete | Some n \<Rightarrow> Ok (drop n i, take n i))"

record nom1 =
  take_while1 :: "(u8 \<Rightarrow> bool) \<Rightarrow> bytes parser"
  take_until :: "bytes \<Rightarrow> bytes parser"
  terminated_method :: "req_method parser \<Rightarrow> unit parser \<Rightarrow> req_method parser"
  terminated_path :: "bytes parser \<Rightarrow> unit parser \<Rightarrow> bytes parser"
  terminated_version_tag :: "version parser \<Rightarrow> bytes parser \<Rightarrow> version parser"
  terminated_version_space :: "version parser \<Rightarrow> unit parser \<Rightarrow> version parser"
  terminated_number_tag :: "nat parser \<Rightarrow> bytes parser \<Rightarrow> nat parser"
  terminated_number_space :: "nat parser \<Rightarrow> unit parser \<Rightarrow> nat parser"
  terminated_bytes :: "bytes parser \<Rightarrow> bytes parser \<Rightarrow> bytes parser"
  preceded_bytes :: "unit parser \<Rightarrow> bytes parser \<Rightarrow> bytes parser"
  opt_bytes :: "bytes parser \<Rightarrow> bytes option parser"
  map_res_number :: "bytes parser \<Rightarrow> (bytes \<Rightarrow> nat option) \<Rightarrow> nat parser"
  map_res_bytes :: "bytes parser \<Rightarrow> (bytes \<Rightarrow> bytes option) \<Rightarrow> bytes parser"

text \<open>What HTTP/1.1 needs of the \<open>http\<close> package besides the header map: status codes, URIs, \<open>insert\<close>, and
  the iteration that consumes a header map, in which only the first value of a name comes with the name.\<close>

record http1 =
  hp_http :: http
  status_from_bytes :: "bytes \<Rightarrow> nat option"
  status_from_u16 :: "nat \<Rightarrow> nat option"
  canonical_reason :: "nat \<Rightarrow> bytes option"
  uri_from_str :: "bytes \<Rightarrow> bytes option"
  uri_path :: "bytes \<Rightarrow> bytes"
  hm_insert :: "headers \<Rightarrow> bytes \<Rightarrow> bytes \<Rightarrow> headers"
  hm_into_iter :: "headers \<Rightarrow> (bytes option \<times> bytes) list"

record h1_deps =
  h_nom :: nom
  h_nom1 :: nom1
  h_memchr :: "u8 \<Rightarrow> bytes \<Rightarrow> nat option"
  h_http1 :: http1

definition nom1_spec :: "(u8 \<Rightarrow> bytes \<Rightarrow> nat option) \<Rightarrow> nom1 \<Rightarrow> bool" where
  "nom1_spec memchr n \<longleftrightarrow>
     take_while1 n = p_take_while1 \<and> take_until n = p_take_until memchr \<and>
     terminated_method n = p_terminated \<and> terminated_path n = p_terminated \<and>
     terminated_version_tag n = p_terminated \<and> terminated_version_space n = p_terminated \<and>
     terminated_number_tag n = p_terminated \<and> terminated_number_space n = p_terminated \<and>
     terminated_bytes n = p_terminated \<and> preceded_bytes n = p_preceded \<and> opt_bytes n = p_opt \<and>
     map_res_number n = p_map_res \<and> map_res_bytes n = p_map_res"

section \<open>The code\<close>

definition CRLF :: bytes where "CRLF = [0x0D, 0x0A]"

definition is_ascii_graphic :: "u8 \<Rightarrow> bool" where
  "is_ascii_graphic c \<longleftrightarrow> 0x21 \<le> c \<and> c \<le> 0x7E"

definition is_delimiter :: "h1_deps \<Rightarrow> u8 \<Rightarrow> bool" where
  "is_delimiter h c \<longleftrightarrow> h_memchr h c (byte_str ''(),/:;<=>?@['' @ [0x5C] @ byte_str '']{}'' @ [0x22]) \<noteq> None"

definition is_tchar :: "h1_deps \<Rightarrow> u8 \<Rightarrow> bool" where
  "is_tchar h c \<longleftrightarrow> is_ascii_graphic c \<and> \<not> is_delimiter h c"

definition URI_CHARS :: bytes where
  "URI_CHARS =
     byte_str ''abcdefghijklmnopqrstuvwxyzABCDEFGHIJKLMNOPQRSTUVWXYZ0123456789-._~:/?#[]@!$&'' @ [0x27] @
     byte_str ''()*+,;%=''"

definition is_uri_char :: "h1_deps \<Rightarrow> u8 \<Rightarrow> bool" where
  "is_uri_char h c \<longleftrightarrow> h_memchr h c URI_CHARS \<noteq> None"

definition token :: "h1_deps \<Rightarrow> bytes parser" where
  "token h i = and_then (take_while1 (h_nom1 h) (is_tchar h) i) (\<lambda>(i, token). Ok (i, token))"

definition parse_method :: "h1_deps \<Rightarrow> req_method parser" where
  "parse_method h i = and_then (token h i) (\<lambda>(i, method). Ok (i, method_from method))"

definition parse_path :: "h1_deps \<Rightarrow> bytes parser" where
  "parse_path h i = and_then (take_while1 (h_nom1 h) (is_uri_char h) i) (\<lambda>(i, path). Ok (i, path))"

definition space1 :: "h1_deps \<Rightarrow> unit parser" where
  "space1 h i = and_then (take_while1 (h_nom1 h) (\<lambda>c. c = 0x20) i) (\<lambda>(i, _). Ok (i, ()))"

definition crlf :: "h1_deps \<Rightarrow> unit parser" where
  "crlf h i = and_then (nom_tag (h_nom h) CRLF i) (\<lambda>(i, _). Ok (i, ()))"

definition is_hex_digit :: "u8 \<Rightarrow> bool" where
  "is_hex_digit c \<longleftrightarrow> 0x30 \<le> c \<and> c \<le> 0x39 \<or> 0x41 \<le> c \<and> c \<le> 0x46 \<or> 0x61 \<le> c \<and> c \<le> 0x66"

definition hex_digit_value :: "u8 \<Rightarrow> nat" where
  "hex_digit_value c =
     (if 0x61 \<le> c then unat (c - 0x61) + 10 else if 0x41 \<le> c then unat (c - 0x41) + 10 else unat (c - 0x30))"

text \<open>\<open>u64::from_str_radix(s, 16)\<close>, which fails on overflow and on the empty string.\<close>

fun from_hex_loop :: "nat \<Rightarrow> bytes \<Rightarrow> nat option" where
  "from_hex_loop acc [] = Some acc"
| "from_hex_loop acc (c # cs) =
     (if \<not> is_hex_digit c then None
      else Option.bind (checked_u64 (acc * 16 + hex_digit_value c)) (\<lambda>acc. from_hex_loop acc cs))"

definition from_str_radix16 :: "bytes \<Rightarrow> nat option" where
  "from_str_radix16 s = (if s = [] then None else from_hex_loop 0 s)"

definition u64_text_hex :: "h1_deps \<Rightarrow> nat parser" where
  "u64_text_hex h =
     (let f = take_while1 (h_nom1 h) is_hex_digit;
          f = map_res_bytes (h_nom1 h) f (\<lambda>s. if from_utf8 s then Some s else None)
      in map_res_number (h_nom1 h) f from_str_radix16)"

definition chunk_size :: "h1_deps \<Rightarrow> nat parser" where
  "chunk_size h = terminated_number_tag (h_nom1 h) (u64_text_hex h) (nom_tag (h_nom h) CRLF)"

definition status_code :: "h1_deps \<Rightarrow> nat parser" where
  "status_code h i =
     and_then (map_res_number (h_nom1 h) (nom_take (h_nom h) 3) (status_from_bytes (h_http1 h)) i)
       (\<lambda>(i, code). Ok (i, code))"

definition http_version :: "h1_deps \<Rightarrow> version parser" where
  "http_version h i =
     and_then (nom_tag (h_nom h) (byte_str ''HTTP/1.'') i) (\<lambda>(i, _).
     and_then (nom_take (h_nom h) 1 i) (\<lambda>(i, version).
       case version of
         [] \<Rightarrow> Panic
       | b # _ \<Rightarrow> if b = 0x30 then Ok (i, HTTP_10) else if b = 0x31 then Ok (i, HTTP_11) else Err NomError))"

definition take_until_and_consume :: "h1_deps \<Rightarrow> bytes \<Rightarrow> bytes parser" where
  "take_until_and_consume h needle =
     terminated_bytes (h_nom1 h) (take_until (h_nom1 h) needle) (nom_tag (h_nom h) needle)"

definition parse_header :: "h1_deps \<Rightarrow> (bytes \<times> bytes) parser" where
  "parse_header h i =
     and_then (map_res_bytes (h_nom1 h) (take_until_and_consume h [0x3A])
         (header_name_from_bytes (hp_http (h_http1 h))) i) (\<lambda>(i, name).
     and_then (preceded_bytes (h_nom1 h) (space1 h) (take_until_and_consume h CRLF) i) (\<lambda>(i, hvalue).
       Ok (i, (name, hvalue))))"

fun headers_loop :: "h1_deps \<Rightarrow> nat \<Rightarrow> headers \<Rightarrow> headers parser" where
  "headers_loop h 0 headers i = Panic"
| "headers_loop h (Suc fuel) headers i =
     and_then (opt_bytes (h_nom1 h) (nom_tag (h_nom h) CRLF) i) (\<lambda>(i', end_of_headers).
       if end_of_headers \<noteq> None then Ok (i', headers)
       else
         and_then (parse_header h i) (\<lambda>(i_next, name, hvalue).
           headers_loop h fuel (hm_append (hp_http (h_http1 h)) headers name hvalue) i_next))"

definition headers_and_crlf :: "h1_deps \<Rightarrow> headers parser" where
  "headers_and_crlf h i = headers_loop h (Suc (length i)) (hm_default (hp_http (h_http1 h))) i"

text \<open>\<open>path.parse().unwrap()\<close> panics when the package refuses the URI.\<close>

definition parse_request :: "h1_deps \<Rightarrow> request parser" where
  "parse_request h i =
     and_then (terminated_method (h_nom1 h) (parse_method h) (space1 h) i) (\<lambda>(i, method).
     and_then (terminated_path (h_nom1 h) (parse_path h) (space1 h) i) (\<lambda>(i, path).
     and_then (terminated_version_tag (h_nom1 h) (http_version h) (nom_tag (h_nom h) CRLF) i) (\<lambda>(i, version).
     and_then (headers_and_crlf h i) (\<lambda>(i, headers).
       case uri_from_str (h_http1 h) path of
         None \<Rightarrow> Panic
       | Some uri \<Rightarrow>
           Ok (i, \<lparr>rq_method = method, rq_uri = uri, rq_version = version, rq_headers = headers\<rparr>)))))"

definition parse_response :: "h1_deps \<Rightarrow> response parser" where
  "parse_response h i =
     and_then (terminated_version_space (h_nom1 h) (http_version h) (space1 h) i) (\<lambda>(i, version).
     and_then (terminated_number_space (h_nom1 h) (status_code h) (space1 h) i) (\<lambda>(i, code).
     and_then (terminated_bytes (h_nom1 h) (take_until (h_nom1 h) CRLF) (nom_tag (h_nom h) CRLF) i) (\<lambda>(i, _).
     and_then (headers_and_crlf h i) (\<lambda>(i, headers).
       Ok (i, \<lparr>rs_version = version, rs_status = code, rs_headers = headers\<rparr>)))))"

section \<open>More input never changes an answer\<close>

named_theorems parser_intro \<open>parsers that more input does not change\<close>

lemma prefix_parser_cong: "prefix_parser q \<Longrightarrow> p = q \<Longrightarrow> prefix_parser p"
  by simp

lemma prefix_parser_iff:
  "prefix_parser p \<longleftrightarrow>
     (\<forall>i xs. case p i of
        Ok (rest, a) \<Rightarrow> (\<exists>pre. i = pre @ rest) \<and> p (i @ xs) = Ok (rest @ xs, a)
      | Err e \<Rightarrow> e = Incomplete \<or> p (i @ xs) = Err e
      | Panic \<Rightarrow> p (i @ xs) = Panic)"
proof
  assume p: "prefix_parser p"
  show "\<forall>i xs. case p i of
        Ok (rest, a) \<Rightarrow> (\<exists>pre. i = pre @ rest) \<and> p (i @ xs) = Ok (rest @ xs, a)
      | Err e \<Rightarrow> e = Incomplete \<or> p (i @ xs) = Err e
      | Panic \<Rightarrow> p (i @ xs) = Panic"
    using prefix_parser.suffix[OF p] prefix_parser.stable[OF p] prefix_parser.refused[OF p] prefix_parser.panicked[OF p]
    by (intro allI, simp split: result.split prod.split) blast
next
  assume laws: "\<forall>i xs. case p i of
        Ok (rest, a) \<Rightarrow> (\<exists>pre. i = pre @ rest) \<and> p (i @ xs) = Ok (rest @ xs, a)
      | Err e \<Rightarrow> e = Incomplete \<or> p (i @ xs) = Err e
      | Panic \<Rightarrow> p (i @ xs) = Panic"
  show "prefix_parser p"
  proof
    fix i rest a xs e
    note law = laws[rule_format, of i xs]
    show "p i = Ok (rest, a) \<Longrightarrow> \<exists>pre. i = pre @ rest" "p i = Ok (rest, a) \<Longrightarrow> p (i @ xs) = Ok (rest @ xs, a)"
        "p i = Err e \<Longrightarrow> e \<noteq> Incomplete \<Longrightarrow> p (i @ xs) = Err e" "p i = Panic \<Longrightarrow> p (i @ xs) = Panic"
      using law by simp_all
  qed
qed

lemma prefix_parser_cases:
  assumes "prefix_parser p"
  obtains (Ok) rest a pre where "p i = Ok (rest, a)" "i = pre @ rest" "\<And>xs. p (i @ xs) = Ok (rest @ xs, a)"
  | (Err) e where "p i = Err e" "\<And>xs. e \<noteq> Incomplete \<Longrightarrow> p (i @ xs) = Err e"
  | (Panic) "p i = Panic" "\<And>xs. p (i @ xs) = Panic"
proof (cases "p i")
  case (Ok ra)
  then obtain rest a where ra: "p i = Ok (rest, a)" by (cases ra) auto
  with prefix_parser.suffix[OF assms ra] prefix_parser.stable[OF assms ra] that(1) show thesis by blast
next
  case (Err e)
  with prefix_parser.refused[OF assms Err] that(2) show thesis by blast
next
  case Panic
  with prefix_parser.panicked[OF assms Panic] that(3) show thesis by blast
qed

lemma prefix_parser_bind [parser_intro]:
  assumes "prefix_parser p" and "\<And>x. prefix_parser (q x)"
  shows "prefix_parser (\<lambda>i. and_then (p i) (\<lambda>(i, x). q x i))"
  unfolding prefix_parser_iff
proof (intro allI)
  fix i xs
  show "case and_then (p i) (\<lambda>(i, x). q x i) of
      Ok (rest, a) \<Rightarrow> (\<exists>pre. i = pre @ rest) \<and> and_then (p (i @ xs)) (\<lambda>(i, x). q x i) = Ok (rest @ xs, a)
    | Err e \<Rightarrow> e = Incomplete \<or> and_then (p (i @ xs)) (\<lambda>(i, x). q x i) = Err e
    | Panic \<Rightarrow> and_then (p (i @ xs)) (\<lambda>(i, x). q x i) = Panic"
    using assms(1)
  proof (cases rule: prefix_parser_cases[where i = i])
    case (Ok rest a pre)
    show ?thesis using assms(2)[of a] by (cases rule: prefix_parser_cases[where i = rest]) (use Ok in auto)
  next
    case (Err e)
    then show ?thesis using Err(2)[of xs] by (cases "e = Incomplete") simp_all
  qed simp
qed

lemma prefix_parser_return [parser_intro]: "prefix_parser (\<lambda>i. Ok (i, x))"
  by (simp add: prefix_parser_iff)

lemma prefix_parser_fail [parser_intro]: "prefix_parser (\<lambda>i. Err e)" "prefix_parser (\<lambda>i. Panic)"
  by (simp_all add: prefix_parser_iff)

lemma prefix_parser_If [parser_intro]:
  "prefix_parser p \<Longrightarrow> prefix_parser q \<Longrightarrow> prefix_parser (\<lambda>i. if b then p i else q i)"
  by (cases b) simp_all

lemma prefix_parser_terminated [parser_intro]:
  "prefix_parser p \<Longrightarrow> prefix_parser q \<Longrightarrow> prefix_parser (p_terminated p q)"
  unfolding p_terminated_def[abs_def] by (intro parser_intro)

lemma prefix_parser_preceded [parser_intro]:
  "prefix_parser p \<Longrightarrow> prefix_parser q \<Longrightarrow> prefix_parser (p_preceded p q)"
  unfolding p_preceded_def[abs_def] by (intro parser_intro)

lemma prefix_parser_map_res [parser_intro]: "prefix_parser p \<Longrightarrow> prefix_parser (p_map_res p f)"
proof -
  assume p: "prefix_parser p"
  have "prefix_parser (\<lambda>i. case f a of Some b \<Rightarrow> Ok (i, b) | None \<Rightarrow> Err NomError)" for a
    by (cases "f a") (simp_all add: parser_intro)
  with p show ?thesis unfolding p_map_res_def[abs_def] by (intro parser_intro)
qed

lemma prefix_parser_opt [parser_intro]:
  assumes "prefix_parser p"
  shows "prefix_parser (p_opt p)"
  unfolding prefix_parser_iff
proof (intro allI)
  fix i xs
  show "case p_opt p i of Ok (rest, a) \<Rightarrow> (\<exists>pre. i = pre @ rest) \<and> p_opt p (i @ xs) = Ok (rest @ xs, a)
    | Err e \<Rightarrow> e = Incomplete \<or> p_opt p (i @ xs) = Err e | Panic \<Rightarrow> p_opt p (i @ xs) = Panic"
    using assms
  proof (cases rule: prefix_parser_cases[where i = i])
    case (Err e)
    then show ?thesis using Err(2)[of xs] by (cases e) (simp_all add: p_opt_def)
  qed (simp_all add: p_opt_def)
qed

lemma iter_position_append:
  "iter_position f k xs = Some n \<Longrightarrow> iter_position f k (xs @ ys) = Some n"
  by (induction f k xs rule: iter_position.induct) (auto split: if_splits)

lemma iter_position_bound: "iter_position f 0 xs = Some n \<Longrightarrow> n < length xs"
  by (simp add: iter_position_Some)

lemma prefix_parser_split:
  assumes "\<And>i n. posn i = Some n \<Longrightarrow> n \<le> length i" and "\<And>i n xs. posn i = Some n \<Longrightarrow> posn (i @ xs) = Some n"
  shows "prefix_parser (\<lambda>i. case posn i of None \<Rightarrow> Err Incomplete | Some n \<Rightarrow>
    if n = 0 \<and> b then Err NomError else Ok (drop n i, take n i))"
  unfolding prefix_parser_iff
proof (intro allI)
  fix i xs
  show "case (case posn i of None \<Rightarrow> Err Incomplete | Some n \<Rightarrow>
        if n = 0 \<and> b then Err NomError else Ok (drop n i, take n i)) of
      Ok (rest, a) \<Rightarrow> (\<exists>pre. i = pre @ rest) \<and> (case posn (i @ xs) of None \<Rightarrow> Err Incomplete | Some n \<Rightarrow>
        if n = 0 \<and> b then Err NomError else Ok (drop n (i @ xs), take n (i @ xs))) = Ok (rest @ xs, a)
    | Err e \<Rightarrow> e = Incomplete \<or> (case posn (i @ xs) of None \<Rightarrow> Err Incomplete | Some n \<Rightarrow>
        if n = 0 \<and> b then Err NomError else Ok (drop n (i @ xs), take n (i @ xs))) = Err e
    | Panic \<Rightarrow> (case posn (i @ xs) of None \<Rightarrow> Err Incomplete | Some n \<Rightarrow>
        if n = 0 \<and> b then Err NomError else Ok (drop n (i @ xs), take n (i @ xs))) = Panic"
  proof (cases "posn i")
    case (Some n)
    have "i = take n i @ drop n i" by simp
    then have "\<exists>pre. i = pre @ drop n i" by metis
    with Some assms(1)[OF Some] assms(2)[OF Some, of xs] show ?thesis by simp
  qed simp
qed

lemma prefix_parser_take_while1 [parser_intro]: "prefix_parser (p_take_while1 f)"
proof (rule prefix_parser_cong)
  show "prefix_parser (\<lambda>i. case iter_position (\<lambda>c. \<not> f c) 0 i of None \<Rightarrow> Err Incomplete | Some n \<Rightarrow>
      if n = 0 \<and> True then Err NomError else Ok (drop n i, take n i))"
    by (rule prefix_parser_split) (fact less_imp_le[OF iter_position_bound], rule iter_position_append)
qed (simp add: p_take_while1_def fun_eq_iff split: option.split)

lemma first_occurrence_Some:
  "first_occurrence s i = Some n \<longleftrightarrow> n \<le> length i \<and> occurs_at s i n \<and> (\<forall>j<n. \<not> occurs_at s i j)"
proof
  assume "first_occurrence s i = Some n"
  then obtain k where "k < Suc (length i)" "occurs_at s i k" "n = k" "\<forall>j<k. \<not> occurs_at s i ([0..<Suc (length i)] ! j)"
    unfolding first_occurrence_def find_Some_iff by (auto simp del: upt_Suc)
  then show "n \<le> length i \<and> occurs_at s i n \<and> (\<forall>j<n. \<not> occurs_at s i j)" by (auto simp del: upt_Suc)
qed (auto simp: first_occurrence_def intro!: find_Some_least simp del: upt_Suc)

lemma occurs_at_append_iff:
  assumes "j + length s \<le> length i"
  shows "occurs_at s (i @ xs) j \<longleftrightarrow> occurs_at s i j"
  using assms by (simp add: occurs_at_def)

lemma first_occurrence_append:
  assumes "first_occurrence s i = Some n"
  shows "first_occurrence s (i @ xs) = Some n"
proof (cases "s = []")
  case True
  with assms show ?thesis by (auto simp: first_occurrence_Some occurs_at_def)
next
  case False
  have n: "n + length s \<le> length i" using assms False occurs_at_length by (auto simp: first_occurrence_Some)
  with assms show ?thesis by (auto simp: first_occurrence_Some occurs_at_append_iff)
qed

lemma p_take_until_eq:
  assumes "memchr_spec memchr"
  shows "p_take_until memchr needle i =
    (case first_occurrence needle i of None \<Rightarrow> Err Incomplete | Some n \<Rightarrow> Ok (drop n i, take n i))"
  using find_substring_first[OF assms, of i needle, where 'e = nom_err] by (simp add: p_take_until_def)

lemma prefix_parser_take_until [parser_intro]:
  assumes "memchr_spec memchr"
  shows "prefix_parser (p_take_until memchr needle)"
proof (rule prefix_parser_cong)
  show "prefix_parser (\<lambda>i. case first_occurrence needle i of None \<Rightarrow> Err Incomplete | Some n \<Rightarrow>
      if n = 0 \<and> False then Err NomError else Ok (drop n i, take n i))"
    by (rule prefix_parser_split) (simp add: first_occurrence_Some, rule first_occurrence_append)
qed (simp add: p_take_until_eq[OF assms] fun_eq_iff split: option.split)

text \<open>The number parsers, tags and \<open>take\<close>.\<close>

lemma nom_tag_eq:
  assumes "nom_spec nom"
  shows "nom_tag nom t i = (if prefix t i then Ok (drop (length t) i, t)
    else if prefix i t then Err Incomplete else Err NomError)"
  using assms roll_compare_prefix[of i t] by (auto simp: nom_spec_def prefix_def)

lemma prefix_parser_tag [parser_intro]:
  assumes "nom_spec nom"
  shows "prefix_parser (nom_tag nom t)"
  unfolding prefix_parser_iff
proof (intro allI)
  fix i xs
  have "\<not> prefix t (i @ xs)" "\<not> prefix (i @ xs) t" if "\<not> prefix t i" "\<not> prefix i t"
    using that prefix_same_cases[of t "i @ xs" i] append_prefixD by auto
  then show "case nom_tag nom t i of
      Ok (rest, a) \<Rightarrow> (\<exists>pre. i = pre @ rest) \<and> nom_tag nom t (i @ xs) = Ok (rest @ xs, a)
    | Err e \<Rightarrow> e = Incomplete \<or> nom_tag nom t (i @ xs) = Err e | Panic \<Rightarrow> nom_tag nom t (i @ xs) = Panic"
    by (auto simp: nom_tag_eq[OF assms] prefix_def)
qed

lemma prefix_parser_take [parser_intro]:
  assumes "nom_spec nom"
  shows "prefix_parser (nom_take nom n)"
proof -
  have "nom_take nom n i = (if length i < n then Err Incomplete else Ok (drop n i, take n i))" for i
    using assms by (simp add: nom_spec_def)
  then show ?thesis by (auto simp: prefix_parser_iff intro: append_take_drop_id[symmetric])
qed

section \<open>The parsers of the code\<close>

definition h1_ok :: "h1_deps \<Rightarrow> bool" where
  "h1_ok h \<longleftrightarrow> nom_spec (h_nom h) \<and> memchr_spec (h_memchr h) \<and> nom1_spec (h_memchr h) (h_nom1 h) \<and>
     http_spec (hp_http (h_http1 h))"

lemma h1_okD:
  assumes "h1_ok h"
  shows "nom_spec (h_nom h)" "memchr_spec (h_memchr h)" "http_spec (hp_http (h_http1 h))"
    "take_while1 (h_nom1 h) = p_take_while1" "take_until (h_nom1 h) = p_take_until (h_memchr h)"
    "terminated_method (h_nom1 h) = p_terminated" "terminated_path (h_nom1 h) = p_terminated"
    "terminated_version_tag (h_nom1 h) = p_terminated" "terminated_version_space (h_nom1 h) = p_terminated"
    "terminated_number_tag (h_nom1 h) = p_terminated" "terminated_number_space (h_nom1 h) = p_terminated"
    "terminated_bytes (h_nom1 h) = p_terminated" "preceded_bytes (h_nom1 h) = p_preceded"
    "opt_bytes (h_nom1 h) = p_opt" "map_res_number (h_nom1 h) = p_map_res" "map_res_bytes (h_nom1 h) = p_map_res"
  using assms by (simp_all add: h1_ok_def nom1_spec_def)

lemma h1_parsers [parser_intro]:
  assumes "h1_ok h"
  shows "prefix_parser (token h)" "prefix_parser (space1 h)" "prefix_parser (crlf h)" "prefix_parser (parse_path h)"
    "prefix_parser (chunk_size h)" "prefix_parser (status_code h)" "prefix_parser (take_until_and_consume h needle)"
  unfolding token_def[abs_def] space1_def[abs_def] crlf_def[abs_def] parse_path_def[abs_def] chunk_size_def
    u64_text_hex_def status_code_def[abs_def] take_until_and_consume_def Let_def
  by (simp_all only: h1_okD[OF assms]) (intro parser_intro h1_okD[OF assms])+

lemma http_version_parser [parser_intro]:
  assumes "h1_ok h"
  shows "prefix_parser (http_version h)"
proof -
  have "prefix_parser (\<lambda>i. case v of [] \<Rightarrow> Panic | b # _ \<Rightarrow>
      if b = 0x30 then Ok (i, HTTP_10) else if b = 0x31 then Ok (i, HTTP_11) else Err NomError)" for v :: bytes
    by (cases v) (simp_all add: parser_intro del: if_split)
  then show ?thesis unfolding http_version_def[abs_def] by (intro parser_intro h1_okD[OF assms])
qed

lemma parse_header_parser [parser_intro]:
  assumes "h1_ok h"
  shows "prefix_parser (parse_header h)"
  unfolding parse_header_def[abs_def] h1_okD[OF assms] by (intro parser_intro assms)

text \<open>A header line takes bytes, so the fuel is enough.\<close>

lemma take_until_consumes:
  assumes "h1_ok h" and "take_until_and_consume h needle i = Ok (rest, v)"
  shows "i = v @ needle @ rest"
  using assms(2) find_substring_first[OF h1_okD(2)[OF assms(1)], of i needle, where 'e = nom_err]
  unfolding take_until_and_consume_def h1_okD[OF assms(1)]
  by (auto simp: p_terminated_def p_take_until_def nom_tag_eq[OF h1_okD(1)[OF assms(1)]] result_simps prefix_def
      first_occurrence_Some split: option.splits if_splits)
     (metis append_take_drop_id)

lemma parse_header_consumes:
  assumes "h1_ok h" and "parse_header h i = Ok (rest, nv)"
  shows "length rest < length i"
proof -
  obtain name where n: "take_until_and_consume h [0x3A] i = Ok (fst name, snd name)"
    and "\<exists>x. p_preceded (space1 h) (take_until_and_consume h CRLF) (fst name) = Ok (rest, x)"
    using assms(2) unfolding parse_header_def h1_okD[OF assms(1)] p_map_res_def
    by (auto simp: result_simps split: option.splits)
  then obtain r v where s: "space1 h (fst name) = Ok (r, ())" and v: "take_until_and_consume h CRLF r = Ok (rest, v)"
    by (auto simp: p_preceded_def result_simps)
  have "\<exists>pre. fst name = pre @ r" using prefix_parser.suffix[OF h1_parsers(2)[OF assms(1)] s] .
  with take_until_consumes[OF assms(1) n] take_until_consumes[OF assms(1) v] show ?thesis by auto
qed

lemma headers_loop_more:
  assumes "h1_ok h" and "length i < fuel" and "length (i @ xs) < fuel'"
  shows "case headers_loop h fuel hs i of
      Ok (rest, a) \<Rightarrow> (\<exists>pre. i = pre @ rest) \<and> headers_loop h fuel' hs (i @ xs) = Ok (rest @ xs, a)
    | Err e \<Rightarrow> e = Incomplete \<or> headers_loop h fuel' hs (i @ xs) = Err e
    | Panic \<Rightarrow> headers_loop h fuel' hs (i @ xs) = Panic"
  using assms(2,3)
proof (induction fuel arbitrary: i hs fuel')
  case (Suc fuel)
  let ?tag = "p_opt (nom_tag (h_nom h) CRLF)"
  obtain f' where f': "fuel' = Suc f'" using Suc.prems(2) by (cases fuel') auto
  have "prefix_parser ?tag" by (intro parser_intro h1_okD[OF assms(1)])
  then show ?case
  proof (cases rule: prefix_parser_cases[where i = i])
    case (Ok rest a pre)
    show ?thesis
    proof (cases a)
      case None
      have "prefix_parser (parse_header h)" by (rule parse_header_parser[OF assms(1)])
      then show ?thesis
      proof (cases rule: prefix_parser_cases[where i = i])
        case hdr: (Ok r nv p)
        have "length r < length i" by (rule parse_header_consumes[OF assms(1) hdr(1)])
        then have "length r < fuel" "length (r @ xs) < f'" using Suc.prems f' by auto
        from Suc.IH[OF this, of "hm_append (hp_http (h_http1 h)) hs (fst nv) (snd nv)"] show ?thesis
          using Ok(1,3) None hdr f' by (cases nv) (auto simp: h1_okD[OF assms(1)] split: result.splits)
      next
        case (Err e)
        then show ?thesis using Err(2)[of xs] Ok(1,3) None f'
          by (cases "e = Incomplete") (simp_all add: h1_okD[OF assms(1)])
      qed (use Ok(1,3) None f' in \<open>simp_all add: h1_okD[OF assms(1)]\<close>)
    next
      case (Some b)
      with Ok f' show ?thesis by (auto simp: h1_okD[OF assms(1)])
    qed
  next
    case (Err e)
    then show ?thesis using Err(2)[of xs] f' by (cases "e = Incomplete") (simp_all add: h1_okD[OF assms(1)])
  qed (use f' in \<open>simp_all add: h1_okD[OF assms(1)]\<close>)
qed simp

lemma headers_parser [parser_intro]: "h1_ok h \<Longrightarrow> prefix_parser (headers_and_crlf h)"
  unfolding prefix_parser_iff headers_and_crlf_def by (intro allI, rule headers_loop_more) simp_all

lemma tags_return:
  assumes "h1_ok h"
  shows "nom_tag (h_nom h) t i \<noteq> Panic" "p_opt (nom_tag (h_nom h) t) i \<noteq> Panic" "space1 h i \<noteq> Panic"
    "take_until_and_consume h t i \<noteq> Panic"
  using find_substring_first[OF h1_okD(2)[OF assms], of i t, where 'e = nom_err]
  by (auto simp: nom_tag_eq[OF h1_okD(1)[OF assms]] p_opt_def space1_def take_until_and_consume_def h1_okD[OF assms]
      p_take_while1_def p_terminated_def p_take_until_def result_simps split: option.splits result.splits)

lemma parse_header_returns:
  assumes "h1_ok h"
  shows "parse_header h i \<noteq> Panic"
  using tags_return[OF assms]
  by (auto simp: parse_header_def h1_okD[OF assms] p_map_res_def p_preceded_def result_simps split: option.splits)

lemma headers_loop_fuel:
  assumes "h1_ok h" and "length i < fuel"
  shows "headers_loop h fuel hs i \<noteq> Panic"
  using assms(2)
proof (induction fuel arbitrary: i hs)
  case (Suc fuel)
  have "headers_loop h fuel hs' r \<noteq> Panic" if "parse_header h i = Ok (r, nv)" for r nv hs'
    using Suc parse_header_consumes[OF assms(1) that] by simp
  with tags_return(2)[OF assms(1), of CRLF i] parse_header_returns[OF assms(1), of i] show ?case
    by (auto simp: h1_okD[OF assms(1)] result_simps split: if_splits)
qed simp

text \<open>Panics aside, which come from URIs that the package refuses.\<close>

lemma request_parser [parser_intro]:
  assumes "h1_ok h"
  shows "prefix_parser (parse_request h)"
proof -
  have "prefix_parser (\<lambda>i. case uri_from_str (h_http1 h) path of None \<Rightarrow> Panic | Some uri \<Rightarrow>
      Ok (i, \<lparr>rq_method = mt, rq_uri = uri, rq_version = v, rq_headers = hs\<rparr>))" for path mt v hs
    by (cases "uri_from_str (h_http1 h) path") (simp_all add: parser_intro)
  moreover have "prefix_parser (parse_method h)"
    unfolding parse_method_def[abs_def] by (intro parser_intro assms)
  ultimately show ?thesis
    unfolding parse_request_def[abs_def] h1_okD[OF assms] by (intro parser_intro h1_okD[OF assms] assms)
qed

lemma response_parser [parser_intro]:
  assumes "h1_ok h"
  shows "prefix_parser (parse_response h)"
  unfolding parse_response_def[abs_def] h1_okD[OF assms] by (intro parser_intro h1_okD[OF assms] assms)

section \<open>A concrete instance of the packages\<close>

definition memchr_std :: "u8 \<Rightarrow> bytes \<Rightarrow> nat option" where
  "memchr_std b = iter_position (\<lambda>c. c = b) 0"

definition nom1_std :: nom1 where
  "nom1_std =
     \<lparr>take_while1 = p_take_while1, take_until = p_take_until memchr_std, terminated_method = p_terminated,
      terminated_path = p_terminated, terminated_version_tag = p_terminated, terminated_version_space = p_terminated,
      terminated_number_tag = p_terminated, terminated_number_space = p_terminated, terminated_bytes = p_terminated,
      preceded_bytes = p_preceded, opt_bytes = p_opt, map_res_number = p_map_res, map_res_bytes = p_map_res\<rparr>"

text \<open>Status codes of three digits, URIs that are paths, and header maps that are lists.\<close>

definition http1_list :: http1 where
  "http1_list =
     \<lparr>hp_http = http_list,
      status_from_bytes = (\<lambda>s. if length s = 3 \<and> list_all is_digit s \<and> 100 \<le> dec_value 0 s then Some (dec_value 0 s) else None),
      status_from_u16 = (\<lambda>n. if 100 \<le> n \<and> n < 1000 then Some n else None),
      canonical_reason = (\<lambda>n. if n = 200 then Some (byte_str ''OK'') else None),
      uri_from_str = (\<lambda>s. if take 1 s = [0x2F] then Some s else None), uri_path = takeWhile (\<lambda>c. c \<noteq> 0x3F),
      hm_insert = (\<lambda>m n v. filter (\<lambda>(k, _). k \<noteq> n) m @ [(n, v)]),
      hm_into_iter = map (\<lambda>(n, v). (Some n, v))\<rparr>"

definition h1_std :: h1_deps where
  "h1_std = \<lparr>h_nom = nom_std, h_nom1 = nom1_std, h_memchr = memchr_std, h_http1 = http1_list\<rparr>"

lemma h1_std_ok: "h1_ok h1_std"
  by (simp add: h1_ok_def h1_std_def nom_std_spec memchr_spec_def memchr_std_def nom1_spec_def nom1_std_def
      http1_list_def http_list_spec)

interpretation request_std: prefix_parser "parse_request h1_std"
  by (rule request_parser[OF h1_std_ok])

interpretation response_std: prefix_parser "parse_response h1_std"
  by (rule response_parser[OF h1_std_ok])

end
