(* ===== verification/H1_Body.thy ===== *)
theory H1_Body
  imports H1_Parse
begin

text \<open>
  HTTP/1.1 bodies (\<open>crates/loona/src/h1/body.rs\<close>): reading a body that is chunked or has a content length
  from a transport and a buffer, and writing one. The buffer is its filled bytes, absent after an error
  (\<open>buf_slot.take()\<close>). The decoders are shown to deliver exactly the bytes that were written and to stop
  exactly behind the body, whatever the sizes of the reads: what follows is the next message.
\<close>

section \<open>Reading\<close>

datatype body_error =
  CalledNextChunkAfterError
| ClosedWhileReadingChunkSize
| InvalidChunkSize
| ClosedWhileReadingChunkData
| ClosedWhileReadingContentLength
| ErrorWhileReadingChunkData io_error
| ClosedWhileReadingChunkTerminator
| InvalidChunkTerminator read_and_parse_error
| CalledWriteBodyChunkWhenNoBodyWasExpected
| BodyAlloc buf_error
| BodyWriteError io_error

datatype chunked_decoder = ReadingChunkHeader | ReadingChunk nat | ChunkedDone

record content_length_decoder =
  cl_len :: nat
  cl_read :: nat

datatype h1_decoder = Chunked chunked_decoder | ContentLength content_length_decoder

datatype h1_body_kind = KindChunked | KindContentLength nat

record 'r h1_body =
  b1_transport :: 'r
  b1_buf :: "bytes option"
  b1_state :: h1_decoder

definition h1_body_new :: "'r \<Rightarrow> bytes \<Rightarrow> h1_body_kind \<Rightarrow> 'r h1_body" where
  "h1_body_new transport_r buf kind =
     \<lparr>b1_transport = transport_r, b1_buf = Some buf,
      b1_state = (case kind of
          KindChunked \<Rightarrow> Chunked ReadingChunkHeader
        | KindContentLength len \<Rightarrow> ContentLength \<lparr>cl_len = len, cl_read = 0\<rparr>)\<rparr>"

definition cl_eof :: "content_length_decoder \<Rightarrow> bool" where
  "cl_eof st \<longleftrightarrow> cl_len st = cl_read st"

definition chunked_eof :: "chunked_decoder \<Rightarrow> bool" where
  "chunked_eof st \<longleftrightarrow> st = ChunkedDone"

definition b1_eof :: "'r h1_body \<Rightarrow> bool" where
  "b1_eof b = (case b1_state b of Chunked st \<Rightarrow> chunked_eof st | ContentLength st \<Rightarrow> cl_eof st)"

definition b1_content_len :: "'r h1_body \<Rightarrow> nat option" where
  "b1_content_len b = (case b1_state b of Chunked _ \<Rightarrow> None | ContentLength st \<Rightarrow> Some (cl_len st))"

definition into_inner :: "'r h1_body \<Rightarrow> (bytes \<times> 'r) option" where
  "into_inner b =
     (if \<not> b1_eof b then None
      else (case b1_buf b of None \<Rightarrow> None | Some buf \<Rightarrow> Some (buf, b1_transport b)))"

text \<open>\<open>RollMut::take_at_most\<close> on the filled bytes.\<close>

definition take_at_most :: "nat \<Rightarrow> bytes \<Rightarrow> ((bytes \<times> bytes) option, 'e) result" where
  "take_at_most n buf =
     (if n = 0 then Panic else if buf = [] then Ok None else Ok (Some (take n buf, drop n buf)))"

text \<open>Reading into an empty buffer: \<open>reserve\<close> and \<open>read_into\<close>.\<close>

fun fill_error :: "read_and_parse_error \<Rightarrow> body_error" where
  "fill_error (AllocError e) = BodyAlloc e"
| "fill_error (ReadError e) = ErrorWhileReadingChunkData e"
| "fill_error e = InvalidChunkTerminator e"

definition fill_if_empty ::
    "'r reading \<Rightarrow> nat \<Rightarrow> bytes \<Rightarrow> 'r \<Rightarrow> (bytes, body_error) result \<times> 'r" where
  "fill_if_empty io limit buf r =
     (if buf = [] then (case read_into io limit buf r of (res, r) \<Rightarrow> (map_err fill_error res, r))
      else (Ok buf, r))"

definition cl_next_chunk ::
    "'r reading \<Rightarrow> content_length_decoder \<Rightarrow> bytes option \<Rightarrow> 'r \<Rightarrow>
     (body_chunk, body_error) result \<times> content_length_decoder \<times> bytes option \<times> 'r" where
  "cl_next_chunk io st buf_slot r =
     (case sub_usize (cl_len st) (cl_read st) of
        Panic \<Rightarrow> (Panic, st, buf_slot, r)
      | Err e \<Rightarrow> (Err e, st, buf_slot, r)
      | Ok remain \<Rightarrow>
          if remain = 0 then (Ok (Done None), st, buf_slot, r)
          else
            (case buf_slot of
               None \<Rightarrow> (Err CalledNextChunkAfterError, st, None, r)
             | Some buf \<Rightarrow>
                 (case fill_if_empty io (2 ^ 64 - 1) buf r of
                    (Panic, r) \<Rightarrow> (Panic, st, None, r)
                  | (Err e, r) \<Rightarrow> (Err e, st, None, r)
                  | (Ok buf, r) \<Rightarrow>
                      (case take_at_most remain buf of
                         Panic \<Rightarrow> (Panic, st, None, r)
                       | Err e \<Rightarrow> (Err e, st, None, r)
                       | Ok None \<Rightarrow> (Err ClosedWhileReadingContentLength, st, None, r)
                       | Ok (Some (chunk, buf)) \<Rightarrow>
                           (Ok (Chunk chunk), st\<lparr>cl_read := cl_read st + length chunk\<rparr>, Some buf, r)))))"

text \<open>A line end between or after the chunks.\<close>

definition read_terminator ::
    "h1_deps \<Rightarrow> 'r reading \<Rightarrow> string \<Rightarrow> bytes \<Rightarrow> 'r \<Rightarrow> (bytes, body_error) result \<times> 'r" where
  "read_terminator h io name buf r =
     (case read_and_parse io name (crlf h) 2 buf r of
        (Panic, r) \<Rightarrow> (Panic, r)
      | (Err e, r) \<Rightarrow> (Err (InvalidChunkTerminator e), r)
      | (Ok None, r) \<Rightarrow> (Err ClosedWhileReadingChunkTerminator, r)
      | (Ok (Some (buf, _)), r) \<Rightarrow> (Ok buf, r))"

text \<open>The part of a turn of the loop that reads the data of a chunk.\<close>

definition read_chunk_data ::
    "'r reading \<Rightarrow> nat \<Rightarrow> bytes \<Rightarrow> 'r \<Rightarrow>
     (body_chunk, body_error) result \<times> chunked_decoder \<times> bytes option \<times> 'r" where
  "read_chunk_data io remain buf r =
     (case fill_if_empty io remain buf r of
        (Panic, r) \<Rightarrow> (Panic, ReadingChunk remain, None, r)
      | (Err e, r) \<Rightarrow> (Err e, ReadingChunk remain, None, r)
      | (Ok buf, r) \<Rightarrow>
          (case take_at_most remain buf of
             Panic \<Rightarrow> (Panic, ReadingChunk remain, None, r)
           | Err e \<Rightarrow> (Err e, ReadingChunk remain, None, r)
           | Ok None \<Rightarrow> (Err ClosedWhileReadingChunkData, ReadingChunk remain, None, r)
           | Ok (Some (chunk, buf)) \<Rightarrow>
               (Ok (Chunk chunk), ReadingChunk (remain - length chunk), Some buf, r)))"

function chunked_next_chunk ::
    "h1_deps \<Rightarrow> 'r reading \<Rightarrow> chunked_decoder \<Rightarrow> bytes option \<Rightarrow> 'r \<Rightarrow>
     (body_chunk, body_error) result \<times> chunked_decoder \<times> bytes option \<times> 'r" where
  "chunked_next_chunk h io st buf_slot r =
     (case buf_slot of
        None \<Rightarrow> (Err CalledNextChunkAfterError, st, None, r)
      | Some buf \<Rightarrow>
          (case st of
             ChunkedDone \<Rightarrow> (Ok (Done None), st, Some buf, r)
           | ReadingChunkHeader \<Rightarrow>
               (case read_and_parse io ''Http1BodyChunk'' (chunk_size h) 16 buf r of
                  (Panic, r) \<Rightarrow> (Panic, st, None, r)
                | (Err _, r) \<Rightarrow> (Err InvalidChunkSize, st, None, r)
                | (Ok None, r) \<Rightarrow> (Err ClosedWhileReadingChunkSize, st, None, r)
                | (Ok (Some (buf, chunk_len)), r) \<Rightarrow>
                    if chunk_len = 0 then
                      (case read_terminator h io ''Http1BodyChunkFinalTerminator'' buf r of
                         (Panic, r) \<Rightarrow> (Panic, st, None, r)
                       | (Err e, r) \<Rightarrow> (Err e, st, None, r)
                       | (Ok buf, r) \<Rightarrow> (Ok (Done None), ChunkedDone, Some buf, r))
                    else read_chunk_data io chunk_len buf r)
           | ReadingChunk remain \<Rightarrow>
               if remain = 0 then
                 (case read_terminator h io ''Http1BodyChunkTerminator'' buf r of
                    (Panic, r) \<Rightarrow> (Panic, st, None, r)
                  | (Err e, r) \<Rightarrow> (Err e, st, None, r)
                  | (Ok buf, r) \<Rightarrow> chunked_next_chunk h io ReadingChunkHeader (Some buf) r)
               else read_chunk_data io remain buf r))"
  by pat_completeness auto
termination
  by (relation "measure (\<lambda>(_, _, st, _, _). case st of ReadingChunk _ \<Rightarrow> 1 | _ \<Rightarrow> 0)") auto

declare chunked_next_chunk.simps [simp del]

definition b1_next_chunk :: "h1_deps \<Rightarrow> 'r reading \<Rightarrow> 'r h1_body \<Rightarrow> (body_chunk, body_error) result \<times> 'r h1_body" where
  "b1_next_chunk h io b =
     (if b1_buf b = None then (Ok (Done None), b)
      else
        (case b1_state b of
           Chunked st \<Rightarrow>
             (case chunked_next_chunk h io st (b1_buf b) (b1_transport b) of
                (res, st, buf, r) \<Rightarrow> (res, b\<lparr>b1_transport := r, b1_buf := buf, b1_state := Chunked st\<rparr>))
         | ContentLength st \<Rightarrow>
             (case cl_next_chunk io st (b1_buf b) (b1_transport b) of
                (res, st, buf, r) \<Rightarrow> (res, b\<lparr>b1_transport := r, b1_buf := buf, b1_state := ContentLength st\<rparr>))))"

definition h1_body_ops :: "h1_deps \<Rightarrow> 'r reading \<Rightarrow> ('r h1_body, body_error) body_ops" where
  "h1_body_ops h io =
     \<lparr>body_content_len = b1_content_len, body_eof = b1_eof, body_next_chunk = b1_next_chunk h io\<rparr>"

section \<open>Writing\<close>

datatype body_write_mode = ModeChunked | ModeContentLength nat | ModeEmpty

text \<open>\<open>format!("{:x}")\<close>.\<close>

definition hex_digit :: "nat \<Rightarrow> u8" where
  "hex_digit n = (if n < 10 then of_nat (0x30 + n) else of_nat (0x61 + (n - 10)))"

function hex_bytes :: "nat \<Rightarrow> bytes" where
  "hex_bytes n = (if n < 16 then [hex_digit n] else hex_bytes (n div 16) @ [hex_digit (n mod 16)])"
  by pat_completeness auto
termination by (relation "measure id") auto

declare hex_bytes.simps [simp del]

definition write_h1_body_chunk ::
    "('w, io_error) writer \<Rightarrow> 'w \<Rightarrow> bytes \<Rightarrow> body_write_mode \<Rightarrow> (unit, body_error) result \<times> 'w" where
  "write_h1_body_chunk write w chunk mode =
     (case mode of
        ModeChunked \<Rightarrow>
          let list = plist_push_back (plist_push_back (plist_push_back []
                (hex_bytes (length chunk) @ CRLF)) chunk) CRLF
          in (case write w (concat list) of (r, w) \<Rightarrow> (map_err BodyWriteError r, w))
      | ModeContentLength _ \<Rightarrow> (case write w chunk of (r, w) \<Rightarrow> (map_err BodyWriteError r, w))
      | ModeEmpty \<Rightarrow> (Err CalledWriteBodyChunkWhenNoBodyWasExpected, w))"

definition write_h1_body_end ::
    "('w, io_error) writer \<Rightarrow> 'w \<Rightarrow> body_write_mode \<Rightarrow> (unit, body_error) result \<times> 'w" where
  "write_h1_body_end write w mode =
     (case mode of
        ModeChunked \<Rightarrow>
          (case write w (byte_str ''0'' @ CRLF @ CRLF) of (r, w) \<Rightarrow> (map_err BodyWriteError r, w))
      | ModeContentLength _ \<Rightarrow> (Ok (), w)
      | ModeEmpty \<Rightarrow> (Ok (), w))"

datatype 'e write_body_error = InnerBodyError 'e | OuterBodyError body_error

text \<open>A body may go on for ever.\<close>

partial_function (option) write_h1_body ::
    "('w, io_error) writer \<Rightarrow> ('b, 'e) body_ops \<Rightarrow> body_write_mode \<Rightarrow> 'w \<Rightarrow> 'b \<Rightarrow>
     ((unit, 'e write_body_error) result \<times> 'w \<times> 'b) option" where
  "write_h1_body write bo mode w b =
     (case body_next_chunk bo b of
        (Panic, b) \<Rightarrow> Some (Panic, w, b)
      | (Err e, b) \<Rightarrow> Some (Err (InnerBodyError e), w, b)
      | (Ok (Chunk chunk), b) \<Rightarrow>
          (case write_h1_body_chunk write w chunk mode of
             (Panic, w) \<Rightarrow> Some (Panic, w, b)
           | (Err e, w) \<Rightarrow> Some (Err (OuterBodyError e), w, b)
           | (Ok _, w) \<Rightarrow> write_h1_body write bo mode w b)
      | (Ok (Done _), b) \<Rightarrow>
          (case write_h1_body_end write w mode of
             (r, w) \<Rightarrow> Some (map_err OuterBodyError r, w, b)))"

declare write_h1_body.simps [code]

section \<open>Chunk sizes\<close>

lemma hex_digit_facts:
  assumes "n < 16"
  shows "is_hex_digit (hex_digit n)" "hex_digit_value (hex_digit n) = n"
proof -
  have "\<forall>k\<in>set [0..<16]. is_hex_digit (hex_digit k) \<and> hex_digit_value (hex_digit k) = k" by code_simp
  then show "is_hex_digit (hex_digit n)" "hex_digit_value (hex_digit n) = n" using assms by simp_all
qed

lemma hex_bytes_digits: "hex_bytes n \<noteq> [] \<and> list_all is_hex_digit (hex_bytes n)"
proof (induction n rule: hex_bytes.induct)
  case (1 n)
  then show ?case by (subst (1 2) hex_bytes.simps) (auto simp: hex_digit_facts)
qed

lemma from_hex_loop_append:
  "from_hex_loop acc (xs @ ys) = Option.bind (from_hex_loop acc xs) (\<lambda>acc. from_hex_loop acc ys)"
  by (induction xs arbitrary: acc) (auto simp: checked_u64_def)

lemma from_hex_loop_hex_bytes: "n < 2 ^ 64 \<Longrightarrow> from_hex_loop 0 (hex_bytes n) = Some n"
proof (induction n rule: hex_bytes.induct)
  case (1 n)
  show ?case
  proof (cases "n < 16")
    case True
    then show ?thesis by (subst hex_bytes.simps) (simp add: hex_digit_facts checked_u64_def U64_def)
  next
    case False
    then have "from_hex_loop 0 (hex_bytes (n div 16)) = Some (n div 16)" using 1 by auto
    moreover have "n div 16 * 16 + n mod 16 = n" by simp
    ultimately show ?thesis
      using False "1.prems" by (subst hex_bytes.simps) (simp add: from_hex_loop_append hex_digit_facts checked_u64_def U64_def)
  qed
qed

lemma length_hex_bytes: "n < 16 ^ k \<Longrightarrow> 0 < k \<Longrightarrow> length (hex_bytes n) \<le> k"
proof (induction k arbitrary: n)
  case (Suc k)
  show ?case
  proof (cases "n < 16")
    case True
    then show ?thesis by (subst hex_bytes.simps) simp
  next
    case False
    then have "0 < k" using Suc.prems(1) by (cases k) auto
    moreover have "n div 16 < 16 ^ k" using Suc.prems(1) by (simp add: less_mult_imp_div_less mult.commute)
    ultimately have "length (hex_bytes (n div 16)) \<le> k" using Suc.IH by blast
    then show ?thesis using False by (subst hex_bytes.simps) simp
  qed
qed simp

lemma take_while1_stops:
  assumes "xs \<noteq> []" and "list_all f xs" and "\<not> f c"
  shows "p_take_while1 f (xs @ c # ys) = Ok (c # ys, xs)"
proof -
  have "iter_position (\<lambda>c. \<not> f c) k (xs @ c # ys) = Some (k + length xs)" for k
    using assms(2,3) by (induction xs arbitrary: k) auto
  from this[of 0] assms(1) show ?thesis by (simp add: p_take_while1_def)
qed

lemma from_utf8_ascii: "list_all (\<lambda>b. b \<le> 0x7F) bs \<Longrightarrow> from_utf8 bs"
proof (induction bs)
  case (Cons b bs)
  then show ?case by (subst from_utf8.simps) simp
qed (subst from_utf8.simps, simp)

lemma chunk_size_line:
  assumes "h1_ok h" and "n < 2 ^ 64"
  shows "chunk_size h (hex_bytes n @ CRLF) = Ok ([], n)"
proof -
  note d = hex_bytes_digits[of n]
  have "list_all (\<lambda>b. b \<le> 0x7F) (hex_bytes n)"
    using d by (auto simp: list_all_iff is_hex_digit_def word_less_nat_alt word_le_nat_alt)
  then have "from_utf8 (hex_bytes n)" by (rule from_utf8_ascii)
  moreover have "p_take_while1 is_hex_digit (hex_bytes n @ CRLF) = Ok (CRLF, hex_bytes n)"
    using take_while1_stops[of "hex_bytes n" is_hex_digit "0x0D" "[0x0A]"] d by (simp add: CRLF_def is_hex_digit_def)
  ultimately show ?thesis
    using from_hex_loop_hex_bytes[OF assms(2)] d
    by (simp add: chunk_size_def u64_text_hex_def h1_okD[OF assms(1)] p_terminated_def p_map_res_def from_str_radix16_def
        nom_tag_eq[OF h1_okD(1)[OF assms(1)]])
qed

lemma crlf_line: "h1_ok h \<Longrightarrow> crlf h CRLF = Ok ([], ())"
  by (simp add: crlf_def nom_tag_eq[OF h1_okD(1)])

section \<open>What a reader of a body sees\<close>

text \<open>The chunks that a body delivers before it is done, and the body that is left.\<close>

inductive delivers :: "('b, 'e) body_ops \<Rightarrow> 'b \<Rightarrow> bytes list \<Rightarrow> 'b \<Rightarrow> bool" for bo where
  delivers_done: "body_next_chunk bo b = (Ok (Done ts), b') \<Longrightarrow> delivers bo b [] b'"
| delivers_chunk: "body_next_chunk bo b = (Ok (Chunk c), b1) \<Longrightarrow> delivers bo b1 cs b' \<Longrightarrow> delivers bo b (c # cs) b'"

text \<open>The bytes of a chunk on the wire, and of a body up to the empty chunk that ends it.\<close>

definition chunk_wire :: "bytes \<Rightarrow> bytes" where
  "chunk_wire c = hex_bytes (length c) @ CRLF @ c @ CRLF"

definition chunked_wire :: "bytes list \<Rightarrow> bytes" where
  "chunked_wire cs = concat (map chunk_wire cs) @ byte_str ''0'' @ CRLF @ CRLF"

locale h1_source = buffered_source io left good
  for io :: "'r reading" and left and good +
  fixes h :: h1_deps
  assumes h: "h1_ok h"
begin

text \<open>The bytes that are still to come: those in the buffer and those in the transport.\<close>

definition ahead :: "bytes option \<Rightarrow> 'r \<Rightarrow> bytes" where
  "ahead slot r = (case slot of None \<Rightarrow> [] | Some buf \<Rightarrow> buf @ left r)"

lemma fill_if_empty_takes:
  assumes "good r" and "0 < limit"
  shows "\<exists>buf' r'. fill_if_empty io limit buf r = (Ok buf', r') \<and> good r' \<and> buf' @ left r' = buf @ left r \<and>
    (buf' = [] \<longrightarrow> buf @ left r = [])"
  using read_into_takes[OF assms, of buf] assms(1) by (auto simp: fill_if_empty_def)

subsection \<open>Content length\<close>

lemma cl_step:
  assumes "good r" and "cl_read st < cl_len st" and "cl_len st - cl_read st \<le> length (buf @ left r)"
  shows "\<exists>c buf' r'. cl_next_chunk io st (Some buf) r = (Ok (Chunk c), st\<lparr>cl_read := cl_read st + length c\<rparr>, Some buf', r') \<and>
    good r' \<and> c \<noteq> [] \<and> length c \<le> cl_len st - cl_read st \<and> buf @ left r = c @ buf' @ left r'"
proof -
  let ?n = "cl_len st - cl_read st"
  obtain buf' r' where f: "fill_if_empty io (2 ^ 64 - 1) buf r = (Ok buf', r')" "good r'" "buf' @ left r' = buf @ left r"
      "buf' \<noteq> []"
    using fill_if_empty_takes[OF assms(1), of "2 ^ 64 - 1" buf] assms(2,3) by auto
  have "cl_next_chunk io st (Some buf) r = (Ok (Chunk (take ?n buf')), st\<lparr>cl_read := cl_read st + length (take ?n buf')\<rparr>,
      Some (drop ?n buf'), r')"
    using f assms(2) by (simp add: cl_next_chunk_def sub_usize_def take_at_most_def)
  moreover have "buf @ left r = take ?n buf' @ drop ?n buf' @ left r'" using f(3) by (simp flip: append_assoc)
  ultimately show ?thesis using f(2,4) assms(2) by (intro exI conjI) (assumption | simp)+
qed

lemma cl_delivers:
  assumes "good r" and "cl_read st \<le> cl_len st" and "cl_len st - cl_read st \<le> length (buf @ left r)"
  shows "\<exists>cs b' buf' r'. delivers (h1_body_ops h io) \<lparr>b1_transport = r, b1_buf = Some buf, b1_state = ContentLength st\<rparr> cs b' \<and>
    [] \<notin> set cs \<and> concat cs = take (cl_len st - cl_read st) (buf @ left r) \<and>
    into_inner b' = Some (buf', r') \<and> good r' \<and> buf' @ left r' = drop (cl_len st - cl_read st) (buf @ left r)"
  using assms
proof (induction "cl_len st - cl_read st" arbitrary: st buf r rule: less_induct)
  case less
  let ?b = "\<lparr>b1_transport = r, b1_buf = Some buf, b1_state = ContentLength st\<rparr>"
  show ?case
  proof (cases "cl_read st = cl_len st")
    case True
    then have "body_next_chunk (h1_body_ops h io) ?b = (Ok (Done None), ?b)"
      by (simp add: h1_body_ops_def b1_next_chunk_def cl_next_chunk_def sub_usize_def)
    moreover have "into_inner ?b = Some (buf, r)" using True by (simp add: into_inner_def b1_eof_def cl_eof_def)
    ultimately show ?thesis using delivers_done[of "h1_body_ops h io" ?b] True less.prems(1) by fastforce
  next
    case False
    then obtain c buf1 r1 where s: "cl_next_chunk io st (Some buf) r = (Ok (Chunk c), st\<lparr>cl_read := cl_read st + length c\<rparr>, Some buf1, r1)"
        "good r1" "c \<noteq> []" "length c \<le> cl_len st - cl_read st" "buf @ left r = c @ buf1 @ left r1"
      using cl_step[OF less.prems(1) _ less.prems(3)] less.prems(2) by (metis le_neq_implies_less)
    let ?st = "st\<lparr>cl_read := cl_read st + length c\<rparr>"
    have n: "cl_len ?st - cl_read ?st = cl_len st - cl_read st - length c" "cl_read ?st \<le> cl_len ?st"
      using s(4) less.prems(2) by auto
    have "body_next_chunk (h1_body_ops h io) ?b =
        (Ok (Chunk c), \<lparr>b1_transport = r1, b1_buf = Some buf1, b1_state = ContentLength ?st\<rparr>)"
      using s(1) by (simp add: h1_body_ops_def b1_next_chunk_def)
    moreover have less: "cl_len ?st - cl_read ?st < cl_len st - cl_read st" using n s(3,4) by (cases c) auto
    moreover have len: "cl_len ?st - cl_read ?st \<le> length (buf1 @ left r1)" using n(1) s(5) less.prems(3) by simp
    obtain cs b' buf' r' where
      "delivers (h1_body_ops h io) \<lparr>b1_transport = r1, b1_buf = Some buf1, b1_state = ContentLength ?st\<rparr> cs b'"
      "[] \<notin> set cs" "concat cs = take (cl_len st - cl_read st - length c) (buf1 @ left r1)"
      "into_inner b' = Some (buf', r')" "good r'" "buf' @ left r' = drop (cl_len st - cl_read st - length c) (buf1 @ left r1)"
      using less.hyps[OF less s(2) n(2) len] unfolding n(1) by blast
    ultimately show ?thesis
      using s(3,4,5) delivers_chunk[of "h1_body_ops h io" ?b c] by (intro exI[of _ "c # cs"] exI[of _ b']) auto
  qed
qed

subsection \<open>Chunks\<close>

sublocale size_line: limited_stream "chunk_size h" io left good
  by (rule limited_stream.intro[OF h1_parsers(5)[OF h] buffered_source_axioms])

sublocale end_line: limited_stream "crlf h" io left good
  by (rule limited_stream.intro[OF h1_parsers(3)[OF h] buffered_source_axioms])

lemma read_terminator_takes:
  assumes "good r" and "buf @ left r = CRLF @ rest"
  shows "\<exists>buf' r'. read_terminator h io name buf r = (Ok buf', r') \<and> good r' \<and> buf' @ left r' = rest"
  using end_line.read_and_parse_message[OF assms, of 2 "()" name] crlf_line[OF h]
  by (auto simp: read_terminator_def CRLF_def)

lemma read_chunk_data_takes:
  assumes "good r" and "buf @ left r = d @ rest" and "d \<noteq> []"
  shows "\<exists>c d' buf' r'. read_chunk_data io (length d) buf r = (Ok (Chunk c), ReadingChunk (length d'), Some buf', r') \<and>
    good r' \<and> c \<noteq> [] \<and> d = c @ d' \<and> buf' @ left r' = d' @ rest"
proof -
  obtain buf1 r1 where f: "fill_if_empty io (length d) buf r = (Ok buf1, r1)" "good r1" "buf1 @ left r1 = d @ rest" "buf1 \<noteq> []"
    using fill_if_empty_takes[OF assms(1), of "length d" buf] assms(2,3) by auto
  show ?thesis
  proof (cases "length buf1 \<le> length d")
    case True
    with f(3) obtain d' where "d = buf1 @ d'" "left r1 = d' @ rest"
      by (auto simp: append_eq_append_conv2 dest: le_antisym)
    with f assms(3) show ?thesis by (simp add: read_chunk_data_def take_at_most_def)
  next
    case False
    with f(3) obtain y where "buf1 = d @ y" "y @ left r1 = rest" by (auto simp: append_eq_append_conv2)
    with f assms(3) show ?thesis by (simp add: read_chunk_data_def take_at_most_def)
  qed
qed

lemma header_step:
  assumes "good r" and "buf @ left r = chunk_wire c @ rest" and "c \<noteq> []" and "length c < 16 ^ 14"
  shows "\<exists>x c' buf' r'. chunked_next_chunk h io ReadingChunkHeader (Some buf) r =
      (Ok (Chunk x), ReadingChunk (length c'), Some buf', r') \<and> good r' \<and> x \<noteq> [] \<and> c = x @ c' \<and>
    buf' @ left r' = c' @ CRLF @ rest"
proof -
  let ?line = "hex_bytes (length c) @ CRLF"
  have "length ?line \<le> 16" using length_hex_bytes[OF assms(4)] by (simp add: CRLF_def)
  moreover have "length c < 2 ^ 64" using assms(4) by simp
  ultimately obtain buf1 r1 where
    "read_and_parse io ''Http1BodyChunk'' (chunk_size h) 16 buf r = (Ok (Some (buf1, length c)), r1)" "good r1"
    "buf1 @ left r1 = c @ CRLF @ rest"
    using size_line.read_and_parse_message[OF assms(1), of buf ?line "c @ CRLF @ rest" 16 "length c" "''Http1BodyChunk''"] assms(2)
      chunk_size_line[OF h] by (auto simp: chunk_wire_def)
  moreover from read_chunk_data_takes[OF this(2,3) assms(3)] obtain x c' buf' r' where
    "read_chunk_data io (length c) buf1 r1 = (Ok (Chunk x), ReadingChunk (length c'), Some buf', r')"
    "good r'" "x \<noteq> []" "c = x @ c'" "buf' @ left r' = c' @ CRLF @ rest" by auto
  ultimately show ?thesis using assms(3) by (subst chunked_next_chunk.simps) simp
qed

lemma end_step:
  assumes "good r" and "buf @ left r = byte_str ''0'' @ CRLF @ CRLF @ rest"
  shows "\<exists>buf' r'. chunked_next_chunk h io ReadingChunkHeader (Some buf) r = (Ok (Done None), ChunkedDone, Some buf', r') \<and>
    good r' \<and> buf' @ left r' = rest"
proof -
  have z: "byte_str ''0'' = hex_bytes 0" by (subst hex_bytes.simps) (simp add: hex_digit_def byte_str_def)
  have "length (hex_bytes 0 @ CRLF) \<le> 16" using z by (simp add: byte_str_def CRLF_def flip: z)
  then obtain buf1 r1 where
    "read_and_parse io ''Http1BodyChunk'' (chunk_size h) 16 buf r = (Ok (Some (buf1, 0)), r1)" "good r1"
    "buf1 @ left r1 = CRLF @ rest"
    using size_line.read_and_parse_message[OF assms(1), of buf "hex_bytes 0 @ CRLF" "CRLF @ rest" 16 0 "''Http1BodyChunk''"] assms(2)
      chunk_size_line[OF h, of 0] z by auto
  moreover from read_terminator_takes[OF this(2,3), of "''Http1BodyChunkFinalTerminator''"] obtain buf' r' where
    "read_terminator h io ''Http1BodyChunkFinalTerminator'' buf1 r1 = (Ok buf', r')" "good r'" "buf' @ left r' = rest" by auto
  ultimately show ?thesis by (subst chunked_next_chunk.simps) simp
qed

text \<open>The state of a decoder that has \<open>d\<close> of a chunk before it: before the first chunk there is nothing.\<close>

definition chunk_state :: "bool \<Rightarrow> bytes \<Rightarrow> chunked_decoder" where
  "chunk_state start d = (if start then ReadingChunkHeader else ReadingChunk (length d))"

definition chunk_ahead :: "bool \<Rightarrow> bytes \<Rightarrow> bytes" where
  "chunk_ahead start d = (if start then [] else d @ CRLF)"

lemma between_chunks:
  assumes "good r" and "buf @ left r = CRLF @ rest"
  shows "\<exists>buf' r'. chunked_next_chunk h io (ReadingChunk 0) (Some buf) r =
      chunked_next_chunk h io ReadingChunkHeader (Some buf') r' \<and> good r' \<and> buf' @ left r' = rest"
proof -
  obtain buf' r' where t: "read_terminator h io ''Http1BodyChunkTerminator'' buf r = (Ok buf', r')" "good r'" "buf' @ left r' = rest"
    using read_terminator_takes[OF assms] by blast
  then have "chunked_next_chunk h io (ReadingChunk 0) (Some buf) r = chunked_next_chunk h io ReadingChunkHeader (Some buf') r'"
    by (subst chunked_next_chunk.simps) simp
  with t show ?thesis by blast
qed

lemma chunked_delivers:
  assumes "good r" and "buf @ left r = chunk_ahead start d @ chunked_wire cs @ rest" and "start \<longrightarrow> d = []"
    and "\<forall>c\<in>set cs. c \<noteq> [] \<and> length c < 16 ^ 14"
  shows "\<exists>xs b' buf' r'. delivers (h1_body_ops h io)
      \<lparr>b1_transport = r, b1_buf = Some buf, b1_state = Chunked (chunk_state start d)\<rparr> xs b' \<and>
    [] \<notin> set xs \<and> concat xs = d @ concat cs \<and> into_inner b' = Some (buf', r') \<and> good r' \<and> buf' @ left r' = rest"
  using assms
proof (induction "length (d @ concat cs)" arbitrary: r buf start d cs rule: less_induct)
  case less
  let ?b = "\<lparr>b1_transport = r, b1_buf = Some buf, b1_state = Chunked (chunk_state start d)\<rparr>"
  have nc: "body_next_chunk (h1_body_ops h io) ?b = (res, \<lparr>b1_transport = r', b1_buf = slot, b1_state = Chunked st\<rparr>)"
    if "chunked_next_chunk h io (chunk_state start d) (Some buf) r = (res, st, slot, r')" for res st slot r'
    using that by (simp add: h1_body_ops_def b1_next_chunk_def)
  have more: ?case
    if step: "chunked_next_chunk h io (chunk_state start d) (Some buf) r =
        (Ok (Chunk x), ReadingChunk (length d'), Some buf1, r1)"
      and g: "good r1" "x \<noteq> []" "buf1 @ left r1 = d' @ CRLF @ chunked_wire cs' @ rest"
      and eq: "d @ concat cs = x @ d' @ concat cs'" and sub: "set cs' \<subseteq> set cs" for x d' buf1 r1 cs'
  proof -
    have lt: "length (d' @ concat cs') < length (d @ concat cs)" using eq g(2) by simp
    have small: "\<forall>c\<in>set cs'. c \<noteq> [] \<and> length c < 16 ^ 14" using sub less.prems(4) by blast
    obtain xs b' buf' r' where IH: "delivers (h1_body_ops h io)
        \<lparr>b1_transport = r1, b1_buf = Some buf1, b1_state = Chunked (chunk_state False d')\<rparr> xs b'"
      "[] \<notin> set xs" "concat xs = d' @ concat cs'" "into_inner b' = Some (buf', r')" "good r'" "buf' @ left r' = rest"
      using less.hyps[OF lt g(1) _ _ small, of buf1 False] g(3) by (auto simp: chunk_ahead_def)
    have "delivers (h1_body_ops h io) ?b (x # xs) b'"
      using delivers_chunk[OF nc[OF step]] IH(1) by (simp add: chunk_state_def)
    with IH(2-) g(2) eq show ?thesis by (intro exI[of _ "x # xs"] exI[of _ b']) auto
  qed
  have header: ?case
    if st: "chunked_next_chunk h io (chunk_state start d) (Some buf) r = chunked_next_chunk h io ReadingChunkHeader (Some buf0) r0"
      and g: "good r0" "buf0 @ left r0 = chunked_wire cs @ rest" and "d = []" for buf0 r0
  proof (cases cs)
    case Nil
    with g obtain buf' r' where e: "chunked_next_chunk h io ReadingChunkHeader (Some buf0) r0 = (Ok (Done None), ChunkedDone, Some buf', r')"
      "good r'" "buf' @ left r' = rest" using end_step[OF g(1), of buf0 rest] by (auto simp: chunked_wire_def)
    let ?b' = "\<lparr>b1_transport = r', b1_buf = Some buf', b1_state = Chunked ChunkedDone\<rparr>"
    have "into_inner ?b' = Some (buf', r')" by (simp add: into_inner_def b1_eof_def chunked_eof_def)
    with delivers_done[OF nc[OF st[unfolded e(1)]]] e(2,3) Nil \<open>d = []\<close> show ?thesis
      by (intro exI[of _ "[] :: bytes list"] exI[of _ ?b']) auto
  next
    case (Cons c cs')
    with g less.prems(4) obtain x c' buf1 r1 where
      "chunked_next_chunk h io ReadingChunkHeader (Some buf0) r0 = (Ok (Chunk x), ReadingChunk (length c'), Some buf1, r1)"
      "good r1" "x \<noteq> []" "c = x @ c'" "buf1 @ left r1 = c' @ CRLF @ chunked_wire cs' @ rest"
      using header_step[OF g(1), of buf0 c "chunked_wire cs' @ rest"] by (auto simp: chunked_wire_def)
    with more[of x c' buf1 r1 cs'] st Cons \<open>d = []\<close> show ?thesis by auto
  qed
  show ?case
  proof (cases start)
    case True
    with header[of buf r] less.prems show ?thesis by (simp add: chunk_state_def chunk_ahead_def)
  next
    case False
    show ?thesis
    proof (cases "d = []")
      case True
      with between_chunks[OF less.prems(1), of buf "chunked_wire cs @ rest"] less.prems(2) False header show ?thesis
        by (auto simp: chunk_state_def chunk_ahead_def)
    next
      case d: False
      obtain x d' buf1 r1 where
        s: "read_chunk_data io (length d) buf r = (Ok (Chunk x), ReadingChunk (length d'), Some buf1, r1)"
          "good r1" "x \<noteq> []" "d = x @ d'" "buf1 @ left r1 = d' @ CRLF @ chunked_wire cs @ rest"
        using read_chunk_data_takes[OF less.prems(1) _ d, of buf "CRLF @ chunked_wire cs @ rest"] less.prems(2) False
        by (auto simp: chunk_ahead_def)
      have "chunked_next_chunk h io (chunk_state start d) (Some buf) r = read_chunk_data io (length d) buf r"
        using False d by (subst chunked_next_chunk.simps) (simp add: chunk_state_def)
      with more[of x d' buf1 r1 cs] s show ?thesis by auto
    qed
  qed
qed

end

lemma pipe_h1_source: "h1_ok h \<Longrightarrow> h1_source pipe_reading pr_left pr_good h"
  by (rule h1_source.intro[OF pipe_source.buffered_source_axioms h1_source_axioms.intro])

interpretation pipe_h1: h1_source pipe_reading pr_left pr_good h1_std
  by (rule pipe_h1_source[OF h1_std_ok])

section \<open>Writing what is read\<close>

lemma write_chunked_chunk:
  "write_h1_body_chunk vec_write_all w c ModeChunked = (Ok (), w @ chunk_wire c)"
  "write_h1_body_chunk vec_write_all w c (ModeContentLength n) = (Ok (), w @ c)"
  by (simp_all add: write_h1_body_chunk_def vec_write_all_def chunk_wire_def)

lemma write_h1_body_delivers:
  assumes "delivers bo b cs b'"
  shows "write_h1_body vec_write_all bo (ModeContentLength n) w b = Some (Ok (), w @ concat cs, b') \<and>
    write_h1_body vec_write_all bo ModeChunked w b = Some (Ok (), w @ chunked_wire cs, b')"
  using assms
proof (induction arbitrary: w)
  case (delivers_done b ts b')
  then show ?case
    by (subst (1 2) write_h1_body.simps) (simp add: write_h1_body_end_def vec_write_all_def chunked_wire_def)
next
  case (delivers_chunk b c b1 cs b')
  then show ?case
    by (subst (1 2) write_h1_body.simps)
      (simp add: write_chunked_chunk chunked_wire_def)
qed

text \<open>A body of known length is copied exactly: reading it from any transport that delivers bytes in order,
  whatever the sizes of the reads and what was buffered before, and writing it on gives the first \<open>n\<close> bytes;
  the copy ends, and the buffer and transport that are given back hold exactly the bytes behind the body,
  where the next message begins.\<close>

lemma content_length_body_copied:
  assumes "h1_ok h" and "n \<le> length (buf @ pr_left r)" and "pr_good r"
  shows "\<exists>b' buf' r'. write_h1_body vec_write_all (h1_body_ops h pipe_reading) (ModeContentLength n) w
      (h1_body_new r buf (KindContentLength n)) = Some (Ok (), w @ take n (buf @ pr_left r), b') \<and>
    into_inner b' = Some (buf', r') \<and> buf' @ pr_left r' = drop n (buf @ pr_left r)"
proof -
  from h1_source.cl_delivers[OF pipe_h1_source[OF assms(1)] assms(3), of "\<lparr>cl_len = n, cl_read = 0\<rparr>" buf] assms(2)
  obtain cs b' buf' r' where "delivers (h1_body_ops h pipe_reading) (h1_body_new r buf (KindContentLength n)) cs b'"
    "concat cs = take n (buf @ pr_left r)" "into_inner b' = Some (buf', r')" "buf' @ pr_left r' = drop n (buf @ pr_left r)"
    by (auto simp: h1_body_new_def)
  then show ?thesis using write_h1_body_delivers[of _ _ cs b' n w] by auto
qed

lemma content_length_body_copied_witness:
  "\<exists>b' buf' r'. write_h1_body vec_write_all (h1_body_ops h1_std pipe_reading) (ModeContentLength 3) [7]
      (h1_body_new (pipe_read_new (map PipePiece [[2], [3, 4], [5]])) [1] (KindContentLength 3)) =
        Some (Ok (), [7, 1, 2, 3], b') \<and>
    into_inner b' = Some (buf', r') \<and> buf' @ pr_left r' = [4, 5]"
proof -
  let ?r = "pipe_read_new (map PipePiece [[2], [3, 4], [5]])"
  have "pr_left ?r = [2, 3, 4, 5]" "pr_good ?r"
    using pipe_left_pieces[of "[[2], [3, 4], [5]]"] pipe_good_pieces[of "[[2], [3, 4], [5]]"] by simp_all
  with content_length_body_copied[OF h1_std_ok, of 3 "[1]" ?r "[7]"] show ?thesis by simp
qed

text \<open>The chunks of a body on the wire reach the reader, whatever pieces they arrive in.\<close>

lemma chunked_body_delivered:
  assumes "h1_ok h" and "pr_good r" and "buf @ pr_left r = chunked_wire cs @ rest"
    and "\<forall>c\<in>set cs. c \<noteq> [] \<and> length c < 16 ^ 14"
  shows "\<exists>xs b' buf' r'. delivers (h1_body_ops h pipe_reading) (h1_body_new r buf KindChunked) xs b' \<and>
    [] \<notin> set xs \<and> concat xs = concat cs \<and> into_inner b' = Some (buf', r') \<and> pr_good r' \<and> buf' @ pr_left r' = rest"
  using h1_source.chunked_delivers[OF pipe_h1_source[OF assms(1)] assms(2), of buf True "[]" cs rest] assms(3,4)
  by (simp add: h1_body_new_def h1_source.chunk_ahead_def[OF pipe_h1_source[OF assms(1)]]
      h1_source.chunk_state_def[OF pipe_h1_source[OF assms(1)]])



text \<open>An empty chunk of a body is written as the end of the body: the reader gets only what came before it,
  and takes the rest of the body for the beginning of the next message.\<close>

lemma empty_chunk_ends_body:
  assumes "h1_ok h" and "delivers bo b (cs @ [] # cs') b1" and "\<forall>c\<in>set cs. c \<noteq> [] \<and> length c < 16 ^ 14"
    and "concat ps = wire @ rest" and "\<forall>p\<in>set ps. p \<noteq> []"
    and "write_h1_body vec_write_all bo ModeChunked [] b = Some (Ok (), wire, b2)"
  shows "\<exists>b' buf' r'. write_h1_body vec_write_all (h1_body_ops h pipe_reading) (ModeContentLength n) []
      (h1_body_new (pipe_read_new (map PipePiece ps)) [] KindChunked) = Some (Ok (), concat cs, b') \<and>
    into_inner b' = Some (buf', r') \<and> buf' @ pr_left r' = chunked_wire cs' @ rest"
proof -
  have "chunk_wire [] = byte_str ''0'' @ CRLF @ CRLF"
    by (simp add: chunk_wire_def) (subst hex_bytes.simps, simp add: hex_digit_def byte_str_def)
  then have "chunked_wire (cs @ [] # cs') = chunked_wire cs @ chunked_wire cs'" by (simp add: chunked_wire_def)
  then have "wire = chunked_wire cs @ chunked_wire cs'"
    using assms(6) write_h1_body_delivers[OF assms(2), of n "[]"] by simp
  with assms(4) have "[] @ pr_left (pipe_read_new (map PipePiece ps)) = chunked_wire cs @ chunked_wire cs' @ rest"
    by (simp add: pipe_left_pieces)
  from chunked_body_delivered[OF assms(1) pipe_good_pieces[OF assms(5)] this assms(3)]
  obtain xs b' buf' r' where "delivers (h1_body_ops h pipe_reading) (h1_body_new (pipe_read_new (map PipePiece ps)) [] KindChunked) xs b'"
    "concat xs = concat cs" "into_inner b' = Some (buf', r')" "buf' @ pr_left r' = chunked_wire cs' @ rest" by blast
  then show ?thesis using write_h1_body_delivers[of _ _ xs b' n "[]"] by auto
qed

lemma empty_chunk_ends_body_witness:
  "\<exists>b' buf' r'. write_h1_body vec_write_all (h1_body_ops h1_std pipe_reading) (ModeContentLength 0) []
      (h1_body_new (pipe_read_new (map PipePiece [chunked_wire [[]]])) [] KindChunked) = Some (Ok (), [], b') \<and>
    into_inner b' = Some (buf', r') \<and> buf' @ pr_left r' = chunked_wire []"
proof -
  let ?b = "single_piece_body_new []"
  have b: "delivers (single_piece_body :: (_, unit) body_ops) ?b [[]] (?b\<lparr>spb_piece := None\<rparr>)"
    by (rule delivers_chunk[where ?b1.0 = "?b\<lparr>spb_piece := None\<rparr>"], simp add: single_piece_body_def spb_next_chunk_def
        single_piece_body_new_def, rule delivers_done[where ts = None]) (simp add: single_piece_body_def spb_next_chunk_def)
  have ne: "chunked_wire [[]] \<noteq> []" by (simp add: chunked_wire_def byte_str_def)
  from empty_chunk_ends_body[OF h1_std_ok, of _ _ "[]" "[]" _ "[chunked_wire [[]]]" "chunked_wire [[]]" "[]" _ 0, simplified, OF b ne]
    write_h1_body_delivers[OF b, of 0 "[]"]
  show ?thesis by simp
qed

end
