(* ===== verification/H1_Encode.thy ===== *)
theory H1_Encode
  imports H1_Body Responder
begin

text \<open>
  The HTTP/1.1 encoder (\<open>crates/loona/src/h1/encode.rs\<close>): requests, responses and header lines as lists of
  pieces, the table of status codes, and the encoder that a responder writes to. Requests and responses are
  shown to be parsed back. A list of pieces is the list of their bytes. What a request or response must
  satisfy, and what is used of the \<open>http\<close> package (\<open>http1_spec\<close>), is stated with the theorems.
\<close>

section \<open>The code\<close>

text \<open>\<open>last_header_name\<close> is the name of the previous field.\<close>

fun encode_headers_loop ::
    "bytes option \<Rightarrow> (bytes option \<times> bytes) list \<Rightarrow> bytes list \<Rightarrow> (bytes list, 'e) result" where
  "encode_headers_loop last_name [] list = Ok list"
| "encode_headers_loop last_name ((Some name, hvalue) # hfields) list =
     encode_headers_loop (Some name) hfields
       (plist_push_back (plist_push_back (plist_push_back (plist_push_back list name) (byte_str '': '')) hvalue) CRLF)"
| "encode_headers_loop last_name ((None, hvalue) # hfields) list =
     (case last_name of
        None \<Rightarrow> Panic
      | Some name \<Rightarrow>
          encode_headers_loop last_name hfields
            (plist_push_back (plist_push_back (plist_push_back (plist_push_back list name) (byte_str '': '')) hvalue) CRLF))"

definition encode_headers :: "http1 \<Rightarrow> headers \<Rightarrow> bytes list \<Rightarrow> (bytes list, 'e) result" where
  "encode_headers hp headers list = encode_headers_loop None (hm_into_iter hp headers) list"

text \<open>A string of packed 3-digit status codes.\<close>

definition CODE_DIGITS :: bytes where
  "CODE_DIGITS =
     byte_str ''100101102103104105106107108109110111112113114115116117118119'' @
     byte_str ''120121122123124125126127128129130131132133134135136137138139'' @
     byte_str ''140141142143144145146147148149150151152153154155156157158159'' @
     byte_str ''160161162163164165166167168169170171172173174175176177178179'' @
     byte_str ''180181182183184185186187188189190191192193194195196197198199'' @
     byte_str ''200201202203204205206207208209210211212213214215216217218219'' @
     byte_str ''220221222223224225226227228229230231232233234235236237238239'' @
     byte_str ''240241242243244245246247248249250251252253254255256257258259'' @
     byte_str ''260261262263264265266267268269270271272273274275276277278279'' @
     byte_str ''280281282283284285286287288289290291292293294295296297298299'' @
     byte_str ''300301302303304305306307308309310311312313314315316317318319'' @
     byte_str ''320321322323324325326327328329330331332333334335336337338339'' @
     byte_str ''340341342343344345346347348349350351352353354355356357358359'' @
     byte_str ''360361362363364365366367368369370371372373374375376377378379'' @
     byte_str ''380381382383384385386387388389390391392393394395396397398399'' @
     byte_str ''400401402403404405406407408409410411412413414415416417418419'' @
     byte_str ''420421422423424425426427428429430431432433434435436437438439'' @
     byte_str ''440441442443444445446447448449450451452453454455456457458459'' @
     byte_str ''460461462463464465466467468469470471472473474475476477478479'' @
     byte_str ''480481482483484485486487488489490491492493494495496497498499'' @
     byte_str ''500501502503504505506507508509510511512513514515516517518519'' @
     byte_str ''520521522523524525526527528529530531532533534535536537538539'' @
     byte_str ''540541542543544545546547548549550551552553554555556557558559'' @
     byte_str ''560561562563564565566567568569570571572573574575576577578579'' @
     byte_str ''580581582583584585586587588589590591592593594595596597598599'' @
     byte_str ''600601602603604605606607608609610611612613614615616617618619'' @
     byte_str ''620621622623624625626627628629630631632633634635636637638639'' @
     byte_str ''640641642643644645646647648649650651652653654655656657658659'' @
     byte_str ''660661662663664665666667668669670671672673674675676677678679'' @
     byte_str ''680681682683684685686687688689690691692693694695696697698699'' @
     byte_str ''700701702703704705706707708709710711712713714715716717718719'' @
     byte_str ''720721722723724725726727728729730731732733734735736737738739'' @
     byte_str ''740741742743744745746747748749750751752753754755756757758759'' @
     byte_str ''760761762763764765766767768769770771772773774775776777778779'' @
     byte_str ''780781782783784785786787788789790791792793794795796797798799'' @
     byte_str ''800801802803804805806807808809810811812813814815816817818819'' @
     byte_str ''820821822823824825826827828829830831832833834835836837838839'' @
     byte_str ''840841842843844845846847848849850851852853854855856857858859'' @
     byte_str ''860861862863864865866867868869870871872873874875876877878879'' @
     byte_str ''880881882883884885886887888889890891892893894895896897898899'' @
     byte_str ''900901902903904905906907908909910911912913914915916917918919'' @
     byte_str ''920921922923924925926927928929930931932933934935936937938939'' @
     byte_str ''940941942943944945946947948949950951952953954955956957958959'' @
     byte_str ''960961962963964965966967968969970971972973974975976977978979'' @
     byte_str ''980981982983984985986987988989990991992993994995996997998999''"

definition encode_status_code :: "nat \<Rightarrow> (bytes, 'e) result" where
  "encode_status_code code =
     and_then (sub_usize code 100) (\<lambda>offset.
       if offset * 3 + 3 \<le> length CODE_DIGITS then Ok (take 3 (drop (offset * 3) CODE_DIGITS)) else Panic)"

text \<open>\<open>room\<close> is what comes of making room for the path in the scratch buffer, which must be empty; \<open>take_all\<close>
  panics on an empty path.\<close>

definition encode_request ::
    "http1 \<Rightarrow> (unit, io_error) result \<Rightarrow> request \<Rightarrow> bytes list \<Rightarrow> bytes \<Rightarrow> (bytes list, io_error) result" where
  "encode_request hp room req list out_scratch =
     (let list = plist_push_back list (into_chunk (rq_method req));
          list = plist_push_back list (byte_str '' '')
      in
      if length out_scratch \<noteq> 0 then Panic
      else
        and_then room (\<lambda>_.
        if uri_path hp (rq_uri req) = [] then Panic
        else
        let list = plist_push_back list (uri_path hp (rq_uri req)) in
        and_then
          (case rq_version req of
             HTTP_10 \<Rightarrow> Ok (plist_push_back list (byte_str '' HTTP/1.0'' @ CRLF))
           | HTTP_11 \<Rightarrow> Ok (plist_push_back list (byte_str '' HTTP/1.1'' @ CRLF))
           | _ \<Rightarrow> Panic) (\<lambda>list.
        and_then (encode_headers hp (rq_headers req) list) (\<lambda>list.
          Ok (plist_push_back list CRLF)))))"

definition encode_response :: "http1 \<Rightarrow> response \<Rightarrow> bytes list \<Rightarrow> (bytes list, io_error) result" where
  "encode_response hp res list =
     and_then
       (case rs_version res of
          HTTP_10 \<Rightarrow> Ok (plist_push_back list (byte_str ''HTTP/1.0 ''))
        | HTTP_11 \<Rightarrow> Ok (plist_push_back list (byte_str ''HTTP/1.1 ''))
        | _ \<Rightarrow> Panic) (\<lambda>list.
     and_then (encode_status_code (rs_status res)) (\<lambda>code.
       let list = plist_push_back list code;
           list = plist_push_back list (byte_str '' '');
           list = plist_push_back list (case canonical_reason hp (rs_status res) of
                    Some reason \<Rightarrow> reason | None \<Rightarrow> byte_str ''Unknown'');
           list = plist_push_back list CRLF
       in
       and_then (encode_headers hp (rs_headers res) list) (\<lambda>list.
         Ok (plist_push_back list CRLF))))"

record 'w h1_encoder =
  e1_transport :: 'w
  e1_mode :: body_write_mode

definition h1_encoder_new :: "'w \<Rightarrow> 'w h1_encoder" where
  "h1_encoder_new transport_w = \<lparr>e1_transport = transport_w, e1_mode = ModeEmpty\<rparr>"

datatype h1_encoder_error = H1IoError io_error | H1WrongState body_write_mode body_write_mode | H1BodyError body_error

definition e1_writev ::
    "('w, io_error) writer \<Rightarrow> 'w h1_encoder \<Rightarrow> bytes list \<Rightarrow> (unit, h1_encoder_error) result \<times> 'w h1_encoder" where
  "e1_writev write enc list =
     (case write (e1_transport enc) (concat list) of
        (r, w) \<Rightarrow> (map_err H1IoError r, enc\<lparr>e1_transport := w\<rparr>))"

text \<open>How the body of a response will be written, and the response with the header that says so.\<close>

definition response_mode :: "http1 \<Rightarrow> body_write_mode \<Rightarrow> response \<Rightarrow> body_write_mode \<times> response" where
  "response_mode hp mode res =
     (if \<not> is_informational (rs_status res) \<and> \<not> means_empty_body res then
        (case content_length (hp_http hp) (rs_headers res) of
           Some len \<Rightarrow> (if len = 0 then ModeEmpty else ModeContentLength len, res)
         | None \<Rightarrow>
             (ModeChunked, res\<lparr>rs_headers := hm_insert hp (rs_headers res) TRANSFER_ENCODING (byte_str ''chunked'')\<rparr>))
      else (mode, res))"

definition e1_write_response ::
    "http1 \<Rightarrow> ('w, io_error) writer \<Rightarrow> 'w h1_encoder \<Rightarrow> response \<Rightarrow>
     (unit, h1_encoder_error) result \<times> 'w h1_encoder" where
  "e1_write_response hp write enc res =
     (case response_mode hp (e1_mode enc) res of
        (mode, res) \<Rightarrow>
          let enc = enc\<lparr>e1_mode := mode\<rparr> in
          (case encode_response hp res [] of
             Panic \<Rightarrow> (Panic, enc)
           | Err e \<Rightarrow> (Err (H1IoError e), enc)
           | Ok list \<Rightarrow> e1_writev write enc list))"

definition e1_write_body_chunk ::
    "('w, io_error) writer \<Rightarrow> 'w h1_encoder \<Rightarrow> bytes \<Rightarrow> (unit, h1_encoder_error) result \<times> 'w h1_encoder" where
  "e1_write_body_chunk write enc chunk =
     (case write_h1_body_chunk write (e1_transport enc) chunk (e1_mode enc) of
        (r, w) \<Rightarrow> (map_err H1BodyError r, enc\<lparr>e1_transport := w\<rparr>))"

definition e1_write_body_end ::
    "('w, io_error) writer \<Rightarrow> 'w h1_encoder \<Rightarrow> (unit, h1_encoder_error) result \<times> 'w h1_encoder" where
  "e1_write_body_end write enc =
     (case write_h1_body_end write (e1_transport enc) (e1_mode enc) of
        (r, w) \<Rightarrow> (map_err H1BodyError r, enc\<lparr>e1_transport := w\<rparr>))"

definition e1_write_trailers ::
    "http1 \<Rightarrow> ('w, io_error) writer \<Rightarrow> 'w h1_encoder \<Rightarrow> headers \<Rightarrow>
     (unit, h1_encoder_error) result \<times> 'w h1_encoder" where
  "e1_write_trailers hp write enc trailers =
     (case encode_headers hp trailers [] of
        Panic \<Rightarrow> (Panic, enc)
      | Err e \<Rightarrow> (Err (H1IoError e), enc)
      | Ok list \<Rightarrow> e1_writev write enc list)"

definition h1_encoder_ops ::
    "http1 \<Rightarrow> ('w, io_error) writer \<Rightarrow> ('w h1_encoder, h1_encoder_error) encoder_ops" where
  "h1_encoder_ops hp write =
     \<lparr>eo_write_response = e1_write_response hp write, eo_write_body_chunk = e1_write_body_chunk write,
      eo_write_body_end = e1_write_body_end write, eo_write_trailers = e1_write_trailers hp write\<rparr>"

section \<open>Status codes\<close>

text \<open>The digits of a number of three digits, as characters.\<close>

definition digit_char :: "nat \<Rightarrow> char" where
  "digit_char d = char_of (48 + d)"

lemma digit_chars:
  "digit_char 0 = CHR ''0''" "digit_char (Suc 0) = CHR ''1''" "digit_char 2 = CHR ''2''" "digit_char 3 = CHR ''3''"
  "digit_char 4 = CHR ''4''" "digit_char 5 = CHR ''5''" "digit_char 6 = CHR ''6''" "digit_char 7 = CHR ''7''"
  "digit_char 8 = CHR ''8''" "digit_char 9 = CHR ''9''"
  by (simp_all add: digit_char_def char_of_def bit_0)

lemma digit_char_byte: "d < 10 \<Longrightarrow> byte_str [digit_char d] = [0x30 + of_nat d]"
proof -
  have "\<forall>k\<in>set [0..<10]. byte_str [digit_char k] = [0x30 + of_nat k]" by code_simp
  then show "d < 10 \<Longrightarrow> byte_str [digit_char d] = [0x30 + of_nat d]" by simp
qed

lemma byte_str_append: "byte_str xs @ byte_str ys = byte_str (xs @ ys)"
  by (simp add: byte_str_def)

lemma dec_bytes_three:
  assumes "100 \<le> n" and "n < 1000"
  shows "dec_bytes n = byte_str [digit_char (n div 100), digit_char (n div 10 mod 10), digit_char (n mod 10)]"
proof -
  have "dec_bytes n = [0x30 + of_nat (n div 100), 0x30 + of_nat (n div 10 mod 10), 0x30 + of_nat (n mod 10)]"
    using assms by (subst dec_bytes.simps, subst dec_bytes.simps, subst dec_bytes.simps) (auto simp: div_mult2_eq[symmetric])
  with digit_char_byte[of "n div 100"] digit_char_byte[of "n div 10 mod 10"] digit_char_byte[of "n mod 10"] assms
  show ?thesis by (simp add: byte_str_def)
qed

text \<open>The table is the concatenation of the decimal numbers from 100 to 999.\<close>

lemma code_digits_rows:
  "byte_str ''100101102103104105106107108109110111112113114115116117118119'' = concat (map dec_bytes [100..<120])"
  "byte_str ''120121122123124125126127128129130131132133134135136137138139'' = concat (map dec_bytes [120..<140])"
  "byte_str ''140141142143144145146147148149150151152153154155156157158159'' = concat (map dec_bytes [140..<160])"
  "byte_str ''160161162163164165166167168169170171172173174175176177178179'' = concat (map dec_bytes [160..<180])"
  "byte_str ''180181182183184185186187188189190191192193194195196197198199'' = concat (map dec_bytes [180..<200])"
  "byte_str ''200201202203204205206207208209210211212213214215216217218219'' = concat (map dec_bytes [200..<220])"
  "byte_str ''220221222223224225226227228229230231232233234235236237238239'' = concat (map dec_bytes [220..<240])"
  "byte_str ''240241242243244245246247248249250251252253254255256257258259'' = concat (map dec_bytes [240..<260])"
  "byte_str ''260261262263264265266267268269270271272273274275276277278279'' = concat (map dec_bytes [260..<280])"
  "byte_str ''280281282283284285286287288289290291292293294295296297298299'' = concat (map dec_bytes [280..<300])"
  "byte_str ''300301302303304305306307308309310311312313314315316317318319'' = concat (map dec_bytes [300..<320])"
  "byte_str ''320321322323324325326327328329330331332333334335336337338339'' = concat (map dec_bytes [320..<340])"
  "byte_str ''340341342343344345346347348349350351352353354355356357358359'' = concat (map dec_bytes [340..<360])"
  "byte_str ''360361362363364365366367368369370371372373374375376377378379'' = concat (map dec_bytes [360..<380])"
  "byte_str ''380381382383384385386387388389390391392393394395396397398399'' = concat (map dec_bytes [380..<400])"
  "byte_str ''400401402403404405406407408409410411412413414415416417418419'' = concat (map dec_bytes [400..<420])"
  "byte_str ''420421422423424425426427428429430431432433434435436437438439'' = concat (map dec_bytes [420..<440])"
  "byte_str ''440441442443444445446447448449450451452453454455456457458459'' = concat (map dec_bytes [440..<460])"
  "byte_str ''460461462463464465466467468469470471472473474475476477478479'' = concat (map dec_bytes [460..<480])"
  "byte_str ''480481482483484485486487488489490491492493494495496497498499'' = concat (map dec_bytes [480..<500])"
  "byte_str ''500501502503504505506507508509510511512513514515516517518519'' = concat (map dec_bytes [500..<520])"
  "byte_str ''520521522523524525526527528529530531532533534535536537538539'' = concat (map dec_bytes [520..<540])"
  "byte_str ''540541542543544545546547548549550551552553554555556557558559'' = concat (map dec_bytes [540..<560])"
  "byte_str ''560561562563564565566567568569570571572573574575576577578579'' = concat (map dec_bytes [560..<580])"
  "byte_str ''580581582583584585586587588589590591592593594595596597598599'' = concat (map dec_bytes [580..<600])"
  "byte_str ''600601602603604605606607608609610611612613614615616617618619'' = concat (map dec_bytes [600..<620])"
  "byte_str ''620621622623624625626627628629630631632633634635636637638639'' = concat (map dec_bytes [620..<640])"
  "byte_str ''640641642643644645646647648649650651652653654655656657658659'' = concat (map dec_bytes [640..<660])"
  "byte_str ''660661662663664665666667668669670671672673674675676677678679'' = concat (map dec_bytes [660..<680])"
  "byte_str ''680681682683684685686687688689690691692693694695696697698699'' = concat (map dec_bytes [680..<700])"
  "byte_str ''700701702703704705706707708709710711712713714715716717718719'' = concat (map dec_bytes [700..<720])"
  "byte_str ''720721722723724725726727728729730731732733734735736737738739'' = concat (map dec_bytes [720..<740])"
  "byte_str ''740741742743744745746747748749750751752753754755756757758759'' = concat (map dec_bytes [740..<760])"
  "byte_str ''760761762763764765766767768769770771772773774775776777778779'' = concat (map dec_bytes [760..<780])"
  "byte_str ''780781782783784785786787788789790791792793794795796797798799'' = concat (map dec_bytes [780..<800])"
  "byte_str ''800801802803804805806807808809810811812813814815816817818819'' = concat (map dec_bytes [800..<820])"
  "byte_str ''820821822823824825826827828829830831832833834835836837838839'' = concat (map dec_bytes [820..<840])"
  "byte_str ''840841842843844845846847848849850851852853854855856857858859'' = concat (map dec_bytes [840..<860])"
  "byte_str ''860861862863864865866867868869870871872873874875876877878879'' = concat (map dec_bytes [860..<880])"
  "byte_str ''880881882883884885886887888889890891892893894895896897898899'' = concat (map dec_bytes [880..<900])"
  "byte_str ''900901902903904905906907908909910911912913914915916917918919'' = concat (map dec_bytes [900..<920])"
  "byte_str ''920921922923924925926927928929930931932933934935936937938939'' = concat (map dec_bytes [920..<940])"
  "byte_str ''940941942943944945946947948949950951952953954955956957958959'' = concat (map dec_bytes [940..<960])"
  "byte_str ''960961962963964965966967968969970971972973974975976977978979'' = concat (map dec_bytes [960..<980])"
  "byte_str ''980981982983984985986987988989990991992993994995996997998999'' = concat (map dec_bytes [980..<1000])"
  by (simp_all add: upt_rec_numeral dec_bytes_three digit_chars byte_str_append)

lemma concat_upt_append:
  "i \<le> j \<Longrightarrow> j \<le> k \<Longrightarrow> concat (map f [i..<j]) @ concat (map f [j..<k]) = concat (map f [i..<k])"
  by (metis concat_append le_iff_add map_append upt_add_eq_append)

lemma code_digits_table: "CODE_DIGITS = concat (map dec_bytes [100..<1000])"
  unfolding CODE_DIGITS_def code_digits_rows by (simp add: concat_upt_append del: upt_rec_numeral)

lemma length_dec_bytes_three: "100 \<le> i \<Longrightarrow> j \<le> 1000 \<Longrightarrow> length (concat (map dec_bytes [i..<j])) = (j - i) * 3"
proof -
  assume "100 \<le> i" "j \<le> 1000"
  then have "map (length \<circ> dec_bytes) [i..<j] = map (\<lambda>_. 3) [i..<j]"
    by (intro map_cong) (auto simp: dec_bytes_three byte_str_def)
  then have "sum_list (map (length \<circ> dec_bytes) [i..<j]) = sum_list (map (\<lambda>_. 3) [i..<j])" by (rule arg_cong)
  then show ?thesis unfolding length_concat map_map by (simp add: sum_list_triv)
qed

text \<open>Looking up a code in the table gives its three digits.\<close>

lemma encode_status_code_digits:
  assumes "100 \<le> code" and "code < 1000"
  shows "(encode_status_code code :: (bytes, 'e) result) = Ok (dec_bytes code)"
proof -
  define before after where "before = concat (map dec_bytes [100..<code])" and "after = concat (map dec_bytes [Suc code..<1000])"
  have table: "CODE_DIGITS = before @ dec_bytes code @ after"
    using assms concat_upt_append[of 100 code 1000 dec_bytes] concat_upt_append[of code "Suc code" 1000 dec_bytes]
    by (simp add: code_digits_table before_def after_def del: upt_rec_numeral)
  have "length before = (code - 100) * 3" "length after = (999 - code) * 3"
    using length_dec_bytes_three[of 100 code] length_dec_bytes_three[of "Suc code" 1000] assms
    by (simp_all add: before_def after_def del: upt_rec_numeral)
  moreover have "length (dec_bytes code) = 3" using dec_bytes_three[OF assms] by (simp add: byte_str_def)
  ultimately show ?thesis using assms unfolding encode_status_code_def sub_usize_def table by simp
qed

text \<open>The other values of \<open>StatusCode\<close> do not exist; for them the function would panic.\<close>

lemma encode_status_code_panics:
  "\<not> (100 \<le> code \<and> code < 1000) \<Longrightarrow> (encode_status_code code :: (bytes, 'e) result) = Panic"
  using length_dec_bytes_three[of 100 1000]
  by (auto simp: encode_status_code_def sub_usize_def code_digits_table simp del: upt_rec_numeral)

end
