(* ===== verification/H1_Messages.thy ===== *)
theory H1_Messages
  imports H1_Encode
begin

text \<open>
  HTTP/1.1 messages from one side to the other: what \<open>encode_request\<close> and \<open>encode_response\<close> write
  (\<open>crates/loona/src/h1/encode.rs\<close>), \<open>parse::request\<close> and \<open>parse::response\<close> (\<open>parse.rs\<close>) read back, with the rest
  of the stream untouched. The documented behaviour of the \<open>http\<close> package that this needs is \<open>http1_spec\<close>.
\<close>

section \<open>The http package\<close>

text \<open>The consuming iteration, with every value under its name.\<close>

fun named_fields :: "bytes option \<Rightarrow> (bytes option \<times> bytes) list \<Rightarrow> header list" where
  "named_fields last_name [] = []"
| "named_fields last_name ((Some n, v) # fs) = (n, v) # named_fields (Some n) fs"
| "named_fields last_name ((None, v) # fs) =
     (case last_name of None \<Rightarrow> [] | Some n \<Rightarrow> (n, v) # named_fields last_name fs)"

definition hm_fields :: "http1 \<Rightarrow> headers \<Rightarrow> header list" where
  "hm_fields hp m = named_fields None (hm_into_iter hp m)"

text \<open>The consuming iteration begins with a name and yields the fields of the map, the first value of a
  name first; \<open>insert\<close> replaces the values of a name and \<open>entry().or_insert_with()\<close> adds a field if there is
  none of the name; a status code is its three digits and its reason a short line; the standard names are in the form that
  the package keeps names in.\<close>

definition http1_spec :: "http1 \<Rightarrow> bool" where
  "http1_spec hp \<longleftrightarrow>
     (\<forall>m v fs. hm_into_iter hp m \<noteq> (None, v) # fs) \<and>
     (\<forall>m. mset (hm_fields hp m) = mset (hm_iter (hp_http hp) m)) \<and>
     (\<forall>m k. map_of (hm_fields hp m) k = hm_get (hp_http hp) m k) \<and>
     (\<forall>m n v k. hm_get (hp_http hp) (hm_insert hp m n v) k = (if k = n then Some v else hm_get (hp_http hp) m k)) \<and>
     (\<forall>m n v. mset (hm_fields hp (hm_insert hp m n v)) = add_mset (n, v) {# f \<in># mset (hm_fields hp m). fst f \<noteq> n #}) \<and>
     (\<forall>n. 100 \<le> n \<longrightarrow> n < 1000 \<longrightarrow> status_from_bytes hp (dec_bytes n) = Some n) \<and>
     (\<forall>m n v. mset (hm_fields hp (hm_or_insert (hp_http hp) m n v)) =
        (if hm_get (hp_http hp) m n = None then add_mset (n, v) (mset (hm_fields hp m)) else mset (hm_fields hp m))) \<and>
     (\<forall>n. status_from_u16 hp n = (if 100 \<le> n \<and> n < 1000 then Some n else None)) \<and>
     (\<forall>n reason. canonical_reason hp n = Some reason \<longrightarrow> 0x0D \<notin> set reason \<and> length reason \<le> 64) \<and>
     (\<forall>n. n \<in> {CONTENT_LENGTH, TRANSFER_ENCODING} \<longrightarrow> header_name_from_bytes (hp_http hp) n = Some n)"

lemma http1_list_spec: "http1_spec http1_list"
proof -
  have named: "named_fields l (map (\<lambda>(n, v). (Some n, v)) m) = m" for l and m :: "header list"
    by (induction m arbitrary: l) auto
  have get: "map_of (filter (\<lambda>(k, _). k \<noteq> n) m @ [(n, v)]) k = (if k = n then Some v else map_of m k)"
    for m :: "header list" and n v k
    by (induction m) auto
  have "length (dec_bytes n) = 3" if "100 \<le> n" "n < 1000" for n using dec_bytes_three[OF that] by (simp add: byte_str_def)
  moreover have "hm_fields http1_list m = m" for m using named by (simp add: hm_fields_def http1_list_def)
  moreover have "hm_into_iter http1_list m \<noteq> (None, v) # fs" for m v fs by (cases m) (auto simp: http1_list_def)
  moreover have "map to_ascii_lowercase CONTENT_LENGTH = CONTENT_LENGTH" "map to_ascii_lowercase TRANSFER_ENCODING = TRANSFER_ENCODING"
    "CONTENT_LENGTH \<noteq> []" "TRANSFER_ENCODING \<noteq> []"
    by (simp_all add: CONTENT_LENGTH_def TRANSFER_ENCODING_def byte_str_def to_ascii_lowercase_def)
  moreover have "0x0D \<notin> set (byte_str ''OK'')" "length (byte_str ''OK'') \<le> 64" by (simp_all add: byte_str_def)
  moreover have "mset (filter (\<lambda>(k, _). k \<noteq> n) m) = {# f \<in># mset m. fst f \<noteq> n #}" for n and m :: "header list"
    by (simp add: mset_filter case_prod_beta)
  ultimately show ?thesis
    using get dec_bytes_digits by (auto simp: http1_spec_def) (auto simp: http1_list_def http_list_def split: if_splits)
qed

lemma http1_specD:
  assumes "http1_spec hp"
  shows "hm_into_iter hp m \<noteq> (None, v) # fs" "mset (hm_fields hp m) = mset (hm_iter (hp_http hp) m)"
    "map_of (hm_fields hp m) k = hm_get (hp_http hp) m k"
    "hm_get (hp_http hp) (hm_insert hp m n v) k = (if k = n then Some v else hm_get (hp_http hp) m k)"
    "mset (hm_fields hp (hm_insert hp m n v)) = add_mset (n, v) {# f \<in># mset (hm_fields hp m). fst f \<noteq> n #}"
    "100 \<le> st \<Longrightarrow> st < 1000 \<Longrightarrow> status_from_bytes hp (dec_bytes st) = Some st"
    "mset (hm_fields hp (hm_or_insert (hp_http hp) m n v)) =
       (if hm_get (hp_http hp) m n = None then add_mset (n, v) (mset (hm_fields hp m)) else mset (hm_fields hp m))"
    "status_from_u16 hp st = (if 100 \<le> st \<and> st < 1000 then Some st else None)"
    "canonical_reason hp st = Some reason \<Longrightarrow> 0x0D \<notin> set reason \<and> length reason \<le> 64"
    "header_name_from_bytes (hp_http hp) CONTENT_LENGTH = Some CONTENT_LENGTH"
    "header_name_from_bytes (hp_http hp) TRANSFER_ENCODING = Some TRANSFER_ENCODING"
proof -
  note a1 = assms[unfolded http1_spec_def]
  note a2 = a1[THEN conjunct2]
  note a3 = a2[THEN conjunct2]
  note a4 = a3[THEN conjunct2]
  note a5 = a4[THEN conjunct2]
  note a6 = a5[THEN conjunct2]
  note a7 = a6[THEN conjunct2]
  note a8 = a7[THEN conjunct2]
  note a9 = a8[THEN conjunct2]
  note a10 = a9[THEN conjunct2]
  show "hm_into_iter hp m \<noteq> (None, v) # fs" by (rule a1[THEN conjunct1, rule_format])
  show "mset (hm_fields hp m) = mset (hm_iter (hp_http hp) m)" by (rule a2[THEN conjunct1, rule_format])
  show "map_of (hm_fields hp m) k = hm_get (hp_http hp) m k" by (rule a3[THEN conjunct1, rule_format])
  show "hm_get (hp_http hp) (hm_insert hp m n v) k = (if k = n then Some v else hm_get (hp_http hp) m k)"
    by (rule a4[THEN conjunct1, rule_format])
  show "mset (hm_fields hp (hm_insert hp m n v)) = add_mset (n, v) {# f \<in># mset (hm_fields hp m). fst f \<noteq> n #}"
    by (rule a5[THEN conjunct1, rule_format])
  show "100 \<le> st \<Longrightarrow> st < 1000 \<Longrightarrow> status_from_bytes hp (dec_bytes st) = Some st"
    by (rule a6[THEN conjunct1, rule_format])
  show "mset (hm_fields hp (hm_or_insert (hp_http hp) m n v)) =
      (if hm_get (hp_http hp) m n = None then add_mset (n, v) (mset (hm_fields hp m)) else mset (hm_fields hp m))"
    by (rule a7[THEN conjunct1, rule_format])
  show "status_from_u16 hp st = (if 100 \<le> st \<and> st < 1000 then Some st else None)"
    by (rule a8[THEN conjunct1, rule_format])
  show "canonical_reason hp st = Some reason \<Longrightarrow> 0x0D \<notin> set reason \<and> length reason \<le> 64" by (rule a9[THEN conjunct1, rule_format])
  show "header_name_from_bytes (hp_http hp) CONTENT_LENGTH = Some CONTENT_LENGTH"
      "header_name_from_bytes (hp_http hp) TRANSFER_ENCODING = Some TRANSFER_ENCODING" by (rule a10[rule_format]; simp)+
qed

lemma hm_insert_fields:
  assumes "http1_spec hp" and "f \<in> set (hm_fields hp (hm_insert hp m n v))"
  shows "f = (n, v) \<or> f \<in> set (hm_fields hp m)"
  using arg_cong[OF http1_specD(5)[OF assms(1), of m n v], of set_mset] assms(2) by auto

text \<open>A header map built by appending fields.\<close>

definition hm_of :: "http1 \<Rightarrow> header list \<Rightarrow> headers" where
  "hm_of hp fs = foldl (\<lambda>m (n, v). hm_append (hp_http hp) m n v) (hm_default (hp_http hp)) fs"

lemma hm_of_snoc: "hm_of hp (fs @ [(n, v)]) = hm_append (hp_http hp) (hm_of hp fs) n v"
  by (simp add: hm_of_def)

lemma hm_of_get:
  assumes "http_spec (hp_http hp)"
  shows "hm_get (hp_http hp) (hm_of hp fs) k = map_of fs k"
proof (induction fs rule: rev_induct)
  case Nil
  then show ?case using assms by (simp add: hm_of_def http_spec_def)
next
  case (snoc f fs)
  obtain n v where f: "f = (n, v)" by (cases f)
  have "hm_get (hp_http hp) (hm_append (hp_http hp) m n v) k =
      (if k = n \<and> hm_get (hp_http hp) m n = None then Some v else hm_get (hp_http hp) m k)" for m
    using assms unfolding http_spec_def by blast
  with snoc show ?case by (auto simp: f hm_of_snoc map_add_def split: option.splits)
qed

lemma hm_of_iter:
  assumes "http_spec (hp_http hp)"
  shows "mset (hm_iter (hp_http hp) (hm_of hp fs)) = mset fs"
proof (induction fs rule: rev_induct)
  case (snoc f fs)
  then show ?case using assms by (cases f) (simp add: hm_of_snoc http_spec_def)
qed (use assms in \<open>simp add: hm_of_def http_spec_def\<close>)

section \<open>Header fields\<close>

text \<open>What can be written as a header line: the name is a token in the form that the package keeps names
  in; the value has no carriage return and does not begin with a space.\<close>

definition field_ok :: "h1_deps \<Rightarrow> header \<Rightarrow> bool" where
  "field_ok h f \<longleftrightarrow>
     fst f \<noteq> [] \<and> list_all (is_tchar h) (fst f) \<and>
     header_name_from_bytes (hp_http (h_http1 h)) (fst f) = Some (fst f) \<and>
     0x0D \<notin> set (snd f) \<and> take 1 (snd f) \<noteq> [0x20]"

definition field_line :: "header \<Rightarrow> bytes" where
  "field_line f = fst f @ byte_str '': '' @ snd f @ CRLF"

definition fields_wire :: "header list \<Rightarrow> bytes" where
  "fields_wire fs = concat (map field_line fs)"

lemma encode_headers_loop_wire:
  assumes "l \<noteq> None \<or> (\<forall>v fs'. fs \<noteq> (None, v) # fs')"
  shows "\<exists>list'. encode_headers_loop l fs list = Ok list' \<and> concat list' = concat list @ fields_wire (named_fields l fs)"
  using assms
proof (induction l fs list rule: encode_headers_loop.induct)
  case (1 last_name list)
  then show ?case by (simp add: fields_wire_def)
next
  case (2 last_name name hvalue hfields list)
  then show ?case by (auto simp: fields_wire_def field_line_def)
next
  case (3 last_name hvalue hfields list)
  then show ?case by (cases last_name) (auto simp: fields_wire_def field_line_def)
qed

lemma encode_headers_wire:
  assumes "http1_spec hp"
  shows "\<exists>list'. encode_headers hp m list = Ok list' \<and> concat list' = concat list @ fields_wire (hm_fields hp m)"
  unfolding encode_headers_def hm_fields_def
  by (rule encode_headers_loop_wire) (use http1_specD(1)[OF assms] in blast)

text \<open>Reading up to a delimiter that does not begin earlier.\<close>

lemma take_until_delimiter:
  assumes "h1_ok h" and "c \<notin> set v"
  shows "p_take_until (h_memchr h) (c # cs) (v @ (c # cs) @ rest) = Ok ((c # cs) @ rest, v)"
proof -
  let ?i = "v @ (c # cs) @ rest"
  have "\<not> occurs_at (c # cs) ?i j" if "j < length v" for j
  proof
    assume "occurs_at (c # cs) ?i j"
    then have "?i ! j = c" using that by (auto simp: occurs_at_def drop_append Cons_nth_drop_Suc[symmetric] nth_append)
    then show False using that assms(2) by (auto simp: nth_append dest: nth_mem)
  qed
  then have "first_occurrence (c # cs) ?i = Some (length v)" by (simp add: first_occurrence_Some) (simp add: occurs_at_def)
  then show ?thesis by (simp add: p_take_until_eq[OF h1_okD(2)[OF assms(1)]])
qed

lemma take_until_and_consume_delimiter:
  assumes "h1_ok h" and "c \<notin> set v"
  shows "take_until_and_consume h (c # cs) (v @ (c # cs) @ rest) = Ok (rest, v)"
  using take_until_delimiter[OF assms, of cs rest]
  by (simp add: take_until_and_consume_def h1_okD[OF assms(1)] p_terminated_def nom_tag_eq[OF h1_okD(1)[OF assms(1)]])

lemma space1_one:
  assumes "h1_ok h" and "take 1 i \<noteq> [0x20]" and "i \<noteq> []"
  shows "space1 h (0x20 # i) = Ok (i, ())"
proof -
  obtain c cs where "i = c # cs" "c \<noteq> 0x20" using assms(2,3) by (cases i) auto
  with take_while1_stops[of "[0x20]" "\<lambda>c. c = 0x20" c cs] show ?thesis by (simp add: space1_def h1_okD[OF assms(1)])
qed

text \<open>Which bytes are tokens, for every \<open>memchr\<close> that is one.\<close>

lemma is_tchar_not:
  assumes "h1_ok h"
  shows "\<not> is_tchar h 0x3A" "\<not> is_tchar h 0x0D" "\<not> is_tchar h 0x20"
  using h1_okD(2)[OF assms]
  by (simp_all add: is_tchar_def is_ascii_graphic_def is_delimiter_def memchr_spec_def byte_str_def iter_position_None)

lemma parse_header_line:
  assumes "h1_ok h" and "field_ok h f"
  shows "parse_header h (field_line f @ rest) = Ok (rest, f)"
proof -
  obtain n v where f: "f = (n, v)" by (cases f)
  have n: "0x3A \<notin> set n" using assms(2) is_tchar_not(1)[OF assms(1)] by (auto simp: f field_ok_def list_all_iff)
  have "field_line f @ rest = n @ (0x3A # []) @ 0x20 # v @ CRLF @ rest" by (simp add: f field_line_def byte_str_def)
  moreover have "space1 h (0x20 # v @ CRLF @ rest) = Ok (v @ CRLF @ rest, ())"
    using assms(2) by (intro space1_one[OF assms(1)]) (cases v; simp add: f field_ok_def CRLF_def)+
  moreover have "take_until_and_consume h CRLF (v @ CRLF @ rest) = Ok (rest, v)"
    using assms(2) take_until_and_consume_delimiter[OF assms(1), of "0x0D" v "[0x0A]" rest] by (simp add: f field_ok_def CRLF_def)
  ultimately show ?thesis
    using assms(2) take_until_and_consume_delimiter[OF assms(1) n, of "[]"]
    by (simp add: parse_header_def h1_okD[OF assms(1)] p_map_res_def p_preceded_def f field_ok_def)
qed

lemma opt_crlf:
  assumes "h1_ok h"
  shows "p_opt (nom_tag (h_nom h) CRLF) (CRLF @ rest) = Ok (rest, Some CRLF)"
    and "c \<noteq> 0x0D \<Longrightarrow> p_opt (nom_tag (h_nom h) CRLF) (c # i) = Ok (c # i, None)"
  by (simp_all add: p_opt_def nom_tag_eq[OF h1_okD(1)[OF assms]]) (simp_all add: CRLF_def)

lemma headers_loop_wire:
  assumes "h1_ok h" and "list_all (field_ok h) fs" and "length fs < fuel"
  shows "headers_loop h fuel m (fields_wire fs @ CRLF @ rest) =
    Ok (rest, foldl (\<lambda>m (n, v). hm_append (hp_http (h_http1 h)) m n v) m fs)"
  using assms(2,3)
proof (induction fs arbitrary: fuel m)
  case Nil
  then show ?case using opt_crlf(1)[OF assms(1), of rest] by (cases fuel) (simp_all add: fields_wire_def h1_okD[OF assms(1)])
next
  case (Cons f fs)
  obtain fuel' where fuel: "fuel = Suc fuel'" using Cons.prems by (cases fuel) auto
  obtain n v where f: "f = (n, v)" by (cases f)
  let ?i = "fields_wire fs @ CRLF @ rest"
  obtain c cs where c: "field_line f @ ?i = c # cs" "c \<noteq> 0x0D"
    using Cons.prems(1) is_tchar_not(2)[OF assms(1)] by (cases n) (auto simp: f field_ok_def field_line_def)
  have "fields_wire (f # fs) @ CRLF @ rest = field_line f @ ?i" by (simp add: fields_wire_def)
  moreover have "p_opt (nom_tag (h_nom h) CRLF) (field_line f @ ?i) = Ok (field_line f @ ?i, None)"
    using opt_crlf(2)[OF assms(1) c(2), of cs] c(1) by simp
  moreover have "parse_header h (field_line f @ ?i) = Ok (?i, f)"
    using Cons.prems(1) by (intro parse_header_line[OF assms(1)]) simp
  ultimately show ?case
    using Cons.IH[of fuel' "hm_append (hp_http (h_http1 h)) m n v"] Cons.prems
    by (simp add: fuel h1_okD[OF assms(1)] f)
qed

lemma length_fields_wire: "length fs \<le> length (fields_wire fs)"
proof (induction fs)
  case (Cons f fs)
  then show ?case by (simp add: fields_wire_def field_line_def CRLF_def)
qed simp

text \<open>Headers that were written are read back.\<close>

lemma headers_and_crlf_wire:
  assumes "h1_ok h" and "list_all (field_ok h) fs"
  shows "headers_and_crlf h (fields_wire fs @ CRLF @ rest) = Ok (rest, hm_of (h_http1 h) fs)"
  unfolding headers_and_crlf_def hm_of_def
  by (rule headers_loop_wire[OF assms]) (use length_fields_wire[of fs] in simp)

section \<open>Responses\<close>

definition version_digit :: "version \<Rightarrow> u8" where
  "version_digit v = (if v = HTTP_10 then 0x30 else 0x31)"

definition reason_phrase :: "http1 \<Rightarrow> nat \<Rightarrow> bytes" where
  "reason_phrase hp st = (case canonical_reason hp st of Some reason \<Rightarrow> reason | None \<Rightarrow> byte_str ''Unknown'')"

definition response_wire :: "http1 \<Rightarrow> response \<Rightarrow> bytes" where
  "response_wire hp res =
     byte_str ''HTTP/1.'' @ version_digit (rs_version res) # 0x20 # dec_bytes (rs_status res) @ 0x20 #
     reason_phrase hp (rs_status res) @ CRLF @ fields_wire (hm_fields hp (rs_headers res)) @ CRLF"

text \<open>What a response must satisfy to be written on one line each.\<close>

definition response_ok :: "h1_deps \<Rightarrow> response \<Rightarrow> bool" where
  "response_ok h res \<longleftrightarrow>
     rs_version res \<in> {HTTP_10, HTTP_11} \<and> 100 \<le> rs_status res \<and> rs_status res < 1000 \<and>
     0x0D \<notin> set (reason_phrase (h_http1 h) (rs_status res)) \<and>
     list_all (field_ok h) (hm_fields (h_http1 h) (rs_headers res))"

lemma encode_response_wire:
  assumes "http1_spec hp" and "rs_version res \<in> {HTTP_10, HTTP_11}" and "100 \<le> rs_status res" and "rs_status res < 1000"
  shows "\<exists>list. encode_response hp res [] = Ok list \<and> concat list = response_wire hp res"
proof -
  define line where "line =
    plist_push_back (plist_push_back (plist_push_back (plist_push_back (plist_push_back []
      (byte_str ''HTTP/1.'' @ [version_digit (rs_version res), 0x20])) (dec_bytes (rs_status res))) (byte_str '' ''))
      (reason_phrase hp (rs_status res))) CRLF"
  obtain list where list: "encode_headers hp (rs_headers res) line = (Ok list :: (bytes list, io_error) result)"
    "concat list = concat line @ fields_wire (hm_fields hp (rs_headers res))"
    using encode_headers_wire[OF assms(1), of "rs_headers res" line] by blast
  have "encode_response hp res [] = Ok (plist_push_back list CRLF)"
    using assms(2) list(1)
    by (auto simp: encode_response_def encode_status_code_digits[OF assms(3,4)] Let_def line_def version_digit_def
        reason_phrase_def byte_str_def)
  moreover have "concat (plist_push_back list CRLF) = response_wire hp res"
    using list(2) by (simp add: response_wire_def line_def byte_str_def)
  ultimately show ?thesis by blast
qed

lemma http_version_wire:
  assumes "h1_ok h" and "v \<in> {HTTP_10, HTTP_11}"
  shows "http_version h (byte_str ''HTTP/1.'' @ version_digit v # rest) = Ok (rest, v)"
  using assms(2) h1_okD(1)[OF assms(1)]
  by (auto simp: http_version_def nom_tag_eq[OF h1_okD(1)[OF assms(1)]] version_digit_def nom_spec_def)

lemma status_code_wire:
  assumes "h1_ok h" and "http1_spec (h_http1 h)" and "100 \<le> n" and "n < 1000"
  shows "status_code h (dec_bytes n @ rest) = Ok (rest, n)"
proof -
  have "length (dec_bytes n) = 3" using dec_bytes_three[OF assms(3,4)] by (simp add: byte_str_def)
  with h1_okD(1)[OF assms(1)] http1_specD(6)[OF assms(2-4)] show ?thesis
    by (simp add: status_code_def h1_okD[OF assms(1)] p_map_res_def nom_spec_def)
qed

text \<open>Any number of spaces.\<close>

lemma takeWhile_dropWhile_append: "takeWhile P xs @ dropWhile P xs @ ys = xs @ ys"
  by (induction xs) simp_all

lemma space1_many:
  assumes "h1_ok h" and "0x0D \<notin> set reason"
  shows "\<exists>reason'. space1 h (0x20 # reason @ CRLF @ rest) = Ok (reason' @ CRLF @ rest, ()) \<and> 0x0D \<notin> set reason'"
proof -
  let ?sp = "takeWhile (\<lambda>c. c = 0x20) (0x20 # reason)" and ?rest = "dropWhile (\<lambda>c. c = 0x20) reason"
  obtain c cs where c: "?rest @ CRLF @ rest = c # cs" "c \<noteq> 0x20"
    using hd_dropWhile[of "\<lambda>c. c = 0x20" reason] by (cases ?rest) (auto simp: CRLF_def)
  have "p_take_while1 (\<lambda>c. c = 0x20) (?sp @ c # cs) = Ok (c # cs, ?sp)"
    by (rule take_while1_stops) (use c in \<open>auto simp: list_all_iff dest: set_takeWhileD\<close>)
  moreover have "?sp @ c # cs = 0x20 # reason @ CRLF @ rest"
    unfolding c(1)[symmetric] by (simp add: takeWhile_dropWhile_append)
  ultimately have "space1 h (0x20 # reason @ CRLF @ rest) = Ok (?rest @ CRLF @ rest, ())"
    using c(1) by (simp add: space1_def h1_okD[OF assms(1)])
  moreover have "0x0D \<notin> set ?rest" using assms(2) by (auto dest: set_dropWhileD)
  ultimately show ?thesis by blast
qed

lemma parse_response_wire:
  assumes "h1_ok h" and "http1_spec (h_http1 h)" and "response_ok h res"
  shows "parse_response h (response_wire (h_http1 h) res @ rest) =
    Ok (rest, res\<lparr>rs_headers := hm_of (h_http1 h) (hm_fields (h_http1 h) (rs_headers res))\<rparr>)"
proof -
  let ?fields = "fields_wire (hm_fields (h_http1 h) (rs_headers res)) @ CRLF @ rest"
  note ok = assms(3)[unfolded response_ok_def]
  obtain reason where reason: "0x0D \<notin> set reason"
    "space1 h (0x20 # reason_phrase (h_http1 h) (rs_status res) @ CRLF @ ?fields) = Ok (reason @ CRLF @ ?fields, ())"
    using space1_many[OF assms(1), of "reason_phrase (h_http1 h) (rs_status res)" ?fields] ok by blast
  have digits: "dec_bytes (rs_status res) \<noteq> []" "take 1 (dec_bytes (rs_status res) @ xs) \<noteq> [0x20]" for xs
    using dec_bytes_digits[of "rs_status res"] by (cases "dec_bytes (rs_status res)"; auto simp: is_digit_def)+
  have "p_take_until (h_memchr h) CRLF (reason @ CRLF @ ?fields) = Ok (CRLF @ ?fields, reason)"
    using take_until_delimiter[OF assms(1) reason(1), of "[0x0A]" ?fields] by (simp add: CRLF_def)
  moreover have "headers_and_crlf h ?fields = Ok (rest, hm_of (h_http1 h) (hm_fields (h_http1 h) (rs_headers res)))"
    by (rule headers_and_crlf_wire[OF assms(1)]) (use ok in simp)
  ultimately show ?thesis
    using reason(2) http_version_wire[OF assms(1)] status_code_wire[OF assms(1,2)] space1_one[OF assms(1)] digits ok
    by (simp add: parse_response_def response_wire_def h1_okD[OF assms(1)] p_terminated_def
        nom_tag_eq[OF h1_okD(1)[OF assms(1)]])
qed

section \<open>Requests\<close>

definition request_wire :: "http1 \<Rightarrow> request \<Rightarrow> bytes" where
  "request_wire hp req =
     into_chunk (rq_method req) @ 0x20 # uri_path hp (rq_uri req) @ 0x20 # byte_str ''HTTP/1.'' @
     version_digit (rq_version req) # CRLF @ fields_wire (hm_fields hp (rq_headers req)) @ CRLF"

text \<open>What a request must satisfy: the method is a token and not a known one in disguise, and the path is
  made of URI characters and accepted by the package.\<close>

definition request_ok :: "h1_deps \<Rightarrow> request \<Rightarrow> bool" where
  "request_ok h req \<longleftrightarrow>
     rq_version req \<in> {HTTP_10, HTTP_11} \<and>
     into_chunk (rq_method req) \<noteq> [] \<and> list_all (is_tchar h) (into_chunk (rq_method req)) \<and>
     method_from (into_chunk (rq_method req)) = rq_method req \<and>
     uri_path (h_http1 h) (rq_uri req) \<noteq> [] \<and> list_all (is_uri_char h) (uri_path (h_http1 h) (rq_uri req)) \<and>
     uri_from_str (h_http1 h) (uri_path (h_http1 h) (rq_uri req)) \<noteq> None \<and>
     list_all (field_ok h) (hm_fields (h_http1 h) (rq_headers req))"

text \<open>The request that arrives: its URI is the path alone.\<close>

definition request_received :: "http1 \<Rightarrow> request \<Rightarrow> request" where
  "request_received hp req =
     req\<lparr>rq_uri := the (uri_from_str hp (uri_path hp (rq_uri req))), rq_headers := hm_of hp (hm_fields hp (rq_headers req))\<rparr>"

lemma encode_request_wire:
  assumes "http1_spec hp" and "rq_version req \<in> {HTTP_10, HTTP_11}" and "uri_path hp (rq_uri req) \<noteq> []"
  shows "\<exists>list. encode_request hp (Ok ()) req [] [] = Ok list \<and> concat list = request_wire hp req"
proof -
  define line where "line =
    plist_push_back (plist_push_back (plist_push_back (plist_push_back [] (into_chunk (rq_method req))) (byte_str '' ''))
      (uri_path hp (rq_uri req))) (byte_str '' HTTP/1.'' @ version_digit (rq_version req) # CRLF)"
  obtain list where list: "encode_headers hp (rq_headers req) line = (Ok list :: (bytes list, io_error) result)"
    "concat list = concat line @ fields_wire (hm_fields hp (rq_headers req))"
    using encode_headers_wire[OF assms(1), of "rq_headers req" line] by blast
  have "encode_request hp (Ok ()) req [] [] = Ok (plist_push_back list CRLF)"
    using assms(2,3) list(1) by (auto simp: encode_request_def Let_def line_def version_digit_def byte_str_def)
  moreover have "concat (plist_push_back list CRLF) = request_wire hp req"
    using list(2) by (simp add: request_wire_def line_def byte_str_def)
  ultimately show ?thesis by blast
qed

lemma is_uri_char_not:
  assumes "h1_ok h"
  shows "\<not> is_uri_char h 0x20"
  using h1_okD(2)[OF assms]
  by (simp add: is_uri_char_def URI_CHARS_def memchr_spec_def byte_str_def iter_position_None)

text \<open>Parsing a word and the space after it.\<close>

lemma word_and_space:
  assumes "h1_ok h" and "w \<noteq> []" and "list_all f w" and "\<not> f 0x20" and "take 1 i \<noteq> [0x20]" and "i \<noteq> []"
  shows "p_take_while1 f (w @ 0x20 # i) = Ok (0x20 # i, w)" "space1 h (0x20 # i) = Ok (i, ())"
  using take_while1_stops[OF assms(2-4)] space1_one[OF assms(1,5,6)] by simp_all

lemma parse_request_wire:
  assumes "h1_ok h" and "request_ok h req"
  shows "parse_request h (request_wire (h_http1 h) req @ rest) = Ok (rest, request_received (h_http1 h) req)"
proof -
  let ?fields = "fields_wire (hm_fields (h_http1 h) (rq_headers req)) @ CRLF @ rest"
  let ?path = "uri_path (h_http1 h) (rq_uri req)"
  let ?version = "byte_str ''HTTP/1.'' @ version_digit (rq_version req) # CRLF @ ?fields"
  note ok = assms(2)[unfolded request_ok_def]
  have headers: "headers_and_crlf h ?fields = Ok (rest, hm_of (h_http1 h) (hm_fields (h_http1 h) (rq_headers req)))"
    by (rule headers_and_crlf_wire[OF assms(1)]) (use ok in simp)
  have v: "take 1 ?version \<noteq> [0x20]" "?version \<noteq> []" by (simp_all add: byte_str_def)
  have "?path \<noteq> []" "list_all (is_uri_char h) ?path" using ok by simp_all
  note pth = word_and_space[OF assms(1) this is_uri_char_not[OF assms(1)] v]
  have p: "take 1 (?path @ 0x20 # ?version) \<noteq> [0x20]" "?path @ 0x20 # ?version \<noteq> []"
    using ok is_uri_char_not[OF assms(1)] by (cases ?path; auto)+
  have "into_chunk (rq_method req) \<noteq> []" "list_all (is_tchar h) (into_chunk (rq_method req))" using ok by simp_all
  note mth = word_and_space[OF assms(1) this is_tchar_not(3)[OF assms(1)] p]
  from mth pth headers http_version_wire[OF assms(1), of "rq_version req" "CRLF @ ?fields"] ok
  show ?thesis
    by (auto simp: parse_request_def parse_method_def token_def parse_path_def request_wire_def request_received_def
        h1_okD[OF assms(1)] p_terminated_def nom_tag_eq[OF h1_okD(1)[OF assms(1)]])
qed

section \<open>The round trips\<close>

text \<open>C24: A response that the encoder writes is read back by the parser. For a version 1.0 or 1.1, any
  status code, and fields that fit on a line, \<open>encode_response\<close> succeeds and \<open>parse::response\<close> of its bytes,
  followed by anything, stops exactly at the end of the head and gives the same version and status and a
  header map with the same fields and the same first value of every name.\<close>

theorem response_roundtrip:
  assumes "h1_ok h" and "http1_spec (h_http1 h)" and "response_ok h res"
  shows "\<exists>list res'. encode_response (h_http1 h) res [] = Ok list \<and>
    parse_response h (concat list @ rest) = Ok (rest, res') \<and>
    rs_version res' = rs_version res \<and> rs_status res' = rs_status res \<and>
    mset (hm_iter (hp_http (h_http1 h)) (rs_headers res')) = mset (hm_iter (hp_http (h_http1 h)) (rs_headers res)) \<and>
    (\<forall>k. hm_get (hp_http (h_http1 h)) (rs_headers res') k = hm_get (hp_http (h_http1 h)) (rs_headers res) k)"
proof -
  obtain list where "encode_response (h_http1 h) res [] = Ok list" "concat list = response_wire (h_http1 h) res"
    using encode_response_wire[OF assms(2)] assms(3) by (auto simp: response_ok_def)
  with parse_response_wire[OF assms, of rest] http1_specD(2,3)[OF assms(2)] hm_of_get[OF h1_okD(3)[OF assms(1)]]
    hm_of_iter[OF h1_okD(3)[OF assms(1)]]
  show ?thesis 
    by (intro exI[of _ list]
        exI[of _ "res\<lparr>rs_headers := hm_of (h_http1 h) (hm_fields (h_http1 h) (rs_headers res))\<rparr>"]) simp
qed

text \<open>The response of the witnesses.\<close>

definition response_example :: response where
  "response_example =
     \<lparr>rs_version = HTTP_11, rs_status = 200, rs_headers = [(byte_str ''etag'', byte_str ''x''), (byte_str ''etag'', byte_str ''y'')]\<rparr>"

lemma named_fields_list: "hm_fields http1_list m = m"
proof -
  have "named_fields l (map (\<lambda>(n, v). (Some n, v)) m) = m" for l by (induction m arbitrary: l) auto
  then show ?thesis by (simp add: hm_fields_def http1_list_def)
qed

lemma h1_std_simps [simp]: "h_http1 h1_std = http1_list" "hp_http http1_list = http_list"
  by (simp_all add: h1_std_def http1_list_def)

lemma std_chars:
  "is_uri_char h1_std c \<longleftrightarrow> c \<in> set URI_CHARS"
  "is_delimiter h1_std c \<longleftrightarrow> c \<in> set (byte_str ''(),/:;<=>?@['' @ [0x5C] @ byte_str '']{}'' @ [0x22])"
  by (simp_all only: is_uri_char_def is_delimiter_def) (auto simp: h1_std_def memchr_std_def iter_position_None)

lemmas std_char_simps = std_chars URI_CHARS_def is_tchar_def is_ascii_graphic_def byte_str_def

lemma response_example_ok: "response_ok h1_std response_example"
proof -
  have "field_ok h1_std (byte_str ''etag'', byte_str ''x'')" "field_ok h1_std (byte_str ''etag'', byte_str ''y'')"
    by code_simp+
  then show ?thesis
    by (simp add: response_ok_def response_example_def named_fields_list reason_phrase_def)
       (simp add: http1_list_def byte_str_def)
qed

theorem response_roundtrip_witness:
  "h1_ok h1_std \<and> http1_spec (h_http1 h1_std) \<and> response_ok h1_std response_example \<and>
   (\<exists>list res'. encode_response http1_list response_example [] = Ok list \<and>
      parse_response h1_std (concat list @ [1, 2]) = Ok ([1, 2], res') \<and> rs_status res' = 200)"
  using response_roundtrip[OF h1_std_ok _ response_example_ok, of "[1, 2]"] http1_list_spec h1_std_ok response_example_ok
  by (auto simp: response_example_def)

text \<open>A request that the client writes is read back by the server. For a version 1.0 or 1.1, a method
  that is a token, a path the package accepts, and fields that fit on a line, \<open>encode_request\<close> succeeds if the scratch buffer has room, and
  \<open>parse::request\<close> of its bytes, followed by anything, stops exactly at the end of the head and gives the
  same method and version, the URI that the package makes of the path (a query is not sent), and the same
  header fields.\<close>

lemma request_roundtrip:
  assumes "h1_ok h" and "http1_spec (h_http1 h)" and "request_ok h req"
  shows "\<exists>list req'. encode_request (h_http1 h) (Ok ()) req [] [] = Ok list \<and>
    parse_request h (concat list @ rest) = Ok (rest, req') \<and>
    rq_method req' = rq_method req \<and> rq_version req' = rq_version req \<and>
    uri_from_str (h_http1 h) (uri_path (h_http1 h) (rq_uri req)) = Some (rq_uri req') \<and>
    mset (hm_iter (hp_http (h_http1 h)) (rq_headers req')) = mset (hm_iter (hp_http (h_http1 h)) (rq_headers req)) \<and>
    (\<forall>k. hm_get (hp_http (h_http1 h)) (rq_headers req') k = hm_get (hp_http (h_http1 h)) (rq_headers req) k)"
proof -
  obtain list where "encode_request (h_http1 h) (Ok ()) req [] [] = Ok list" "concat list = request_wire (h_http1 h) req"
    using encode_request_wire[OF assms(2)] assms(3) by (auto simp: request_ok_def)
  with parse_request_wire[OF assms(1,3), of rest] http1_specD(2,3)[OF assms(2)] hm_of_get[OF h1_okD(3)[OF assms(1)]]
    hm_of_iter[OF h1_okD(3)[OF assms(1)]] assms(3)
  show ?thesis 
    by (intro exI[of _ list] exI[of _ "request_received (h_http1 h) req"]) (auto simp: request_received_def request_ok_def)
qed

definition request_example :: request where
  "request_example =
     \<lparr>rq_method = Other (byte_str ''PATCH''), rq_uri = byte_str ''/a?b'', rq_version = HTTP_11,
      rq_headers = [(byte_str ''host'', byte_str ''h'')]\<rparr>"

lemma request_example_ok: "request_ok h1_std request_example"
proof -
  have "list_all (is_tchar h1_std) (byte_str ''PATCH'')" "list_all (is_uri_char h1_std) (byte_str ''/a'')"
    by (simp_all add: std_char_simps)
  moreover have "field_ok h1_std (byte_str ''host'', byte_str ''h'')" "method_from (byte_str ''PATCH'') = Other (byte_str ''PATCH'')"
    "uri_path http1_list (byte_str ''/a?b'') = byte_str ''/a''" "uri_from_str http1_list (byte_str ''/a'') = Some (byte_str ''/a'')"
    by code_simp+
  ultimately show ?thesis by (simp add: request_ok_def request_example_def named_fields_list) (simp add: byte_str_def)
qed

lemma request_roundtrip_witness:
  "h1_ok h1_std \<and> http1_spec (h_http1 h1_std) \<and> request_ok h1_std request_example \<and>
   (\<exists>list req'. encode_request http1_list (Ok ()) request_example [] [] = Ok list \<and>
      parse_request h1_std (concat list @ [9]) = Ok ([9], req') \<and> rq_method req' = Other (byte_str ''PATCH''))"
  using request_roundtrip[OF h1_std_ok _ request_example_ok, of "[9]"] http1_list_spec h1_std_ok request_example_ok
  by (auto simp: request_example_def)

end
