(* ===== verification/H1_Server.thy ===== *)
theory H1_Server
  imports H1_Messages H2_Types
begin

text \<open>
  Serving HTTP/1.1 (\<open>crates/loona/src/h1/server.rs\<close>): read a request head, hand it with its body and a
  responder to the driver, and go on with the next request behind the body. A driver is an argument; it may
  fail to return. The locale \<open>h1_handler\<close> states what the loop needs of it, that it reads the whole body and
  answers; then every request of a connection is served, in order, whatever pieces the bytes arrive in.
\<close>

section \<open>The code\<close>

record server_conf =
  max_http_header_len :: nat
  max_header_record_len :: nat
  max_header_records :: nat

definition server_conf_default :: server_conf where
  "server_conf_default =
     \<lparr>max_http_header_len = 64 * 1024, max_header_record_len = 4 * 1024, max_header_records = 128\<rparr>"

type_synonym ('r, 'w, 'd) handler =
  "request \<Rightarrow> 'r h1_body \<Rightarrow> 'w h1_encoder \<Rightarrow> ((unit, 'd) result \<times> 'r h1_body \<times> 'w h1_encoder) option"

definition body_kind :: "http \<Rightarrow> headers \<Rightarrow> h1_body_kind" where
  "body_kind h m =
     (if is_chunked_transfer_encoding h m then KindChunked
      else KindContentLength (case content_length h m of None \<Rightarrow> 0 | Some len \<Rightarrow> len))"

definition reply_431 :: bytes where
  "reply_431 = byte_str ''HTTP/1.1 431 Request Header Fields Too Large'' @ CRLF @ CRLF"

partial_function (option) h1_serve ::
    "h1_deps \<Rightarrow> 'r reading \<Rightarrow> ('w, io_error) writer \<Rightarrow> server_conf \<Rightarrow> ('r, 'w, 'd) handler \<Rightarrow> bytes \<Rightarrow> 'r \<Rightarrow> 'w \<Rightarrow>
     ((serve_outcome, 'd serve_error) result \<times> 'w) option" where
  "h1_serve h io write conf handle client_buf transport_r transport_w =
     (case read_and_parse io ''Http1Request'' (parse_request h) (max_http_header_len conf) client_buf transport_r of
        (Panic, _) \<Rightarrow> Some (Panic, transport_w)
      | (Err e, _) \<Rightarrow>
          (case e of
             BufferLimitReachedWhileParsing limit \<Rightarrow>
               (case write transport_w reply_431 of
                  (Panic, w) \<Rightarrow> Some (Panic, w)
                | (Err e, w) \<Rightarrow> Some (Err (DownstreamWrite e), w)
                | (Ok _, w) \<Rightarrow> Some (Ok RequestHeadersTooLargeOnHttp1Conn, w))
           | _ \<Rightarrow> Some (Ok ClientDidntSpeakHttp11, transport_w))
      | (Ok None, _) \<Rightarrow> Some (Ok ClientClosedConnectionBetweenRequests, transport_w)
      | (Ok (Some (client_buf, req)), transport_r) \<Rightarrow>
          let connection_close = is_connection_close (hp_http (h_http1 h)) (rq_headers req);
              req_body = h1_body_new transport_r client_buf (body_kind (hp_http (h_http1 h)) (rq_headers req))
          in
          (case handle req req_body (h1_encoder_new transport_w) of
             None \<Rightarrow> None
           | Some (Panic, _, enc) \<Rightarrow> Some (Panic, e1_transport enc)
           | Some (Err e, _, enc) \<Rightarrow> Some (Err (Driver e), e1_transport enc)
           | Some (Ok _, req_body, enc) \<Rightarrow>
               (case into_inner req_body of
                  None \<Rightarrow> Some (Err ResponseHandlerBodyNotDrained, e1_transport enc)
                | Some (client_buf, transport_r) \<Rightarrow>
                    if connection_close then Some (Ok ClientRequestedConnectionClose, e1_transport enc)
                    else h1_serve h io write conf handle client_buf transport_r (e1_transport enc))))"

declare h1_serve.simps [code]

section \<open>Bodies on the wire\<close>

text \<open>The bytes that carry a body, as the headers announce it.\<close>

definition body_wire :: "http \<Rightarrow> headers \<Rightarrow> bytes \<Rightarrow> bytes \<Rightarrow> bool" where
  "body_wire hp m payload wire \<longleftrightarrow>
     (if is_chunked_transfer_encoding hp m then
        \<exists>cs. wire = chunked_wire cs \<and> payload = concat cs \<and> (\<forall>c\<in>set cs. c \<noteq> [] \<and> length c < 16 ^ 14)
      else wire = payload \<and> length payload = (case content_length hp m of None \<Rightarrow> 0 | Some len \<Rightarrow> len))"

context h1_source
begin

lemma body_delivered:
  assumes "good r" and "buf @ left r = wire @ rest" and "body_wire hp m payload wire"
  shows "\<exists>cs b' buf' r'. delivers (h1_body_ops h io) (h1_body_new r buf (body_kind hp m)) cs b' \<and>
    [] \<notin> set cs \<and> concat cs = payload \<and> into_inner b' = Some (buf', r') \<and> good r' \<and> buf' @ left r' = rest"
proof (cases "is_chunked_transfer_encoding hp m")
  case True
  with assms(3) obtain cs where "wire = chunked_wire cs" "payload = concat cs" "\<forall>c\<in>set cs. c \<noteq> [] \<and> length c < 16 ^ 14"
    by (auto simp: body_wire_def)
  with chunked_delivers[OF assms(1), of buf True "[]" cs rest] assms(2) True show ?thesis
    by (simp add: chunk_ahead_def chunk_state_def body_kind_def h1_body_new_def)
next
  case False
  then have "wire = payload" "body_kind hp m = KindContentLength (length payload)"
    using assms(3) by (auto simp: body_wire_def body_kind_def)
  with cl_delivers[OF assms(1), of "\<lparr>cl_len = length payload, cl_read = 0\<rparr>" buf] assms(2) show ?thesis
    by (simp add: h1_body_new_def)
qed

sublocale request: limited_stream "parse_request h" io left good
  by (rule limited_stream.intro[OF request_parser[OF h] buffered_source_axioms])

lemma parse_request_Nil: "parse_request h [] = Err Incomplete"
  by (simp add: parse_request_def parse_method_def token_def h1_okD[OF h] p_terminated_def p_take_while1_def)

text \<open>How serving ends when no request head can be read.\<close>

definition no_head_outcome :: "server_conf \<Rightarrow> bytes \<Rightarrow> nom_err \<Rightarrow> serve_outcome" where
  "no_head_outcome conf i e =
     (if e \<noteq> Incomplete then ClientDidntSpeakHttp11
      else if max_http_header_len conf \<le> length i then RequestHeadersTooLargeOnHttp1Conn
      else if i = [] then ClientClosedConnectionBetweenRequests else ClientDidntSpeakHttp11)"

lemma client_closed:
  assumes "good r" and "left r = []" and "0 < max_http_header_len conf"
  shows "h1_serve h io write conf handle [] r w = Some (Ok ClientClosedConnectionBetweenRequests, w)"
proof -
  obtain out r' where out: "read_and_parse io ''Http1Request'' (parse_request h) (max_http_header_len conf) [] r = (out, r')"
    by (metis prod.exhaust)
  from request.read_and_parse_limited[OF assms(1), of "[]" "max_http_header_len conf" "''Http1Request''"] assms(2,3) out
  have "out = Ok None"
    by (auto simp: request.agrees_limited_def request.limited_def parse_request_Nil split: result.splits option.splits)
  with out show ?thesis by (subst h1_serve.simps) simp
qed

lemma no_head:
  assumes "good r" and "length buf \<le> max_http_header_len conf"
    and "parse_request h (take (max_http_header_len conf) (buf @ left r)) = Err e" and "write w reply_431 = (Ok u, w')"
  shows "h1_serve h io write conf handle buf r w =
    (let out = no_head_outcome conf (buf @ left r) e in
     Some (Ok out, if out = RequestHeadersTooLargeOnHttp1Conn then w' else w))"
proof -
  obtain out r' where out: "read_and_parse io ''Http1Request'' (parse_request h) (max_http_header_len conf) buf r = (out, r')"
    by (metis prod.exhaust)
  from request.read_and_parse_limited[OF assms(1,2), of "''Http1Request''"] out assms(3)
  have "out = (if e \<noteq> Incomplete then Err (ParsingError ''Http1Request'')
      else if max_http_header_len conf \<le> length (buf @ left r) then Err (BufferLimitReachedWhileParsing (max_http_header_len conf))
      else if buf @ left r = [] then Ok None else Err (ReadError UnexpectedEof))"
    by (auto simp: request.agrees_limited_def request.limited_def simp del: take_append split: result.splits option.splits if_splits)
  with out assms(4) show ?thesis by (subst h1_serve.simps) (auto simp: no_head_outcome_def Let_def)
qed

end

section \<open>A connection\<close>

text \<open>A request as it comes in: the bytes of the head, the request they are parsed to, the content of the
  body and the bytes that carry it.\<close>

record message =
  msg_head :: bytes
  msg_request :: request
  msg_payload :: bytes
  msg_body :: bytes

definition message_ok :: "h1_deps \<Rightarrow> server_conf \<Rightarrow> message \<Rightarrow> bool" where
  "message_ok h conf m \<longleftrightarrow>
     parse_request h (msg_head m) = Ok ([], msg_request m) \<and> length (msg_head m) \<le> max_http_header_len conf \<and>
     body_wire (hp_http (h_http1 h)) (rq_headers (msg_request m)) (msg_payload m) (msg_body m)"

definition messages_wire :: "message list \<Rightarrow> bytes" where
  "messages_wire ms = concat (map (\<lambda>m. msg_head m @ msg_body m) ms)"

text \<open>What happens on the connection: the requests are answered one after the other, until the client
  closes or a request asks to close. \<open>answers req payload w w'\<close> says that answering took the transport from
  \<open>w\<close> to \<open>w'\<close>.\<close>

inductive conversation ::
    "http \<Rightarrow> (request \<Rightarrow> bytes \<Rightarrow> 'w \<Rightarrow> 'w \<Rightarrow> bool) \<Rightarrow> message list \<Rightarrow> 'w \<Rightarrow> serve_outcome \<Rightarrow> 'w \<Rightarrow> bool"
  for hp answers where
  conv_end: "conversation hp answers [] w ClientClosedConnectionBetweenRequests w"
| conv_close: "answers (msg_request m) (msg_payload m) w w' \<Longrightarrow> is_connection_close hp (rq_headers (msg_request m)) \<Longrightarrow>
    conversation hp answers (m # ms) w ClientRequestedConnectionClose w'"
| conv_next: "answers (msg_request m) (msg_payload m) w w1 \<Longrightarrow> \<not> is_connection_close hp (rq_headers (msg_request m)) \<Longrightarrow>
    conversation hp answers ms w1 out w' \<Longrightarrow> conversation hp answers (m # ms) w out w'"

inductive_cases conversation_NilE: "conversation hp answers [] w out w'"
inductive_cases conversation_ConsE: "conversation hp answers (m # ms) w out w'"

text \<open>What is asked of a driver: given a body that delivers chunks, it returns, leaves the body read to its
  end and has answered.\<close>

locale h1_handler = h1_source io left good h
  for io :: "'r reading" and left and good and h +
  fixes handle :: "('r, 'w, 'd) handler" and accepted :: "request \<Rightarrow> bytes \<Rightarrow> bool"
    and answers :: "request \<Rightarrow> bytes \<Rightarrow> 'w \<Rightarrow> 'w \<Rightarrow> bool"
  assumes handles: "accepted req (concat cs) \<Longrightarrow> delivers (h1_body_ops h io) b cs b' \<Longrightarrow> [] \<notin> set cs \<Longrightarrow>
    b1_content_len b \<in> {None, Some (length (concat cs))} \<Longrightarrow>
    \<exists>enc'. handle req b (h1_encoder_new w) = Some (Ok (), b', enc') \<and> answers req (concat cs) w (e1_transport enc')"
begin

lemma serves:
  assumes "good r" and "buf @ left r = messages_wire ms" and "\<forall>m\<in>set ms. message_ok h conf m \<and> accepted (msg_request m) (msg_payload m)"
    and "0 < max_http_header_len conf"
  shows "\<exists>out w'. h1_serve h io write conf handle buf r w = Some (Ok out, w') \<and>
    conversation (hp_http (h_http1 h)) answers ms w out w'"
  using assms(1-3)
proof (induction ms arbitrary: buf r w)
  case Nil
  then have "buf = []" "left r = []" by (simp_all add: messages_wire_def)
  then have "h1_serve h io write conf handle buf r w = Some (Ok ClientClosedConnectionBetweenRequests, w)"
    using client_closed[OF Nil.prems(1) _ assms(4)] by simp
  then show ?case by (intro exI conjI) (assumption, rule conv_end)
next
  case (Cons m ms)
  let ?hp = "hp_http (h_http1 h)"
  have m: "parse_request h (msg_head m) = Ok ([], msg_request m)" "length (msg_head m) \<le> max_http_header_len conf"
      "body_wire ?hp (rq_headers (msg_request m)) (msg_payload m) (msg_body m)" "accepted (msg_request m) (msg_payload m)"
    using Cons.prems(3) by (simp_all add: message_ok_def)
  have "buf @ left r = msg_head m @ msg_body m @ messages_wire ms" using Cons.prems(2) by (simp add: messages_wire_def)
  from request.read_and_parse_message[OF Cons.prems(1) this m(2,1)] obtain buf1 r1 where
    head: "read_and_parse io ''Http1Request'' (parse_request h) (max_http_header_len conf) buf r = (Ok (Some (buf1, msg_request m)), r1)"
      "good r1" "buf1 @ left r1 = msg_body m @ messages_wire ms" by blast
  let ?b = "h1_body_new r1 buf1 (body_kind ?hp (rq_headers (msg_request m)))"
  from body_delivered[OF head(2,3) m(3)] obtain cs b' buf2 r2 where
    body: "delivers (h1_body_ops h io) ?b cs b'" "[] \<notin> set cs" "concat cs = msg_payload m" "into_inner b' = Some (buf2, r2)"
      "good r2" "buf2 @ left r2 = messages_wire ms" by blast
  have "b1_content_len ?b \<in> {None, Some (length (concat cs))}"
    using m(3) body(3) by (auto simp: b1_content_len_def h1_body_new_def body_kind_def body_wire_def)
  from handles[OF _ body(1,2) this, of "msg_request m" w] m(4) body(3) obtain enc' where
    handled: "handle (msg_request m) ?b (h1_encoder_new w) = Some (Ok (), b', enc')"
      "answers (msg_request m) (msg_payload m) w (e1_transport enc')" by auto
  show ?case
  proof (cases "is_connection_close ?hp (rq_headers (msg_request m))")
    case True
    with head(1) handled(1) body(4) have
      "h1_serve h io write conf handle buf r w = Some (Ok ClientRequestedConnectionClose, e1_transport enc')"
      by (subst h1_serve.simps) simp
    moreover have "conversation ?hp answers (m # ms) w ClientRequestedConnectionClose (e1_transport enc')"
      by (rule conv_close) (use handled(2) True in simp_all)
    ultimately show ?thesis by (intro exI conjI)
  next
    case False
    with head(1) handled(1) body(4) have
      "h1_serve h io write conf handle buf r w = h1_serve h io write conf handle buf2 r2 (e1_transport enc')"
      by (subst h1_serve.simps) simp
    moreover obtain out w' where "h1_serve h io write conf handle buf2 r2 (e1_transport enc') = Some (Ok out, w')"
      and conv: "conversation ?hp answers ms (e1_transport enc') out w'"
      using Cons.IH[OF body(5,6), of "e1_transport enc'"] Cons.prems(3) by auto
    moreover have "conversation ?hp answers (m # ms) w out w'" by (rule conv_next[OF _ _ conv]) (use handled(2) False in simp_all)
    ultimately show ?thesis by (intro exI conjI) simp_all
  qed
qed

end

text \<open>C25: A client that does not send a request head is turned away as documented, whatever the driver and
  however the bytes arrive. When the first bytes of the stream, up to the limit, are no request, nothing is
  written and the outcome is that the client did not speak HTTP/1.1; the same if the stream ends inside a
  head; a head that is still incomplete at the limit is answered with 431; an empty stream is a client that
  closed the connection.\<close>

theorem bad_head_rejected:
  assumes "h1_ok h" and "\<forall>p\<in>set ps. p \<noteq> []"
    and "parse_request h (take (max_http_header_len conf) (concat ps)) = Err e"
  shows "h1_serve h pipe_reading vec_write_all conf handle [] (pipe_read_new (map PipePiece ps)) w =
    (if e \<noteq> Incomplete then Some (Ok ClientDidntSpeakHttp11, w)
     else if max_http_header_len conf \<le> length (concat ps) then Some (Ok RequestHeadersTooLargeOnHttp1Conn, w @ reply_431)
     else if concat ps = [] then Some (Ok ClientClosedConnectionBetweenRequests, w)
     else Some (Ok ClientDidntSpeakHttp11, w))"
  using h1_source.no_head[OF pipe_h1_source[OF assms(1)] pipe_good_pieces[OF assms(2)], of "[]" conf e vec_write_all w "()" "w @ reply_431" handle]
    assms(3)
  by (simp add: pipe_left_pieces h1_source.no_head_outcome_def[OF pipe_h1_source[OF assms(1)]] vec_write_all_def)

theorem bad_head_rejected_witness:
  "h1_serve h1_std pipe_reading vec_write_all \<lparr>max_http_header_len = 4, max_header_record_len = 1, max_header_records = 1\<rparr>
      ((\<lambda>_ _ _. None) :: (pipe_read, bytes, unit) handler) [] (pipe_read_new (map PipePiece [[0x47, 0x45], [0x54, 0x20]])) [] =
    Some (Ok RequestHeadersTooLargeOnHttp1Conn, reply_431)"
proof -
  let ?conf = "\<lparr>max_http_header_len = 4, max_header_record_len = 1, max_header_records = 1\<rparr>"
  have "parse_request h1_std (take (max_http_header_len ?conf) (concat [[0x47, 0x45], [0x54, 0x20]])) = Err Incomplete"
    by code_simp
  from bad_head_rejected[OF h1_std_ok _ this, of "(\<lambda>_ _ _. None) :: (pipe_read, bytes, unit) handler" "[]"] show ?thesis by simp
qed

end
