(* ===== verification/Httpwg_Driver.thy ===== *)
theory Httpwg_Driver
  imports H1_Messages
begin

text \<open>
  The server that the conformance suite runs against (\<open>crates/httpwg-loona/src/driver.rs\<close>, with the texts of
  \<open>crates/httpwg-harness/src/lib.rs\<close>): a driver that routes a request by its path and answers it with an echo
  of the body, a status, a number of blocks, or a text. It works over any encoder and any request body; for
  HTTP/1.1 it is shown in \<open>H1_Server\<close> that its answers are what the routes promise.
\<close>

section \<open>The texts\<close>

definition SAMPLE_4K_BLOCK :: bytes where
  "SAMPLE_4K_BLOCK =
     byte_str ''K75HZ+W4P2+Z+K1eI/lPJkc+HiVr/+snBmi0fu5IAIseZ6HumAEX2bfv4ok9Rzqm8Eq1dP3ap8pscfD4IBqBHnxtMdc6+Vvf81WD'' @
     byte_str ''Dqf3yXL3yvoA0N0jxuVs9jXTllu/h+ABUf8dBymieg/xhJsn7NQDJvb/fh5+ZZpP8++ihiUgwgc+yM04rtSIP+O6Ul0RdoeHftzg'' @
     byte_str ''uVujmB9bnf+JtrUAL+AFCxIommB7IszrCLyz+0ysE2Ke1Mvv5Et88p4wvPc4TcKJC53OmyHcFp4HOI8tZXJC2eIaWC59bpTxWuzt'' @
     byte_str ''0w0x0P8dou1uvCQTSRDHcHIo4VevzgqtCVnISEhdxjBUU6bNa4rCmXKEjSCd09fYe/Wsd45mji9J9cco1kQs4wU43se8oCSzcKnY'' @
     byte_str ''I4cB0iyvDD3/ceIATVrYv3R8QH69J1NFWTvsILMf+TXfVQgfJmthIF/aY417hJjhvEjyoez27dZrcAMUXlvAXDozt3IsFS9D1KJv'' @
     byte_str ''zt1SSaKENi/WjC+WMCTZr4guBNbNQdyd8NLRf/Ilum3zrIJDwcT+IecgdtIDtG3koYqVJ1ihAxFYMaZFk32R4iaNhUxyibX1DE2w'' @
     byte_str ''8Xfz3g0HiAxGl+rWMREldUTEBlwk8Ig5ccanXwJ8fLXOn/UduZQkIKuH4ucb+T40T/iNubbi4/5SSVphTEnGJ0y1fcowKPxxseyZ'' @
     byte_str ''5SZHVoYxHGvEYeCl+hw5XgqiZaIpHZZMiAQh38zGGd6J8mLOsPG6BSpWV8Cj00UusRnO/V2tAxiR7Vuh8EiDPV728a3XsZI5xGc4'' @
     byte_str ''MMWbqTSmMGm2x8XybIe/vL6U7Y9ptr4c18nfQErH/Yt4OmmFGP0VTmbSo2aGGMkJ1VwX/6BAxIxOMXoqshNfZ2Nh+0py0V/Ly+SQ'' @
     byte_str ''r6OcTxX857d0I3l0P8GWsLcZxER9EpkEO6NKUMdOIqZdRoC1p1lnzMsL5UvWDFrFoIXJqAA3jHmXN+zZgJbg7+sLdWE2HR2Evsep'' @
     byte_str ''XUdK0t31SqkBkn0YHJbklSivWe9FbLOIstB2kigkYmnFT0a49aW+uTlgU6Tc+hx9ufW6l17EHf8I37WIvInLNKsk+wOqeYzspRf8'' @
     byte_str ''rE4mfYyFunhDDXSe/eFaVnb53otiGsYA3GRutY5FfBrYkK2ZQRIND5B+AqwGa+4V47yPkq217iCKgBSYXA5Ux0e138LUMNq2Yn9Y'' @
     byte_str ''qbdMP3XEPUBBaiT8q2GE+w/ay7dZOid1jiV72OET90aSA8FFev6jnhQhvlR6qndOYexk1GWO+mFanlUU/PEZ0+0v9tj93TlPZp/0'' @
     byte_str ''xfWNyXpXh5ubDLRNoxX/RRQ6hMIkbpDEeCiI4zBRk1vVMpI6myc76tvMk97APMJDpKt3QGCLCQD0vb2UEqMkEKFxggR46PvlCI3z'' @
     byte_str ''o0LQr5oigB3kaSShFzTAm8hKOzg5M9NpN/l+hQHQJv9lFhxjsuHCvdM6sNF3rxLtEKCc45IicsJRM/CyZc7cadMurqBGBUSQHpLm'' @
     byte_str ''tndFaLNvjRQMI1gYYGcEr34/WOGG5LRQvo0I7toSjcVFc2JdfGuT/71JNJupS89l6nrSisFPCuCCgaN5O4jZAb4vnhrHHZs8r0Iu'' @
     byte_str ''Ftd39pT24obpLYsheBT2+tdCf3QsEIvkGZ/VQkn/4jaMyCsGw37mm8dZNyGtn3cWcP9DYytYNNmbjc8Ks3rvkbLttMch8AyEQClq'' @
     byte_str ''vgXwVMNPHBI/gL0OY8cPyCXxh7x4NCt0bmS9AUb+YCkEmXxDOkxrDntRFvmavacZbF6jNjMXfqG2dkMmZ9obz7M31r3eDYa1bd2M'' @
     byte_str ''Lgb5H3napVjILcRnuPrgR+EdqonE8+fIVZjGZL6Jgwi1ja0VHsoyI8d5dPDazD4U5q2EaPbkX/62RMCRz7FRJX368NBZigOwVzR3'' @
     byte_str ''/oIJZjeuNTlsoe4cP17jGXXCkNXXY7gUmN7A2hOH9Wg5IDdPahBCf7kpL3wOcXYoyN1fciwfq+kvN8jqNtMJcGrEls2wGnWNc5OI'' @
     byte_str ''TtHTqT7xltIdE2rjkBDo4PIwfdmOZxpbnscbfVSG5HANXA6B+6caN3hor27E8Y9aEmdhPSDP0vdedzXWPzeyTQK82bbA4PB+mny+'' @
     byte_str ''FP1IImUuVxV9jzPLPPxylx6EaR+SsxHNdUrMETboaK70mViWZpSJhSgMDQGGs1tkV22qRZFnZgIppTh4C0fBiKNK1TxkXHA7CZqn'' @
     byte_str ''dMXbA9w7C2ywBEuPCBvHZPm5qre1jLAbXC7z8TNJ/EDxdJI8yXSrKesKQiNiEZ5rEUORy3Omxi0GaPG/LfwgHmmEdTfttfzk24Lb'' @
     byte_str ''Hs51XLbX5cGM+7sQ9nLVCjiaMZEsfx87At4CnbzliC3UI/ZVkYAlby0fp2TXxfMdN5VRDueDlSUdIz88tLgWJQ8lHEI90HLl4n2d'' @
     byte_str ''NfUr08Eea4QdjI+r3INuhdS7RFm+jUWXnbPaoQpn7rev4p3tRV0YL4N3lj4eXHMsrQ4NM3ASlwvuPXfun/b+QWWTqS/k+c6vuQP1'' @
     byte_str ''H0utoAOlv3Lmzeczq+vC35QUHJdGvi43+nrNRYNWrDP0FtFIlC1q5DN+XIL7Pq2eX8dYku/2cLEYQokY7Pq4+0frobbTIxo2AVpT'' @
     byte_str ''41qmRhgQc2iNGLk9PDhLoopDEcS5dSql06IIo8r6Xx/tthaToqyDk+aAoQZf7wz7rvVmi0Mj158+KVRn4z2b6sCEe8yl+u9DpYmN'' @
     byte_str ''bU4THEQSvTSsEyez0Fps23NmIDWqXpMevUYxIgZXNorbEClxPqSOHzbiL/K02E2HhjD3JA8q+XkJdvX97orDqC/BNPp0Ivp7P9TA'' @
     byte_str ''qmjbJ6AYHMoYh/25SFq6jQQFUwuFS98wd1CJMDdewd0VzFEuzeuz69krNwv/jMNrGAUmTLeDE9jOKPMmGixOUyNLtXGpLHKleE7i'' @
     byte_str ''Vkj7LKDu2zlqYRTrDkz36JroclE+7GROXWT8+OJO4KnMep+v+ZXPFkf26/KXzKya25nqe0h200bJ/eUsFg74f9NTq+FMfEsXpRac'' @
     byte_str ''nIVJo/yJLnObOKGL5K3VrHkrx3ccubhcPHR7MkvBmhIWcOXB3KwCnvkfsA0ttvNQQ4w5ojOz0nxaiaP6NbFz0xuehwDrkaTFSF2Q'' @
     byte_str ''LfGvXI9pY/v3PJtWAj33EEwSMs46crAX++NVBuWOKGdzgvmaCxnh5oFojrvwLrr2xdJK2nzoGQJD78HMHZ1hmYfZ8UFOigZ2PtjV'' @
     byte_str ''/Tyt6XXZ3BhFjxjkCbvR4nsGoHbYVOxkNlmXsSKSRyhttRQ0r3WfHG7ot3YnoJpogHBy0T+O8Yu+SIPCIe6b+ac7rvewOi4kwobt'' @
     byte_str ''ygQBJFNoUN+0z3Ztqf49yc3viPfTXW4nlooWcyJhUs5Tk1FVLDOEJeDp8clCxYw/XtlMr+BLbVF7w3koa+aHU1PJmo562IeH/sDi'' @
     byte_str ''ANKw1GnGvcxqhmMsb4aPOTpvnpq16JLVtmdIl83j2oVOb1Ql1U6b0zv1pphHq8MwESFDm1tSThDbs41vkFWHplb5SpTLxAA2e9H/'' @
     byte_str ''Ch+cb7h9OXt7HwNPsq/+0zzT9D2rlhoDatqqTnbWpyozcRDvNKOJvPlnUCvKzHJNMcp/d9q1AaTcOrNYFVDZeEOTw7+/vCAmLxih'' @
     byte_str ''RINycQND+/x180V22WcT9I9dRbuaEPM2XpfRlkENbERqDWeGfKmuhK5r1PkF7G8QxnDgrekFVHvqudGINzi+1ELzobztD7AoyBKk'' @
     byte_str ''IUWKzSWm/HLk5zEm9lZ2Dkh9+13faXcxjifGkOvIm6g0BF+XqpvBJSyxfKg58/x0tksvI8HOfgJmPfLFdUJbmcM+WTtebp10b9+3'' @
     byte_str ''5qN0KZJbdEwZcrRrgdLbWCIvSRvNUR2SakZbYMSy08zthER446WCeRCmzzook/Scxk+Mn3WeOyMmJsXR1zXfoD7plogXvR4nJPWp'' @
     byte_str ''awrjl13hVZ1XCj6DszYdeIuVdonMYh3zn0TToAB/4xaNKev1IOAaU08exxD/DKWBZEM3LbZGsXuH7F1jOySuagkl5+JeffpMTx0s'' @
     byte_str ''RpHMzEzfdX/WOFJ/w9BR5kJjGB6KtBLic1Oy9JNCez21wC4Oo4DAPqK/W4cnDgUeYev2OkiyeX47WhDRSLES4iQcsWLJ4img''"

definition message_for_404 :: bytes where
  "message_for_404 =
     byte_str ''404 Not Found'' @
     [0x0A] @
     [0x0A] @
     byte_str ''This server serves the following routes:'' @
     [0x0A] @
     [0x0A] @
     byte_str ''/echo-body '' @
     [0xE2, 0x80, 0x94] @
     byte_str '' Echoes back the request body.'' @
     [0x0A] @
     byte_str ''/status/{code} '' @
     [0xE2, 0x80, 0x94] @
     byte_str '' Returns a response with the specified status code.'' @
     [0x0A] @
     byte_str ''/repeat-4k-blocks/{repeat} '' @
     [0xE2, 0x80, 0x94] @
     byte_str '' Streams the specified number of 4KB blocks (from memory)'' @
     [0x0A] @
     byte_str ''/stream-file/{name} '' @
     [0xE2, 0x80, 0x94] @
     byte_str '' Streams the contents of a file from `/tmp/stream-file/{name}` '' @
     [0xE2, 0x80, 0x94] @
     byte_str '' see `scripts/mkfiles.sh`'' @
     [0x0A] @
     byte_str ''/''"

section \<open>The code\<close>

definition response_default :: "http \<Rightarrow> response" where
  "response_default h = \<lparr>rs_version = HTTP_11, rs_status = 200, rs_headers = hm_default h\<rparr>"

record repeat_body =
  rb_piece :: bytes
  rb_n :: nat
  rb_written :: nat

definition rb_eof :: "repeat_body \<Rightarrow> bool" where
  "rb_eof b \<longleftrightarrow> rb_written b = rb_n b"

definition rb_content_len :: "repeat_body \<Rightarrow> nat option" where
  "rb_content_len b = Some (rb_n b * length (rb_piece b))"

definition rb_next_chunk :: "repeat_body \<Rightarrow> (body_chunk, 'e) result \<times> repeat_body" where
  "rb_next_chunk b =
     (if rb_eof b then (Ok (Done None), b)
      else (Ok (Chunk (rb_piece b)), b\<lparr>rb_written := rb_written b + 1\<rparr>))"

definition repeat_body_ops :: "(repeat_body, 'e) body_ops" where
  "repeat_body_ops =
     \<lparr>body_content_len = rb_content_len, body_eof = rb_eof, body_next_chunk = rb_next_chunk\<rparr>"

text \<open>\<open>req_body_len\<close> is a \<open>usize\<close> and its addition panics on overflow.\<close>

partial_function (option) drain_body_loop ::
    "('b, 'e) body_ops \<Rightarrow> nat \<Rightarrow> 'b \<Rightarrow> ((nat, 'e) result \<times> 'b) option" where
  "drain_body_loop bops req_body_len b =
     (case body_next_chunk bops b of
        (Panic, b) \<Rightarrow> Some (Panic, b)
      | (Err e, b) \<Rightarrow> Some (Err e, b)
      | (Ok (Done _), b) \<Rightarrow> Some (Ok req_body_len, b)
      | (Ok (Chunk chunk), b) \<Rightarrow>
          if req_body_len + length chunk < U64 then drain_body_loop bops (req_body_len + length chunk) b
          else Some (Panic, b))"

definition drain_body :: "('b, 'e) body_ops \<Rightarrow> 'b \<Rightarrow> ((nat, 'e) result \<times> 'b) option" where
  "drain_body bops b = drain_body_loop bops 0 b"

text \<open>\<open>split('/')\<close>.\<close>

fun split_slash :: "bytes \<Rightarrow> bytes list" where
  "split_slash [] = [[]]"
| "split_slash (c # cs) =
     (if c = 0x2F then [] # split_slash cs
      else (case split_slash cs of [] \<Rightarrow> [[c]] | p # ps \<Rightarrow> (c # p) # ps))"

definition path_parts :: "bytes \<Rightarrow> bytes list" where
  "path_parts path = split_slash (dropWhile (\<lambda>c. c = 0x2F) path)"

text \<open>\<open>str::parse\<close> for an unsigned type whose values are below \<open>bound\<close>: a plus sign may come first.\<close>

definition parse_unsigned :: "nat \<Rightarrow> bytes \<Rightarrow> nat option" where
  "parse_unsigned bound s =
     (let ds = (if take 1 s = [0x2B] then drop 1 s else s) in
      if ds \<noteq> [] \<and> list_all is_digit ds \<and> dec_value 0 ds < bound then Some (dec_value 0 ds) else None)"

datatype ('e, 'b) driver_error =
  DriverInterim "'e responder_error"
| DriverAnswer "('e, 'b) responder_or_body_error"
| DriverDrain 'b
| DriverParse

text \<open>Draining the request body before answering.\<close>

definition after_drain ::
    "('b, 'be) body_ops \<Rightarrow> 'enc \<Rightarrow> 'b \<Rightarrow>
     ('b \<Rightarrow> ((unit, ('e, 'be) driver_error) result \<times> 'enc \<times> 'b) option) \<Rightarrow>
     ((unit, ('e, 'be) driver_error) result \<times> 'enc \<times> 'b) option" where
  "after_drain bops enc b k =
     (case drain_body bops b of
        None \<Rightarrow> None
      | Some (Panic, b) \<Rightarrow> Some (Panic, enc, b)
      | Some (Err e, b) \<Rightarrow> Some (Err (DriverDrain e), enc, b)
      | Some (Ok _, b) \<Rightarrow> k b)"

text \<open>Answering with a body of the driver's own; the request body stays as it is.\<close>

definition answer_with ::
    "http \<Rightarrow> ('enc, 'e) encoder_ops \<Rightarrow> ('c, 'be) body_ops \<Rightarrow> 'enc \<Rightarrow> nat \<Rightarrow> 'c \<Rightarrow> 'b \<Rightarrow>
     ((unit, ('e, 'be) driver_error) result \<times> 'enc \<times> 'b) option" where
  "answer_with h eo cops enc status c b =
     (case write_final_response_with_body h eo cops enc ((response_default h)\<lparr>rs_status := status\<rparr>) c of
        None \<Rightarrow> None
      | Some (r, enc, _) \<Rightarrow> Some (map_err DriverAnswer r, enc, b))"

text \<open>The routes. The content length of the repeated blocks is computed, in \<open>u64\<close>, before anything is
  written.\<close>

definition route ::
    "http1 \<Rightarrow> ('enc, 'e) encoder_ops \<Rightarrow> ('b, 'be) body_ops \<Rightarrow> bytes list \<Rightarrow> 'enc \<Rightarrow> 'b \<Rightarrow>
     ((unit, ('e, 'be) driver_error) result \<times> 'enc \<times> 'b) option" where
  "route hp eo bops parts enc b =
     (let h = hp_http hp in
      if parts = [byte_str ''echo-body''] then
        (case write_final_response_with_body h eo bops enc (response_default h) b of
           None \<Rightarrow> None
         | Some (r, enc, b) \<Rightarrow> Some (map_err DriverAnswer r, enc, b))
      else
        (case parts of
           [p, arg] \<Rightarrow>
             if p = byte_str ''status'' then
               after_drain bops enc b (\<lambda>b.
                 case parse_unsigned (2 ^ 16) arg of
                   None \<Rightarrow> Some (Err DriverParse, enc, b)
                 | Some code \<Rightarrow>
                     (case status_from_u16 hp code of
                        None \<Rightarrow> Some (Err DriverParse, enc, b)
                      | Some status \<Rightarrow> answer_with h eo unit_body enc status () b))
             else if p = byte_str ''repeat-4k-blocks'' then
               after_drain bops enc b (\<lambda>b.
                 case parse_unsigned U64 arg of
                   None \<Rightarrow> Some (Err DriverParse, enc, b)
                 | Some n \<Rightarrow>
                     if n * length SAMPLE_4K_BLOCK < U64 then
                       answer_with h eo repeat_body_ops enc 200 \<lparr>rb_piece = SAMPLE_4K_BLOCK, rb_n = n, rb_written = 0\<rparr> b
                     else Some (Panic, enc, b))
             else if p = byte_str ''stream-file'' then
               after_drain bops enc b
                 (answer_with h eo single_piece_body enc 500
                   (single_piece_body_new (byte_str ''/stream-file: not implemented yet'')))
             else after_drain bops enc b (answer_with h eo single_piece_body enc 404 (single_piece_body_new message_for_404))
         | _ \<Rightarrow>
             if parts = [[]] then
               after_drain bops enc b
                 (answer_with h eo single_piece_body enc 200
                   (single_piece_body_new (byte_str ''See /help for a list of routes'')))
             else
               after_drain bops enc b (answer_with h eo single_piece_body enc 404 (single_piece_body_new message_for_404))))"

definition driver_handle ::
    "http1 \<Rightarrow> ('enc, 'e) encoder_ops \<Rightarrow> ('b, 'be) body_ops \<Rightarrow> request \<Rightarrow> 'enc \<Rightarrow> 'b \<Rightarrow>
     ((unit, ('e, 'be) driver_error) result \<times> 'enc \<times> 'b) option" where
  "driver_handle hp eo bops req enc b =
     (let parts = path_parts (uri_path hp (rq_uri req)) in
      if expects_100_continue (hp_http hp) (rq_headers req) then
        (case write_interim_response eo enc ((response_default (hp_http hp))\<lparr>rs_status := 100\<rparr>) of
           (Ok _, enc) \<Rightarrow> route hp eo bops parts enc b
         | (Err e, enc) \<Rightarrow> Some (Err (DriverInterim e), enc, b)
         | (Panic, enc) \<Rightarrow> Some (Panic, enc, b))
      else route hp eo bops parts enc b)"

end
