(* ===== verification/H1_Driver.thy ===== *)
theory H1_Driver
  imports H1_Server Httpwg_Driver
begin

text \<open>
  Answers over HTTP/1.1: what a responder (\<open>responder.rs\<close>) with the HTTP/1.1 encoder (\<open>h1/encode.rs\<close>) puts on the
  wire for a response with a body, and the conversation that \<open>h1::serve\<close> holds with the driver of the
  conformance suite. The interpretation of \<open>h1_handler\<close> discharges what the server loop asks of a driver.
\<close>

section \<open>Answers\<close>

definition no_trailers :: "('b, 'e) body_ops \<Rightarrow> bool" where
  "no_trailers bops \<longleftrightarrow> (\<forall>b ts b'. body_next_chunk bops b = (Ok (Done ts), b') \<longrightarrow> ts = None)"

lemma no_trailers_bodies:
  "no_trailers (h1_body_ops h io)" "no_trailers single_piece_body" "no_trailers unit_body" "no_trailers repeat_body_ops"
proof -
  have "ts = None" if "chunked_next_chunk h io st buf r = (Ok (Done ts), st', buf', r')" for st buf r ts st' buf' r'
    using that
    by (induction h io st buf r rule: chunked_next_chunk.induct)
       (subst (asm) (2) chunked_next_chunk.simps,
        auto simp: read_chunk_data_def split: option.splits chunked_decoder.splits prod.splits result.splits if_splits)
  moreover have "ts = None" if "cl_next_chunk io st buf r = (Ok (Done ts), st', buf', r')" for st buf r ts st' buf' r'
    using that by (auto simp: cl_next_chunk_def split: option.splits prod.splits result.splits if_splits)
  ultimately show "no_trailers (h1_body_ops h io)"
    by (auto simp: no_trailers_def h1_body_ops_def b1_next_chunk_def split: h1_decoder.splits prod.splits if_splits)
qed (auto simp: no_trailers_def single_piece_body_def spb_next_chunk_def unit_body_def repeat_body_ops_def rb_next_chunk_def
    split: option.splits if_splits)

definition coded_body :: "body_write_mode \<Rightarrow> bytes list \<Rightarrow> bytes" where
  "coded_body mode cs =
     (case mode of ModeChunked \<Rightarrow> chunked_wire cs | ModeContentLength _ \<Rightarrow> concat cs | ModeEmpty \<Rightarrow> [])"

lemma e1_chunk:
  assumes "e1_mode enc \<noteq> ModeEmpty"
  shows "\<exists>x. e1_write_body_chunk vec_write_all enc c = (Ok (), enc\<lparr>e1_transport := e1_transport enc @ x\<rparr>) \<and>
    (\<forall>cs. coded_body (e1_mode enc) (c # cs) = x @ coded_body (e1_mode enc) cs)"
  using assms
  by (cases "e1_mode enc") (simp_all add: e1_write_body_chunk_def write_chunked_chunk coded_body_def chunked_wire_def)

lemma e1_end:
  "e1_write_body_end vec_write_all enc = (Ok (), enc\<lparr>e1_transport := e1_transport enc @ coded_body (e1_mode enc) []\<rparr>)"
  by (simp add: e1_write_body_end_def write_h1_body_end_def coded_body_def chunked_wire_def vec_write_all_def
      split: body_write_mode.split)

text \<open>Copying a body to the encoder.\<close>

lemma body_loop_writes:
  assumes "delivers bops b cs b'" and "no_trailers bops" and "e1_mode enc = ModeEmpty \<longrightarrow> cs = []"
    and "bytes_written st + length (concat cs) < U64"
    and "announced_content_length st \<in> {None, Some (bytes_written st + length (concat cs))}"
  shows "write_body_loop (h1_encoder_ops hp vec_write_all) bops st enc b =
    Some (Ok (), enc\<lparr>e1_transport := e1_transport enc @ coded_body (e1_mode enc) cs\<rparr>, b')"
  using assms(1,3-)
proof (induction arbitrary: st enc)
  case (delivers_done b ts b')
  then have "ts = None" using assms(2) by (auto simp: no_trailers_def)
  with delivers_done show ?case
    by (subst write_body_loop.simps) (auto simp: finish_body_def map_err_st_def h1_encoder_ops_def e1_end)
next
  case (delivers_chunk b c b1 cs b')
  then have "e1_mode enc \<noteq> ModeEmpty" by auto
  from e1_chunk[OF this, of c] obtain x where
    x: "e1_write_body_chunk vec_write_all enc c = (Ok (), enc\<lparr>e1_transport := e1_transport enc @ x\<rparr>)"
      "coded_body (e1_mode enc) (c # cs) = x @ coded_body (e1_mode enc) cs" by blast
  let ?enc = "enc\<lparr>e1_transport := e1_transport enc @ x\<rparr>" and ?st = "st\<lparr>bytes_written := bytes_written st + length c\<rparr>"
  have "write_body_loop (h1_encoder_ops hp vec_write_all) bops ?st ?enc b1 =
      Some (Ok (), ?enc\<lparr>e1_transport := e1_transport ?enc @ coded_body (e1_mode ?enc) cs\<rparr>, b')"
    by (rule delivers_chunk.IH) (use delivers_chunk.prems in \<open>auto simp: add.assoc\<close>)
  with delivers_chunk.hyps(1) delivers_chunk.prems x show ?case
    by (subst write_body_loop.simps) (simp add: write_chunk_def map_err_st_def h1_encoder_ops_def)
qed

text \<open>The fields that answers have.\<close>

lemma answer_fields_ok:
  assumes "h1_ok h" and "http1_spec (h_http1 h)"
  shows "field_ok h (CONTENT_LENGTH, dec_bytes n)" "field_ok h (TRANSFER_ENCODING, byte_str ''chunked'')"
proof -
  have "\<exists>d ds. dec_bytes n = d # ds" "\<forall>d\<in>set (dec_bytes n). d \<noteq> 0x0D \<and> d \<noteq> 0x20"
    using dec_bytes_digits[of n] by (auto simp: list_all_iff is_digit_def neq_Nil_conv)
  then show "field_ok h (CONTENT_LENGTH, dec_bytes n)"
    using http1_specD(10)[OF assms(2)] h1_okD(2)[OF assms(1)]
    by (auto simp: field_ok_def CONTENT_LENGTH_def byte_str_def is_tchar_def is_ascii_graphic_def is_delimiter_def memchr_spec_def
        iter_position_None)
  show "field_ok h (TRANSFER_ENCODING, byte_str ''chunked'')"
    using http1_specD(11)[OF assms(2)] h1_okD(2)[OF assms(1)]
    by (auto simp: field_ok_def TRANSFER_ENCODING_def byte_str_def is_tchar_def is_ascii_graphic_def is_delimiter_def memchr_spec_def
        iter_position_None)
qed

lemma default_headers:
  assumes "h1_ok h" and "http1_spec (h_http1 h)"
  shows "hm_fields (h_http1 h) (hm_default (hp_http (h_http1 h))) = []" "hm_get (hp_http (h_http1 h)) (hm_default (hp_http (h_http1 h))) k = None"
  using h1_okD(3)[OF assms(1)] http1_specD(2)[OF assms(2), of "hm_default (hp_http (h_http1 h))"] by (simp_all add: http_spec_def)

text \<open>A response with a status and a body on the wire; the head is short and the connection is kept.\<close>

definition response_to :: "h1_deps \<Rightarrow> nat \<Rightarrow> bytes \<Rightarrow> bytes \<Rightarrow> bool" where
  "response_to h st content wire \<longleftrightarrow>
     (\<exists>res body. wire = response_wire (h_http1 h) res @ body \<and> response_ok h res \<and> rs_status res = st \<and>
       length (response_wire (h_http1 h) res) \<le> 256 \<and> \<not> is_connection_close (hp_http (h_http1 h)) (rs_headers res) \<and>
       body_wire (hp_http (h_http1 h)) (rs_headers res) content body)"

lemma reason_line:
  assumes "http1_spec hp"
  shows "0x0D \<notin> set (reason_phrase hp st)" "length (reason_phrase hp st) \<le> 64"
  using http1_specD(9)[OF assms, of st] by (auto simp: reason_phrase_def byte_str_def split: option.split)

text \<open>The responses of the driver have at most one field.\<close>

lemma one_field_response_ok:
  assumes "http1_spec (h_http1 h)" and "hm_fields (h_http1 h) m = [f]" and "field_ok h f" and "100 \<le> st" and "st < 1000"
    and "length (fst f) + length (snd f) \<le> 128"
  shows "response_ok h \<lparr>rs_version = HTTP_11, rs_status = st, rs_headers = m\<rparr>"
    "length (response_wire (h_http1 h) \<lparr>rs_version = HTTP_11, rs_status = st, rs_headers = m\<rparr>) \<le> 256"
proof -
  show "response_ok h \<lparr>rs_version = HTTP_11, rs_status = st, rs_headers = m\<rparr>"
    using assms reason_line(1)[OF assms(1)] by (simp add: response_ok_def)
  have "length (dec_bytes st) = 3" using dec_bytes_three[OF assms(4,5)] by (simp add: byte_str_def)
  then show "length (response_wire (h_http1 h) \<lparr>rs_version = HTTP_11, rs_status = st, rs_headers = m\<rparr>) \<le> 256"
    using assms(2,6) reason_line(2)[OF assms(1), of st]
    by (simp add: response_wire_def fields_wire_def field_line_def CRLF_def byte_str_def)
qed

lemma one_field:
  assumes "mset xs = {# f #}"
  shows "xs = [f]"
  using assms by (metis mset_single_iff)

lemma e1_response:
  assumes "http1_spec (h_http1 h)" and "response_mode (h_http1 h) (e1_mode enc) res = (mode, res')" and "response_ok h res'"
  shows "e1_write_response (h_http1 h) vec_write_all enc res =
    (Ok (), enc\<lparr>e1_transport := e1_transport enc @ response_wire (h_http1 h) res', e1_mode := mode\<rparr>)"
proof -
  obtain list where "encode_response (h_http1 h) res' [] = Ok list" "concat list = response_wire (h_http1 h) res'"
    using encode_response_wire[OF assms(1), of res'] assms(3) by (auto simp: response_ok_def)
  with assms(2) show ?thesis by (simp add: e1_write_response_def e1_writev_def vec_write_all_def)
qed

text \<open>The mode and the headers of an answer: the body is announced with its length or as chunked.\<close>

lemma answer_head:
  assumes "h1_ok h" and "http1_spec (h_http1 h)" and "200 \<le> st" and "st < 1000" and "n < U64"
    and "clen \<in> {None, Some n}" and "st \<in> {204, 304} \<longrightarrow> clen = Some 0"
  shows "\<exists>mode res'. response_mode (h_http1 h) ModeEmpty
      (announce_content_len (hp_http (h_http1 h)) clen ((response_default (hp_http (h_http1 h)))\<lparr>rs_status := st\<rparr>)) = (mode, res') \<and>
    response_ok h res' \<and> rs_status res' = st \<and> length (response_wire (h_http1 h) res') \<le> 256 \<and>
    \<not> is_connection_close (hp_http (h_http1 h)) (rs_headers res') \<and>
    content_length (hp_http (h_http1 h)) (rs_headers (announce_content_len (hp_http (h_http1 h)) clen
      ((response_default (hp_http (h_http1 h)))\<lparr>rs_status := st\<rparr>))) = clen \<and>
    (case clen of
       None \<Rightarrow> mode = ModeChunked \<and> is_chunked_transfer_encoding (hp_http (h_http1 h)) (rs_headers res')
     | Some n \<Rightarrow> mode = (if n = 0 then ModeEmpty else ModeContentLength n) \<and>
         \<not> is_chunked_transfer_encoding (hp_http (h_http1 h)) (rs_headers res') \<and>
         content_length (hp_http (h_http1 h)) (rs_headers res') = Some n)"
proof (cases clen)
  case None
  let ?hp = "h_http1 h"
  let ?m = "hm_insert ?hp (hm_default (hp_http ?hp)) TRANSFER_ENCODING (byte_str ''chunked'')"
  have "hm_fields ?hp ?m = [(TRANSFER_ENCODING, byte_str ''chunked'')]"
    using http1_specD(5)[OF assms(2), of "hm_default (hp_http ?hp)" TRANSFER_ENCODING "byte_str ''chunked''"]
    by (intro one_field) (simp add: default_headers(1)[OF assms(1,2)])
  from one_field_response_ok[OF assms(2) this answer_fields_ok(2)[OF assms(1,2)], of st] assms(3,4)
  have "response_ok h \<lparr>rs_version = HTTP_11, rs_status = st, rs_headers = ?m\<rparr>"
    "length (response_wire ?hp \<lparr>rs_version = HTTP_11, rs_status = st, rs_headers = ?m\<rparr>) \<le> 256"
    by (simp_all add: TRANSFER_ENCODING_def byte_str_def)
  moreover have "CONNECTION_NAME \<noteq> TRANSFER_ENCODING" by (simp add: TRANSFER_ENCODING_def CONNECTION_NAME_def byte_str_def)
  ultimately show ?thesis
    using None assms(3,7) default_headers(2)[OF assms(1,2)] http1_specD(4)[OF assms(2)]
    by (auto simp: is_connection_close_def response_mode_def response_default_def announce_content_len_def is_informational_def means_empty_body_def
        content_length_def is_chunked_transfer_encoding_def header_matches_def eq_ignore_ascii_case_def)
next
  case (Some k)
  then have k: "k = n" "clen = Some n" using assms(6) by auto
  let ?hp = "h_http1 h"
  let ?m = "hm_or_insert (hp_http ?hp) (hm_default (hp_http ?hp)) CONTENT_LENGTH (dec_bytes n)"
  have get: "hm_get (hp_http ?hp) ?m key = (if key = CONTENT_LENGTH then Some (dec_bytes n) else None)" for key
    using h1_okD(3)[OF assms(1)] by (auto simp: http_spec_def)
  have "hm_fields ?hp ?m = [(CONTENT_LENGTH, dec_bytes n)]"
    using http1_specD(7)[OF assms(2), of "hm_default (hp_http ?hp)" CONTENT_LENGTH "dec_bytes n"]
    by (intro one_field) (simp add: default_headers[OF assms(1,2)])
  moreover have "length (dec_bytes n) \<le> 20" using assms(5) by (intro length_dec_bytes) (simp_all add: U64_def)
  ultimately have "response_ok h \<lparr>rs_version = HTTP_11, rs_status = st, rs_headers = ?m\<rparr>"
    "length (response_wire ?hp \<lparr>rs_version = HTTP_11, rs_status = st, rs_headers = ?m\<rparr>) \<le> 256"
    using one_field_response_ok[OF assms(2) _ answer_fields_ok(1)[OF assms(1,2)], of ?m n st] assms(3,4)
    by (simp_all add: CONTENT_LENGTH_def byte_str_def)
  moreover have "TRANSFER_ENCODING \<noteq> CONTENT_LENGTH" "CONNECTION_NAME \<noteq> CONTENT_LENGTH"
    by (simp_all add: TRANSFER_ENCODING_def CONTENT_LENGTH_def CONNECTION_NAME_def byte_str_def)
  moreover have "content_length (hp_http ?hp) ?m = Some n"
    using from_digits_dec_bytes[OF assms(5)] by (simp add: content_length_def get)
  ultimately show ?thesis
    using k assms(3,7) get
    by (auto simp: response_mode_def response_default_def announce_content_len_def is_informational_def means_empty_body_def
        is_chunked_transfer_encoding_def header_matches_def is_connection_close_def)
qed

lemma h1_answer:
  assumes "h1_ok h" and "http1_spec (h_http1 h)" and "200 \<le> st" and "st < 1000"
    and "delivers bops b cs b'" and "no_trailers bops" and "[] \<notin> set cs" and "length (concat cs) < 16 ^ 14"
    and "body_content_len bops b \<in> {None, Some (length (concat cs))}" and "st \<in> {204, 304} \<longrightarrow> body_content_len bops b = Some 0"
    and "e1_mode enc = ModeEmpty"
  shows "\<exists>enc' ans. write_final_response_with_body (hp_http (h_http1 h)) (h1_encoder_ops (h_http1 h) vec_write_all) bops enc
      ((response_default (hp_http (h_http1 h)))\<lparr>rs_status := st\<rparr>) b = Some (Ok (), enc', b') \<and>
    e1_transport enc' = e1_transport enc @ ans \<and> response_to h st (concat cs) ans"
proof -
  let ?hp = "h_http1 h" and ?n = "length (concat cs)" and ?clen = "body_content_len bops b"
  let ?res = "announce_content_len (hp_http ?hp) ?clen ((response_default (hp_http ?hp))\<lparr>rs_status := st\<rparr>)"
  have "?n < U64" using assms(8) by (simp add: U64_def)
  from answer_head[OF assms(1-4) this assms(9,10)] obtain mode res' where
    res': "response_mode ?hp ModeEmpty ?res = (mode, res')" "response_ok h res'" "rs_status res' = st"
      "length (response_wire ?hp res') \<le> 256" "\<not> is_connection_close (hp_http ?hp) (rs_headers res')"
      "content_length (hp_http ?hp) (rs_headers ?res) = ?clen" and
    coding: "case ?clen of None \<Rightarrow> mode = ModeChunked \<and> is_chunked_transfer_encoding (hp_http ?hp) (rs_headers res')
     | Some n \<Rightarrow> mode = (if n = 0 then ModeEmpty else ModeContentLength n) \<and>
         \<not> is_chunked_transfer_encoding (hp_http ?hp) (rs_headers res') \<and> content_length (hp_http ?hp) (rs_headers res') = Some n"
    by blast
  let ?enc = "enc\<lparr>e1_transport := e1_transport enc @ response_wire ?hp res', e1_mode := mode\<rparr>"
  have "rs_status ?res = st" by (simp add: announce_content_len_def split: option.split)
  then have "write_final_response (hp_http ?hp) (h1_encoder_ops ?hp vec_write_all) enc ?res =
      (Ok \<lparr>announced_content_length = ?clen, bytes_written = 0\<rparr>, ?enc)"
    using e1_response[OF assms(2), of enc ?res mode res'] res' assms(3,11)
    by (simp add: write_final_response_def write_final_response_internal_def is_informational_def map_err_st_def h1_encoder_ops_def)
  moreover have empty: "mode = ModeEmpty \<longrightarrow> cs = []"
    using coding assms(7,9) by (cases cs) (auto split: option.splits if_splits)
  then have "write_body_loop (h1_encoder_ops ?hp vec_write_all) bops \<lparr>announced_content_length = ?clen, bytes_written = 0\<rparr> ?enc b =
      Some (Ok (), ?enc\<lparr>e1_transport := e1_transport ?enc @ coded_body mode cs\<rparr>, b')"
    using body_loop_writes[OF assms(5,6), of ?enc "\<lparr>announced_content_length = ?clen, bytes_written = 0\<rparr>"] assms(9) \<open>?n < U64\<close>
    by simp
  moreover have small: "\<forall>c\<in>set cs. c \<noteq> [] \<and> length c < 16 ^ 14"
  proof
    fix c assume "c \<in> set cs"
    then have "length c \<le> ?n" by (induction cs) auto
    with assms(7,8) \<open>c \<in> set cs\<close> show "c \<noteq> [] \<and> length c < 16 ^ 14" by auto
  qed
  have "body_wire (hp_http ?hp) (rs_headers res') (concat cs) (coded_body mode cs)"
  proof (cases ?clen)
    case None
    with coding show ?thesis by (simp add: body_wire_def coded_body_def) (use small in auto)
  next
    case (Some n)
    with assms(9) have "n = ?n" by simp
    with Some coding empty show ?thesis by (simp add: body_wire_def coded_body_def)
  qed
  then have "response_to h st (concat cs) (response_wire ?hp res' @ coded_body mode cs)"
    unfolding response_to_def using res' by blast
  ultimately show ?thesis by (auto simp: write_final_response_with_body_def Let_def map_err_st_def)
qed

text \<open>Answering with a single empty piece always fails over HTTP/1.1: its length 0 is announced and the head
  is sent, but the mode for an empty body then refuses the piece. Any status and any encoder.\<close>

lemma empty_piece_refused:
  assumes "h1_ok h" and "http1_spec (h_http1 h)" and "200 \<le> st" and "st < 1000" and "e1_mode enc = ModeEmpty"
  shows "\<exists>enc' b head. write_final_response_with_body (hp_http (h_http1 h)) (h1_encoder_ops (h_http1 h) vec_write_all)
      (single_piece_body :: (_, 'be) body_ops) enc ((response_default (hp_http (h_http1 h)))\<lparr>rs_status := st\<rparr>) (single_piece_body_new []) =
    Some (Err (ResponderErr (EncoderError (H1BodyError CalledWriteBodyChunkWhenNoBodyWasExpected))), enc', b) \<and>
    head \<noteq> [] \<and> e1_transport enc' = e1_transport enc @ head"
proof -
  let ?hp = "h_http1 h" and ?b = "single_piece_body_new []"
  let ?res = "announce_content_len (hp_http ?hp) (Some 0) ((response_default (hp_http ?hp))\<lparr>rs_status := st\<rparr>)"
  obtain res' where res': "response_mode ?hp ModeEmpty ?res = (ModeEmpty, res')" "response_ok h res'"
      "content_length (hp_http ?hp) (rs_headers ?res) = Some 0"
    using answer_head[OF assms(1-4), of 0 "Some 0"] by (auto simp: U64_def)
  let ?enc = "enc\<lparr>e1_transport := e1_transport enc @ response_wire ?hp res'\<rparr>"
  have "rs_status ?res = st" by (simp add: announce_content_len_def)
  then have "write_final_response (hp_http ?hp) (h1_encoder_ops ?hp vec_write_all) enc ?res =
      (Ok \<lparr>announced_content_length = Some 0, bytes_written = 0\<rparr>, ?enc)"
    using e1_response[OF assms(2), of enc ?res ModeEmpty res'] res' assms(3,5)
    by (simp add: write_final_response_def write_final_response_internal_def is_informational_def map_err_st_def h1_encoder_ops_def)
  moreover have "body_content_len (single_piece_body :: (_, 'be) body_ops) ?b = Some 0"
    by (simp add: single_piece_body_def single_piece_body_new_def)
  moreover have "write_body_loop (h1_encoder_ops ?hp vec_write_all) (single_piece_body :: (_, 'be) body_ops)
      \<lparr>announced_content_length = Some 0, bytes_written = 0\<rparr> ?enc ?b =
    Some (Err (ResponderErr (EncoderError (H1BodyError CalledWriteBodyChunkWhenNoBodyWasExpected))), ?enc, ?b\<lparr>spb_piece := None\<rparr>)"
    using assms(5)
    by (subst write_body_loop.simps) (simp add: single_piece_body_def spb_next_chunk_def single_piece_body_new_def write_chunk_def
        map_err_st_def h1_encoder_ops_def e1_write_body_chunk_def write_h1_body_chunk_def U64_def)
  moreover have "response_wire ?hp res' \<noteq> []" by (simp add: response_wire_def)
  ultimately show ?thesis by (auto simp: write_final_response_with_body_def Let_def map_err_st_def)
qed

lemma empty_piece_refused_witness:
  "\<exists>enc' b head. write_final_response_with_body http_list (h1_encoder_ops http1_list vec_write_all)
      (single_piece_body :: (_, unit) body_ops) (h1_encoder_new []) ((response_default http_list)\<lparr>rs_status := 200\<rparr>) (single_piece_body_new []) =
    Some (Err (ResponderErr (EncoderError (H1BodyError CalledWriteBodyChunkWhenNoBodyWasExpected))), enc', b) \<and>
    head \<noteq> [] \<and> e1_transport enc' = head"
  using empty_piece_refused[OF h1_std_ok, of 200 "h1_encoder_new []"] http1_list_spec by (auto simp: h1_encoder_new_def)

section \<open>The driver of the conformance suite\<close>

text \<open>What a route promises: a status and the content of the body; nothing for arguments that are not numbers
  in range.\<close>

definition expected_answer :: "bytes list \<Rightarrow> bytes \<Rightarrow> (nat \<times> bytes) option" where
  "expected_answer parts payload =
     (if parts = [byte_str ''echo-body''] then Some (200, payload)
      else if parts = [[]] then Some (200, byte_str ''See /help for a list of routes'')
      else
        (case parts of
           [p, arg] \<Rightarrow>
             if p = byte_str ''status'' then
               (case parse_unsigned (2 ^ 16) arg of
                  Some code \<Rightarrow> if 200 \<le> code \<and> code < 1000 then Some (code, []) else None
                | None \<Rightarrow> None)
             else if p = byte_str ''repeat-4k-blocks'' then
               (case parse_unsigned U64 arg of
                  Some n \<Rightarrow> if n * length SAMPLE_4K_BLOCK < 16 ^ 14 then Some (200, concat (replicate n SAMPLE_4K_BLOCK)) else None
                | None \<Rightarrow> None)
             else if p = byte_str ''stream-file'' then Some (500, byte_str ''/stream-file: not implemented yet'')
             else Some (404, message_for_404)
         | _ \<Rightarrow> Some (404, message_for_404)))"

lemma drain_delivers:
  assumes "delivers bops b cs b'" and "n + length (concat cs) < U64"
  shows "drain_body_loop bops n b = Some (Ok (n + length (concat cs)), b')"
  using assms
proof (induction arbitrary: n)
  case (delivers_chunk b c b1 cs b')
  then show ?case by (subst drain_body_loop.simps) (simp add: add.assoc)
qed (subst drain_body_loop.simps, simp)

lemma after_drain_delivers:
  assumes "delivers bops b cs b'" and "length (concat cs) < U64"
  shows "after_drain bops enc b k = k b'"
  using drain_delivers[OF assms(1), of 0] assms(2) by (simp add: after_drain_def drain_body_def)

text \<open>The bodies that the driver answers with.\<close>

lemma single_piece_delivers:
  "delivers single_piece_body (single_piece_body_new p) [p] ((single_piece_body_new p)\<lparr>spb_piece := None\<rparr>)"
proof -
  let ?b = "single_piece_body_new p"
  have "delivers single_piece_body (?b\<lparr>spb_piece := None\<rparr>) [] (?b\<lparr>spb_piece := None\<rparr>)"
    by (rule delivers_done[where ts = None]) (simp add: single_piece_body_def spb_next_chunk_def)
  then show ?thesis
    by (intro delivers_chunk[where ?b1.0 = "?b\<lparr>spb_piece := None\<rparr>"])
       (simp_all add: single_piece_body_def spb_next_chunk_def single_piece_body_new_def)
qed

lemma unit_delivers: "delivers unit_body () [] ()"
  by (rule delivers_done[where ts = None]) (simp add: unit_body_def)

lemma repeat_delivers:
  assumes "k \<le> n"
  shows "delivers repeat_body_ops \<lparr>rb_piece = p, rb_n = n, rb_written = k\<rparr> (replicate (n - k) p)
    \<lparr>rb_piece = p, rb_n = n, rb_written = n\<rparr>"
  using assms
proof (induction "n - k" arbitrary: k)
  case 0
  then show ?case
    by (simp, intro delivers_done[where ts = None]) (simp add: repeat_body_ops_def rb_next_chunk_def rb_eof_def)
next
  case (Suc m)
  have "m = n - (k + 1)" "k + 1 \<le> n" using Suc.hyps(2) by linarith+
  note rest = Suc.hyps(1)[OF this]
  have eq: "replicate (n - k) p = p # replicate (n - (k + 1)) p"
    using Suc.hyps(2) by (metis Suc_diff_Suc Suc_eq_plus1 replicate_Suc zero_less_Suc zero_less_diff)
  show ?case unfolding eq
    by (rule delivers_chunk[OF _ rest]) (use Suc.hyps(2) in \<open>simp add: repeat_body_ops_def rb_next_chunk_def rb_eof_def\<close>)
qed

lemma length_byte_str [simp]: "length (byte_str s) = length s"
  by (simp add: byte_str_def)

lemma text_lengths:
  "SAMPLE_4K_BLOCK \<noteq> []" "message_for_404 \<noteq> []" "length message_for_404 < 16 ^ 14"
proof -
  have "byte_str (c # cs) @ xs \<noteq> []" for c cs xs by (simp add: byte_str_def)
  then show "SAMPLE_4K_BLOCK \<noteq> []" "message_for_404 \<noteq> []" unfolding SAMPLE_4K_BLOCK_def message_for_404_def by blast+
  show "length message_for_404 < 16 ^ 14" unfolding message_for_404_def by simp
qed

lemma answer_with_body:
  assumes "h1_ok h" and "http1_spec (h_http1 h)" and "200 \<le> st" and "st < 1000"
    and "delivers cops c cs c'" and "no_trailers cops" and "[] \<notin> set cs" and "length (concat cs) < 16 ^ 14"
    and "body_content_len cops c = Some (length (concat cs))" and "st \<in> {204, 304} \<longrightarrow> cs = []"
    and "e1_mode enc = ModeEmpty"
  shows "\<exists>enc' ans. answer_with (hp_http (h_http1 h)) (h1_encoder_ops (h_http1 h) vec_write_all) cops enc st c b = Some (Ok (), enc', b) \<and>
    e1_transport enc' = e1_transport enc @ ans \<and> response_to h st (concat cs) ans"
  using h1_answer[OF assms(1-8) _ _ assms(11)] assms(9,10) by (auto simp: answer_with_def)

lemma route_answers:
  fixes cs :: "bytes list"
  assumes ok: "h1_ok h" "http1_spec (h_http1 h)" and body: "delivers bops b cs b'" "no_trailers bops" "[] \<notin> set cs"
    "length (concat cs) < 16 ^ 14" "body_content_len bops b \<in> {None, Some (length (concat cs))}"
    and enc: "e1_mode enc = ModeEmpty" and ans: "expected_answer parts (concat cs) = Some (st, content)"
  shows "\<exists>enc' ans. route (h_http1 h) (h1_encoder_ops (h_http1 h) vec_write_all) bops parts enc b = Some (Ok (), enc', b') \<and>
    e1_transport enc' = e1_transport enc @ ans \<and> response_to h st content ans"
proof -
  let ?ops = "h1_encoder_ops (h_http1 h) vec_write_all" and ?http = "hp_http (h_http1 h)"
  have drain: "after_drain bops enc b k = k b'" for k
    by (rule after_drain_delivers[OF body(1)]) (use body(4) in \<open>simp add: U64_def\<close>)
  have single: "\<exists>enc' ans. answer_with ?http ?ops single_piece_body enc st (single_piece_body_new p) b' = Some (Ok (), enc', b') \<and>
      e1_transport enc' = e1_transport enc @ ans \<and> response_to h st p ans"
    if "200 \<le> st" "st < 1000" "st \<notin> {204, 304}" "p \<noteq> []" "length p < 16 ^ 14" for st p
    using answer_with_body[OF ok that(1,2) single_piece_delivers no_trailers_bodies(2), of p enc b'] that enc
    by (simp add: single_piece_body_def single_piece_body_new_def)
  have not_found: "\<exists>enc' ans. answer_with ?http ?ops single_piece_body enc 404 (single_piece_body_new message_for_404) b' = Some (Ok (), enc', b') \<and>
      e1_transport enc' = e1_transport enc @ ans \<and> response_to h 404 message_for_404 ans"
    by (rule single) (simp_all add: text_lengths[simplified])
  consider (echo) "parts = [byte_str ''echo-body'']" | (root) "parts = [[]]" | (arg) p arg where "parts = [p, arg]"
    | (other) "parts \<noteq> [byte_str ''echo-body'']" "parts \<noteq> [[]]" "\<forall>p arg. parts \<noteq> [p, arg]" by blast
  then show ?thesis
  proof cases
    case echo
    with h1_answer[OF ok _ _ body(1-5) _ enc, of 200] ans show ?thesis
      by (auto simp: route_def expected_answer_def response_default_def)
  next
    case root
    with single[of 200 "byte_str ''See /help for a list of routes''"] ans show ?thesis
      by (auto simp: route_def expected_answer_def drain byte_str_def)
  next
    case arg
    consider (status) "p = byte_str ''status''" | (repeat) "p = byte_str ''repeat-4k-blocks''"
      | (stream) "p = byte_str ''stream-file''" | (unknown) "p \<notin> {byte_str ''status'', byte_str ''repeat-4k-blocks'', byte_str ''stream-file''}"
      by blast
    then show ?thesis
    proof cases
      case status
      with arg ans obtain code where code: "parse_unsigned (2 ^ 16) arg = Some code" "200 \<le> code" "code < 1000" "st = code" "content = []"
        by (auto simp: expected_answer_def split: option.splits if_splits)
      with answer_with_body[OF ok code(2,3) unit_delivers no_trailers_bodies(3), of enc b'] enc show ?thesis
        by (simp add: route_def arg status drain http1_specD(8)[OF ok(2)] unit_body_def)
    next
      case repeat
      with arg ans obtain n where n: "parse_unsigned U64 arg = Some n" "n * length SAMPLE_4K_BLOCK < 16 ^ 14" "st = 200"
          "content = concat (replicate n SAMPLE_4K_BLOCK)"
        by (auto simp: expected_answer_def byte_str_def split: option.splits if_splits)
      have len: "length (concat (replicate n SAMPLE_4K_BLOCK)) = n * length SAMPLE_4K_BLOCK" by (induction n) simp_all
      with answer_with_body[OF ok _ _ repeat_delivers[of 0 n SAMPLE_4K_BLOCK] no_trailers_bodies(4), of 200 enc b'] n text_lengths(1) enc
      show ?thesis
        by (simp add: route_def arg repeat drain repeat_body_ops_def rb_content_len_def U64_def byte_str_def)
    next
      case stream
      with single[of 500 "byte_str ''/stream-file: not implemented yet''"] ans arg show ?thesis
        by (auto simp: route_def expected_answer_def drain byte_str_def)
    next
      case unknown
      with not_found ans arg show ?thesis by (auto simp: route_def expected_answer_def drain)
    qed
  next
    case other
    with not_found ans show ?thesis by (auto simp: route_def expected_answer_def drain split: list.splits)
  qed
qed

section \<open>Serving with this driver\<close>

text \<open>The driver as the server loop calls it.\<close>

definition test_driver ::
    "h1_deps \<Rightarrow> 'r reading \<Rightarrow> ('r, bytes, (h1_encoder_error, body_error) driver_error) handler" where
  "test_driver h io req b enc =
     map_option (\<lambda>(r, enc, b). (r, b, enc))
       (driver_handle (h_http1 h) (h1_encoder_ops (h_http1 h) vec_write_all) (h1_body_ops h io) req enc b)"

text \<open>The requests that have an answer, and what is written for them: the promised response, after the
  interim response if the client asked for one.\<close>

definition driver_accepts :: "h1_deps \<Rightarrow> request \<Rightarrow> bytes \<Rightarrow> bool" where
  "driver_accepts h req payload \<longleftrightarrow>
     expected_answer (path_parts (uri_path (h_http1 h) (rq_uri req))) payload \<noteq> None \<and> length payload < 16 ^ 14"

definition continue_wire :: "http1 \<Rightarrow> request \<Rightarrow> bytes" where
  "continue_wire hp req =
     (if expects_100_continue (hp_http hp) (rq_headers req)
      then response_wire hp ((response_default (hp_http hp))\<lparr>rs_status := 100\<rparr>) else [])"

definition driver_answers :: "h1_deps \<Rightarrow> request \<Rightarrow> bytes \<Rightarrow> bytes \<Rightarrow> bytes \<Rightarrow> bool" where
  "driver_answers h req payload w w' \<longleftrightarrow>
     (\<exists>st content ans. expected_answer (path_parts (uri_path (h_http1 h) (rq_uri req))) payload = Some (st, content) \<and>
       response_to h st content ans \<and> w' = w @ continue_wire (h_http1 h) req @ ans)"

lemma interim_response:
  assumes "h1_ok h" and "http1_spec (h_http1 h)"
  shows "write_interim_response (h1_encoder_ops (h_http1 h) vec_write_all) enc ((response_default (hp_http (h_http1 h)))\<lparr>rs_status := 100\<rparr>) =
    (Ok (), enc\<lparr>e1_transport := e1_transport enc @ response_wire (h_http1 h) ((response_default (hp_http (h_http1 h)))\<lparr>rs_status := 100\<rparr>)\<rparr>)"
proof -
  let ?res = "(response_default (hp_http (h_http1 h)))\<lparr>rs_status := 100\<rparr>"
  have "response_mode (h_http1 h) (e1_mode enc) ?res = (e1_mode enc, ?res)" by (simp add: response_mode_def is_informational_def)
  moreover have "response_ok h ?res"
    using reason_line(1)[OF assms(2)] default_headers(1)[OF assms] by (simp add: response_ok_def response_default_def)
  ultimately show ?thesis
    using e1_response[OF assms(2), of enc ?res] by (simp add: write_interim_response_def is_informational_def map_err_st_def h1_encoder_ops_def)
qed

lemma driver_answers_request:
  assumes ok: "h1_ok h" "http1_spec (h_http1 h)" and acc: "driver_accepts h req (concat cs)"
    and body: "delivers (h1_body_ops h io) b cs b'" "[] \<notin> set cs" "b1_content_len b \<in> {None, Some (length (concat cs))}"
  shows "\<exists>enc'. test_driver h io req b (h1_encoder_new w) = Some (Ok (), b', enc') \<and>
    driver_answers h req (concat cs) w (e1_transport enc')"
proof -
  let ?parts = "path_parts (uri_path (h_http1 h) (rq_uri req))" and ?ops = "h1_encoder_ops (h_http1 h) vec_write_all"
  let ?enc = "\<lparr>e1_transport = w @ continue_wire (h_http1 h) req, e1_mode = ModeEmpty\<rparr>"
  obtain st content where ans: "expected_answer ?parts (concat cs) = Some (st, content)" using acc by (auto simp: driver_accepts_def)
  have "driver_handle (h_http1 h) ?ops (h1_body_ops h io) req (h1_encoder_new w) b = route (h_http1 h) ?ops (h1_body_ops h io) ?parts ?enc b"
    using interim_response[OF ok, of "h1_encoder_new w"] by (simp add: driver_handle_def continue_wire_def h1_encoder_new_def)
  moreover obtain enc' ans where "route (h_http1 h) ?ops (h1_body_ops h io) ?parts ?enc b = Some (Ok (), enc', b')"
    "e1_transport enc' = e1_transport ?enc @ ans" "response_to h st content ans"
    using route_answers[OF ok body(1) no_trailers_bodies(1) body(2) _ _ _ ans, of ?enc] acc body(3)
    by (auto simp: driver_accepts_def h1_body_ops_def)
  ultimately show ?thesis using ans by (auto simp: test_driver_def driver_answers_def)
qed

lemma pipe_test_driver:
  assumes "h1_ok h" and "http1_spec (h_http1 h)"
  shows "h1_handler pipe_reading pr_left pr_good h (test_driver h pipe_reading) (driver_accepts h) (driver_answers h)"
  by (intro h1_handler.intro pipe_h1_source h1_handler_axioms.intro driver_answers_request assms)

interpretation std_driver: h1_handler pipe_reading pr_left pr_good h1_std "test_driver h1_std pipe_reading"
    "driver_accepts h1_std" "driver_answers h1_std"
  by (rule pipe_test_driver) (simp_all add: h1_std_ok http1_list_spec)


text \<open>A request that is echoed.\<close>

definition echo_request :: request where
  "echo_request =
     \<lparr>rq_method = Post, rq_uri = byte_str ''/echo-body'', rq_version = HTTP_11,
      rq_headers = [(CONTENT_LENGTH, byte_str ''2'')]\<rparr>"

definition echo_message :: message where
  "echo_message =
     \<lparr>msg_head = request_wire http1_list echo_request, msg_request = echo_request, msg_payload = [8, 9], msg_body = [8, 9]\<rparr>"

lemma echo_route_std:
  "list_all (is_tchar h1_std) (byte_str ''POST'')" "list_all (is_uri_char h1_std) (byte_str ''/echo-body'')"
  "method_from (byte_str ''POST'') = Post" "uri_path http1_list (byte_str ''/echo-body'') = byte_str ''/echo-body''"
  "uri_from_str http1_list (byte_str ''/echo-body'') = Some (byte_str ''/echo-body'')"
  by (simp_all add: std_char_simps method_from_def http1_list_def)

lemma echo_path: "path_parts (byte_str ''/echo-body'') = [byte_str ''echo-body'']"
  by (simp add: path_parts_def byte_str_def)

lemma echo_message_ok: "message_ok h1_std server_conf_default echo_message" "driver_accepts h1_std echo_request [8, 9]"
proof -
  note path = echo_route_std(4,5)
  have "field_ok h1_std (CONTENT_LENGTH, byte_str ''2'')"
    by (simp add: field_ok_def) (simp add: std_char_simps CONTENT_LENGTH_def http_list_def to_ascii_lowercase_def)
  with echo_route_std have "request_ok h1_std echo_request"
    by (simp add: request_ok_def echo_request_def named_fields_list) (simp add: byte_str_def)
  from parse_request_wire[OF h1_std_ok this, of "[]"]
  have parsed: "parse_request h1_std (msg_head echo_message) = Ok ([], echo_request)"
    by (simp add: echo_message_def request_received_def echo_request_def named_fields_list path hm_of_def)
       (simp add: http_list_def)
  have "length (msg_head echo_message) \<le> 64 * 1024"
    by (simp add: echo_message_def echo_request_def request_wire_def named_fields_list fields_wire_def field_line_def
        CONTENT_LENGTH_def CRLF_def path)
  moreover have "body_wire http_list (rq_headers echo_request) [8, 9] [8, 9]"
  proof -
    have "\<not> is_chunked_transfer_encoding http_list (rq_headers echo_request)" "content_length http_list (rq_headers echo_request) = Some 2"
      by (simp_all add: is_chunked_transfer_encoding_def header_matches_def content_length_def http_list_def echo_request_def
          CONTENT_LENGTH_def TRANSFER_ENCODING_def from_digits_def byte_str_def checked_u64_def U64_def)
    then show ?thesis by (simp add: body_wire_def)
  qed
  ultimately show "message_ok h1_std server_conf_default echo_message"
    using parsed by (simp add: message_ok_def server_conf_default_def) (simp add: echo_message_def)
  show "driver_accepts h1_std echo_request [8, 9]" by (simp add: driver_accepts_def echo_request_def path expected_answer_def echo_path)
qed


end
