(* ===== verification/H1_Client.thy ===== *)
theory H1_Client
  imports H1_Driver
begin

text \<open>
  The HTTP/1.1 client (\<open>crates/loona/src/h1/client.rs\<close>): write a request head, then send the body and receive
  the response at the same time, on the two halves of the transport. The driver of the client is an argument,
  and so is \<open>tokio::try_join!\<close> with its documented behaviour. The exchange of the client with the server of the
  conformance suite closes the circle: what was sent comes back.
\<close>

section \<open>The code\<close>

datatype 'd http1_client_error =
  ClientDriverError 'd
| WhileWritingRequestHeaders io_error
| ErrorReadingResponseHeaders read_and_parse_error
| ServerWentAwayBeforeSendingResponseHeaders
| ClientAlloc buf_error

type_synonym ('r, 'a, 'd) client_driver = "response \<Rightarrow> 'r h1_body \<Rightarrow> (('a, 'd) result \<times> 'r h1_body) option"

definition request_mode :: "http1 \<Rightarrow> request \<Rightarrow> nat option \<Rightarrow> body_write_mode \<times> request" where
  "request_mode hp req clen =
     (case clen of
        None \<Rightarrow> (ModeChunked, req)
      | Some len \<Rightarrow>
          if len = 0 then (ModeEmpty, req)
          else (ModeContentLength len, req\<lparr>rq_headers := hm_insert hp (rq_headers req) CONTENT_LENGTH (dec_bytes len)\<rparr>))"

text \<open>An error while sending the body panics.\<close>

definition send_body ::
    "('w, io_error) writer \<Rightarrow> ('b, 'e) body_ops \<Rightarrow> body_write_mode \<Rightarrow> 'w \<Rightarrow> 'b \<Rightarrow> ('w, 'd http1_client_error) result option" where
  "send_body write bops mode w body =
     map_option (\<lambda>(r, w, _). case r of Ok _ \<Rightarrow> Ok w | _ \<Rightarrow> Panic) (write_h1_body write bops mode w body)"

definition recv_res ::
    "h1_deps \<Rightarrow> 'r reading \<Rightarrow> ('r, 'a, 'd) client_driver \<Rightarrow> bytes \<Rightarrow> 'r \<Rightarrow>
     ('r option \<times> 'a, 'd http1_client_error) result option" where
  "recv_res h io driver buf transport_r =
     (case read_and_parse io ''Http1Response'' (parse_response h) (64 * 1024) buf transport_r of
        (Panic, _) \<Rightarrow> Some Panic
      | (Err e, _) \<Rightarrow> Some (Err (ErrorReadingResponseHeaders e))
      | (Ok None, _) \<Rightarrow> Some (Err ServerWentAwayBeforeSendingResponseHeaders)
      | (Ok (Some (buf, res)), transport_r) \<Rightarrow>
          if is_informational (rs_status res) then Some Panic
          else
            let res_body = h1_body_new transport_r buf (body_kind (hp_http (h_http1 h)) (rs_headers res));
                conn_close = is_connection_close (hp_http (h_http1 h)) (rs_headers res)
            in
            (case driver res res_body of
               None \<Rightarrow> None
             | Some (Panic, _) \<Rightarrow> Some Panic
             | Some (Err e, _) \<Rightarrow> Some (Err (ClientDriverError e))
             | Some (Ok ret, res_body) \<Rightarrow>
                 let transport_r =
                       (case into_inner res_body of
                          Some (_, transport_r) \<Rightarrow> if conn_close then None else Some transport_r
                        | None \<Rightarrow> None)
                 in Some (Ok (transport_r, ret))))"

text \<open>\<open>try_join\<close> gets what the two futures come to; \<open>None\<close> is a future that is never done.\<close>

type_synonym ('a, 'b, 'e) joiner =
  "('a, 'e) result option \<Rightarrow> ('b, 'e) result option \<Rightarrow> ('a \<times> 'b, 'e) result option"

definition try_join_spec :: "('a, 'b, 'e) joiner \<Rightarrow> bool" where
  "try_join_spec join \<longleftrightarrow>
     (\<forall>a b. join (Some (Ok a)) (Some (Ok b)) = Some (Ok (a, b))) \<and>
     (\<forall>a e. join (Some (Ok a)) (Some (Err e)) = Some (Err e))"

text \<open>\<open>alloc\<close> is what comes of \<open>RollMut::alloc\<close>, and \<open>room\<close> of writing the path to the buffer.\<close>

definition client_request ::
    "h1_deps \<Rightarrow> ('w, 'r option \<times> 'a, 'd http1_client_error) joiner \<Rightarrow> (unit, buf_error) result \<Rightarrow> (unit, io_error) result \<Rightarrow> 'r reading \<Rightarrow>
     ('w, io_error) writer \<Rightarrow> ('b, 'e) body_ops \<Rightarrow> ('r, 'a, 'd) client_driver \<Rightarrow> 'r \<Rightarrow> 'w \<Rightarrow> request \<Rightarrow> 'b \<Rightarrow>
     (('r \<times> 'w) option \<times> 'a, 'd http1_client_error) result option" where
  "client_request h try_join alloc room io write bops driver transport_r transport_w req body =
     (case request_mode (h_http1 h) req (body_content_len bops body) of
        (mode, req) \<Rightarrow>
          (case alloc of
             Panic \<Rightarrow> Some Panic
           | Err e \<Rightarrow> Some (Err (ClientAlloc e))
           | Ok _ \<Rightarrow>
               (case encode_request (h_http1 h) room req [] [] of
                  Panic \<Rightarrow> Some Panic
                | Err e \<Rightarrow> Some (Err (WhileWritingRequestHeaders e))
                | Ok list \<Rightarrow>
                    (case write transport_w (concat list) of
                       (Panic, _) \<Rightarrow> Some Panic
                     | (Err e, _) \<Rightarrow> Some (Err (WhileWritingRequestHeaders e))
                     | (Ok _, transport_w) \<Rightarrow>
                         map_option (\<lambda>joined.
                           and_then joined (\<lambda>(transport_w, transport_r, ret).
                             Ok (map_option (\<lambda>transport_r. (transport_r, transport_w)) transport_r, ret)))
                           (try_join (send_body write bops mode transport_w body) (recv_res h io driver [] transport_r))))))"

section \<open>Sending\<close>

text \<open>What goes out: the head, with the length of the body, and the body.\<close>

definition sent_request :: "http1 \<Rightarrow> request \<Rightarrow> nat option \<Rightarrow> request" where
  "sent_request hp req clen = snd (request_mode hp req clen)"

lemma send_body_delivers:
  assumes "delivers bops b cs b'" and "[] \<notin> set cs" and "body_content_len bops b = Some (length (concat cs))"
  shows "send_body vec_write_all bops (fst (request_mode hp req (body_content_len bops b))) w b = Some (Ok (w @ concat cs))"
proof (cases "concat cs = []")
  case True
  with assms(2) have "cs = []" by (cases cs) auto
  with assms(1) obtain ts where "body_next_chunk bops b = (Ok (Done ts), b')" by (auto elim: delivers.cases)
  with assms(3) \<open>cs = []\<close> show ?thesis
    by (simp add: send_body_def request_mode_def) (subst write_h1_body.simps, simp add: write_h1_body_end_def)
next
  case False
  then have "length (concat cs) \<noteq> 0" by simp
  with write_h1_body_delivers[OF assms(1), of "length (concat cs)" w] assms(3) show ?thesis
    unfolding send_body_def request_mode_def by (simp only: option.simps if_False fst_conv) simp
qed

section \<open>Receiving\<close>

text \<open>Headers with the same values say the same about the body.\<close>

lemma body_wire_cong:
  assumes "\<And>k. hm_get hp m k = hm_get hp m' k"
  shows "body_wire hp m = body_wire hp m'" "is_connection_close hp m = is_connection_close hp m'"
    "expects_100_continue hp m = expects_100_continue hp m'"
  using assms by (auto simp: body_wire_def fun_eq_iff is_chunked_transfer_encoding_def content_length_def header_matches_def
      is_connection_close_def expects_100_continue_def)

text \<open>A client driver that reads the whole body and makes something of the response and its content.\<close>

definition reads_body :: "('r h1_body, body_error) body_ops \<Rightarrow> ('r, 'a, 'd) client_driver \<Rightarrow> (response \<Rightarrow> bytes \<Rightarrow> 'a) \<Rightarrow> bool" where
  "reads_body bops driver g \<longleftrightarrow> (\<forall>res b cs b'. delivers bops b cs b' \<longrightarrow> driver res b = Some (Ok (g res (concat cs)), b'))"

context h1_source
begin

sublocale response: limited_stream "parse_response h" io left good
  by (rule limited_stream.intro[OF response_parser[OF h] buffered_source_axioms])

lemma recv_res_reads:
  assumes "good r" and "left r = response_wire (h_http1 h) res @ body @ rest" and "http1_spec (h_http1 h)" and "response_ok h res"
    and "200 \<le> rs_status res" and "body_wire (hp_http (h_http1 h)) (rs_headers res) content body"
    and "length (response_wire (h_http1 h) res) \<le> 64 * 1024" and "reads_body (h1_body_ops h io) driver g"
  shows "\<exists>r' res'. recv_res h io driver [] r =
      Some (Ok (if is_connection_close (hp_http (h_http1 h)) (rs_headers res) then None else Some r', g res' content)) \<and>
    rs_status res' = rs_status res \<and>
    (\<forall>k. hm_get (hp_http (h_http1 h)) (rs_headers res') k = hm_get (hp_http (h_http1 h)) (rs_headers res) k) \<and>
    good r'"
proof -
  let ?hp = "h_http1 h" and ?res = "res\<lparr>rs_headers := hm_of (h_http1 h) (hm_fields (h_http1 h) (rs_headers res))\<rparr>"
  have get: "hm_get (hp_http ?hp) (rs_headers ?res) k = hm_get (hp_http ?hp) (rs_headers res) k" for k
    using hm_of_get[OF h1_okD(3)[OF h]] http1_specD(3)[OF assms(3)] by simp
  have msg: "[] @ left r = response_wire ?hp res @ body @ rest" using assms(2) by simp
  have "parse_response h (response_wire ?hp res) = Ok ([], ?res)"
    using parse_response_wire[OF h assms(3,4), of "[]"] by simp
  from response.read_and_parse_message[OF assms(1) msg assms(7) this, of "''Http1Response''"] obtain buf1 r1 where
    head: "read_and_parse io ''Http1Response'' (parse_response h) (64 * 1024) [] r = (Ok (Some (buf1, ?res)), r1)"
      "good r1" "buf1 @ left r1 = body @ rest" by blast
  have "body_wire (hp_http ?hp) (rs_headers ?res) content body" using assms(6) body_wire_cong(1)[OF get] by simp
  from body_delivered[OF head(2,3) this] obtain cs b' buf2 r2 where
    body: "delivers (h1_body_ops h io) (h1_body_new r1 buf1 (body_kind (hp_http ?hp) (rs_headers ?res))) cs b'" "concat cs = content"
      "into_inner b' = Some (buf2, r2)" "good r2" by blast
  have "driver ?res (h1_body_new r1 buf1 (body_kind (hp_http ?hp) (rs_headers ?res))) = Some (Ok (g ?res content), b')"
    using assms(8) body(1,2) unfolding reads_body_def by blast
  then have "recv_res h io driver [] r =
      Some (Ok (if is_connection_close (hp_http ?hp) (rs_headers res) then None else Some r2, g ?res content))"
    using head(1) body(3) assms(5) body_wire_cong(2)[OF get]
    by (simp add: recv_res_def is_informational_def)
  then show ?thesis using get body(4) by (intro exI[of _ r2] exI[of _ ?res]) auto
qed

end

section \<open>Client and server\<close>

text \<open>What a request to the echo route must satisfy: it has no fields of its own about the body, and the
  package keeps the path.\<close>

definition echo_request_ok :: "h1_deps \<Rightarrow> request \<Rightarrow> bool" where
  "echo_request_ok h req \<longleftrightarrow>
     request_ok h req \<and>
     (\<forall>k\<in>{CONTENT_LENGTH, TRANSFER_ENCODING, EXPECT}. hm_get (hp_http (h_http1 h)) (rq_headers req) k = None) \<and>
     uri_path (h_http1 h) (rq_uri req) = byte_str ''/echo-body'' \<and>
     map_option (uri_path (h_http1 h)) (uri_from_str (h_http1 h) (byte_str ''/echo-body'')) = Some (byte_str ''/echo-body'')"

lemma sent_request_ok:
  assumes "h1_ok h" and "http1_spec (h_http1 h)" and "echo_request_ok h req"
  shows "request_ok h (sent_request (h_http1 h) req clen)"
    "uri_path (h_http1 h) (rq_uri (request_received (h_http1 h) (sent_request (h_http1 h) req clen))) = byte_str ''/echo-body''"
    "hm_get (hp_http (h_http1 h)) (rq_headers (request_received (h_http1 h) (sent_request (h_http1 h) req clen))) k =
       hm_get (hp_http (h_http1 h)) (rq_headers (sent_request (h_http1 h) req clen)) k"
proof -
  have "field_ok h f" if "f \<in> set (hm_fields (h_http1 h) (hm_insert (h_http1 h) (rq_headers req) CONTENT_LENGTH (dec_bytes n)))" for f n
    using hm_insert_fields[OF assms(2) that] answer_fields_ok(1)[OF assms(1,2)] assms(3)
    by (auto simp: echo_request_ok_def request_ok_def list_all_iff)
  then show "request_ok h (sent_request (h_http1 h) req clen)"
    using assms(3) by (auto simp: sent_request_def request_mode_def echo_request_ok_def request_ok_def list_all_iff split: option.split)
  have "uri_path (h_http1 h) (rq_uri (sent_request (h_http1 h) req clen)) = byte_str ''/echo-body''"
    using assms(3) by (simp add: sent_request_def request_mode_def echo_request_ok_def split: option.split)
  then show "uri_path (h_http1 h) (rq_uri (request_received (h_http1 h) (sent_request (h_http1 h) req clen))) = byte_str ''/echo-body''"
    using assms(3) by (auto simp: request_received_def echo_request_ok_def)
  show "hm_get (hp_http (h_http1 h)) (rq_headers (request_received (h_http1 h) (sent_request (h_http1 h) req clen))) k =
       hm_get (hp_http (h_http1 h)) (rq_headers (sent_request (h_http1 h) req clen)) k"
    using hm_of_get[OF h1_okD(3)[OF assms(1)]] http1_specD(3)[OF assms(2)] by (simp add: request_received_def)
qed

lemma header_names_distinct: "CONTENT_LENGTH \<noteq> TRANSFER_ENCODING" "CONTENT_LENGTH \<noteq> EXPECT"
  by (simp_all add: CONTENT_LENGTH_def TRANSFER_ENCODING_def EXPECT_def byte_str_def)

text \<open>The request, as a message that the server understands.\<close>

lemma echo_message_served:
  assumes "h1_ok h" and "http1_spec (h_http1 h)" and "echo_request_ok h req" and "length payload < 16 ^ 14"
    and "length (request_wire (h_http1 h) (sent_request (h_http1 h) req (Some (length payload)))) \<le> max_http_header_len conf"
  defines "req' \<equiv> sent_request (h_http1 h) req (Some (length payload))"
  defines "m \<equiv> \<lparr>msg_head = request_wire (h_http1 h) req', msg_request = request_received (h_http1 h) req',
      msg_payload = payload, msg_body = payload\<rparr>"
  shows "message_ok h conf m" "driver_accepts h (msg_request m) payload"
    "\<And>w w'. driver_answers h (msg_request m) payload w w' \<Longrightarrow> \<exists>ans. w' = w @ ans \<and> response_to h 200 payload ans"
proof -
  let ?http = "hp_http (h_http1 h)"
  note sent = sent_request_ok[OF assms(1-3), of "Some (length payload)", folded req'_def]
  have get: "hm_get ?http (rq_headers (msg_request m)) k = hm_get ?http (rq_headers req') k" for k using sent(3) by (simp add: m_def)
  have none: "hm_get ?http (rq_headers req) k = None" if "k \<in> {CONTENT_LENGTH, TRANSFER_ENCODING, EXPECT}" for k
    using assms(3) that by (auto simp: echo_request_ok_def)
  have hget: "hm_get ?http (rq_headers req') k =
      (if k = CONTENT_LENGTH \<and> payload \<noteq> [] then Some (dec_bytes (length payload)) else hm_get ?http (rq_headers req) k)" for k
    using http1_specD(4)[OF assms(2)] by (auto simp: req'_def sent_request_def request_mode_def)
  have "length payload < U64" using assms(4) by (simp add: U64_def)
  from from_digits_dec_bytes[OF this]
  have "body_wire ?http (rq_headers (msg_request m)) payload payload"
    using hget none get header_names_distinct
    by (auto simp: body_wire_def is_chunked_transfer_encoding_def header_matches_def content_length_def)
  moreover have "parse_request h (msg_head m) = Ok ([], msg_request m)"
    using parse_request_wire[OF assms(1) sent(1), of "[]"] by (simp add: m_def)
  ultimately show "message_ok h conf m" using assms(5) by (simp add: message_ok_def) (simp add: m_def req'_def)
  have exp: "expected_answer (path_parts (uri_path (h_http1 h) (rq_uri (msg_request m)))) payload = Some (200, payload)"
    using sent(2) by (simp add: m_def expected_answer_def echo_path)
  then show "driver_accepts h (msg_request m) payload" using assms(4) by (simp add: driver_accepts_def)
  have "\<not> expects_100_continue ?http (rq_headers (msg_request m))"
    using hget none get header_names_distinct by (simp add: expects_100_continue_def header_matches_def)
  then show "\<exists>ans. w' = w @ ans \<and> response_to h 200 payload ans" if "driver_answers h (msg_request m) payload w w'" for w w'
    using that exp by (auto simp: driver_answers_def continue_wire_def)
qed

lemma client_request_joins:
  fixes driver :: "('r, 'a, 'd) client_driver"
  assumes "http1_spec (h_http1 h)" and "try_join_spec join" and "rq_version req \<in> {HTTP_10, HTTP_11}"
    and "uri_path (h_http1 h) (rq_uri req) \<noteq> []"
    and "(send_body vec_write_all bops (fst (request_mode (h_http1 h) req (body_content_len bops b)))
      (w @ request_wire (h_http1 h) (sent_request (h_http1 h) req (body_content_len bops b))) b ::
        (bytes, 'd http1_client_error) result option) = Some (Ok w')"
    and "recv_res h io driver [] r = Some (Ok (t, a))"
  shows "client_request h join (Ok ()) (Ok ()) io vec_write_all bops driver r w req b = Some (Ok (map_option (\<lambda>r. (r, w')) t, a))"
proof -
  obtain mode req' where m: "request_mode (h_http1 h) req (body_content_len bops b) = (mode, req')" by (metis prod.exhaust)
  then have "rq_version req' = rq_version req" "rq_uri req' = rq_uri req"
    by (auto simp: request_mode_def split: option.splits if_splits)
  with encode_request_wire[OF assms(1), of req'] assms(3,4) obtain list where
    "encode_request (h_http1 h) (Ok ()) req' [] [] = Ok list" "concat list = request_wire (h_http1 h) req'" by auto
  with m assms(2,5,6) show ?thesis by (simp add: client_request_def sent_request_def vec_write_all_def try_join_spec_def)
qed

text \<open>The server's part and the client's part.\<close>

lemma echo_served:
  assumes "h1_ok h" and "http1_spec (h_http1 h)" and "echo_request_ok h req" and "length payload < 16 ^ 14"
    and "length (request_wire (h_http1 h) (sent_request (h_http1 h) req (Some (length payload)))) \<le> max_http_header_len conf"
    and ps: "concat ps = request_wire (h_http1 h) (sent_request (h_http1 h) req (Some (length payload))) @ payload" "\<forall>p\<in>set ps. p \<noteq> []"
  shows "\<exists>out answer. h1_serve h pipe_reading vec_write_all conf (test_driver h pipe_reading) [] (pipe_read_new (map PipePiece ps)) [] =
      Some (Ok out, answer) \<and> response_to h 200 payload answer"
proof -
  define req' where "req' = sent_request (h_http1 h) req (Some (length payload))"
  define m where "m = \<lparr>msg_head = request_wire (h_http1 h) req', msg_request = request_received (h_http1 h) req',
    msg_payload = payload, msg_body = payload\<rparr>"
  note served = echo_message_served[OF assms(1-5), folded req'_def, folded m_def]
  have payload: "msg_payload m = payload" by (simp add: m_def)
  have limit: "0 < max_http_header_len conf" using assms(5) by (cases "max_http_header_len conf") (auto simp: request_wire_def)
  have wire: "[] @ pr_left (pipe_read_new (map PipePiece ps)) = messages_wire [m]"
    using ps(1) by (simp add: pipe_left_pieces messages_wire_def m_def req'_def)
  have ms: "\<forall>x\<in>set [m]. message_ok h conf x \<and> driver_accepts h (msg_request x) (msg_payload x)" using served payload by simp
  from h1_handler.serves[OF pipe_test_driver[OF assms(1,2)] pipe_good_pieces[OF ps(2)] wire ms limit, of vec_write_all "[]"]
  obtain out answer where out: "h1_serve h pipe_reading vec_write_all conf (test_driver h pipe_reading) [] (pipe_read_new (map PipePiece ps)) [] =
      Some (Ok out, answer)" "conversation (hp_http (h_http1 h)) (driver_answers h) [m] [] out answer" by blast
  from out(2) have "driver_answers h (msg_request m) payload [] answer"
    by (elim conversation_ConsE) (auto simp: payload elim: conversation_NilE)
  with served(3)[of "[]" answer] out(1) show ?thesis by auto
qed

lemma echo_received:
  fixes driver :: "(pipe_read, 'a, 'd) client_driver"
  assumes "h1_ok h" and "http1_spec (h_http1 h)" and "try_join_spec join" and "request_ok h req"
    and "delivers bops b cs b'" and "[] \<notin> set cs" and "body_content_len bops b = Some (length (concat cs))"
    and "reads_body (h1_body_ops h pipe_reading) driver g"
    and qs: "response_to h 200 content (concat qs)" "\<forall>q\<in>set qs. q \<noteq> []"
  shows "\<exists>r' res. client_request h join (Ok ()) (Ok ()) pipe_reading vec_write_all bops driver (pipe_read_new (map PipePiece qs)) [] req b =
      Some (Ok (Some (r', request_wire (h_http1 h) (sent_request (h_http1 h) req (Some (length (concat cs)))) @ concat cs), g res content)) \<and>
    rs_status res = 200"
proof -
  let ?hp = "h_http1 h"
  obtain res body where res: "concat qs = response_wire ?hp res @ body" "response_ok h res" "rs_status res = 200"
      "length (response_wire ?hp res) \<le> 256" "\<not> is_connection_close (hp_http ?hp) (rs_headers res)"
      "body_wire (hp_http ?hp) (rs_headers res) content body"
    using qs(1) by (auto simp: response_to_def)
  then obtain r' res' where recv: "recv_res h pipe_reading driver [] (pipe_read_new (map PipePiece qs)) = Some (Ok (Some r', g res' content))"
    "rs_status res' = 200"
    using h1_source.recv_res_reads[OF pipe_h1_source[OF assms(1)] pipe_good_pieces[OF qs(2)], of res body "[]" content driver g] assms(2,8)
    by (auto simp: pipe_left_pieces)
  have "(send_body vec_write_all bops (fst (request_mode ?hp req (body_content_len bops b)))
      ([] @ request_wire ?hp (sent_request ?hp req (body_content_len bops b))) b :: (bytes, 'd http1_client_error) result option) =
    Some (Ok (request_wire ?hp (sent_request ?hp req (Some (length (concat cs)))) @ concat cs))"
    using send_body_delivers[OF assms(5-7), of ?hp req] by (simp add: assms(7))
  from client_request_joins[OF assms(2,3) _ _ this recv(1)] assms(4) recv(2) show ?thesis by (auto simp: request_ok_def)
qed


text \<open>Instances for the witness: joining two futures of which the first is done first, and a driver that
  collects the body.\<close>

definition try_join_std :: "('a, 'b, 'e) joiner" where
  "try_join_std a b =
     (case a of
        None \<Rightarrow> (case b of Some (Err e) \<Rightarrow> Some (Err e) | Some Panic \<Rightarrow> Some Panic | _ \<Rightarrow> None)
      | Some (Err e) \<Rightarrow> Some (Err e)
      | Some Panic \<Rightarrow> Some Panic
      | Some (Ok x) \<Rightarrow> map_option (\<lambda>r. and_then r (\<lambda>y. Ok (x, y))) b)"

definition collect_driver :: "h1_deps \<Rightarrow> (pipe_read, nat \<times> bytes, unit) client_driver" where
  "collect_driver h res b =
     map_option (\<lambda>(r, w, b). (case r of Ok _ \<Rightarrow> Ok (rs_status res, w) | _ \<Rightarrow> Err (), b))
       (write_h1_body vec_write_all (h1_body_ops h pipe_reading) (ModeContentLength 0) [] b)"

definition client_example :: request where
  "client_example = \<lparr>rq_method = Post, rq_uri = byte_str ''/echo-body'', rq_version = HTTP_11, rq_headers = []\<rparr>"

lemma client_example_ok: "echo_request_ok h1_std client_example"
  using echo_route_std
  by (simp add: echo_request_ok_def request_ok_def client_example_def named_fields_list) (simp add: http_list_def byte_str_def)


end
