(* ===== verification/Httpwg_Conn.thy ===== *)
theory Httpwg_Conn
  imports H2_Work Hpack_Roundtrip
begin

text \<open>
  The client of the conformance suite (\<open>crates/httpwg/src/lib.rs\<close>): the task that reads the server's frames
  and passes them on as events, and \<open>Conn\<close>, with which a test writes frames, waits for the server's and judges
  them. A test step takes the connection and returns its outcome beside the new connection; \<open>eyre\<close> reports are
  \<open>Err\<close>, failed assertions and \<open>unwrap\<close> are \<open>Panic\<close>. The events that have arrived and whether the receiving task
  has ended are part of the connection; when a test waits and neither an event nor the end is there, its
  deadline passes. The bit that \<open>enumflags2\<close> gives to each \<open>ErrorC\<close> is a parameter (\<open>eb\<close>).
\<close>

section \<open>Headers and configuration\<close>

text \<open>A \<open>Headers\<close> is the list of its pairs.\<close>

definition hs_append :: "header list \<Rightarrow> bytes \<Rightarrow> bytes \<Rightarrow> header list" where
  "hs_append hs key value = hs @ [(key, value)]"

definition hs_prepend :: "header list \<Rightarrow> bytes \<Rightarrow> bytes \<Rightarrow> header list" where
  "hs_prepend hs key value = (key, value) # hs"

definition hs_replace :: "header list \<Rightarrow> bytes \<Rightarrow> bytes \<Rightarrow> header list" where
  "hs_replace hs key value = filter (\<lambda>(k, _). k \<noteq> key) hs @ [(key, value)]"

fun hs_get_first :: "header list \<Rightarrow> bytes \<Rightarrow> bytes option" where
  "hs_get_first [] key = None"
| "hs_get_first ((k, v) # hs) key = (if k = key then Some v else hs_get_first hs key)"

definition hs_extend :: "header list \<Rightarrow> header list \<Rightarrow> header list" where
  "hs_extend hs other = hs @ other"

definition hs_remove :: "header list \<Rightarrow> bytes \<Rightarrow> header list" where
  "hs_remove hs key = filter (\<lambda>(k, _). k \<noteq> key) hs"

record config =
  cf_host :: bytes
  cf_port :: u16
  cf_path :: bytes
  cf_tls :: bool
  cf_timeout :: nat
  cf_max_header_len :: nat

definition config_default :: config where
  "config_default =
     \<lparr>cf_host = byte_str ''localhost'', cf_port = 80, cf_path = byte_str ''/'', cf_tls = False,
      cf_timeout = 100, cf_max_header_len = 4000\<rparr>"

definition dummy_bytes :: "nat \<Rightarrow> bytes" where
  "dummy_bytes len = replicate len (of_char (CHR ''x''))"

definition DEFAULT_WINDOW_SIZE :: u32 where "DEFAULT_WINDOW_SIZE = 65536"
definition DEFAULT_FRAME_SIZE :: u32 where "DEFAULT_FRAME_SIZE = 16384"

definition default_settings :: "(setting \<times> u32) list" where
  "default_settings = [(InitialWindowSize, DEFAULT_WINDOW_SIZE), (MaxFrameSize, DEFAULT_FRAME_SIZE)]"

section \<open>Kinds of frames and errors\<close>

datatype frame_t =
  TData | THeaders | TPriority | TRstStream | TSettings | TPushPromise | TPing | TGoAway
| TWindowUpdate | TContinuation | TUnknown

fun frame_t_from :: "frame_type \<Rightarrow> frame_t" where
  "frame_t_from (Data _) = TData"
| "frame_t_from (Headers _) = THeaders"
| "frame_t_from Priority = TPriority"
| "frame_t_from RstStream = TRstStream"
| "frame_t_from (Settings _) = TSettings"
| "frame_t_from PushPromise = TPushPromise"
| "frame_t_from (Ping _) = TPing"
| "frame_t_from GoAway = TGoAway"
| "frame_t_from WindowUpdate = TWindowUpdate"
| "frame_t_from (Continuation _) = TContinuation"
| "frame_t_from (Unknown _) = TUnknown"

datatype error_c =
  ENoError | EProtocolError | EInternalError | EFlowControlError | ESettingsTimeout | EStreamClosed
| EFrameSizeError | ERefusedStream | ECancel | ECompressionError | EConnectError | EEnhanceYourCalm
| EInadequateSecurity | EHttp1_1Required

text \<open>\<open>value as _\<close> is the discriminant of the enum, which \<open>#[bitflags]\<close> sets to a bit: the next power of two for
  each variant in turn.\<close>

definition error_code_from_error_c :: "(error_c \<Rightarrow> u16) \<Rightarrow> error_c \<Rightarrow> error_code" where
  "error_code_from_error_c eb c = ucast (eb c)"

definition error_bits_spec :: "(error_c \<Rightarrow> u16) \<Rightarrow> bool" where
  "error_bits_spec eb \<longleftrightarrow>
     map eb [ENoError, EProtocolError, EInternalError, EFlowControlError, ESettingsTimeout, EStreamClosed,
       EFrameSizeError, ERefusedStream, ECancel, ECompressionError, EConnectError, EEnhanceYourCalm,
       EInadequateSecurity, EHttp1_1Required] = map (\<lambda>i. 2 ^ i) [0..<14]"

fun error_c_from :: "known_error_code \<Rightarrow> error_c" where
  "error_c_from NoError = ENoError"
| "error_c_from ProtocolError = EProtocolError"
| "error_c_from InternalError = EInternalError"
| "error_c_from FlowControlError = EFlowControlError"
| "error_c_from SettingsTimeout = ESettingsTimeout"
| "error_c_from StreamClosed = EStreamClosed"
| "error_c_from FrameSizeError = EFrameSizeError"
| "error_c_from RefusedStream = ERefusedStream"
| "error_c_from Cancel = ECancel"
| "error_c_from CompressionError = ECompressionError"
| "error_c_from ConnectError = EConnectError"
| "error_c_from EnhanceYourCalm = EEnhanceYourCalm"
| "error_c_from InadequateSecurity = EInadequateSecurity"
| "error_c_from Http1_1Required = EHttp1_1Required"

section \<open>The receiving task\<close>

datatype ev = EvFrame frame bytes | EvIoError io_error

text \<open>Reads under a deadline: \<^const>\<open>None\<close> when it passes first. The room is what the buffer offers after
  \<open>reserve\<close>.\<close>

record 'r timed_reading =
  tm_room :: "'r \<Rightarrow> bytes \<Rightarrow> (nat, buf_error) result \<times> 'r"
  tm_owned :: "'r \<Rightarrow> nat \<Rightarrow> (bytes, io_error) result option \<times> 'r"

definition timed_read_into ::
    "'r timed_reading \<Rightarrow> bytes \<Rightarrow> 'r \<Rightarrow> (bytes option, io_error) result \<times> 'r" where
  "timed_read_into io buf r =
     (case tm_room io r buf of
        (Panic, r) \<Rightarrow> (Panic, r)
      | (Err e, r) \<Rightarrow> (Panic, r)
      | (Ok cap, r) \<Rightarrow>
          let read_cap = min 16384 cap in
          if \<not> 0 < read_cap then (Panic, r)
          else
            (case tm_owned io r read_cap of
               (None, r) \<Rightarrow> (Ok None, r)
             | (Some res, r) \<Rightarrow> (and_then res (\<lambda>bs. Ok (Some bs)), r)))"

text \<open>The loop that waits for the payload of a frame; \<^const>\<open>None\<close> when the deadline passed.\<close>

function recv_payload ::
    "'r timed_reading \<Rightarrow> nat \<Rightarrow> bytes \<Rightarrow> 'r \<Rightarrow> (bytes option, io_error) result \<times> 'r" where
  "recv_payload io frame_len buf r =
     (if length buf < frame_len then
        (case timed_read_into io buf r of
           (Panic, r) \<Rightarrow> (Panic, r)
         | (Err e, r) \<Rightarrow> (Err e, r)
         | (Ok None, r) \<Rightarrow> (Ok None, r)
         | (Ok (Some bs), r) \<Rightarrow>
             if length bs = 0 then (Panic, r)
             else recv_payload io frame_len (buf @ bs) r)
      else (Ok (Some buf), r))"
  by pat_completeness auto
termination
  by (relation "measure (\<lambda>(_, frame_len, buf, _). frame_len - length buf)") (auto intro!: diff_less_mono2)

declare recv_payload.simps [simp del]

text \<open>\<open>send\<close> is the channel to the test; it returns \<^const>\<open>None\<close> when the test has stopped listening.\<close>

partial_function (option) recv_loop ::
    "'r timed_reading \<Rightarrow> nom \<Rightarrow> enumflags \<Rightarrow> ('t \<Rightarrow> ev \<Rightarrow> 't option) \<Rightarrow>
     bool \<Rightarrow> bytes \<Rightarrow> 'r \<Rightarrow> 't \<Rightarrow> ((unit, io_error) result \<times> 't) option" where
  "recv_loop io nom ef send eof buf r tx =
     (case frame_parse nom ef buf of
        Ok (rest, frame) \<Rightarrow>
          (case recv_payload io (unat (flen frame)) rest r of
             (Panic, r) \<Rightarrow> Some (Panic, tx)
           | (Err e, r) \<Rightarrow> Some (Err e, tx)
           | (Ok got, r) \<Rightarrow>
               (case got of
                  None \<Rightarrow> Some (Ok (), tx)
                | Some buf \<Rightarrow>
                    (case send tx (EvFrame frame (take (unat (flen frame)) buf)) of
                       None \<Rightarrow> Some (Ok (), tx)
                     | Some tx \<Rightarrow> recv_loop io nom ef send eof (drop (unat (flen frame)) buf) r tx)))
      | Panic \<Rightarrow> Some (Panic, tx)
      | Err err \<Rightarrow>
          if err = Incomplete then
            if eof then Some (if buf = [] then Ok () else Panic, tx)
            else
              (case timed_read_into io buf r of
                 (Panic, r) \<Rightarrow> Some (Panic, tx)
               | (Err e, r) \<Rightarrow> Some (Err e, tx)
               | (Ok got, r) \<Rightarrow>
                   (case got of
                      None \<Rightarrow> Some (Ok (), tx)
                    | Some bs \<Rightarrow> recv_loop io nom ef send (if length bs = 0 then True else eof) (buf @ bs) r tx))
          else Some (Ok (), tx))"

declare recv_loop.simps [code]

text \<open>An error of the loop is the last event; the channel closes in any case.\<close>

definition recv_events :: "(unit, io_error) result \<times> ev list \<Rightarrow> ev list" where
  "recv_events out = snd out @ (case fst out of Err e \<Rightarrow> [EvIoError e] | _ \<Rightarrow> [])"

section \<open>The connection\<close>

record 'w conn =
  cn_w :: 'w
  cn_scratch :: bytes
  ev_rx :: "ev list"
  ev_ended :: bool
  cn_config :: config
  cn_hpack_enc :: encoder
  cn_hpack_dec :: decoder
  cn_settings :: settings

text \<open>\<open>Conn::new\<close> with what the receiving task delivers. The settings it applies to a variable of its own are not
  those it stores.\<close>

definition conn_new :: "config \<Rightarrow> 'w \<Rightarrow> ev list \<Rightarrow> bool \<Rightarrow> 'w conn" where
  "conn_new config w evs ended =
     \<lparr>cn_w = w, cn_scratch = [], ev_rx = evs, ev_ended = ended, cn_config = config,
      cn_hpack_enc = encoder_new, cn_hpack_dec = decoder_new,
      cn_settings = settings_default\<lparr>initial_window_size := DEFAULT_FRAME_SIZE, max_frame_size := DEFAULT_FRAME_SIZE\<rparr>\<rparr>"

datatype eyre =
  Report string | ReportIo io_error | ReportSettings settings_error | ReportDecode decoder_error

type_synonym 'w test_step = "'w conn \<Rightarrow> (unit, eyre) result \<times> 'w conn"

text \<open>Statements one after the other, each with \<open>?\<close>; a statement whose error is ignored; an assertion.\<close>

fun script :: "'w test_step list \<Rightarrow> 'w test_step" where
  "script [] c = (Ok (), c)"
| "script (f # fs) c = bind_st (f c) (\<lambda>_ c. script fs c)"

definition ignoring :: "'w test_step \<Rightarrow> 'w test_step" where
  "ignoring f c = (case f c of (Panic, c) \<Rightarrow> (Panic, c) | (_, c) \<Rightarrow> (Ok (), c))"

definition assert_step :: "bool \<Rightarrow> 'w test_step" where
  "assert_step b c = (if b then Ok () else Panic, c)"

section \<open>Payloads\<close>

text \<open>\<open>IntoPiece\<close>: bytes are themselves; the others are written into the scratch buffer by \<open>put_to_roll\<close>, whose
  error panics.\<close>

type_synonym into_piece = "bytes \<Rightarrow> (bytes, io_error) result \<times> bytes"

definition raw_piece :: "bytes \<Rightarrow> into_piece" where
  "raw_piece bs scratch = (Ok bs, scratch)"

definition put_piece ::
    "nat \<Rightarrow> (bytes \<times> nat \<Rightarrow> (unit, buf_error) result \<times> (bytes \<times> nat)) \<Rightarrow> into_piece" where
  "put_piece len f scratch =
     (case scratch_put_to_roll len f scratch of
        (Ok roll, scratch) \<Rightarrow> (Ok roll, scratch)
      | (_, scratch) \<Rightarrow> (Panic, scratch))"

definition priority_piece :: "'w deps \<Rightarrow> priority_spec \<Rightarrow> into_piece" where
  "priority_piece d ps =
     put_piece 5 (\<lambda>w.
       bind_st (pack_reserved_and_stream_id (if exclusive ps then 1 else 0) (stream_dependency ps), w)
         (\<lambda>reserved_and_stream_id w.
       bind_st (slice_write_all w reserved_and_stream_id) (\<lambda>_ w.
         write_u8 (d_slice_bo d) slice_write_all w (weight ps))))"

definition settings_piece :: "'w deps \<Rightarrow> (setting \<times> u32) list \<Rightarrow> into_piece" where
  "settings_piece d pairs = put_piece (length pairs * 6) (setting_pairs_write (d_slice_bo d) slice_write_all pairs)"

definition go_away_piece :: "'w deps \<Rightarrow> go_away \<Rightarrow> into_piece" where
  "go_away_piece d g =
     put_piece (8 + length (additional_debug_data g)) (\<lambda>w.
       bind_st (write_u32_be (d_slice_bo d) slice_write_all w (go_away.last_stream_id g)) (\<lambda>_ w.
       bind_st (write_u32_be (d_slice_bo d) slice_write_all w (ga_error_code g)) (\<lambda>_ w.
         slice_write_all w (additional_debug_data g))))"

definition rst_stream_piece :: "'w deps \<Rightarrow> rst_stream \<Rightarrow> into_piece" where
  "rst_stream_piece d r = put_piece 4 (\<lambda>w. write_u32_be (d_slice_bo d) slice_write_all w (rst_error_code r))"

definition window_update_piece :: "window_update \<Rightarrow> into_piece" where
  "window_update_piece u =
     put_piece 4 (\<lambda>w.
       bind_st (pack_bit_and_u31 (wu_reserved u) (increment u), w) (\<lambda>packed w.
         slice_write_all w packed))"

section \<open>Writing\<close>

text \<open>\<open>conn.send\<close>, and the two pieces of a frame.\<close>

definition cn_send :: "'w deps \<Rightarrow> bytes \<Rightarrow> 'w test_step" where
  "cn_send d buf c = (case d_write d (cn_w c) buf of (r, w) \<Rightarrow> (map_err ReportIo r, c\<lparr>cn_w := w\<rparr>))"

definition cn_frame_piece :: "'w deps \<Rightarrow> frame \<Rightarrow> 'w conn \<Rightarrow> (bytes, eyre) result \<times> 'w conn" where
  "cn_frame_piece d frame c =
     (case frame_into_piece d frame (cn_scratch c) of
        (r, scratch) \<Rightarrow> (map_err ReportIo r, c\<lparr>cn_scratch := scratch\<rparr>))"

definition cn_write_frame :: "'w deps \<Rightarrow> frame \<Rightarrow> into_piece \<Rightarrow> 'w test_step" where
  "cn_write_frame d frame payload c =
     (case payload (cn_scratch c) of
        (r, scratch) \<Rightarrow>
          bind_st (map_err ReportIo r, c\<lparr>cn_scratch := scratch\<rparr>) (\<lambda>payload c.
            if \<not> length payload < 2 ^ 32 then (Panic, c)
            else
              bind_st (cn_frame_piece d (with_len frame (of_nat (length payload))) c) (\<lambda>header c.
                cn_send d (header @ payload) c)))"

definition cn_write_priority :: "'w deps \<Rightarrow> stream_id \<Rightarrow> priority_spec \<Rightarrow> 'w test_step" where
  "cn_write_priority d sid spec = cn_write_frame d (into_frame Priority sid) (priority_piece d spec)"

definition cn_write_ping :: "'w deps \<Rightarrow> bool \<Rightarrow> bytes \<Rightarrow> 'w test_step" where
  "cn_write_ping d ack payload =
     cn_write_frame d (into_frame (Ping (if ack then {PingAck} else {})) CONNECTION) (raw_piece payload)"

definition cn_write_settings :: "'w deps \<Rightarrow> (setting \<times> u32) list \<Rightarrow> 'w test_step" where
  "cn_write_settings d pairs = cn_write_frame d (into_frame (Settings {}) CONNECTION) (settings_piece d pairs)"

definition cn_write_headers :: "'w deps \<Rightarrow> stream_id \<Rightarrow> headers_flags set \<Rightarrow> bytes \<Rightarrow> 'w test_step" where
  "cn_write_headers d sid flags block = cn_write_frame d (frame_new (Headers flags) sid) (raw_piece block)"

text \<open>The length that this frame announces is that of the block alone.\<close>

definition cn_write_headers_with_priority ::
    "'w deps \<Rightarrow> stream_id \<Rightarrow> headers_flags set \<Rightarrow> priority_spec \<Rightarrow> bytes \<Rightarrow> 'w test_step" where
  "cn_write_headers_with_priority d sid flags spec block c =
     (let frame = frame_new (Headers (flags \<union> {HeadersPriority})) sid in
      if \<not> length block < 2 ^ 32 then (Panic, c)
      else
        (case priority_piece d spec (cn_scratch c) of
           (r, scratch) \<Rightarrow>
             bind_st (map_err ReportIo r, c\<lparr>cn_scratch := scratch\<rparr>) (\<lambda>priority_spec_piece c.
             bind_st (cn_frame_piece d (with_len frame (of_nat (length block))) c) (\<lambda>header c.
               cn_send d (header @ priority_spec_piece @ block) c))))"

definition cn_write_continuation ::
    "'w deps \<Rightarrow> stream_id \<Rightarrow> continuation_flags set \<Rightarrow> bytes \<Rightarrow> 'w test_step" where
  "cn_write_continuation d sid flags block =
     cn_write_frame d (frame_new (Continuation flags) sid) (raw_piece block)"

definition cn_write_data :: "'w deps \<Rightarrow> stream_id \<Rightarrow> bool \<Rightarrow> bytes \<Rightarrow> 'w test_step" where
  "cn_write_data d sid end_stream data =
     cn_write_frame d (frame_new (Data (if end_stream then {DataEndStream} else {})) sid) (raw_piece data)"

definition cn_write_rst_stream :: "'w deps \<Rightarrow> stream_id \<Rightarrow> error_code \<Rightarrow> 'w test_step" where
  "cn_write_rst_stream d sid code =
     cn_write_frame d (into_frame RstStream sid) (rst_stream_piece d \<lparr>rst_error_code = code\<rparr>)"

text \<open>The payload is made once more, for the log, in a buffer of its own.\<close>

definition cn_write_window_update :: "'w deps \<Rightarrow> stream_id \<Rightarrow> u32 \<Rightarrow> 'w test_step" where
  "cn_write_window_update d sid inc c =
     (let update = \<lparr>wu_reserved = 0, increment = inc\<rparr> in
      case window_update_piece update [] of
        (Ok piece, _) \<Rightarrow> cn_write_frame d (into_frame WindowUpdate sid) (window_update_piece update) c
      | _ \<Rightarrow> (Panic, c))"

section \<open>Header blocks\<close>

definition common_headers :: "'w conn \<Rightarrow> bytes \<Rightarrow> header list" where
  "common_headers c req_method =
     (let config = cn_config c;
          (scheme, default_port) =
            (if cf_tls config then (byte_str ''https'', cf_port config = 443)
             else (byte_str ''http'', cf_port config = 80));
          authority =
            (if default_port then cf_host config
             else cf_host config @ byte_str '':'' @ dec_bytes (unat (cf_port config)));
          headers = [];
          headers = hs_append headers (byte_str '':method'') req_method;
          headers = hs_append headers (byte_str '':scheme'') scheme;
          headers = hs_append headers (byte_str '':path'') (cf_path config);
          headers = hs_append headers (byte_str '':authority'') authority
      in headers)"

definition dummy_headers :: "'w conn \<Rightarrow> nat \<Rightarrow> header list" where
  "dummy_headers c len =
     foldl (\<lambda>headers i. hs_append headers (byte_str ''x-dummy'' @ dec_bytes i)
       (dummy_bytes (cf_max_header_len (cn_config c)))) [] [0..<len]"

definition cn_encode_headers :: "header list \<Rightarrow> 'w conn \<Rightarrow> (bytes, eyre) result \<times> 'w conn" where
  "cn_encode_headers headers c =
     (case encode_into (vec_write_all :: (bytes, io_error) writer) headers (cn_hpack_enc c, []) of
        (r, enc, fragment) \<Rightarrow> (and_then (map_err ReportIo r) (\<lambda>_. Ok fragment), c\<lparr>cn_hpack_enc := enc\<rparr>))"

definition cn_decode_headers :: "bytes \<Rightarrow> 'w conn \<Rightarrow> (header list, eyre) result \<times> 'w conn" where
  "cn_decode_headers fragment c =
     (case decode (cn_hpack_dec c) fragment of
        (r, dec) \<Rightarrow> (map_err ReportDecode r, c\<lparr>cn_hpack_dec := dec\<rparr>))"

text \<open>\<open>let block_fragment = conn.encode_headers(..)?;\<close> before the statements that use it.\<close>

definition with_block :: "('w conn \<Rightarrow> header list) \<Rightarrow> (bytes \<Rightarrow> 'w test_step) \<Rightarrow> 'w test_step" where
  "with_block headers k c = bind_st (cn_encode_headers (headers c) c) k"

definition cn_encode_and_write_headers ::
    "'w deps \<Rightarrow> stream_id \<Rightarrow> headers_flags set \<Rightarrow> header list \<Rightarrow> 'w test_step" where
  "cn_encode_and_write_headers d sid flags headers =
     with_block (\<lambda>_. headers) (\<lambda>block. cn_write_headers d sid flags block)"

definition POST :: bytes where "POST = byte_str ''POST''"

definition cn_send_empty_post_to_root :: "'w deps \<Rightarrow> stream_id \<Rightarrow> 'w test_step" where
  "cn_send_empty_post_to_root d sid c =
     cn_encode_and_write_headers d sid {HeadersEndStream, HeadersEndHeaders} (common_headers c POST) c"

section \<open>Waiting for frames\<close>

datatype frame_wait_outcome =
  Success frame bytes
| Timeout "frame_t set" "frame option" nat
| Eof "frame_t set" "frame option"
| WaitIoError "frame_t set" "frame option" io_error

fun wait_loop ::
    "frame_t set \<Rightarrow> nat \<Rightarrow> bool \<Rightarrow> frame option \<Rightarrow> ev list \<Rightarrow> frame_wait_outcome \<times> ev list" where
  "wait_loop types timeout ended last_frame [] =
     (if ended then Eof types last_frame else Timeout types last_frame timeout, [])"
| "wait_loop types timeout ended last_frame (ev # evs) =
     (case ev of
        EvFrame frame payload \<Rightarrow>
          if frame_t_from (ftype frame) \<in> types then (Success frame payload, evs)
          else wait_loop types timeout ended (Some frame) evs
      | EvIoError error \<Rightarrow> (WaitIoError types last_frame error, evs))"

definition wait_for_frame :: "frame_t set \<Rightarrow> 'w conn \<Rightarrow> frame_wait_outcome \<times> 'w conn" where
  "wait_for_frame types c =
     (case wait_loop types (cf_timeout (cn_config c)) (ev_ended c) None (ev_rx c) of
        (out, evs) \<Rightarrow> (out, c\<lparr>ev_rx := evs\<rparr>))"

fun fwo_unwrap :: "frame_wait_outcome \<Rightarrow> (frame \<times> bytes, eyre) result" where
  "fwo_unwrap (Success frame payload) = Ok (frame, payload)"
| "fwo_unwrap _ = Panic"

text \<open>\<open>conn.wait_for_frame(types).await.unwrap()\<close>.\<close>

definition expect_frame :: "frame_t set \<Rightarrow> 'w conn \<Rightarrow> (frame \<times> bytes, eyre) result \<times> 'w conn" where
  "expect_frame types c = (case wait_for_frame types c of (out, c) \<Rightarrow> (fwo_unwrap out, c))"

section \<open>Judging what the server does\<close>

definition cn_verify_ping_frame_with_ack :: "bytes \<Rightarrow> 'w test_step" where
  "cn_verify_ping_frame_with_ack payload c =
     bind_st (expect_frame {TPing} c) (\<lambda>(frame, received_payload) c.
       if \<not> is_ack frame then (Panic, c)
       else if received_payload \<noteq> payload then (Panic, c)
       else (Ok (), c))"

definition cn_verify_connection_still_alive :: "'w deps \<Rightarrow> 'w test_step" where
  "cn_verify_connection_still_alive d =
     (let payload = byte_str ''pingpong'' in
      script [cn_write_ping d False payload, cn_verify_ping_frame_with_ack payload])"

definition cn_verify_settings_frame_with_ack :: "'w test_step" where
  "cn_verify_settings_frame_with_ack c =
     bind_st (expect_frame {TSettings} c) (\<lambda>(frame, _) c. assert_step (is_ack frame) c)"

definition cn_write_and_ack_settings :: "'w deps \<Rightarrow> (setting \<times> u32) list \<Rightarrow> 'w test_step" where
  "cn_write_and_ack_settings d pairs =
     script [cn_write_settings d pairs, cn_verify_settings_frame_with_ack]"

definition cn_handshake :: "'w deps \<Rightarrow> 'w test_step" where
  "cn_handshake d =
     script
       [cn_send d PREFACE,
        cn_write_settings d default_settings,
        (\<lambda>c. bind_st (expect_frame {TSettings} c) (\<lambda>(frame, payload) c.
          if is_ack frame then (Panic, c)
          else
            (case settings_parse payload settings_apply (cn_settings c) of
               (r, s) \<Rightarrow> (map_err ReportSettings r, c\<lparr>cn_settings := s\<rparr>)))),
        cn_write_frame d (frame_new (Settings {SettingsAck}) CONNECTION) (raw_piece []),
        (\<lambda>c. bind_st (expect_frame {TSettings} c) (\<lambda>(frame, _) c. assert_step (is_ack frame) c))]"

definition cn_judge_code :: "error_c set \<Rightarrow> error_code \<Rightarrow> (unit, eyre) result" where
  "cn_judge_code codes code =
     (case known_error_code_from_repr code of
        None \<Rightarrow> Err (Report ''unknown error code'')
      | Some known \<Rightarrow> if error_c_from known \<in> codes then Ok () else Err (Report ''another error code''))"

text \<open>\<open>GoAway::parse(payload).finish().unwrap()\<close>, and the same for RST_STREAM.\<close>

definition goaway_code :: "'w deps \<Rightarrow> bytes \<Rightarrow> (error_code, eyre) result" where
  "goaway_code d payload =
     (case go_away_parse (d_nom d) payload of Ok (_, goaway) \<Rightarrow> Ok (ga_error_code goaway) | _ \<Rightarrow> Panic)"

definition rst_stream_code :: "'w deps \<Rightarrow> bytes \<Rightarrow> (error_code, eyre) result" where
  "rst_stream_code d payload =
     (case rst_stream_parse (d_nom d) payload of Ok (_, rststream) \<Rightarrow> Ok (rst_error_code rststream) | _ \<Rightarrow> Panic)"

definition cn_verify_connection_error :: "'w deps \<Rightarrow> error_c set \<Rightarrow> 'w test_step" where
  "cn_verify_connection_error d codes c =
     (case wait_for_frame {TGoAway} c of (out, c) \<Rightarrow>
      (case out of
         Success _ payload \<Rightarrow> (and_then (goaway_code d payload) (cn_judge_code codes), c)
       | Timeout _ _ _ \<Rightarrow> (Err (Report ''timed out''), c)
       | Eof _ _ \<Rightarrow> (Ok (), c)
       | WaitIoError _ _ _ \<Rightarrow> (Ok (), c)))"

definition cn_verify_connection_close :: "'w test_step" where
  "cn_verify_connection_close c =
     (case wait_for_frame {TGoAway} c of (out, c) \<Rightarrow>
      (case out of
         Success _ _ \<Rightarrow> (Ok (), c)
       | Timeout _ _ _ \<Rightarrow> (Err (Report ''timed out''), c)
       | Eof _ _ \<Rightarrow> (Ok (), c)
       | WaitIoError _ _ _ \<Rightarrow> (Ok (), c)))"

definition cn_verify_stream_error :: "'w deps \<Rightarrow> error_c set \<Rightarrow> 'w test_step" where
  "cn_verify_stream_error d codes c =
     (case wait_for_frame {TGoAway, TRstStream} c of (out, c) \<Rightarrow>
      (case out of
         Success frame payload \<Rightarrow>
           (case ftype frame of
              GoAway \<Rightarrow> (and_then (goaway_code d payload) (cn_judge_code codes), c)
            | RstStream \<Rightarrow> (and_then (rst_stream_code d payload) (cn_judge_code codes), c)
            | _ \<Rightarrow> (Panic, c))
       | Timeout _ _ _ \<Rightarrow> (Err (Report ''timed out''), c)
       | Eof _ _ \<Rightarrow> (Ok (), c)
       | WaitIoError _ _ _ \<Rightarrow> (Ok (), c)))"

definition cn_verify_headers_frame :: "stream_id \<Rightarrow> 'w test_step" where
  "cn_verify_headers_frame sid c =
     bind_st (expect_frame {THeaders} c) (\<lambda>(frame, _) c. assert_step (fstream_id frame = sid) c)"

text \<open>The loop waits again, within the same deadline, until a frame ends the stream.\<close>

fun stream_close_loop ::
    "'w deps \<Rightarrow> stream_id \<Rightarrow> bool \<Rightarrow> ev list \<Rightarrow> (unit, eyre) result \<times> ev list" where
  "stream_close_loop d sid ended [] = (if ended then Ok () else Err (Report ''timed out''), [])"
| "stream_close_loop d sid ended (EvIoError e # evs) = (Ok (), evs)"
| "stream_close_loop d sid ended (EvFrame frame payload # evs) =
     (case ftype frame of
        Data flags \<Rightarrow>
          if DataEndStream \<in> flags then (if fstream_id frame = sid then Ok () else Panic, evs)
          else stream_close_loop d sid ended evs
      | Headers flags \<Rightarrow>
          if HeadersEndStream \<in> flags then (if fstream_id frame = sid then Ok () else Panic, evs)
          else stream_close_loop d sid ended evs
      | RstStream \<Rightarrow>
          (and_then (rst_stream_code d payload) (\<lambda>code.
             case known_error_code_from_repr code of
               None \<Rightarrow> Err (Report ''unknown error code'')
             | Some known \<Rightarrow> if known = NoError \<and> fstream_id frame = sid then Ok () else Panic), evs)
      | _ \<Rightarrow> stream_close_loop d sid ended evs)"

definition cn_verify_stream_close :: "'w deps \<Rightarrow> stream_id \<Rightarrow> 'w test_step" where
  "cn_verify_stream_close d sid c =
     (case stream_close_loop d sid (ev_ended c) (ev_rx c) of (r, evs) \<Rightarrow> (r, c\<lparr>ev_rx := evs\<rparr>))"

definition parse_u16 :: "bytes \<Rightarrow> nat option" where
  "parse_u16 s = (case parse_u64 s of Some n \<Rightarrow> if n < 2 ^ 16 then Some n else None | None \<Rightarrow> None)"

definition cn_send_req_and_expect_status ::
    "'w deps \<Rightarrow> stream_id \<Rightarrow> header list \<Rightarrow> nat \<Rightarrow> 'w test_step" where
  "cn_send_req_and_expect_status d sid headers expected_status =
     script
       [cn_encode_and_write_headers d sid {HeadersEndHeaders, HeadersEndStream} headers,
        (\<lambda>c. bind_st (expect_frame {THeaders} c) (\<lambda>(frame, payload) c.
          if \<not> is_end_headers frame then (Panic, c)
          else
            bind_st (cn_decode_headers payload c) (\<lambda>headers c.
              case hs_get_first headers (byte_str '':status'') of
                None \<Rightarrow> (Panic, c)
              | Some status \<Rightarrow>
                  if \<not> from_utf8 status then (Panic, c)
                  else
                    (case parse_u16 status of
                       None \<Rightarrow> (Panic, c)
                     | Some status \<Rightarrow> assert_step (status = expected_status) c))))]"

definition cn_send_req_and_expect_stream_rst :: "'w deps \<Rightarrow> stream_id \<Rightarrow> header list \<Rightarrow> 'w test_step" where
  "cn_send_req_and_expect_stream_rst d sid headers =
     script
       [cn_encode_and_write_headers d sid {HeadersEndHeaders, HeadersEndStream} headers,
        cn_verify_stream_error d {EProtocolError}]"

end
