(* ===== verification/Httpwg_Suite.thy ===== *)
theory Httpwg_Suite
  imports Httpwg_Conn
begin

text \<open>
  The tests of the conformance suite (\<open>crates/httpwg/src/rfc9113/\<close>), one definition per test, in the order of the
  files and with their names: what the client sends and what it demands of the server. \<open>Httpwg_Errors\<close>,
  \<open>Httpwg_Alive\<close> and \<open>Httpwg_Requests\<close> show which of the demands the server meets.
\<close>

abbreviation post_headers :: "'w conn \<Rightarrow> header list" where
  "post_headers c \<equiv> common_headers c POST"

section \<open>Section 3: starting HTTP/2\<close>

definition sends_client_connection_preface :: "'w deps \<Rightarrow> 'w test_step" where
  "sends_client_connection_preface d =
     script
       [cn_send d PREFACE,
        cn_write_settings d default_settings,
        (\<lambda>c. bind_st (expect_frame {TSettings} c) (\<lambda>(frame, _) c. assert_step (\<not> is_ack frame) c))]"

definition sends_invalid_connection_preface :: "'w deps \<Rightarrow> 'w test_step" where
  "sends_invalid_connection_preface d =
     script
       [cn_send d (byte_str ''INVALID CONNECTION PREFACE'' @ [13, 10, 13, 10]),
        cn_verify_connection_error d {EProtocolError}]"

section \<open>Section 4: HTTP frames\<close>

definition sends_frame_with_unknown_type :: "'w deps \<Rightarrow> 'w test_step" where
  "sends_frame_with_unknown_type d =
     script
       [cn_handshake d,
        cn_write_frame d (into_frame (Unknown \<lparr>eft_ty = 0xff, eft_flags = 0x0\<rparr>) 0) (raw_piece (dummy_bytes 8)),
        cn_verify_connection_still_alive d]"

definition sends_frame_with_unused_flags :: "'w deps \<Rightarrow> 'w test_step" where
  "sends_frame_with_unused_flags d =
     (let data = byte_str ''sfunflgs'' in
      script
       [cn_handshake d,
        cn_write_frame d (into_frame (Unknown \<lparr>eft_ty = 6, eft_flags = 0b1110\<rparr>) CONNECTION) (raw_piece data),
        cn_verify_ping_frame_with_ack data])"

definition sends_frame_with_reserved_bit_set :: "'w deps \<Rightarrow> 'w test_step" where
  "sends_frame_with_reserved_bit_set d =
     (let data = byte_str ''sfresbit'' in
      script
       [cn_handshake d,
        cn_write_frame d \<lparr>ftype = Ping {}, reserved = 1, fstream_id = 0, flen = 0\<rparr> (raw_piece data),
        cn_verify_ping_frame_with_ack data])"

definition data_frame_with_max_length :: "'w deps \<Rightarrow> 'w test_step" where
  "data_frame_with_max_length d =
     script
       [cn_handshake d,
        with_block post_headers (\<lambda>block. cn_write_headers d 1 {HeadersEndHeaders} block),
        (\<lambda>c. cn_write_data d 1 True (dummy_bytes (unat (max_frame_size (cn_settings c)))) c),
        cn_verify_headers_frame 1]"

definition frame_exceeding_max_size :: "'w deps \<Rightarrow> 'w test_step" where
  "frame_exceeding_max_size d =
     script
       [cn_handshake d,
        with_block post_headers (\<lambda>block. cn_write_headers d 1 {HeadersEndHeaders} block),
        ignoring (\<lambda>c. cn_write_data d 1 True (dummy_bytes (unat (max_frame_size (cn_settings c)) + 1)) c),
        cn_verify_stream_error d {EFrameSizeError}]"

definition large_headers_frame_exceeding_max_size :: "'w deps \<Rightarrow> 'w test_step" where
  "large_headers_frame_exceeding_max_size d =
     script
       [cn_handshake d,
        with_block (\<lambda>c. hs_extend (post_headers c) (dummy_headers c 5)) (\<lambda>block.
          script
            [(\<lambda>c. assert_step (unat (max_frame_size (cn_settings c)) < length block) c),
             ignoring (cn_write_headers d 1 {HeadersEndHeaders} block)]),
        cn_verify_connection_error d {EFrameSizeError}]"

definition invalid_header_block_fragment :: "'w deps \<Rightarrow> 'w test_step" where
  "invalid_header_block_fragment d =
     script
       [cn_handshake d,
        cn_write_frame d (into_frame (Headers {HeadersEndStream, HeadersEndHeaders}) 1) (raw_piece [0x40]),
        cn_verify_connection_error d {ECompressionError}]"

definition priority_frame_while_sending_headers :: "'w deps \<Rightarrow> 'w test_step" where
  "priority_frame_while_sending_headers d =
     script
       [cn_handshake d,
        with_block post_headers (\<lambda>block. cn_write_headers d 1 {HeadersEndHeaders} block),
        cn_write_priority d 1 \<lparr>exclusive = False, stream_dependency = 0, weight = 255\<rparr>,
        with_block (\<lambda>c. dummy_headers c 1)
          (\<lambda>block. ignoring (cn_write_continuation d 1 {ContinuationEndHeaders} block)),
        cn_verify_connection_error d {EProtocolError}]"

definition headers_frame_to_another_stream :: "'w deps \<Rightarrow> 'w test_step" where
  "headers_frame_to_another_stream d =
     script
       [cn_handshake d,
        with_block post_headers (\<lambda>block. cn_write_headers d 1 {} block),
        with_block post_headers (\<lambda>block. cn_write_headers d (1 + 2) {HeadersEndHeaders} block),
        with_block (\<lambda>c. dummy_headers c 1)
          (\<lambda>block. ignoring (cn_write_continuation d 1 {ContinuationEndHeaders} block)),
        cn_verify_connection_error d {EProtocolError}]"

section \<open>Section 5: streams and multiplexing\<close>

definition idle_sends_data_frame :: "'w deps \<Rightarrow> 'w test_step" where
  "idle_sends_data_frame d =
     script
       [cn_handshake d,
        cn_write_data d 1 True (byte_str ''test''),
        cn_verify_stream_error d {EProtocolError, EStreamClosed}]"

definition idle_sends_rst_stream_frame :: "'w deps \<Rightarrow> (error_c \<Rightarrow> u16) \<Rightarrow> 'w test_step" where
  "idle_sends_rst_stream_frame d eb =
     script
       [cn_handshake d,
        cn_write_rst_stream d 1 (error_code_from_error_c eb ECancel),
        cn_verify_connection_error d {EProtocolError}]"

definition idle_sends_window_update_frame :: "'w deps \<Rightarrow> 'w test_step" where
  "idle_sends_window_update_frame d =
     script
       [cn_handshake d,
        cn_write_window_update d 1 100,
        cn_verify_connection_error d {EProtocolError}]"

definition idle_sends_continuation_frame :: "'w deps \<Rightarrow> 'w test_step" where
  "idle_sends_continuation_frame d =
     script
       [cn_handshake d,
        with_block post_headers (\<lambda>block. cn_write_continuation d 1 {ContinuationEndHeaders} block),
        cn_verify_connection_error d {EProtocolError}]"

definition half_closed_remote_sends_data_frame :: "'w deps \<Rightarrow> 'w test_step" where
  "half_closed_remote_sends_data_frame d =
     script
       [cn_handshake d,
        cn_send_empty_post_to_root d 1,
        cn_write_data d 1 True (byte_str ''test''),
        cn_verify_stream_error d {EStreamClosed}]"

definition half_closed_remote_sends_headers_frame :: "'w deps \<Rightarrow> 'w test_step" where
  "half_closed_remote_sends_headers_frame d =
     script
       [cn_handshake d,
        cn_send_empty_post_to_root d 1,
        cn_send_empty_post_to_root d 1,
        cn_verify_stream_error d {EStreamClosed}]"

definition half_closed_remote_sends_continuation_frame :: "'w deps \<Rightarrow> 'w test_step" where
  "half_closed_remote_sends_continuation_frame d =
     script
       [cn_handshake d,
        cn_send_empty_post_to_root d 1,
        with_block post_headers (\<lambda>block. cn_write_continuation d 1 {ContinuationEndHeaders} block),
        cn_verify_stream_error d {EStreamClosed, EProtocolError}]"

definition closed_sends_data_frame_after_rst_stream :: "'w deps \<Rightarrow> (error_c \<Rightarrow> u16) \<Rightarrow> 'w test_step" where
  "closed_sends_data_frame_after_rst_stream d eb =
     script
       [cn_handshake d,
        with_block post_headers (\<lambda>block. cn_write_headers d 1 {HeadersEndHeaders} block),
        cn_write_rst_stream d 1 (error_code_from_error_c eb ECancel),
        cn_write_data d 1 True (byte_str ''test''),
        cn_verify_stream_error d {EStreamClosed}]"

definition closed_sends_headers_frame_after_rst_stream :: "'w deps \<Rightarrow> (error_c \<Rightarrow> u16) \<Rightarrow> 'w test_step" where
  "closed_sends_headers_frame_after_rst_stream d eb =
     script
       [cn_handshake d,
        with_block post_headers (\<lambda>block. cn_write_headers d 1 {HeadersEndHeaders} block),
        cn_write_rst_stream d 1 (error_code_from_error_c eb ECancel),
        cn_send_empty_post_to_root d 1,
        cn_verify_stream_error d {EStreamClosed}]"

definition closed_sends_continuation_frame_after_rst_stream :: "'w deps \<Rightarrow> (error_c \<Rightarrow> u16) \<Rightarrow> 'w test_step" where
  "closed_sends_continuation_frame_after_rst_stream d eb =
     script
       [cn_handshake d,
        with_block post_headers (\<lambda>block. cn_write_headers d 1 {HeadersEndHeaders} block),
        cn_write_rst_stream d 1 (error_code_from_error_c eb ECancel),
        with_block (\<lambda>c. dummy_headers c 1)
          (\<lambda>block. cn_write_continuation d 1 {ContinuationEndHeaders} block),
        cn_verify_stream_error d {EStreamClosed, EProtocolError}]"

definition closed_sends_data_frame :: "'w deps \<Rightarrow> 'w test_step" where
  "closed_sends_data_frame d =
     script
       [cn_handshake d,
        cn_send_empty_post_to_root d 1,
        cn_verify_stream_close d 1,
        cn_write_data d 1 True (byte_str ''test''),
        cn_verify_stream_error d {EStreamClosed}]"

definition closed_sends_headers_frame :: "'w deps \<Rightarrow> 'w test_step" where
  "closed_sends_headers_frame d =
     script
       [cn_handshake d,
        cn_send_empty_post_to_root d 1,
        cn_verify_stream_close d 1,
        cn_send_empty_post_to_root d 1,
        cn_verify_connection_error d {EStreamClosed}]"

definition closed_sends_continuation_frame :: "'w deps \<Rightarrow> 'w test_step" where
  "closed_sends_continuation_frame d =
     script
       [cn_handshake d,
        cn_send_empty_post_to_root d 1,
        cn_verify_stream_close d 1,
        with_block (\<lambda>c. dummy_headers c 1)
          (\<lambda>block. cn_write_continuation d 1 {ContinuationEndHeaders} block),
        cn_verify_connection_error d {EStreamClosed, EProtocolError}]"

definition sends_even_numbered_stream_identifier :: "'w deps \<Rightarrow> 'w test_step" where
  "sends_even_numbered_stream_identifier d =
     script
       [cn_handshake d,
        cn_send_empty_post_to_root d 2,
        cn_verify_connection_error d {EProtocolError}]"

definition sends_smaller_stream_identifier :: "'w deps \<Rightarrow> 'w test_step" where
  "sends_smaller_stream_identifier d =
     script
       [cn_handshake d,
        cn_send_empty_post_to_root d 5,
        cn_send_empty_post_to_root d 3,
        cn_verify_connection_error d {EProtocolError}]"

text \<open>The loop over the stream identifiers; \<open>1 + i * 2\<close> overflows for a limit above \<open>2 ^ 31 - 1\<close>.\<close>

definition exceeds_concurrent_stream_limit :: "'w deps \<Rightarrow> 'w test_step" where
  "exceeds_concurrent_stream_limit d =
     script
       [cn_handshake d,
        (\<lambda>c. case max_concurrent_streams (cn_settings c) of
           None \<Rightarrow> (Ok (), c)
         | Some limit \<Rightarrow>
             script
               ([cn_write_settings d [(InitialWindowSize, 0)]] @
                map (\<lambda>i. if 1 + i * 2 < 2 ^ 32 then cn_send_empty_post_to_root d (of_nat (1 + i * 2))
                         else (\<lambda>c. (Panic, c))) [0..<unat limit + 1] @
                [cn_verify_stream_error d {EProtocolError, ERefusedStream}]) c)]"

definition invalid_ping_frame_for_connection_close :: "'w deps \<Rightarrow> 'w test_step" where
  "invalid_ping_frame_for_connection_close d =
     script
       [cn_handshake d,
        cn_write_frame d (into_frame (Ping {}) 3) (raw_piece (dummy_bytes 8)),
        cn_verify_connection_close]"

definition test_invalid_ping_frame_for_goaway :: "'w deps \<Rightarrow> 'w test_step" where
  "test_invalid_ping_frame_for_goaway d =
     script
       [cn_handshake d,
        cn_write_frame d (into_frame (Ping {}) 3) (raw_piece (dummy_bytes 8)),
        cn_verify_connection_error d {EProtocolError}]"

definition unknown_extension_frame_in_header_block :: "'w deps \<Rightarrow> 'w test_step" where
  "unknown_extension_frame_in_header_block d =
     script
       [cn_handshake d,
        with_block post_headers (\<lambda>block. cn_write_headers d 1 {HeadersEndStream} block),
        cn_write_frame d (into_frame (Unknown \<lparr>eft_ty = 0xff, eft_flags = 0x0\<rparr>) 1) (raw_piece (dummy_bytes 8)),
        cn_verify_connection_error d {EProtocolError}]"

section \<open>Section 6: frame definitions\<close>

subsection \<open>DATA\<close>

definition sends_data_frame_with_zero_stream_id :: "'w deps \<Rightarrow> 'w test_step" where
  "sends_data_frame_with_zero_stream_id d =
     script
       [cn_handshake d,
        cn_write_data d CONNECTION True (byte_str ''test''),
        cn_verify_connection_error d {EProtocolError}]"

definition sends_data_frame_on_invalid_stream_state :: "'w deps \<Rightarrow> 'w test_step" where
  "sends_data_frame_on_invalid_stream_state d =
     script
       [cn_handshake d,
        with_block post_headers (\<lambda>block. cn_write_headers d 1 {HeadersEndStream, HeadersEndHeaders} block),
        cn_write_data d 1 True (byte_str ''test''),
        cn_verify_stream_error d {EStreamClosed}]"

definition sends_data_frame_with_invalid_pad_length :: "'w deps \<Rightarrow> 'w test_step" where
  "sends_data_frame_with_invalid_pad_length d =
     script
       [cn_handshake d,
        with_block (\<lambda>c. hs_append (post_headers c) (byte_str ''content-length'') (byte_str ''4''))
          (\<lambda>block. cn_write_headers d 1 {HeadersEndHeaders} block),
        cn_send d [0x00, 0x00, 0x05, 0x00, 0x09, 0x00, 0x00, 0x00, 0x01],
        cn_send d [0x06, 0x54, 0x65, 0x73, 0x74],
        cn_verify_connection_error d {EProtocolError}]"

subsection \<open>HEADERS, PRIORITY, RST_STREAM\<close>

definition sends_headers_frame_with_zero_stream_id :: "'w deps \<Rightarrow> 'w test_step" where
  "sends_headers_frame_with_zero_stream_id d =
     script
       [cn_handshake d,
        with_block post_headers
          (\<lambda>block. cn_write_headers d CONNECTION {HeadersEndStream, HeadersEndHeaders} block),
        cn_verify_connection_error d {EProtocolError}]"

definition sends_headers_frame_with_invalid_pad_length :: "'w deps \<Rightarrow> 'w test_step" where
  "sends_headers_frame_with_invalid_pad_length d =
     script
       [cn_handshake d,
        with_block post_headers (\<lambda>block c.
          bind_st (cn_frame_piece d (with_len (frame_new (Headers {HeadersPadded, HeadersEndHeaders, HeadersEndStream}) 1)
              (of_nat (length block + 1))) c) (\<lambda>frame_header.
            script
              [cn_send d frame_header,
               cn_send d [of_nat (length block + 2)],
               cn_send d block])),
        cn_verify_connection_error d {EProtocolError}]"

definition sends_priority_frame_with_zero_stream_id :: "'w deps \<Rightarrow> 'w test_step" where
  "sends_priority_frame_with_zero_stream_id d =
     script
       [cn_handshake d,
        cn_write_priority d CONNECTION \<lparr>exclusive = False, stream_dependency = CONNECTION, weight = 255\<rparr>,
        cn_verify_connection_error d {EProtocolError}]"

definition sends_priority_frame_with_invalid_length :: "'w deps \<Rightarrow> 'w test_step" where
  "sends_priority_frame_with_invalid_length d =
     script
       [cn_handshake d,
        with_block post_headers (\<lambda>block. cn_write_headers d 1 {HeadersEndStream, HeadersEndHeaders} block),
        cn_write_frame d (frame_new Priority 1) (raw_piece [0x80, 0x00, 0x00, 0x01]),
        cn_verify_stream_error d {EFrameSizeError}]"

definition sends_rst_stream_frame_with_zero_stream_id :: "'w deps \<Rightarrow> (error_c \<Rightarrow> u16) \<Rightarrow> 'w test_step" where
  "sends_rst_stream_frame_with_zero_stream_id d eb =
     script
       [cn_handshake d,
        cn_write_rst_stream d CONNECTION (error_code_from_error_c eb ECancel),
        cn_verify_connection_error d {EProtocolError}]"

definition sends_rst_stream_frame_on_idle_stream :: "'w deps \<Rightarrow> (error_c \<Rightarrow> u16) \<Rightarrow> 'w test_step" where
  "sends_rst_stream_frame_on_idle_stream d eb =
     script
       [cn_handshake d,
        cn_write_rst_stream d 1 (error_code_from_error_c eb ECancel),
        cn_verify_connection_error d {EProtocolError}]"

definition sends_rst_stream_frame_with_invalid_length :: "'w deps \<Rightarrow> 'w test_step" where
  "sends_rst_stream_frame_with_invalid_length d =
     script
       [cn_handshake d,
        with_block post_headers (\<lambda>block. cn_write_headers d 1 {HeadersEndStream, HeadersEndHeaders} block),
        (\<lambda>c. bind_st (cn_frame_piece d (with_len (frame_new RstStream 1) 3) c) (\<lambda>frame_header.
          script [cn_send d frame_header, cn_send d [0x00, 0x00, 0x00]])),
        cn_verify_stream_error d {EFrameSizeError}]"

subsection \<open>SETTINGS\<close>

definition sends_settings_frame_with_ack_and_payload :: "'w deps \<Rightarrow> 'w test_step" where
  "sends_settings_frame_with_ack_and_payload d =
     script
       [cn_handshake d,
        cn_write_frame d (frame_new (Settings {SettingsAck}) CONNECTION) (raw_piece [0x00]),
        cn_verify_connection_error d {EFrameSizeError}]"

definition sends_settings_frame_with_non_zero_stream_id :: "'w deps \<Rightarrow> 'w test_step" where
  "sends_settings_frame_with_non_zero_stream_id d =
     script
       [cn_handshake d,
        cn_write_frame d (with_len (frame_new (Settings {}) 1) 6) (settings_piece d [(MaxConcurrentStreams, 0x64)]),
        cn_verify_connection_error d {EProtocolError}]"

definition sends_settings_frame_with_invalid_length :: "'w deps \<Rightarrow> 'w test_step" where
  "sends_settings_frame_with_invalid_length d =
     script
       [cn_handshake d,
        cn_write_frame d (frame_new (Settings {}) CONNECTION) (raw_piece [0x00, 0x03, 0x00]),
        cn_verify_connection_error d {EFrameSizeError}]"

definition sends_settings_enable_push_with_invalid_value :: "'w deps \<Rightarrow> 'w test_step" where
  "sends_settings_enable_push_with_invalid_value d =
     script
       [cn_handshake d,
        cn_write_settings d [(EnablePush, 2)],
        cn_verify_connection_error d {EProtocolError}]"

definition sends_settings_initial_window_size_with_invalid_value :: "'w deps \<Rightarrow> 'w test_step" where
  "sends_settings_initial_window_size_with_invalid_value d =
     script
       [cn_handshake d,
        cn_write_settings d [(InitialWindowSize, 2 ^ 31)],
        cn_verify_connection_error d {EFlowControlError}]"

definition sends_settings_max_frame_size_with_invalid_value_below_initial :: "'w deps \<Rightarrow> 'w test_step" where
  "sends_settings_max_frame_size_with_invalid_value_below_initial d =
     script
       [cn_handshake d,
        cn_write_settings d [(MaxFrameSize, 2 ^ 14 - 1)],
        cn_verify_connection_error d {EProtocolError}]"

definition sends_settings_max_frame_size_with_invalid_value_above_max :: "'w deps \<Rightarrow> 'w test_step" where
  "sends_settings_max_frame_size_with_invalid_value_above_max d =
     script
       [cn_handshake d,
        cn_write_settings d [(MaxFrameSize, 2 ^ 24)],
        cn_verify_connection_error d {EProtocolError}]"

definition sends_settings_frame_with_unknown_identifier :: "'w deps \<Rightarrow> 'w test_step" where
  "sends_settings_frame_with_unknown_identifier d =
     script
       [cn_handshake d,
        cn_write_frame d (with_len (frame_new (Settings {}) CONNECTION) 6)
          (raw_piece [0x00, 0xff, 0x00, 0x00, 0x00, 0x00]),
        cn_verify_connection_still_alive d]"

text \<open>\<open>let (frame, _) = conn.wait_for_frame(FrameT::Data).await.unwrap(); assert_eq!(frame.len, n);\<close>\<close>

definition expect_data_len :: "u32 \<Rightarrow> 'w test_step" where
  "expect_data_len n c =
     bind_st (expect_frame {TData} c) (\<lambda>(frame, _) c. assert_step (flen frame = n) c)"

definition sends_multiple_values_of_settings_initial_window_size :: "'w deps \<Rightarrow> 'w test_step" where
  "sends_multiple_values_of_settings_initial_window_size d =
     script
       [cn_handshake d,
        cn_write_frame d (frame_new (Settings {}) CONNECTION)
          (settings_piece d [(InitialWindowSize, 100), (InitialWindowSize, 1)]),
        cn_verify_settings_frame_with_ack,
        with_block post_headers (\<lambda>block. cn_write_headers d 1 {HeadersEndStream, HeadersEndHeaders} block),
        expect_data_len 1]"

definition sends_settings_frame_without_ack_flag :: "'w deps \<Rightarrow> 'w test_step" where
  "sends_settings_frame_without_ack_flag d =
     script
       [cn_handshake d,
        cn_write_frame d (frame_new (Settings {}) CONNECTION) (settings_piece d [(EnablePush, 0)]),
        cn_verify_settings_frame_with_ack]"

subsection \<open>PING, GOAWAY\<close>

definition sends_ping_frame :: "'w deps \<Rightarrow> 'w test_step" where
  "sends_ping_frame d =
     (let data = byte_str ''h2spec'' @ [0, 0] in
      script [cn_handshake d, cn_write_ping d False data, cn_verify_ping_frame_with_ack data])"

definition sends_ping_frame_with_ack :: "'w deps \<Rightarrow> 'w test_step" where
  "sends_ping_frame_with_ack d =
     (let unexpected_data = byte_str ''invalid'' @ [0]; expected_data = byte_str ''h2spec'' @ [0, 0] in
      script
       [cn_handshake d,
        cn_write_ping d True unexpected_data,
        cn_write_ping d False expected_data,
        cn_verify_ping_frame_with_ack expected_data])"

definition sends_ping_frame_with_non_zero_stream_id :: "'w deps \<Rightarrow> 'w test_step" where
  "sends_ping_frame_with_non_zero_stream_id d =
     script
       [cn_handshake d,
        cn_write_frame d (frame_new (Ping {}) 1) (raw_piece (dummy_bytes 8)),
        cn_verify_connection_error d {EProtocolError}]"

definition sends_ping_frame_with_invalid_length :: "'w deps \<Rightarrow> 'w test_step" where
  "sends_ping_frame_with_invalid_length d =
     script
       [cn_handshake d,
        cn_write_frame d (frame_new (Ping {}) CONNECTION) (raw_piece (dummy_bytes 6)),
        cn_verify_connection_error d {EFrameSizeError}]"

definition sends_goaway_frame_with_non_zero_stream_id :: "'w deps \<Rightarrow> 'w test_step" where
  "sends_goaway_frame_with_non_zero_stream_id d =
     script
       [cn_handshake d,
        cn_write_frame d (frame_new GoAway 1)
          (go_away_piece d \<lparr>go_away.last_stream_id = 0, ga_error_code = known_error_code_repr NoError,
             additional_debug_data = []\<rparr>),
        cn_verify_connection_error d {EProtocolError}]"

subsection \<open>WINDOW_UPDATE\<close>

definition sends_window_update_frame_with_zero_increment :: "'w deps \<Rightarrow> 'w test_step" where
  "sends_window_update_frame_with_zero_increment d =
     script
       [cn_handshake d,
        cn_write_window_update d CONNECTION 0,
        cn_verify_connection_error d {EProtocolError}]"

definition sends_window_update_frame_with_zero_increment_on_stream :: "'w deps \<Rightarrow> 'w test_step" where
  "sends_window_update_frame_with_zero_increment_on_stream d =
     script
       [cn_handshake d,
        with_block (\<lambda>c. hs_append (post_headers c) (byte_str '':method'') (byte_str ''POST''))
          (\<lambda>block. cn_write_headers d 1 {HeadersEndHeaders} block),
        cn_write_window_update d 1 0,
        cn_verify_stream_error d {EProtocolError}]"

definition sends_window_update_frame_with_invalid_length :: "'w deps \<Rightarrow> 'w test_step" where
  "sends_window_update_frame_with_invalid_length d =
     script
       [cn_handshake d,
        cn_write_frame d (frame_new WindowUpdate CONNECTION) (raw_piece [0x00, 0x00, 0x01]),
        cn_verify_connection_error d {EFrameSizeError}]"

definition sends_settings_frame_to_set_initial_window_size_to_1_and_sends_headers_frame :: "'w deps \<Rightarrow> 'w test_step" where
  "sends_settings_frame_to_set_initial_window_size_to_1_and_sends_headers_frame d =
     script
       [cn_handshake d,
        cn_write_and_ack_settings d [(InitialWindowSize, 1)],
        (\<lambda>c. cn_encode_and_write_headers d 1 {HeadersEndStream, HeadersEndHeaders} (post_headers c) c),
        expect_data_len 1]"

definition sends_multiple_window_update_frames_increasing_flow_control_window_above_max :: "'w deps \<Rightarrow> 'w test_step" where
  "sends_multiple_window_update_frames_increasing_flow_control_window_above_max d =
     script
       [cn_handshake d,
        cn_write_window_update d CONNECTION (2 ^ 31 - 1),
        cn_write_window_update d CONNECTION (2 ^ 31 - 1),
        cn_verify_connection_error d {EFlowControlError}]"

definition sends_multiple_window_update_frames_increasing_flow_control_window_above_max_on_stream :: "'w deps \<Rightarrow> 'w test_step" where
  "sends_multiple_window_update_frames_increasing_flow_control_window_above_max_on_stream d =
     script
       [cn_handshake d,
        (\<lambda>c. cn_encode_and_write_headers d 1 {HeadersEndHeaders} (post_headers c) c),
        cn_write_window_update d 1 (2 ^ 31 - 1),
        ignoring (cn_write_window_update d 1 (2 ^ 31 - 1)),
        cn_verify_stream_error d {EFlowControlError}]"

definition changes_settings_initial_window_size_after_sending_headers_frame :: "'w deps \<Rightarrow> 'w test_step" where
  "changes_settings_initial_window_size_after_sending_headers_frame d =
     script
       [cn_handshake d,
        cn_write_and_ack_settings d [(InitialWindowSize, 0)],
        (\<lambda>c. cn_encode_and_write_headers d 1 {HeadersEndStream, HeadersEndHeaders} (post_headers c) c),
        cn_write_settings d [(InitialWindowSize, 1)],
        expect_data_len 1]"

definition sends_settings_frame_for_window_size_to_be_negative :: "'w deps \<Rightarrow> 'w test_step" where
  "sends_settings_frame_for_window_size_to_be_negative d =
     script
       [cn_handshake d,
        cn_write_and_ack_settings d [(InitialWindowSize, 3)],
        cn_send_empty_post_to_root d 1,
        (\<lambda>c. bind_st (expect_frame {TData} c) (\<lambda>(_, payload) c. assert_step (length payload = 3) c)),
        cn_write_and_ack_settings d [(InitialWindowSize, 2)],
        cn_write_window_update d 1 2,
        expect_data_len 1]"

definition sends_settings_initial_window_size_with_exceeded_max_window_size_value :: "'w deps \<Rightarrow> 'w test_step" where
  "sends_settings_initial_window_size_with_exceeded_max_window_size_value d =
     script
       [cn_handshake d,
        cn_write_settings d [(InitialWindowSize, 2 ^ 31)],
        cn_verify_connection_error d {EFlowControlError}]"

subsection \<open>CONTINUATION\<close>

definition sends_multiple_continuation_frames_preceded_by_headers_frame :: "'w deps \<Rightarrow> 'w test_step" where
  "sends_multiple_continuation_frames_preceded_by_headers_frame d =
     script
       [cn_handshake d,
        with_block post_headers (\<lambda>block. cn_write_headers d 1 {HeadersEndStream} block),
        with_block (\<lambda>c. dummy_headers c 1) (\<lambda>block. cn_write_continuation d 1 {} block),
        with_block (\<lambda>c. dummy_headers c 1) (\<lambda>block. cn_write_continuation d 1 {ContinuationEndHeaders} block),
        cn_verify_headers_frame 1]"

definition sends_continuation_frame_followed_by_non_continuation_frame :: "'w deps \<Rightarrow> 'w test_step" where
  "sends_continuation_frame_followed_by_non_continuation_frame d =
     script
       [cn_handshake d,
        with_block post_headers (\<lambda>block. cn_write_headers d 1 {HeadersEndStream} block),
        with_block (\<lambda>c. dummy_headers c 1) (\<lambda>block. cn_write_continuation d 1 {} block),
        cn_write_data d 1 True (byte_str ''test''),
        cn_verify_connection_error d {EProtocolError}]"

definition sends_continuation_frame_with_zero_stream_id :: "'w deps \<Rightarrow> 'w test_step" where
  "sends_continuation_frame_with_zero_stream_id d =
     script
       [cn_handshake d,
        with_block post_headers (\<lambda>block. cn_write_headers d 1 {HeadersEndStream} block),
        with_block (\<lambda>c. dummy_headers c 1)
          (\<lambda>block. cn_write_continuation d CONNECTION {ContinuationEndHeaders} block),
        cn_verify_connection_error d {EProtocolError}]"

definition sends_continuation_frame_preceded_by_headers_frame_with_end_headers_flag :: "'w deps \<Rightarrow> 'w test_step" where
  "sends_continuation_frame_preceded_by_headers_frame_with_end_headers_flag d =
     script
       [cn_handshake d,
        with_block post_headers (\<lambda>block. cn_write_headers d 1 {HeadersEndStream, HeadersEndHeaders} block),
        with_block (\<lambda>c. dummy_headers c 1) (\<lambda>block. cn_write_continuation d 1 {ContinuationEndHeaders} block),
        cn_verify_connection_error d {EProtocolError}]"

definition sends_continuation_frame_preceded_by_continuation_frame_with_end_headers_flag :: "'w deps \<Rightarrow> 'w test_step" where
  "sends_continuation_frame_preceded_by_continuation_frame_with_end_headers_flag d =
     script
       [cn_handshake d,
        with_block post_headers (\<lambda>block. cn_write_headers d 1 {HeadersEndStream} block),
        with_block (\<lambda>c. dummy_headers c 1) (\<lambda>block. cn_write_continuation d 1 {ContinuationEndHeaders} block),
        with_block (\<lambda>c. dummy_headers c 1) (\<lambda>block. cn_write_continuation d 1 {ContinuationEndHeaders} block),
        cn_verify_connection_error d {EProtocolError}]"

definition sends_continuation_frame_preceded_by_data_frame :: "'w deps \<Rightarrow> 'w test_step" where
  "sends_continuation_frame_preceded_by_data_frame d =
     script
       [cn_handshake d,
        with_block post_headers (\<lambda>block. cn_write_headers d 1 {HeadersEndStream} block),
        cn_write_data d 1 True (byte_str ''test''),
        with_block (\<lambda>c. dummy_headers c 1) (\<lambda>block. ignoring (cn_write_continuation d 1 {} block)),
        cn_verify_connection_error d {EProtocolError}]"

section \<open>Section 7: error codes\<close>

definition sends_goaway_frame_with_unknown_error_code :: "'w deps \<Rightarrow> 'w test_step" where
  "sends_goaway_frame_with_unknown_error_code d =
     script
       [cn_handshake d,
        cn_write_frame d (into_frame GoAway CONNECTION)
          (go_away_piece d \<lparr>go_away.last_stream_id = 0, ga_error_code = 0xff, additional_debug_data = []\<rparr>),
        cn_verify_connection_still_alive d]"

definition sends_rst_stream_frame_with_unknown_error_code :: "'w deps \<Rightarrow> 'w test_step" where
  "sends_rst_stream_frame_with_unknown_error_code d =
     script
       [cn_handshake d,
        with_block post_headers (\<lambda>block. cn_write_headers d 1 {HeadersEndHeaders} block),
        cn_write_rst_stream d 1 0xff,
        cn_verify_connection_still_alive d]"

section \<open>Section 8: HTTP semantics\<close>

definition sends_second_headers_frame_without_end_stream :: "'w deps \<Rightarrow> 'w test_step" where
  "sends_second_headers_frame_without_end_stream d =
     script
       [cn_handshake d,
        with_block post_headers (\<lambda>block. cn_write_headers d 1 {HeadersEndHeaders} block),
        cn_write_data d 1 False (byte_str ''test''),
        with_block (\<lambda>_. hs_append [] (byte_str ''x-test'') (byte_str ''ok''))
          (\<lambda>block. cn_write_headers d 1 {HeadersEndHeaders} block),
        cn_verify_stream_error d {EProtocolError}]"

definition sends_headers_frame_with_incorrect_content_length_single_data_frame :: "'w deps \<Rightarrow> 'w test_step" where
  "sends_headers_frame_with_incorrect_content_length_single_data_frame d =
     script
       [cn_handshake d,
        with_block (\<lambda>c. hs_append (post_headers c) (byte_str ''content-length'') (byte_str ''10''))
          (\<lambda>block. cn_write_headers d 1 {HeadersEndHeaders} block),
        cn_write_data d 1 True (byte_str ''test''),
        cn_verify_stream_error d {EProtocolError}]"

definition sends_headers_frame_with_incorrect_content_length_multiple_data_frames :: "'w deps \<Rightarrow> 'w test_step" where
  "sends_headers_frame_with_incorrect_content_length_multiple_data_frames d =
     script
       [cn_handshake d,
        with_block (\<lambda>c. hs_append (post_headers c) (byte_str ''content-length'') (byte_str ''10''))
          (\<lambda>block. cn_write_headers d 1 {HeadersEndHeaders} block),
        cn_write_data d 1 False (byte_str ''te''),
        cn_write_data d 1 False (byte_str ''st''),
        cn_write_data d 1 True (byte_str ''ing''),
        cn_verify_stream_error d {EProtocolError}]"

text \<open>Most tests of this section send one request with the headers that a function makes of the connection, and
  expect the stream to be reset.\<close>

definition rejected_request :: "'w deps \<Rightarrow> ('w conn \<Rightarrow> header list) \<Rightarrow> 'w test_step" where
  "rejected_request d headers =
     script [cn_handshake d, (\<lambda>c. cn_send_req_and_expect_stream_rst d 1 (headers c) c)]"

definition sends_headers_frame_with_uppercase_field_name :: "'w deps \<Rightarrow> 'w test_step" where
  "sends_headers_frame_with_uppercase_field_name d =
     rejected_request d (\<lambda>c. hs_append (post_headers c) (byte_str ''UPPERCASE'') (byte_str ''oh no''))"

definition sends_headers_frame_with_space_in_field_name :: "'w deps \<Rightarrow> 'w test_step" where
  "sends_headers_frame_with_space_in_field_name d =
     rejected_request d (\<lambda>c. hs_append (post_headers c) (byte_str ''space force'') (byte_str ''oh no''))"

definition sends_headers_frame_with_non_visible_ascii :: "'w deps \<Rightarrow> 'w test_step" where
  "sends_headers_frame_with_non_visible_ascii d =
     rejected_request d (\<lambda>c. hs_append (post_headers c) ([0x01] @ byte_str ''invalid'') (byte_str ''oh no''))"

definition sends_headers_frame_with_del_character :: "'w deps \<Rightarrow> 'w test_step" where
  "sends_headers_frame_with_del_character d =
     rejected_request d (\<lambda>c. hs_append (post_headers c) ([0x7F] @ byte_str ''invalid'') (byte_str ''oh no''))"

definition sends_headers_frame_with_non_ascii_character :: "'w deps \<Rightarrow> 'w test_step" where
  "sends_headers_frame_with_non_ascii_character d =
     rejected_request d (\<lambda>c. hs_append (post_headers c) (byte_str ''inv'' @ [0xC3, 0xA1] @ byte_str ''lid'') (byte_str ''oh no''))"

definition sends_headers_frame_with_colon_in_field_name :: "'w deps \<Rightarrow> 'w test_step" where
  "sends_headers_frame_with_colon_in_field_name d =
     rejected_request d (\<lambda>c. hs_append (post_headers c) (byte_str ''invalid:field'') (byte_str ''oh no''))"

definition sends_headers_frame_with_lf_in_field_value :: "'w deps \<Rightarrow> 'w test_step" where
  "sends_headers_frame_with_lf_in_field_value d =
     rejected_request d (\<lambda>c. hs_append (post_headers c) (byte_str ''invalid-value'') (byte_str ''oh'' @ [10] @ byte_str ''no''))"

definition sends_headers_frame_with_cr_in_field_value :: "'w deps \<Rightarrow> 'w test_step" where
  "sends_headers_frame_with_cr_in_field_value d =
     rejected_request d (\<lambda>c. hs_append (post_headers c) (byte_str ''invalid-value'') (byte_str ''oh'' @ [13] @ byte_str ''no''))"

definition sends_headers_frame_with_nul_in_field_value :: "'w deps \<Rightarrow> 'w test_step" where
  "sends_headers_frame_with_nul_in_field_value d =
     rejected_request d (\<lambda>c. hs_append (post_headers c) (byte_str ''invalid-value'') (byte_str ''oh'' @ [0] @ byte_str ''no''))"

definition sends_headers_frame_with_leading_space_in_field_value :: "'w deps \<Rightarrow> 'w test_step" where
  "sends_headers_frame_with_leading_space_in_field_value d =
     rejected_request d (\<lambda>c. hs_append (post_headers c) (byte_str ''invalid-value'') (byte_str '' oh no''))"

definition sends_headers_frame_with_trailing_tab_in_field_value :: "'w deps \<Rightarrow> 'w test_step" where
  "sends_headers_frame_with_trailing_tab_in_field_value d =
     rejected_request d (\<lambda>c. hs_append (post_headers c) (byte_str ''invalid-value'') (byte_str ''oh no'' @ [9]))"

definition sends_headers_frame_with_connection_header :: "'w deps \<Rightarrow> 'w test_step" where
  "sends_headers_frame_with_connection_header d =
     rejected_request d (\<lambda>c. hs_append (post_headers c) (byte_str ''connection'') (byte_str ''keep-alive''))"

definition sends_headers_frame_with_proxy_connection_header :: "'w deps \<Rightarrow> 'w test_step" where
  "sends_headers_frame_with_proxy_connection_header d =
     rejected_request d (\<lambda>c. hs_append (post_headers c) (byte_str ''proxy-connection'') (byte_str ''keep-alive''))"

definition sends_headers_frame_with_keep_alive_header :: "'w deps \<Rightarrow> 'w test_step" where
  "sends_headers_frame_with_keep_alive_header d =
     rejected_request d (\<lambda>c. hs_append (post_headers c) (byte_str ''keep-alive'') (byte_str ''timeout=5''))"

definition sends_headers_frame_with_transfer_encoding_header :: "'w deps \<Rightarrow> 'w test_step" where
  "sends_headers_frame_with_transfer_encoding_header d =
     rejected_request d (\<lambda>c. hs_append (post_headers c) (byte_str ''transfer-encoding'') (byte_str ''chunked''))"

definition sends_headers_frame_with_upgrade_header :: "'w deps \<Rightarrow> 'w test_step" where
  "sends_headers_frame_with_upgrade_header d =
     rejected_request d (\<lambda>c. hs_append (post_headers c) (byte_str ''upgrade'') (byte_str ''h2c''))"

definition sends_headers_frame_with_te_trailers :: "'w deps \<Rightarrow> 'w test_step" where
  "sends_headers_frame_with_te_trailers d =
     script
       [cn_handshake d,
        (\<lambda>c. cn_send_req_and_expect_status d 1
          (hs_append (post_headers c) (byte_str ''te'') (byte_str ''trailers'')) 200 c)]"

definition sends_headers_frame_with_te_not_trailers :: "'w deps \<Rightarrow> 'w test_step" where
  "sends_headers_frame_with_te_not_trailers d =
     rejected_request d (\<lambda>c. hs_append (post_headers c) (byte_str ''te'') (byte_str ''not-trailers''))"

definition sends_headers_frame_with_response_pseudo_header :: "'w deps \<Rightarrow> 'w test_step" where
  "sends_headers_frame_with_response_pseudo_header d =
     rejected_request d (\<lambda>c. hs_append (post_headers c) (byte_str '':status'') (byte_str ''200''))"

definition sends_headers_frame_with_pseudo_header_in_trailer :: "'w deps \<Rightarrow> 'w test_step" where
  "sends_headers_frame_with_pseudo_header_in_trailer d =
     script
       [cn_handshake d,
        with_block post_headers (\<lambda>block. cn_write_headers d 1 {HeadersEndHeaders} block),
        cn_write_data d 1 False (byte_str ''test''),
        with_block (\<lambda>_. hs_append [] (byte_str '':method'') (byte_str ''POST''))
          (\<lambda>block. cn_write_headers d 1 {HeadersEndHeaders, HeadersEndStream} block),
        cn_verify_stream_error d {EProtocolError}]"

definition sends_headers_frame_with_duplicate_pseudo_headers :: "'w deps \<Rightarrow> 'w test_step" where
  "sends_headers_frame_with_duplicate_pseudo_headers d =
     rejected_request d (\<lambda>c. hs_prepend (hs_prepend (post_headers c) (byte_str '':method'') (byte_str ''POST''))
       (byte_str '':method'') (byte_str ''POST''))"

definition sends_headers_frame_with_mismatched_host_authority :: "'w deps \<Rightarrow> 'w test_step" where
  "sends_headers_frame_with_mismatched_host_authority d =
     rejected_request d (\<lambda>c.
       hs_append (hs_replace (post_headers c) (byte_str '':authority'') (cf_host (cn_config c)))
         (byte_str ''host'') (cf_host (cn_config c) @ byte_str ''.different''))"

definition sends_headers_frame_with_empty_path_component :: "'w deps \<Rightarrow> 'w test_step" where
  "sends_headers_frame_with_empty_path_component d =
     rejected_request d (\<lambda>c. hs_replace (post_headers c) (byte_str '':path'') [])"

definition sends_headers_frame_without_method :: "'w deps \<Rightarrow> 'w test_step" where
  "sends_headers_frame_without_method d =
     rejected_request d (\<lambda>c. hs_remove (post_headers c) (byte_str '':method''))"

definition sends_headers_frame_without_scheme :: "'w deps \<Rightarrow> 'w test_step" where
  "sends_headers_frame_without_scheme d =
     rejected_request d (\<lambda>c. hs_remove (post_headers c) (byte_str '':scheme''))"

definition sends_headers_frame_without_path :: "'w deps \<Rightarrow> 'w test_step" where
  "sends_headers_frame_without_path d =
     rejected_request d (\<lambda>c. hs_remove (post_headers c) (byte_str '':path''))"

text \<open>The loop over the decoded names.\<close>

fun found_status :: "header list \<Rightarrow> bool \<Rightarrow> (bool, eyre) result" where
  "found_status [] found = Ok found"
| "found_status ((name, _) # headers) found =
     (if name = byte_str '':status'' then found_status headers True
      else if is_pseudo name then Panic
      else found_status headers found)"

definition sends_headers_frame_without_status :: "'w deps \<Rightarrow> 'w test_step" where
  "sends_headers_frame_without_status d =
     script
       [cn_handshake d,
        with_block post_headers (\<lambda>block.
          cn_write_frame d (into_frame (Headers {HeadersEndStream, HeadersEndHeaders}) 1) (raw_piece block)),
        (\<lambda>c. bind_st (expect_frame {THeaders} c) (\<lambda>(frame, payload) c.
          if \<not> is_end_headers frame then (Panic, c)
          else
            bind_st (cn_decode_headers payload c) (\<lambda>headers c.
            bind_st (found_status headers False, c) (\<lambda>found c. assert_step found c))))]"

definition client_sends_push_promise_frame :: "'w deps \<Rightarrow> 'w test_step" where
  "client_sends_push_promise_frame d =
     script
       [cn_handshake d,
        with_block (\<lambda>_. hs_append [] (byte_str '':status'') (byte_str ''200'')) (\<lambda>block c.
          case scratch_put_to_roll (length block + 4) (\<lambda>w.
              bind_st (pack_bit_and_u31 0 2, w) (\<lambda>packed w.
              bind_st (slice_write_all w packed) (\<lambda>_ w.
                slice_write_all w block))) (cn_scratch c) of
            (Ok payload, scratch) \<Rightarrow>
              cn_write_frame d (into_frame PushPromise 1) (raw_piece payload) (c\<lparr>cn_scratch := scratch\<rparr>)
          | (Err e, scratch) \<Rightarrow> (Err (Report ''put_to_roll''), c\<lparr>cn_scratch := scratch\<rparr>)
          | (Panic, scratch) \<Rightarrow> (Panic, c\<lparr>cn_scratch := scratch\<rparr>)),
        cn_verify_connection_error d {EProtocolError}]"

definition sends_connect_with_scheme :: "'w deps \<Rightarrow> 'w test_step" where
  "sends_connect_with_scheme d =
     rejected_request d (\<lambda>_. hs_append (hs_append (hs_append [] (byte_str '':method'') (byte_str ''CONNECT''))
       (byte_str '':scheme'') (byte_str ''https'')) (byte_str '':authority'') (byte_str ''example.com:443''))"

definition sends_connect_with_path :: "'w deps \<Rightarrow> 'w test_step" where
  "sends_connect_with_path d =
     rejected_request d (\<lambda>_. hs_append (hs_append (hs_append [] (byte_str '':method'') (byte_str ''CONNECT''))
       (byte_str '':path'') (byte_str ''/'')) (byte_str '':authority'') (byte_str ''example.com:443''))"

definition sends_connect_without_authority :: "'w deps \<Rightarrow> 'w test_step" where
  "sends_connect_without_authority d =
     rejected_request d (\<lambda>_. hs_append [] (byte_str '':method'') (byte_str ''CONNECT''))"

definition sends_headers_frame_with_pseudo_headers_after_regular_headers :: "'w deps \<Rightarrow> 'w test_step" where
  "sends_headers_frame_with_pseudo_headers_after_regular_headers d =
     rejected_request d (\<lambda>_. hs_append (hs_append (hs_append (hs_append [] (byte_str '':method'') (byte_str ''POST''))
       (byte_str '':path'') (byte_str ''/'')) (byte_str ''content-type'') (byte_str ''application/json''))
       (byte_str '':authority'') (byte_str ''example.com''))"

end
