(* ===== verification/Httpwg_Client.thy ===== *)
theory Httpwg_Client
  imports Httpwg_Suite
begin

text \<open>
  What the client of the conformance suite does: the receiving task delivers the frames of the byte stream,
  whatever the sizes of the reads; writing a frame puts its bytes on the wire; and the judgements say what they
  are meant to, as long as the server answers. A server that falls silent is another matter: the receiving
  task gives up after the same time as the test, its channel closes, and that is taken for a server that has
  closed the connection (\<open>silent_server_passes\<close>).
\<close>

section \<open>The byte stream as a whole\<close>

function recv_bytes :: "enumflags \<Rightarrow> bytes \<Rightarrow> (frame \<times> bytes) list \<times> (unit, io_error) result" where
  "recv_bytes ef i =
     (if i = [] then ([], Ok ())
      else if length i < 9 then ([], Panic)
      else
        let f = frame_of_bytes ef (take 9 i); n = unat (flen f) in
        if length (drop 9 i) < n then ([], Panic)
        else (case recv_bytes ef (drop n (drop 9 i)) of (fs, out) \<Rightarrow> ((f, take n (drop 9 i)) # fs, out)))"
  by pat_completeness auto
termination
  by (relation "measure (\<lambda>(_, i). length i)") auto

declare recv_bytes.simps [simp del]

lemma recv_bytes_Nil [simp]: "recv_bytes ef [] = ([], Ok ())"
  by (simp add: recv_bytes.simps)

abbreviation ev_of :: "frame \<times> bytes \<Rightarrow> ev" where
  "ev_of fp \<equiv> EvFrame (fst fp) (snd fp)"

text \<open>A source of bytes that is never late, or one that is silent instead of ending.\<close>

definition timed :: "bool \<Rightarrow> 'r reading \<Rightarrow> 'r timed_reading" where
  "timed silent io =
     \<lparr>tm_room = rd_room io,
      tm_owned = (\<lambda>r n. case rd_owned io r n of (res, r) \<Rightarrow> (if silent \<and> res = Ok [] then None else Some res, r))\<rparr>"

context buffered_source
begin

lemma timed_read:
  assumes "good r"
  shows "\<exists>bs r'. timed_read_into (timed silent io) buf r = (Ok (if silent \<and> bs = [] then None else Some bs), r') \<and>
    good r' \<and> left r = bs @ left r' \<and> (bs = [] \<longrightarrow> left r = [])"
proof -
  from room[OF assms, of buf] obtain cap r' where r': "rd_room io r buf = (Ok cap, r')" "0 < cap" "good r'" "left r' = left r"
    by blast
  then have "0 < min 16384 cap" by simp
  from reads[OF r'(3) this] r' show ?thesis by (fastforce simp: timed_read_into_def timed_def Let_def)
qed

lemma recv_payload_takes:
  assumes "good r"
  shows "\<exists>out r'. recv_payload (timed silent io) n buf r = (out, r') \<and>
    (if n \<le> length (buf @ left r)
     then \<exists>buf'. out = Ok (Some buf') \<and> n \<le> length buf' \<and> buf' @ left r' = buf @ left r \<and> good r' \<and>
       length (left r') \<le> length (left r)
     else out = (if silent then Ok None else Panic))"
  using assms
proof (induction "n - length buf" arbitrary: buf r rule: less_induct)
  case less
  show ?case
  proof (cases "length buf < n")
    case True
    from timed_read[OF less.prems, of silent buf] obtain bs r' where
      r': "timed_read_into (timed silent io) buf r = (Ok (if silent \<and> bs = [] then None else Some bs), r')"
        "good r'" "left r = bs @ left r'" "bs = [] \<longrightarrow> left r = []"
      by blast
    show ?thesis
    proof (cases "bs = []")
      case True
      with r' \<open>length buf < n\<close> show ?thesis by (subst recv_payload.simps) simp
    next
      case False
      with True have "n - length (buf @ bs) < n - length buf" by (auto intro: diff_less_mono2)
      from less.hyps[OF this r'(2)] False True r' show ?thesis
        by (subst recv_payload.simps) (auto split: if_splits)
    qed
  next
    case False
    with less.prems show ?thesis by (subst recv_payload.simps) simp
  qed
qed

lemma recv_loop_agrees:
  assumes "nom_spec nom" and "good r" and "eof \<Longrightarrow> left r = [] \<and> \<not> silent"
  shows "recv_loop (timed silent io) nom ef (\<lambda>t x. Some (t @ [x])) eof buf r tx =
    Some (if silent then Ok () else snd (recv_bytes ef (buf @ left r)), tx @ map ev_of (fst (recv_bytes ef (buf @ left r))))"
  using assms(2,3)
proof (induction "length (buf @ left r) + length (left r) + (if eof then 0 else 1)" arbitrary: eof buf r tx rule: less_induct)
  case less
  note unf = recv_loop.simps[of "timed silent io" nom ef "\<lambda>t x. Some (t @ [x])" eof buf r tx]
  note df = recv_bytes.simps[of ef "buf @ left r"]
  show ?case
  proof (cases "length buf < 9")
    case True
    then have parse: "frame_parse nom ef buf = Err Incomplete" by (rule frame_parse_short[OF assms(1)])
    show ?thesis
    proof (cases eof)
      case True
      with less.prems \<open>length buf < 9\<close> show ?thesis unfolding unf df by (simp add: parse)
    next
      case False
      from timed_read[OF less.prems(1), of silent buf] obtain bs r' where
        r': "timed_read_into (timed silent io) buf r = (Ok (if silent \<and> bs = [] then None else Some bs), r')"
        "good r'" "left r = bs @ left r'" "bs = [] \<longrightarrow> left r = []"
        by blast
      let ?eof = "if length bs = 0 then True else eof"
      have "length ((buf @ bs) @ left r') + length (left r') + (if ?eof then 0 else 1) <
          length (buf @ left r) + length (left r) + (if eof then 0 else 1)"
        using r'(3) False by (cases bs) auto
      from less.hyps[OF this r'(2)] r' False \<open>length buf < 9\<close> show ?thesis
        unfolding unf by (auto simp: parse recv_bytes.simps[of ef buf])
    qed
  next
    case False
    define f where "f = frame_of_bytes ef (take 9 buf)"
    define n where "n = unat (flen f)"
    have parse: "frame_parse nom ef buf = Ok (drop 9 buf, f)"
      using frame_parse_long[OF assms(1)] False by (simp add: f_def)
    have i: "take 9 (buf @ left r) = take 9 buf" "drop 9 (buf @ left r) = drop 9 buf @ left r" "buf @ left r \<noteq> []"
        "\<not> length (buf @ left r) < 9"
      using False by auto
    have df: "recv_bytes ef (buf @ left r) =
        (if length (drop 9 buf @ left r) < n then ([], Panic)
         else (case recv_bytes ef (drop n (drop 9 buf @ left r)) of (fs, out) \<Rightarrow> ((f, take n (drop 9 buf @ left r)) # fs, out)))"
      unfolding df i(1,2) f_def[symmetric] Let_def n_def[symmetric] by (simp only: i(3,4) if_False)
    from recv_payload_takes[OF less.prems(1), of silent n "drop 9 buf"] obtain out r' where
      pl: "recv_payload (timed silent io) n (drop 9 buf) r = (out, r')" and
      out: "if n \<le> length (drop 9 buf @ left r)
        then \<exists>buf'. out = Ok (Some buf') \<and> n \<le> length buf' \<and> buf' @ left r' = drop 9 buf @ left r \<and> good r' \<and>
          length (left r') \<le> length (left r)
        else out = (if silent then Ok None else Panic)" by blast
    show ?thesis
    proof (cases "n \<le> length (drop 9 buf @ left r)")
      case True
      with out obtain buf' where b: "out = Ok (Some buf')" "n \<le> length buf'" "buf' @ left r' = drop 9 buf @ left r" "good r'"
          "length (left r') \<le> length (left r)" by auto
      have "length (buf' @ left r') + 9 = length (buf @ left r)"
        using b(3) False by simp
      then have shrinks: "length (drop n buf' @ left r') + length (left r') + (if eof then 0 else 1) <
          length (buf @ left r) + length (left r) + (if eof then 0 else 1)"
        using b(2,5) by auto
      have eof: "left r' = [] \<and> \<not> silent" if eof using less.prems(2)[OF that] b(5) by simp
      have split: "take n (drop 9 buf @ left r) = take n buf'" "drop n (drop 9 buf @ left r) = drop n buf' @ left r'"
        using b(2) unfolding b(3)[symmetric] by simp_all
      from less.hyps[OF shrinks b(4) eof, of "tx @ [EvFrame f (take n buf')]"] True show ?thesis
        unfolding unf by (simp add: parse n_def[symmetric] pl b(1) df[unfolded split] split: prod.split)
    next
      case False
      with out show ?thesis unfolding unf by (simp add: parse n_def[symmetric] pl df)
    qed
  qed
qed

end

text \<open>The receiving task over the pipe.\<close>

lemma recv_loop_pipe:
  assumes "nom_spec nom" and "\<forall>p\<in>set ps. p \<noteq> []"
  shows "recv_loop (timed silent pipe_reading) nom ef (\<lambda>t x. Some (t @ [x])) False [] (pipe_read_new (map PipePiece ps)) [] =
    Some (if silent then Ok () else snd (recv_bytes ef (concat ps)), map ev_of (fst (recv_bytes ef (concat ps))))"
  using pipe_source.recv_loop_agrees[OF assms(1) pipe_good_pieces[OF assms(2)], of False silent ef "[]" "[]"] pipe_left_pieces[of ps]
  by simp

section \<open>Judgements\<close>

lemma wait_loop_found:
  assumes "\<forall>fp\<in>set fs. frame_t_from (ftype (fst fp)) \<notin> T" and "frame_t_from (ftype f) \<in> T"
  shows "wait_loop T t ended l (map ev_of fs @ EvFrame f p # evs) = (Success f p, evs)"
  using assms by (induction fs arbitrary: l) auto

lemma wait_loop_end:
  assumes "\<forall>fp\<in>set fs. frame_t_from (ftype (fst fp)) \<notin> T"
  shows "\<exists>l'. wait_loop T t ended l (map ev_of fs) = (if ended then Eof T l' else Timeout T l' t, [])"
  using assms by (induction fs arbitrary: l) auto

lemmas verify_defs = cn_verify_connection_error_def cn_verify_stream_error_def cn_verify_connection_close_def wait_for_frame_def



section \<open>Frames on the wire\<close>

text \<open>What arrives of a frame: its type is what its encoding is read as.\<close>

definition arrived :: "'w deps \<Rightarrow> frame \<Rightarrow> bytes \<Rightarrow> frame \<times> bytes" where
  "arrived d f p =
     (f\<lparr>ftype := frame_type_decode (d_ef d) (frame_type_encode (d_ef d) (ftype f)), flen := of_nat (length p)\<rparr>, p)"

lemma arrived_wf: "deps_ok d \<Longrightarrow> frame_type_wf (ftype f) \<Longrightarrow> arrived d f p = (f\<lparr>flen := of_nat (length p)\<rparr>, p)"
  by (simp add: arrived_def deps_ok_def frame_type_roundtrip)

definition frame_fits :: "frame \<Rightarrow> bytes \<Rightarrow> bool" where
  "frame_fits f p \<longleftrightarrow> length p < 2 ^ 24 \<and> sid_ok (fstream_id f) \<and> reserved f AND 1 = reserved f"

lemma frame_wire_bytes:
  assumes "deps_ok d" and "frame_fits f p"
  shows "\<exists>bs. frame_into_piece d (f\<lparr>flen := of_nat (length p)\<rparr>) [] = (Ok bs, []) \<and> length bs = 9 \<and>
    frame_of_bytes (d_ef d) bs = fst (arrived d f p) \<and> frame_wire d (f, [p]) = bs @ p"
proof -
  let ?f = "f\<lparr>flen := of_nat (length p)\<rparr>" and ?ft = "frame_type_encode (d_ef d) (ftype f)"
  have fits: "length p < 2 ^ 24" "sid_ok (fstream_id f)" "reserved f AND 1 = reserved f"
    using assms(2) by (auto simp: frame_fits_def)
  have nom: "nom_spec (d_nom d)" and bo: "byteorder_spec (d_bo d)" using assms(1) by (auto simp: deps_ok_def)
  have f: "unat (flen ?f) < 2 ^ 24" "fstream_id ?f AND 0x7FFFFFFF = fstream_id ?f" "reserved ?f AND 1 = reserved ?f"
    using fits by (simp_all add: sid_ok_def unat_of_nat)
  obtain sid where sid: "(pack_bit_and_u31 (reserved ?f) (fstream_id ?f) :: (bytes, io_error) result) = Ok sid"
    "length sid = 4" "\<And>rest. parse_bit_and_u31 (d_nom d) (sid @ rest) = Ok (rest, (reserved ?f, fstream_id ?f))"
    using pack_parse_bit_and_u31[OF nom f(2,3), where 'e = io_error] by blast
  let ?bs = "tl (u32_to_be_bytes (flen ?f)) @ [eft_ty ?ft, eft_flags ?ft] @ sid"
  have len: "length ?bs = 9" using sid(2) by (simp add: u32_to_be_bytes_def)
  then have ne: "?bs \<noteq> []" by auto
  have "frame_write_into (d_ef d) (d_bo d) vec_write_all ?f [] = (Ok (), ?bs)"
    using frame_write_into_bytes[OF bo f(1) sid(1), of "d_ef d" "[]"] by simp
  with ne have piece: "frame_into_piece d ?f [] = (Ok ?bs, [])" by (simp add: frame_into_piece_def)
  have ft: "\<lparr>eft_ty = eft_ty ?ft, eft_flags = eft_flags ?ft\<rparr> = ?ft" by simp
  have "\<lparr>ftype = frame_type_decode (d_ef d) \<lparr>eft_ty = eft_ty ?ft, eft_flags = eft_flags ?ft\<rparr>,
      reserved = reserved ?f, fstream_id = fstream_id ?f, flen = flen ?f\<rparr> = fst (arrived d f p)"
    unfolding ft by (cases f) (simp add: arrived_def)
  then have "frame_parse (d_nom d) (d_ef d) (?bs @ []) = Ok ([], fst (arrived d f p))"
    using frame_parse_bytes[OF nom f(1) sid(3), of "d_ef d" "eft_ty ?ft" "eft_flags ?ft" "[]"] by simp
  with frame_parse_long[OF nom, of "?bs @ []" "d_ef d"] len have "frame_of_bytes (d_ef d) ?bs = fst (arrived d f p)" by simp
  then show ?thesis using piece len by (simp add: frame_wire_def as_frame_len_def)
qed

lemma recv_bytes_wire:
  assumes "deps_ok d" and "frame_fits f p"
  shows "recv_bytes (d_ef d) (frame_wire d (f, [p]) @ i) =
    (case recv_bytes (d_ef d) i of (fs, out) \<Rightarrow> (arrived d f p # fs, out))"
proof -
  from frame_wire_bytes[OF assms] obtain bs where bs: "length bs = 9" "frame_of_bytes (d_ef d) bs = fst (arrived d f p)"
      "frame_wire d (f, [p]) = bs @ p" by blast
  have "unat (flen (fst (arrived d f p))) = length p" "snd (arrived d f p) = p"
    using assms(2) by (simp_all add: arrived_def frame_fits_def unat_of_nat)
  moreover have "bs \<noteq> []" using bs(1) by auto
  ultimately show ?thesis by (subst recv_bytes.simps) (simp add: bs Let_def prod_eq_iff split: prod.split)
qed

lemma deframe_bytes_wire:
  assumes "deps_ok d" and "frame_fits f p" and "length p \<le> unat max_size" and "\<not> has_padding (fst (arrived d f p))"
  shows "deframe_bytes (d_ef d) max_size (frame_wire d (f, [p]) @ i) =
    (case deframe_bytes (d_ef d) max_size i of (fs, out) \<Rightarrow> (arrived d f p # fs, out))"
proof -
  from frame_wire_bytes[OF assms(1,2)] obtain bs where bs: "length bs = 9" "frame_of_bytes (d_ef d) bs = fst (arrived d f p)"
      "frame_wire d (f, [p]) = bs @ p" by blast
  have "unat (flen (fst (arrived d f p))) = length p" and p: "snd (arrived d f p) = p"
    using assms(2) by (simp_all add: arrived_def frame_fits_def unat_of_nat)
  moreover from this assms(3) have "\<not> max_size < flen (fst (arrived d f p))" by (simp add: word_less_nat_alt)
  moreover have "bs \<noteq> []" using bs(1) by auto
  ultimately show ?thesis
    by (subst deframe_bytes.simps) (simp add: bs Let_def prod_eq_iff remove_padding_def assms(4) split: prod.split)
qed

lemma cn_write_frame_wire:
  assumes "deps_ok d" and "d_write d = vec_write_all" and "frame_fits f p" and "payload [] = (Ok p, [])"
    and "cn_scratch c = []"
  shows "cn_write_frame d f payload c = (Ok (), c\<lparr>cn_w := cn_w c @ frame_wire d (f, [p])\<rparr>)"
proof -
  from frame_wire_bytes[OF assms(1,3)] obtain bs where
    bs: "frame_into_piece d (f\<lparr>flen := of_nat (length p)\<rparr>) [] = (Ok bs, [])" "frame_wire d (f, [p]) = bs @ p" by blast
  have "c\<lparr>cn_scratch := []\<rparr> = c" using assms(5) by simp
  moreover have "length p < 2 ^ 32" using assms(3) by (simp add: frame_fits_def)
  ultimately show ?thesis
    using bs by (simp add: cn_write_frame_def assms(2,4,5) cn_frame_piece_def with_len_def cn_send_def vec_write_all_def)
qed

end
