(* ===== verification/Httpwg_Conform.thy ===== *)
theory Httpwg_Conform
  imports Httpwg_Client
begin

text \<open>
  The server against the conformance suite: what a client that keeps its connection open sees of the server
  (\<open>observed\<close>), in every order in which the tasks of the server may run, and the tests that the server therefore
  passes. As long as no request has been accepted, the events and notifications that other tasks may produce do
  not matter: an assertion about the connection that does not speak of them is stable, as in rely-guarantee
  reasoning, and a run of the connection is a sequence of such assertions (\<open>calm_run\<close>).
\<close>

section \<open>Connections without streams\<close>

definition calm :: "'w server_context \<Rightarrow> bool" where
  "calm c \<longleftrightarrow> cs_streams (sc_state c) = [] \<and> streams_with_pending_data (sc_state c) = []"

text \<open>What the other tasks may do to such a connection.\<close>

definition disturbed :: "'w server_context \<Rightarrow> h2_event list \<Rightarrow> bool \<Rightarrow> 'w server_context" where
  "disturbed c q b = c\<lparr>ev_queue := q, sc_state := (sc_state c)\<lparr>send_data_notified := b\<rparr>\<rparr>"

definition calm_stable :: "('w server_context \<Rightarrow> bool) \<Rightarrow> bool" where
  "calm_stable P \<longleftrightarrow> (\<forall>c. P c \<longrightarrow> calm c \<and> (\<forall>q b. P (disturbed c q b)))"

lemma disturbed_same: "disturbed c (ev_queue c) (send_data_notified (sc_state c)) = c"
  by (simp add: disturbed_def)

lemma calm_event: "calm c \<Longrightarrow> handle_event d ev c = (Ok (), c)"
  by (simp add: calm_def handle_event_def get_outgoing_def)

lemma order_Nil: "deps_ok d \<Longrightarrow> d_order d [] = []"
  by (metis deps_ok_def mset_zero_iff)

lemma calm_send: "deps_ok d \<Longrightarrow> calm c \<Longrightarrow> send_data_maybe d c = Some (Ok (), c)"
  by (simp add: calm_def send_data_maybe_def order_Nil Let_def)

lemma calm_disturbed [simp]: "calm (disturbed c q b) = calm c"
  by (simp add: calm_def disturbed_def)

text \<open>A turn that does not take a frame only disturbs.\<close>

lemma calm_turn:
  assumes "deps_ok d" and "calm c"
  shows "ev_queue c = ev # q \<Longrightarrow> handle_event d ev (c\<lparr>ev_queue := q\<rparr>) =
      (Ok (), disturbed c q (send_data_notified (sc_state c)))"
    and "send_data_notified (sc_state c) \<Longrightarrow> send_data_maybe d (st_upd (\<lambda>s. s\<lparr>send_data_notified := False\<rparr>) c) =
      Some (Ok (), disturbed c (ev_queue c) False)"
    and "c\<lparr>ev_queue := q\<rparr> = disturbed c q (send_data_notified (sc_state c))"
  using assms calm_event[of "c\<lparr>ev_queue := q\<rparr>" d] calm_send[OF assms(1), of "st_upd (\<lambda>s. s\<lparr>send_data_notified := False\<rparr>) c"]
  by (simp_all add: calm_def disturbed_def)

lemma calm_step:
  assumes "deps_ok d" and "calm c" and "conn_step d (rx, c) (rx', c')"
  shows "(rx' = rx \<and> (\<exists>q b. c' = disturbed c q b)) \<or>
    (\<exists>f p rest. rx = (f, p) # rest \<and> process_frame d f p (rest, c) = Some (Ok (), rx', c'))"
  using assms(3)
proof cases
  case (step_event ev q)
  with calm_turn(1)[OF assms(1,2)] show ?thesis by auto
next
  case step_notified
  with calm_turn(2)[OF assms(1,2)] show ?thesis by auto
next
  case (step_handler ev)
  with calm_turn(3)[OF assms(1,2)] show ?thesis by blast
qed auto

text \<open>A run: frames that are accepted one after the other, and possibly one that ends the connection.\<close>

inductive calm_run ::
    "'w deps \<Rightarrow> ('w server_context \<Rightarrow> bool) \<Rightarrow> rx \<Rightarrow> known_error_code option \<Rightarrow> ('w server_context \<Rightarrow> bool) \<Rightarrow> bool" for d where
  run_done: "calm_stable P \<Longrightarrow> (\<And>c. P c \<Longrightarrow> T c) \<Longrightarrow> calm_run d P [] None T"
| run_frame: "calm_stable P \<Longrightarrow>
    (\<And>c rx. P c \<Longrightarrow> \<exists>c'. process_frame d f p (rx, c) = Some (Ok (), rx, c') \<and> Q c') \<Longrightarrow>
    calm_run d Q fs k T \<Longrightarrow> calm_run d P ((f, p) # fs) k T"
| run_fails: "calm_stable P \<Longrightarrow>
    (\<And>c rx. P c \<Longrightarrow> prefix rx fs \<Longrightarrow> \<exists>e rx' c'. process_frame d f p (rx, c) = Some (Err e, rx', c') \<and>
       conn_error_code e = k \<and> T c') \<Longrightarrow>
    calm_run d P ((f, p) # fs) (Some k) T"

lemma calm_run_stable: "calm_run d P fs k T \<Longrightarrow> calm_stable P"
  by (cases rule: calm_run.cases) auto

text \<open>Every execution of the processing task on a beginning of the frames agrees with the run.\<close>

definition run_agrees :: "known_error_code option \<Rightarrow> ('w server_context \<Rightarrow> bool) \<Rightarrow> bool \<Rightarrow>
    (unit, h2_connection_error) result \<times> 'w server_context \<Rightarrow> bool" where
  "run_agrees k T complete out \<longleftrightarrow>
     (case fst out of
        Ok _ \<Rightarrow> complete \<longrightarrow> k = None \<and> T (snd out)
      | Err e \<Rightarrow> k = Some (conn_error_code e) \<and> T (snd out)
      | Panic \<Rightarrow> False)"

lemma calm_run_loop:
  assumes "deps_ok d" and "process_loop d (fs', c) out" and "calm_run d P fs k T" and "P c" and "prefix fs' fs"
  shows "run_agrees k T (fs' = fs) out"
  using assms(2-5)
proof (induction "(fs', c)" out arbitrary: fs' c P fs rule: process_loop.induct)
  case (loop_hung_up c)
  then show ?case by (auto simp: run_agrees_def elim: calm_run.cases)
next
  case (loop_frame_fails f p rx c r rx' c')
  from loop_frame_fails(5) obtain fs1 where fs: "fs = (f, p) # fs1" "prefix rx fs1" by (cases fs) auto
  from loop_frame_fails(3) show ?case
  proof (cases rule: calm_run.cases)
    case (run_frame f' p' Q)
    with run_frame(3)[OF loop_frame_fails(4), of rx] loop_frame_fails(1,2) fs show ?thesis by auto
  next
    case (run_fails fs2 f' p' k)
    with run_fails(4)[OF loop_frame_fails(4), of rx] loop_frame_fails(1) fs show ?thesis by (auto simp: run_agrees_def)
  qed (use fs in auto)
next
  case (loop_event_fails c ev q r c' rx)
  then have "calm c" using calm_run_stable calm_stable_def by metis
  from calm_turn(1)[OF assms(1) this, of ev q] loop_event_fails show ?case by auto
next
  case (loop_send_fails c r c' rx)
  then have "calm c" using calm_run_stable calm_stable_def by metis
  from calm_turn(2)[OF assms(1) this] loop_send_fails show ?case by auto
next
  case (loop_turn st' out)
  obtain rx' c' where st': "st' = (rx', c')" by (cases st')
  have stable: "calm_stable P" and "calm c" using loop_turn.prems calm_run_stable calm_stable_def by metis+
  from calm_step[OF assms(1) \<open>calm c\<close> loop_turn(1)[unfolded st']] show ?case
  proof
    assume "rx' = fs' \<and> (\<exists>q b. c' = disturbed c q b)"
    with stable loop_turn.prems(2) have "P c'" "rx' = fs'" by (auto simp: calm_stable_def)
    with loop_turn.hyps(3)[OF st' loop_turn.prems(1)] loop_turn.prems(3) show ?thesis by simp
  next
    assume "\<exists>f p rest. fs' = (f, p) # rest \<and> process_frame d f p (rest, c) = Some (Ok (), rx', c')"
    then obtain f p rest where x: "fs' = (f, p) # rest" "process_frame d f p (rest, c) = Some (Ok (), rx', c')" by blast
    with loop_turn.prems(3) obtain fs1 where fs: "fs = (f, p) # fs1" "prefix rest fs1" by (cases fs) auto
    from loop_turn.prems(1) show ?thesis
    proof (cases rule: calm_run.cases)
      case (run_frame f' p' Q)
      with run_frame(3)[OF loop_turn.prems(2), of rest] x fs have "Q c'" "rx' = rest" "calm_run d Q fs1 k T" by auto
      from loop_turn.hyps(3)[OF _ this(3,1)] fs st' this(2) x(1) show ?thesis by simp
    next
      case (run_fails fs2 f' p' k)
      with run_fails(4)[OF loop_turn.prems(2), of rest] x fs show ?thesis by auto
    qed (use fs in auto)
  qed
qed

lemma calm_run_steps:
  assumes "deps_ok d" and "calm_run d P fs k T" and "P c" and "(conn_step d)\<^sup>*\<^sup>* (fs, c) ([], c')"
  shows "k = None \<and> T c'"
proof -
  have "process_loop d (fs, c) (Ok (), c')"
    using assms(4)
  proof (induction "(fs, c)" arbitrary: fs c rule: converse_rtranclp_induct)
    case base
    show ?case by (rule loop_hung_up)
  next
    case (step st)
    then show ?case by (cases st) (auto intro: loop_turn)
  qed
  from calm_run_loop[OF assms(1) this assms(2,3)] show ?thesis by (simp add: run_agrees_def)
qed

text \<open>And there is one.\<close>

lemma calm_run_exists:
  assumes "calm_run d P fs k T" and "P c"
  shows "case k of
      None \<Rightarrow> \<exists>c'. (conn_step d)\<^sup>*\<^sup>* (fs, c) ([], c') \<and> process_loop d (fs, c) (Ok (), c') \<and> T c'
    | Some code \<Rightarrow> \<exists>e c'. process_loop d (fs, c) (Err e, c') \<and> conn_error_code e = code \<and> T c'"
  using assms
proof (induction arbitrary: c rule: calm_run.induct)
  case (run_done P T)
  then show ?case by (auto intro: loop_hung_up)
next
  case (run_frame P f p Q fs k T)
  from run_frame.hyps(2)[OF run_frame.prems, of fs] obtain c1 where
    c1: "process_frame d f p (fs, c) = Some (Ok (), fs, c1)" "Q c1" by blast
  then have step: "conn_step d ((f, p) # fs, c) (fs, c1)" by (intro step_frame)
  from run_frame.IH[OF c1(2)] show ?case
    by (cases k) (auto intro: converse_rtranclp_into_rtranclp[of "conn_step d", OF step] loop_turn[OF step])
next
  case (run_fails P fs f p k T)
  from run_fails.hyps(2)[OF run_fails.prems, of fs] show ?case by (auto intro: loop_frame_fails)
qed

section \<open>What the client sees\<close>

text \<open>The output of the server when the client has sent some bytes and keeps the connection open: the server has
  dealt with all frames and waits, or the processing task has failed, on the frames that were there by then, or
  the deframer has refused a frame and the frames before it have been dealt with. In the last two cases the
  connection is closed.\<close>

inductive observed ::
    "bytes deps \<Rightarrow> (h2_connection_error \<Rightarrow> bytes) \<Rightarrow> bytes server_context \<Rightarrow> bytes \<Rightarrow> bytes \<times> bool \<Rightarrow> bool"
    for d fmt c0 where
  obs_waiting: "send_initial_settings d c0 = (Ok (), c) \<Longrightarrow>
    deframe_bytes (d_ef d) (max_frame_size (self_settings (sc_state c))) i = (fs, Ok ()) \<Longrightarrow>
    (conn_step d)\<^sup>*\<^sup>* (fs, c) ([], c') \<Longrightarrow> observed d fmt c0 (PREFACE @ i) (transport_w c', False)"
| obs_failed: "send_initial_settings d c0 = (Ok (), c) \<Longrightarrow>
    prefix fs (fst (deframe_bytes (d_ef d) (max_frame_size (self_settings (sc_state c))) i)) \<Longrightarrow>
    process_loop d (fs, c) (pr, c') \<Longrightarrow> pr \<noteq> Ok () \<Longrightarrow>
    close_connection d fmt (case pr of Ok _ \<Rightarrow> Ok None | Err e \<Rightarrow> Ok (Some e) | Panic \<Rightarrow> Panic, c') =
      (res :: (_, unit serve_error) result, c'') \<Longrightarrow>
    observed d fmt c0 (PREFACE @ i) (transport_w c'', True)"
| obs_refused: "send_initial_settings d c0 = (Ok (), c) \<Longrightarrow>
    deframe_bytes (d_ef d) (max_frame_size (self_settings (sc_state c))) i = (fs, Err e) \<Longrightarrow> (\<forall>x. e \<noteq> ReadAndParse x) \<Longrightarrow>
    process_loop d (fs, c) (pr, c') \<Longrightarrow>
    close_connection d fmt (case pr of Ok _ \<Rightarrow> Ok (Some e) | Err e \<Rightarrow> Err (ServeConnection e) | Panic \<Rightarrow> Panic, c') =
      (res :: (_, unit serve_error) result, c'') \<Longrightarrow>
    observed d fmt c0 (PREFACE @ i) (transport_w c'', True)"

text \<open>The outcome of a test when the server has sent \<open>out\<close>, and when a server passes it: whether or not the client
  notices the end of the connection, the server has an answer to what the client writes, and with every answer it
  may give the test succeeds.\<close>

definition judged :: "bytes deps \<Rightarrow> config \<Rightarrow> bytes test_step \<Rightarrow> bytes \<Rightarrow> bool \<Rightarrow> (unit, eyre) result \<times> bytes conn" where
  "judged d config test out ended =
     test (conn_new config [] (map ev_of (fst (recv_bytes (d_ef d) out))) ended)"

definition passes ::
    "bytes deps \<Rightarrow> (h2_connection_error \<Rightarrow> bytes) \<Rightarrow> u32 option \<Rightarrow> config \<Rightarrow> bytes test_step \<Rightarrow> bool" where
  "passes d fmt limit config test \<longleftrightarrow> (\<forall>ended.
     (\<exists>out closed. observed d fmt (serve_context limit []) (cn_w (snd (judged d config test out ended))) (out, closed)) \<and>
     (\<forall>out closed. observed d fmt (serve_context limit []) (cn_w (snd (judged d config test out ended))) (out, closed) \<longrightarrow>
        fst (judged d config test out ended) = Ok ()))"

section \<open>Frames that the server writes\<close>

abbreviation wires :: "'w deps \<Rightarrow> (frame \<times> bytes) list \<Rightarrow> bytes" where
  "wires d fps \<equiv> concat (map (\<lambda>(f, p). frame_wire d (f, [p])) fps)"

definition suite_deps :: "bytes deps \<Rightarrow> (h2_connection_error \<Rightarrow> bytes) \<Rightarrow> bool" where
  "suite_deps d fmt \<longleftrightarrow> deps_ok d \<and> d_write d = vec_write_all \<and> (\<forall>e. 8 + length (fmt e) \<le> 16384)"

lemma suite_depsD:
  assumes "suite_deps d fmt"
  shows "deps_ok d" "d_write d = vec_write_all" "8 + length (fmt e) \<le> 16384" "transport_ok d" "byteorder_spec (d_slice_bo d)"
    "nom_spec (d_nom d)"
  using assms by (auto simp: suite_deps_def transport_ok_def vec_write_all_def deps_ok_def)

lemma recv_bytes_wires:
  assumes "deps_ok d" and "\<forall>(f, p)\<in>set fps. frame_fits f p"
  shows "recv_bytes (d_ef d) (wires d fps) = (map (\<lambda>(f, p). arrived d f p) fps, Ok ())"
  using assms(2) by (induction fps) (auto simp: recv_bytes_wire[OF assms(1)])

lemma frame_wire_Nil: "frame_wire d (f, []) = frame_wire d (f, [[]])"
  by (simp add: frame_wire_def as_frame_len_def split: prod.split result.split)

lemma frame_wire_len [simp]: "frame_wire d (with_len f n, ps) = frame_wire d (f, ps)"
  by (simp add: frame_wire_def with_len_def split: prod.split result.split)

lemma write_frame_calm:
  assumes "suite_deps d fmt" and "\<forall>flags. ftype f \<noteq> Data flags" and "frame_fits f (concat ps)" and "reserved f = 0"
    and "out_scratch c = []"
  shows "write_frame d f ps c = (Ok (), c\<lparr>transport_w := transport_w c @ frame_wire d (f, [concat ps])\<rparr>)"
proof -
  note d = suite_depsD[OF assms(1)]
  have "write_frame_state f ps (sc_state c) = Ok (sc_state c)"
    using assms(2) by (auto simp: write_frame_state_def split: frame_type.split)
  from write_frame_writes[OF d(1,4) this] assms(3-5) obtain w where w: "write_frame d f ps c = (Ok (), c\<lparr>transport_w := w\<rparr>)"
    by (auto simp: frame_fits_def)
  moreover have "frame_wire d (f, ps) = frame_wire d (f, [concat ps])"
    by (simp add: frame_wire_def as_frame_len_def split: prod.split result.split)
  ultimately show ?thesis using write_frame_wire[OF w assms(5) d(2)] by simp
qed

lemma put_piece_ok: "writes g bs \<Longrightarrow> length bs = n \<Longrightarrow> n < 2 ^ 32 \<Longrightarrow> put_piece n g [] = (Ok bs, [])"
  using scratch_put_to_roll_ok[of g bs] by (auto simp: put_piece_def)

definition hello :: "u32 option \<Rightarrow> bytes" where
  "hello limit = concat (map setting_pair_bytes (initial_settings (settings_default\<lparr>max_concurrent_streams := limit\<rparr>)))"

abbreviation settings_frame :: "settings_flags set \<Rightarrow> frame" where
  "settings_frame flags \<equiv> frame_new (Settings flags) CONNECTION"

lemma length_hello: "length (hello limit) = 36"
  unfolding hello_def length_setting_pairs by (simp add: initial_settings_def)

lemma sid_ok_small: "sid_ok 0" "sid_ok 1" "sid_ok 2" "sid_ok 3" "sid_ok 5"
  by (simp_all add: sid_ok_def)

lemma frame_fits_new: "length p < 2 ^ 24 \<Longrightarrow> sid_ok sid \<Longrightarrow> frame_fits (frame_new ft sid) p"
  by (simp add: frame_fits_def frame_new_def)

lemma hello_sent:
  assumes "suite_deps d fmt"
  shows "send_initial_settings d (serve_context limit []) =
    (Ok (), (serve_context limit [])\<lparr>transport_w := frame_wire d (settings_frame {}, [hello limit])\<rparr>)"
proof -
  let ?c = "serve_context limit [] :: bytes server_context"
  let ?pairs = "initial_settings (settings_default\<lparr>max_concurrent_streams := limit\<rparr>)"
  have c: "self_settings (sc_state ?c) = settings_default\<lparr>max_concurrent_streams := limit\<rparr>" "out_scratch ?c = []" "transport_w ?c = []"
    by (simp_all add: serve_context_def server_context_new_def conn_state_default_def)
  have "scratch_put_to_roll (length ?pairs * 6) (setting_pairs_write (d_slice_bo d) slice_write_all ?pairs) [] = (Ok (hello limit), [])"
    using scratch_put_to_roll_ok[OF setting_pairs_writes[OF suite_depsD(5)[OF assms], of ?pairs]] length_hello[of limit]
    by (simp add: hello_def length_setting_pairs)
  then have "send_initial_settings d ?c = write_frame d (settings_frame {}) [hello limit] (?c\<lparr>out_scratch := []\<rparr>)"
    using c by (simp add: send_initial_settings_def Let_def)
  then have "send_initial_settings d ?c = write_frame d (settings_frame {}) [hello limit] ?c"
    by (simp only: scratch_unchanged[OF c(2)])
  then show ?thesis
    using write_frame_calm[OF assms, of "settings_frame {}" "[hello limit]" ?c] c
      frame_fits_new[of "hello limit" CONNECTION] length_hello[of limit] by (simp add: frame_new_def CONNECTION_def sid_ok_def)
qed

definition goaway_bytes :: "stream_id \<Rightarrow> known_error_code \<Rightarrow> bytes \<Rightarrow> bytes" where
  "goaway_bytes lsid code msg = u32_to_be_bytes lsid @ u32_to_be_bytes (known_error_code_repr code) @ msg"

abbreviation goaway_frame :: frame where
  "goaway_frame \<equiv> frame_new GoAway CONNECTION"

lemma goaway_sent:
  assumes "suite_deps d fmt" and "out_scratch c = []"
  shows "close_connection d fmt (Ok (Some e), c) = (Ok SuccessfulHttp2GracefulShutdown :: (_, 'd serve_error) result,
    c\<lparr>transport_w := transport_w c @ frame_wire d (goaway_frame,
      [goaway_bytes (conn_state.last_stream_id (sc_state c)) (conn_error_code e) (fmt e)])\<rparr>)"
proof -
  let ?l = "conn_state.last_stream_id (sc_state c)" and ?code = "known_error_code_repr (conn_error_code e)"
  let ?p = "goaway_bytes ?l (conn_error_code e) (fmt e)"
  note d = suite_depsD[OF assms(1)]
  have len: "length ?p = 8 + length (fmt e)" by (simp add: goaway_bytes_def u32_to_be_bytes_def)
  have "writes (\<lambda>w. bind_st (write_u32_be (d_slice_bo d) slice_write_all w ?l) (\<lambda>_ w.
      bind_st (write_u32_be (d_slice_bo d) slice_write_all w ?code) (\<lambda>_ w. slice_write_all w (fmt e)))) ?p"
    unfolding goaway_bytes_def using d(5) by (intro writes_then writes_u32 writes_write_all)
  from scratch_put_to_roll_ok[OF this, unfolded len] d(3)[of e]
  have "goaway_payload d ?l (conn_error_code e) (fmt e) [] = (Ok ?p, [])" by (simp add: goaway_payload_def)
  then have "(send_goaway d fmt e c :: (unit, 'd serve_error) result \<times> _) =
      map_err_st ServeConnection (write_frame d goaway_frame [?p] (c\<lparr>out_scratch := []\<rparr>))"
    using assms(2) by (simp add: send_goaway_def)
  then have "(send_goaway d fmt e c :: (unit, 'd serve_error) result \<times> _) =
      map_err_st ServeConnection (write_frame d goaway_frame [?p] c)"
    by (simp only: scratch_unchanged[OF assms(2)])
  then show ?thesis
    using write_frame_calm[OF assms(1), of goaway_frame "[?p]" c] assms(2) len d(3)[of e] frame_fits_new[of ?p CONNECTION]
    by (simp add: frame_new_def CONNECTION_def sid_ok_def close_connection_def map_err_st_def)
qed

lemma goaway_code_bytes: "nom_spec (d_nom d) \<Longrightarrow> goaway_code d (goaway_bytes lsid code msg) = Ok (known_error_code_repr code)"
  using be_u32_bytes[of "d_nom d"] by (simp add: goaway_code_def goaway_bytes_def go_away_parse_def nom_spec_def seq2_def)

lemma known_error_code_from_repr_repr: "known_error_code_from_repr (known_error_code_repr k) = Some k"
  by (cases k) (simp_all add: known_error_code_from_repr_def)

lemma judge_code [simp]: "cn_judge_code codes (known_error_code_repr k) =
    (if error_c_from k \<in> codes then Ok () else Err (Report ''another error code''))"
  by (simp add: cn_judge_code_def known_error_code_from_repr_repr)

section \<open>Assertions\<close>

text \<open>No request has been sent yet, and what has been written; and, weaker, only what has been written.\<close>

definition calm_at :: "u32 option \<Rightarrow> int \<Rightarrow> bytes \<Rightarrow> bytes server_context \<Rightarrow> bool" where
  "calm_at limit cap out c \<longleftrightarrow> calm c \<and> out_scratch c = [] \<and> transport_w c = out \<and>
     self_settings (sc_state c) = settings_default\<lparr>max_concurrent_streams := limit\<rparr> \<and>
     conn_state.last_stream_id (sc_state c) = 0 \<and> outgoing_capacity (sc_state c) = cap \<and>
     sc_hpack_dec c = set_max_allowed_table_size decoder_new 4096"

definition settled :: "bytes \<Rightarrow> bytes server_context \<Rightarrow> bool" where
  "settled out c \<longleftrightarrow> calm c \<and> out_scratch c = [] \<and> transport_w c = out"

lemma calm_at_stable [simp]: "calm_stable (calm_at limit cap out)"
  by (simp add: calm_stable_def calm_at_def disturbed_def calm_def)

lemma settled_stable [simp]: "calm_stable (settled out)"
  by (simp add: calm_stable_def settled_def disturbed_def calm_def)

lemma calm_at_settled: "calm_at limit cap out c \<Longrightarrow> settled out c"
  by (simp add: calm_at_def settled_def)

lemma calm_at_start:
  "calm_at limit 65535 out ((serve_context limit [])\<lparr>transport_w := out\<rparr>)"
  by (simp add: calm_at_def serve_context_def server_context_new_def conn_state_default_def calm_def settings_default_def)

section \<open>SETTINGS\<close>

lemma ack_sent:
  assumes "suite_deps d fmt" and "out_scratch c = []"
  shows "write_frame d (settings_frame {SettingsAck}) [] c =
    (Ok (), c\<lparr>transport_w := transport_w c @ frame_wire d (settings_frame {SettingsAck}, [[]])\<rparr>)"
  using write_frame_calm[OF assms(1), of "settings_frame {SettingsAck}" "[]" c] assms(2)
  by (simp add: frame_new_def CONNECTION_def frame_fits_def sid_ok_def)

lemma settings_accepted:
  assumes "suite_deps d fmt" and "length p mod 6 = 0" and "fstream_id f = CONNECTION" and "ftype f = Settings {}"
    and "\<And>s enc. \<exists>s' enc'. settings_parse p on_setting (s, enc) = (Ok (), s', enc')" and "calm_at limit cap out c"
  shows "\<exists>c'. process_frame d f p (rx, c) = Some (Ok (), rx, c') \<and>
    calm_at limit cap (out @ frame_wire d (settings_frame {SettingsAck}, [[]])) c'"
proof -
  from assms(5) obtain ps enc where p: "settings_parse p on_setting (peer_settings (sc_state c), sc_hpack_enc c) = (Ok (), ps, enc)"
    by blast
  have "calm_at limit cap out (c\<lparr>sc_state := (sc_state c)\<lparr>peer_settings := ps\<rparr>, sc_hpack_enc := enc\<rparr>)"
    using assms(6) by (simp add: calm_at_def calm_def)
  then have w: "apply_initial_window d x (sc_state (c\<lparr>sc_state := (sc_state c)\<lparr>peer_settings := ps\<rparr>, sc_hpack_enc := enc\<rparr>)) =
      (Ok False, sc_state (c\<lparr>sc_state := (sc_state c)\<lparr>peer_settings := ps\<rparr>, sc_hpack_enc := enc\<rparr>))" for x
    using order_Nil[OF suite_depsD(1)[OF assms(1)]] by (simp add: apply_initial_window_def calm_at_def calm_def Let_def)
  show ?thesis
    using assms(2-4,6) w
    by (simp add: process_frame_def process_settings_def apply_settings_def p Let_def calm_at_def calm_def ack_sent[OF assms(1)])
qed

lemma calm_run_strengthen:
  assumes "calm_run d Q fs k T" and "calm_stable P" and "\<And>c. P c \<Longrightarrow> Q c"
  shows "calm_run d P fs k T"
  using assms(1)
proof (cases rule: calm_run.cases)
  case (run_frame f p Q' fs')
  then show ?thesis using calm_run.run_frame[OF assms(2), of d f p Q' fs' k T] assms(3) by blast
qed (use assms(2,3) in \<open>auto intro: run_done run_fails\<close>)

lemma calm_run_append:
  assumes "calm_run d P fs k Q" and "k = None" and "calm_run d Q gs k' T"
  shows "calm_run d P (fs @ gs) k' T"
  using assms
proof (induction rule: calm_run.induct)
  case (run_frame P f p Q fs k T)
  from calm_run.run_frame[OF run_frame.hyps(1,2) run_frame.IH[OF run_frame.prems]] show ?case by simp
qed (auto intro: calm_run_strengthen)

lemma calm_run_one:
  assumes "calm_stable P" and "calm_stable Q" and "\<And>c rx. P c \<Longrightarrow> \<exists>c'. process_frame d (fst x) (snd x) (rx, c) = Some (Ok (), rx, c') \<and> Q c'"
  shows "calm_run d P [x] None Q"
  using run_frame[OF assms(1,3) run_done[OF assms(2), of Q]] by simp

abbreviation pairs_bytes :: "(setting \<times> u32) list \<Rightarrow> bytes" where
  "pairs_bytes pairs \<equiv> concat (map setting_pair_bytes pairs)"

lemma settings_parse_pairs_bytes: "settings_parse (pairs_bytes pairs) cb s = visit_settings pairs cb s"
  by (simp add: settings_parse_def settings_parse_pairs length_setting_pairs del: length_concat)

lemma default_settings_visited:
  "\<exists>s' enc'. visit_settings default_settings on_setting (s, enc) = (Ok (), s', enc')"
  by (simp add: default_settings_def on_setting_def settings_apply_def DEFAULT_WINDOW_SIZE_def DEFAULT_FRAME_SIZE_def
      MAX_INITIAL_WINDOW_SIZE_def MAX_FRAME_SIZE_ALLOWED_RANGE_def)

section \<open>The handshake\<close>

lemma into_frame_eq: "into_frame = frame_new"
  by (intro ext) (simp add: into_frame_def frame_new_def)

abbreviation client_settings :: "'w deps \<Rightarrow> bytes" where
  "client_settings d \<equiv> frame_wire d (settings_frame {}, [pairs_bytes default_settings])"

abbreviation ack_wire :: "'w deps \<Rightarrow> bytes" where
  "ack_wire d \<equiv> frame_wire d (settings_frame {SettingsAck}, [[]])"

abbreviation server_hello :: "'w deps \<Rightarrow> u32 option \<Rightarrow> bytes" where
  "server_hello d limit \<equiv> frame_wire d (settings_frame {}, [hello limit]) @ ack_wire d"

lemma ack_accepted:
  assumes "fstream_id f = CONNECTION" and "ftype f = Settings {SettingsAck}"
  shows "process_frame d f [] (rx, c) = Some (Ok (), rx, c)"
  using assms by (simp add: process_frame_def process_settings_def)

lemma arrived_new:
  "deps_ok d \<Longrightarrow> frame_type_wf ft \<Longrightarrow> arrived d (frame_new ft sid) p = ((frame_new ft sid)\<lparr>flen := of_nat (length p)\<rparr>, p)"
  by (simp add: arrived_wf frame_new_def)

lemma frame_new_simps [simp]:
  "ftype (frame_new ft sid) = ft" "fstream_id (frame_new ft sid) = sid" "reserved (frame_new ft sid) = 0"
  by (simp_all add: frame_new_def)

text \<open>The server answers the client's SETTINGS with an acknowledgement and takes the client's for granted.\<close>

lemma handshake_run:
  assumes "suite_deps d fmt"
  shows "calm_run d (calm_at limit cap out) [arrived d (settings_frame {}) (pairs_bytes default_settings)] None
      (calm_at limit cap (out @ ack_wire d))"
    and "calm_run d (calm_at limit cap (out @ ack_wire d)) [arrived d (settings_frame {SettingsAck}) []] None
      (calm_at limit cap (out @ ack_wire d))"
proof -
  note d = suite_depsD[OF assms]
  have "\<exists>s' enc'. settings_parse (pairs_bytes default_settings) on_setting (s, enc) = (Ok (), s', enc')" for s enc
    unfolding settings_parse_pairs_bytes by (rule default_settings_visited)
  from settings_accepted[OF assms _ _ _ this]
  show "calm_run d (calm_at limit cap out) [arrived d (settings_frame {}) (pairs_bytes default_settings)] None
      (calm_at limit cap (out @ ack_wire d))"
    using length_setting_pairs[of default_settings]
    by (intro calm_run_one) (auto simp: arrived_new[OF d(1)] simp del: length_concat)
  show "calm_run d (calm_at limit cap (out @ ack_wire d)) [arrived d (settings_frame {SettingsAck}) []] None
      (calm_at limit cap (out @ ack_wire d))"
    by (intro calm_run_one) (auto simp: arrived_new[OF d(1)] ack_accepted)
qed

lemma cn_write_settings_wire:
  assumes "suite_deps d fmt" and "cn_scratch c = []" and "length pairs < 1000"
  shows "cn_write_settings d pairs c = (Ok (), c\<lparr>cn_w := cn_w c @ frame_wire d (settings_frame {}, [pairs_bytes pairs])\<rparr>)"
proof -
  note d = suite_depsD[OF assms(1)]
  have len: "length (pairs_bytes pairs) = length pairs * 6" by (rule length_setting_pairs)
  have "settings_piece d pairs [] = (Ok (pairs_bytes pairs), [])"
    using put_piece_ok[OF setting_pairs_writes[OF d(5), of pairs] len] assms(3) by (simp add: settings_piece_def)
  moreover have "frame_fits (settings_frame {}) (pairs_bytes pairs)"
    using assms(3) unfolding frame_fits_def len by (simp add: CONNECTION_def sid_ok_def)
  ultimately show ?thesis
    using cn_write_frame_wire[OF d(1,2)] assms(2) by (simp add: cn_write_settings_def into_frame_eq)
qed

lemma cn_write_raw_wire:
  assumes "suite_deps d fmt" and "cn_scratch c = []" and "frame_fits f p"
  shows "cn_write_frame d f (raw_piece p) c = (Ok (), c\<lparr>cn_w := cn_w c @ frame_wire d (f, [p])\<rparr>)"
  using cn_write_frame_wire[OF suite_depsD(1,2)[OF assms(1)] assms(3) _ assms(2)] by (simp add: raw_piece_def)

lemma cn_send_wire: "suite_deps d fmt \<Longrightarrow> cn_send d buf c = (Ok (), c\<lparr>cn_w := cn_w c @ buf\<rparr>)"
  by (simp add: cn_send_def suite_depsD vec_write_all_def)

lemma expect_frame_eq:
  "expect_frame T c =
     (let out = wait_loop T (cf_timeout (cn_config c)) (ev_ended c) None (ev_rx c)
      in (fwo_unwrap (fst out), c\<lparr>ev_rx := snd out\<rparr>))"
  by (simp add: expect_frame_def wait_for_frame_def Let_def split: prod.split)

text \<open>What the client has learnt of the server's settings.\<close>

definition known_settings :: "u32 option \<Rightarrow> settings" where
  "known_settings limit = settings_default\<lparr>max_concurrent_streams := Some (case limit of Some m \<Rightarrow> m | None \<Rightarrow> - 1)\<rparr>"

lemma hello_parsed:
  assumes "s = settings_default\<lparr>initial_window_size := i, max_frame_size := m\<rparr>"
  shows "settings_parse (hello limit) settings_apply s = (Ok (), known_settings limit)"
  unfolding hello_def settings_parse_pairs_bytes assms
  by (simp add: initial_settings_def settings_apply_def settings_default_def known_settings_def
      MAX_INITIAL_WINDOW_SIZE_def MAX_FRAME_SIZE_ALLOWED_RANGE_def)

lemma ack_fits: "frame_fits (settings_frame {SettingsAck}) []"
  by (simp add: frame_fits_def CONNECTION_def sid_ok_def)

lemma default_settings_short: "length default_settings < 1000"
  by (simp add: default_settings_def)

text \<open>Waiting and judging leave everything but the events.\<close>

lemma expect_assert_eq:
  "\<exists>r evs. bind_st (expect_frame T c) (\<lambda>(f, p) c. assert_step (b f p) c) = (r, c\<lparr>ev_rx := evs\<rparr>)"
  by (cases "fst (expect_frame T c)") (auto simp: expect_frame_eq Let_def assert_step_def split: prod.splits)

lemma handshake_writes:
  assumes "suite_deps d fmt" and "cn_scratch c = []" and "cn_handshake d c = (r, c')"
  shows "(cn_w c' = cn_w c @ PREFACE @ client_settings d \<and> r \<noteq> Ok () \<or>
      cn_w c' = cn_w c @ PREFACE @ client_settings d @ ack_wire d) \<and>
    cn_scratch c' = [] \<and> cn_hpack_enc c' = cn_hpack_enc c \<and> cn_config c' = cn_config c"
proof -
  let ?third = "\<lambda>c. bind_st (expect_frame {TSettings} c) (\<lambda>(frame, payload) c.
      if is_ack frame then (Panic, c)
      else (case settings_parse payload settings_apply (cn_settings c) of
         (r, s) \<Rightarrow> (map_err ReportSettings r, c\<lparr>cn_settings := s\<rparr>))) :: (unit, eyre) result \<times> bytes conn"
  let ?fifth = "\<lambda>c. bind_st (expect_frame {TSettings} c) (\<lambda>(frame, _) c. assert_step (is_ack frame) c) :: (unit, eyre) result \<times> bytes conn"
  let ?c1 = "c\<lparr>cn_w := cn_w c @ PREFACE @ client_settings d\<rparr>"
  have start: "cn_handshake d c =
      script [?third, cn_write_frame d (settings_frame {SettingsAck}) (raw_piece []), ?fifth] ?c1"
    using assms(2) by (simp add: cn_handshake_def cn_send_wire[OF assms(1)] cn_write_settings_wire[OF assms(1)] default_settings_short)
  have same: "\<exists>evs s. x\<lparr>ev_rx := e\<rparr> = x\<lparr>ev_rx := evs, cn_settings := s\<rparr>" for x :: "bytes conn" and e
    by (rule exI[of _ e], rule exI[of _ "cn_settings x"]) simp
  have "\<exists>r evs s. ?third x = (r, x\<lparr>ev_rx := evs, cn_settings := s\<rparr>)" for x
    by (cases "fst (expect_frame {TSettings} x)") (auto simp: expect_frame_eq Let_def same split: prod.splits)
  then obtain r1 evs s where third: "?third ?c1 = (r1, ?c1\<lparr>ev_rx := evs, cn_settings := s\<rparr>)" by blast
  define c3 where "c3 = ?c1\<lparr>ev_rx := evs, cn_settings := s, cn_w := cn_w ?c1 @ ack_wire d\<rparr>"
  obtain r2 evs2 where fifth: "?fifth c3 = (r2, c3\<lparr>ev_rx := evs2\<rparr>)"
    using expect_assert_eq[of "{TSettings}" c3 "\<lambda>f _. is_ack f"] by blast
  show ?thesis
  proof (cases r1)
    case (Ok u)
    then have "cn_handshake d c = script [?fifth] c3"
      unfolding start script.simps third using cn_write_raw_wire[OF assms(1) _ ack_fits] assms(2) by (simp add: c3_def)
    then have "cn_handshake d c = (r2, c3\<lparr>ev_rx := evs2\<rparr>)" unfolding script.simps fifth by (cases r2) simp_all
    with assms(2,3) show ?thesis by (auto simp: c3_def)
  next
    case (Err e)
    then have "cn_handshake d c = (Err e, ?c1\<lparr>ev_rx := evs, cn_settings := s\<rparr>)" unfolding start script.simps third by simp
    with assms(2,3) show ?thesis by auto
  next
    case Panic
    then have "cn_handshake d c = (Panic, ?c1\<lparr>ev_rx := evs, cn_settings := s\<rparr>)" unfolding start script.simps third by simp
    with assms(2,3) show ?thesis by auto
  qed
qed

lemma handshake_ok:
  assumes "suite_deps d fmt" and "cn_scratch c = []"
    and "ev_rx c = ev_of (arrived d (settings_frame {}) (hello limit)) # ev_of (arrived d (settings_frame {SettingsAck}) []) # evs"
    and "cn_settings c = settings_default\<lparr>initial_window_size := i, max_frame_size := m\<rparr>"
  shows "cn_handshake d c = (Ok (), c\<lparr>cn_w := cn_w c @ PREFACE @ client_settings d @ ack_wire d, ev_rx := evs,
    cn_settings := known_settings limit\<rparr>)"
  using assms(2-4) hello_parsed[OF assms(4)]
  by (simp add: cn_handshake_def cn_send_wire[OF assms(1)] cn_write_settings_wire[OF assms(1)] default_settings_short
      expect_frame_eq arrived_new suite_depsD(1)[OF assms(1)] is_ack_def cn_write_raw_wire[OF assms(1) _ ack_fits]
      assert_step_def)

section \<open>From runs to tests\<close>

text \<open>How a run of the frames and the outcome of the deframer together end the connection.\<close>

fun final_code :: "known_error_code option \<Rightarrow> (unit, h2_connection_error) result \<Rightarrow> known_error_code option" where
  "final_code k (Err e) = Some (conn_error_code e)"
| "final_code k _ = k"

definition ends_well :: "known_error_code option \<Rightarrow> (unit, h2_connection_error) result \<Rightarrow> bool" where
  "ends_well k r \<longleftrightarrow> (case r of Ok _ \<Rightarrow> True | Err e \<Rightarrow> k = None \<and> (\<forall>x. e \<noteq> ReadAndParse x) | Panic \<Rightarrow> False)"

fun goodbye :: "known_error_code option \<Rightarrow> stream_id \<Rightarrow> bytes \<Rightarrow> (frame \<times> bytes) list" where
  "goodbye None lsid msg = []"
| "goodbye (Some k) lsid msg = [(goaway_frame, goaway_bytes lsid k msg)]"

lemma first_context:
  assumes "suite_deps d fmt" and "send_initial_settings d (serve_context limit []) = (Ok (), c)"
  shows "c = (serve_context limit [])\<lparr>transport_w := frame_wire d (settings_frame {}, [hello limit])\<rparr>"
    and "max_frame_size (self_settings (sc_state c)) = 16384"
    and "calm_at limit 65535 (frame_wire d (settings_frame {}, [hello limit])) c"
  using hello_sent[OF assms(1), of limit] assms(2) calm_at_start[of limit "frame_wire d (settings_frame {}, [hello limit])"]
  by (auto simp: calm_at_def settings_default_def)

lemma observed_output:
  assumes "suite_deps d fmt" and "observed d fmt (serve_context limit []) (PREFACE @ i) (out, closed)"
    and "deframe_bytes (d_ef d) 16384 i = (fs, r)" and "ends_well k r"
    and "calm_run d (calm_at limit 65535 (frame_wire d (settings_frame {}, [hello limit]))) fs k (settled (wires d rs))"
  shows "\<exists>lsid msg. out = wires d (rs @ goodbye (final_code k r) lsid msg) \<and> 8 + length msg \<le> 16384"
proof -
  note d = suite_depsD[OF assms(1)]
  have closes: "\<exists>lsid msg. transport_w c'' = wires d (rs @ goodbye (Some (conn_error_code e)) lsid msg) \<and> 8 + length msg \<le> 16384"
    if "close_connection d fmt (Ok (Some e), c') = (res :: (_, unit serve_error) result, c'')" "settled (wires d rs) c'" for e c' c'' res
    using goaway_sent[OF assms(1), of c' e, where 'd = unit] that d(3)[of e] by (auto simp: settled_def)
  from assms(2) show ?thesis
  proof (cases rule: observed.cases)
    case (obs_waiting c gs c')
    note c = first_context[OF assms(1) obs_waiting(3)]
    from obs_waiting assms(3) c(2) have "r = Ok ()" "gs = fs" by auto
    with calm_run_steps[OF d(1) assms(5) c(3)] obs_waiting have "k = None" "settled (wires d rs) c'" by auto
    then show ?thesis using obs_waiting \<open>r = Ok ()\<close> by (auto simp: settled_def intro: exI[of _ "[]"])
  next
    case (obs_failed c gs pr c' res c'')
    note c = first_context[OF assms(1) obs_failed(3)]
    have "run_agrees k (settled (wires d rs)) (gs = fs) (pr, c')"
      using calm_run_loop[OF d(1) obs_failed(5) assms(5) c(3)] obs_failed(4) c(2) assms(3) by simp
    with obs_failed(6) obtain e where e: "pr = Err e" "k = Some (conn_error_code e)" "settled (wires d rs) c'"
      by (auto simp: run_agrees_def split: result.splits)
    with assms(4) have "final_code k r = Some (conn_error_code e)" by (cases r) (auto simp: ends_well_def)
    with closes[of e c'] e obs_failed show ?thesis by auto
  next
    case (obs_refused c gs e pr c' res c'')
    note c = first_context[OF assms(1) obs_refused(3)]
    have r: "r = Err e" "gs = fs" using obs_refused(4) c(2) assms(3) by auto
    with assms(4) have "k = None" by (simp add: ends_well_def)
    with calm_run_loop[OF d(1) obs_refused(6) assms(5) c(3)] r obtain u where "pr = Ok u" "settled (wires d rs) c'"
      by (auto simp: run_agrees_def split: result.splits)
    with closes[of e c'] obs_refused r show ?thesis by auto
  qed
qed

lemma observed_exists:
  assumes "suite_deps d fmt" and "deframe_bytes (d_ef d) 16384 i = (fs, r)" and "ends_well k r"
    and "calm_run d (calm_at limit 65535 (frame_wire d (settings_frame {}, [hello limit]))) fs k T"
  shows "\<exists>out closed. observed d fmt (serve_context limit []) (PREFACE @ i) (out, closed)"
proof -
  let ?c = "(serve_context limit [])\<lparr>transport_w := frame_wire d (settings_frame {}, [hello limit])\<rparr>"
  note hello = hello_sent[OF assms(1), of limit]
  note c = first_context[OF assms(1) hello]
  have df: "deframe_bytes (d_ef d) (max_frame_size (self_settings (sc_state ?c))) i = (fs, r)" using c(2) assms(2) by simp
  show ?thesis
  proof (cases k)
    case None
    with calm_run_exists[OF assms(4) c(3)] obtain c' where c': "(conn_step d)\<^sup>*\<^sup>* (fs, ?c) ([], c')" "process_loop d (fs, ?c) (Ok (), c')"
      by auto
    show ?thesis
    proof (cases r)
      case (Ok u)
      with obs_waiting[OF hello, of i fs c' fmt] df c'(1) show ?thesis by auto
    next
      case (Err e)
      obtain res c'' where "close_connection d fmt (Ok (Some e), c') = (res :: (_, unit serve_error) result, c'')" by (rule prod.exhaust)
      with obs_refused[OF hello df[unfolded Err] _ c'(2), of fmt res c''] assms(3) Err show ?thesis by (auto simp: ends_well_def)
    qed (use assms(3) in \<open>simp add: ends_well_def\<close>)
  next
    case (Some code)
    with calm_run_exists[OF assms(4) c(3)] obtain e c' where c': "process_loop d (fs, ?c) (Err e, c')" by auto
    obtain res c'' where "close_connection d fmt (Ok (Some e), c') = (res :: (_, unit serve_error) result, c'')" by (rule prod.exhaust)
    with obs_failed[OF hello _ c', of i fmt res c''] df show ?thesis by auto
  qed
qed

text \<open>The connection of the client after the handshake, and what a part of a test writes whatever has arrived.\<close>

definition shaken :: "config \<Rightarrow> bytes conn \<Rightarrow> bool" where
  "shaken config c \<longleftrightarrow> cn_scratch c = [] \<and> cn_hpack_enc c = encoder_new \<and> cn_config c = config"

definition puts :: "u32 option \<Rightarrow> config \<Rightarrow> bytes test_step list \<Rightarrow> bytes \<Rightarrow> bool" where
  "puts limit config ws bs \<longleftrightarrow> (\<forall>c. shaken config c \<longrightarrow>
     (\<exists>r c'. script ws c = (r, c') \<and> ev_rx c' = ev_rx c \<and>
        (cn_w c' = cn_w c @ bs \<and> r = Ok () \<or> cn_w c' = cn_w c \<and> r \<noteq> Ok () \<and> cn_settings c \<noteq> known_settings limit)))"

definition silent_steps :: "bytes test_step list \<Rightarrow> bool" where
  "silent_steps vs \<longleftrightarrow> (\<forall>c. cn_w (snd (script vs c)) = cn_w c)"

lemma script_append: "script (fs @ gs) c = bind_st (script fs c) (\<lambda>_ c. script gs c)"
proof (induction fs arbitrary: c)
  case (Cons f fs)
  obtain r c1 where "f c = (r, c1)" by (cases "f c")
  with Cons.IH show ?case by (cases r) simp_all
qed simp

lemma hello_fits: "frame_fits (settings_frame {}) (hello limit)"
  using length_hello[of limit] by (simp add: frame_fits_def CONNECTION_def sid_ok_def)

lemma goodbye_fits: "8 + length msg \<le> 16384 \<Longrightarrow> \<forall>(f, p)\<in>set (goodbye k lsid msg). frame_fits f p"
  by (cases k) (auto simp: frame_fits_def CONNECTION_def sid_ok_def goaway_bytes_def u32_to_be_bytes_def)

lemma deframe_handshake:
  assumes "suite_deps d fmt" and "deframe_bytes (d_ef d) 16384 i = (fs, r)"
  shows "deframe_bytes (d_ef d) 16384 (client_settings d @ i) =
      (arrived d (settings_frame {}) (pairs_bytes default_settings) # fs, r)"
    and "deframe_bytes (d_ef d) 16384 (ack_wire d @ i) = (arrived d (settings_frame {SettingsAck}) [] # fs, r)"
proof -
  note d = suite_depsD[OF assms(1)]
  have len: "length (pairs_bytes default_settings) = 12"
    unfolding length_setting_pairs by (simp add: default_settings_def)
  then have fits: "frame_fits (settings_frame {}) (pairs_bytes default_settings)"
    by (simp add: frame_fits_def CONNECTION_def sid_ok_def)
  show "deframe_bytes (d_ef d) 16384 (client_settings d @ i) =
      (arrived d (settings_frame {}) (pairs_bytes default_settings) # fs, r)"
    using deframe_bytes_wire[OF d(1) fits, of 16384 i] len assms(2) by (simp add: arrived_new[OF d(1)] has_padding_def)
  show "deframe_bytes (d_ef d) 16384 (ack_wire d @ i) = (arrived d (settings_frame {SettingsAck}) [] # fs, r)"
    using deframe_bytes_wire[OF d(1) ack_fits, of 16384 i] assms(2) by (simp add: arrived_new[OF d(1)] has_padding_def)
qed

text \<open>A client that has received the server's half of the handshake.\<close>

abbreviation handshaken :: "u32 option \<Rightarrow> (frame \<times> bytes) list" where
  "handshaken limit \<equiv> [(settings_frame {}, hello limit), (settings_frame {SettingsAck}, [])]"

abbreviation client_conn :: "bytes deps \<Rightarrow> config \<Rightarrow> bytes \<Rightarrow> bool \<Rightarrow> bytes conn" where
  "client_conn d config out ended \<equiv> conn_new config [] (map ev_of (fst (recv_bytes (d_ef d) out))) ended"

lemma handshake_received:
  assumes "suite_deps d fmt" and "out = wires d (handshaken limit @ X)" and "\<forall>(f, p)\<in>set X. frame_fits f p"
  shows "\<exists>c'. cn_handshake d (client_conn d config out ended) = (Ok (), c') \<and>
    cn_w c' = PREFACE @ client_settings d @ ack_wire d \<and> ev_rx c' = map ev_of (map (\<lambda>(f, p). arrived d f p) X) \<and>
    shaken config c' \<and> cn_settings c' = known_settings limit"
proof -
  have "recv_bytes (d_ef d) out = (map (\<lambda>(f, p). arrived d f p) (handshaken limit @ X), Ok ())"
    using recv_bytes_wires[OF suite_depsD(1)[OF assms(1)], of "handshaken limit @ X"] assms(2,3) hello_fits ack_fits by simp
  then have "ev_rx (client_conn d config out ended) = ev_of (arrived d (settings_frame {}) (hello limit)) #
      ev_of (arrived d (settings_frame {SettingsAck}) []) # map ev_of (map (\<lambda>(f, p). arrived d f p) X)"
    by (simp add: conn_new_def)
  from handshake_ok[OF assms(1) _ this] show ?thesis by (simp add: conn_new_def shaken_def)
qed

text \<open>The frames of the handshake as the server receives them, and the run on them.\<close>

abbreviation greeting :: "bytes deps \<Rightarrow> (frame \<times> bytes) list" where
  "greeting d \<equiv> [arrived d (settings_frame {}) (pairs_bytes default_settings), arrived d (settings_frame {SettingsAck}) []]"

abbreviation before_hello :: "bytes deps \<Rightarrow> u32 option \<Rightarrow> bytes server_context \<Rightarrow> bool" where
  "before_hello d limit \<equiv> calm_at limit 65535 (frame_wire d (settings_frame {}, [hello limit]))"

lemma greeting_run:
  assumes "suite_deps d fmt" and "calm_run d (calm_at limit 65535 (server_hello d limit)) fs k T"
  shows "calm_run d (before_hello d limit) (greeting d @ fs) k T"
  using calm_run_append[OF handshake_run(1)[OF assms(1)] _ calm_run_append[OF handshake_run(2)[OF assms(1)] _ assms(2)]] by simp

lemma only_greeting_run:
  assumes "suite_deps d fmt" and "gs = [hd (greeting d)] \<or> gs = greeting d"
  shows "calm_run d (before_hello d limit) gs None (settled (wires d (handshaken limit)))"
proof -
  have "calm_run d (calm_at limit 65535 (server_hello d limit)) [] None (settled (wires d (handshaken limit)))"
    by (rule run_done) (auto dest: calm_at_settled)
  from calm_run_append[OF handshake_run(1)[OF assms(1)] _ this] greeting_run[OF assms(1) this] assms(2) show ?thesis by auto
qed

lemma only_greeting_observed:
  assumes "suite_deps d fmt" and "i = client_settings d \<or> i = client_settings d @ ack_wire d"
    and "observed d fmt (serve_context limit []) (PREFACE @ i) (out, closed)"
  shows "out = wires d (handshaken limit)"
proof -
  have "deframe_bytes (d_ef d) 16384 (client_settings d) = ([hd (greeting d)], Ok ())"
      "deframe_bytes (d_ef d) 16384 (client_settings d @ ack_wire d) = (greeting d, Ok ())"
    using deframe_handshake[OF assms(1), of "[]"] deframe_handshake(1)[OF assms(1), of "ack_wire d"] by simp_all
  then obtain gs where "deframe_bytes (d_ef d) 16384 i = (gs, Ok ())" "gs = [hd (greeting d)] \<or> gs = greeting d"
    using assms(2) by blast
  from observed_output[OF assms(1,3) this(1) _ only_greeting_run[OF assms(1) this(2)]] show ?thesis
    by (auto simp: ends_well_def)
qed

text \<open>A test that shakes hands, writes, and then judges.\<close>

lemma passes_script:
  assumes sd: "suite_deps d fmt" and wr: "puts limit config ws bs" and vs: "silent_steps vs"
    and df: "deframe_bytes (d_ef d) 16384 bs = (fs, r)" and ends: "ends_well k r"
    and run: "calm_run d (calm_at limit 65535 (server_hello d limit)) fs k (settled (server_hello d limit @ wires d rs))"
    and rs: "\<forall>(f, p)\<in>set rs. frame_fits f p"
    and judge: "\<And>c lsid msg. ev_rx c = map ev_of (map (\<lambda>(f, p). arrived d f p) (rs @ goodbye (final_code k r) lsid msg)) \<Longrightarrow>
      8 + length msg \<le> 16384 \<Longrightarrow> fst (script vs c) = Ok ()"
  shows "passes d fmt limit config (script (cn_handshake d # ws @ vs))"
  unfolding passes_def
proof (intro allI conjI impI)
  fix ended
  let ?test = "script (cn_handshake d # ws @ vs)" and ?obs = "observed d fmt (serve_context limit [])"
  let ?i = "client_settings d @ ack_wire d @ bs"
  have df: "deframe_bytes (d_ef d) 16384 ?i = (greeting d @ fs, r)"
    using deframe_handshake(1)[OF sd deframe_handshake(2)[OF sd df]] by simp
  have full: "calm_run d (before_hello d limit) (greeting d @ fs) k (settled (wires d (handshaken limit @ rs)))"
    using greeting_run[OF sd run] by simp
  have answered: "\<exists>c'. judged d config ?test out ended = script vs c' \<and> cn_w c' = PREFACE @ ?i \<and> fst (script vs c') = Ok ()"
    if obs: "?obs (PREFACE @ ?i) (out, closed)" for out closed
  proof -
    from observed_output[OF sd obs df ends full] obtain lsid msg where
      out: "out = wires d (handshaken limit @ rs @ goodbye (final_code k r) lsid msg)" and msg: "8 + length msg \<le> 16384" by auto
    have "\<forall>(f, p)\<in>set (rs @ goodbye (final_code k r) lsid msg). frame_fits f p"
      using rs goodbye_fits[OF msg, of "final_code k r" lsid] by auto
    from handshake_received[OF sd out this, of config ended] obtain c1 where
      c1: "cn_handshake d (client_conn d config out ended) = (Ok (), c1)" "cn_w c1 = PREFACE @ client_settings d @ ack_wire d"
        "ev_rx c1 = map ev_of (map (\<lambda>(f, p). arrived d f p) (rs @ goodbye (final_code k r) lsid msg))"
        "shaken config c1" "cn_settings c1 = known_settings limit" by blast
    with wr obtain c2 where c2: "script ws c1 = (Ok (), c2)" "cn_w c2 = cn_w c1 @ bs" "ev_rx c2 = ev_rx c1"
      unfolding puts_def by blast
    have "judged d config ?test out ended = script vs c2" using c1(1) c2(1) by (simp add: judged_def script_append)
    with judge[OF _ msg, of c2 lsid] c1(2,3) c2(2,3) show ?thesis by auto
  qed
  show "\<exists>out closed. ?obs (cn_w (snd (judged d config ?test out ended))) (out, closed)"
    using observed_exists[OF sd df ends full] answered vs unfolding silent_steps_def by metis
  fix out closed assume obs: "?obs (cn_w (snd (judged d config ?test out ended))) (out, closed)"
  obtain r0 c0 where h: "cn_handshake d (client_conn d config out ended) = (r0, c0)" by (rule prod.exhaust)
  have c0: "cn_w c0 = PREFACE @ client_settings d \<and> r0 \<noteq> Ok () \<or> cn_w c0 = PREFACE @ client_settings d @ ack_wire d"
      "shaken config c0"
    using handshake_writes[OF sd _ h] by (simp_all add: conn_new_def shaken_def)
  have opened: "r0 = Ok () \<and> cn_settings c0 = known_settings limit" if "out = wires d (handshaken limit)"
    using handshake_received[OF sd, of out limit "[]" config ended] that h by auto
  have r0: "r0 = Ok ()"
  proof (rule ccontr)
    assume "r0 \<noteq> Ok ()"
    then have "snd (judged d config ?test out ended) = c0" using h by (cases r0) (simp_all add: judged_def)
    with obs c0(1) have "?obs (PREFACE @ client_settings d) (out, closed) \<or> ?obs (PREFACE @ client_settings d @ ack_wire d) (out, closed)"
      by auto
    then have "out = wires d (handshaken limit)" by (blast intro: only_greeting_observed[OF sd])
    with opened \<open>r0 \<noteq> Ok ()\<close> show False by blast
  qed
  with c0 have "cn_w c0 = PREFACE @ client_settings d @ ack_wire d" by simp
  from wr c0(2) obtain r1 c1 where c1: "script ws c0 = (r1, c1)"
    "cn_w c1 = cn_w c0 @ bs \<and> r1 = Ok () \<or> cn_w c1 = cn_w c0 \<and> r1 \<noteq> Ok () \<and> cn_settings c0 \<noteq> known_settings limit"
    unfolding puts_def by blast
  have r1: "r1 = Ok ()"
  proof (rule ccontr)
    assume "r1 \<noteq> Ok ()"
    then have "snd (judged d config ?test out ended) = c1" using h r0 c1(1) by (cases r1) (simp_all add: judged_def script_append)
    with obs c1(2) \<open>r1 \<noteq> Ok ()\<close> \<open>cn_w c0 = _\<close> only_greeting_observed[OF sd, of "client_settings d @ ack_wire d" limit out closed] opened
    show False by auto
  qed
  with c1(2) \<open>cn_w c0 = _\<close> vs h r0 c1(1) have "cn_w (snd (judged d config ?test out ended)) = PREFACE @ ?i"
    by (simp add: judged_def script_append silent_steps_def)
  with answered[of out closed] obs show "fst (judged d config ?test out ended) = Ok ()" by auto
qed

end
