(* ===== verification/Httpwg_Errors.thy ===== *)
theory Httpwg_Errors
  imports Httpwg_Conform
begin

text \<open>
  The tests of the conformance suite in which the client breaks a rule of the connection and expects it to be
  closed with an error code. What a part of a test sends is computed by \<open>emits\<close>, step by step; \<open>refused\<close> says that
  the server ends the connection on these frames, and with which code.
\<close>

section \<open>What a part of a test sends\<close>

definition emits ::
    "bytes deps \<Rightarrow> config \<Rightarrow> encoder \<Rightarrow> bytes test_step \<Rightarrow> (frame \<times> bytes) list \<Rightarrow> encoder \<Rightarrow> bool" where
  "emits d config E w ps E' \<longleftrightarrow> (\<forall>c. cn_scratch c = [] \<and> cn_hpack_enc c = E \<and> cn_config c = config \<longrightarrow>
     w c = (Ok (), c\<lparr>cn_w := cn_w c @ wires d ps, cn_hpack_enc := E'\<rparr>))"

lemma emits_Nil: "emits d config E (script []) [] E"
  by (simp add: emits_def)

lemma emits_Cons:
  assumes "emits d config E f ps E1" and "emits d config E1 (script fs) qs E2"
  shows "emits d config E (script (f # fs)) (ps @ qs) E2"
  using assms by (simp add: emits_def)

lemma emits_one: "emits d config E f ps E' \<Longrightarrow> emits d config E (script [f]) ps E'"
  using emits_Cons[OF _ emits_Nil, of d config E f ps E'] by simp

lemma emits_frame:
  assumes "suite_deps d fmt" and "frame_fits f p" and "payload [] = (Ok p, [])"
  shows "emits d config E (cn_write_frame d f payload) [(f, p)] E"
  unfolding emits_def
proof (intro allI impI)
  fix c :: "bytes conn" assume c: "cn_scratch c = [] \<and> cn_hpack_enc c = E \<and> cn_config c = config"
  have "c\<lparr>cn_w := cn_w c @ frame_wire d (f, [p]), cn_hpack_enc := E\<rparr> = c\<lparr>cn_w := cn_w c @ frame_wire d (f, [p])\<rparr>"
    using c by simp
  with c cn_write_frame_wire[where payload = payload and c = c, OF suite_depsD(1,2)[OF assms(1)] assms(2,3)]
  show "cn_write_frame d f payload c = (Ok (), c\<lparr>cn_w := cn_w c @ wires d [(f, p)], cn_hpack_enc := E\<rparr>)" by simp
qed

lemma emits_raw: "suite_deps d fmt \<Longrightarrow> frame_fits f p \<Longrightarrow> emits d config E (cn_write_frame d f (raw_piece p)) [(f, p)] E"
  by (rule emits_frame) (simp_all add: raw_piece_def)

lemma emits_block:
  assumes "enc_inv E" and "\<And>c. cn_config c = config \<Longrightarrow> headers c = hs"
    and "emits d config (foldl enc_after E hs) (k (encode_bytes E hs)) ps E'"
  shows "emits d config E (with_block headers k) ps E'"
  using assms by (simp add: emits_def with_block_def cn_encode_headers_def encode_into_vec)

lemma emits_ignoring: "emits d config E f ps E' \<Longrightarrow> emits d config E (ignoring f) ps E'"
  by (simp add: emits_def ignoring_def)

lemma emits_puts: "emits d config encoder_new (script ws) ps E \<Longrightarrow> puts limit config ws (wires d ps)"
  by (auto simp: emits_def puts_def shaken_def)

text \<open>Frames that a deframer passes on as they are.\<close>

definition plain :: "'w deps \<Rightarrow> frame \<times> bytes \<Rightarrow> bool" where
  "plain d fp \<longleftrightarrow> frame_fits (fst fp) (snd fp) \<and> length (snd fp) \<le> 16384 \<and> \<not> has_padding (fst (arrived d (fst fp) (snd fp)))"

lemma deframe_plain:
  assumes "deps_ok d" and "\<forall>fp\<in>set ps. plain d fp"
  shows "deframe_bytes (d_ef d) 16384 (wires d ps) = (map (\<lambda>(f, p). arrived d f p) ps, Ok ())"
  using assms(2)
proof (induction ps)
  case (Cons fp ps)
  obtain f p where "fp = (f, p)" by (cases fp)
  with Cons deframe_bytes_wire[OF assms(1), of f p 16384 "wires d ps"] show ?case by (simp add: plain_def)
qed simp

lemma plain_new:
  assumes "deps_ok d" and "frame_type_wf ft" and "length p \<le> 16384" and "sid_ok sid"
    and "\<not> has_padding (frame_new ft sid)"
  shows "plain d (frame_new ft sid, p)"
  using assms frame_fits_new[of p sid ft]
  by (auto simp: plain_def arrived_new has_padding_def split: frame_type.splits)

section \<open>What a test demands\<close>

abbreviation arrivals :: "'w deps \<Rightarrow> (frame \<times> bytes) list \<Rightarrow> ev list" where
  "arrivals d fps \<equiv> map ev_of (map (\<lambda>(f, p). arrived d f p) fps)"

lemma silent_wait: "wait_for_frame T c = (out, c') \<Longrightarrow> cn_w c' = cn_w c"
  by (auto simp: wait_for_frame_def split: prod.splits)

lemma silent_expect:
  assumes "\<And>x c. cn_w (snd (k x c)) = cn_w c"
  shows "cn_w (snd (bind_st (expect_frame T c) k)) = cn_w c"
proof (cases "fst (expect_frame T c)")
  case (Ok x)
  with assms[of x] show ?thesis by (simp add: expect_frame_eq Let_def)
qed (simp_all add: expect_frame_eq Let_def)

lemma script_one: "script [f] = f"
proof
  fix c
  obtain r c' where "f c = (r, c')" by (cases "f c")
  then show "script [f] c = f c" by (cases r) simp_all
qed

lemma script_nested: "script (fs @ [script gs]) = script (fs @ gs)"
  by (intro ext) (simp only: script_append script_one)

lemma silent_one: "(\<And>c. cn_w (snd (f c)) = cn_w c) \<Longrightarrow> silent_steps [f]"
  unfolding silent_steps_def script_one by simp

lemma silent_verify [simp]:
  "silent_steps [cn_verify_connection_error d codes]" "silent_steps [cn_verify_stream_error d codes]"
  "silent_steps [cn_verify_connection_close]"
  by (auto intro!: silent_one simp: cn_verify_connection_error_def cn_verify_stream_error_def cn_verify_connection_close_def
      dest!: silent_wait split: prod.split frame_wait_outcome.split frame_type.split)

lemma silent_verify_ack [simp]:
  "silent_steps [cn_verify_ping_frame_with_ack data]" "silent_steps [cn_verify_settings_frame_with_ack]"
  by (auto intro!: silent_one silent_expect
      simp: cn_verify_ping_frame_with_ack_def cn_verify_settings_frame_with_ack_def assert_step_def split: prod.split)

text \<open>A GOAWAY after frames that the test does not wait for.\<close>

definition no_errors :: "'w deps \<Rightarrow> (frame \<times> bytes) list \<Rightarrow> bool" where
  "no_errors d rs \<longleftrightarrow> (\<forall>(f, p)\<in>set rs. frame_t_from (ftype (fst (arrived d f p))) \<notin> {TGoAway, TRstStream})"

definition demands_error :: "'w deps \<Rightarrow> error_c set \<Rightarrow> 'w test_step \<Rightarrow> bool" where
  "demands_error d codes v \<longleftrightarrow>
     v = cn_verify_connection_error d codes \<or> v = cn_verify_stream_error d codes \<or> v = cn_verify_connection_close"

lemma goaway_judged:
  assumes "suite_deps d fmt" and "no_errors d rs" and "demands_error d codes v" and "error_c_from k \<in> codes"
    and "ev_rx c = arrivals d (rs @ goodbye (Some k) lsid msg)" and "8 + length msg \<le> 16384"
  shows "fst (script [v] c) = Ok ()"
proof -
  note d = suite_depsD[OF assms(1)]
  let ?g = "arrived d goaway_frame (goaway_bytes lsid k msg)"
  have g: "ftype (fst ?g) = GoAway" "snd ?g = goaway_bytes lsid k msg" by (simp_all add: arrived_new[OF d(1)])
  have rs: "\<forall>fp\<in>set (map (\<lambda>(f, p). arrived d f p) rs). frame_t_from (ftype (fst fp)) \<notin> T" if "T \<subseteq> {TGoAway, TRstStream}" for T
    using assms(2) that by (auto simp: no_errors_def)
  have "wait_for_frame T c = (Success (fst ?g) (goaway_bytes lsid k msg), c\<lparr>ev_rx := []\<rparr>)" if "T \<subseteq> {TGoAway, TRstStream}" "TGoAway \<in> T" for T
    using wait_loop_found[OF rs[OF that(1)], of "fst ?g" "cf_timeout (cn_config c)" "ev_ended c" None "snd ?g" "[]"] g that(2) assms(5)
    by (simp add: wait_for_frame_def)
  from this[of "{TGoAway}"] this[of "{TGoAway, TRstStream}"] assms(3,4) g goaway_code_bytes[OF d(6)] show ?thesis
    by (auto simp: demands_error_def cn_verify_connection_error_def cn_verify_stream_error_def cn_verify_connection_close_def)
qed

lemma demands_silent: "demands_error d codes v \<Longrightarrow> silent_steps [v]"
  by (auto simp: demands_error_def)

lemma ping_judged:
  assumes "suite_deps d fmt" and "ev_rx c = arrivals d (rs @ (frame_new (Ping {PingAck}) CONNECTION, data) # rs')"
    and "\<forall>(f, p)\<in>set rs. frame_t_from (ftype (fst (arrived d f p))) \<noteq> TPing"
  shows "fst (script [cn_verify_ping_frame_with_ack data] c) = Ok ()"
proof -
  let ?g = "arrived d (frame_new (Ping {PingAck}) CONNECTION) data"
  have g: "ftype (fst ?g) = Ping {PingAck}" "snd ?g = data" by (simp_all add: arrived_new[OF suite_depsD(1)[OF assms(1)]])
  have "\<forall>fp\<in>set (map (\<lambda>(f, p). arrived d f p) rs). frame_t_from (ftype (fst fp)) \<notin> {TPing}"
    using assms(3) by auto
  from wait_loop_found[OF this, of "fst ?g" "cf_timeout (cn_config c)" "ev_ended c" None "snd ?g" "arrivals d rs'"] g assms(2)
  show ?thesis by (simp add: cn_verify_ping_frame_with_ack_def expect_frame_eq Let_def is_ack_def)
qed

section \<open>Tests that end with an error\<close>

text \<open>A frame that ends the connection, whatever has been sent so far.\<close>

definition refused :: "bytes deps \<Rightarrow> u32 option \<Rightarrow> (frame \<times> bytes) list \<Rightarrow> known_error_code \<Rightarrow> bool" where
  "refused d limit fps k \<longleftrightarrow> (\<forall>out. calm_run d (calm_at limit 65535 out) (map (\<lambda>(f, p). arrived d f p) fps) (Some k) (settled out))"

lemma passes_refused:
  assumes "suite_deps d fmt" and "emits d config encoder_new (script ws) ps E" and "\<forall>fp\<in>set ps. plain d fp"
    and "refused d limit ps k" and "demands_error d codes v" and "error_c_from k \<in> codes"
  shows "passes d fmt limit config (script (cn_handshake d # ws @ [v]))"
proof (rule passes_script[OF assms(1) emits_puts[OF assms(2)] demands_silent[OF assms(5)]
      deframe_plain[OF suite_depsD(1)[OF assms(1)] assms(3)], where k = "Some k" and rs = "[]"])
  show "ends_well (Some k) (Ok ())" by (simp add: ends_well_def)
  show "calm_run d (calm_at limit 65535 (server_hello d limit)) (map (\<lambda>(f, p). arrived d f p) ps) (Some k)
      (settled (server_hello d limit @ wires d []))"
    using assms(4) by (simp add: refused_def)
  show "fst (script [v] c) = Ok ()"
    if "ev_rx c = arrivals d ([] @ goodbye (final_code (Some k) (Ok ())) lsid msg)" "8 + length msg \<le> 16384" for c lsid msg
    using goaway_judged[OF assms(1) _ assms(5,6), of "[]" c lsid msg] that by (simp add: no_errors_def)
qed simp

section \<open>Header blocks\<close>

text \<open>The size of a block: its names and values and at most eleven bytes for each field.\<close>

lemma length_continuation_bytes: "v < 128 ^ Suc k \<Longrightarrow> length (continuation_bytes v) \<le> Suc k"
proof (induction k arbitrary: v)
  case 0
  then show ?case by (subst continuation_bytes.simps) simp
next
  case (Suc k)
  then have "v div 128 < 128 ^ Suc k" by (simp add: less_mult_imp_div_less mult.commute)
  from Suc.IH[OF this] show ?case by (subst continuation_bytes.simps) simp
qed

lemma length_integer_bytes: "v < 2 ^ 28 \<Longrightarrow> length (integer_bytes v n lead) \<le> 5"
proof -
  assume "v < 2 ^ 28"
  then have "v - (2 ^ n - 1) < 2 ^ 28" by (rule le_less_trans[OF diff_le_self])
  then have "v - (2 ^ n - 1) < 128 ^ Suc 3" using power_mult[of "2 :: nat" 7 4] by simp
  from length_continuation_bytes[OF this] show ?thesis unfolding integer_bytes_def by simp
qed

definition fields_size :: "header list \<Rightarrow> nat" where
  "fields_size hs = sum_list (map (\<lambda>(n, v). length n + length v + 11) hs)"

lemma length_header_bytes:
  assumes "enc_inv enc" and "indexable enc" and "encodable h"
  shows "length (header_bytes (enc_header_table enc) h) \<le> length (fst h) + length (snd h) + 11"
proof (cases "find_header (enc_header_table enc) h")
  case None
  with length_integer_bytes[of "length (fst h)" 7 0] length_integer_bytes[of "length (snd h)" 7 0] assms(3) show ?thesis
    by (simp add: header_bytes_def literal_bytes_def encodable_def)
next
  case (Some r)
  obtain i full where r: "r = (i, full)" by (cases r)
  have "i \<le> length (ht_iter (enc_header_table enc))"
    using find_header_TrueD(4)[of "enc_header_table enc" h i] find_header_FalseD(4)[of "enc_header_table enc" h i] Some r
    by (cases full) auto
  from indexable_bound[OF assms(1,2) this] have "i < 2 ^ 28" .
  with length_integer_bytes[of i 7 "0x80"] length_integer_bytes[of i 4 0] length_integer_bytes[of "length (snd h)" 7 0] assms(3) Some r
  show ?thesis by (simp add: header_bytes_def indexed_name_bytes_def encodable_def)
qed

lemma length_encode_bytes:
  assumes "enc_inv enc" and "indexable enc" and "fields_size hs < 2 ^ 28"
  shows "length (encode_bytes enc hs) \<le> fields_size hs"
  using assms
proof (induction hs arbitrary: enc)
  case (Cons h hs)
  have "encodable h" "fields_size hs < 2 ^ 28" using Cons.prems(3) by (auto simp: fields_size_def encodable_def split: prod.splits)
  with Cons.IH[OF enc_inv_after[OF Cons.prems(1)], of h] Cons.prems length_header_bytes[OF Cons.prems(1,2)] show ?case
    by (fastforce simp: fields_size_def split: prod.splits)
qed (simp add: fields_size_def)

lemma indexable_new [simp]: "indexable encoder_new"
  by (simp add: indexable_def encoder_new_def with_static_table_def dynamic_table_new_def with_size_def)

lemma indexable_foldl [simp]: "indexable (foldl enc_after E hs) = indexable E"
  by (induction hs arbitrary: E) simp_all

section \<open>Payloads\<close>

lemma length_u32_bytes [simp]: "length (u32_to_be_bytes x) = 4"
  by (simp add: u32_to_be_bytes_def)

lemma rst_piece: "suite_deps d fmt \<Longrightarrow> rst_stream_piece d \<lparr>rst_error_code = code\<rparr> [] = (Ok (u32_to_be_bytes code), [])"
  unfolding rst_stream_piece_def using suite_depsD(5)[of d fmt] by (intro put_piece_ok) (auto intro: writes_u32)

lemma pack_u31: "v AND 0x7FFFFFFF = v \<Longrightarrow> pack_bit_and_u31 0 v = Ok (u32_to_be_bytes v)"
  by (simp add: pack_bit_and_u31_def Let_def)

lemma window_update_piece_ok:
  assumes "inc AND 0x7FFFFFFF = inc"
  shows "window_update_piece \<lparr>wu_reserved = 0, increment = inc\<rparr> [] = (Ok (u32_to_be_bytes inc), [])"
  unfolding window_update_piece_def by (rule put_piece_ok) (simp_all add: pack_u31[OF assms] writes_write_all)

lemma priority_piece_ok:
  assumes "suite_deps d fmt" and "sid AND 0x7FFFFFFF = sid"
  shows "priority_piece d \<lparr>exclusive = False, stream_dependency = sid, weight = w\<rparr> [] = (Ok (u32_to_be_bytes sid @ [w]), [])"
proof -
  have w8: "write_u8 (d_slice_bo d) wa w n = wa w [n]" for wa w n using suite_depsD(5)[OF assms(1)]
    unfolding byteorder_spec_def by blast
  show ?thesis unfolding priority_piece_def
    by (intro put_piece_ok) (simp_all add: w8 pack_reserved_and_stream_id_def pack_u31[OF assms(2)] writes_then writes_write_all)
qed

lemma go_away_piece_ok:
  assumes "suite_deps d fmt"
  shows "go_away_piece d \<lparr>go_away.last_stream_id = lsid, ga_error_code = code, additional_debug_data = []\<rparr> [] =
    (Ok (u32_to_be_bytes lsid @ u32_to_be_bytes code), [])"
  unfolding go_away_piece_def
proof (rule put_piece_ok)
  have "writes (\<lambda>w. bind_st (write_u32_be (d_slice_bo d) slice_write_all w lsid) (\<lambda>_ w.
      bind_st (write_u32_be (d_slice_bo d) slice_write_all w code) (\<lambda>_ w. slice_write_all w [])))
      (u32_to_be_bytes lsid @ u32_to_be_bytes code @ [])"
    using suite_depsD(5)[OF assms] by (intro writes_then writes_u32 writes_write_all)
  then show "writes (\<lambda>w. bind_st (write_u32_be (d_slice_bo d) slice_write_all w (go_away.last_stream_id
        \<lparr>go_away.last_stream_id = lsid, ga_error_code = code, additional_debug_data = []\<rparr>)) (\<lambda>_ w.
      bind_st (write_u32_be (d_slice_bo d) slice_write_all w (ga_error_code
        \<lparr>go_away.last_stream_id = lsid, ga_error_code = code, additional_debug_data = []\<rparr>)) (\<lambda>_ w.
      slice_write_all w (additional_debug_data
        \<lparr>go_away.last_stream_id = lsid, ga_error_code = code, additional_debug_data = []\<rparr>))))
      (u32_to_be_bytes lsid @ u32_to_be_bytes code)" by simp
qed simp_all

lemma settings_piece_ok:
  assumes "suite_deps d fmt" and "length pairs < 1000"
  shows "settings_piece d pairs [] = (Ok (pairs_bytes pairs), [])"
  using put_piece_ok[OF setting_pairs_writes[OF suite_depsD(5)[OF assms(1)], of pairs] length_setting_pairs] assms(2)
  by (simp add: settings_piece_def)

lemma emits_window_update:
  assumes "suite_deps d fmt" and "sid_ok sid" and "inc AND 0x7FFFFFFF = inc"
  shows "emits d config E (cn_write_window_update d sid inc) [(frame_new WindowUpdate sid, u32_to_be_bytes inc)] E"
proof -
  have "cn_write_window_update d sid inc =
      cn_write_frame d (frame_new WindowUpdate sid) (window_update_piece \<lparr>wu_reserved = 0, increment = inc\<rparr>)"
    by (intro ext) (simp add: cn_write_window_update_def window_update_piece_ok[OF assms(3)] into_frame_eq)
  with emits_frame[OF assms(1), where f = "frame_new WindowUpdate sid" and
      payload = "window_update_piece \<lparr>wu_reserved = 0, increment = inc\<rparr>"] window_update_piece_ok[OF assms(3)] assms(2)
  show ?thesis by (simp add: frame_fits_new)
qed

lemma emits_rst:
  "suite_deps d fmt \<Longrightarrow> sid_ok sid \<Longrightarrow>
    emits d config E (cn_write_rst_stream d sid code) [(frame_new RstStream sid, u32_to_be_bytes code)] E"
  unfolding cn_write_rst_stream_def into_frame_eq by (rule emits_frame[where payload = "rst_stream_piece d \<lparr>rst_error_code = code\<rparr>"])
    (simp_all add: rst_piece frame_fits_new)

lemma emits_settings:
  assumes "suite_deps d fmt" and "length pairs < 1000" and "sid_ok sid"
  shows "emits d config E (cn_write_frame d (frame_new (Settings {}) sid) (settings_piece d pairs))
    [(frame_new (Settings {}) sid, pairs_bytes pairs)] E"
  using assms length_setting_pairs[of pairs] frame_fits_new[of "pairs_bytes pairs" sid]
  by (intro emits_frame[where payload = "settings_piece d pairs"]) (simp_all add: settings_piece_ok del: length_concat)

lemma emits_priority:
  assumes "suite_deps d fmt" and "sid_ok sid" and "dep AND 0x7FFFFFFF = dep"
  shows "emits d config E (cn_write_priority d sid \<lparr>exclusive = False, stream_dependency = dep, weight = w\<rparr>)
    [(frame_new Priority sid, u32_to_be_bytes dep @ [w])] E"
  unfolding cn_write_priority_def into_frame_eq
  by (rule emits_frame[where payload = "priority_piece d \<lparr>exclusive = False, stream_dependency = dep, weight = w\<rparr>"])
    (use assms in \<open>simp_all add: priority_piece_ok frame_fits_new\<close>)

lemma emits_goaway:
  assumes "suite_deps d fmt" and "sid_ok sid"
  shows "emits d config E (cn_write_frame d (frame_new GoAway sid)
      (go_away_piece d \<lparr>go_away.last_stream_id = lsid, ga_error_code = code, additional_debug_data = []\<rparr>))
    [(frame_new GoAway sid, u32_to_be_bytes lsid @ u32_to_be_bytes code)] E"
  by (rule emits_frame[where payload = "go_away_piece d \<lparr>go_away.last_stream_id = lsid, ga_error_code = code,
    additional_debug_data = []\<rparr>"]) (use assms in \<open>simp_all add: go_away_piece_ok frame_fits_new\<close>)

section \<open>Frames that the server refuses\<close>

text \<open>One frame, sent right after the handshake, ends the connection with the demanded code.\<close>

lemma passes_one:
  assumes "suite_deps d fmt" and "demands_error d codes v" and "emits d config encoder_new w [(frame_new ft sid, p)] E"
    and "\<And>c rx. calm_at limit 65535 (transport_w c) c \<Longrightarrow>
      \<exists>e rx' c'. process_frame d ((frame_new ft sid)\<lparr>flen := of_nat (length p)\<rparr>) p (rx, c) = Some (Err e, rx', c') \<and>
        conn_error_code e = k \<and> settled (transport_w c) c'"
    and "error_c_from k \<in> codes" and "frame_type_wf ft" and "length p \<le> 16384" and "sid_ok sid" and "\<not> has_padding (frame_new ft sid)"
  shows "passes d fmt limit config (script [cn_handshake d, w, v])"
proof -
  have d: "deps_ok d" using suite_depsD(1)[OF assms(1)] .
  have "refused d limit [(frame_new ft sid, p)] k"
    unfolding refused_def
  proof (intro allI)
    fix out
    have "\<exists>e rx' c'. process_frame d ((frame_new ft sid)\<lparr>flen := of_nat (length p)\<rparr>) p (rx, c) = Some (Err e, rx', c') \<and>
        conn_error_code e = k \<and> settled out c'" if "calm_at limit 65535 out c" for rx c
      using assms(4)[of c rx] that by (auto simp: calm_at_def)
    then show "calm_run d (calm_at limit 65535 out) (map (\<lambda>(f, p). arrived d f p) [(frame_new ft sid, p)]) (Some k) (settled out)"
      by (auto intro!: run_fails simp: arrived_new[OF d assms(6)])
  qed
  with passes_refused[OF assms(1) emits_one[OF assms(3)] _ _ assms(2,5), of limit] plain_new[OF d assms(6-9)]
  show ?thesis by simp
qed

lemma demands [simp]:
  "demands_error d codes (cn_verify_connection_error d codes)" "demands_error d codes (cn_verify_stream_error d codes)"
  "demands_error d UNIV cn_verify_connection_close"
  by (simp_all add: demands_error_def)

lemmas fails_connection = passes_one[OF _ demands(1)]
lemmas fails_stream = passes_one[OF _ demands(2)]
lemmas fails_close = passes_one[OF _ demands(3)]

lemma calm_atD:
  assumes "calm_at limit cap out c"
  shows "cs_streams (sc_state c) = []" "conn_state.last_stream_id (sc_state c) = 0" "out_scratch c = []"
    "max_concurrent_streams (self_settings (sc_state c)) = limit" "outgoing_capacity (sc_state c) = cap"
    "sc_hpack_dec c = set_max_allowed_table_size decoder_new 4096"
  using assms by (simp_all add: calm_at_def calm_def)

lemma frame_new_flen: "ftype ((frame_new ft sid)\<lparr>flen := n\<rparr>) = ft"
  by simp

lemma window_update_parse_bytes:
  "nom_spec nom \<Longrightarrow> v AND 0x7FFFFFFF = v \<Longrightarrow> window_update_parse nom (u32_to_be_bytes v) = Ok ([], \<lparr>wu_reserved = 0, increment = v\<rparr>)"
  using pack_parse_bit_and_u31[of nom v 0, where 'e = unit] pack_u31[of v, where 'a = unit]
  by (fastforce simp: window_update_parse_def dest: spec[of _ "[]"])

lemma priority_parse_bytes:
  assumes "nom_spec nom"
  shows "priority_spec_parse nom (u32_to_be_bytes 0 @ [w]) = Ok ([], \<lparr>exclusive = False, stream_dependency = 0, weight = w\<rparr>)"
  using assms by (simp add: priority_spec_parse_def parse_reserved_and_stream_id_def parse_bit_and_u31_def nom_spec_def seq2_def
      u32_to_be_bytes_def u32_from_be_bytes_def Let_def)

lemmas refusal_simps = process_frame_def process_data_def process_headers_def process_rst_stream_def process_ping_def
  process_settings_def process_window_update_def process_priority_def strip_priority_def classify_headers_def
  window_update_stream_def window_update_connection_def get_outgoing_def
  calm_atD CONNECTION_def conn_error_code_def is_server_initiated_def sid_ok_small has_padding_def frame_fits_new byte_str_def dummy_bytes_def
  length_setting_pairs

lemma idle_sends_data_frame_passed:
  assumes "suite_deps d fmt"
  shows "passes d fmt limit config (idle_sends_data_frame d)"
  unfolding idle_sends_data_frame_def cn_write_data_def
  by (rule fails_stream[OF assms emits_raw[OF assms], where k = StreamClosed])
    (auto simp: refusal_simps dest: calm_at_settled)

lemma sends_data_frame_with_zero_stream_id_passed:
  assumes "suite_deps d fmt"
  shows "passes d fmt limit config (sends_data_frame_with_zero_stream_id d)"
  unfolding sends_data_frame_with_zero_stream_id_def cn_write_data_def
  by (rule fails_connection[OF assms emits_raw[OF assms], where k = ProtocolError])
    (auto simp: refusal_simps dest: calm_at_settled)

lemma idle_sends_rst_stream_frame_passed:
  assumes "suite_deps d fmt"
  shows "passes d fmt limit config (idle_sends_rst_stream_frame d eb)"
  unfolding idle_sends_rst_stream_frame_def 
  by (rule fails_connection[OF assms emits_rst[OF assms], where k = ProtocolError])
    (auto simp: refusal_simps dest: calm_at_settled)

lemma sends_rst_stream_frame_on_idle_stream_passed:
  assumes "suite_deps d fmt"
  shows "passes d fmt limit config (sends_rst_stream_frame_on_idle_stream d eb)"
  unfolding sends_rst_stream_frame_on_idle_stream_def 
  by (rule fails_connection[OF assms emits_rst[OF assms], where k = ProtocolError])
    (auto simp: refusal_simps dest: calm_at_settled)

lemma sends_rst_stream_frame_with_zero_stream_id_passed:
  assumes "suite_deps d fmt"
  shows "passes d fmt limit config (sends_rst_stream_frame_with_zero_stream_id d eb)"
  unfolding sends_rst_stream_frame_with_zero_stream_id_def 
  by (rule fails_connection[OF assms emits_rst[OF assms], where k = ProtocolError])
    (auto simp: refusal_simps dest: calm_at_settled)

lemma idle_sends_window_update_frame_passed:
  assumes "suite_deps d fmt"
  shows "passes d fmt limit config (idle_sends_window_update_frame d)"
  unfolding idle_sends_window_update_frame_def 
  by (rule fails_connection[OF assms emits_window_update[OF assms], where k = ProtocolError])
    (auto simp: refusal_simps window_update_parse_bytes suite_depsD(6)[OF assms] dest: calm_at_settled)

lemma sends_window_update_frame_with_zero_increment_passed:
  assumes "suite_deps d fmt"
  shows "passes d fmt limit config (sends_window_update_frame_with_zero_increment d)"
  unfolding sends_window_update_frame_with_zero_increment_def 
  by (rule fails_connection[OF assms emits_window_update[OF assms], where k = ProtocolError])
    (auto simp: refusal_simps window_update_parse_bytes suite_depsD(6)[OF assms] dest: calm_at_settled)

lemma sends_window_update_frame_with_invalid_length_passed:
  assumes "suite_deps d fmt"
  shows "passes d fmt limit config (sends_window_update_frame_with_invalid_length d)"
  unfolding sends_window_update_frame_with_invalid_length_def 
  by (rule fails_connection[OF assms emits_raw[OF assms], where k = FrameSizeError])
    (auto simp: refusal_simps dest: calm_at_settled)

lemma invalid_ping_frame_for_connection_close_passed:
  assumes "suite_deps d fmt"
  shows "passes d fmt limit config (invalid_ping_frame_for_connection_close d)"
  unfolding invalid_ping_frame_for_connection_close_def into_frame_eq
  by (rule fails_close[OF assms emits_raw[OF assms], where k = ProtocolError])
    (auto simp: refusal_simps dest: calm_at_settled)

lemma test_invalid_ping_frame_for_goaway_passed:
  assumes "suite_deps d fmt"
  shows "passes d fmt limit config (test_invalid_ping_frame_for_goaway d)"
  unfolding test_invalid_ping_frame_for_goaway_def into_frame_eq
  by (rule fails_connection[OF assms emits_raw[OF assms], where k = ProtocolError])
    (auto simp: refusal_simps dest: calm_at_settled)

lemma sends_ping_frame_with_non_zero_stream_id_passed:
  assumes "suite_deps d fmt"
  shows "passes d fmt limit config (sends_ping_frame_with_non_zero_stream_id d)"
  unfolding sends_ping_frame_with_non_zero_stream_id_def 
  by (rule fails_connection[OF assms emits_raw[OF assms], where k = ProtocolError])
    (auto simp: refusal_simps dest: calm_at_settled)

lemma sends_ping_frame_with_invalid_length_passed:
  assumes "suite_deps d fmt"
  shows "passes d fmt limit config (sends_ping_frame_with_invalid_length d)"
  unfolding sends_ping_frame_with_invalid_length_def 
  by (rule fails_connection[OF assms emits_raw[OF assms], where k = FrameSizeError])
    (auto simp: refusal_simps dest: calm_at_settled)

lemma sends_priority_frame_with_zero_stream_id_passed:
  assumes "suite_deps d fmt"
  shows "passes d fmt limit config (sends_priority_frame_with_zero_stream_id d)"
  unfolding sends_priority_frame_with_zero_stream_id_def 
  by (rule fails_connection[OF assms emits_priority[OF assms], where k = ProtocolError])
    (auto simp: refusal_simps priority_parse_bytes suite_depsD(6)[OF assms] dest: calm_at_settled)

lemma sends_goaway_frame_with_non_zero_stream_id_passed:
  assumes "suite_deps d fmt"
  shows "passes d fmt limit config (sends_goaway_frame_with_non_zero_stream_id d)"
  unfolding sends_goaway_frame_with_non_zero_stream_id_def 
  by (rule fails_connection[OF assms emits_goaway[OF assms], where k = ProtocolError])
    (auto simp: refusal_simps dest: calm_at_settled)

lemma sends_settings_frame_with_ack_and_payload_passed:
  assumes "suite_deps d fmt"
  shows "passes d fmt limit config (sends_settings_frame_with_ack_and_payload d)"
  unfolding sends_settings_frame_with_ack_and_payload_def 
  by (rule fails_connection[OF assms emits_raw[OF assms], where k = FrameSizeError])
    (auto simp: refusal_simps dest: calm_at_settled)

lemma sends_settings_frame_with_invalid_length_passed:
  assumes "suite_deps d fmt"
  shows "passes d fmt limit config (sends_settings_frame_with_invalid_length d)"
  unfolding sends_settings_frame_with_invalid_length_def 
  by (rule fails_connection[OF assms emits_raw[OF assms], where k = FrameSizeError])
    (auto simp: refusal_simps dest: calm_at_settled)

lemma refused_setting:
  assumes "calm_at limit 65535 (transport_w c) c" and "\<And>s enc. \<exists>s' enc'. on_setting (s, enc) code v = (Err e, s', enc')"
  shows "\<exists>c'. process_settings d ((frame_new (Settings {}) CONNECTION)\<lparr>flen := n\<rparr>) {} (pairs_bytes [(code, v)]) c =
    (Err (BadSettingValue e), c') \<and> settled (transport_w c) c'"
proof -
  obtain s enc where v: "on_setting (peer_settings (sc_state c), sc_hpack_enc c) code v = (Err e, s, enc)" using assms(2) by blast
  then have "settings_parse (pairs_bytes [(code, v)]) on_setting (peer_settings (sc_state c), sc_hpack_enc c) = (Err e, s, enc)"
    unfolding settings_parse_pairs_bytes by simp
  then show ?thesis
    using assms(1) length_setting_pairs[of "[(code, v)]"]
    by (simp add: process_settings_def apply_settings_def Let_def calm_at_def settled_def calm_def del: length_concat)
qed

lemma passes_setting:
  assumes "suite_deps d fmt" and "\<And>s enc. \<exists>s' enc'. on_setting (s, enc) code v = (Err e, s', enc')"
    and "error_c_from (conn_error_code (BadSettingValue e)) \<in> codes"
  shows "passes d fmt limit config (script [cn_handshake d, cn_write_settings d [(code, v)], cn_verify_connection_error d codes])"
  unfolding cn_write_settings_def into_frame_eq
proof (rule fails_connection[OF assms(1) emits_settings[OF assms(1)], where k = "conn_error_code (BadSettingValue e)"])
  fix c rx assume "calm_at limit 65535 (transport_w c) c"
  from refused_setting[OF this assms(2), where d = d and n = "of_nat (length (pairs_bytes [(code, v)]))"] obtain c' where
    "process_settings d ((frame_new (Settings {}) CONNECTION)\<lparr>flen := of_nat (length (pairs_bytes [(code, v)]))\<rparr>) {}
      (pairs_bytes [(code, v)]) c = (Err (BadSettingValue e), c')" "settled (transport_w c) c'" by blast
  then show "\<exists>e' rx' c'. process_frame d ((frame_new (Settings {}) CONNECTION)\<lparr>flen := of_nat (length (pairs_bytes [(code, v)]))\<rparr>)
      (pairs_bytes [(code, v)]) (rx, c) = Some (Err e', rx', c') \<and> conn_error_code e' = conn_error_code (BadSettingValue e) \<and>
      settled (transport_w c) c'"
    unfolding process_frame_def frame_new_flen by simp
qed (use assms(3) length_setting_pairs[of "[(code, v)]"] in \<open>auto simp: refusal_simps simp del: length_concat\<close>)

lemmas setting_refusals = on_setting_def settings_apply_def MAX_INITIAL_WINDOW_SIZE_def MAX_FRAME_SIZE_ALLOWED_RANGE_def conn_error_code_def

lemma sends_settings_enable_push_with_invalid_value_passed:
  "suite_deps d fmt \<Longrightarrow> passes d fmt limit config (sends_settings_enable_push_with_invalid_value d)"
  unfolding sends_settings_enable_push_with_invalid_value_def
  by (rule passes_setting) (auto simp: setting_refusals)

lemma sends_settings_initial_window_size_with_invalid_value_passed:
  "suite_deps d fmt \<Longrightarrow> passes d fmt limit config (sends_settings_initial_window_size_with_invalid_value d)"
  unfolding sends_settings_initial_window_size_with_invalid_value_def
  by (rule passes_setting) (auto simp: setting_refusals)

lemma sends_settings_initial_window_size_with_exceeded_max_window_size_value_passed:
  "suite_deps d fmt \<Longrightarrow> passes d fmt limit config (sends_settings_initial_window_size_with_exceeded_max_window_size_value d)"
  unfolding sends_settings_initial_window_size_with_exceeded_max_window_size_value_def
  by (rule passes_setting) (auto simp: setting_refusals)

lemma sends_settings_max_frame_size_with_invalid_value_below_initial_passed:
  "suite_deps d fmt \<Longrightarrow> passes d fmt limit config (sends_settings_max_frame_size_with_invalid_value_below_initial d)"
  unfolding sends_settings_max_frame_size_with_invalid_value_below_initial_def
  by (rule passes_setting) (auto simp: setting_refusals)

lemma sends_settings_max_frame_size_with_invalid_value_above_max_passed:
  "suite_deps d fmt \<Longrightarrow> passes d fmt limit config (sends_settings_max_frame_size_with_invalid_value_above_max d)"
  unfolding sends_settings_max_frame_size_with_invalid_value_above_max_def
  by (rule passes_setting) (auto simp: setting_refusals)

lemma with_len_twice: "with_len (with_len f m) n = with_len f n"
  by (simp add: with_len_def)

lemma with_len_fields [simp]: "ftype (with_len f n) = ftype f" "reserved (with_len f n) = reserved f" "fstream_id (with_len f n) = fstream_id f"
  by (simp_all add: with_len_def)

lemma sends_settings_frame_with_non_zero_stream_id_passed:
  assumes "suite_deps d fmt"
  shows "passes d fmt limit config (sends_settings_frame_with_non_zero_stream_id d)"
proof -
  have eq: "cn_write_frame d (with_len (frame_new (Settings {}) 1) 6) = cn_write_frame d (frame_new (Settings {}) 1)"
    by (intro ext) (simp only: cn_write_frame_def with_len_twice)
  show ?thesis unfolding sends_settings_frame_with_non_zero_stream_id_def eq
    by (rule fails_connection[OF assms emits_settings[OF assms], where k = ProtocolError])
      (use length_setting_pairs[of "[(MaxConcurrentStreams, 0x64)]"] in \<open>auto simp: refusal_simps dest: calm_at_settled simp del: length_concat\<close>)
qed

section \<open>Header blocks of the tests\<close>

definition config_ok :: "config \<Rightarrow> bool" where
  "config_ok config \<longleftrightarrow> length (cf_host config) + length (cf_path config) \<le> 100 \<and>
     3300 \<le> cf_max_header_len config \<and> cf_max_header_len config \<le> 15000"

lemma config_default_ok: "config_ok config_default"
  by (simp add: config_ok_def config_default_def byte_str_def)

definition post_fields :: "config \<Rightarrow> header list" where
  "post_fields config = common_headers (conn_new config ([] :: bytes) [] True) POST"

definition dummy_fields :: "config \<Rightarrow> nat \<Rightarrow> header list" where
  "dummy_fields config n = dummy_headers (conn_new config ([] :: bytes) [] True) n"

definition post_scheme :: "config \<Rightarrow> bytes" where
  "post_scheme config = (if cf_tls config then byte_str ''https'' else byte_str ''http'')"

definition post_authority :: "config \<Rightarrow> bytes" where
  "post_authority config =
     (if cf_port config = (if cf_tls config then 443 else 80) then cf_host config
      else cf_host config @ byte_str '':'' @ dec_bytes (unat (cf_port config)))"

lemma post_fields_eq:
  "post_fields config = [(byte_str '':method'', POST), (byte_str '':scheme'', post_scheme config),
    (byte_str '':path'', cf_path config), (byte_str '':authority'', post_authority config)]"
  by (simp add: post_fields_def common_headers_def conn_new_def hs_append_def Let_def post_scheme_def post_authority_def)

lemma headers_of_config:
  "cn_config c = config \<Longrightarrow> post_headers c = post_fields config"
  "cn_config c = config \<Longrightarrow> dummy_headers c n = dummy_fields config n"
  by (simp_all add: post_fields_def dummy_fields_def common_headers_def dummy_headers_def conn_new_def)

lemma fields_size_append [simp]: "fields_size (hs @ hs') = fields_size hs + fields_size hs'"
  by (simp add: fields_size_def)

lemma post_fields_size: "config_ok config \<Longrightarrow> fields_size (post_fields config) \<le> 200"
proof -
  assume "config_ok config"
  moreover have "unat (cf_port config) < 2 ^ 16" using unsigned_less[of "cf_port config"] by simp
  then have "length (dec_bytes (unat (cf_port config))) \<le> 5" by (intro length_dec_bytes) simp_all
  ultimately show ?thesis
    by (auto simp: config_ok_def fields_size_def post_fields_eq post_scheme_def post_authority_def POST_def byte_str_def)
qed

lemma dummy_field_size: "fields_size (dummy_fields config 1) = cf_max_header_len config + 19"
  by (simp add: fields_size_def dummy_fields_def dummy_headers_def conn_new_def hs_append_def dummy_bytes_def byte_str_def dec_bytes.simps)

text \<open>The blocks that the tests send most: the common headers and one dummy header.\<close>

lemma block_short:
  assumes "enc_inv E" and "indexable E" and "fields_size hs \<le> 16384"
  shows "length (encode_bytes E hs) \<le> 16384"
  using length_encode_bytes[OF assms(1,2), of hs] assms(3) by simp

definition short_fields :: "config \<Rightarrow> header list \<Rightarrow> bool" where
  "short_fields config hs \<longleftrightarrow> config_ok config \<and> (hs = post_fields config \<or> hs = dummy_fields config 1)"

lemma short_block: "short_fields config hs \<Longrightarrow> enc_inv E \<Longrightarrow> indexable E \<Longrightarrow> length (encode_bytes E hs) \<le> 16384"
  using block_short[of E hs] post_fields_size[of config] dummy_field_size[of config] by (auto simp: short_fields_def config_ok_def)

lemma short_fields_simps [simp]:
  "config_ok config \<Longrightarrow> short_fields config (post_fields config)" "config_ok config \<Longrightarrow> short_fields config (dummy_fields config 1)"
  by (simp_all add: short_fields_def)

lemma emits_block_frame:
  assumes "suite_deps d fmt" and "short_fields config hs" and "enc_inv E" and "indexable E"
    and "\<And>c :: bytes conn. cn_config c = config \<Longrightarrow> headers c = hs" and "sid_ok sid"
  shows "emits d config E (with_block headers (\<lambda>block. cn_write_frame d (frame_new ft sid) (raw_piece block)))
      [(frame_new ft sid, encode_bytes E hs)] (foldl enc_after E hs)"
  using short_block[OF assms(2-4)] assms(6)
  by (intro emits_block[OF assms(3,5)] emits_raw[OF assms(1)] frame_fits_new) auto

lemma emits_post:
  assumes "suite_deps d fmt" and "config_ok config" and "enc_inv E" and "indexable E" and "sid_ok sid"
  shows "emits d config E (with_block post_headers (\<lambda>block. cn_write_frame d (frame_new ft sid) (raw_piece block)))
      [(frame_new ft sid, encode_bytes E (post_fields config))] (foldl enc_after E (post_fields config))"
  by (rule emits_block_frame[OF assms(1) short_fields_simps(1)[OF assms(2)] assms(3,4) headers_of_config(1) assms(5)])

lemma emits_dummy:
  assumes "suite_deps d fmt" and "config_ok config" and "enc_inv E" and "indexable E" and "sid_ok sid"
  shows "emits d config E (with_block (\<lambda>c. dummy_headers c 1) (\<lambda>block. cn_write_frame d (frame_new ft sid) (raw_piece block)))
      [(frame_new ft sid, encode_bytes E (dummy_fields config 1))] (foldl enc_after E (dummy_fields config 1))"
  by (rule emits_block_frame[OF assms(1) short_fields_simps(2)[OF assms(2)] assms(3,4) headers_of_config(2) assms(5)])

lemma emits_dummy_ignoring:
  assumes "suite_deps d fmt" and "config_ok config" and "enc_inv E" and "indexable E" and "sid_ok sid"
  shows "emits d config E (with_block (\<lambda>c. dummy_headers c 1) (\<lambda>block. ignoring (cn_write_frame d (frame_new ft sid) (raw_piece block))))
      [(frame_new ft sid, encode_bytes E (dummy_fields config 1))] (foldl enc_after E (dummy_fields config 1))"
  by (rule emits_block[OF assms(3) headers_of_config(2)], assumption, rule emits_ignoring, rule emits_raw[OF assms(1)], rule frame_fits_new)
    (use short_block[OF short_fields_simps(2)[OF assms(2)] assms(3,4)] assms(5) in auto)

lemma send_empty_post_eq:
  "cn_send_empty_post_to_root d sid =
    with_block post_headers (\<lambda>block. cn_write_frame d (frame_new (Headers {HeadersEndStream, HeadersEndHeaders}) sid) (raw_piece block))"
  by (intro ext) (simp add: cn_send_empty_post_to_root_def cn_encode_and_write_headers_def with_block_def cn_write_headers_def)

lemmas block_writers = cn_write_headers_def cn_write_continuation_def send_empty_post_eq

lemma idle_sends_continuation_frame_passed:
  assumes "suite_deps d fmt" and "config_ok config"
  shows "passes d fmt limit config (idle_sends_continuation_frame d)"
  unfolding idle_sends_continuation_frame_def block_writers
  by (rule fails_connection[OF assms(1) emits_post[OF assms enc_inv_new indexable_new], where k = ProtocolError])
    (auto simp: refusal_simps short_block[OF short_fields_simps(1)[OF assms(2)]] dest: calm_at_settled)

lemma sends_headers_frame_with_zero_stream_id_passed:
  assumes "suite_deps d fmt" and "config_ok config"
  shows "passes d fmt limit config (sends_headers_frame_with_zero_stream_id d)"
  unfolding sends_headers_frame_with_zero_stream_id_def block_writers
  by (rule fails_connection[OF assms(1) emits_post[OF assms enc_inv_new indexable_new], where k = ProtocolError])
    (auto simp: refusal_simps short_block[OF short_fields_simps(1)[OF assms(2)]] dest: calm_at_settled)

lemma sends_even_numbered_stream_identifier_passed:
  assumes "suite_deps d fmt" and "config_ok config"
  shows "passes d fmt limit config (sends_even_numbered_stream_identifier d)"
  unfolding sends_even_numbered_stream_identifier_def block_writers
  by (rule fails_connection[OF assms(1) emits_post[OF assms enc_inv_new indexable_new], where k = ProtocolError])
    (auto simp: refusal_simps short_block[OF short_fields_simps(1)[OF assms(2)]] dest: calm_at_settled)

section \<open>Header blocks that are not continued\<close>

fun broken_block :: "stream_id \<Rightarrow> rx \<Rightarrow> bool" where
  "broken_block sid [] \<longleftrightarrow> True"
| "broken_block sid ((f, p) # fs) \<longleftrightarrow> fstream_id f \<noteq> sid \<or>
     (case ftype f of Continuation flags \<Rightarrow> ContinuationEndHeaders \<notin> flags \<and> broken_block sid fs | _ \<Rightarrow> True)"

lemma broken_block_refused:
  assumes "broken_block sid fs" and "prefix rx fs"
  shows "\<exists>e rx'. read_continuations sid rx frags = (Err e, rx') \<and> conn_error_code e = ProtocolError"
  using assms
proof (induction rx arbitrary: fs frags)
  case Nil
  show ?case by (simp add: conn_error_code_def)
next
  case (Cons fp rx)
  obtain f p where fp: "fp = (f, p)" by (cases fp)
  from Cons.prems(2) obtain fs' where "fs = fp # fs'" "prefix rx fs'" by (cases fs) auto
  with Cons.IH[of fs' "frags @ [p]"] Cons.prems(1) fp show ?case by (auto simp: conn_error_code_def Let_def split: frame_type.splits)
qed

lemma refused_block:
  assumes "suite_deps d fmt" and "limit \<noteq> Some 0" and "flags \<subseteq> {HeadersEndStream}"
    and "broken_block 1 (map (\<lambda>(f, p). arrived d f p) fs)"
  shows "refused d limit ([(frame_new (Headers flags) 1, p)] @ fs) ProtocolError"
  unfolding refused_def
proof (intro allI)
  fix out
  let ?fs = "map (\<lambda>(f, p). arrived d f p) fs" and ?f = "(frame_new (Headers flags) 1)\<lparr>flen := of_nat (length p)\<rparr>"
  have "\<exists>e rx' c'. process_frame d ?f p (rx, c) = Some (Err e, rx', c') \<and> conn_error_code e = ProtocolError \<and> settled out c'"
    if "calm_at limit 65535 out c" "prefix rx ?fs" for c rx
  proof -
    let ?c = "st_upd (\<lambda>s. s\<lparr>last_stream_id := 1\<rparr>) c"
    note broken = broken_block_refused[OF assms(4) that(2)]
    have "classify_headers d ?f flags c = (Ok (IsHeaders, Process), ?c)"
      using that(1) assms(2) by (auto simp: refusal_simps Let_def unat_eq_zero split: option.split)
    moreover obtain e rx' where "read_continuations 1 rx [p] = (Err e, rx')" "conn_error_code e = ProtocolError"
      using broken by blast
    moreover have "settled out ?c" using calm_at_settled[OF that(1)] by (simp add: settled_def calm_def)
    moreover have "HeadersPriority \<notin> flags" "HeadersEndHeaders \<notin> flags" using assms(3) by auto
    ultimately show ?thesis
      by (simp add: process_frame_def process_headers_def strip_priority_def read_headers_def header_fragments_def)
  qed
  then show "calm_run d (calm_at limit 65535 out) (map (\<lambda>(f, p). arrived d f p) ([(frame_new (Headers flags) 1, p)] @ fs))
      (Some ProtocolError) (settled out)"
    by (auto intro!: run_fails simp: arrived_new[OF suite_depsD(1)[OF assms(1)]])
qed

text \<open>Tests that write two or three times.\<close>

lemma passes_two:
  assumes "suite_deps d fmt" and "demands_error d codes v" and "emits d config encoder_new a ps E1" and "emits d config E1 b qs E2"
    and "refused d limit (ps @ qs) k" and "error_c_from k \<in> codes" and "\<forall>fp\<in>set (ps @ qs). plain d fp"
  shows "passes d fmt limit config (script [cn_handshake d, a, b, v])"
  using passes_refused[OF assms(1) emits_Cons[OF assms(3) emits_one[OF assms(4)]] assms(7,5,2,6)] by simp

lemma passes_three:
  assumes "suite_deps d fmt" and "demands_error d codes v" and "emits d config encoder_new a ps E1" and "emits d config E1 b qs E2"
    and "emits d config E2 c rs E3"
    and "refused d limit (ps @ qs @ rs) k" and "error_c_from k \<in> codes" and "\<forall>fp\<in>set (ps @ qs @ rs). plain d fp"
  shows "passes d fmt limit config (script [cn_handshake d, a, b, c, v])"
  using passes_refused[OF assms(1) emits_Cons[OF assms(3) emits_Cons[OF assms(4) emits_one[OF assms(5)]]] assms(8,6,2,7)] by simp

lemma enc_after_ok [simp]: "enc_inv (foldl enc_after encoder_new hs)" "indexable (foldl enc_after encoder_new hs)"
  by (simp_all add: enc_inv_foldl)

lemma enc_after_twice [simp]: "enc_inv (foldl enc_after (foldl enc_after encoder_new hs) hs')"
  by (simp add: enc_inv_foldl)

lemma unknown_wf: "raw_frame_type_from_repr 0xff = None"
  by (simp add: raw_frame_type_from_repr_def)

lemmas broken_simps = arrived_new sid_ok_small has_padding_def dummy_bytes_def byte_str_def frame_fits_new unknown_wf CONNECTION_def

lemma unknown_extension_frame_in_header_block_passed:
  assumes "suite_deps d fmt" and "config_ok config" and "limit \<noteq> Some 0"
  shows "passes d fmt limit config (unknown_extension_frame_in_header_block d)"
  unfolding unknown_extension_frame_in_header_block_def block_writers into_frame_eq
  by (rule passes_two[OF assms(1) demands(1) emits_post[OF assms(1,2)] emits_raw[OF assms(1)] refused_block[OF assms(1,3)]])
    (use short_block[OF short_fields_simps(1)[OF assms(2)]] short_block[OF short_fields_simps(2)[OF assms(2)]] suite_depsD(1)[OF assms(1)]
      in \<open>auto intro!: plain_new simp: broken_simps simp del: One_nat_def\<close>)

lemma sends_continuation_frame_with_zero_stream_id_passed:
  assumes "suite_deps d fmt" and "config_ok config" and "limit \<noteq> Some 0"
  shows "passes d fmt limit config (sends_continuation_frame_with_zero_stream_id d)"
  unfolding sends_continuation_frame_with_zero_stream_id_def block_writers into_frame_eq
  by (rule passes_two[OF assms(1) demands(1) emits_post[OF assms(1,2)] emits_dummy[OF assms(1,2)] refused_block[OF assms(1,3)]])
    (use short_block[OF short_fields_simps(1)[OF assms(2)]] short_block[OF short_fields_simps(2)[OF assms(2)]] suite_depsD(1)[OF assms(1)]
      in \<open>auto intro!: plain_new simp: broken_simps simp del: One_nat_def\<close>)

lemma headers_frame_to_another_stream_passed:
  assumes "suite_deps d fmt" and "config_ok config" and "limit \<noteq> Some 0"
  shows "passes d fmt limit config (headers_frame_to_another_stream d)"
  unfolding headers_frame_to_another_stream_def block_writers into_frame_eq
  by (rule passes_three[OF assms(1) demands(1) emits_post[OF assms(1,2)] emits_post[OF assms(1,2)] emits_dummy_ignoring[OF assms(1,2)] refused_block[OF assms(1,3)]])
    (use short_block[OF short_fields_simps(1)[OF assms(2)]] short_block[OF short_fields_simps(2)[OF assms(2)]] suite_depsD(1)[OF assms(1)]
      in \<open>auto intro!: plain_new simp: broken_simps simp del: One_nat_def\<close>)

lemma sends_continuation_frame_followed_by_non_continuation_frame_passed:
  assumes "suite_deps d fmt" and "config_ok config" and "limit \<noteq> Some 0"
  shows "passes d fmt limit config (sends_continuation_frame_followed_by_non_continuation_frame d)"
  unfolding sends_continuation_frame_followed_by_non_continuation_frame_def block_writers into_frame_eq cn_write_data_def
  by (rule passes_three[OF assms(1) demands(1) emits_post[OF assms(1,2)] emits_dummy[OF assms(1,2)] emits_raw[OF assms(1)] refused_block[OF assms(1,3)]])
    (use short_block[OF short_fields_simps(1)[OF assms(2)]] short_block[OF short_fields_simps(2)[OF assms(2)]] suite_depsD(1)[OF assms(1)]
      in \<open>auto intro!: plain_new simp: broken_simps simp del: One_nat_def\<close>)

lemma sends_continuation_frame_preceded_by_data_frame_passed:
  assumes "suite_deps d fmt" and "config_ok config" and "limit \<noteq> Some 0"
  shows "passes d fmt limit config (sends_continuation_frame_preceded_by_data_frame d)"
  unfolding sends_continuation_frame_preceded_by_data_frame_def block_writers into_frame_eq cn_write_data_def
  by (rule passes_three[OF assms(1) demands(1) emits_post[OF assms(1,2)] emits_raw[OF assms(1)] emits_dummy_ignoring[OF assms(1,2)] refused_block[OF assms(1,3)]])
    (use short_block[OF short_fields_simps(1)[OF assms(2)]] short_block[OF short_fields_simps(2)[OF assms(2)]] suite_depsD(1)[OF assms(1)]
      in \<open>auto intro!: plain_new simp: broken_simps simp del: One_nat_def\<close>)

section \<open>Other ways to end a connection\<close>

lemma decode_truncated: "\<exists>e. decode_with_cb dec [0x40] cb s = (Err e, dec, s)"
proof -
  have "decode_integer [] 7 = (Err (IntegerDecodingError IntNotEnoughOctets) :: (nat \<times> nat, decoder_error) result)"
    by (simp add: decode_integer_def)
  then have "\<exists>e. decode_field cb [0x40] (dec, s) = (Err e, dec, s)"
    by (simp add: decode_field_def index_at_def field_representation_new_def decode_literal_def decode_integer_def Let_def
        slice_from_def decode_string_def)
  then show ?thesis unfolding decode_with_cb_def by (subst decode_loop.simps) auto
qed

text \<open>A new stream that the server takes on.\<close>

lemma classified:
  assumes "limit \<noteq> Some 0" and "calm_at limit cap out c"
  shows "classify_headers d ((frame_new (Headers flags) 1)\<lparr>flen := n\<rparr>) flags' c =
    (Ok (IsHeaders, Process), st_upd (\<lambda>s. s\<lparr>last_stream_id := 1\<rparr>) c)"
  using assms by (auto simp: refusal_simps Let_def unat_eq_zero split: option.split)

lemma settled_last_stream [simp]: "settled out (st_upd (\<lambda>s. s\<lparr>last_stream_id := sid\<rparr>) c) = settled out c"
  by (simp add: settled_def calm_def)

lemma invalid_header_block_fragment_passed:
  assumes "suite_deps d fmt" and "limit \<noteq> Some 0"
  shows "passes d fmt limit config (invalid_header_block_fragment d)"
  unfolding invalid_header_block_fragment_def into_frame_eq
proof (rule fails_connection[OF assms(1) emits_raw[OF assms(1)], where k = CompressionError])
  fix c :: "bytes server_context" and rx assume c: "calm_at limit 65535 (transport_w c) c"
  let ?flags = "{HeadersEndStream, HeadersEndHeaders}"
  let ?f = "(frame_new (Headers ?flags) 1)\<lparr>flen := of_nat (length [0x40 :: u8])\<rparr>"
  obtain e where "decode_with_cb (sc_hpack_dec c) [0x40] (on_header_pair (d_http d) IsHeaders) (field_block_new (d_http d)) =
      (Err e, sc_hpack_dec c, field_block_new (d_http d))"
    using decode_truncated[of "sc_hpack_dec c" "on_header_pair (d_http d) IsHeaders" "field_block_new (d_http d)"] by blast
  then show "\<exists>e rx' c'. process_frame d ?f [0x40] (rx, c) = Some (Err e, rx', c') \<and> conn_error_code e = CompressionError \<and>
      settled (transport_w c) c'"
    using classified[OF assms(2) c, where flags = ?flags and flags' = ?flags and n = "of_nat (length [0x40 :: u8])"] calm_at_settled[OF c]
    by (simp add: process_frame_def process_headers_def strip_priority_def read_headers_def header_fragments_def
        field_block_new_def Let_def conn_error_code_def settled_def calm_def)
qed (auto simp: refusal_simps)

lemma window_grown:
  assumes "suite_deps d fmt" and "inc AND 0x7FFFFFFF = inc" and "inc \<noteq> 0" and "cap + uint inc \<le> MAX_WINDOW_SIZE"
  shows "calm_run d (calm_at limit cap out) [arrived d (frame_new WindowUpdate CONNECTION) (u32_to_be_bytes inc)] None
    (calm_at limit (cap + uint inc) out)"
proof (rule calm_run_one)
  fix c rx assume c: "calm_at limit cap out c"
  then have "\<exists>c'. process_window_update d ((frame_new WindowUpdate CONNECTION)\<lparr>flen := 4\<rparr>) (u32_to_be_bytes inc) c = (Ok (), c') \<and>
      calm_at limit (cap + uint inc) out c'"
    using assms(3,4) window_update_parse_bytes[OF suite_depsD(6)[OF assms(1)] assms(2)] calm_atD(5)[OF c]
    by (simp add: process_window_update_def window_update_connection_def Let_def notify_one_def calm_at_def calm_def)
  then show "\<exists>c'. process_frame d (fst (arrived d (frame_new WindowUpdate CONNECTION) (u32_to_be_bytes inc)))
      (snd (arrived d (frame_new WindowUpdate CONNECTION) (u32_to_be_bytes inc))) (rx, c) = Some (Ok (), rx, c') \<and>
      calm_at limit (cap + uint inc) out c'"
    by (auto simp: arrived_new[OF suite_depsD(1)[OF assms(1)]] process_frame_def)
qed simp_all

lemma sends_multiple_window_update_frames_increasing_flow_control_window_above_max_passed:
  assumes "suite_deps d fmt"
  shows "passes d fmt limit config (sends_multiple_window_update_frames_increasing_flow_control_window_above_max d)"
proof -
  let ?w = "(frame_new WindowUpdate CONNECTION, u32_to_be_bytes (2 ^ 31 - 1))"
  have d: "deps_ok d" using suite_depsD(1)[OF assms] .
  have "calm_run d (calm_at limit (65535 + uint (2 ^ 31 - 1 :: u32)) out) [arrived d (fst ?w) (snd ?w)] (Some FlowControlError) (settled out)" for out
    using window_update_parse_bytes[OF suite_depsD(6)[OF assms], of "2 ^ 31 - 1"]
    by (auto intro!: run_fails simp: arrived_new[OF d] refusal_simps MAX_WINDOW_SIZE_def dest: calm_at_settled)
  from calm_run_append[OF window_grown[OF assms, of "2 ^ 31 - 1" 65535 limit] _ this]
  have "refused d limit ([?w] @ [?w]) FlowControlError" by (simp add: refused_def MAX_WINDOW_SIZE_def)
  note passes = passes_two[OF assms demands(1) emits_window_update[OF assms] emits_window_update[OF assms] this]
  show ?thesis
    unfolding sends_multiple_window_update_frames_increasing_flow_control_window_above_max_def
    by (rule passes)
      (auto intro!: plain_new[OF d] simp: sid_ok_small CONNECTION_def has_padding_def)
qed

lemma emits_push:
  assumes "suite_deps d fmt" and "length block \<le> 100"
  shows "emits d config E (\<lambda>c.
      case scratch_put_to_roll (length block + 4) (\<lambda>w.
          bind_st (pack_bit_and_u31 0 2, w) (\<lambda>packed w.
          bind_st (slice_write_all w packed) (\<lambda>_ w.
            slice_write_all w block))) (cn_scratch c) of
        (Ok payload, scratch) \<Rightarrow>
          cn_write_frame d (into_frame PushPromise 1) (raw_piece payload) (c\<lparr>cn_scratch := scratch\<rparr>)
      | (Err e, scratch) \<Rightarrow> (Err (Report ''put_to_roll''), c\<lparr>cn_scratch := scratch\<rparr>)
      | (Panic, scratch) \<Rightarrow> (Panic, c\<lparr>cn_scratch := scratch\<rparr>))
    [(frame_new PushPromise 1, u32_to_be_bytes 2 @ block)] E"
proof -
  let ?p = "u32_to_be_bytes 2 @ block"
  have "writes (\<lambda>w. bind_st (pack_bit_and_u31 0 2, w) (\<lambda>packed w. bind_st (slice_write_all w packed) (\<lambda>_ w. slice_write_all w block))) ?p"
    by (simp add: pack_u31 writes_then writes_write_all)
  from scratch_put_to_roll_ok[OF this] assms(2)
  have roll: "scratch_put_to_roll (length block + 4) (\<lambda>w. bind_st (pack_bit_and_u31 0 2, w) (\<lambda>packed w.
      bind_st (slice_write_all w packed) (\<lambda>_ w. slice_write_all w block))) [] = (Ok ?p, [])"
    by (simp add: add.commute)
  have e: "emits d config E (cn_write_frame d (frame_new PushPromise 1) (raw_piece ?p)) [(frame_new PushPromise 1, ?p)] E"
    using assms(2) by (intro emits_raw[OF assms(1)] frame_fits_new) (simp_all add: sid_ok_small)
  have same: "c\<lparr>cn_scratch := []\<rparr> = c" if "cn_scratch c = []" for c :: "bytes conn" using that by simp
  show ?thesis
    unfolding emits_def by (intro allI impI) (elim conjE, simp only: roll into_frame_eq prod.case result.case same,
      use e in \<open>simp add: emits_def\<close>)
qed

lemma client_sends_push_promise_frame_passed:
  assumes "suite_deps d fmt"
  shows "passes d fmt limit config (client_sends_push_promise_frame d)"
proof -
  let ?hs = "hs_append [] (byte_str '':status'') (byte_str ''200'')"
  have size: "fields_size ?hs = 21" by (simp add: fields_size_def byte_str_def hs_append_def)
  then have len: "length (encode_bytes encoder_new ?hs) \<le> 100" using length_encode_bytes[of encoder_new ?hs] by simp
  show ?thesis unfolding client_sends_push_promise_frame_def
  proof (rule fails_connection[OF assms])
    show "emits d config encoder_new (with_block (\<lambda>_. ?hs) (\<lambda>block c.
        case scratch_put_to_roll (length block + 4) (\<lambda>w.
            bind_st (pack_bit_and_u31 0 2, w) (\<lambda>packed w.
            bind_st (slice_write_all w packed) (\<lambda>_ w.
              slice_write_all w block))) (cn_scratch c) of
          (Ok payload, scratch) \<Rightarrow>
            cn_write_frame d (into_frame PushPromise 1) (raw_piece payload) (c\<lparr>cn_scratch := scratch\<rparr>)
        | (Err e, scratch) \<Rightarrow> (Err (Report ''put_to_roll''), c\<lparr>cn_scratch := scratch\<rparr>)
        | (Panic, scratch) \<Rightarrow> (Panic, c\<lparr>cn_scratch := scratch\<rparr>)))
      [(frame_new PushPromise 1, u32_to_be_bytes 2 @ encode_bytes encoder_new ?hs)] (foldl enc_after encoder_new ?hs)"
      by (rule emits_block[OF enc_inv_new]) (auto intro: emits_push[OF assms len])
    show "error_c_from ProtocolError \<in> {EProtocolError}" by simp
  qed (use len in \<open>auto simp: refusal_simps dest: calm_at_settled\<close>)
qed

section \<open>Frames that the deframer refuses\<close>

lemma passes_deframer:
  assumes "suite_deps d fmt" and "puts limit config ws bs" and "deframe_bytes (d_ef d) 16384 bs = ([], Err e)"
    and "\<forall>x. e \<noteq> ReadAndParse x" and "demands_error d codes v" and "error_c_from (conn_error_code e) \<in> codes"
  shows "passes d fmt limit config (script (cn_handshake d # ws @ [v]))"
proof (rule passes_script[OF assms(1,2) demands_silent[OF assms(5)] assms(3), where k = None and rs = "[]"])
  show "ends_well None (Err e)" using assms(4) by (simp add: ends_well_def)
  show "calm_run d (calm_at limit 65535 (server_hello d limit)) [] None (settled (server_hello d limit @ wires d []))"
    by (rule run_done) (auto dest: calm_at_settled)
  show "fst (script [v] c) = Ok ()"
    if "ev_rx c = arrivals d ([] @ goodbye (final_code None (Err e)) lsid msg)" "8 + length msg \<le> 16384" for c lsid msg
    using goaway_judged[OF assms(1) _ assms(5,6), of "[]" c lsid msg] that by (simp add: no_errors_def)
qed simp

lemma deframe_too_large:
  assumes "deps_ok d" and "frame_fits f p" and "16384 < length p"
  shows "deframe_bytes (d_ef d) 16384 (frame_wire d (f, [p])) =
    ([], Err (FrameTooLarge (ftype (fst (arrived d f p))) (of_nat (length p)) 16384))"
proof -
  from frame_wire_bytes[OF assms(1,2)] obtain bs where bs: "length bs = 9" "frame_of_bytes (d_ef d) bs = fst (arrived d f p)"
      "frame_wire d (f, [p]) = bs @ p" by blast
  moreover have "flen (fst (arrived d f p)) = of_nat (length p)" by (simp add: arrived_def)
  moreover have "(16384 :: u32) < of_nat (length p)" using assms(2,3) by (simp add: word_less_nat_alt unat_of_nat frame_fits_def)
  moreover have "bs \<noteq> []" using bs(1) by auto
  ultimately show ?thesis by (subst deframe_bytes.simps) (simp add: Let_def)
qed

lemma deframe_bad_padding:
  assumes "deps_ok d" and "frame_fits f (n # p)" and "has_padding (fst (arrived d f (n # p)))" and "length p < unat n" and "length p < 16384"
  shows "deframe_bytes (d_ef d) 16384 (frame_wire d (f, [n # p])) =
    ([], Err (PaddedFrameTooShort (ftype (fst (arrived d f (n # p)))) (unat n) (of_nat (Suc (length p)))))"
proof -
  from frame_wire_bytes[OF assms(1,2)] obtain bs where bs: "length bs = 9" "frame_of_bytes (d_ef d) bs = fst (arrived d f (n # p))"
      "frame_wire d (f, [n # p]) = bs @ n # p" by blast
  have len: "flen (fst (arrived d f (n # p))) = of_nat (Suc (length p))" by (simp add: arrived_def)
  have u: "unat (of_nat (Suc (length p)) :: u32) = Suc (length p)" unfolding unat_of_nat using assms(5) by simp
  then have "\<not> (16384 :: u32) < of_nat (Suc (length p))" using assms(5) by (simp add: word_less_nat_alt del: of_nat_Suc)
  moreover have "bs \<noteq> []" using bs(1) by auto
  moreover have "remove_padding (fst (arrived d f (n # p))) (n # p) =
      Err (PaddedFrameTooShort (ftype (fst (arrived d f (n # p)))) (unat n) (of_nat (Suc (length p))))"
    using assms(3,4) len by (simp add: remove_padding_def bytes_split_at_def index_at_def Let_def del: of_nat_Suc)
  ultimately show ?thesis
    by (subst deframe_bytes.simps) (simp add: bs len u Let_def del: of_nat_Suc)
qed

lemma emits_padded:
  assumes "suite_deps d fmt" and "frame_fits f (n # block)"
  shows "emits d config E (\<lambda>c. bind_st (cn_frame_piece d (with_len f (of_nat (length block + 1))) c)
    (\<lambda>frame_header. script [cn_send d frame_header, cn_send d [n], cn_send d block])) [(f, n # block)] E"
proof -
  from frame_wire_bytes[OF suite_depsD(1)[OF assms(1)] assms(2)] obtain bs where
    bs: "frame_into_piece d (f\<lparr>flen := of_nat (length (n # block))\<rparr>) [] = (Ok bs, [])" "frame_wire d (f, [n # block]) = bs @ n # block"
    by blast
  have "with_len f (of_nat (length block + 1)) = f\<lparr>flen := of_nat (length (n # block))\<rparr>" by (simp add: with_len_def)
  moreover have "c\<lparr>cn_scratch := []\<rparr> = c" if "cn_scratch c = []" for c :: "bytes conn" using that by simp
  ultimately have piece: "cn_frame_piece d (with_len f (of_nat (length block + 1))) c = (Ok bs, c)" if "cn_scratch c = []" for c
    using bs(1) that by (simp add: cn_frame_piece_def)
  show ?thesis
    unfolding emits_def by (intro allI impI) (elim conjE, simp only: piece, simp add: cn_send_wire[OF assms(1)] bs(2))
qed

lemma sends_headers_frame_with_invalid_pad_length_passed:
  assumes "suite_deps d fmt" and "config_ok config"
  shows "passes d fmt limit config (sends_headers_frame_with_invalid_pad_length d)"
proof -
  let ?f = "frame_new (Headers {HeadersPadded, HeadersEndHeaders, HeadersEndStream}) 1"
  let ?b = "encode_bytes encoder_new (post_fields config)"
  let ?n = "of_nat (length ?b + 2) :: u8"
  have d: "deps_ok d" using suite_depsD(1)[OF assms(1)] .
  have len: "length ?b \<le> 200"
    using length_encode_bytes[of encoder_new "post_fields config"] post_fields_size[OF assms(2)] by simp
  then have fits: "frame_fits ?f (?n # ?b)" by (intro frame_fits_new) (simp_all add: sid_ok_small)
  have n: "unat ?n = length ?b + 2" unfolding unat_of_nat using len by simp
  have wire: "deframe_bytes (d_ef d) 16384 (wires d [(?f, ?n # ?b)]) =
      ([], Err (PaddedFrameTooShort (ftype (fst (arrived d ?f (?n # ?b)))) (unat ?n) (of_nat (Suc (length ?b)))))"
    using deframe_bad_padding[OF d fits] n len by (simp add: arrived_new[OF d] has_padding_def del: of_nat_add of_nat_Suc)
  have "emits d config encoder_new (script [with_block post_headers (\<lambda>block c.
      bind_st (cn_frame_piece d (with_len ?f (of_nat (length block + 1))) c) (\<lambda>frame_header.
        script [cn_send d frame_header, cn_send d [of_nat (length block + 2)], cn_send d block]))])
      [(?f, ?n # ?b)] (foldl enc_after encoder_new (post_fields config))"
    by (rule emits_one, rule emits_block[OF enc_inv_new headers_of_config(1)], assumption, rule emits_padded[OF assms(1) fits])
  from passes_deframer[OF assms(1) emits_puts[OF this] wire _ demands(1)] show ?thesis
    unfolding sends_headers_frame_with_invalid_pad_length_def by (simp add: conn_error_code_def)
qed

text \<open>New names are sent as literals, so the block is at least as long as their values.\<close>

lemma disjoint_names: "C \<subseteq> P \<union> N \<Longrightarrow> P \<subseteq> Q \<Longrightarrow> A \<inter> Q = {} \<Longrightarrow> A \<inter> N = {} \<Longrightarrow> A \<inter> C = {}" for A :: "'a set"
  by blast

abbreviation enc_names :: "encoder \<Rightarrow> bytes set" where
  "enc_names E \<equiv> fst ` set (ht_iter (enc_header_table E))"

lemma enc_names_after: "enc_names (enc_after E h) \<subseteq> {fst h} \<union> enc_names E"
proof -
  let ?t = "dt_table (enc_dynamic_table E)"
  have "set (fit (dt_max_size (enc_dynamic_table E)) (h # ?t)) \<subseteq> insert h (set ?t)"
    using set_mono_prefix[OF prefix_fit[of "dt_max_size (enc_dynamic_table E)" "h # ?t"]] by simp
  then have "set (ht_iter (enc_header_table (enc_after E h))) \<subseteq> insert h (set (ht_iter (enc_header_table E)))"
    by (auto simp: enc_after_def ht_iter_def dt_push_def simp del: fit.simps)
  from image_mono[OF this, of fst] show ?thesis by simp
qed

lemma enc_names_foldl: "enc_names (foldl enc_after E hs) \<subseteq> fst ` set hs \<union> enc_names E"
proof (induction hs arbitrary: E)
  case (Cons h hs)
  from Cons.IH[of "enc_after E h"] enc_names_after[of E h] show ?case unfolding foldl.simps list.set image_insert by blast
qed simp

lemma encode_bytes_append: "encode_bytes E (hs @ hs') = encode_bytes E hs @ encode_bytes (foldl enc_after E hs) hs'"
  by (induction hs arbitrary: E) simp_all

lemma length_new_fields:
  assumes "distinct (map fst hs)" and "fst ` set hs \<inter> enc_names E = {}"
  shows "sum_list (map (length \<circ> snd) hs) \<le> length (encode_bytes E hs)"
  using assms
proof (induction hs arbitrary: E)
  case (Cons h hs)
  have "find_header (enc_header_table E) h = None" using Cons.prems(2) by (auto simp: find_header_None)
  then have "length (snd h) \<le> length (header_bytes (enc_header_table E) h)" by (simp add: header_bytes_def literal_bytes_def)
  moreover have "fst h \<notin> fst ` set hs" "fst ` set hs \<inter> enc_names E = {}" using Cons.prems by auto
  then have "fst ` set hs \<inter> enc_names (enc_after E h) = {}" by (intro disjoint_names[OF enc_names_after subset_refl]) simp_all
  ultimately show ?case using Cons.IH[of "enc_after E h"] Cons.prems(1) by simp
qed simp

definition large_fields :: "config \<Rightarrow> header list" where
  "large_fields config = hs_extend (post_fields config) (dummy_fields config 5)"

lemma five_dummies:
  "dummy_fields config 5 = map (\<lambda>i. (byte_str ''x-dummy'' @ [0x30 + i], dummy_bytes (cf_max_header_len config))) [0, 1, 2, 3, 4]"
  by (simp add: dummy_fields_def dummy_headers_def conn_new_def hs_append_def upt_rec dec_bytes.simps)

lemma large_fields_size: "config_ok config \<Longrightarrow> fields_size (large_fields config) \<le> 100000"
  using post_fields_size[of config] by (simp add: large_fields_def hs_extend_def five_dummies fields_size_def dummy_bytes_def byte_str_def config_ok_def)

lemma large_block:
  assumes "config_ok config"
  shows "16384 < length (encode_bytes encoder_new (large_fields config))" "length (encode_bytes encoder_new (large_fields config)) \<le> 100000"
proof -
  let ?E = "foldl enc_after encoder_new (post_fields config)" and ?D = "dummy_fields config 5"
  have "fst ` set ?D \<inter> enc_names ?E = {}"
  proof (rule disjoint_names[OF enc_names_foldl])
    show "fst ` set (post_fields config) \<subseteq> {byte_str '':method'', byte_str '':scheme'', byte_str '':path'', byte_str '':authority''}"
      by (simp add: post_fields_eq)
    show "fst ` set ?D \<inter> {byte_str '':method'', byte_str '':scheme'', byte_str '':path'', byte_str '':authority''} = {}"
      by (simp add: five_dummies byte_str_def)
    show "fst ` set ?D \<inter> enc_names encoder_new = {}"
      by (simp add: five_dummies encoder_new_def with_static_table_def ht_iter_def dynamic_table_new_def with_size_def
          STATIC_TABLE_def byte_str_def)
  qed
  from length_new_fields[OF _ this] have "5 * cf_max_header_len config \<le> length (encode_bytes ?E ?D)"
    by (simp add: five_dummies dummy_bytes_def)
  then show "16384 < length (encode_bytes encoder_new (large_fields config))"
    using assms by (simp add: large_fields_def hs_extend_def encode_bytes_append config_ok_def)
  show "length (encode_bytes encoder_new (large_fields config)) \<le> 100000"
    using length_encode_bytes[of encoder_new "large_fields config"] large_fields_size[OF assms] by simp
qed

lemma large_headers_frame_exceeding_max_size_passed:
  assumes "suite_deps d fmt" and "config_ok config"
  shows "passes d fmt limit config (large_headers_frame_exceeding_max_size d)"
proof -
  let ?b = "encode_bytes encoder_new (large_fields config)" and ?f = "frame_new (Headers {HeadersEndHeaders}) 1"
  let ?E = "foldl enc_after encoder_new (large_fields config)"
  let ?k = "\<lambda>block. script [\<lambda>c. assert_step (unat (max_frame_size (cn_settings c)) < length block) c,
      ignoring (cn_write_headers d 1 {HeadersEndHeaders} block)]"
  let ?w = "with_block (\<lambda>c. hs_extend (post_headers c) (dummy_headers c 5)) ?k"
  have fits: "frame_fits ?f ?b" using large_block(2)[OF assms(2)] by (intro frame_fits_new) (simp_all add: sid_ok_small)
  have wire: "emits d config ?E (ignoring (cn_write_headers d 1 {HeadersEndHeaders} ?b)) [(?f, ?b)] ?E"
    unfolding cn_write_headers_def by (intro emits_ignoring emits_raw[OF assms(1)] fits)
  have "puts limit config [?w] (wires d [(?f, ?b)])"
    unfolding puts_def script_one
  proof (intro allI impI)
    fix c :: "bytes conn" assume c: "shaken config c"
    have w: "?w c = ?k ?b (c\<lparr>cn_hpack_enc := ?E\<rparr>)"
      using c by (simp add: with_block_def cn_encode_headers_def shaken_def encode_into_vec large_fields_def headers_of_config)
    have known: "unat (max_frame_size (known_settings limit)) < length ?b"
      using large_block(1)[OF assms(2)] by (simp add: known_settings_def settings_default_def)
    show "\<exists>r c'. ?w c = (r, c') \<and> ev_rx c' = ev_rx c \<and> (cn_w c' = cn_w c @ wires d [(?f, ?b)] \<and> r = Ok () \<or>
        cn_w c' = cn_w c \<and> r \<noteq> Ok () \<and> cn_settings c \<noteq> known_settings limit)"
    proof (cases "unat (max_frame_size (cn_settings c)) < length ?b")
      case True
      have "ignoring (cn_write_headers d 1 {HeadersEndHeaders} ?b) (c\<lparr>cn_hpack_enc := ?E\<rparr>) =
          (Ok (), c\<lparr>cn_hpack_enc := ?E, cn_w := cn_w c @ wires d [(?f, ?b)]\<rparr>)"
        using wire c unfolding emits_def shaken_def by simp
      with True show ?thesis unfolding w by (simp add: assert_step_def)
    next
      case False
      with known show ?thesis unfolding w by (auto simp: assert_step_def)
    qed
  qed
  moreover have "deframe_bytes (d_ef d) 16384 (wires d [(?f, ?b)]) = ([], Err (FrameTooLarge (ftype (fst (arrived d ?f ?b))) (of_nat (length ?b)) 16384))"
    using deframe_too_large[OF suite_depsD(1)[OF assms(1)] fits large_block(1)[OF assms(2)]] by simp
  ultimately show ?thesis
    using passes_deframer[OF assms(1) _ _ _ demands(1), of limit config "[?w]"]
    unfolding large_headers_frame_exceeding_max_size_def by (simp add: conn_error_code_def)
qed

section \<open>The tests that the server passes\<close>

definition connection_error_tests :: "bytes deps \<Rightarrow> (error_c \<Rightarrow> u16) \<Rightarrow> bytes test_step list" where
  "connection_error_tests d eb =
     [idle_sends_data_frame d,
      sends_data_frame_with_zero_stream_id d,
      idle_sends_rst_stream_frame d eb,
      sends_rst_stream_frame_on_idle_stream d eb,
      sends_rst_stream_frame_with_zero_stream_id d eb,
      idle_sends_window_update_frame d,
      sends_window_update_frame_with_zero_increment d,
      sends_window_update_frame_with_invalid_length d,
      invalid_ping_frame_for_connection_close d,
      test_invalid_ping_frame_for_goaway d,
      sends_ping_frame_with_non_zero_stream_id d,
      sends_ping_frame_with_invalid_length d,
      sends_priority_frame_with_zero_stream_id d,
      sends_goaway_frame_with_non_zero_stream_id d,
      sends_settings_frame_with_ack_and_payload d,
      sends_settings_frame_with_invalid_length d,
      sends_settings_enable_push_with_invalid_value d,
      sends_settings_initial_window_size_with_invalid_value d,
      sends_settings_initial_window_size_with_exceeded_max_window_size_value d,
      sends_settings_max_frame_size_with_invalid_value_below_initial d,
      sends_settings_max_frame_size_with_invalid_value_above_max d,
      sends_settings_frame_with_non_zero_stream_id d,
      idle_sends_continuation_frame d,
      sends_headers_frame_with_zero_stream_id d,
      sends_even_numbered_stream_identifier d,
      unknown_extension_frame_in_header_block d,
      sends_continuation_frame_with_zero_stream_id d,
      headers_frame_to_another_stream d,
      sends_continuation_frame_followed_by_non_continuation_frame d,
      sends_continuation_frame_preceded_by_data_frame d,
      invalid_header_block_fragment d,
      sends_multiple_window_update_frames_increasing_flow_control_window_above_max d,
      client_sends_push_promise_frame d,
      sends_headers_frame_with_invalid_pad_length d,
      large_headers_frame_exceeding_max_size d]"

text \<open>C10: the server passes the tests of the suite that break a rule of the connection. Take any of these 35 tests:
  DATA, RST_STREAM, WINDOW_UPDATE or CONTINUATION for an idle stream; frames that belong to a stream on stream 0 and
  the other way round; frames of the wrong size; settings out of range; a window that grows too large; PUSH_PROMISE
  from a client; a header block that is interrupted, cannot be decoded, is too large or has too much padding. Then
  however the tasks of the server are scheduled, it answers what the client writes, and whatever it answers, the
  client's script ends without an error or a failed assertion: the handshake succeeds and the connection is closed
  with a GOAWAY frame whose error code is one that the test accepts.\<close>

theorem protocol_errors_reported:
  assumes "suite_deps d fmt" and "config_ok config" and "limit \<noteq> Some 0" and "test \<in> set (connection_error_tests d eb)"
  shows "passes d fmt limit config test"
proof -
  note passed = idle_sends_data_frame_passed[OF assms(1)]
    sends_data_frame_with_zero_stream_id_passed[OF assms(1)]
    idle_sends_rst_stream_frame_passed[OF assms(1)]
    sends_rst_stream_frame_on_idle_stream_passed[OF assms(1)]
    sends_rst_stream_frame_with_zero_stream_id_passed[OF assms(1)]
    idle_sends_window_update_frame_passed[OF assms(1)]
    sends_window_update_frame_with_zero_increment_passed[OF assms(1)]
    sends_window_update_frame_with_invalid_length_passed[OF assms(1)]
    invalid_ping_frame_for_connection_close_passed[OF assms(1)]
    test_invalid_ping_frame_for_goaway_passed[OF assms(1)]
    sends_ping_frame_with_non_zero_stream_id_passed[OF assms(1)]
    sends_ping_frame_with_invalid_length_passed[OF assms(1)]
    sends_priority_frame_with_zero_stream_id_passed[OF assms(1)]
    sends_goaway_frame_with_non_zero_stream_id_passed[OF assms(1)]
    sends_settings_frame_with_ack_and_payload_passed[OF assms(1)]
    sends_settings_frame_with_invalid_length_passed[OF assms(1)]
    sends_settings_enable_push_with_invalid_value_passed[OF assms(1)]
    sends_settings_initial_window_size_with_invalid_value_passed[OF assms(1)]
    sends_settings_initial_window_size_with_exceeded_max_window_size_value_passed[OF assms(1)]
    sends_settings_max_frame_size_with_invalid_value_below_initial_passed[OF assms(1)]
    sends_settings_max_frame_size_with_invalid_value_above_max_passed[OF assms(1)]
    sends_settings_frame_with_non_zero_stream_id_passed[OF assms(1)]
    idle_sends_continuation_frame_passed[OF assms(1,2)]
    sends_headers_frame_with_zero_stream_id_passed[OF assms(1,2)]
    sends_even_numbered_stream_identifier_passed[OF assms(1,2)]
    unknown_extension_frame_in_header_block_passed[OF assms(1,2,3)]
    sends_continuation_frame_with_zero_stream_id_passed[OF assms(1,2,3)]
    headers_frame_to_another_stream_passed[OF assms(1,2,3)]
    sends_continuation_frame_followed_by_non_continuation_frame_passed[OF assms(1,2,3)]
    sends_continuation_frame_preceded_by_data_frame_passed[OF assms(1,2,3)]
    invalid_header_block_fragment_passed[OF assms(1,3)]
    sends_multiple_window_update_frames_increasing_flow_control_window_above_max_passed[OF assms(1)]
    client_sends_push_promise_frame_passed[OF assms(1)]
    sends_headers_frame_with_invalid_pad_length_passed[OF assms(1,2)]
    large_headers_frame_exceeding_max_size_passed[OF assms(1,2)]
  show ?thesis using assms(4) unfolding connection_error_tests_def list.set by (elim insertE emptyE) (simp_all only: passed)
qed

lemma deps_std_suite: "suite_deps deps_std (\<lambda>_. [])"
  using deps_std_ok(1) by (simp add: suite_deps_def deps_std_def)

theorem protocol_errors_reported_witness:
  "passes deps_std (\<lambda>_. []) (Some 32) config_default (sends_ping_frame_with_invalid_length deps_std)"
  by (rule protocol_errors_reported[OF deps_std_suite config_default_ok, of _ _ "\<lambda>_. 0"]) (simp_all add: connection_error_tests_def)

end
