(* ===== verification/Httpwg_Alive.thy ===== *)
theory Httpwg_Alive
  imports Httpwg_Errors
begin

text \<open>
  The tests of the conformance suite in which the client does something unusual that is allowed, and expects the
  connection to live on: \<open>accepted\<close> says what the server answers to frames without ending the connection.
\<close>

section \<open>Connections that live on\<close>

definition accepted :: "bytes deps \<Rightarrow> (frame \<times> bytes) list \<Rightarrow> (frame \<times> bytes) list \<Rightarrow> bool" where
  "accepted d fps rs \<longleftrightarrow> (\<forall>limit cap out. calm_run d (calm_at limit cap out) (map (\<lambda>(f, p). arrived d f p) fps) None
     (calm_at limit cap (out @ wires d rs)))"

lemma accepted_append: "accepted d fps rs \<Longrightarrow> accepted d gps ss \<Longrightarrow> accepted d (fps @ gps) (rs @ ss)"
  using calm_run_append by (fastforce simp: accepted_def)

lemma accepted_one:
  assumes "\<And>limit cap out c rx. calm_at limit cap out c \<Longrightarrow>
    \<exists>c'. process_frame d (fst (arrived d f p)) p (rx, c) = Some (Ok (), rx, c') \<and> calm_at limit cap (out @ wires d rs) c'"
  shows "accepted d [(f, p)] rs"
proof -
  have "snd (arrived d f p) = p" by (simp add: arrived_def)
  with assms show ?thesis by (auto intro!: calm_run_one simp: accepted_def)
qed

lemma passes_accepted:
  assumes "suite_deps d fmt" and "emits d config encoder_new (script ws) ps E" and "\<forall>fp\<in>set ps. plain d fp" and "accepted d ps rs"
    and "\<forall>(f, p)\<in>set rs. frame_fits f p" and "silent_steps vs"
    and "\<And>c. ev_rx c = arrivals d rs \<Longrightarrow> fst (script vs c) = Ok ()"
  shows "passes d fmt limit config (script (cn_handshake d # ws @ vs))"
proof (rule passes_script[OF assms(1) emits_puts[OF assms(2)] assms(6)
      deframe_plain[OF suite_depsD(1)[OF assms(1)] assms(3)], where k = None and rs = rs])
  show "ends_well None (Ok ())" by (simp add: ends_well_def)
  have "calm_run d (calm_at limit 65535 (server_hello d limit)) (map (\<lambda>(f, p). arrived d f p) ps) None
      (calm_at limit 65535 (server_hello d limit @ wires d rs))"
    using assms(4) unfolding accepted_def by blast
  from calm_run_append[OF this refl run_done] show "calm_run d (calm_at limit 65535 (server_hello d limit))
      (map (\<lambda>(f, p). arrived d f p) ps) None (settled (server_hello d limit @ wires d rs))"
    using calm_at_settled by fastforce
qed (use assms(5,7) in auto)

abbreviation ping_ack :: "bytes \<Rightarrow> frame \<times> bytes" where
  "ping_ack data \<equiv> (frame_new (Ping {PingAck}) CONNECTION, data)"

lemma ping_fits: "length data = 8 \<Longrightarrow> frame_fits (frame_new (Ping flags) CONNECTION) data"
  by (intro frame_fits_new) (simp_all add: CONNECTION_def sid_ok_small)

lemma accepted_ping:
  assumes "suite_deps d fmt" and "length data = 8" and "ftype (fst (arrived d f data)) = Ping {}" and "fstream_id f = CONNECTION"
  shows "accepted d [(f, data)] [ping_ack data]"
proof (rule accepted_one)
  fix limit cap out rx and c :: "bytes server_context" assume c: "calm_at limit cap out c"
  let ?f = "fst (arrived d f data)"
  have f: "fstream_id ?f = CONNECTION" "flen ?f = 8" using assms(2,4) by (simp_all add: arrived_def)
  have fits: "frame_fits (with_len (frame_new (Ping {PingAck}) CONNECTION) (of_nat (length data))) (concat [data])"
    using ping_fits[OF assms(2)] by (simp add: frame_fits_def with_len_def)
  have "write_frame d (with_len (frame_new (Ping {PingAck}) CONNECTION) (of_nat (length data))) [data] c =
      (Ok (), c\<lparr>transport_w := transport_w c @ wires d [ping_ack data]\<rparr>)"
    using write_frame_calm[OF assms(1) _ fits _ calm_atD(3)[OF c]] by simp
  with c f assms(3) show "\<exists>c'. process_frame d ?f data (rx, c) = Some (Ok (), rx, c') \<and> calm_at limit cap (out @ wires d [ping_ack data]) c'"
    by (simp add: process_frame_def process_ping_def calm_at_def calm_def)
qed

lemma accepted_settings:
  assumes "suite_deps d fmt" and "length p mod 6 = 0" and "\<And>s enc. \<exists>s' enc'. settings_parse p on_setting (s, enc) = (Ok (), s', enc')"
  shows "accepted d [(settings_frame {}, p)] [(settings_frame {SettingsAck}, [])]"
  using settings_accepted[OF assms(1,2) _ _ assms(3)]
  by (intro accepted_one) (simp add: arrived_new[OF suite_depsD(1)[OF assms(1)]])

lemma accepted_ignored:
  assumes "deps_ok d" and "frame_type_wf ft" and "(\<exists>t. ft = Unknown t) \<or> (ft = Ping {PingAck} \<and> sid = CONNECTION \<and> length p = 8) \<or> (ft = GoAway \<and> sid = CONNECTION)"
  shows "accepted d [(frame_new ft sid, p)] []"
  using assms(3)
  by (intro accepted_one) (auto simp: arrived_new[OF assms(1,2)] process_frame_def process_ping_def calm_at_def calm_def)

text \<open>A test that checks that the connection is alive with a PING at the end.\<close>

lemma alive_eq: "script [a, w, cn_verify_connection_still_alive d] =
    script [a, w, cn_write_frame d (frame_new (Ping {}) CONNECTION) (raw_piece (byte_str ''pingpong'')), cn_verify_ping_frame_with_ack (byte_str ''pingpong'')]"
  using script_nested[of "[a, w]"] by (simp only: cn_verify_connection_still_alive_def cn_write_ping_def Let_def into_frame_eq append_Cons append_Nil if_False)

lemma passes_pinged:
  assumes "suite_deps d fmt" and "emits d config encoder_new (script ws) ps E" and "\<forall>fp\<in>set ps. plain d fp"
    and "accepted d ps (rs @ [ping_ack data])" and "length data = 8"
    and "\<forall>(f, p)\<in>set rs. frame_fits f p \<and> frame_t_from (ftype (fst (arrived d f p))) \<noteq> TPing"
  shows "passes d fmt limit config (script (cn_handshake d # ws @ [cn_verify_ping_frame_with_ack data]))"
proof (rule passes_accepted[OF assms(1-4)])
  show "\<forall>(f, p)\<in>set (rs @ [ping_ack data]). frame_fits f p" using assms(6) ping_fits[OF assms(5)] by auto
  show "fst (script [cn_verify_ping_frame_with_ack data] c) = Ok ()" if "ev_rx c = arrivals d (rs @ [ping_ack data])" for c
    using ping_judged[OF assms(1), of c rs data "[]"] that assms(6) by auto
qed simp

text \<open>A frame that is accepted, whatever the answer, and then the PING.\<close>

lemma passes_alive:
  assumes "suite_deps d fmt" and "emits d config encoder_new w [fp] E" and "plain d fp" and "accepted d [fp] rs"
    and "\<forall>(f, p)\<in>set rs. frame_fits f p \<and> frame_t_from (ftype (fst (arrived d f p))) \<noteq> TPing"
  shows "passes d fmt limit config (script [cn_handshake d, w, cn_verify_connection_still_alive d])"
proof -
  let ?data = "byte_str ''pingpong''" and ?f = "frame_new (Ping {}) CONNECTION"
  have d: "deps_ok d" using suite_depsD(1)[OF assms(1)] .
  have len: "length ?data = 8" by (simp add: byte_str_def)
  have ping: "accepted d [(?f, ?data)] [ping_ack ?data]"
    using len by (intro accepted_ping[OF assms(1)]) (simp_all add: arrived_new[OF d])
  have "plain d (?f, ?data)" using len by (intro plain_new[OF d]) (simp_all add: CONNECTION_def sid_ok_small has_padding_def)
  then have plain: "\<forall>fp\<in>set ([fp] @ [(?f, ?data)]). plain d fp" using assms(3) by simp
  from passes_pinged[OF assms(1) emits_Cons[OF assms(2) emits_one[OF emits_raw[OF assms(1) ping_fits[OF len]]]] plain
      accepted_append[OF assms(4) ping] len assms(5)]
  have "passes d fmt limit config (script (cn_handshake d # [w, cn_write_frame d ?f (raw_piece ?data)] @ [cn_verify_ping_frame_with_ack ?data]))" .
  then show ?thesis by (simp only: alive_eq append_Cons append_Nil)
qed

lemma passes_ping:
  assumes "suite_deps d fmt" and "emits d config encoder_new w [(f, data)] E" and "plain d (f, data)" and "length data = 8"
    and "ftype (fst (arrived d f data)) = Ping {}" and "fstream_id f = CONNECTION"
  shows "passes d fmt limit config (script [cn_handshake d, w, cn_verify_ping_frame_with_ack data])"
  using passes_pinged[OF assms(1) emits_one[OF assms(2)] _ _ assms(4), of "[]"] accepted_ping[OF assms(1,4-6)] assms(3) by simp

lemma sends_frame_with_unknown_type_passed:
  assumes "suite_deps d fmt"
  shows "passes d fmt limit config (sends_frame_with_unknown_type d)"
  unfolding sends_frame_with_unknown_type_def into_frame_eq
  by (rule passes_alive[OF assms emits_raw[OF assms] _ accepted_ignored[OF suite_depsD(1)[OF assms]]])
    (auto intro!: plain_new suite_depsD(1)[OF assms] simp: broken_simps)

lemma sends_frame_with_unused_flags_passed:
  assumes "suite_deps d fmt"
  shows "passes d fmt limit config (sends_frame_with_unused_flags d)"
proof -
  have "ftype (fst (arrived d (frame_new (Unknown \<lparr>eft_ty = 6, eft_flags = 14\<rparr>) CONNECTION) p)) = Ping {}" for p
    using suite_depsD(1)[OF assms]
    by (simp add: arrived_def deps_ok_def frame_type_decode_def raw_frame_type_from_repr_def enumflags_spec_def flags_of_def)
  then show ?thesis unfolding sends_frame_with_unused_flags_def Let_def into_frame_eq
    by (intro passes_ping[OF assms emits_raw[OF assms]])
      (auto simp: plain_def frame_fits_new CONNECTION_def sid_ok_small byte_str_def has_padding_def)
qed

lemma sends_frame_with_reserved_bit_set_passed:
  assumes "suite_deps d fmt"
  shows "passes d fmt limit config (sends_frame_with_reserved_bit_set d)"
  unfolding sends_frame_with_reserved_bit_set_def Let_def
  by (rule passes_ping[OF assms emits_raw[OF assms]])
    (auto simp: plain_def frame_fits_def sid_ok_small byte_str_def has_padding_def CONNECTION_def arrived_wf[OF suite_depsD(1)[OF assms]])

lemma sends_ping_frame_passed:
  assumes "suite_deps d fmt"
  shows "passes d fmt limit config (sends_ping_frame d)"
  unfolding sends_ping_frame_def Let_def cn_write_ping_def into_frame_eq if_False
  by (rule passes_ping[OF assms emits_raw[OF assms]])
    (auto simp: plain_def frame_fits_new sid_ok_small byte_str_def has_padding_def CONNECTION_def arrived_new[OF suite_depsD(1)[OF assms]])

lemma sends_ping_frame_with_ack_passed:
  assumes "suite_deps d fmt"
  shows "passes d fmt limit config (sends_ping_frame_with_ack d)"
proof -
  let ?data = "byte_str ''h2spec'' @ [0, 0]" and ?other = "byte_str ''invalid'' @ [0]"
  let ?ps = "[(frame_new (Ping {PingAck}) CONNECTION, ?other)] @ [(frame_new (Ping {}) CONNECTION, ?data)]"
  have d: "deps_ok d" using suite_depsD(1)[OF assms] .
  have len: "length ?data = 8" "length ?other = 8" by (simp_all add: byte_str_def)
  have "accepted d ?ps ([] @ [ping_ack ?data])"
    using len by (intro accepted_append accepted_ping[OF assms] accepted_ignored[OF d]) (simp_all add: arrived_new[OF d])
  moreover have "\<forall>fp\<in>set ?ps. plain d fp"
    using len by (auto intro!: plain_new[OF d] simp: CONNECTION_def sid_ok_small has_padding_def)
  moreover have "emits d config encoder_new (script [cn_write_ping d True ?other, cn_write_ping d False ?data]) ?ps encoder_new"
    unfolding cn_write_ping_def into_frame_eq if_True if_False
    by (rule emits_Cons[OF emits_raw[OF assms ping_fits[OF len(2)]] emits_one[OF emits_raw[OF assms ping_fits[OF len(1)]]]])
  ultimately show ?thesis
    unfolding sends_ping_frame_with_ack_def Let_def
    using passes_pinged[OF assms, of config "[cn_write_ping d True ?other, cn_write_ping d False ?data]" ?ps encoder_new "[]" ?data limit] len(1)
    by simp
qed

lemma settings_ack_known:
  assumes "deps_ok d"
  shows "\<forall>(f, p)\<in>set [(settings_frame {SettingsAck}, [])]. frame_fits f p \<and> frame_t_from (ftype (fst (arrived d f p))) \<noteq> TPing"
  using ack_fits by (simp add: arrived_new[OF assms])

lemma sends_settings_frame_with_unknown_identifier_passed:
  assumes "suite_deps d fmt"
  shows "passes d fmt limit config (sends_settings_frame_with_unknown_identifier d)"
proof -
  have d: "deps_ok d" using suite_depsD(1)[OF assms] .
  let ?p = "[0x00, 0xff, 0x00, 0x00, 0x00, 0x00] :: bytes"
  have eq: "cn_write_frame d (with_len (frame_new (Settings {}) CONNECTION) 6) = cn_write_frame d (settings_frame {})"
    by (intro ext) (simp only: cn_write_frame_def with_len_twice)
  have "accepted d [(settings_frame {}, ?p)] [(settings_frame {SettingsAck}, [])]"
    by (rule accepted_settings[OF assms]) (simp_all add: settings_parse_def u16_from_be_bytes_def setting_from_repr_def Let_def)
  moreover have "plain d (settings_frame {}, ?p)" by (intro plain_new[OF d]) (simp_all add: CONNECTION_def sid_ok_small has_padding_def)
  ultimately show ?thesis
    unfolding sends_settings_frame_with_unknown_identifier_def eq
    using passes_alive[OF assms emits_raw[OF assms, of "settings_frame {}" ?p] _ _ settings_ack_known[OF d]]
    by (auto simp: CONNECTION_def sid_ok_small frame_fits_new)
qed

lemma sends_goaway_frame_with_unknown_error_code_passed:
  assumes "suite_deps d fmt"
  shows "passes d fmt limit config (sends_goaway_frame_with_unknown_error_code d)"
  unfolding sends_goaway_frame_with_unknown_error_code_def into_frame_eq
  by (rule passes_alive[OF assms emits_goaway[OF assms] _ accepted_ignored[OF suite_depsD(1)[OF assms]]])
    (auto intro!: plain_new suite_depsD(1)[OF assms] simp: broken_simps)

lemma sends_settings_frame_without_ack_flag_passed:
  assumes "suite_deps d fmt"
  shows "passes d fmt limit config (sends_settings_frame_without_ack_flag d)"
proof -
  have d: "deps_ok d" using suite_depsD(1)[OF assms] .
  let ?p = "pairs_bytes [(EnablePush, 0)]"
  have len: "length ?p = 6" unfolding length_setting_pairs by simp
  have "settings_parse ?p on_setting (s, enc) = on_setting (s, enc) EnablePush 0" for s enc
    unfolding settings_parse_pairs_bytes by (cases "fst (on_setting (s, enc) EnablePush 0)") (simp_all add: on_setting_def settings_apply_def)
  then have acc: "accepted d [(settings_frame {}, ?p)] [(settings_frame {SettingsAck}, [])]"
    using len by (intro accepted_settings[OF assms]) (simp_all add: on_setting_def settings_apply_def)
  have plain: "\<forall>fp\<in>set [(settings_frame {}, ?p)]. plain d fp"
    using plain_new[OF d, of "Settings {}" ?p CONNECTION] len by (simp add: CONNECTION_def sid_ok_small has_padding_def)
  have emits: "emits d config encoder_new (script [cn_write_frame d (settings_frame {}) (settings_piece d [(EnablePush, 0)])])
      [(settings_frame {}, ?p)] encoder_new"
    by (rule emits_one[OF emits_settings[OF assms]]) (simp_all add: CONNECTION_def sid_ok_small)
  have "fst (script [cn_verify_settings_frame_with_ack] c) = Ok ()" if "ev_rx c = arrivals d [(settings_frame {SettingsAck}, [])]" for c
    using that by (simp add: cn_verify_settings_frame_with_ack_def expect_frame_eq arrived_new[OF d] is_ack_def assert_step_def Let_def)
  from passes_accepted[OF assms emits plain acc _ silent_verify_ack(2) this] ack_fits show ?thesis
    unfolding sends_settings_frame_without_ack_flag_def by simp
qed

text \<open>The first test has no handshake: only the preface and SETTINGS are sent.\<close>

lemma sends_client_connection_preface_passed:
  assumes "suite_deps d fmt"
  shows "passes d fmt limit config (sends_client_connection_preface d)"
  unfolding passes_def
proof (intro allI conjI impI)
  fix ended
  note d = suite_depsD[OF assms]
  let ?test = "sends_client_connection_preface d" and ?i = "client_settings d"
  let ?last = "\<lambda>c. bind_st (expect_frame {TSettings} c) (\<lambda>(frame, _) c. assert_step (\<not> is_ack frame) c) :: (unit, eyre) result \<times> bytes conn"
  let ?c = "\<lambda>out. (client_conn d config out ended)\<lparr>cn_w := PREFACE @ ?i\<rparr>"
  have run: "judged d config ?test out ended = script [?last] (?c out)" for out
    by (simp add: judged_def sends_client_connection_preface_def cn_send_wire[OF assms] cn_write_settings_wire[OF assms]
        default_settings_short conn_new_def)
  have sent: "cn_w (snd (judged d config ?test out ended)) = PREFACE @ ?i" for out
    using expect_assert_eq[of "{TSettings}" "?c out" "\<lambda>f _. \<not> is_ack f"] unfolding run script_one by (auto simp: case_prod_beta)
  have df: "deframe_bytes (d_ef d) 16384 ?i = ([hd (greeting d)], Ok ())"
    using deframe_handshake(1)[OF assms, of "[]"] by simp
  show "\<exists>out closed. observed d fmt (serve_context limit []) (cn_w (snd (judged d config ?test out ended))) (out, closed)"
    using observed_exists[OF assms df _ only_greeting_run[OF assms]] by (simp add: sent ends_well_def)
  show "fst (judged d config ?test out ended) = Ok ()"
    if "observed d fmt (serve_context limit []) (cn_w (snd (judged d config ?test out ended))) (out, closed)" for out closed
  proof -
    have "out = wires d (handshaken limit)" using only_greeting_observed[OF assms _ that[unfolded sent]] by simp
    then have "ev_rx (?c out) = arrivals d (handshaken limit)"
      using recv_bytes_wires[OF d(1), of "handshaken limit"] hello_fits ack_fits by (simp add: conn_new_def)
    then show ?thesis unfolding run script_one
      by (simp add: expect_frame_eq Let_def arrived_new[OF d(1)] is_ack_def assert_step_def)
  qed
qed

section \<open>The tests that the server passes\<close>

definition alive_tests :: "bytes deps \<Rightarrow> bytes test_step list" where
  "alive_tests d =
     [sends_frame_with_unknown_type d,
      sends_frame_with_unused_flags d,
      sends_frame_with_reserved_bit_set d,
      sends_ping_frame d,
      sends_ping_frame_with_ack d,
      sends_settings_frame_with_unknown_identifier d,
      sends_goaway_frame_with_unknown_error_code d,
      sends_settings_frame_without_ack_flag d,
      sends_client_connection_preface d]"

text \<open>C12: the server passes the tests of the suite that do what is allowed: the preface, PING with and without
  ACK, a frame with an unknown type, with flags that its type does not define or with the reserved bit set, SETTINGS
  with an unknown setting, GOAWAY with an unknown error code. However its tasks are scheduled it answers, and
  whatever it answers, the client ends without an error or a failed assertion: its SETTINGS are acknowledged, its
  PING comes back with the same eight bytes, and the connection stays open.\<close>

theorem allowed_frames_accepted:
  assumes "suite_deps d fmt" and "test \<in> set (alive_tests d)"
  shows "passes d fmt limit config test"
proof -
  note passed = sends_frame_with_unknown_type_passed[OF assms(1)]
    sends_frame_with_unused_flags_passed[OF assms(1)]
    sends_frame_with_reserved_bit_set_passed[OF assms(1)]
    sends_ping_frame_passed[OF assms(1)]
    sends_ping_frame_with_ack_passed[OF assms(1)]
    sends_settings_frame_with_unknown_identifier_passed[OF assms(1)]
    sends_goaway_frame_with_unknown_error_code_passed[OF assms(1)]
    sends_settings_frame_without_ack_flag_passed[OF assms(1)]
    sends_client_connection_preface_passed[OF assms(1)]
  show ?thesis using assms(2) unfolding alive_tests_def list.set by (elim insertE emptyE) (simp_all only: passed)
qed

theorem allowed_frames_accepted_witness:
  "passes deps_std (\<lambda>_. []) None config_default (sends_frame_with_unused_flags deps_std)"
  by (rule allowed_frames_accepted[OF deps_std_suite]) (simp add: alive_tests_def)

end
