(* ===== verification/Httpwg_Requests.thy ===== *)
theory Httpwg_Requests
  imports Httpwg_Errors
begin

text \<open>
  The tests of the conformance suite that send a malformed request and expect its stream to be reset. The server
  decodes the header block, rejects it (\<open>malformed\<close>) and answers with RST_STREAM, without having accepted
  anything. What is documented of the \<open>http\<close> package and matters here is \<open>http_names_spec\<close>.
\<close>

section \<open>Malformed requests\<close>

definition malformed :: "http \<Rightarrow> bool \<Rightarrow> header list \<Rightarrow> bool" where
  "malformed h end_stream hs \<longleftrightarrow> (fields_ok h IsHeaders hs \<longrightarrow>
     (\<exists>msg. request_of_block h end_stream (collected h hs) = Err (LevelStream (BadRequest msg))))"

text \<open>A \<open>:scheme\<close> that does not parse would end the server's task.\<close>

definition schemes_parse :: "http \<Rightarrow> header list \<Rightarrow> bool" where
  "schemes_parse h hs \<longleftrightarrow> (\<forall>(n, v)\<in>set hs. n = PSEUDO_SCHEME \<longrightarrow> scheme_from_str h v \<noteq> None)"

definition well_reported :: "field_block \<Rightarrow> bool" where
  "well_reported fb \<longleftrightarrow> \<not> fb_panicked fb \<and> (\<forall>e. fb_req_error fb = Some e \<longrightarrow> (\<exists>msg. e = BadRequest msg))"

lemma well_reported_simps [simp]:
  "well_reported (fb\<lparr>fb_method := m\<rparr>) = well_reported fb" "well_reported (fb\<lparr>fb_scheme := s\<rparr>) = well_reported fb"
  "well_reported (fb\<lparr>fb_path := p\<rparr>) = well_reported fb" "well_reported (fb\<lparr>fb_authority := a\<rparr>) = well_reported fb"
  "well_reported (fb\<lparr>fb_headers := hm\<rparr>) = well_reported fb" "well_reported (fb\<lparr>fb_saw_regular := b\<rparr>) = well_reported fb"
  by (simp_all add: well_reported_def)

lemma well_reported_bad: "well_reported fb \<Longrightarrow> well_reported (bad_request msg fb)"
  by (simp add: well_reported_def)

lemma well_reported_pair:
  assumes "well_reported fb" and "n = PSEUDO_SCHEME \<longrightarrow> scheme_from_str h v \<noteq> None"
  shows "well_reported (on_header_pair h kind fb n v)"
proof -
  have "well_reported (on_regular_header h fb n v)"
    using assms(1) by (auto simp: on_regular_header_def Let_def intro!: well_reported_bad split: option.split)
  moreover have "well_reported (on_pseudo_header h fb n v)"
    using assms unfolding on_pseudo_header_def Let_def
    by (simp only: if_splits(1) option.split) (auto intro: well_reported_bad)
  ultimately show ?thesis using assms(1) by (simp add: on_header_pair_def well_reported_bad)
qed

lemma feed_well_reported:
  assumes "schemes_parse h hs"
  shows "well_reported (feed (on_header_pair h kind) (field_block_new h) hs)"
  using assms
proof (induction hs rule: rev_induct)
  case Nil
  show ?case by (simp add: feed_def field_block_new_def well_reported_def)
next
  case (snoc nv hs)
  then show ?case
    using well_reported_pair[of "feed (on_header_pair h kind) (field_block_new h) hs" "fst nv" h "snd nv" kind]
    by (auto simp: feed_def schemes_parse_def)
qed

section \<open>How the server answers\<close>

abbreviation rst_frame :: "known_error_code \<Rightarrow> frame \<times> bytes" where
  "rst_frame k \<equiv> (frame_new RstStream 1, u32_to_be_bytes (known_error_code_repr k))"

lemma rst_fits: "frame_fits (frame_new RstStream 1) (u32_to_be_bytes x)"
  by (intro frame_fits_new) (simp_all add: sid_ok_small)

lemma rst_calm:
  assumes "suite_deps d fmt" and "calm c" and "out_scratch c = []"
  shows "rst d 1 e c = (Ok (), c\<lparr>transport_w := transport_w c @ wires d (replicate 15 (rst_frame (stream_error_code e)))\<rparr>)"
proof -
  let ?p = "u32_to_be_bytes (known_error_code_repr (stream_error_code e))"
  let ?f = "with_len (frame_new RstStream 1) (of_nat (length ?p))"
  have fits: "frame_fits ?f (concat [?p])" using rst_fits by (simp add: frame_fits_def)
  have "write_frames d (replicate n (?f, [?p])) c' =
      (Ok (), c'\<lparr>transport_w := transport_w c' @ wires d (replicate n (rst_frame (stream_error_code e)))\<rparr>)"
    if "out_scratch c' = []" for n c'
    using that
  proof (induction n arbitrary: c')
    case (Suc n)
    from Suc.prems show ?case using write_frame_calm[OF assms(1) _ fits _ Suc.prems] Suc.IH by simp
  qed simp
  moreover have "drop_stream 1 c = c"
    using assms(2) by (simp add: drop_stream_def drop_incoming_def remove_stream_def calm_def)
  ultimately show ?thesis
    using assms(3) rst_payload_ok[OF suite_depsD(1)[OF assms(1)], of "stream_error_code e"] by (simp add: rst_def Let_def)
qed

text \<open>The block is decoded to the fields that the client encoded, and they are rejected.\<close>

lemma request_rejected:
  assumes "malformed (d_http d) (HeadersEndStream \<in> flags) hs" and "schemes_parse (d_http d) hs" and "fields_size hs < 2 ^ 28"
    and "HeadersEndHeaders \<in> flags" and "sc_hpack_dec c = set_max_allowed_table_size decoder_new 4096"
  shows "\<exists>dec' msg. read_headers d IsHeaders Process flags sid (encode_bytes encoder_new hs) (rx, c) =
    (Err (LevelStream (BadRequest msg)), rx, c\<lparr>sc_hpack_dec := dec'\<rparr>)"
proof -
  let ?h = "d_http d"
  let ?fb = "feed (on_header_pair ?h IsHeaders) (field_block_new ?h) hs"
  have "encodable h" if "h \<in> set hs" for h
    using assms(3) that by (induction hs) (auto simp: fields_size_def encodable_def split: prod.splits)
  then have "list_all encodable hs" by (simp add: list_all_iff)
  from decode_loop_encode_bytes[OF in_step_new indexable_new this, of "on_header_pair ?h IsHeaders" "field_block_new ?h"]
  obtain dec' where "decode_with_cb (sc_hpack_dec c) (encode_bytes encoder_new hs) (on_header_pair ?h IsHeaders) (field_block_new ?h) =
      (Ok (), dec', ?fb)"
    by (auto simp: decode_with_cb_def feed_def assms(5))
  moreover have w: "well_reported ?fb" by (rule feed_well_reported[OF assms(2)])
  moreover have "\<exists>msg. fb_req_error ?fb = Some (BadRequest msg) \<or>
      fb_req_error ?fb = None \<and> request_of_block ?h (HeadersEndStream \<in> flags) ?fb = Err (LevelStream (BadRequest msg))"
  proof (cases "fields_ok ?h IsHeaders hs")
    case True
    with assms(1) field_block_feed[of ?h IsHeaders hs] show ?thesis by (auto simp: malformed_def fb_good_def)
  next
    case False
    with field_block_feed[of ?h IsHeaders hs] w have "fb_req_error ?fb \<noteq> None" by (auto simp: fb_good_def well_reported_def)
    with w show ?thesis by (auto simp: well_reported_def)
  qed
  ultimately show ?thesis
    using assms(4) by (auto simp: read_headers_def header_fragments_def Let_def well_reported_def)
qed

lemma rejected_run:
  assumes "suite_deps d fmt" and "limit \<noteq> Some 0" and "malformed (d_http d) (HeadersEndStream \<in> flags) hs"
    and "schemes_parse (d_http d) hs" and "fields_size hs < 2 ^ 28" and "HeadersEndHeaders \<in> flags" and "HeadersPriority \<notin> flags"
  shows "calm_run d (calm_at limit cap out) [arrived d (frame_new (Headers flags) 1) (encode_bytes encoder_new hs)] None
    (settled (out @ wires d (replicate 15 (rst_frame ProtocolError))))"
proof (rule calm_run_one)
  let ?p = "encode_bytes encoder_new hs"
  let ?f = "(frame_new (Headers flags) 1)\<lparr>flen := of_nat (length ?p)\<rparr>"
  fix c rx assume c: "calm_at limit cap out c"
  let ?c = "st_upd (\<lambda>s. s\<lparr>last_stream_id := 1\<rparr>) c"
  have "sc_hpack_dec ?c = set_max_allowed_table_size decoder_new 4096" using calm_atD(6)[OF c] by simp
  from request_rejected[OF assms(3-6) this, of 1 rx] obtain dec' msg where
    r: "read_headers d IsHeaders Process flags 1 ?p (rx, ?c) = (Err (LevelStream (BadRequest msg)), rx, ?c\<lparr>sc_hpack_dec := dec'\<rparr>)" by blast
  have "calm (?c\<lparr>sc_hpack_dec := dec'\<rparr>)" "out_scratch (?c\<lparr>sc_hpack_dec := dec'\<rparr>) = []" "transport_w ?c = out"
    using c by (simp_all add: calm_at_def calm_def)
  with rst_calm[OF assms(1) this(1,2), of "BadRequest msg"] r classified[OF assms(2) c]
  have "\<exists>c'. process_frame d ?f ?p (rx, c) = Some (Ok (), rx, c') \<and> settled (out @ wires d (replicate 15 (rst_frame ProtocolError))) c'"
    using assms(7) by (simp add: process_frame_def process_headers_def strip_priority_def settled_def calm_def)
  then show "\<exists>c'. process_frame d (fst (arrived d (frame_new (Headers flags) 1) ?p)) (snd (arrived d (frame_new (Headers flags) 1) ?p)) (rx, c) =
      Some (Ok (), rx, c') \<and> settled (out @ wires d (replicate 15 (rst_frame ProtocolError))) c'"
    by (simp add: arrived_new[OF suite_depsD(1)[OF assms(1)]])
qed simp_all

text \<open>The test judges the first RST_STREAM.\<close>

lemma rst_code_bytes: "nom_spec (d_nom d) \<Longrightarrow> rst_stream_code d (u32_to_be_bytes (known_error_code_repr k)) = Ok (known_error_code_repr k)"
  using be_u32_bytes[of "d_nom d" "known_error_code_repr k" "[]"] by (simp add: rst_stream_code_def rst_stream_parse_def)

lemma rst_judged:
  assumes "suite_deps d fmt" and "error_c_from k \<in> codes" and "ev_rx c = arrivals d (rst_frame k # rs)"
  shows "fst (script [cn_verify_stream_error d codes] c) = Ok ()"
proof -
  let ?g = "arrived d (fst (rst_frame k)) (snd (rst_frame k))"
  have g: "ftype (fst ?g) = RstStream" "snd ?g = snd (rst_frame k)" by (simp_all add: arrived_new[OF suite_depsD(1)[OF assms(1)]])
  with assms(2,3) rst_code_bytes[OF suite_depsD(6)[OF assms(1)]] show ?thesis
    unfolding script_one by (simp add: cn_verify_stream_error_def wait_for_frame_def)
qed

lemma rejected_request_passes:
  assumes "suite_deps d fmt" and "limit \<noteq> Some 0" and "\<And>c :: bytes conn. cn_config c = config \<Longrightarrow> headers c = hs"
    and "malformed (d_http d) True hs" and "schemes_parse (d_http d) hs" and "fields_size hs \<le> 16384"
  shows "passes d fmt limit config (rejected_request d headers)"
proof -
  let ?flags = "{HeadersEndHeaders, HeadersEndStream}" and ?b = "encode_bytes encoder_new hs"
  let ?f = "frame_new (Headers ?flags) 1"
  let ?w = "with_block headers (\<lambda>block. cn_write_frame d ?f (raw_piece block))"
  have d: "deps_ok d" using suite_depsD(1)[OF assms(1)] .
  have len: "length ?b \<le> 16384" by (rule block_short) (use assms(6) in simp_all)
  have "(\<lambda>c. cn_send_req_and_expect_stream_rst d 1 (headers c) c) = script [?w, cn_verify_stream_error d {EProtocolError}]"
    by (intro ext) (simp add: cn_send_req_and_expect_stream_rst_def cn_encode_and_write_headers_def with_block_def cn_write_headers_def)
  with script_nested[of "[cn_handshake d]" "[?w, cn_verify_stream_error d {EProtocolError}]"]
  have test: "rejected_request d headers = script (cn_handshake d # [?w] @ [cn_verify_stream_error d {EProtocolError}])"
    by (simp only: rejected_request_def append_Cons append_Nil)
  have "emits d config encoder_new (script [?w]) [(?f, ?b)] (foldl enc_after encoder_new hs)"
    using len by (intro emits_one emits_block[OF enc_inv_new assms(3)] emits_raw[OF assms(1)] frame_fits_new) (simp_all add: sid_ok_small)
  note puts = emits_puts[OF this]
  have "plain d (?f, ?b)" using len by (intro plain_new[OF d]) (simp_all add: sid_ok_small has_padding_def)
  then have df: "deframe_bytes (d_ef d) 16384 (wires d [(?f, ?b)]) = ([arrived d ?f ?b], Ok ())"
    using deframe_plain[OF d, of "[(?f, ?b)]"] by simp
  show ?thesis unfolding test
  proof (rule passes_script[OF assms(1) puts silent_verify(2) df, where k = None])
    show "calm_run d (calm_at limit 65535 (server_hello d limit)) [arrived d ?f ?b] None
        (settled (server_hello d limit @ wires d (replicate 15 (rst_frame ProtocolError))))"
      using assms(4,6) by (intro rejected_run[OF assms(1,2) _ assms(5)]) simp_all
    show "fst (script [cn_verify_stream_error d {EProtocolError}] c) = Ok ()"
      if "ev_rx c = arrivals d (replicate 15 (rst_frame ProtocolError) @ goodbye (final_code None (Ok ())) lsid msg)" for c lsid msg
      using rst_judged[OF assms(1), of ProtocolError _ c "replicate 14 (rst_frame ProtocolError)"] that by (simp add: numeral_eq_Suc)
  qed (use rst_fits in \<open>auto simp: ends_well_def\<close>)
qed

section \<open>The requests of the tests\<close>

text \<open>Header names consist of token characters and are kept in lowercase; an authority is its text and compared
  without regard to case; the two schemes are known.\<close>

definition is_token_byte :: "u8 \<Rightarrow> bool" where
  "is_token_byte b \<longleftrightarrow> 0x30 \<le> b \<and> b \<le> 0x39 \<or> 0x41 \<le> b \<and> b \<le> 0x5A \<or> 0x61 \<le> b \<and> b \<le> 0x7A \<or>
     b \<in> set (byte_str ''!#$%&*+-.^_|~'') \<union> {0x27, 0x60}"

definition http_names_spec :: "http \<Rightarrow> bool" where
  "http_names_spec h \<longleftrightarrow>
     (\<forall>n. list_ex (\<lambda>b. \<not> is_token_byte b) n \<longrightarrow> header_name_from_bytes h n = None) \<and>
     (\<forall>n. n \<noteq> [] \<and> length n < 2 ^ 15 \<and> list_all is_token_byte n \<longrightarrow> header_name_from_bytes h n = Some (map to_ascii_lowercase n)) \<and>
     (\<forall>s a. authority_from_str h s = Some a \<longrightarrow> a = s) \<and>
     (\<forall>a b. authority_eq h a b \<longleftrightarrow> map to_ascii_lowercase a = map to_ascii_lowercase b) \<and>
     (\<forall>s\<in>{byte_str ''http'', byte_str ''https''}. \<exists>scheme. scheme_from_str h s = Some scheme \<and> scheme_eq h scheme s)"

lemma names_specD:
  assumes "http_names_spec h"
  shows "list_ex (\<lambda>b. \<not> is_token_byte b) n \<Longrightarrow> header_name_from_bytes h n = None"
    and "n \<noteq> [] \<Longrightarrow> length n < 2 ^ 15 \<Longrightarrow> list_all is_token_byte n \<Longrightarrow> header_name_from_bytes h n = Some (map to_ascii_lowercase n)"
    and "authority_from_str h s = Some a \<Longrightarrow> a = s"
    and "authority_eq h a b \<longleftrightarrow> map to_ascii_lowercase a = map to_ascii_lowercase b"
    and "\<exists>scheme. scheme_from_str h (post_scheme config) = Some scheme \<and> scheme_eq h scheme (post_scheme config)"
    and "\<exists>scheme. scheme_from_str h (byte_str ''https'') = Some scheme"
  using assms unfolding http_names_spec_def post_scheme_def by auto

lemma pseudo_folds:
  "byte_str '':method'' = PSEUDO_METHOD" "byte_str '':scheme'' = PSEUDO_SCHEME" "byte_str '':path'' = PSEUDO_PATH"
  "byte_str '':authority'' = PSEUDO_AUTHORITY" "byte_str ''host'' = HOST"
  by (simp_all add: PSEUDO_METHOD_def PSEUDO_SCHEME_def PSEUDO_PATH_def PSEUDO_AUTHORITY_def HOST_def)

lemma is_pseudo_names [simp]:
  "is_pseudo PSEUDO_METHOD" "is_pseudo PSEUDO_SCHEME" "is_pseudo PSEUDO_PATH" "is_pseudo PSEUDO_AUTHORITY" "\<not> is_pseudo HOST"
  by (simp_all add: PSEUDO_METHOD_def PSEUDO_SCHEME_def PSEUDO_PATH_def PSEUDO_AUTHORITY_def HOST_def is_pseudo_def byte_str_def)

lemma post_schemes_parse:
  assumes "http_names_spec h"
  shows "schemes_parse h (post_fields config)"
  using names_specD(5)[OF assms, of config] by (auto simp: schemes_parse_def post_fields_eq pseudo_folds)

text \<open>One field too many, at the end.\<close>

lemma passes_bad_field:
  assumes "suite_deps d fmt" and "limit \<noteq> Some 0" and "config_ok config" and "http_names_spec (d_http d)"
    and "\<not> fields_ok (d_http d) IsHeaders (post_fields config @ [(n, v)])" and "n \<noteq> PSEUDO_SCHEME" and "length n + length v \<le> 100"
  shows "passes d fmt limit config (rejected_request d (\<lambda>c. hs_append (post_headers c) n v))"
proof (rule rejected_request_passes[OF assms(1,2)])
  show "hs_append (post_headers c) n v = post_fields config @ [(n, v)]" if "cn_config c = config" for c :: "bytes conn"
    by (simp add: hs_append_def headers_of_config[OF that])
  show "malformed (d_http d) True (post_fields config @ [(n, v)])" using assms(5) by (simp add: malformed_def)
  show "schemes_parse (d_http d) (post_fields config @ [(n, v)])"
    using post_schemes_parse[OF assms(4), of config] assms(6) by (auto simp: schemes_parse_def)
  show "fields_size (post_fields config @ [(n, v)]) \<le> 16384"
    using post_fields_size[OF assms(3)] assms(7) by (simp add: fields_size_def)
qed

lemma passes_bad_regular:
  assumes "suite_deps d fmt" and "limit \<noteq> Some 0" and "config_ok config" and "http_names_spec (d_http d)"
    and "\<not> regular_field_ok (d_http d) (n, v)" and "\<not> is_pseudo n" and "length n + length v \<le> 100"
  shows "passes d fmt limit config (rejected_request d (\<lambda>c. hs_append (post_headers c) n v))"
  using passes_bad_field[OF assms(1-4) _ _ assms(7)] assms(5,6) fields_ok_snoc_regular[OF assms(6)] by fastforce

lemmas field_simps_bytes = regular_field_ok_def byte_str_def is_pseudo_def is_ascii_uppercase_def is_blank_def is_token_byte_def
  names_specD to_ascii_lowercase_def CONNECTION_NAME_def KEEP_ALIVE_def PROXY_CONNECTION_def TRANSFER_ENCODING_def UPGRADE_def TE_def

lemma sends_headers_frame_with_uppercase_field_name_passed:
  assumes "suite_deps d fmt" and "limit \<noteq> Some 0" and "config_ok config" and "http_names_spec (d_http d)"
  shows "passes d fmt limit config (sends_headers_frame_with_uppercase_field_name d)"
  unfolding sends_headers_frame_with_uppercase_field_name_def
  by (rule passes_bad_regular[OF assms]) (simp_all add: field_simps_bytes assms(4))

lemma sends_headers_frame_with_space_in_field_name_passed:
  assumes "suite_deps d fmt" and "limit \<noteq> Some 0" and "config_ok config" and "http_names_spec (d_http d)"
  shows "passes d fmt limit config (sends_headers_frame_with_space_in_field_name d)"
  unfolding sends_headers_frame_with_space_in_field_name_def
  by (rule passes_bad_regular[OF assms]) (simp_all add: field_simps_bytes assms(4))

lemma sends_headers_frame_with_non_visible_ascii_passed:
  assumes "suite_deps d fmt" and "limit \<noteq> Some 0" and "config_ok config" and "http_names_spec (d_http d)"
  shows "passes d fmt limit config (sends_headers_frame_with_non_visible_ascii d)"
  unfolding sends_headers_frame_with_non_visible_ascii_def
  by (rule passes_bad_regular[OF assms]) (simp_all add: field_simps_bytes assms(4) word_le_nat_alt)

lemma sends_headers_frame_with_del_character_passed:
  assumes "suite_deps d fmt" and "limit \<noteq> Some 0" and "config_ok config" and "http_names_spec (d_http d)"
  shows "passes d fmt limit config (sends_headers_frame_with_del_character d)"
  unfolding sends_headers_frame_with_del_character_def
  by (rule passes_bad_regular[OF assms]) (simp_all add: field_simps_bytes assms(4))

lemma sends_headers_frame_with_non_ascii_character_passed:
  assumes "suite_deps d fmt" and "limit \<noteq> Some 0" and "config_ok config" and "http_names_spec (d_http d)"
  shows "passes d fmt limit config (sends_headers_frame_with_non_ascii_character d)"
  unfolding sends_headers_frame_with_non_ascii_character_def
  by (rule passes_bad_regular[OF assms]) (simp_all add: field_simps_bytes assms(4))

lemma sends_headers_frame_with_colon_in_field_name_passed:
  assumes "suite_deps d fmt" and "limit \<noteq> Some 0" and "config_ok config" and "http_names_spec (d_http d)"
  shows "passes d fmt limit config (sends_headers_frame_with_colon_in_field_name d)"
  unfolding sends_headers_frame_with_colon_in_field_name_def
  by (rule passes_bad_regular[OF assms]) (simp_all add: field_simps_bytes assms(4))

lemma sends_headers_frame_with_lf_in_field_value_passed:
  assumes "suite_deps d fmt" and "limit \<noteq> Some 0" and "config_ok config" and "http_names_spec (d_http d)"
  shows "passes d fmt limit config (sends_headers_frame_with_lf_in_field_value d)"
  unfolding sends_headers_frame_with_lf_in_field_value_def
  by (rule passes_bad_regular[OF assms]) (simp_all add: field_simps_bytes assms(4))

lemma sends_headers_frame_with_cr_in_field_value_passed:
  assumes "suite_deps d fmt" and "limit \<noteq> Some 0" and "config_ok config" and "http_names_spec (d_http d)"
  shows "passes d fmt limit config (sends_headers_frame_with_cr_in_field_value d)"
  unfolding sends_headers_frame_with_cr_in_field_value_def
  by (rule passes_bad_regular[OF assms]) (simp_all add: field_simps_bytes assms(4))

lemma sends_headers_frame_with_nul_in_field_value_passed:
  assumes "suite_deps d fmt" and "limit \<noteq> Some 0" and "config_ok config" and "http_names_spec (d_http d)"
  shows "passes d fmt limit config (sends_headers_frame_with_nul_in_field_value d)"
  unfolding sends_headers_frame_with_nul_in_field_value_def
  by (rule passes_bad_regular[OF assms]) (simp_all add: field_simps_bytes assms(4))

lemma sends_headers_frame_with_leading_space_in_field_value_passed:
  assumes "suite_deps d fmt" and "limit \<noteq> Some 0" and "config_ok config" and "http_names_spec (d_http d)"
  shows "passes d fmt limit config (sends_headers_frame_with_leading_space_in_field_value d)"
  unfolding sends_headers_frame_with_leading_space_in_field_value_def
  by (rule passes_bad_regular[OF assms]) (simp_all add: field_simps_bytes assms(4))

lemma sends_headers_frame_with_trailing_tab_in_field_value_passed:
  assumes "suite_deps d fmt" and "limit \<noteq> Some 0" and "config_ok config" and "http_names_spec (d_http d)"
  shows "passes d fmt limit config (sends_headers_frame_with_trailing_tab_in_field_value d)"
  unfolding sends_headers_frame_with_trailing_tab_in_field_value_def
  by (rule passes_bad_regular[OF assms]) (simp_all add: field_simps_bytes assms(4))

lemma sends_headers_frame_with_connection_header_passed:
  assumes "suite_deps d fmt" and "limit \<noteq> Some 0" and "config_ok config" and "http_names_spec (d_http d)"
  shows "passes d fmt limit config (sends_headers_frame_with_connection_header d)"
  unfolding sends_headers_frame_with_connection_header_def
  by (rule passes_bad_regular[OF assms]) (simp_all add: field_simps_bytes assms(4))

lemma sends_headers_frame_with_proxy_connection_header_passed:
  assumes "suite_deps d fmt" and "limit \<noteq> Some 0" and "config_ok config" and "http_names_spec (d_http d)"
  shows "passes d fmt limit config (sends_headers_frame_with_proxy_connection_header d)"
  unfolding sends_headers_frame_with_proxy_connection_header_def
  by (rule passes_bad_regular[OF assms]) (simp_all add: field_simps_bytes assms(4))

lemma sends_headers_frame_with_keep_alive_header_passed:
  assumes "suite_deps d fmt" and "limit \<noteq> Some 0" and "config_ok config" and "http_names_spec (d_http d)"
  shows "passes d fmt limit config (sends_headers_frame_with_keep_alive_header d)"
  unfolding sends_headers_frame_with_keep_alive_header_def
  by (rule passes_bad_regular[OF assms]) (simp_all add: field_simps_bytes assms(4))

lemma sends_headers_frame_with_transfer_encoding_header_passed:
  assumes "suite_deps d fmt" and "limit \<noteq> Some 0" and "config_ok config" and "http_names_spec (d_http d)"
  shows "passes d fmt limit config (sends_headers_frame_with_transfer_encoding_header d)"
  unfolding sends_headers_frame_with_transfer_encoding_header_def
  by (rule passes_bad_regular[OF assms]) (simp_all add: field_simps_bytes assms(4))

lemma sends_headers_frame_with_upgrade_header_passed:
  assumes "suite_deps d fmt" and "limit \<noteq> Some 0" and "config_ok config" and "http_names_spec (d_http d)"
  shows "passes d fmt limit config (sends_headers_frame_with_upgrade_header d)"
  unfolding sends_headers_frame_with_upgrade_header_def
  by (rule passes_bad_regular[OF assms]) (simp_all add: field_simps_bytes assms(4))

lemma sends_headers_frame_with_te_not_trailers_passed:
  assumes "suite_deps d fmt" and "limit \<noteq> Some 0" and "config_ok config" and "http_names_spec (d_http d)"
  shows "passes d fmt limit config (sends_headers_frame_with_te_not_trailers d)"
  unfolding sends_headers_frame_with_te_not_trailers_def
  by (rule passes_bad_regular[OF assms]) (simp_all add: field_simps_bytes assms(4))

lemma sends_headers_frame_with_response_pseudo_header_passed:
  assumes "suite_deps d fmt" and "limit \<noteq> Some 0" and "config_ok config" and "http_names_spec (d_http d)"
  shows "passes d fmt limit config (sends_headers_frame_with_response_pseudo_header d)"
proof -
  have "is_pseudo (byte_str '':status'')" by (simp add: is_pseudo_def byte_str_def)
  moreover have "byte_str '':status'' \<notin> {PSEUDO_METHOD, PSEUDO_SCHEME, PSEUDO_PATH, PSEUDO_AUTHORITY}"
    by (simp add: PSEUDO_METHOD_def PSEUDO_SCHEME_def PSEUDO_PATH_def PSEUDO_AUTHORITY_def byte_str_def)
  ultimately show ?thesis unfolding sends_headers_frame_with_response_pseudo_header_def
    by (intro passes_bad_field[OF assms]) (auto simp: fields_ok_snoc_pseudo pseudo_field_ok_def byte_str_def[of "''200''"] byte_str_def[of "'':status''"])
qed

text \<open>Fields that are wrong as a whole: the client's headers depend on the configuration only.\<close>

lemma passes_malformed:
  assumes "suite_deps d fmt" and "limit \<noteq> Some 0"
    and "\<And>c :: bytes conn. cn_config c = config \<Longrightarrow> headers c = hs"
    and "fields_ok (d_http d) IsHeaders hs \<Longrightarrow> \<exists>msg. request_of_block (d_http d) True (collected (d_http d) hs) = Err (LevelStream (BadRequest msg))"
    and "schemes_parse (d_http d) hs" and "fields_size hs \<le> 16384"
  shows "passes d fmt limit config (rejected_request d headers)"
  using rejected_request_passes[OF assms(1-3) _ assms(5,6)] assms(4) by (auto simp: malformed_def)

lemma schemes_parse_simps [simp]:
  "schemes_parse h []"
  "schemes_parse h ((n, v) # hs) \<longleftrightarrow> (n = PSEUDO_SCHEME \<longrightarrow> scheme_from_str h v \<noteq> None) \<and> schemes_parse h hs"
  by (simp_all add: schemes_parse_def)

lemma fields_size_simps [simp]: "fields_size [] = 0" "fields_size ((n, v) # hs) = length n + length v + 11 + fields_size hs"
  by (simp_all add: fields_size_def)

lemma name_lengths [simp]:
  "length PSEUDO_METHOD = 7" "length PSEUDO_SCHEME = 7" "length PSEUDO_PATH = 5" "length PSEUDO_AUTHORITY = 10" "length HOST = 4"
  "length POST = 4" "length (byte_str s) = length s"
  by (simp_all add: PSEUDO_METHOD_def PSEUDO_SCHEME_def PSEUDO_PATH_def PSEUDO_AUTHORITY_def HOST_def POST_def byte_str_def)

lemma host_names [simp]: "HOST \<noteq> PSEUDO_METHOD" "HOST \<noteq> PSEUDO_SCHEME" "HOST \<noteq> PSEUDO_PATH" "HOST \<noteq> PSEUDO_AUTHORITY"
  by (simp_all add: PSEUDO_METHOD_def PSEUDO_SCHEME_def PSEUDO_PATH_def PSEUDO_AUTHORITY_def HOST_def byte_str_def)

lemmas host_names_sym [simp] = host_names[symmetric]

lemmas post_eq = post_fields_eq[unfolded pseudo_folds]

lemma post_method [simp]: "method_from POST = Post" "method_from (byte_str ''CONNECT'') = Connect"
  by (simp_all add: method_from_def POST_def byte_str_def)

lemmas block_simps = collected_def pseudo_fields_def regular_fields_def collected_headers_def Let_def request_of_block_def request_method_def bad_def

lemmas header_edits = hs_prepend_def hs_append_def hs_replace_def hs_remove_def headers_of_config post_eq

lemma sends_headers_frame_with_duplicate_pseudo_headers_passed:
  assumes "suite_deps d fmt" and "limit \<noteq> Some 0" and "config_ok config" and "http_names_spec (d_http d)"
  shows "passes d fmt limit config (sends_headers_frame_with_duplicate_pseudo_headers d)"
  unfolding sends_headers_frame_with_duplicate_pseudo_headers_def pseudo_folds
  by (rule passes_malformed[OF assms(1,2), where hs = "(PSEUDO_METHOD, POST) # (PSEUDO_METHOD, POST) # post_fields config"])
    (use post_fields_size[OF assms(3)] names_specD(5)[OF assms(4), of config] names_specD(6)[OF assms(4)] in
      \<open>auto simp: header_edits block_simps fields_ok_def POST_def[symmetric]\<close>)

lemma sends_headers_frame_without_method_passed:
  assumes "suite_deps d fmt" and "limit \<noteq> Some 0" and "config_ok config" and "http_names_spec (d_http d)"
  shows "passes d fmt limit config (sends_headers_frame_without_method d)"
  unfolding sends_headers_frame_without_method_def pseudo_folds
  by (rule passes_malformed[OF assms(1,2), where hs = "[(PSEUDO_SCHEME, post_scheme config), (PSEUDO_PATH, cf_path config), (PSEUDO_AUTHORITY, post_authority config)]"])
    (use post_fields_size[OF assms(3)] names_specD(5)[OF assms(4), of config] names_specD(6)[OF assms(4)] in
      \<open>auto simp: header_edits block_simps\<close>)

lemma sends_headers_frame_without_scheme_passed:
  assumes "suite_deps d fmt" and "limit \<noteq> Some 0" and "config_ok config" and "http_names_spec (d_http d)"
  shows "passes d fmt limit config (sends_headers_frame_without_scheme d)"
  unfolding sends_headers_frame_without_scheme_def pseudo_folds
  by (rule passes_malformed[OF assms(1,2), where hs = "[(PSEUDO_METHOD, POST), (PSEUDO_PATH, cf_path config), (PSEUDO_AUTHORITY, post_authority config)]"])
    (use post_fields_size[OF assms(3)] names_specD(5)[OF assms(4), of config] names_specD(6)[OF assms(4)] in
      \<open>auto simp: header_edits block_simps\<close>)

lemma sends_headers_frame_without_path_passed:
  assumes "suite_deps d fmt" and "limit \<noteq> Some 0" and "config_ok config" and "http_names_spec (d_http d)"
  shows "passes d fmt limit config (sends_headers_frame_without_path d)"
  unfolding sends_headers_frame_without_path_def pseudo_folds
  by (rule passes_malformed[OF assms(1,2), where hs = "[(PSEUDO_METHOD, POST), (PSEUDO_SCHEME, post_scheme config), (PSEUDO_AUTHORITY, post_authority config)]"])
    (use post_fields_size[OF assms(3)] names_specD(5)[OF assms(4), of config] names_specD(6)[OF assms(4)] in
      \<open>auto simp: header_edits block_simps\<close>)

lemma sends_headers_frame_with_empty_path_component_passed:
  assumes "suite_deps d fmt" and "limit \<noteq> Some 0" and "config_ok config" and "http_names_spec (d_http d)"
  shows "passes d fmt limit config (sends_headers_frame_with_empty_path_component d)"
  unfolding sends_headers_frame_with_empty_path_component_def pseudo_folds
  by (rule passes_malformed[OF assms(1,2), where hs = "[(PSEUDO_METHOD, POST), (PSEUDO_SCHEME, post_scheme config), (PSEUDO_AUTHORITY, post_authority config), (PSEUDO_PATH, [])]"])
    (use post_fields_size[OF assms(3)] names_specD(5)[OF assms(4), of config] names_specD(6)[OF assms(4)] in
      \<open>auto simp: header_edits block_simps post_scheme_def\<close>)

lemma sends_connect_with_scheme_passed:
  assumes "suite_deps d fmt" and "limit \<noteq> Some 0" and "config_ok config" and "http_names_spec (d_http d)"
  shows "passes d fmt limit config (sends_connect_with_scheme d)"
  unfolding sends_connect_with_scheme_def pseudo_folds
  by (rule passes_malformed[OF assms(1,2), where hs = "[(PSEUDO_METHOD, byte_str ''CONNECT''), (PSEUDO_SCHEME, byte_str ''https''), (PSEUDO_AUTHORITY, byte_str ''example.com:443'')]"])
    (use post_fields_size[OF assms(3)] names_specD(5)[OF assms(4), of config] names_specD(6)[OF assms(4)] in
      \<open>auto simp: header_edits block_simps\<close>)

lemma sends_connect_with_path_passed:
  assumes "suite_deps d fmt" and "limit \<noteq> Some 0" and "config_ok config" and "http_names_spec (d_http d)"
  shows "passes d fmt limit config (sends_connect_with_path d)"
  unfolding sends_connect_with_path_def pseudo_folds
  by (rule passes_malformed[OF assms(1,2), where hs = "[(PSEUDO_METHOD, byte_str ''CONNECT''), (PSEUDO_PATH, byte_str ''/''), (PSEUDO_AUTHORITY, byte_str ''example.com:443'')]"])
    (use post_fields_size[OF assms(3)] names_specD(5)[OF assms(4), of config] names_specD(6)[OF assms(4)] in
      \<open>auto simp: header_edits block_simps\<close>)

lemma sends_connect_without_authority_passed:
  assumes "suite_deps d fmt" and "limit \<noteq> Some 0" and "config_ok config" and "http_names_spec (d_http d)"
  shows "passes d fmt limit config (sends_connect_without_authority d)"
  unfolding sends_connect_without_authority_def pseudo_folds
  by (rule passes_malformed[OF assms(1,2), where hs = "[(PSEUDO_METHOD, byte_str ''CONNECT'')]"])
    (use post_fields_size[OF assms(3)] names_specD(5)[OF assms(4), of config] names_specD(6)[OF assms(4)] in
      \<open>auto simp: header_edits block_simps\<close>)

lemma sends_headers_frame_with_pseudo_headers_after_regular_headers_passed:
  assumes "suite_deps d fmt" and "limit \<noteq> Some 0" and "config_ok config" and "http_names_spec (d_http d)"
  shows "passes d fmt limit config (sends_headers_frame_with_pseudo_headers_after_regular_headers d)"
proof -
  let ?ct = "(byte_str ''content-type'', byte_str ''application/json'')"
  have ct: "\<not> is_pseudo (byte_str ''content-type'')" "byte_str ''content-type'' \<noteq> PSEUDO_AUTHORITY" "byte_str ''content-type'' \<noteq> PSEUDO_SCHEME"
    by (simp_all add: is_pseudo_def byte_str_def PSEUDO_AUTHORITY_def PSEUDO_SCHEME_def)
  show ?thesis unfolding sends_headers_frame_with_pseudo_headers_after_regular_headers_def pseudo_folds
    by (rule passes_malformed[OF assms(1,2), where hs = "[(PSEUDO_METHOD, byte_str ''POST''), (PSEUDO_PATH, byte_str ''/''), ?ct,
        (PSEUDO_AUTHORITY, byte_str ''example.com'')]"])
      (use ct in \<open>auto simp: hs_append_def fields_ok_def pseudo_fields_def regular_fields_def\<close>)
qed

text \<open>The authority and the host are compared, so one of the checks up to that comparison fails.\<close>

lemma host_mismatch:
  assumes "http_spec h" and "http_names_spec h" and "fb_authority fb = Some a" and "hm_get h (fb_headers fb) HOST = Some v"
    and "length v \<noteq> length a" and "fb_method fb = Some m" and "m \<noteq> Connect"
  shows "\<exists>msg. request_of_block h True fb = Err (LevelStream (BadRequest msg))"
proof -
  have "\<not> authority_eq h v a" using names_specD(4)[OF assms(2)] assms(5) map_eq_imp_length_eq by blast
  moreover have "b = v" if "authority_from_str h v = Some b" for b using names_specD(3)[OF assms(2) that] .
  ultimately have "\<exists>msg. request_authority h fb = bad msg"
    using assms(3,4) by (auto simp: request_authority_def host_authority_def bad_def split: option.split)
  then show ?thesis
    using assms(6,7) by (auto simp: request_of_block_def request_method_def bad_def split: option.split)
qed

lemma sends_headers_frame_with_mismatched_host_authority_passed:
  assumes "suite_deps d fmt" and "limit \<noteq> Some 0" and "config_ok config" and "http_names_spec (d_http d)"
  shows "passes d fmt limit config (sends_headers_frame_with_mismatched_host_authority d)"
proof -
  let ?h = "d_http d" and ?v = "cf_host config @ byte_str ''.different''"
  let ?hs = "[(PSEUDO_METHOD, POST), (PSEUDO_SCHEME, post_scheme config), (PSEUDO_PATH, cf_path config),
    (PSEUDO_AUTHORITY, cf_host config), (HOST, ?v)]"
  have http: "http_spec ?h" using suite_depsD(1)[OF assms(1)] by (simp add: deps_ok_def)
  have "map to_ascii_lowercase HOST = HOST" "list_all is_token_byte HOST" "HOST \<noteq> []"
    by (simp_all add: HOST_def byte_str_def to_ascii_lowercase_def is_token_byte_def)
  with names_specD(2)[OF assms(4), of HOST] have host: "header_name_from_bytes ?h HOST = Some HOST" by simp
  have "\<exists>msg. request_of_block ?h True (collected ?h ?hs) = Err (LevelStream (BadRequest msg))" if ok: "fields_ok ?h IsHeaders ?hs"
  proof -
    have "pseudo_field_ok ?h (PSEUDO_AUTHORITY, cf_host config)" using ok by (auto simp: fields_ok_def pseudo_fields_def)
    then obtain a where a: "authority_from_str ?h (cf_host config) = Some a" by (auto simp: pseudo_field_ok_def)
    show ?thesis
    proof (rule host_mismatch[OF http assms(4), where m = Post])
      show "fb_authority (collected ?h ?hs) = Some a" using a by (simp add: block_simps)
      show "hm_get ?h (fb_headers (collected ?h ?hs)) HOST = Some ?v" using http host by (simp add: block_simps http_spec_def)
      show "length ?v \<noteq> length a" using names_specD(3)[OF assms(4) a] by simp
    qed (simp_all add: block_simps)
  qed
  then show ?thesis unfolding sends_headers_frame_with_mismatched_host_authority_def pseudo_folds
    by (rule passes_malformed[OF assms(1,2), where hs = ?hs, rotated])
      (use post_fields_size[OF assms(3)] assms(3) names_specD(5)[OF assms(4), of config] in
        \<open>auto simp: header_edits config_ok_def post_scheme_def\<close>)
qed

text \<open>A WINDOW_UPDATE without an increment follows a request that has two methods, so that the stream is already gone.\<close>

lemma sends_window_update_frame_with_zero_increment_on_stream_passed:
  assumes "suite_deps d fmt" and "limit \<noteq> Some 0" and "config_ok config" and "http_names_spec (d_http d)"
  shows "passes d fmt limit config (sends_window_update_frame_with_zero_increment_on_stream d)"
proof -
  let ?hs = "post_fields config @ [(PSEUDO_METHOD, byte_str ''POST'')]"
  let ?b = "encode_bytes encoder_new ?hs" and ?f = "frame_new (Headers {HeadersEndHeaders}) 1" and ?u = "frame_new WindowUpdate 1"
  let ?rs = "replicate 15 (rst_frame ProtocolError)"
  let ?w = "with_block (\<lambda>c. hs_append (post_headers c) (byte_str '':method'') (byte_str ''POST'')) (\<lambda>block. cn_write_headers d 1 {HeadersEndHeaders} block)"
  have d: "deps_ok d" using suite_depsD(1)[OF assms(1)] .
  have size: "fields_size ?hs \<le> 16384" using post_fields_size[OF assms(3)] by simp
  have len: "length ?b \<le> 16384" by (rule block_short) (use size in simp_all)
  have e: "emits d config encoder_new ?w [(?f, ?b)] (foldl enc_after encoder_new ?hs)"
  proof (rule emits_block[OF enc_inv_new])
    show "emits d config (foldl enc_after encoder_new ?hs) (cn_write_headers d 1 {HeadersEndHeaders} ?b) [(?f, ?b)] (foldl enc_after encoder_new ?hs)"
      unfolding cn_write_headers_def using len by (intro emits_raw[OF assms(1)] frame_fits_new) (simp_all add: sid_ok_small)
  qed (simp add: hs_append_def headers_of_config pseudo_folds)
  note puts = emits_puts[OF emits_Cons[OF e emits_one[OF emits_window_update[OF assms(1), of 1 0]]]]
  have "\<forall>fp\<in>set [(?f, ?b), (?u, u32_to_be_bytes 0)]. plain d fp"
    using len by (auto intro!: plain_new[OF d] simp: sid_ok_small has_padding_def)
  note df = deframe_plain[OF d this]
  have bad: "malformed (d_http d) False ?hs"
    by (auto simp: malformed_def fields_ok_def pseudo_fields_def post_eq)
  have "calm_run d (settled out) [arrived d ?u (u32_to_be_bytes 0)] (Some ProtocolError) (settled out)" for out
    using window_update_parse_bytes[OF suite_depsD(6)[OF assms(1)], of 0]
    by (auto intro!: run_fails simp: arrived_new[OF d] process_frame_def process_window_update_def conn_error_code_def)
  note gone = this
  have schemes: "schemes_parse (d_http d) ?hs" using names_specD(5)[OF assms(4), of config] by (auto simp: post_eq)
  have rejected: "calm_run d (calm_at limit 65535 (server_hello d limit)) [arrived d ?f ?b] None (settled (server_hello d limit @ wires d ?rs))"
    using size by (intro rejected_run[OF assms(1,2) _ schemes]) (simp_all add: bad)
  have run: "calm_run d (calm_at limit 65535 (server_hello d limit)) (map (\<lambda>(f, p). arrived d f p) [(?f, ?b), (?u, u32_to_be_bytes 0)])
      (Some ProtocolError) (settled (server_hello d limit @ wires d ?rs))"
    using calm_run_append[OF rejected refl gone] by (simp only: append_Cons append_Nil list.map prod.case)
  have "passes d fmt limit config (script (cn_handshake d # [?w, cn_write_window_update d 1 0] @ [cn_verify_stream_error d {EProtocolError}]))"
  proof (rule passes_script[OF assms(1) _ silent_verify(2) df _ run])
    show "puts limit config [?w, cn_write_window_update d 1 0] (wires d [(?f, ?b), (?u, u32_to_be_bytes 0)])"
      using puts[of limit] by (simp add: sid_ok_small)
    show "fst (script [cn_verify_stream_error d {EProtocolError}] c) = Ok ()"
      if "ev_rx c = arrivals d (?rs @ goodbye (final_code (Some ProtocolError) (Ok ())) lsid msg)" for c lsid msg
      using rst_judged[OF assms(1), of ProtocolError _ c "replicate 14 (rst_frame ProtocolError) @ goodbye (Some ProtocolError) lsid msg"] that
      by (simp add: numeral_eq_Suc)
  qed (use rst_fits in \<open>auto simp: ends_well_def\<close>)
  then show ?thesis unfolding sends_window_update_frame_with_zero_increment_on_stream_def by simp
qed

section \<open>The tests that the server passes\<close>

definition malformed_request_tests :: "bytes deps \<Rightarrow> bytes test_step list" where
  "malformed_request_tests d =
     [sends_headers_frame_with_uppercase_field_name d,
      sends_headers_frame_with_space_in_field_name d,
      sends_headers_frame_with_non_visible_ascii d,
      sends_headers_frame_with_del_character d,
      sends_headers_frame_with_non_ascii_character d,
      sends_headers_frame_with_colon_in_field_name d,
      sends_headers_frame_with_lf_in_field_value d,
      sends_headers_frame_with_cr_in_field_value d,
      sends_headers_frame_with_nul_in_field_value d,
      sends_headers_frame_with_leading_space_in_field_value d,
      sends_headers_frame_with_trailing_tab_in_field_value d,
      sends_headers_frame_with_connection_header d,
      sends_headers_frame_with_proxy_connection_header d,
      sends_headers_frame_with_keep_alive_header d,
      sends_headers_frame_with_transfer_encoding_header d,
      sends_headers_frame_with_upgrade_header d,
      sends_headers_frame_with_te_not_trailers d,
      sends_headers_frame_with_response_pseudo_header d,
      sends_headers_frame_with_duplicate_pseudo_headers d,
      sends_headers_frame_without_method d,
      sends_headers_frame_without_scheme d,
      sends_headers_frame_without_path d,
      sends_headers_frame_with_empty_path_component d,
      sends_connect_with_scheme d,
      sends_connect_with_path d,
      sends_connect_without_authority d,
      sends_headers_frame_with_pseudo_headers_after_regular_headers d,
      sends_headers_frame_with_mismatched_host_authority d,
      sends_window_update_frame_with_zero_increment_on_stream d]"

text \<open>C11: the server passes the tests of the suite that send a malformed request: forbidden bytes in the name or the
  value of a field, fields that belong to HTTP/1.1 connections, pseudo-headers that are unknown, missing, repeated or
  out of place, an empty path, a host that is not the authority, CONNECT with a scheme or a path or without an
  authority. However its tasks are scheduled, it decodes the block that the client's encoder has made, rejects it, and
  resets the stream with PROTOCOL_ERROR; the client ends without an error or a failed assertion. The \<open>http\<close> package
  is only assumed to have documented properties of header names, authorities and schemes.\<close>

theorem malformed_requests_reset:
  assumes "suite_deps d fmt" and "config_ok config" and "limit \<noteq> Some 0" and "http_names_spec (d_http d)"
    and "test \<in> set (malformed_request_tests d)"
  shows "passes d fmt limit config test"
proof -
  note passed = sends_headers_frame_with_uppercase_field_name_passed[OF assms(1,3,2,4)]
    sends_headers_frame_with_space_in_field_name_passed[OF assms(1,3,2,4)]
    sends_headers_frame_with_non_visible_ascii_passed[OF assms(1,3,2,4)]
    sends_headers_frame_with_del_character_passed[OF assms(1,3,2,4)]
    sends_headers_frame_with_non_ascii_character_passed[OF assms(1,3,2,4)]
    sends_headers_frame_with_colon_in_field_name_passed[OF assms(1,3,2,4)]
    sends_headers_frame_with_lf_in_field_value_passed[OF assms(1,3,2,4)]
    sends_headers_frame_with_cr_in_field_value_passed[OF assms(1,3,2,4)]
    sends_headers_frame_with_nul_in_field_value_passed[OF assms(1,3,2,4)]
    sends_headers_frame_with_leading_space_in_field_value_passed[OF assms(1,3,2,4)]
    sends_headers_frame_with_trailing_tab_in_field_value_passed[OF assms(1,3,2,4)]
    sends_headers_frame_with_connection_header_passed[OF assms(1,3,2,4)]
    sends_headers_frame_with_proxy_connection_header_passed[OF assms(1,3,2,4)]
    sends_headers_frame_with_keep_alive_header_passed[OF assms(1,3,2,4)]
    sends_headers_frame_with_transfer_encoding_header_passed[OF assms(1,3,2,4)]
    sends_headers_frame_with_upgrade_header_passed[OF assms(1,3,2,4)]
    sends_headers_frame_with_te_not_trailers_passed[OF assms(1,3,2,4)]
    sends_headers_frame_with_response_pseudo_header_passed[OF assms(1,3,2,4)]
    sends_headers_frame_with_duplicate_pseudo_headers_passed[OF assms(1,3,2,4)]
    sends_headers_frame_without_method_passed[OF assms(1,3,2,4)]
    sends_headers_frame_without_scheme_passed[OF assms(1,3,2,4)]
    sends_headers_frame_without_path_passed[OF assms(1,3,2,4)]
    sends_headers_frame_with_empty_path_component_passed[OF assms(1,3,2,4)]
    sends_connect_with_scheme_passed[OF assms(1,3,2,4)]
    sends_connect_with_path_passed[OF assms(1,3,2,4)]
    sends_connect_without_authority_passed[OF assms(1,3,2,4)]
    sends_headers_frame_with_pseudo_headers_after_regular_headers_passed[OF assms(1,3,2,4)]
    sends_headers_frame_with_mismatched_host_authority_passed[OF assms(1,3,2,4)]
    sends_window_update_frame_with_zero_increment_on_stream_passed[OF assms(1,3,2,4)]
  show ?thesis using assms(5) unfolding malformed_request_tests_def list.set by (elim insertE emptyE) (simp_all only: passed)
qed

text \<open>An instance with the rules for header names.\<close>

definition http_names :: http where
  "http_names = http_list\<lparr>header_name_from_bytes := (\<lambda>n. if n \<noteq> [] \<and> list_all is_token_byte n then Some (map to_ascii_lowercase n) else None),
     authority_eq := (\<lambda>a b. map to_ascii_lowercase a = map to_ascii_lowercase b)\<rparr>"

lemma http_names_ok: "http_names_spec http_names"
  by (auto simp: http_names_spec_def http_names_def http_list_def list_ex_iff list_all_iff byte_str_def)

lemma deps_names_ok: "suite_deps (deps_std\<lparr>d_http := http_names\<rparr>) (\<lambda>_. [])"
  using deps_std_suite http_list_spec by (simp add: suite_deps_def deps_ok_def http_spec_def http_names_def deps_std_def)

theorem malformed_requests_reset_witness:
  "passes (deps_std\<lparr>d_http := http_names\<rparr>) (\<lambda>_. []) (Some 32) config_default
     (sends_headers_frame_with_mismatched_host_authority (deps_std\<lparr>d_http := http_names\<rparr>))"
  by (rule malformed_requests_reset[OF deps_names_ok config_default_ok])
    (simp_all add: http_names_ok malformed_request_tests_def)

end
