(* ===== verification/Luring.thy ===== *)
theory Luring
  imports Buffet_Io "HOL-Library.Multiset"
begin

text \<open>
  The asynchronous io_uring of \<open>luring\<close> (\<open>crates/luring/src/linux.rs\<close>). Every operation has a slot in a
  slab, whose index travels through the kernel as the operation's user data; the slot says whether the
  operation was submitted, is waited for by a task, or is completed. A future \<open>Op\<close> that is dropped before its
  completion pushes a cancellation and leaves a task behind that waits for both. The slab, the submission and
  completion queues and the builders of entries are other packages, so they are an argument
  (\<open>ring_libs\<close>); \<open>slab_spec\<close> and \<open>ring_spec\<close> state what the code relies on. \<open>usize\<close> and \<open>u64\<close> have the same
  width on the targets of io_uring, so both are natural numbers and the conversions between them are the
  identity. The loops that depend on the ring are partial functions, which are shown to return. A program
  over the ring is any sequence of the actions of its tasks, interleaved with progress of the kernel; the
  last sections show what holds after every such sequence.
\<close>

section \<open>The slab and the queues\<close>

record cqe =
  cq_user_data :: nat
  cq_result :: "32 word"
  cq_flags :: u32

text \<open>A waker is the task that it wakes.\<close>

datatype lifecycle = Submitted | Waiting nat | Completed cqe

record ('s, 'e, 'u) ring_libs =
  sl_new :: 's
  sl_insert :: "'s \<Rightarrow> lifecycle \<Rightarrow> nat \<times> 's"
  sl_get :: "'s \<Rightarrow> nat \<Rightarrow> lifecycle option"
  sl_set :: "'s \<Rightarrow> nat \<Rightarrow> lifecycle \<Rightarrow> 's"
  sl_remove :: "'s \<Rightarrow> nat \<Rightarrow> (lifecycle \<times> 's) option"
  sqe_user_data :: "'e \<Rightarrow> nat \<Rightarrow> 'e"
  async_cancel :: "nat \<Rightarrow> 'e"
  rg_push :: "'u \<Rightarrow> 'e \<Rightarrow> bool \<times> 'u"
  rg_submit :: "'u \<Rightarrow> (nat, io_error) result \<times> 'u"
  rg_next :: "'u \<Rightarrow> cqe option \<times> 'u"

text \<open>A slab gives out a vacant key, and keeps what is stored under a key until it is removed; indexing and
  removing a vacant key panic, which is \<open>None\<close> here.\<close>

definition slab_spec :: "('s, 'e, 'u) ring_libs \<Rightarrow> bool" where
  "slab_spec lb \<longleftrightarrow>
     (\<forall>k. sl_get lb (sl_new lb) k = None) \<and>
     (\<forall>s v k s'. sl_insert lb s v = (k, s') \<longrightarrow> sl_get lb s k = None \<and> sl_get lb s' = (sl_get lb s)(k \<mapsto> v)) \<and>
     (\<forall>s k v. sl_get lb s k \<noteq> None \<longrightarrow> sl_get lb (sl_set lb s k v) = (sl_get lb s)(k \<mapsto> v)) \<and>
     (\<forall>s k v. sl_get lb s k = Some v \<longrightarrow>
        (\<exists>s'. sl_remove lb s k = Some (v, s') \<and> sl_get lb s' = (sl_get lb s)(k := None)))"

text \<open>What can be said of a ring: the user data of the entries that it accepted and the kernel did not complete
  yet, the completions that were not fetched yet, and how many entries are still to be handed to the kernel.\<close>

record 'u ring_view =
  in_flight :: "'u \<Rightarrow> nat multiset"
  arrived :: "'u \<Rightarrow> cqe list"
  backlog :: "'u \<Rightarrow> nat"

text \<open>Progress of the kernel: it completes some of the operations, each once and with its own user data.\<close>

definition ring_progress :: "'u ring_view \<Rightarrow> 'u \<Rightarrow> 'u \<Rightarrow> bool" where
  "ring_progress v u u' \<longleftrightarrow>
     (\<exists>cs. arrived v u' = arrived v u @ cs \<and> in_flight v u = in_flight v u' + mset (map cq_user_data cs))"

definition ring_spec :: "('s, 'e, 'u) ring_libs \<Rightarrow> 'u ring_view \<Rightarrow> bool" where
  "ring_spec lb v \<longleftrightarrow>
     (\<forall>u e i u'. rg_push lb u (sqe_user_data lb e i) = (True, u') \<longrightarrow>
        in_flight v u' = add_mset i (in_flight v u) \<and> arrived v u' = arrived v u) \<and>
     (\<forall>u e u'. rg_push lb u e = (False, u') \<longrightarrow> ring_progress v u u' \<and> 0 < backlog v u' \<and> backlog v u' \<le> backlog v u) \<and>
     (\<forall>u r u'. rg_submit lb u = (r, u') \<longrightarrow> ring_progress v u u' \<and> (0 < backlog v u \<longrightarrow> backlog v u' < backlog v u)) \<and>
     (\<forall>u. case arrived v u of
        [] \<Rightarrow> (\<exists>u'. rg_next lb u = (None, u') \<and> arrived v u' = [] \<and> in_flight v u' = in_flight v u)
      | c # cs \<Rightarrow> (\<exists>u'. rg_next lb u = (Some c, u') \<and> arrived v u' = cs \<and> in_flight v u' = in_flight v u))"

text \<open>The kernel never refuses to take the entries that were queued.\<close>

definition submits_ok :: "('s, 'e, 'u) ring_libs \<Rightarrow> bool" where
  "submits_ok lb \<longleftrightarrow> (\<forall>u. \<exists>n u'. rg_submit lb u = (Ok n, u'))"

section \<open>Operations\<close>

record ('s, 'u) io_uring_async =
  ur_uring :: 'u
  ur_slab :: 's

text \<open>\<open>Op\<close>; its inner future is the index of the slot.\<close>

record uring_op =
  op_inner :: "nat option"

datatype 'a poll = Pending | Ready 'a

definition generic_new :: "('s, 'e, 'u) ring_libs \<Rightarrow> 'u \<Rightarrow> ('s, 'u) io_uring_async" where
  "generic_new lb u = \<lparr>ur_uring = u, ur_slab = sl_new lb\<rparr>"

partial_function (option) push_loop ::
    "('s, 'e, 'u) ring_libs \<Rightarrow> 'e \<Rightarrow> 'u \<Rightarrow> ((unit, io_error) result \<times> 'u) option" where
  "push_loop lb entry u =
     (case rg_push lb u entry of
        (pushed, u) \<Rightarrow>
          if pushed then Some (Ok (), u)
          else
            (case rg_submit lb u of
               (Ok _, u) \<Rightarrow> push_loop lb entry u
             | (_, u) \<Rightarrow> Some (Panic, u)))"

definition uring_push ::
    "('s, 'e, 'u) ring_libs \<Rightarrow> 'e \<Rightarrow> ('s, 'u) io_uring_async \<Rightarrow>
     ((uring_op, io_error) result \<times> ('s, 'u) io_uring_async) option" where
  "uring_push lb entry r =
     (case sl_insert lb (ur_slab r) Submitted of
        (index, s) \<Rightarrow>
          (case push_loop lb (sqe_user_data lb entry index) (ur_uring r) of
             None \<Rightarrow> None
           | Some (res, u) \<Rightarrow>
               Some (and_then res (\<lambda>_. Ok \<lparr>op_inner = Some index\<rparr>), \<lparr>ur_uring = u, ur_slab = s\<rparr>)))"

text \<open>The inner future: \<open>guard[self.index]\<close> panics on a vacant slot.\<close>

definition op_inner_poll ::
    "('s, 'e, 'u) ring_libs \<Rightarrow> nat \<Rightarrow> nat \<Rightarrow> ('s, 'u) io_uring_async \<Rightarrow>
     (cqe poll, io_error) result \<times> ('s, 'u) io_uring_async" where
  "op_inner_poll lb waker index r =
     (case sl_get lb (ur_slab r) index of
        None \<Rightarrow> (Panic, r)
      | Some Submitted \<Rightarrow> (Ok Pending, r\<lparr>ur_slab := sl_set lb (ur_slab r) index (Waiting waker)\<rparr>)
      | Some (Waiting _) \<Rightarrow> (Ok Pending, r\<lparr>ur_slab := sl_set lb (ur_slab r) index (Waiting waker)\<rparr>)
      | Some (Completed c) \<Rightarrow> (Ok (Ready c), r))"

definition op_poll ::
    "('s, 'e, 'u) ring_libs \<Rightarrow> nat \<Rightarrow> uring_op \<Rightarrow> ('s, 'u) io_uring_async \<Rightarrow>
     (cqe poll, io_error) result \<times> ('s, 'u) io_uring_async" where
  "op_poll lb waker op r =
     (case op_inner op of None \<Rightarrow> (Panic, r) | Some index \<Rightarrow> op_inner_poll lb waker index r)"

text \<open>Dropping the inner future frees the slot; \<open>panicking\<close> is \<open>std::thread::panicking()\<close>.\<close>

definition op_inner_drop ::
    "('s, 'e, 'u) ring_libs \<Rightarrow> bool \<Rightarrow> nat \<Rightarrow> ('s, 'u) io_uring_async \<Rightarrow>
     (unit, io_error) result \<times> ('s, 'u) io_uring_async" where
  "op_inner_drop lb panicking index r =
     (case sl_remove lb (ur_slab r) index of
        None \<Rightarrow> (Panic, r)
      | Some (Completed _, s) \<Rightarrow> (Ok (), r\<lparr>ur_slab := s\<rparr>)
      | Some (_, s) \<Rightarrow> (if panicking then Ok () else Panic, r\<lparr>ur_slab := s\<rparr>))"

text \<open>The task that a dropped operation leaves behind: it waits for the cancellation, then for the operation;
  each inner future is dropped when it has been awaited.\<close>

datatype cleanup = AwaitCancel nat nat | AwaitInner nat

definition op_drop ::
    "('s, 'e, 'u) ring_libs \<Rightarrow> bool \<Rightarrow> uring_op \<Rightarrow> ('s, 'u) io_uring_async \<Rightarrow>
     ((cleanup option, io_error) result \<times> ('s, 'u) io_uring_async) option" where
  "op_drop lb panicking op r =
     (case op_inner op of
        None \<Rightarrow> Some (Panic, r)
      | Some index \<Rightarrow>
          (case sl_get lb (ur_slab r) index of
             None \<Rightarrow> Some (Panic, r)
           | Some (Completed _) \<Rightarrow> Some (bind_st (op_inner_drop lb panicking index r) (\<lambda>_ r. (Ok None, r)))
           | Some _ \<Rightarrow>
               (case uring_push lb (async_cancel lb index) r of
                  None \<Rightarrow> None
                | Some (res, r) \<Rightarrow>
                    Some (and_then res (\<lambda>cancel_op.
                      case op_inner cancel_op of
                        None \<Rightarrow> Panic
                      | Some cancel_index \<Rightarrow> Ok (Some (AwaitCancel cancel_index index))), r))))"

definition await_inner ::
    "('s, 'e, 'u) ring_libs \<Rightarrow> nat \<Rightarrow> nat \<Rightarrow> ('s, 'u) io_uring_async \<Rightarrow>
     (cleanup option, io_error) result \<times> ('s, 'u) io_uring_async" where
  "await_inner lb waker index r =
     bind_st (op_inner_poll lb waker index r) (\<lambda>p r.
       case p of
         Pending \<Rightarrow> (Ok (Some (AwaitInner index)), r)
       | Ready _ \<Rightarrow> bind_st (op_inner_drop lb False index r) (\<lambda>_ r. (Ok None, r)))"

fun cleanup_poll ::
    "('s, 'e, 'u) ring_libs \<Rightarrow> nat \<Rightarrow> cleanup \<Rightarrow> ('s, 'u) io_uring_async \<Rightarrow>
     (cleanup option, io_error) result \<times> ('s, 'u) io_uring_async" where
  "cleanup_poll lb waker (AwaitCancel cancel_index index) r =
     bind_st (op_inner_poll lb waker cancel_index r) (\<lambda>p r.
       case p of
         Pending \<Rightarrow> (Ok (Some (AwaitCancel cancel_index index)), r)
       | Ready _ \<Rightarrow>
           bind_st (op_inner_drop lb False cancel_index r) (\<lambda>_ r. await_inner lb waker index r))"
| "cleanup_poll lb waker (AwaitInner index) r = await_inner lb waker index r"

text \<open>\<open>handle_cqe\<close>, with the wakers that it wakes.\<close>

partial_function (option) handle_cqe_loop ::
    "('s, 'e, 'u) ring_libs \<Rightarrow> nat list \<Rightarrow> 's \<Rightarrow> 'u \<Rightarrow> ((unit, io_error) result \<times> nat list \<times> 's \<times> 'u) option" where
  "handle_cqe_loop lb woken s u =
     (case rg_next lb u of
        (None, u) \<Rightarrow> Some (Ok (), woken, s, u)
      | (Some c, u) \<Rightarrow>
          (case sl_get lb s (cq_user_data c) of
             None \<Rightarrow> Some (Panic, woken, s, u)
           | Some Submitted \<Rightarrow> handle_cqe_loop lb woken (sl_set lb s (cq_user_data c) (Completed c)) u
           | Some (Waiting waker) \<Rightarrow>
               handle_cqe_loop lb (woken @ [waker]) (sl_set lb s (cq_user_data c) (Completed c)) u
           | Some (Completed _) \<Rightarrow> handle_cqe_loop lb woken s u))"

definition handle_cqe ::
    "('s, 'e, 'u) ring_libs \<Rightarrow> ('s, 'u) io_uring_async \<Rightarrow>
     ((nat list, io_error) result \<times> ('s, 'u) io_uring_async) option" where
  "handle_cqe lb r =
     (case handle_cqe_loop lb [] (ur_slab r) (ur_uring r) of
        None \<Rightarrow> None
      | Some (res, woken, s, u) \<Rightarrow> Some (and_then res (\<lambda>_. Ok woken), \<lparr>ur_uring = u, ur_slab = s\<rparr>))"

definition uring_submit ::
    "('s, 'e, 'u) ring_libs \<Rightarrow> ('s, 'u) io_uring_async \<Rightarrow>
     (nat, io_error) result \<times> ('s, 'u) io_uring_async" where
  "uring_submit lb r = (case rg_submit lb (ur_uring r) of (res, u) \<Rightarrow> (res, r\<lparr>ur_uring := u\<rparr>))"

section \<open>Programs over a ring\<close>

text \<open>The tasks of a program hold operations, and the runtime holds the tasks that dropped operations left. What
  may happen: a task pushes, polls or drops an operation, the runtime polls a task that was left, the listening
  task finds the ring readable, and the thread parks, which submits what is queued. An action on a future that
  does not exist does nothing.\<close>

record ('s, 'u) ring_world =
  rw_ring :: "('s, 'u) io_uring_async"
  rw_ops :: "uring_op list"
  rw_tasks :: "cleanup list"
  rw_woken :: "nat list"

datatype 'e ring_action = PushOp 'e | PollOp nat nat | DropOp nat | PollTask nat nat | Listen | Park

definition remove_nth :: "nat \<Rightarrow> 'a list \<Rightarrow> 'a list" where
  "remove_nth n xs = take n xs @ drop (Suc n) xs"

fun after ::
    "('a, io_error) result \<times> ('s, 'u) io_uring_async \<Rightarrow> ('s, 'u) ring_world \<Rightarrow>
     ('a \<Rightarrow> ('s, 'u) ring_world \<Rightarrow> ('s, 'u) ring_world) \<Rightarrow> (unit, io_error) result \<times> ('s, 'u) ring_world" where
  "after (Ok x, r) w f = (Ok (), f x (w\<lparr>rw_ring := r\<rparr>))"
| "after (Err e, r) w f = (Err e, w\<lparr>rw_ring := r\<rparr>)"
| "after (Panic, r) w f = (Panic, w\<lparr>rw_ring := r\<rparr>)"

fun perform ::
    "('s, 'e, 'u) ring_libs \<Rightarrow> 'e ring_action \<Rightarrow> ('s, 'u) ring_world \<Rightarrow>
     ((unit, io_error) result \<times> ('s, 'u) ring_world) option" where
  "perform lb (PushOp e) w =
     map_option (\<lambda>p. after p w (\<lambda>op w. w\<lparr>rw_ops := rw_ops w @ [op]\<rparr>)) (uring_push lb e (rw_ring w))"
| "perform lb (PollOp n waker) w =
     (if n < length (rw_ops w) then Some (after (op_poll lb waker (rw_ops w ! n) (rw_ring w)) w (\<lambda>_ w. w))
      else Some (Ok (), w))"
| "perform lb (DropOp n) w =
     (if n < length (rw_ops w) then
        map_option
          (\<lambda>p. after p w (\<lambda>task w. w\<lparr>rw_ops := remove_nth n (rw_ops w),
             rw_tasks := rw_tasks w @ (case task of None \<Rightarrow> [] | Some t \<Rightarrow> [t])\<rparr>))
          (op_drop lb False (rw_ops w ! n) (rw_ring w))
      else Some (Ok (), w))"
| "perform lb (PollTask n waker) w =
     (if n < length (rw_tasks w) then
        Some (after (cleanup_poll lb waker (rw_tasks w ! n) (rw_ring w)) w (\<lambda>task w.
          w\<lparr>rw_tasks := (case task of None \<Rightarrow> remove_nth n (rw_tasks w) | Some t \<Rightarrow> (rw_tasks w)[n := t])\<rparr>))
      else Some (Ok (), w))"
| "perform lb Listen w =
     map_option (\<lambda>p. after p w (\<lambda>woken w. w\<lparr>rw_woken := rw_woken w @ woken\<rparr>)) (handle_cqe lb (rw_ring w))"
| "perform lb Park w = Some (after (uring_submit lb (rw_ring w)) w (\<lambda>_ w. w))"

inductive ring_reachable :: "('s, 'e, 'u) ring_libs \<Rightarrow> 'u ring_view \<Rightarrow> ('s, 'u) ring_world \<Rightarrow> bool"
  for lb :: "('s, 'e, 'u) ring_libs" and v :: "'u ring_view" where
  rr_init: "in_flight v u = {#} \<Longrightarrow> arrived v u = [] \<Longrightarrow>
    ring_reachable lb v \<lparr>rw_ring = generic_new lb u, rw_ops = [], rw_tasks = [], rw_woken = []\<rparr>"
| rr_act: "ring_reachable lb v w \<Longrightarrow> perform lb a w = Some (Ok (), w') \<Longrightarrow> ring_reachable lb v w'"
| rr_kernel: "ring_reachable lb v w \<Longrightarrow> ring_progress v (ur_uring (rw_ring w)) u \<Longrightarrow>
    ring_reachable lb v (w\<lparr>rw_ring := (rw_ring w)\<lparr>ur_uring := u\<rparr>\<rparr>)"

section \<open>The invariant of the ring\<close>

text \<open>The entries that were accepted and whose completion was not fetched.\<close>

definition unfetched :: "'u ring_view \<Rightarrow> 'u \<Rightarrow> nat multiset" where
  "unfetched v u = in_flight v u + mset (map cq_user_data (arrived v u))"

definition open_slot :: "('s, 'e, 'u) ring_libs \<Rightarrow> 's \<Rightarrow> nat \<Rightarrow> bool" where
  "open_slot lb s i \<longleftrightarrow> (\<exists>l. sl_get lb s i = Some l \<and> (\<forall>c. l \<noteq> Completed c))"

text \<open>A slot is occupied exactly when one handle owns it; one completion is to come exactly for the slots that
  are not completed, and a completed slot holds the completion of its own operation.\<close>

definition ring_inv :: "('s, 'e, 'u) ring_libs \<Rightarrow> 'u ring_view \<Rightarrow> ('s, 'u) io_uring_async \<Rightarrow> nat multiset \<Rightarrow> bool" where
  "ring_inv lb v r owned \<longleftrightarrow>
     (\<forall>i. count owned i = of_bool (sl_get lb (ur_slab r) i \<noteq> None)) \<and>
     (\<forall>i. count (unfetched v (ur_uring r)) i = of_bool (open_slot lb (ur_slab r) i)) \<and>
     (\<forall>i c. sl_get lb (ur_slab r) i = Some (Completed c) \<longrightarrow> cq_user_data c = i)"

definition ring_ok :: "('s, 'e, 'u) ring_libs \<Rightarrow> 'u ring_view \<Rightarrow> bool" where
  "ring_ok lb v \<longleftrightarrow> slab_spec lb \<and> ring_spec lb v \<and> submits_ok lb"

lemma slab_laws:
  assumes "ring_ok lb v"
  shows "sl_get lb (sl_new lb) k = None"
    and "sl_insert lb s x = (k, s') \<Longrightarrow> sl_get lb s k = None"
    and "sl_insert lb s x = (k, s') \<Longrightarrow> sl_get lb s' = (sl_get lb s)(k \<mapsto> x)"
    and "sl_get lb s k = Some y \<Longrightarrow> sl_get lb (sl_set lb s k x) = (sl_get lb s)(k \<mapsto> x)"
    and "sl_get lb s k = Some x \<Longrightarrow>
      \<exists>s'. sl_remove lb s k = Some (x, s') \<and> sl_get lb s' = (sl_get lb s)(k := None)"
  using assms unfolding ring_ok_def slab_spec_def by auto

lemma ring_next_laws:
  assumes "ring_ok lb v"
  shows "arrived v u = [] \<Longrightarrow> \<exists>u'. rg_next lb u = (None, u') \<and> arrived v u' = [] \<and> in_flight v u' = in_flight v u"
    and "arrived v u = c # cs \<Longrightarrow> \<exists>u'. rg_next lb u = (Some c, u') \<and> arrived v u' = cs \<and> in_flight v u' = in_flight v u"
proof -
  have "case arrived v u of
      [] \<Rightarrow> (\<exists>u'. rg_next lb u = (None, u') \<and> arrived v u' = [] \<and> in_flight v u' = in_flight v u)
    | c # cs \<Rightarrow> (\<exists>u'. rg_next lb u = (Some c, u') \<and> arrived v u' = cs \<and> in_flight v u' = in_flight v u)"
    using assms unfolding ring_ok_def ring_spec_def by blast
  then show "arrived v u = [] \<Longrightarrow> \<exists>u'. rg_next lb u = (None, u') \<and> arrived v u' = [] \<and> in_flight v u' = in_flight v u"
    and "arrived v u = c # cs \<Longrightarrow> \<exists>u'. rg_next lb u = (Some c, u') \<and> arrived v u' = cs \<and> in_flight v u' = in_flight v u"
    by simp_all
qed

lemma progress_unfetched: "ring_progress v u u' \<Longrightarrow> unfetched v u' = unfetched v u"
  by (auto simp: ring_progress_def unfetched_def)

lemma push_loop_returns:
  assumes "ring_ok lb v"
  shows "\<exists>u'. push_loop lb (sqe_user_data lb e i) u = Some (Ok (), u') \<and>
    unfetched v u' = add_mset i (unfetched v u)"
proof (induction "backlog v u" arbitrary: u rule: less_induct)
  case less
  let ?e = "sqe_user_data lb e i"
  have spec: "ring_spec lb v" "submits_ok lb" using assms by (simp_all add: ring_ok_def)
  obtain b u1 where p: "rg_push lb u ?e = (b, u1)" by (cases "rg_push lb u ?e")
  show ?case
  proof (cases b)
    case True
    with p spec(1) have "in_flight v u1 = add_mset i (in_flight v u) \<and> arrived v u1 = arrived v u"
      unfolding ring_spec_def by auto
    with p True show ?thesis by (subst push_loop.simps) (simp add: unfetched_def)
  next
    case False
    with p spec(1) have u1: "ring_progress v u u1" "0 < backlog v u1" "backlog v u1 \<le> backlog v u"
      unfolding ring_spec_def by auto
    obtain n u2 where sub: "rg_submit lb u1 = (Ok n, u2)" using spec(2) unfolding submits_ok_def by blast
    with u1 spec(1) have u2: "ring_progress v u1 u2" "backlog v u2 < backlog v u1" unfolding ring_spec_def by auto
    with u1 less obtain u3 where "push_loop lb ?e u2 = Some (Ok (), u3)" "unfetched v u3 = add_mset i (unfetched v u2)"
      by (meson order_less_le_trans)
    with p False sub u1 u2 show ?thesis by (subst push_loop.simps) (simp add: progress_unfetched)
  qed
qed

lemma ring_inv_slot:
  assumes "ring_inv lb v r owned" and "i \<in># owned"
  obtains l where "sl_get lb (ur_slab r) i = Some l"
proof -
  have "count owned i = of_bool (sl_get lb (ur_slab r) i \<noteq> None)" using assms(1) by (simp add: ring_inv_def)
  with assms(2) have "sl_get lb (ur_slab r) i \<noteq> None" 
    by (metis count_eq_zero_iff of_bool_eq(1))
  with that show thesis by blast
qed

lemma uring_push_inv:
  assumes "ring_ok lb v" and "ring_inv lb v r owned"
  shows "\<exists>i r'. uring_push lb e r = Some (Ok \<lparr>op_inner = Some i\<rparr>, r') \<and> ring_inv lb v r' (add_mset i owned) \<and>
    sl_get lb (ur_slab r) i = None \<and> sl_get lb (ur_slab r') = (sl_get lb (ur_slab r))(i \<mapsto> Submitted)"
proof -
  obtain i s where ins: "sl_insert lb (ur_slab r) Submitted = (i, s)" by (cases "sl_insert lb (ur_slab r) Submitted")
  note slot = slab_laws(2,3)[OF assms(1) ins]
  obtain u where u: "push_loop lb (sqe_user_data lb e i) (ur_uring r) = Some (Ok (), u)"
    "unfetched v u = add_mset i (unfetched v (ur_uring r))"
    using push_loop_returns[OF assms(1)] by blast
  have "ring_inv lb v \<lparr>ur_uring = u, ur_slab = s\<rparr> (add_mset i owned)"
    using assms(2) slot u(2) by (auto simp: ring_inv_def open_slot_def)
  with ins u slot show ?thesis by (simp add: uring_push_def)
qed

lemma op_inner_poll_inv:
  assumes "ring_ok lb v" and "ring_inv lb v r owned" and "i \<in># owned"
  shows "\<exists>p r'. op_inner_poll lb k i r = (Ok p, r') \<and> ring_inv lb v r' owned \<and>
    (\<forall>c. p = Ready c \<longrightarrow> r' = r \<and> sl_get lb (ur_slab r) i = Some (Completed c))"
proof -
  obtain l where l: "sl_get lb (ur_slab r) i = Some l" using assms(2,3) by (rule ring_inv_slot)
  show ?thesis
  proof (cases "\<exists>c. l = Completed c")
    case True
    with l assms(2) show ?thesis by (auto simp: op_inner_poll_def)
  next
    case False
    let ?r = "r\<lparr>ur_slab := sl_set lb (ur_slab r) i (Waiting k)\<rparr>"
    have "sl_get lb (ur_slab ?r) = (sl_get lb (ur_slab r))(i \<mapsto> Waiting k)" using slab_laws(4)[OF assms(1) l] by simp
    with assms(2) l False have "ring_inv lb v ?r owned" by (auto simp: ring_inv_def open_slot_def)
    with l False show ?thesis by (cases l) (auto simp: op_inner_poll_def)
  qed
qed

lemma op_inner_drop_inv:
  assumes "ring_ok lb v" and "ring_inv lb v r owned" and "sl_get lb (ur_slab r) i = Some (Completed c)"
  shows "\<exists>r'. op_inner_drop lb b i r = (Ok (), r') \<and> ring_inv lb v r' (owned - {#i#})"
proof -
  obtain s where s: "sl_remove lb (ur_slab r) i = Some (Completed c, s)" "sl_get lb s = (sl_get lb (ur_slab r))(i := None)"
    using slab_laws(5)[OF assms(1,3)] by blast
  with assms(2,3) have "ring_inv lb v (r\<lparr>ur_slab := s\<rparr>) (owned - {#i#})" by (auto simp: ring_inv_def open_slot_def)
  with s show ?thesis by (simp add: op_inner_drop_def)
qed

text \<open>The slots of a task that a dropped operation left.\<close>

fun task_slots :: "cleanup \<Rightarrow> nat multiset" where
  "task_slots (AwaitCancel c i) = {#c, i#}"
| "task_slots (AwaitInner i) = {#i#}"

definition left_slots :: "cleanup option \<Rightarrow> nat multiset" where
  "left_slots t = (case t of None \<Rightarrow> {#} | Some t \<Rightarrow> task_slots t)"

lemma op_drop_inv:
  assumes "ring_ok lb v" and "ring_inv lb v r (add_mset i owned)"
  shows "\<exists>t r'. op_drop lb b \<lparr>op_inner = Some i\<rparr> r = Some (Ok t, r') \<and> ring_inv lb v r' (left_slots t + owned)"
proof -
  obtain l where l: "sl_get lb (ur_slab r) i = Some l" by (rule ring_inv_slot[OF assms(2), of i]) simp
  show ?thesis
  proof (cases "\<exists>c. l = Completed c")
    case True
    then obtain c where "l = Completed c" by blast
    with l op_inner_drop_inv[OF assms, of i c b] show ?thesis by (auto simp: op_drop_def left_slots_def)
  next
    case False
    obtain k r' where "uring_push lb (async_cancel lb i) r = Some (Ok \<lparr>op_inner = Some k\<rparr>, r')"
      "ring_inv lb v r' (add_mset k (add_mset i owned))"
      using uring_push_inv[OF assms] by blast
    with l False show ?thesis by (cases l) (auto simp: op_drop_def left_slots_def)
  qed
qed

lemma await_inner_inv:
  assumes "ring_ok lb v" and "ring_inv lb v r (add_mset i owned)"
  shows "\<exists>t r'. await_inner lb k i r = (Ok t, r') \<and> ring_inv lb v r' (left_slots t + owned)"
proof -
  obtain p r1 where p: "op_inner_poll lb k i r = (Ok p, r1)" "ring_inv lb v r1 (add_mset i owned)"
    "\<forall>c. p = Ready c \<longrightarrow> r1 = r \<and> sl_get lb (ur_slab r) i = Some (Completed c)"
    using op_inner_poll_inv[OF assms, of i k] by auto
  show ?thesis
  proof (cases p)
    case Pending
    with p show ?thesis by (simp add: await_inner_def left_slots_def)
  next
    case (Ready c)
    with p have "sl_get lb (ur_slab r1) i = Some (Completed c)" by simp
    from op_inner_drop_inv[OF assms(1) p(2) this, of False] p(1) Ready show ?thesis
      by (auto simp: await_inner_def left_slots_def)
  qed
qed

lemma cleanup_poll_inv:
  assumes "ring_ok lb v" and "ring_inv lb v r (task_slots t + owned)"
  shows "\<exists>t' r'. cleanup_poll lb k t r = (Ok t', r') \<and> ring_inv lb v r' (left_slots t' + owned)"
proof (cases t)
  case (AwaitInner i)
  with await_inner_inv[OF assms(1), of r i owned k] assms(2) show ?thesis by simp
next
  case (AwaitCancel j i)
  with assms(2) have inv: "ring_inv lb v r (add_mset j (add_mset i owned))" by simp
  obtain p r1 where p: "op_inner_poll lb k j r = (Ok p, r1)" "ring_inv lb v r1 (add_mset j (add_mset i owned))"
    "\<forall>c. p = Ready c \<longrightarrow> r1 = r \<and> sl_get lb (ur_slab r) j = Some (Completed c)"
    using op_inner_poll_inv[OF assms(1) inv, of j k] by auto
  show ?thesis
  proof (cases p)
    case Pending
    with p AwaitCancel show ?thesis by (simp add: left_slots_def)
  next
    case (Ready c)
    with p have "sl_get lb (ur_slab r1) j = Some (Completed c)" by simp
    then obtain r2 where r2: "op_inner_drop lb False j r1 = (Ok (), r2)" "ring_inv lb v r2 (add_mset i owned)"
      using op_inner_drop_inv[OF assms(1) p(2), of j c False] by auto
    from await_inner_inv[OF assms(1) r2(2), of k] p(1) r2(1) Ready AwaitCancel show ?thesis by auto
  qed
qed

text \<open>The wakers of the slots that a list of completions fills.\<close>

definition woken_by :: "('s, 'e, 'u) ring_libs \<Rightarrow> 's \<Rightarrow> cqe list \<Rightarrow> nat list" where
  "woken_by lb s cs = concat (map (\<lambda>c. case sl_get lb s (cq_user_data c) of Some (Waiting k) \<Rightarrow> [k] | _ \<Rightarrow> []) cs)"

abbreviation filled_slots :: "cqe list \<Rightarrow> nat \<rightharpoonup> lifecycle" where
  "filled_slots cs \<equiv> map_of (map (\<lambda>c. (cq_user_data c, Completed c)) cs)"

lemma filled_slots_None: "filled_slots cs i = None \<longleftrightarrow> i \<notin> cq_user_data ` set cs"
  by (induction cs) auto

lemma filled_slots_Some: "filled_slots cs i = Some l \<Longrightarrow> \<exists>c\<in>set cs. l = Completed c \<and> cq_user_data c = i"
  by (induction cs) (auto split: if_splits)

lemma handle_cqe_loop_returns:
  assumes "ring_ok lb v"
  shows "arrived v u = cs \<Longrightarrow> distinct (map cq_user_data cs) \<Longrightarrow> \<forall>c\<in>set cs. open_slot lb s (cq_user_data c) \<Longrightarrow>
    \<exists>s' u'. handle_cqe_loop lb wk s u = Some (Ok (), wk @ woken_by lb s cs, s', u') \<and>
      arrived v u' = [] \<and> in_flight v u' = in_flight v u \<and> sl_get lb s' = sl_get lb s ++ filled_slots cs"
proof (induction cs arbitrary: wk s u)
  case Nil
  from ring_next_laws(1)[OF assms Nil(1)] show ?case
    by (subst handle_cqe_loop.simps) (auto simp: woken_by_def)
next
  case (Cons c cs)
  obtain u1 where u1: "rg_next lb u = (Some c, u1)" "arrived v u1 = cs" "in_flight v u1 = in_flight v u"
    using ring_next_laws(2)[OF assms Cons.prems(1)] by blast
  obtain l where l: "sl_get lb s (cq_user_data c) = Some l" "\<forall>c. l \<noteq> Completed c"
    using Cons.prems(3) by (auto simp: open_slot_def)
  let ?s = "sl_set lb s (cq_user_data c) (Completed c)"
  note get = slab_laws(4)[OF assms l(1), of "Completed c"]
  have other: "sl_get lb ?s (cq_user_data d) = sl_get lb s (cq_user_data d)" if "d \<in> set cs" for d
  proof -
    have "cq_user_data d \<noteq> cq_user_data c" using that Cons.prems(2) by (metis distinct.simps(2) in_set_conv_nth length_map list.simps(9) nth_map nth_mem)
    then show ?thesis by (simp add: get)
  qed
  have "\<forall>d\<in>set cs. open_slot lb ?s (cq_user_data d)" using Cons.prems(3) other by (auto simp: open_slot_def)
  moreover have "distinct (map cq_user_data cs)" using Cons.prems(2) by simp
  ultimately have IH: "\<exists>s' u'. handle_cqe_loop lb wk ?s u1 = Some (Ok (), wk @ woken_by lb ?s cs, s', u') \<and>
      arrived v u' = [] \<and> in_flight v u' = in_flight v u1 \<and> sl_get lb s' = sl_get lb ?s ++ filled_slots cs" for wk
    using Cons.IH[OF u1(2)] by blast
  have woken: "woken_by lb ?s cs = woken_by lb s cs"
    unfolding woken_by_def by (rule arg_cong[where f = concat], rule map_cong) (simp_all add: other)
  have get': "sl_get lb ?s ++ filled_slots cs = sl_get lb s ++ filled_slots (c # cs)"
  proof -
    have "cq_user_data c \<notin> dom (filled_slots cs)" using Cons.prems(2) by (simp add: domIff filled_slots_None)
    then show ?thesis by (simp add: get map_add_upd_left)
  qed
  have loop: "\<exists>s' u'. handle_cqe_loop lb wk ?s u1 = Some (Ok (), wk @ woken_by lb s cs, s', u') \<and>
      arrived v u' = [] \<and> in_flight v u' = in_flight v u \<and> sl_get lb s' = sl_get lb s ++ filled_slots (c # cs)" for wk
    by (rule IH[unfolded woken get' u1(3)])
  show ?case
  proof (cases l)
    case Submitted
    with l u1(1) loop[of wk] show ?thesis by (subst handle_cqe_loop.simps) (simp add: woken_by_def)
  next
    case (Waiting k)
    with l u1(1) loop[of "wk @ [k]"] show ?thesis by (subst handle_cqe_loop.simps) (simp add: woken_by_def)
  qed (use l in simp)
qed

lemma distinct_of_counts: "(\<And>i. count (mset xs) i \<le> 1) \<Longrightarrow> distinct xs"
proof (induction xs)
  case (Cons x xs)
  have "count (mset xs) i \<le> count (mset (x # xs)) i" for i by simp
  then have "count (mset xs) i \<le> 1" for i using Cons.prems[of i] by (rule le_trans)
  moreover have "count (mset xs) x = 0" using Cons.prems[of x] by simp
  ultimately show ?case using Cons.IH by (simp add: count_eq_zero_iff)
qed simp

lemma ring_inv_arrived:
  assumes "ring_inv lb v r owned"
  shows "distinct (map cq_user_data (arrived v (ur_uring r)))"
    and "c \<in> set (arrived v (ur_uring r)) \<Longrightarrow> open_slot lb (ur_slab r) (cq_user_data c)"
    and "c \<in> set (arrived v (ur_uring r)) \<Longrightarrow> cq_user_data c \<notin># in_flight v (ur_uring r)"
proof -
  let ?cs = "map cq_user_data (arrived v (ur_uring r))"
  have sum: "count (in_flight v (ur_uring r)) i + count (mset ?cs) i = of_bool (open_slot lb (ur_slab r) i)" for i
    using assms unfolding ring_inv_def unfetched_def by (metis count_union)
  have le: "count (mset ?cs) i \<le> 1" for i using sum[of i] by (cases "open_slot lb (ur_slab r) i") auto
  then show "distinct ?cs" by (rule distinct_of_counts)
  fix c
  assume "c \<in> set (arrived v (ur_uring r))"
  then have "cq_user_data c \<in># mset ?cs" by simp
  then have pos: "0 < count (mset ?cs) (cq_user_data c)" by (simp only: count_greater_zero_iff)
  with sum[of "cq_user_data c"] show "open_slot lb (ur_slab r) (cq_user_data c)"
    by (cases "open_slot lb (ur_slab r) (cq_user_data c)") simp_all
  have "of_bool (open_slot lb (ur_slab r) (cq_user_data c)) \<le> (1 :: nat)" by simp
  with pos sum[of "cq_user_data c"] have "count (in_flight v (ur_uring r)) (cq_user_data c) = 0" by linarith
  then show "cq_user_data c \<notin># in_flight v (ur_uring r)" by (simp add: count_eq_zero_iff)
qed

lemma handle_cqe_inv:
  assumes "ring_ok lb v" and "ring_inv lb v r owned"
  shows "\<exists>r'. handle_cqe lb r = Some (Ok (woken_by lb (ur_slab r) (arrived v (ur_uring r))), r') \<and>
    ring_inv lb v r' owned \<and> arrived v (ur_uring r') = [] \<and>
    sl_get lb (ur_slab r') = sl_get lb (ur_slab r) ++ filled_slots (arrived v (ur_uring r))"
proof -
  let ?cs = "arrived v (ur_uring r)"
  note arr = ring_inv_arrived[OF assms(2)]
  obtain s u where loop: "handle_cqe_loop lb [] (ur_slab r) (ur_uring r) = Some (Ok (), woken_by lb (ur_slab r) ?cs, s, u)"
    and u: "arrived v u = []" "in_flight v u = in_flight v (ur_uring r)"
    and get: "sl_get lb s = sl_get lb (ur_slab r) ++ filled_slots ?cs"
    using handle_cqe_loop_returns[OF assms(1) refl arr(1), of "ur_slab r" "[]"] arr(2) by auto
  have filled: "sl_get lb s i = (if i \<in> cq_user_data ` set ?cs then filled_slots ?cs i else sl_get lb (ur_slab r) i)" for i
    using filled_slots_None[of ?cs i] unfolding get by (cases "filled_slots ?cs i") (auto simp: map_add_def)
  have hit: "\<exists>c. sl_get lb s i = Some (Completed c) \<and> cq_user_data c = i" if "i \<in> cq_user_data ` set ?cs" for i
    using that filled[of i] filled_slots_Some[of ?cs i] filled_slots_None[of ?cs i] by force
  have inv: "ring_inv lb v \<lparr>ur_uring = u, ur_slab = s\<rparr> owned"
    unfolding ring_inv_def
  proof (intro conjI allI impI)
    fix i
    show "count owned i = of_bool (sl_get lb (ur_slab \<lparr>ur_uring = u, ur_slab = s\<rparr>) i \<noteq> None)"
    proof (cases "i \<in> cq_user_data ` set ?cs")
      case True
      with arr(2) have "sl_get lb (ur_slab r) i \<noteq> None" by (auto simp: open_slot_def)
      with hit[OF True] assms(2) show ?thesis by (auto simp: ring_inv_def)
    next
      case False
      with filled[of i] assms(2) show ?thesis by (simp add: ring_inv_def)
    qed
    show "count (unfetched v (ur_uring \<lparr>ur_uring = u, ur_slab = s\<rparr>)) i =
        of_bool (open_slot lb (ur_slab \<lparr>ur_uring = u, ur_slab = s\<rparr>) i)"
    proof (cases "i \<in> cq_user_data ` set ?cs")
      case True
      with arr(3) have "count (in_flight v (ur_uring r)) i = 0" by (auto simp: count_eq_zero_iff)
      with hit[OF True] u show ?thesis by (auto simp: unfetched_def open_slot_def)
    next
      case False
      then have "count (mset (map cq_user_data ?cs)) i = 0" by (simp add: count_eq_zero_iff del: mset_map)
      then have "count (unfetched v (ur_uring r)) i = count (in_flight v (ur_uring r)) i" by (simp add: unfetched_def)
      moreover have "open_slot lb s i \<longleftrightarrow> open_slot lb (ur_slab r) i" using filled[of i] False by (simp add: open_slot_def)
      moreover have "unfetched v u = in_flight v (ur_uring r)" using u by (simp add: unfetched_def)
      ultimately show ?thesis using assms(2) by (simp add: ring_inv_def)
    qed
    fix c
    assume "sl_get lb (ur_slab \<lparr>ur_uring = u, ur_slab = s\<rparr>) i = Some (Completed c)"
    then show "cq_user_data c = i"
      using hit[of i] filled[of i] assms(2) by (auto simp: ring_inv_def split: if_splits)
  qed
  with loop u get show ?thesis by (simp add: handle_cqe_def)
qed

lemma uring_submit_inv:
  assumes "ring_ok lb v" and "ring_inv lb v r owned"
  shows "\<exists>n r'. uring_submit lb r = (Ok n, r') \<and> ring_inv lb v r' owned"
proof -
  obtain n u where u: "rg_submit lb (ur_uring r) = (Ok n, u)"
    using assms(1) unfolding ring_ok_def submits_ok_def by blast
  with assms(1) have "ring_progress v (ur_uring r) u" unfolding ring_ok_def ring_spec_def by blast
  with assms(2) have "ring_inv lb v (r\<lparr>ur_uring := u\<rparr>) owned" by (simp add: ring_inv_def progress_unfetched)
  with u show ?thesis by (simp add: uring_submit_def)
qed

section \<open>Every program keeps the invariant\<close>

definition op_slots :: "uring_op \<Rightarrow> nat multiset" where
  "op_slots op = (case op_inner op of None \<Rightarrow> {#} | Some i \<Rightarrow> {#i#})"

text \<open>The slots that the live futures of a program own.\<close>

definition owned_slots :: "('s, 'u) ring_world \<Rightarrow> nat multiset" where
  "owned_slots w = sum_list (map op_slots (rw_ops w)) + sum_list (map task_slots (rw_tasks w))"

definition world_inv :: "('s, 'e, 'u) ring_libs \<Rightarrow> 'u ring_view \<Rightarrow> ('s, 'u) ring_world \<Rightarrow> bool" where
  "world_inv lb v w \<longleftrightarrow> (\<forall>op\<in>set (rw_ops w). op_inner op \<noteq> None) \<and> ring_inv lb v (rw_ring w) (owned_slots w)"

lemma sum_list_remove_nth:
  fixes f :: "'a \<Rightarrow> 'b multiset"
  assumes "n < length xs"
  shows "sum_list (map f xs) = f (xs ! n) + sum_list (map f (remove_nth n xs))"
    and "sum_list (map f (xs[n := y])) = f y + sum_list (map f (remove_nth n xs))"
proof -
  show "sum_list (map f xs) = f (xs ! n) + sum_list (map f (remove_nth n xs))"
    by (subst id_take_nth_drop[OF assms]) (simp add: remove_nth_def)
  show "sum_list (map f (xs[n := y])) = f y + sum_list (map f (remove_nth n xs))"
    by (simp add: upd_conv_take_nth_drop[OF assms] remove_nth_def)
qed

lemma set_remove_nth: "set (remove_nth n xs) \<subseteq> set xs"
  by (auto simp: remove_nth_def dest: in_set_takeD in_set_dropD)

lemma world_inv_op:
  assumes "world_inv lb v w" and "n < length (rw_ops w)"
  obtains i where "rw_ops w ! n = \<lparr>op_inner = Some i\<rparr>"
    and "owned_slots w = add_mset i (sum_list (map op_slots (remove_nth n (rw_ops w))) + sum_list (map task_slots (rw_tasks w)))"
proof -
  have "op_inner (rw_ops w ! n) \<noteq> None" using assms by (simp add: world_inv_def)
  then obtain i where "op_inner (rw_ops w ! n) = Some i" by blast
  then have i: "rw_ops w ! n = \<lparr>op_inner = Some i\<rparr>" by (cases "rw_ops w ! n") simp
  then show thesis
    using that sum_list_remove_nth(1)[OF assms(2), of op_slots] by (simp add: owned_slots_def op_slots_def)
qed

lemma perform_push_inv:
  assumes "ring_ok lb v" and "world_inv lb v w"
  shows "\<exists>w'. perform lb (PushOp e) w = Some (Ok (), w') \<and> world_inv lb v w'"
proof -
  obtain i r where "uring_push lb e (rw_ring w) = Some (Ok \<lparr>op_inner = Some i\<rparr>, r)" "ring_inv lb v r (add_mset i (owned_slots w))"
    using uring_push_inv[OF assms(1)] assms(2) unfolding world_inv_def by blast
  with assms(2) show ?thesis by (auto simp: world_inv_def owned_slots_def op_slots_def)
qed

lemma perform_poll_inv:
  assumes "ring_ok lb v" and "world_inv lb v w"
  shows "\<exists>w'. perform lb (PollOp n k) w = Some (Ok (), w') \<and> world_inv lb v w'"
proof (cases "n < length (rw_ops w)")
  case True
  from assms(2) True obtain i where i: "rw_ops w ! n = \<lparr>op_inner = Some i\<rparr>" "i \<in># owned_slots w"
    by (rule world_inv_op) simp
  obtain p r where "op_inner_poll lb k i (rw_ring w) = (Ok p, r)" "ring_inv lb v r (owned_slots w)"
    using op_inner_poll_inv[OF assms(1) _ i(2)] assms(2) unfolding world_inv_def by blast
  with assms(2) True i show ?thesis by (simp add: op_poll_def world_inv_def owned_slots_def)
qed (use assms(2) in simp)

lemma perform_drop_inv:
  assumes "ring_ok lb v" and "world_inv lb v w"
  shows "\<exists>w'. perform lb (DropOp n) w = Some (Ok (), w') \<and> world_inv lb v w'"
proof (cases "n < length (rw_ops w)")
  case True
  let ?rest = "sum_list (map op_slots (remove_nth n (rw_ops w))) + sum_list (map task_slots (rw_tasks w))"
  from assms(2) True obtain i where i: "rw_ops w ! n = \<lparr>op_inner = Some i\<rparr>" "owned_slots w = add_mset i ?rest"
    by (rule world_inv_op)
  obtain t r where step: "op_drop lb False (rw_ops w ! n) (rw_ring w) = Some (Ok t, r)" "ring_inv lb v r (left_slots t + ?rest)"
    using op_drop_inv[OF assms(1), of "rw_ring w" i ?rest False] assms(2) i unfolding world_inv_def by auto
  have "\<forall>op\<in>set (remove_nth n (rw_ops w)). op_inner op \<noteq> None"
    using assms(2) set_remove_nth[of n "rw_ops w"] by (auto simp: world_inv_def)
  moreover have "left_slots t + ?rest = sum_list (map op_slots (remove_nth n (rw_ops w))) +
      sum_list (map task_slots (rw_tasks w @ (case t of None \<Rightarrow> [] | Some t \<Rightarrow> [t])))"
    by (cases t) (simp_all add: left_slots_def)
  ultimately show ?thesis using True step(1) step(2)[unfolded \<open>left_slots t + ?rest = _\<close>]
    by (cases t) (simp_all add: world_inv_def owned_slots_def)
qed (use assms(2) in simp)

lemma perform_task_inv:
  assumes "ring_ok lb v" and "world_inv lb v w"
  shows "\<exists>w'. perform lb (PollTask n k) w = Some (Ok (), w') \<and> world_inv lb v w'"
proof (cases "n < length (rw_tasks w)")
  case True
  let ?rest = "sum_list (map op_slots (rw_ops w)) + sum_list (map task_slots (remove_nth n (rw_tasks w)))"
  note sums = sum_list_remove_nth[OF True, of task_slots]
  have "owned_slots w = task_slots (rw_tasks w ! n) + ?rest" by (simp add: owned_slots_def sums(1))
  then obtain t r where step: "cleanup_poll lb k (rw_tasks w ! n) (rw_ring w) = (Ok t, r)" "ring_inv lb v r (left_slots t + ?rest)"
    using cleanup_poll_inv[OF assms(1), of "rw_ring w" "rw_tasks w ! n" ?rest k] assms(2) unfolding world_inv_def by auto
  have "left_slots t + ?rest = sum_list (map op_slots (rw_ops w)) + sum_list (map task_slots
      (case t of None \<Rightarrow> remove_nth n (rw_tasks w) | Some t \<Rightarrow> (rw_tasks w)[n := t]))"
    by (cases t) (simp_all add: left_slots_def sums(2))
  with True assms(2) step(1) step(2)[unfolded this] show ?thesis
    by (cases t) (simp_all add: world_inv_def owned_slots_def)
qed (use assms(2) in simp)

lemma perform_inv:
  assumes "ring_ok lb v" and "world_inv lb v w"
  shows "\<exists>w'. perform lb a w = Some (Ok (), w') \<and> world_inv lb v w'"
proof (cases a)
  case Listen
  obtain woken r where "handle_cqe lb (rw_ring w) = Some (Ok woken, r)" "ring_inv lb v r (owned_slots w)"
    using handle_cqe_inv[OF assms(1)] assms(2) unfolding world_inv_def by blast
  with Listen assms(2) show ?thesis by (simp add: world_inv_def owned_slots_def)
next
  case Park
  obtain n r where "uring_submit lb (rw_ring w) = (Ok n, r)" "ring_inv lb v r (owned_slots w)"
    using uring_submit_inv[OF assms(1)] assms(2) unfolding world_inv_def by blast
  with Park assms(2) show ?thesis by (simp add: world_inv_def owned_slots_def)
qed (simp_all only: perform_push_inv[OF assms] perform_poll_inv[OF assms] perform_drop_inv[OF assms] perform_task_inv[OF assms])

lemma reachable_world_inv:
  assumes "ring_ok lb v" and "ring_reachable lb v w"
  shows "world_inv lb v w"
  using assms(2)
proof (induction rule: ring_reachable.induct)
  case (rr_init u)
  then show ?case
    by (simp add: world_inv_def ring_inv_def owned_slots_def generic_new_def unfetched_def open_slot_def slab_laws(1)[OF assms(1)])
next
  case (rr_act w a w')
  with perform_inv[OF assms(1) rr_act.IH, of a] show ?case by simp
next
  case (rr_kernel w u)
  then show ?case by (simp add: world_inv_def ring_inv_def owned_slots_def progress_unfetched)
qed

lemma op_poll_completed:
  assumes "ring_ok lb v" and "ring_inv lb v r owned" and "i \<in># owned"
  shows "\<exists>p r'. op_poll lb k \<lparr>op_inner = Some i\<rparr> r = (Ok p, r') \<and> (\<forall>c. p = Ready c \<longrightarrow> cq_user_data c = i)"
proof -
  obtain p r' where "op_inner_poll lb k i r = (Ok p, r')"
    "\<forall>c. p = Ready c \<longrightarrow> r' = r \<and> sl_get lb (ur_slab r) i = Some (Completed c)"
    using op_inner_poll_inv[OF assms] by blast
  with assms(2) show ?thesis by (auto simp: op_poll_def ring_inv_def)
qed

lemma world_inv_member:
  assumes "world_inv lb v w" and "op \<in> set (rw_ops w)"
  obtains i where "op = \<lparr>op_inner = Some i\<rparr>" and "i \<in># owned_slots w"
proof -
  from assms(2) obtain n where n: "n < length (rw_ops w)" "rw_ops w ! n = op" by (auto simp: in_set_conv_nth)
  from assms(1) n(1) show thesis by (rule world_inv_op) (use that n(2) in auto)
qed

lemma handle_cqe_delivers:
  assumes "ring_ok lb v" and "ring_inv lb v r owned" and "c \<in> set (arrived v (ur_uring r))"
  shows "\<exists>woken r'. handle_cqe lb r = Some (Ok woken, r') \<and> ring_inv lb v r' owned \<and>
    sl_get lb (ur_slab r') (cq_user_data c) = Some (Completed c) \<and>
    (\<forall>k. sl_get lb (ur_slab r) (cq_user_data c) = Some (Waiting k) \<longrightarrow> k \<in> set woken)"
proof -
  let ?cs = "arrived v (ur_uring r)"
  obtain r' where r': "handle_cqe lb r = Some (Ok (woken_by lb (ur_slab r) ?cs), r')" "ring_inv lb v r' owned"
    "sl_get lb (ur_slab r') = sl_get lb (ur_slab r) ++ filled_slots ?cs"
    using handle_cqe_inv[OF assms(1,2)] by blast
  have "filled_slots ?cs (cq_user_data c) = Some (Completed c)"
    using ring_inv_arrived(1)[OF assms(2)] assms(3) by (intro map_of_is_SomeI) (auto simp: comp_def)
  then have "sl_get lb (ur_slab r') (cq_user_data c) = Some (Completed c)" by (simp add: r'(3) map_add_def)
  moreover have "k \<in> set (woken_by lb (ur_slab r) ?cs)" if "sl_get lb (ur_slab r) (cq_user_data c) = Some (Waiting k)" for k
    using that assms(3) by (auto simp: woken_by_def intro!: bexI[of _ c])
  ultimately show ?thesis using r'(1,2) by blast
qed


text \<open>C8: once the completion of an operation has arrived, the next turn of the listening task stores it and wakes
  the task that waits for it, and the next poll of its future yields exactly this completion.\<close>

theorem uring_completion_delivered:
  assumes "slab_spec lb" and "ring_spec lb v" and "submits_ok lb" and "ring_reachable lb v w"
    and "c \<in> set (arrived v (ur_uring (rw_ring w)))" and "op \<in> set (rw_ops w)" and "op_inner op = Some (cq_user_data c)"
  shows "\<exists>w'. perform lb Listen w = Some (Ok (), w') \<and> op_poll lb k op (rw_ring w') = (Ok (Ready c), rw_ring w') \<and>
    (\<forall>k'. sl_get lb (ur_slab (rw_ring w)) (cq_user_data c) = Some (Waiting k') \<longrightarrow> k' \<in> set (rw_woken w'))"
proof -
  have ok: "ring_ok lb v" using assms by (simp add: ring_ok_def)
  have inv: "ring_inv lb v (rw_ring w) (owned_slots w)"
    using reachable_world_inv[OF ok assms(4)] by (simp add: world_inv_def)
  obtain woken r where "handle_cqe lb (rw_ring w) = Some (Ok woken, r)" "sl_get lb (ur_slab r) (cq_user_data c) = Some (Completed c)"
    "\<forall>k'. sl_get lb (ur_slab (rw_ring w)) (cq_user_data c) = Some (Waiting k') \<longrightarrow> k' \<in> set woken"
    using handle_cqe_delivers[OF ok inv assms(5)] by blast
  with assms(7) show ?thesis by (auto simp: op_poll_def op_inner_poll_def)
qed

section \<open>A ring to run programs on\<close>

text \<open>A slab that reuses the first vacant key, and a ring with eight submission entries; an entry is its user
  data.\<close>

fun std_insert :: "lifecycle option list \<Rightarrow> lifecycle \<Rightarrow> nat \<times> lifecycle option list" where
  "std_insert [] v = (0, [Some v])"
| "std_insert (None # s) v = (0, Some v # s)"
| "std_insert (Some x # s) v = (case std_insert s v of (k, s) \<Rightarrow> (Suc k, Some x # s))"

definition std_get :: "lifecycle option list \<Rightarrow> nat \<Rightarrow> lifecycle option" where
  "std_get s k = (if k < length s then s ! k else None)"

record std_ring =
  sr_queued :: "nat list"
  sr_kernel :: "nat list"
  sr_done :: "cqe list"

definition ring_std :: "(lifecycle option list, nat, std_ring) ring_libs" where
  "ring_std = \<lparr>sl_new = [], sl_insert = std_insert, sl_get = std_get, sl_set = (\<lambda>s k v. s[k := Some v]),
     sl_remove = (\<lambda>s k. map_option (\<lambda>v. (v, s[k := None])) (std_get s k)),
     sqe_user_data = (\<lambda>e i. i), async_cancel = (\<lambda>i. 0),
     rg_push = (\<lambda>u e. if length (sr_queued u) < 8 then (True, u\<lparr>sr_queued := sr_queued u @ [e]\<rparr>) else (False, u)),
     rg_submit = (\<lambda>u. (Ok (length (sr_queued u)), u\<lparr>sr_queued := [], sr_kernel := sr_kernel u @ sr_queued u\<rparr>)),
     rg_next = (\<lambda>u. case sr_done u of [] \<Rightarrow> (None, u) | c # cs \<Rightarrow> (Some c, u\<lparr>sr_done := cs\<rparr>))\<rparr>"

definition view_std :: "std_ring ring_view" where
  "view_std = \<lparr>in_flight = (\<lambda>u. mset (sr_queued u) + mset (sr_kernel u)), arrived = sr_done,
     backlog = (\<lambda>u. length (sr_queued u))\<rparr>"

lemma std_get_Cons: "std_get (x # s) = (\<lambda>k. case k of 0 \<Rightarrow> x | Suc k \<Rightarrow> std_get s k)"
  by (auto simp: std_get_def fun_eq_iff split: nat.splits)

lemma std_insert_get:
  "std_insert s v = (k, s') \<Longrightarrow> std_get s k = None \<and> std_get s' = (std_get s)(k \<mapsto> v)"
proof (induction s v arbitrary: k s' rule: std_insert.induct)
  case (3 x s v)
  then show ?case by (auto simp: std_get_Cons fun_eq_iff split: prod.splits nat.splits)
qed (auto simp: std_get_Cons std_get_def fun_eq_iff split: nat.splits)

lemma ring_std_ok: "slab_spec ring_std" "ring_spec ring_std view_std" "submits_ok ring_std"
proof -
  show "slab_spec ring_std"
    using std_insert_get by (auto simp: slab_spec_def ring_std_def std_get_def fun_eq_iff split: if_splits)
  show "ring_spec ring_std view_std"
    by (auto simp: ring_spec_def ring_std_def view_std_def ring_progress_def split: list.splits if_splits)
  show "submits_ok ring_std" by (simp add: submits_ok_def ring_std_def)
qed

text \<open>One operation was pushed, polled by task 7 and submitted; its completion has arrived.\<close>

definition nop_done :: cqe where
  "nop_done = \<lparr>cq_user_data = 0, cq_result = 0, cq_flags = 0\<rparr>"

definition ring_example :: "(lifecycle option list, std_ring) ring_world" where
  "ring_example = \<lparr>rw_ring = \<lparr>ur_uring = \<lparr>sr_queued = [], sr_kernel = [], sr_done = [nop_done]\<rparr>, ur_slab = [Some (Waiting 7)]\<rparr>,
     rw_ops = [\<lparr>op_inner = Some 0\<rparr>], rw_tasks = [], rw_woken = []\<rparr>"

lemma ring_example_reachable: "ring_reachable ring_std view_std ring_example"
proof -
  let ?u = "\<lparr>sr_queued = [], sr_kernel = [], sr_done = []\<rparr>"
  let ?w0 = "\<lparr>rw_ring = generic_new ring_std ?u, rw_ops = [], rw_tasks = [], rw_woken = []\<rparr>"
  let ?w3 = "ring_example\<lparr>rw_ring := \<lparr>ur_uring = ?u\<lparr>sr_kernel := [0]\<rparr>, ur_slab = [Some (Waiting 7)]\<rparr>\<rparr>"
  have "ring_reachable ring_std view_std ?w0" by (rule rr_init) (simp_all add: view_std_def)
  moreover have "perform ring_std (PushOp 0) ?w0 =
      Some (Ok (), ring_example\<lparr>rw_ring := \<lparr>ur_uring = ?u\<lparr>sr_queued := [0]\<rparr>, ur_slab = [Some Submitted]\<rparr>\<rparr>)"
    by (simp add: uring_push_def generic_new_def ring_std_def push_loop.simps ring_example_def)
  moreover have "perform ring_std (PollOp 0 7) (ring_example\<lparr>rw_ring := \<lparr>ur_uring = ?u\<lparr>sr_queued := [0]\<rparr>, ur_slab = [Some Submitted]\<rparr>\<rparr>) =
      Some (Ok (), ring_example\<lparr>rw_ring := \<lparr>ur_uring = ?u\<lparr>sr_queued := [0]\<rparr>, ur_slab = [Some (Waiting 7)]\<rparr>\<rparr>)"
    by (simp add: op_poll_def op_inner_poll_def ring_std_def std_get_def ring_example_def)
  moreover have "perform ring_std Park (ring_example\<lparr>rw_ring := \<lparr>ur_uring = ?u\<lparr>sr_queued := [0]\<rparr>, ur_slab = [Some (Waiting 7)]\<rparr>\<rparr>) =
      Some (Ok (), ?w3)"
    by (simp add: uring_submit_def ring_std_def ring_example_def)
  ultimately have w3: "ring_reachable ring_std view_std ?w3" by (meson rr_act)
  have "ring_reachable ring_std view_std (?w3\<lparr>rw_ring := (rw_ring ?w3)\<lparr>ur_uring := ?u\<lparr>sr_done := [nop_done]\<rparr>\<rparr>\<rparr>)"
    by (rule rr_kernel[OF w3]) (simp add: ring_progress_def view_std_def nop_done_def)
  then show ?thesis by (simp add: ring_example_def)
qed


theorem uring_completion_delivered_witness:
  "\<exists>w. perform ring_std Listen ring_example = Some (Ok (), w) \<and>
     op_poll ring_std 7 \<lparr>op_inner = Some 0\<rparr> (rw_ring w) = (Ok (Ready nop_done), rw_ring w) \<and> 7 \<in> set (rw_woken w)"
  using uring_completion_delivered[OF ring_std_ok ring_example_reachable, of nop_done "\<lparr>op_inner = Some 0\<rparr>" 7]
  by (auto simp: ring_example_def view_std_def nop_done_def ring_std_def std_get_def)

end
