(* ===== verification/Net_Uring.thy ===== *)
theory Net_Uring
  imports Luring Buffet_Pool
begin

text \<open>
  Reads and writes of a TCP connection over the ring (\<open>crates/buffet/src/net/net_uring.rs\<close>). A call of
  \<open>read_owned\<close> is a future with three parts: it pushes an entry with the address and the size of its buffer, it
  waits for the operation, and it turns the completion into the outcome of the call and gives the buffer back.
  Such a future can also be dropped while it waits; its operation and its buffer are then dropped too. The builders
  of the entries belong to the io_uring package and are arguments, and so is the conversion of an error number
  into an I/O error. The theorem of the last section is about the buffer of a read that is dropped.
\<close>

section \<open>Entries and completions\<close>

record 'e opcodes =
  oc_read :: "int \<Rightarrow> nat \<Rightarrow> u32 \<Rightarrow> 'e"
  oc_write :: "int \<Rightarrow> nat \<Rightarrow> u32 \<Rightarrow> 'e"
  oc_writev :: "int \<Rightarrow> (nat \<times> nat) list \<Rightarrow> u32 \<Rightarrow> 'e"
  oc_shutdown_wr :: "int \<Rightarrow> 'e"

text \<open>The negation of an \<open>i32\<close> overflows for the smallest one, and an error number is not negative.\<close>

definition error_for_errno :: "cqe \<Rightarrow> (nat, nat) result" where
  "error_for_errno c =
     (let res = sint (cq_result c) in
      if res < 0 then (if res = - (2 ^ 31) then Panic else Err (nat (- res))) else Ok (nat res))"

text \<open>\<open>BufResult\<close>: the outcome of an I/O call beside the buffer that was lent to it.\<close>

type_synonym ('a, 'b) buf_result = "('a, io_error) result \<times> 'b"

definition finish_io :: "(nat \<Rightarrow> io_error) \<Rightarrow> cqe \<Rightarrow> 'b \<Rightarrow> ((nat, 'b) buf_result, io_error) result" where
  "finish_io errno c buf =
     (case error_for_errno c of
        Ok ret \<Rightarrow> Ok (Ok ret, buf)
      | Err e \<Rightarrow> Ok (Err (errno e), buf)
      | Panic \<Rightarrow> Panic)"

section \<open>Waiting for an operation\<close>

text \<open>\<open>push(sqe).await\<close>: the operation is dropped as soon as it is ready.\<close>

definition await_op ::
    "('s, 'e, 'u) ring_libs \<Rightarrow> nat \<Rightarrow> uring_op \<Rightarrow> ('s, 'u) io_uring_async \<Rightarrow>
     ((cqe poll, io_error) result \<times> ('s, 'u) io_uring_async) option" where
  "await_op lb waker op r =
     (case op_poll lb waker op r of
        (Ok Pending, r) \<Rightarrow> Some (Ok Pending, r)
      | (Ok (Ready c), r) \<Rightarrow>
          map_option (\<lambda>(res, r). (and_then res (\<lambda>_. Ok (Ready c)), r)) (op_drop lb False op r)
      | (Err e, r) \<Rightarrow> Some (Err e, r)
      | (Panic, r) \<Rightarrow> Some (Panic, r))"

text \<open>A read or a write that is waited for: its operation and the buffer it owns.\<close>

record 'b io_future =
  if_op :: uring_op
  if_buf :: 'b

definition io_poll ::
    "(nat \<Rightarrow> io_error) \<Rightarrow> ('s, 'e, 'u) ring_libs \<Rightarrow> nat \<Rightarrow> 'b io_future \<Rightarrow> ('s, 'u) io_uring_async \<Rightarrow>
     (((nat, 'b) buf_result poll, io_error) result \<times> ('s, 'u) io_uring_async) option" where
  "io_poll errno lb waker fut r =
     map_option
       (\<lambda>(res, r). (and_then res (\<lambda>p.
          case p of
            Pending \<Rightarrow> Ok Pending
          | Ready c \<Rightarrow> and_then (finish_io errno c (if_buf fut)) (\<lambda>out. Ok (Ready out))), r))
       (await_op lb waker (if_op fut) r)"

definition start_io ::
    "('s, 'e, 'u) ring_libs \<Rightarrow> 'e \<Rightarrow> 'b \<Rightarrow> ('s, 'u) io_uring_async \<Rightarrow>
     (('b io_future, io_error) result \<times> ('s, 'u) io_uring_async) option" where
  "start_io lb sqe buf r =
     map_option (\<lambda>(res, r). (and_then res (\<lambda>op. Ok \<lparr>if_op = op, if_buf = buf\<rparr>), r)) (uring_push lb sqe r)"

section \<open>Reads and writes\<close>

definition io_buf_mut_stable_mut_ptr :: "buf_mut \<Rightarrow> nat" where
  "io_buf_mut_stable_mut_ptr bm = base_ptr_with_offset (bm_index bm) (bm_off bm)"

definition io_buf_mut_capacity :: "buf_mut \<Rightarrow> nat" where
  "io_buf_mut_capacity bm = bm_len bm"

definition read_owned ::
    "'e opcodes \<Rightarrow> ('s, 'e, 'u) ring_libs \<Rightarrow> int \<Rightarrow> buf_mut \<Rightarrow> ('s, 'u) io_uring_async \<Rightarrow>
     ((buf_mut io_future, io_error) result \<times> ('s, 'u) io_uring_async) option" where
  "read_owned oc lb fd buf r =
     start_io lb (oc_read oc fd (io_buf_mut_stable_mut_ptr buf) (of_nat (io_buf_mut_capacity buf))) buf r"

text \<open>A piece is its address beside its bytes; its length is converted with \<open>expect\<close>.\<close>

definition write_owned ::
    "'e opcodes \<Rightarrow> ('s, 'e, 'u) ring_libs \<Rightarrow> int \<Rightarrow> nat \<times> bytes \<Rightarrow> ('s, 'u) io_uring_async \<Rightarrow>
     (((nat \<times> bytes) io_future, io_error) result \<times> ('s, 'u) io_uring_async) option" where
  "write_owned oc lb fd buf r =
     (if length (snd buf) < 2 ^ 32 then
        start_io lb (oc_write oc fd (fst buf) (of_nat (length (snd buf)))) buf r
      else Some (Panic, r))"

definition writev_owned_uring ::
    "'e opcodes \<Rightarrow> ('s, 'e, 'u) ring_libs \<Rightarrow> int \<Rightarrow> (nat \<times> bytes) list \<Rightarrow> ('s, 'u) io_uring_async \<Rightarrow>
     ((unit io_future, io_error) result \<times> ('s, 'u) io_uring_async) option" where
  "writev_owned_uring oc lb fd pieces r =
     (let iovecs = map (\<lambda>(ptr, piece). (ptr, length piece)) pieces in
      start_io lb (oc_writev oc fd iovecs (of_nat (length iovecs))) () r)"

definition shutdown_wr ::
    "'e opcodes \<Rightarrow> ('s, 'e, 'u) ring_libs \<Rightarrow> int \<Rightarrow> ('s, 'u) io_uring_async \<Rightarrow>
     ((unit io_future, io_error) result \<times> ('s, 'u) io_uring_async) option" where
  "shutdown_wr oc lb fd r = start_io lb (oc_shutdown_wr oc fd) () r"

text \<open>Dropping a read that is waited for drops its operation, then its buffer.\<close>

definition read_owned_drop ::
    "('s, 'e, 'u) ring_libs \<Rightarrow> buf_mut io_future \<Rightarrow> ('s, 'u) io_uring_async \<Rightarrow> pool \<Rightarrow>
     ((cleanup option \<times> pool, io_error) result \<times> ('s, 'u) io_uring_async) option" where
  "read_owned_drop lb fut r p =
     map_option
       (\<lambda>(res, r). (and_then res (\<lambda>task. and_then (bm_drop p (if_buf fut)) (\<lambda>p. Ok (task, p))), r))
       (op_drop lb False (if_op fut) r)"

section \<open>What a completed call returns\<close>

lemma io_poll_completed:
  assumes "ring_ok lb v" and "ring_inv lb v r (add_mset i owned)" and "sl_get lb (ur_slab r) i = Some (Completed c)"
    and "finish_io errno c buf = Ok out"
  shows "\<exists>r'. io_poll errno lb k \<lparr>if_op = \<lparr>op_inner = Some i\<rparr>, if_buf = buf\<rparr> r = Some (Ok (Ready out), r') \<and>
    ring_inv lb v r' owned"
proof -
  obtain r' where "op_inner_drop lb False i r = (Ok (), r')" "ring_inv lb v r' owned"
    using op_inner_drop_inv[OF assms(1-3), of False] by auto
  with assms(3,4) show ?thesis
    by (simp add: io_poll_def await_op_def op_poll_def op_inner_poll_def op_drop_def)
qed

text \<open>A read over the ring, in any state that a program can reach: its operation is pushed with the address
  and the size of the buffer; when its completion has arrived, the next turn of the listening task and the next poll
  of the call return the number of bytes or the error of this completion together with the buffer, and the slot of
  the operation is free again.\<close>

lemma uring_read_returns:
  assumes "slab_spec lb" and "ring_spec lb v" and "submits_ok lb" and "ring_reachable lb v w"
    and "read_owned oc lb fd buf (rw_ring w) = Some (Ok fut, r)"
    and "ring_progress v (ur_uring r) u" and "c \<in> set (arrived v u)" and "op_inner (if_op fut) = Some (cq_user_data c)"
    and "finish_io errno c buf = Ok out"
  shows "\<exists>woken r1 r2. handle_cqe lb (r\<lparr>ur_uring := u\<rparr>) = Some (Ok woken, r1) \<and>
    io_poll errno lb k fut r1 = Some (Ok (Ready out), r2) \<and> sl_get lb (ur_slab r2) (cq_user_data c) = None"
proof -
  have ok: "ring_ok lb v" using assms by (simp add: ring_ok_def)
  have inv: "ring_inv lb v (rw_ring w) (owned_slots w)"
    using reachable_world_inv[OF ok assms(4)] by (simp add: world_inv_def)
  obtain i r0 where push: "uring_push lb (oc_read oc fd (io_buf_mut_stable_mut_ptr buf) (of_nat (io_buf_mut_capacity buf))) (rw_ring w) =
      Some (Ok \<lparr>op_inner = Some i\<rparr>, r0)"
    and r0: "ring_inv lb v r0 (add_mset i (owned_slots w))" "sl_get lb (ur_slab (rw_ring w)) i = None"
    using uring_push_inv[OF ok inv] by blast
  with assms(5,8) have fut: "fut = \<lparr>if_op = \<lparr>op_inner = Some i\<rparr>, if_buf = buf\<rparr>" "r = r0" "i = cq_user_data c"
    by (auto simp: read_owned_def start_io_def)
  have inv': "ring_inv lb v (r\<lparr>ur_uring := u\<rparr>) (add_mset i (owned_slots w))"
    using r0(1) fut(2) progress_unfetched[OF assms(6)] by (simp add: ring_inv_def)
  obtain woken r1 where r1: "handle_cqe lb (r\<lparr>ur_uring := u\<rparr>) = Some (Ok woken, r1)" "ring_inv lb v r1 (add_mset i (owned_slots w))"
    "sl_get lb (ur_slab r1) (cq_user_data c) = Some (Completed c)"
    using handle_cqe_delivers[OF ok inv', of c] assms(7) by auto
  obtain r2 where r2: "io_poll errno lb k fut r1 = Some (Ok (Ready out), r2)" "ring_inv lb v r2 (owned_slots w)"
    using io_poll_completed[OF ok r1(2) r1(3)[folded fut(3)] assms(9), of k] fut(1) by blast
  have "count (owned_slots w) i = 0" using inv r0(2) by (simp add: ring_inv_def)
  then have "sl_get lb (ur_slab r2) i = None" using r2(2) by (simp add: ring_inv_def)
  with r1(1) r2(1) fut(3) show ?thesis by blast
qed

section \<open>A read that is dropped\<close>

lemma op_drop_pending:
  assumes "ring_ok lb v" and "ring_inv lb v r (add_mset i owned)" and "sl_get lb (ur_slab r) i = Some Submitted"
  shows "\<exists>t r'. op_drop lb b \<lparr>op_inner = Some i\<rparr> r = Some (Ok t, r') \<and> i \<in># unfetched v (ur_uring r')"
proof -
  obtain j r' where push: "uring_push lb (async_cancel lb i) r = Some (Ok \<lparr>op_inner = Some j\<rparr>, r')"
    and r': "ring_inv lb v r' (add_mset j (add_mset i owned))" "sl_get lb (ur_slab r) j = None"
      "sl_get lb (ur_slab r') = (sl_get lb (ur_slab r))(j \<mapsto> Submitted)"
    using uring_push_inv[OF assms(1,2)] by blast
  then have "open_slot lb (ur_slab r') i" using assms(3) by (auto simp: open_slot_def)
  then have "count (unfetched v (ur_uring r')) i = 1" using r'(1) by (simp add: ring_inv_def)
  then have "i \<in># unfetched v (ur_uring r')" by (metis count_eq_zero_iff zero_neq_one)
  with push assms(3) show ?thesis by (simp add: op_drop_def)
qed

lemma last_handle_freed:
  assumes "pool_ok p hs" and "count hs (bm_index bm) = 1" and "pool_free p = []"
  shows "\<exists>p'. bm_drop p bm = (Ok p' :: (pool, io_error) result) \<and>
    (\<exists>p''. pool_alloc p' = Ok (\<lparr>bm_index = bm_index bm, bm_off = 0, bm_len = BUF_SIZE\<rparr>, p''))"
proof -
  let ?i = "bm_index bm" and ?rcs = "pool_ref_counts p"
  have "?i \<in># hs" using assms(2) by (metis count_eq_zero_iff zero_neq_one)
  with assms(1) have i: "?i < length ?rcs" by (auto simp: pool_ok_def)
  with assms(1,2) have rc: "?rcs ! ?i = 1" by (simp add: pool_ok_def)
  have "bm_drop p bm = (Ok (p\<lparr>pool_ref_counts := ?rcs[?i := 0], pool_free := [?i]\<rparr>) :: (pool, io_error) result)"
    using i rc assms(3) by (simp add: bm_drop_def pool_dec_def ref_count_add_def)
  moreover have "\<exists>p''. pool_alloc (p\<lparr>pool_ref_counts := ?rcs[?i := 0], pool_free := [?i]\<rparr>) =
      Ok (\<lparr>bm_index = ?i, bm_off = 0, bm_len = BUF_SIZE\<rparr>, p'')"
    using i by (simp add: pool_alloc_def ref_count_add_def)
  ultimately show ?thesis by blast
qed

text \<open>C9: a read that is dropped while it waits gives its buffer back to the pool at once, although the operation is
  still in flight: the cancellation is only queued. When the other buffers are in use, the next allocation hands out
  the memory that the kernel may still write to.\<close>

theorem dropped_read_buffer_reused:
  assumes "slab_spec lb" and "ring_spec lb v" and "submits_ok lb" and "ring_reachable lb v w"
    and "pool_ok p hs" and "count hs (bm_index buf) = 1" and "pool_free p = []"
  shows "\<exists>fut i r1 task p2 r2 bm p3.
    read_owned oc lb fd buf (rw_ring w) = Some (Ok fut, r1) \<and> op_inner (if_op fut) = Some i \<and>
    read_owned_drop lb fut r1 p = Some (Ok (task, p2), r2) \<and>
    i \<in># unfetched v (ur_uring r2) \<and>
    pool_alloc p2 = Ok (bm, p3) \<and> bm_index bm = bm_index buf"
proof -
  have ok: "ring_ok lb v" using assms by (simp add: ring_ok_def)
  have inv: "ring_inv lb v (rw_ring w) (owned_slots w)"
    using reachable_world_inv[OF ok assms(4)] by (simp add: world_inv_def)
  obtain i r1 where push: "uring_push lb (oc_read oc fd (io_buf_mut_stable_mut_ptr buf) (of_nat (io_buf_mut_capacity buf))) (rw_ring w) =
      Some (Ok \<lparr>op_inner = Some i\<rparr>, r1)"
    and r1: "ring_inv lb v r1 (add_mset i (owned_slots w))" "sl_get lb (ur_slab r1) i = Some Submitted"
    using uring_push_inv[OF ok inv] by (metis fun_upd_same)
  obtain task r2 where drop: "op_drop lb False \<lparr>op_inner = Some i\<rparr> r1 = Some (Ok task, r2)" "i \<in># unfetched v (ur_uring r2)"
    using op_drop_pending[OF ok r1] by blast
  obtain p2 p3 where pool: "bm_drop p buf = (Ok p2 :: (pool, io_error) result)"
    "pool_alloc p2 = Ok (\<lparr>bm_index = bm_index buf, bm_off = 0, bm_len = BUF_SIZE\<rparr>, p3)"
    using last_handle_freed[OF assms(5-7)] by blast
  have "read_owned oc lb fd buf (rw_ring w) = Some (Ok \<lparr>if_op = \<lparr>op_inner = Some i\<rparr>, if_buf = buf\<rparr>, r1)"
    using push by (simp add: read_owned_def start_io_def)
  moreover have "read_owned_drop lb \<lparr>if_op = \<lparr>op_inner = Some i\<rparr>, if_buf = buf\<rparr> r1 p = Some (Ok (task, p2), r2)"
    using drop(1) pool(1) by (simp add: read_owned_drop_def)
  ultimately show ?thesis using drop(2) pool(2) by fastforce
qed

definition opcodes_std :: "nat opcodes" where
  "opcodes_std = \<lparr>oc_read = (\<lambda>_ _ _. 0), oc_write = (\<lambda>_ _ _. 0), oc_writev = (\<lambda>_ _ _. 0), oc_shutdown_wr = (\<lambda>_. 0)\<rparr>"

lemma one_buf_pool_ok: "pool_ok one_buf {#0#}" "pool_free one_buf = []"
  using pool_reachable_inv[OF pr_alloc[OF pr_init one_buf_alloc]] by (simp_all add: one_buf_def)

theorem dropped_read_buffer_reused_witness:
  "\<exists>fut r1 task p2 r2 bm p3.
    read_owned opcodes_std ring_std 3 \<lparr>bm_index = 0, bm_off = 0, bm_len = BUF_SIZE\<rparr> (rw_ring ring_example) = Some (Ok fut, r1) \<and>
    read_owned_drop ring_std fut r1 one_buf = Some (Ok (task, p2), r2) \<and> pool_alloc p2 = Ok (bm, p3) \<and> bm_index bm = 0"
  using dropped_read_buffer_reused[OF ring_std_ok ring_example_reachable one_buf_pool_ok(1), of "\<lparr>bm_index = 0, bm_off = 0, bm_len = BUF_SIZE\<rparr>"]
    one_buf_pool_ok(2) by fastforce

text \<open>In the state of the example a second operation gets slot 1; the kernel reports five bytes for it.\<close>

lemma uring_read_returns_witness:
  "\<exists>fut r woken r1 r2. let buf = \<lparr>bm_index = 0, bm_off = 0, bm_len = BUF_SIZE\<rparr>;
       c = \<lparr>cq_user_data = 1, cq_result = 5, cq_flags = 0\<rparr>; u = \<lparr>sr_queued = [], sr_kernel = [], sr_done = [nop_done, c]\<rparr> in
     read_owned opcodes_std ring_std 3 buf (rw_ring ring_example) = Some (Ok fut, r) \<and>
     handle_cqe ring_std (r\<lparr>ur_uring := u\<rparr>) = Some (Ok woken, r1) \<and>
     io_poll OtherIo ring_std 7 fut r1 = Some (Ok (Ready (Ok 5, buf)), r2)"
proof -
  let ?buf = "\<lparr>bm_index = 0, bm_off = 0, bm_len = BUF_SIZE\<rparr>" and ?c = "\<lparr>cq_user_data = 1, cq_result = 5, cq_flags = 0\<rparr>"
  let ?u = "\<lparr>sr_queued = [], sr_kernel = [], sr_done = [nop_done, ?c]\<rparr>"
  let ?r = "\<lparr>ur_uring = \<lparr>sr_queued = [1], sr_kernel = [], sr_done = [nop_done]\<rparr>, ur_slab = [Some (Waiting 7), Some Submitted]\<rparr>"
  have read: "read_owned opcodes_std ring_std 3 ?buf (rw_ring ring_example) =
      Some (Ok \<lparr>if_op = \<lparr>op_inner = Some 1\<rparr>, if_buf = ?buf\<rparr>, ?r)"
    by (simp add: read_owned_def start_io_def uring_push_def ring_std_def push_loop.simps ring_example_def)
  have "finish_io OtherIo ?c ?buf = Ok (Ok 5, ?buf)" by (simp add: finish_io_def error_for_errno_def)
  moreover have "ring_progress view_std (ur_uring ?r) ?u" by (simp add: ring_progress_def view_std_def)
  ultimately show ?thesis
    using uring_read_returns[OF ring_std_ok ring_example_reachable read, of ?u ?c OtherIo "(Ok 5, ?buf)" 7] read
    by (auto simp: Let_def view_std_def)
qed

end
