(* ===== verification/Buffet_Read.thy ===== *)
theory Buffet_Read
  imports Buffet_Roll Buffet_Piece Loona_Util
begin

text \<open>
  Reading into a rolling buffer (\<open>RollMut::read_into\<close>, \<open>crates/buffet/src/roll.rs\<close>) on the explicit memory of
  \<open>Buffet_Roll\<close>, and the strings over rolls. The callers are modelled on the filled bytes (\<open>Loona_Util\<close>); the
  refinement theorem shows that what they see is what happens in memory, and that a read never
  changes a roll that was taken before.
\<close>

section \<open>Reading\<close>

text \<open>\<open>ReadInto\<close>: the memory behind the filled part that is lent to the reader. A reader takes its size to the
  bytes that it writes to the beginning of it; the buffer counts them as \<open>u32\<close>.\<close>

record read_into_buf =
  ri_buf :: roll_mut
  ri_off :: nat
  ri_cap :: nat

definition ri_fill :: "memory \<Rightarrow> read_into_buf \<Rightarrow> bytes \<Rightarrow> memory" where
  "ri_fill m ri bs = st_write m (rm_storage (ri_buf ri)) (ri_off ri) bs"

definition rm_read_into ::
    "('s \<Rightarrow> nat \<Rightarrow> (bytes, io_error) result \<times> 's) \<Rightarrow> nat \<Rightarrow> memory \<Rightarrow> roll_mut \<Rightarrow> 's \<Rightarrow>
     (nat, io_error) result \<times> roll_mut \<times> memory \<times> 's" where
  "rm_read_into rd limit m r s =
     (let read_cap = min limit (rm_cap m r) in
      if \<not> 0 < read_cap then (Panic, r, m, s)
      else
        (case (try_u32 read_cap :: (nat, io_error) result) of
           Ok cap \<Rightarrow>
             let ri = \<lparr>ri_buf = r, ri_off = rm_len r, ri_cap = cap\<rparr> in
             (case rd s (ri_cap ri) of
                (Ok bs, s) \<Rightarrow>
                  (case (add_u32 (rm_len (ri_buf ri)) (as_u32 (length bs)) :: (nat, io_error) result) of
                     Ok len \<Rightarrow> (Ok (length bs), (ri_buf ri)\<lparr>rm_len := len\<rparr>, ri_fill m ri bs, s)
                   | Err e \<Rightarrow> (Err e, ri_buf ri, ri_fill m ri bs, s)
                   | Panic \<Rightarrow> (Panic, ri_buf ri, ri_fill m ri bs, s))
              | (Err e, s) \<Rightarrow> (Err e, ri_buf ri, m, s)
              | (Panic, s) \<Rightarrow> (Panic, ri_buf ri, m, s))
         | Err e \<Rightarrow> (Err e, r, m, s)
         | Panic \<Rightarrow> (Panic, r, m, s)))"

text \<open>A reader stays within the memory that is lent to it.\<close>

definition reads_within :: "('s \<Rightarrow> nat \<Rightarrow> (bytes, io_error) result \<times> 's) \<Rightarrow> bool" where
  "reads_within rd \<longleftrightarrow> (\<forall>s n bs s'. rd s n = (Ok bs, s') \<longrightarrow> length bs \<le> n)"

lemma rm_read_into_cases:
  assumes "rm_wf m hs r" and "0 < min limit (rm_cap m r)"
    and "reads_within rd"
  shows "rm_read_into rd limit m r s =
    (case rd s (min limit (rm_cap m r)) of
       (Ok bs, s) \<Rightarrow> (Ok (length bs), r\<lparr>rm_len := rm_len r + length bs\<rparr>, st_write m (rm_storage r) (rm_len r) bs, s)
     | (Err e, s) \<Rightarrow> (Err e, r, m, s)
     | (Panic, s) \<Rightarrow> (Panic, r, m, s))"
proof -
  have len: "st_len m (rm_storage r) < 2 ^ 32" "rm_len r \<le> st_len m (rm_storage r)"
    using assms(1) st_len_bound by (auto simp: rm_wf_def)
  then have "rm_cap m r < 2 ^ 32" by (simp add: rm_cap_def)
  then have cap: "min limit (rm_cap m r) < 2 ^ 32" by (rule min.strict_coboundedI2)
  obtain res s' where rd: "rd s (min limit (rm_cap m r)) = (res, s')" by fastforce
  show ?thesis
  proof (cases res)
    case (Ok bs)
    with assms(3) rd have "length bs \<le> min limit (rm_cap m r)" unfolding reads_within_def by blast
    then have "length bs \<le> rm_cap m r" by simp
    with len have "rm_len r + length bs < 2 ^ 32" "length bs < 2 ^ 32" by (auto simp: rm_cap_def)
    with assms(2) cap rd Ok show ?thesis
      by (simp add: rm_read_into_def Let_def try_u32_def add_u32_def as_u32_def ri_fill_def del: min_less_iff_conj)
  qed (use assms(2) cap rd in \<open>simp_all add: rm_read_into_def Let_def try_u32_def del: min_less_iff_conj\<close>)
qed

lemma rm_read_into_ok:
  assumes "rm_wf m hs r" and "reads_within rd"
    and "rm_read_into rd limit m r s = (res, r', m', s')" and "0 < min limit (rm_cap m r)"
    and "rd s (min limit (rm_cap m r)) = (Ok bs, s1)"
  shows "res = Ok (length bs)" and "s' = s1" and "rm_wf m' hs r'" and "rm_contents m' r' = rm_contents m r @ bs"
    and "roll_wf m roll \<Longrightarrow> roll_below r roll \<Longrightarrow> roll_deref m' roll = (roll_deref m roll :: (bytes, buf_error) result)"
proof -
  have "length bs \<le> rm_cap m r" using assms(2,5) unfolding reads_within_def by fastforce
  then have fits: "rm_len r + length bs \<le> st_len m (rm_storage r)"
    using assms(1) by (auto simp: rm_wf_def rm_cap_def)
  have wf: "mem_ok m hs" "st_wf m (rm_storage r)" using assms(1) by (auto simp: rm_wf_def)
  have "rm_read_into rd limit m r s =
      (Ok (length bs), r\<lparr>rm_len := rm_len r + length bs\<rparr>, st_write m (rm_storage r) (rm_len r) bs, s1)"
    using rm_read_into_cases[OF assms(1,4,2), of s] assms(5) by simp
  with assms(3) have new: "res = Ok (length bs)" "r' = r\<lparr>rm_len := rm_len r + length bs\<rparr>"
    "m' = st_write m (rm_storage r) (rm_len r) bs" "s' = s1" by auto
  show "res = Ok (length bs)" "s' = s1" by fact+
  show "rm_wf m' hs r'" using st_write_same[OF wf fits] assms(1) fits by (simp add: rm_wf_def new)
  show "rm_contents m' r' = rm_contents m r @ bs"
    using st_read_write_append[OF wf fits] by (simp add: rm_contents_def new)
  show "roll_deref m' roll = (roll_deref m roll :: (bytes, buf_error) result)" if "roll_wf m roll" "roll_below r roll"
    using st_write_keeps_view(1)[OF assms(1) fits that] by (simp add: new)
qed

lemma rm_read_into_same:
  assumes "rm_wf m hs r" and "reads_within rd"
    and "rm_read_into rd limit m r s = (res, r', m', s')"
    and "\<not> (0 < min limit (rm_cap m r) \<and> (\<exists>bs. fst (rd s (min limit (rm_cap m r))) = Ok bs))"
  shows "r' = r" and "m' = m" and "\<And>n. res \<noteq> Ok n"
proof -
  have "r' = r \<and> m' = m \<and> (\<forall>n. res \<noteq> Ok n)"
  proof (cases "0 < min limit (rm_cap m r)")
    case True
    obtain out s1 where rd: "rd s (min limit (rm_cap m r)) = (out, s1)" by fastforce
    with True assms(4) have "\<forall>bs. out \<noteq> Ok bs" by simp
    then show ?thesis using rm_read_into_cases[OF assms(1) True assms(2), of s] rd assms(3) by (cases out) auto
  qed (use assms(3) in \<open>auto simp: rm_read_into_def Let_def\<close>)
  then show "r' = r" and "m' = m" and "\<And>n. res \<noteq> Ok n" by simp_all
qed

lemma rm_read_into_keeps:
  assumes "rm_wf m hs r" and "reads_within rd"
    and "rm_read_into rd limit m r s = (res, r', m', s')"
  shows "rm_wf m' hs r'"
    and "roll_wf m roll \<Longrightarrow> roll_below r roll \<Longrightarrow> roll_deref m' roll = (roll_deref m roll :: (bytes, buf_error) result)"
proof -
  note ok = rm_read_into_ok[OF assms] and same = rm_read_into_same[OF assms]
  consider bs s1 where "0 < min limit (rm_cap m r)" "rd s (min limit (rm_cap m r)) = (Ok bs, s1)"
    | "\<not> (0 < min limit (rm_cap m r) \<and> (\<exists>bs. fst (rd s (min limit (rm_cap m r))) = Ok bs))"
    by (metis prod.collapse)
  then have "rm_wf m' hs r' \<and> (roll_wf m roll \<longrightarrow> roll_below r roll \<longrightarrow>
      roll_deref m' roll = (roll_deref m roll :: (bytes, buf_error) result))"
  proof cases
    case 1
    then show ?thesis using ok(3,5)[OF 1] by blast
  next
    case 2
    then show ?thesis using same(1,2)[OF 2] assms(1) by simp
  qed
  then show "rm_wf m' hs r'"
    and "roll_wf m roll \<Longrightarrow> roll_below r roll \<Longrightarrow> roll_deref m' roll = (roll_deref m roll :: (bytes, buf_error) result)"
    by blast+
qed

text \<open>C19: reading into a rolling buffer in memory does what the callers' model of it on the filled bytes does, on every
  outcome of the reader: the bytes read are appended to the filled part and counted, an error leaves buffer and memory
  as they were, an empty read is refused; and the rolls that were taken from the buffer before keep their bytes.\<close>

theorem read_into_refines:
  assumes "rm_wf m hs r" and "reads_within rd"
    and "rm_read_into rd limit m r s = (res, r', m', s')"
  shows "rm_wf m' hs r' \<and>
    (\<exists>bs. rm_contents m' r' = rm_contents m r @ bs \<and>
       read_into \<lparr>rd_room = \<lambda>s _. (Ok (rm_cap m r), s), rd_owned = rd\<rparr> limit (rm_contents m r) s =
         (case res of Ok n \<Rightarrow> Ok bs | Err e \<Rightarrow> Err (ReadError e) | Panic \<Rightarrow> Panic, s') \<and>
       (case res of Ok n \<Rightarrow> n = length bs | _ \<Rightarrow> r' = r \<and> m' = m)) \<and>
    (\<forall>roll. roll_wf m roll \<and> roll_below r roll \<longrightarrow>
       roll_deref m' roll = (roll_deref m roll :: (bytes, buf_error) result))"
proof -
  let ?n = "min limit (rm_cap m r)"
  have "\<exists>bs. rm_contents m' r' = rm_contents m r @ bs \<and>
      read_into \<lparr>rd_room = \<lambda>s _. (Ok (rm_cap m r), s), rd_owned = rd\<rparr> limit (rm_contents m r) s =
        (case res of Ok n \<Rightarrow> Ok bs | Err e \<Rightarrow> Err (ReadError e) | Panic \<Rightarrow> Panic, s') \<and>
      (case res of Ok n \<Rightarrow> n = length bs | _ \<Rightarrow> r' = r \<and> m' = m)"
  proof (cases "0 < ?n")
    case False
    with assms(3) show ?thesis by (auto simp: rm_read_into_def read_into_def Let_def)
  next
    case True
    obtain out s1 where rd: "rd s ?n = (out, s1)" by fastforce
    show ?thesis
    proof (cases out)
      case (Ok bs)
      from rm_read_into_ok(1,2,4)[OF assms True rd[unfolded Ok]] True rd Ok show ?thesis
        by (simp add: read_into_def Let_def)
    qed (use rm_read_into_cases[OF assms(1) True assms(2), of s] assms(3) rd True in \<open>auto simp: read_into_def Let_def\<close>)
  qed
  then show ?thesis using rm_read_into_keeps[OF assms] by blast
qed

text \<open>Eight bytes read from a pipe into a fresh buffer of the pool.\<close>

definition eight_bytes :: "nat \<Rightarrow> nat \<Rightarrow> (bytes, io_error) result \<times> nat" where
  "eight_bytes s n = (Ok (replicate (min n 8) 7), Suc s)"

theorem read_into_refines_witness:
  "\<exists>r' m'. rm_read_into eight_bytes 16 demo_memory demo_roll 0 = (Ok 8, r', m', 1) \<and>
     rm_contents m' r' = replicate 8 7"
proof -
  have cap: "min 16 (rm_cap demo_memory demo_roll) = 16" by (simp add: rm_cap_def demo_roll_def BUF_SIZE_def)
  have within: "reads_within eight_bytes" by (simp add: reads_within_def eight_bytes_def)
  then obtain r' m' where run: "rm_read_into eight_bytes 16 demo_memory demo_roll 0 = (Ok 8, r', m', 1)"
    using rm_read_into_cases[OF demo_roll_wf, of 16 eight_bytes 0] by (simp add: cap eight_bytes_def)
  have "\<exists>bs. rm_contents m' r' = rm_contents demo_memory demo_roll @ bs \<and>
      read_into \<lparr>rd_room = \<lambda>s _. (Ok (rm_cap demo_memory demo_roll), s), rd_owned = eight_bytes\<rparr> 16
        (rm_contents demo_memory demo_roll) 0 = (Ok bs, 1)"
    using read_into_refines[OF demo_roll_wf within run] by auto
  with run cap show ?thesis by (auto simp: demo_contents read_into_def eight_bytes_def Let_def)
qed

section \<open>Strings\<close>

text \<open>\<open>RollStr\<close>: a roll whose bytes are UTF-8. \<open>None\<close> is the \<open>Utf8Error\<close>.\<close>

record roll_str =
  rs_roll :: roll

definition roll_to_string :: "memory \<Rightarrow> roll \<Rightarrow> (roll_str option, 'e) result" where
  "roll_to_string m roll =
     and_then (roll_deref m roll) (\<lambda>bs. Ok (if from_utf8 bs then Some \<lparr>rs_roll = roll\<rparr> else None))"

definition roll_to_string_unchecked :: "roll \<Rightarrow> roll_str" where
  "roll_to_string_unchecked roll = \<lparr>rs_roll = roll\<rparr>"

definition roll_str_into_inner :: "roll_str \<Rightarrow> roll" where
  "roll_str_into_inner s = rs_roll s"

text \<open>A string stays valid: its roll keeps its bytes while the buffer is read into.\<close>

lemma roll_to_string_stable:
  assumes "rm_wf m hs r" and "reads_within rd"
    and "rm_read_into rd limit m r s = (res, r', m', s')" and "roll_wf m roll" and "roll_below r roll"
  shows "roll_to_string m' roll = (roll_to_string m roll :: (roll_str option, buf_error) result)"
proof -
  have "roll_deref m' roll = (roll_deref m roll :: (bytes, buf_error) result)"
    using rm_read_into_keeps(2)[OF assms] .
  then show ?thesis by (simp add: roll_to_string_def)
qed

end
